(* ===== verification/Revl_Prelude.thy ===== *)
theory Revl_Prelude
  imports Main "HOL-Library.AList" "HOL-Library.Char_ord" "HOL-Library.List_Lexorder"
    "HOL-Library.Sublist"
begin

section \<open>Shared material: results, Python dictionaries and Python strings\<close>

text \<open>
  What the components of revl share.  A fallible Python function returns a sum
  \<open>'e + 'a\<close>, with \<open>Inl\<close> for the exception it raises.  A Python \<^verbatim>\<open>dict\<close>
  is an association list in insertion order: \<open>AList.update\<close> overwrites an
  entry in place or appends a new one, as item assignment does, and \<open>AList.delete\<close>
  removes it.  A Python string is a \<open>string\<close>; only code points below 256 are
  represented, and where a library call classifies characters (\<^verbatim>\<open>str.strip\<close>,
  \<^verbatim>\<open>str.lower\<close>, \<^verbatim>\<open>int()\<close>) the classification is that of Latin-1.
\<close>

named_theorems result_simps \<open>inversion of the result combinators\<close>
named_theorems pystr_simps \<open>rewriting of Python string operations\<close>


subsection \<open>Results\<close>

fun res_bind :: "'e + 'a \<Rightarrow> ('a \<Rightarrow> 'e + 'b) \<Rightarrow> 'e + 'b" where
  "res_bind (Inl e) f = Inl e"
| "res_bind (Inr x) f = f x"

fun res_map :: "('a \<Rightarrow> 'e + 'b) \<Rightarrow> 'a list \<Rightarrow> 'e + 'b list" where
  "res_map f [] = Inr []"
| "res_map f (x # xs) = res_bind (f x) (\<lambda>y. res_bind (res_map f xs) (\<lambda>ys. Inr (y # ys)))"

lemma res_bind_Inr [result_simps]: "res_bind r f = Inr y \<longleftrightarrow> (\<exists>x. r = Inr x \<and> f x = Inr y)"
  by (cases r) auto

lemma res_bind_Inl [result_simps]:
  "res_bind r f = Inl e \<longleftrightarrow> r = Inl e \<or> (\<exists>x. r = Inr x \<and> f x = Inl e)"
  by (cases r) auto

lemma res_bind_cong [fundef_cong]:
  "r = r' \<Longrightarrow> (\<And>x. r' = Inr x \<Longrightarrow> f x = g x) \<Longrightarrow> res_bind r f = res_bind r' g"
  by (cases r') auto

lemma res_map_Inr: "res_map f xs = Inr ys \<longleftrightarrow> list_all2 (\<lambda>x y. f x = Inr y) xs ys"
  by (induction xs arbitrary: ys) (auto simp: result_simps list_all2_Cons1)

lemma res_map_Inr_eq:
  assumes "\<And>x. x \<in> set xs \<Longrightarrow> f x = Inr (g x)"
  shows "res_map f xs = Inr (map g xs)"
  using assms by (induction xs) auto


lemma res_map_Inr_map:
  "\<forall>x \<in> set xs. f (h x) = Inr (g x) \<Longrightarrow> res_map f (map h xs) = Inr (map g xs)"
  by (induction xs) auto

lemma sort_key_id_if_sorted: "sorted (map f xs) \<Longrightarrow> sort_key f xs = xs"
  by (induction xs) (auto simp: insort_is_Cons)


subsection \<open>Dictionaries\<close>

type_synonym ('k, 'v) pydict = "('k \<times> 'v) list"

text \<open>\<^verbatim>\<open>d.get(k, default)\<close>\<close>

definition dict_get :: "('k, 'v) pydict \<Rightarrow> 'k \<Rightarrow> 'v \<Rightarrow> 'v" where
  "dict_get d k dflt = (case map_of d k of None \<Rightarrow> dflt | Some v \<Rightarrow> v)"

text \<open>\<^verbatim>\<open>dict(pairs)\<close>: later pairs win, the first occurrence fixes the position\<close>

definition dict_of :: "('k \<times> 'v) list \<Rightarrow> ('k, 'v) pydict" where
  "dict_of ps = fold (\<lambda>(k, v) d. AList.update k v d) ps []"

definition dict_ok :: "('k, 'v) pydict \<Rightarrow> bool" where
  "dict_ok d \<longleftrightarrow> distinct (map fst d)"

lemma dict_get_update [simp]:
  "dict_get (AList.update k v d) k' dflt = (if k' = k then v else dict_get d k' dflt)"
  by (simp add: dict_get_def update_conv')

lemma dict_ok_Nil [simp, intro]: "dict_ok []"
  by (simp add: dict_ok_def)

lemma dict_ok_update [simp, intro]: "dict_ok d \<Longrightarrow> dict_ok (AList.update k v d)"
  by (simp add: dict_ok_def distinct_update)

lemma dict_ok_delete [simp, intro]: "dict_ok d \<Longrightarrow> dict_ok (AList.delete k d)"
  by (simp add: dict_ok_def distinct_delete)

lemma map_of_fold_update:
  "map_of (fold (\<lambda>(k, v) d. AList.update k v d) ps d) k
     = (case map_of (rev ps) k of None \<Rightarrow> map_of d k | Some v \<Rightarrow> Some v)"
  by (induction ps arbitrary: d)
    (auto simp: update_conv' map_add_def split: option.splits prod.splits)

lemma map_of_dict_of: "map_of (dict_of ps) k = map_of (rev ps) k"
  by (simp add: dict_of_def map_of_fold_update split: option.splits)


lemma update_fresh: "k \<notin> fst ` set d \<Longrightarrow> AList.update k v d = d @ [(k, v)]"
  by (induction d) auto

lemma dict_of_distinct: "distinct (map fst ps) \<Longrightarrow> dict_of ps = ps"
proof (induction ps rule: rev_induct)
  case (snoc x ps)
  then have "AList.update (fst x) (snd x) ps = ps @ [x]" using update_fresh [of "fst x" ps "snd x"] by auto
  then show ?case using snoc by (cases x) (simp add: dict_of_def)
qed (simp add: dict_of_def)

text \<open>\<^verbatim>\<open>min\<close> with a key returns the first of the least elements.\<close>

fun min_by :: "('a \<Rightarrow> int) \<Rightarrow> 'a \<Rightarrow> 'a list \<Rightarrow> 'a" where
  "min_by f x [] = x"
| "min_by f x (y # ys) = min_by f (if f y < f x then y else x) ys"

lemma min_by_least: "min_by f x ys \<in> insert x (set ys) \<and> (\<forall>y \<in> insert x (set ys). f (min_by f x ys) \<le> f y)"
proof (induction ys arbitrary: x)
  case (Cons y ys)
  show ?case using Cons [of "if f y < f x then y else x"] by (auto split: if_splits)
qed simp

lemma sort_Nil_iff: "sort (xs :: 'a::linorder list) = [] \<longleftrightarrow> xs = []"
  by (metis length_0_conv length_sort)

lemma map_filter_Nil: "List.map_filter f xs = [] \<longleftrightarrow> (\<forall>x \<in> set xs. f x = None)"
  by (auto simp: List.map_filter_def filter_empty_conv)

lemma dict_of_ok: "dict_ok (dict_of ps)"
proof -
  have "dict_ok d \<Longrightarrow> dict_ok (fold (\<lambda>(k, v) d. AList.update k v d) ps d)" for d by (induction ps arbitrary: d) auto
  then show ?thesis by (simp add: dict_of_def)
qed

lemma dict_of_keys: "fst ` set (dict_of ps) = fst ` set ps"
proof -
  have "fst ` set (fold (\<lambda>(k, v) d. AList.update k v d) ps d) = fst ` set d \<union> fst ` set ps" for d
  proof (induction ps arbitrary: d)
    case (Cons x ps)
    then show ?case by (cases x) (simp add: dom_update)
  qed simp
  then show ?thesis by (simp add: dict_of_def)
qed

text \<open>A dictionary sorted by its keys is determined by its entries.\<close>

lemma strict_sorted_set_unique:
  assumes "sorted_wrt (<) (map fst xs)" "sorted_wrt (<) (map fst ys)" "set xs = set (ys :: ('a::linorder \<times> 'b) list)"
  shows "xs = ys"
proof -
  have d: "distinct (map fst xs)" "distinct (map fst ys)" and s: "sorted (map fst xs)" "sorted (map fst ys)"
    using assms strict_sorted_iff by blast+
  have "map fst xs = map fst ys"
    using assms(3) d s by (intro sorted_distinct_set_unique) auto
  moreover have "length xs = length ys" using calculation by (metis length_map)
  moreover have "map_of xs = map_of ys"
    using assms(3) d by (metis map_of_inject_set)
  ultimately show ?thesis
    using d by (metis map_of_inject_set assms(3) zip_map_fst_snd map_of_zip_inject length_map)
qed

subsection \<open>Characters\<close>

definition is_digit :: "char \<Rightarrow> bool" where
  "is_digit c \<longleftrightarrow> 48 \<le> (of_char c :: nat) \<and> (of_char c :: nat) \<le> 57"

definition digit_value :: "char \<Rightarrow> int" where
  "digit_value c = of_char c - 48"

definition is_alpha_us :: "char \<Rightarrow> bool" where
  "is_alpha_us c \<longleftrightarrow> (65 \<le> (of_char c :: nat) \<and> (of_char c :: nat) \<le> 90)
     \<or> (97 \<le> (of_char c :: nat) \<and> (of_char c :: nat) \<le> 122) \<or> c = CHR ''_''"

definition ident_char :: "char \<Rightarrow> bool" where
  "ident_char c \<longleftrightarrow> is_alpha_us c \<or> is_digit c"

text \<open>The identifier pattern \<^verbatim>\<open>[A-Za-z_][A-Za-z_0-9]*\Z\<close>\<close>

definition is_ident :: "string \<Rightarrow> bool" where
  "is_ident s \<longleftrightarrow> (case s of [] \<Rightarrow> False | c # cs \<Rightarrow> is_alpha_us c \<and> list_all ident_char cs)"

text \<open>What \<^verbatim>\<open>str.strip\<close> removes, below code point 256\<close>

definition py_space :: "char \<Rightarrow> bool" where
  "py_space c \<longleftrightarrow> (of_char c :: nat) \<in> {9, 10, 11, 12, 13, 28, 29, 30, 31, 32, 133, 160}"

definition py_lower_char :: "char \<Rightarrow> char" where
  "py_lower_char c = (let n = (of_char c :: nat) in
     if (65 \<le> n \<and> n \<le> 90) \<or> (192 \<le> n \<and> n \<le> 222 \<and> n \<noteq> 215) then char_of (n + 32) else c)"


subsection \<open>String operations\<close>

definition py_lower :: "string \<Rightarrow> string" where
  "py_lower = map py_lower_char"

definition py_strip :: "string \<Rightarrow> string" where
  "py_strip s = rev (dropWhile py_space (rev (dropWhile py_space s)))"

fun py_split :: "char \<Rightarrow> string \<Rightarrow> string list" where
  "py_split c [] = [[]]"
| "py_split c (x # xs) = (if x = c then [] # py_split c xs
     else (case py_split c xs of [] \<Rightarrow> [[x]] | w # ws \<Rightarrow> (x # w) # ws))"

fun py_join :: "string \<Rightarrow> string list \<Rightarrow> string" where
  "py_join sep [] = []"
| "py_join sep [w] = w"
| "py_join sep (w # ws) = w @ sep @ py_join sep ws"

text \<open>\<^verbatim>\<open>s.find(c)\<close> for a one-character pattern, with \<open>None\<close> for \<open>-1\<close>\<close>

fun py_find :: "char \<Rightarrow> string \<Rightarrow> nat option" where
  "py_find c [] = None"
| "py_find c (x # xs) = (if x = c then Some 0 else map_option Suc (py_find c xs))"

lemma py_split_not_Nil [simp]: "py_split c s \<noteq> []"
  by (induction s) (auto split: list.splits)

lemma py_split_no_sep: "c \<notin> set w \<Longrightarrow> py_split c w = [w]"
  by (induction w) auto

lemma py_split_append_sep:
  "c \<notin> set w \<Longrightarrow> py_split c (w @ c # s) = w # py_split c s"
  by (induction w) auto

lemma py_split_join:
  "ws \<noteq> [] \<Longrightarrow> \<forall>w \<in> set ws. c \<notin> set w \<Longrightarrow> py_split c (py_join [c] ws) = ws"
  by (induction "[c]" ws rule: py_join.induct) (auto simp: py_split_no_sep py_split_append_sep)

lemma py_split_parts_no_sep: "w \<in> set (py_split c s) \<Longrightarrow> c \<notin> set w"
  by (induction s arbitrary: w) (auto split: if_splits list.splits)

lemma py_split_parts_subset: "w \<in> set (py_split c s) \<Longrightarrow> set w \<subseteq> set s"
  by (induction s arbitrary: w) (fastforce split: if_splits list.splits)+

lemma py_join_split: "py_join [c] (py_split c s) = s"
proof (induction s)
  case (Cons x s)
  obtain w ws where w: "py_split c s = w # ws" by (cases "py_split c s") auto
  then show ?case using Cons by (cases ws) auto
qed simp

lemma py_join_eq_Nil: "\<forall>w \<in> set ws. w \<noteq> [] \<Longrightarrow> py_join sep ws = [] \<longleftrightarrow> ws = []"
  by (induction sep ws rule: py_join.induct) auto

lemma set_py_join: "set (py_join sep ws) \<subseteq> set sep \<union> (\<Union>w \<in> set ws. set w)"
  by (induction sep ws rule: py_join.induct) auto

lemma last_py_join: "ws \<noteq> [] \<Longrightarrow> \<forall>w \<in> set ws. w \<noteq> [] \<Longrightarrow> last (py_join sep ws) = last (last ws)"
  by (induction sep ws rule: py_join.induct) (auto simp: py_join_eq_Nil)

lemma py_find_None: "c \<notin> set s \<Longrightarrow> py_find c s = None"
  by (induction s) auto

lemma py_find_append: "c \<notin> set w \<Longrightarrow> py_find c (w @ c # s) = Some (length w)"
  by (induction w) auto

lemma dropWhile_id: "s = [] \<or> \<not> P (hd s) \<Longrightarrow> dropWhile P s = s"
  by (cases s) auto

lemma py_strip_id:
  "s = [] \<or> (\<not> py_space (hd s) \<and> \<not> py_space (last s)) \<Longrightarrow> py_strip s = s"
  by (auto simp: py_strip_def dropWhile_id hd_rev)

lemma py_strip_Nil: "py_strip s = [] \<longleftrightarrow> (\<forall>c \<in> set s. py_space c)"
proof -
  have "py_strip s = [] \<longleftrightarrow> (\<forall>c \<in> set (dropWhile py_space s). py_space c)"
    by (simp add: py_strip_def dropWhile_eq_Nil_conv)
  also have "\<dots> \<longleftrightarrow> (\<forall>c \<in> set s. py_space c)"
    by (induction s) auto
  finally show ?thesis .
qed

lemma ident_char_not_special:
  assumes "ident_char c"
  shows "\<not> py_space c \<and> c \<notin> {CHR 0x22, CHR ''('', CHR '')'', CHR '','', CHR ''='', CHR ''.''}"
  using assms by (auto simp: ident_char_def is_alpha_us_def is_digit_def py_space_def)

lemma is_ident_chars: "is_ident s \<Longrightarrow> s \<noteq> [] \<and> (\<forall>c \<in> set s. ident_char c)"
  by (auto simp: is_ident_def list_all_iff ident_char_def split: list.splits)


subsection \<open>Decimal integers\<close>

text \<open>
  \<^verbatim>\<open>int(s)\<close> in base ten: surrounding white space, an optional sign, digits with
  single underscores between them.  \<open>None\<close> is \<^verbatim>\<open>ValueError\<close>.  Python's limit of
  4300 digits is not modelled.
\<close>

fun py_digits :: "bool \<Rightarrow> int \<Rightarrow> string \<Rightarrow> int option" where
  "py_digits prev acc [] = (if prev then Some acc else None)"
| "py_digits prev acc (c # cs) =
     (if is_digit c then py_digits True (10 * acc + digit_value c) cs
      else if c = CHR ''_'' \<and> prev then py_digits False acc cs else None)"

definition py_int :: "string \<Rightarrow> int option" where
  "py_int s = (case py_strip s of
       [] \<Rightarrow> None
     | c # cs \<Rightarrow> if c = CHR ''-'' then map_option uminus (py_digits False 0 cs)
         else if c = CHR ''+'' then py_digits False 0 cs
         else py_digits False 0 (c # cs))"

text \<open>\<^verbatim>\<open>str(n)\<close>\<close>

fun dec_nat :: "nat \<Rightarrow> string" where
  "dec_nat n = (if n < 10 then [char_of (48 + n)] else dec_nat (n div 10) @ [char_of (48 + n mod 10)])"

declare dec_nat.simps [simp del]

definition dec_int :: "int \<Rightarrow> string" where
  "dec_int i = (if i < 0 then CHR ''-'' # dec_nat (nat (- i)) else dec_nat (nat i))"

lemma dec_digit: "(n::nat) < 10 \<Longrightarrow> is_digit (char_of (48 + n))"
  by (simp add: is_digit_def)

lemma digit_value_dec: "(n::nat) < 10 \<Longrightarrow> digit_value (char_of (48 + n)) = int n"
proof -
  assume "n < 10"
  then have "(of_char (char_of (48 + n)) :: nat) = 48 + n" by simp
  moreover have "(of_char (char_of (48 + n)) :: int) = int (of_char (char_of (48 + n)))"
    by (simp only: of_nat_of_char)
  ultimately show ?thesis by (simp add: digit_value_def)
qed

lemma dec_nat_digits: "c \<in> set (dec_nat n) \<Longrightarrow> is_digit c"
proof (induction n arbitrary: c rule: dec_nat.induct)
  case (1 n)
  then show ?case
    by (subst (asm) dec_nat.simps) (auto simp: dec_digit split: if_splits)
qed

lemma dec_nat_not_Nil [simp]: "dec_nat n \<noteq> []"
  by (subst dec_nat.simps) simp

lemma py_digits_snoc:
  "\<forall>c \<in> set s. is_digit c \<Longrightarrow> is_digit d \<Longrightarrow>
     py_digits p acc (s @ [d]) = map_option (\<lambda>v. 10 * v + digit_value d)
       (if s = [] then Some acc else py_digits p acc s)"
  by (induction s arbitrary: p acc) auto

lemma py_digits_dec: "py_digits p 0 (dec_nat n) = Some (int n)"
proof (induction n rule: dec_nat.induct)
  case (1 n)
  show ?case
  proof (cases "n < 10")
    case True
    then show ?thesis
      by (subst dec_nat.simps) (simp add: dec_digit digit_value_dec)
  next
    case False
    then have "py_digits p 0 (dec_nat n)
        = map_option (\<lambda>v. 10 * v + digit_value (char_of (48 + n mod 10))) (py_digits p 0 (dec_nat (n div 10)))"
      by (subst dec_nat.simps) (simp add: py_digits_snoc dec_nat_digits dec_digit)
    also have "\<dots> = Some (10 * int (n div 10) + int (n mod 10))"
      using "1.IH" [OF False] by (simp add: digit_value_dec)
    also have "10 * int (n div 10) + int (n mod 10) = int n"
      by (simp flip: of_nat_mult of_nat_add add: of_nat_div of_nat_mod)
    finally show ?thesis .
  qed
qed

lemma digit_not_space: "is_digit c \<Longrightarrow> \<not> py_space c"
  by (auto simp: is_digit_def py_space_def)

lemma digit_ident_char: "is_digit c \<Longrightarrow> ident_char c"
  by (simp add: ident_char_def)

lemma py_strip_dec_nat: "py_strip (dec_nat n) = dec_nat n"
  by (rule py_strip_id) (meson dec_nat_digits dec_nat_not_Nil digit_not_space hd_in_set last_in_set)

lemma py_int_dec_nat: "py_int (dec_nat n) = Some (int n)"
proof -
  obtain c cs where c: "dec_nat n = c # cs" by (cases "dec_nat n") auto
  have "is_digit c" using dec_nat_digits [of c n] c by simp
  then have "c \<noteq> CHR ''-''" "c \<noteq> CHR ''+''" by (auto simp: is_digit_def)
  then show ?thesis
    using py_strip_dec_nat [of n] py_digits_dec [of False n] c by (simp add: py_int_def)
qed

end
