(* ===== verification/Cap_Order.thy ===== *)
theory Cap_Order
  imports Revl_Prelude
begin

section \<open>The capability partial order (\<open>src/revl/cap_order.py\<close>)\<close>

text \<open>
  A capability is a token together with a valuation of parameters.  This theory holds
  the closed parameter registry, canonicalization of parameter values, the one
  constructor \<open>make_cap_raw\<close> (\<^verbatim>\<open>_make_cap\<close>), the reader and printer of canonical
  spellings, spawn-site substitution, the ceiling split, and the relation \<open>covers\<close>
  with the folds over it.  An exception \<^verbatim>\<open>CapError\<close> is a value of \<open>cap_error\<close>, one
  constructor per raise site.
\<close>

subsection \<open>Errors, kinds, orders, values\<close>

datatype cap_error =
    Path_Not_Absolute string
  | Path_Empty_Component string
  | Path_Dot_Component string string
  | Path_Root
  | Forbidden_Char string char
  | Bad_Suffixed string string
  | Unknown_Parameter string
  | Duplicate_Parameter string
  | Decl_Duplicate string
  | Decl_Unknown_Kind string string
  | Decl_Core_Name string
  | Ceiling_Symbol string
  | Ceiling_Not_Int string
  | Ceiling_Negative string int
  | Size_Bool string
  | Size_Expects string
  | Expects_String string
  | Empty_Token
  | Star_Takes_No_Params
  | Malformed_List string
  | Malformed_Parameter string
  | Malformed_Value string

datatype param_kind = Resource | Ceiling

datatype value_order = Ord_Path | Ord_Discrete | Ord_Ceiling | Ord_Bytes | Ord_Duration

datatype symbol = Symbol (symbol_ref: string)

text \<open>
  A parameter value, raw or canonical: a Python string, an integer, a boolean (a bool is
  an \<^verbatim>\<open>int\<close> for \<^verbatim>\<open>isinstance\<close>, which the code excludes by name), a component tuple of a
  canonical path, or a symbol.
\<close>

datatype cap_value = VStr string | VInt int | VBool bool | VPath "string list" | VSym symbol

text \<open>Python's \<^verbatim>\<open>==\<close> on these values: \<^verbatim>\<open>True == 1\<close> and \<^verbatim>\<open>False == 0\<close> hold.\<close>

fun value_eq :: "cap_value \<Rightarrow> cap_value \<Rightarrow> bool" where
  "value_eq (VBool b) (VInt n) = (n = (if b then 1 else 0))"
| "value_eq (VInt n) (VBool b) = (n = (if b then 1 else 0))"
| "value_eq v w = (v = w)"

definition is_arg :: "symbol \<Rightarrow> bool" where
  "is_arg s \<longleftrightarrow> \<not> prefix ''config.'' (symbol_ref s)"

definition symbol_field :: "symbol \<Rightarrow> string" where
  "symbol_field s = (case py_find (CHR ''.'') (symbol_ref s) of
       None \<Rightarrow> symbol_ref s
     | Some i \<Rightarrow> drop (Suc i) (symbol_ref s))"


subsection \<open>The registry and the declared dimensions\<close>

definition registry :: "(string, param_kind \<times> value_order) pydict" where
  "registry =
     [(''path'', Resource, Ord_Path), (''host'', Resource, Ord_Discrete),
      (''table'', Resource, Ord_Discrete), (''calls'', Ceiling, Ord_Ceiling),
      (''size'', Ceiling, Ord_Bytes), (''time'', Ceiling, Ord_Duration)]"

definition aliases :: "(string, string) pydict" where
  "aliases = [(''requests'', ''calls''), (''bytes'', ''size'')]"

definition normalize_name :: "string \<Rightarrow> string" where
  "normalize_name name = dict_get aliases name name"

datatype core_kind = Kind_Path | Kind_Discrete | Kind_Ceiling

definition core_kinds :: "(string, core_kind) pydict" where
  "core_kinds = [(''path'', Kind_Path), (''discrete'', Kind_Discrete), (''ceiling'', Kind_Ceiling)]"

fun kind_orders :: "core_kind \<Rightarrow> param_kind \<times> value_order" where
  "kind_orders Kind_Path = (Resource, Ord_Path)"
| "kind_orders Kind_Discrete = (Resource, Ord_Discrete)"
| "kind_orders Kind_Ceiling = (Ceiling, Ord_Ceiling)"

text \<open>
  The \<^verbatim>\<open>declared\<close> argument of the readers: no declaration, the read sentinel
  \<^verbatim>\<open>_ADMIT_UNKNOWN\<close>, or the declaration of the capability's token.  A declaration is
  the output of \<open>parse_declarations\<close>, so its kinds are core kinds.
\<close>

datatype declared = No_Decl | Admit_Unknown | Decl "(string, core_kind) pydict"

fun declared_order :: "string \<Rightarrow> declared \<Rightarrow> (param_kind \<times> value_order) option" where
  "declared_order name (Decl m) = map_option kind_orders (map_of m name)"
| "declared_order name _ = None"

definition order_of :: "string \<Rightarrow> declared \<Rightarrow> cap_error + (param_kind \<times> value_order)" where
  "order_of name d = (case map_of registry name of
       Some row \<Rightarrow> Inr row
     | None \<Rightarrow> (case declared_order name d of
           None \<Rightarrow> Inl (Unknown_Parameter name)
         | Some row \<Rightarrow> Inr row))"

text \<open>A \<^verbatim>\<open>CapabilityDecl\<close> node, read by its token and its \<open>(name, kind, line)\<close> triples\<close>

record capability_decl =
  decl_token :: string
  decl_parameters :: "(string \<times> core_kind \<times> nat) list"

definition declarations_of :: "capability_decl list \<Rightarrow> (string, (string, core_kind) pydict) pydict" where
  "declarations_of decls =
     fold (\<lambda>d out. AList.update (decl_token d)
       (dict_of (map (\<lambda>(name, kind, line). (name, kind)) (decl_parameters d))) out) decls []"

fun parse_declarations_from ::
    "(string, core_kind) pydict \<Rightarrow> (string \<times> string) list \<Rightarrow> cap_error + (string, core_kind) pydict" where
  "parse_declarations_from out [] = Inr out"
| "parse_declarations_from out ((name, kind) # rest) =
     (if map_of out name \<noteq> None then Inl (Decl_Duplicate name)
      else case map_of core_kinds kind of
          None \<Rightarrow> Inl (Decl_Unknown_Kind kind name)
        | Some k \<Rightarrow>
            if map_of registry (normalize_name name) \<noteq> None then Inl (Decl_Core_Name name)
            else parse_declarations_from (AList.update name k out) rest)"

definition parse_declarations :: "(string \<times> string) list \<Rightarrow> cap_error + (string, core_kind) pydict" where
  "parse_declarations pairs = parse_declarations_from [] pairs"

definition is_registered :: "string \<Rightarrow> declared \<Rightarrow> bool" where
  "is_registered name d \<longleftrightarrow>
     map_of registry (normalize_name name) \<noteq> None \<or> declared_order name d \<noteq> None"

definition registered_names :: "declared \<Rightarrow> string list" where
  "registered_names d = sort (remdups (map fst registry @ map fst aliases
     @ (case d of Decl m \<Rightarrow> map fst m | _ \<Rightarrow> [])))"

definition is_ceiling :: "string \<Rightarrow> declared \<Rightarrow> bool" where
  "is_ceiling raw d = (let name = normalize_name raw;
       row = (case map_of registry name of Some r \<Rightarrow> Some r | None \<Rightarrow> declared_order name d)
     in case row of None \<Rightarrow> False | Some (k, _) \<Rightarrow> k = Ceiling)"


subsection \<open>Canonicalization of a value\<close>

fun check_components :: "string \<Rightarrow> string list \<Rightarrow> cap_error + string list" where
  "check_components raw [] = Inr []"
| "check_components raw (part # parts) =
     (if part = [] then Inl (Path_Empty_Component raw)
      else if part = ''.'' \<or> part = ''..'' then Inl (Path_Dot_Component raw part)
      else res_bind (check_components raw parts) (\<lambda>cs. Inr (part # cs)))"

definition canon_path :: "string \<Rightarrow> cap_error + string list" where
  "canon_path raw =
     (if \<not> prefix ''/'' raw then Inl (Path_Not_Absolute raw)
      else let body = tl raw;
               body = (if suffix ''/'' body then butlast body else body);
               parts = (if body \<noteq> [] then py_split (CHR ''/'') body else [])
           in res_bind (check_components raw parts)
                (\<lambda>components. if components = [] then Inl Path_Root else Inr components))"

text \<open>The metacharacters of the spelling, in the order the check runs through them\<close>

definition reserved_chars :: string where
  "reserved_chars = [CHR 0x22, CHR ''('', CHR '')'', CHR '','', CHR ''='']"

definition forbidden_chars :: "string \<Rightarrow> string \<Rightarrow> cap_error + unit" where
  "forbidden_chars raw name = (case find (\<lambda>ch. ch \<in> set raw) reserved_chars of
       None \<Rightarrow> Inr () | Some ch \<Rightarrow> Inl (Forbidden_Char name ch))"

definition byte_units :: "(string, int) pydict" where
  "byte_units = [(''b'', 1), (''kb'', 1024), (''mb'', 1024 ^ 2), (''gb'', 1024 ^ 3), (''tb'', 1024 ^ 4)]"

definition duration_units :: "(string, int) pydict" where
  "duration_units = [(''ms'', 1), (''s'', 1000), (''m'', 60000), (''h'', 3600000)]"

text \<open>
  The loop over \<^verbatim>\<open>sorted(units, key=len, reverse=True)\<close> stops at the first unit the literal
  ends with: every path through its body returns or breaks.
\<close>

definition parse_suffixed :: "string \<Rightarrow> (string, int) pydict \<Rightarrow> string \<Rightarrow> cap_error + int" where
  "parse_suffixed raw units name =
     (let low = py_lower (py_strip raw);
          ordered = sort_key (\<lambda>(u, _). - int (length u)) units
      in case find (\<lambda>(u, _). suffix u low) ordered of
           None \<Rightarrow> Inl (Bad_Suffixed name raw)
         | Some (u, scale) \<Rightarrow>
             let num = py_strip (take (length low - length u) low)
             in if num = [] then Inl (Bad_Suffixed name raw)
                else case py_int num of
                    None \<Rightarrow> Inl (Bad_Suffixed name raw)
                  | Some n \<Rightarrow> Inr (n * scale))"

definition is_path_value :: "cap_value \<Rightarrow> bool" where
  "is_path_value v \<longleftrightarrow> (case v of VPath _ \<Rightarrow> True | _ \<Rightarrow> False)"

definition canon_value :: "string \<Rightarrow> cap_value \<Rightarrow> declared \<Rightarrow> cap_error + cap_value" where
  "canon_value name v d =
     res_bind (order_of name d) (\<lambda>(kind, order).
       case v of
         VSym s \<Rightarrow> if kind = Ceiling then Inl (Ceiling_Symbol name) else Inr v
       | _ \<Rightarrow>
         if order = Ord_Ceiling then
           (case v of
              VInt n \<Rightarrow> if n < 0 then Inl (Ceiling_Negative name n) else Inr v
            | _ \<Rightarrow> Inl (Ceiling_Not_Int name))
         else if order = Ord_Bytes \<or> order = Ord_Duration then
           (case v of
              VBool _ \<Rightarrow> Inl (Size_Bool name)
            | VInt n \<Rightarrow> if n < 0 then Inl (Ceiling_Negative name n) else Inr v
            | VStr s \<Rightarrow>
                if order = Ord_Bytes
                then res_bind (parse_suffixed s byte_units name) (\<lambda>n. Inr (VInt n))
                else res_bind (parse_suffixed s duration_units name) (\<lambda>n. Inr (VInt n))
            | _ \<Rightarrow> Inl (Size_Expects name))
         else if order = Ord_Path \<and> is_path_value v then Inr v
         else (case v of
              VStr s \<Rightarrow> res_bind (forbidden_chars s name) (\<lambda>_.
                if order = Ord_Path then res_bind (canon_path s) (\<lambda>cs. Inr (VPath cs))
                else Inr (VStr s))
            | _ \<Rightarrow> Inl (Expects_String name)))"


subsection \<open>Capabilities and their construction\<close>

record cap =
  cap_token :: string
  cap_params :: "(string \<times> cap_value) list"

abbreviation mk_cap :: "string \<Rightarrow> (string \<times> cap_value) list \<Rightarrow> cap" where
  "mk_cap t ps \<equiv> \<lparr>cap_token = t, cap_params = ps\<rparr>"

text \<open>\<^verbatim>\<open>dict(self.params)\<close>: on a repeated name the last binding wins\<close>

definition param_map :: "cap \<Rightarrow> string \<rightharpoonup> cap_value" where
  "param_map c = map_of (rev (cap_params c))"

definition is_bare :: "cap \<Rightarrow> bool" where
  "is_bare c \<longleftrightarrow> cap_params c = []"

fun canon_params :: "declared \<Rightarrow> string set \<Rightarrow> (string \<times> cap_value) list
    \<Rightarrow> cap_error + (string \<times> cap_value) list" where
  "canon_params d seen [] = Inr []"
| "canon_params d seen ((raw_name, v) # rest) =
     (let name = normalize_name raw_name in
      if name \<in> seen then Inl (Duplicate_Parameter raw_name)
      else if \<not> is_registered raw_name d then
        (if d = Admit_Unknown
         then res_bind (canon_params d (insert name seen) rest) (\<lambda>ps. Inr ((name, v) # ps))
         else Inl (Unknown_Parameter name))
      else res_bind (canon_value name v d) (\<lambda>w.
        res_bind (canon_params d (insert name seen) rest) (\<lambda>ps. Inr ((name, w) # ps))))"

definition make_cap_raw :: "string \<Rightarrow> (string \<times> cap_value) list \<Rightarrow> declared \<Rightarrow> cap_error + cap" where
  "make_cap_raw token raw d =
     (if token = [] then Inl Empty_Token
      else if token = ''*'' \<and> raw \<noteq> [] then Inl Star_Takes_No_Params
      else res_bind (canon_params d {} raw) (\<lambda>ps. Inr (mk_cap token (sort_key fst ps))))"

text \<open>The parser's entry point: \<^verbatim>\<open>raw_params\<close> may be absent\<close>

definition make_cap :: "string \<Rightarrow> (string \<times> cap_value) list option \<Rightarrow> declared \<Rightarrow> cap_error + cap" where
  "make_cap token raw d = make_cap_raw token (case raw of None \<Rightarrow> [] | Some ps \<Rightarrow> ps) d"


subsection \<open>Printing and reading a spelling\<close>

fun render_value :: "cap_value \<Rightarrow> string" where
  "render_value (VSym s) = symbol_ref s"
| "render_value (VInt n) = dec_int n"
| "render_value (VPath cs) = CHR 0x22 # CHR ''/'' # py_join ''/'' cs @ [CHR 0x22]"
| "render_value (VStr s) = CHR 0x22 # s @ [CHR 0x22]"
| "render_value (VBool b) = CHR 0x22 # (if b then ''True'' else ''False'') @ [CHR 0x22]"

definition render_param :: "string \<times> cap_value \<Rightarrow> string" where
  "render_param p = fst p @ ''='' @ render_value (snd p)"

definition to_str :: "cap \<Rightarrow> string" where
  "to_str c = (if cap_params c = [] then cap_token c
     else cap_token c @ ''('' @ py_join '','' (map render_param (cap_params c)) @ '')'')"

text \<open>
  The scanner of a parameter list: \<open>quoted\<close> is \<^verbatim>\<open>in_str\<close>, \<open>current\<close> the piece read so far.
  The source's \<^verbatim>\<open>depth\<close> is 0 throughout.
\<close>

fun split_params_from :: "bool \<Rightarrow> string \<Rightarrow> string \<Rightarrow> string list" where
  "split_params_from quoted current [] = [current]"
| "split_params_from quoted current (ch # rest) =
     (if ch = CHR 0x22 then split_params_from (\<not> quoted) (current @ [ch]) rest
      else if ch = CHR '','' \<and> \<not> quoted then current # split_params_from quoted [] rest
      else split_params_from quoted (current @ [ch]) rest)"

definition split_params :: "string \<Rightarrow> string list" where
  "split_params inner = split_params_from False [] inner"

definition parse_value :: "string \<Rightarrow> cap_error + cap_value" where
  "parse_value raw =
     (if length raw \<ge> 2 \<and> hd raw = CHR 0x22 \<and> last raw = CHR 0x22
      then Inr (VStr (butlast (tl raw)))
      else if prefix ''config.'' raw then Inr (VSym (Symbol raw))
      else if is_ident raw then Inr (VSym (Symbol raw))
      else case py_int raw of None \<Rightarrow> Inl (Malformed_Value raw) | Some n \<Rightarrow> Inr (VInt n))"

definition parse_piece :: "string \<Rightarrow> cap_error + (string \<times> cap_value)" where
  "parse_piece piece = (case py_find (CHR ''='') piece of
       None \<Rightarrow> Inl (Malformed_Parameter piece)
     | Some eq \<Rightarrow> res_bind (parse_value (py_strip (drop (Suc eq) piece)))
         (\<lambda>v. Inr (py_strip (take eq piece), v)))"

definition parse_cap :: "string \<Rightarrow> declared \<Rightarrow> cap_error + cap" where
  "parse_cap text d = (case py_find (CHR ''('') text of
       None \<Rightarrow> make_cap_raw text [] d
     | Some i \<Rightarrow>
         if \<not> suffix '')'' text then Inl (Malformed_List text)
         else let inner = butlast (drop (Suc i) text) in
           res_bind (if py_strip inner \<noteq> [] then res_map parse_piece (split_params inner) else Inr [])
             (\<lambda>raw. make_cap_raw (take i text) raw d))"

definition parse_stored_cap :: "string \<Rightarrow> cap_error + cap" where
  "parse_stored_cap text = parse_cap text Admit_Unknown"

text \<open>
  The argument-bound destinations of a list of spellings.  \<open>declarations\<close> is empty where
  the source passes \<^verbatim>\<open>None\<close>; the token is what precedes the first parenthesis.
\<close>

definition cap_args :: "string \<Rightarrow> cap \<Rightarrow> (string \<times> string) list" where
  "cap_args text c = map (\<lambda>(_, v). (text, case v of VSym s \<Rightarrow> symbol_ref s | _ \<Rightarrow> []))
     (filter (\<lambda>(_, v). case v of VSym s \<Rightarrow> is_arg s | _ \<Rightarrow> False) (cap_params c))"

fun argument_bindings :: "string list \<Rightarrow> (string, (string, core_kind) pydict) pydict
    \<Rightarrow> cap_error + (string \<times> string) list" where
  "argument_bindings [] declarations = Inr []"
| "argument_bindings (text # rest) declarations =
     (let token = hd (py_split (CHR ''('') text);
          d = (case map_of declarations token of None \<Rightarrow> No_Decl | Some m \<Rightarrow> Decl m)
      in res_bind (parse_cap text d) (\<lambda>c.
           res_bind (argument_bindings rest declarations) (\<lambda>found. Inr (cap_args text c @ found))))"


subsection \<open>Substitution and the ceiling split\<close>

definition is_symbol :: "cap_value \<Rightarrow> bool" where
  "is_symbol v \<longleftrightarrow> (case v of VSym _ \<Rightarrow> True | _ \<Rightarrow> False)"

definition bind_value :: "(string, string) pydict \<Rightarrow> cap_value \<Rightarrow> cap_value" where
  "bind_value bindings v = (case v of
       VSym s \<Rightarrow> if is_arg s then v
         else (case map_of bindings (symbol_field s) of None \<Rightarrow> v | Some lit \<Rightarrow> VStr lit)
     | _ \<Rightarrow> v)"

definition substitute :: "cap \<Rightarrow> (string, string) pydict \<Rightarrow> declared \<Rightarrow> cap_error + cap" where
  "substitute c bindings d =
     (if \<not> list_ex (\<lambda>(_, v). is_symbol v) (cap_params c) then Inr c
      else make_cap_raw (cap_token c)
             (map (\<lambda>(n, v). (n, bind_value bindings v)) (cap_params c))
             (if d = No_Decl then Admit_Unknown else d))"

definition is_int_value :: "cap_value \<Rightarrow> bool" where
  "is_int_value v \<longleftrightarrow> (case v of VInt _ \<Rightarrow> True | _ \<Rightarrow> False)"

fun the_int :: "cap_value \<Rightarrow> int" where
  "the_int (VInt n) = n"
| "the_int _ = 0"

definition split_ceilings :: "cap \<Rightarrow> cap \<times> (string, int) pydict" where
  "split_ceilings c =
     (mk_cap (cap_token c) (filter (\<lambda>(_, v). \<not> is_int_value v) (cap_params c)),
      dict_of (map (\<lambda>(n, v). (n, the_int v)) (filter (\<lambda>(_, v). is_int_value v) (cap_params c))))"


subsection \<open>The order\<close>

text \<open>\<open>wide\<close>'s component list is a prefix of \<open>narrow\<close>'s\<close>

definition leq_path :: "string list \<Rightarrow> string list \<Rightarrow> bool" where
  "leq_path narrow wide \<longleftrightarrow>
     (if length wide > length narrow then False else take (length wide) narrow = wide)"

definition param_leq :: "cap_value \<Rightarrow> cap_value \<Rightarrow> bool" where
  "param_leq narrow wide =
     (if is_symbol narrow \<or> is_symbol wide then value_eq narrow wide
      else case (narrow, wide) of
          (VPath p, VPath q) \<Rightarrow> leq_path p q
        | (VInt m, VInt n) \<Rightarrow> m \<le> n
        | _ \<Rightarrow> value_eq narrow wide)"

definition covers :: "cap \<Rightarrow> cap \<Rightarrow> bool" where
  "covers a b =
     (if cap_token a = ''*'' then cap_token b = ''*''
      else if cap_token b = ''*'' then False
      else if cap_token a \<noteq> cap_token b then False
      else list_all (\<lambda>(k, av). case param_map b k of None \<Rightarrow> False | Some bv \<Rightarrow> param_leq bv av)
             (cap_params a))"

definition disjoint_caps :: "cap \<Rightarrow> cap \<Rightarrow> bool" where
  "disjoint_caps a b =
     (if cap_token a = ''*'' \<or> cap_token b = ''*'' then False else cap_token a \<noteq> cap_token b)"

definition covered_by_any :: "cap list \<Rightarrow> cap \<Rightarrow> bool" where
  "covered_by_any held c \<longleftrightarrow> list_ex (\<lambda>h. covers h c) held"

definition covers_set :: "cap list \<Rightarrow> cap list \<Rightarrow> cap list" where
  "covers_set held reach = filter (\<lambda>c. \<not> covered_by_any held c) reach"

end
