(* ===== verification/Attenuation.thy ===== *)
theory Attenuation
  imports Revl_Prelude
begin

section \<open>Attenuation: what a covering relation promises its users\<close>

text \<open>
  Spawn attenuation, delegation chains and peer selection all use the capability order
  through two folds: \<open>is some held element above this one\<close> and \<open>which reached elements
  are not covered\<close>.  The interface is the covering relation with its two laws on
  well-formed elements; the lemmas compose coverings along a chain.
\<close>

locale attenuation =
  fixes cov :: "'c \<Rightarrow> 'c \<Rightarrow> bool" and wf :: "'c \<Rightarrow> bool"
  assumes cov_refl: "wf a \<Longrightarrow> cov a a"
    and cov_trans: "wf a \<Longrightarrow> wf b \<Longrightarrow> wf c \<Longrightarrow> cov a b \<Longrightarrow> cov b c \<Longrightarrow> cov a c"
begin

definition within :: "'c list \<Rightarrow> 'c list \<Rightarrow> bool" where
  "within held reach \<longleftrightarrow> (\<forall>c \<in> set reach. \<exists>h \<in> set held. cov h c)"

lemma within_refl: "\<forall>c \<in> set xs. wf c \<Longrightarrow> within xs xs"
  unfolding within_def using cov_refl by blast

lemma within_trans:
  assumes "\<forall>c \<in> set xs. wf c" "\<forall>c \<in> set ys. wf c" "\<forall>c \<in> set zs. wf c"
    and "within xs ys" "within ys zs"
  shows "within xs zs"
  unfolding within_def
proof
  fix z assume "z \<in> set zs"
  with assms(5) obtain y where y: "y \<in> set ys" "cov y z" unfolding within_def by blast
  with assms(4) obtain x where x: "x \<in> set xs" "cov x y" unfolding within_def by blast
  from assms(1-3) x y \<open>z \<in> set zs\<close> have "cov x z" by (blast intro: cov_trans)
  with x show "\<exists>h \<in> set xs. cov h z" by blast
qed

lemma within_mono: "within held reach \<Longrightarrow> set held \<subseteq> set held' \<Longrightarrow> set reach' \<subseteq> set reach
    \<Longrightarrow> within held' reach'"
  unfolding within_def by blast

text \<open>Along a chain of holders, each within its predecessor, the last is within the first.\<close>

fun chained :: "'c list list \<Rightarrow> bool" where
  "chained [] = True"
| "chained [g] = True"
| "chained (g # h # rest) = (within g h \<and> chained (h # rest))"

lemma chained_within_root:
  assumes "chained (g # rest)" "\<forall>h \<in> set (g # rest). \<forall>c \<in> set h. wf c" "h \<in> set (g # rest)"
  shows "within g h"
  using assms
proof (induction rest arbitrary: g h)
  case Nil
  then show ?case by (simp add: within_refl)
next
  case (Cons k rest)
  show ?case
  proof (cases "h = g")
    case True
    then show ?thesis using Cons.prems(2) by (simp add: within_refl)
  next
    case False
    with Cons.prems have "within k h" by (intro Cons.IH) auto
    moreover have "within g k" using Cons.prems(1) by simp
    ultimately show ?thesis
      using Cons.prems False by (intro within_trans [of g k h]) auto
  qed
qed

end

end
