(* ===== verification/Cap_Laws.thy ===== *)
theory Cap_Laws
  imports Cap_Order Attenuation
begin

section \<open>The order laws of \<open>covers\<close>\<close>

text \<open>
  \<open>covers\<close> is a partial order on the capabilities the constructor returns: token
  identity, and per bound parameter one of three value orders that are disjoint by the
  type of the canonical value.
\<close>

definition is_bool_value :: "cap_value \<Rightarrow> bool" where
  "is_bool_value v \<longleftrightarrow> (case v of VBool _ \<Rightarrow> True | _ \<Rightarrow> False)"

definition cap_wf :: "cap \<Rightarrow> bool" where
  "cap_wf c \<longleftrightarrow> sorted_wrt (<) (map fst (cap_params c))
     \<and> (\<forall>(n, v) \<in> set (cap_params c). \<not> is_bool_value v)
     \<and> (cap_token c = ''*'' \<longrightarrow> cap_params c = [])"

lemmas value_kind_defs = is_bool_value_def is_symbol_def is_path_value_def is_int_value_def

lemma value_eq_no_bool [simp]:
  "\<not> is_bool_value v \<Longrightarrow> \<not> is_bool_value w \<Longrightarrow> value_eq v w \<longleftrightarrow> v = w"
  by (cases v; cases w) (auto simp: is_bool_value_def)

lemma leq_path_prefix: "leq_path p q \<longleftrightarrow> prefix q p"
  by (auto simp: leq_path_def prefix_def split: if_splits) (metis append_take_drop_id)

lemma param_leq_simps [simp]:
  "param_leq (VPath p) (VPath q) \<longleftrightarrow> prefix q p"
  "param_leq (VInt m) (VInt n) \<longleftrightarrow> m \<le> n"
  "param_leq (VStr s) w \<longleftrightarrow> w = VStr s"
  "param_leq (VSym x) w \<longleftrightarrow> w = VSym x"
  by (cases w; auto simp: param_leq_def is_symbol_def leq_path_prefix)+

lemma param_leq_refl: "param_leq v v"
  by (cases v) (auto simp: param_leq_def is_symbol_def leq_path_prefix)

lemma param_leq_VPath: "\<not> is_bool_value w \<Longrightarrow> param_leq (VPath p) w \<longleftrightarrow> (\<exists>q. w = VPath q \<and> prefix q p)"
  by (cases w) (auto simp: param_leq_def value_kind_defs leq_path_prefix)

lemma param_leq_VInt: "\<not> is_bool_value w \<Longrightarrow> param_leq (VInt m) w \<longleftrightarrow> (\<exists>n. w = VInt n \<and> m \<le> n)"
  by (cases w) (auto simp: param_leq_def value_kind_defs)

lemma param_leq_trans:
  "\<not> is_bool_value u \<Longrightarrow> \<not> is_bool_value v \<Longrightarrow> \<not> is_bool_value w \<Longrightarrow>
     param_leq u v \<Longrightarrow> param_leq v w \<Longrightarrow> param_leq u w"
  by (cases u) (auto simp: param_leq_VPath param_leq_VInt is_bool_value_def)

lemma param_leq_antisym:
  "\<not> is_bool_value u \<Longrightarrow> \<not> is_bool_value v \<Longrightarrow> param_leq u v \<Longrightarrow> param_leq v u \<Longrightarrow> u = v"
  by (cases u) (auto simp: param_leq_VPath param_leq_VInt is_bool_value_def)

lemma wf_distinct: "cap_wf c \<Longrightarrow> distinct (map fst (cap_params c))"
  by (auto simp: cap_wf_def strict_sorted_iff)

lemma param_map_wf: "cap_wf c \<Longrightarrow> param_map c k = Some v \<longleftrightarrow> (k, v) \<in> set (cap_params c)"
  using wf_distinct [of c] by (simp add: param_map_def map_of_eq_Some_iff rev_map [symmetric])

lemma wf_not_bool: "cap_wf c \<Longrightarrow> (k, v) \<in> set (cap_params c) \<Longrightarrow> \<not> is_bool_value v"
  by (auto simp: cap_wf_def)

text \<open>The declarative reading of \<open>covers\<close> off the top element\<close>

lemma covers_iff:
  assumes "cap_token a \<noteq> ''*''" "cap_wf b"
  shows "covers a b \<longleftrightarrow> cap_token b = cap_token a
    \<and> (\<forall>k av. (k, av) \<in> set (cap_params a) \<longrightarrow> (\<exists>bv. (k, bv) \<in> set (cap_params b) \<and> param_leq bv av))"
proof (cases "cap_token b = cap_token a")
  case False
  then show ?thesis using assms by (auto simp: covers_def)
next
  case True
  have "(case param_map b k of None \<Rightarrow> False | Some bv \<Rightarrow> param_leq bv av)
      \<longleftrightarrow> (\<exists>bv. (k, bv) \<in> set (cap_params b) \<and> param_leq bv av)" for k av
    unfolding param_map_wf [OF assms(2), symmetric] by (auto split: option.splits)
  with True assms show ?thesis by (auto simp: covers_def list_all_iff)
qed

lemma covers_token: "covers a b \<Longrightarrow> cap_token a = cap_token b"
  by (auto simp: covers_def split: if_splits)

lemma covers_star [simp]: "cap_token a = ''*'' \<Longrightarrow> covers a b \<longleftrightarrow> cap_token b = ''*''"
  by (simp add: covers_def)

lemma covers_refl: "cap_wf a \<Longrightarrow> covers a a"
  by (cases "cap_token a = ''*''") (auto simp: covers_iff intro: param_leq_refl)

lemma covers_trans:
  assumes "cap_wf a" "cap_wf b" "cap_wf c" "covers a b" "covers b c"
  shows "covers a c"
proof (cases "cap_token a = ''*''")
  case True
  then show ?thesis using covers_token [OF assms(4)] covers_token [OF assms(5)] by simp
next
  case False
  have tok: "cap_token b = cap_token a" "cap_token c = cap_token a"
    using covers_token [OF assms(4)] covers_token [OF assms(5)] by simp_all
  have "\<exists>cv. (k, cv) \<in> set (cap_params c) \<and> param_leq cv av" if kav: "(k, av) \<in> set (cap_params a)" for k av
  proof -
    obtain bv where b: "(k, bv) \<in> set (cap_params b)" "param_leq bv av"
      using covers_iff [of a b] assms False kav by blast
    then obtain cv where c: "(k, cv) \<in> set (cap_params c)" "param_leq cv bv"
      using covers_iff [of b c] assms False tok by auto
    then have "param_leq cv av"
      using b kav assms wf_not_bool param_leq_trans by meson
    with c show ?thesis by blast
  qed
  with tok False assms show ?thesis by (simp add: covers_iff)
qed

lemma covers_antisym:
  assumes "cap_wf a" "cap_wf b" "covers a b" "covers b a"
  shows "a = b"
proof (cases "cap_token a = ''*''")
  case True
  then show ?thesis
    using assms covers_token [OF assms(3)] by (auto simp: cap_wf_def intro: cap.equality)
next
  case False
  have tok: "cap_token b = cap_token a" using covers_token [OF assms(3)] by simp
  have sub: "set (cap_params x) \<subseteq> set (cap_params y)"
    if x: "cap_wf x" and y: "cap_wf y" and xy: "covers x y" and yx: "covers y x" and star: "cap_token x \<noteq> ''*''" for x y
  proof clarify
    fix k v assume kv: "(k, v) \<in> set (cap_params x)"
    then obtain w where w: "(k, w) \<in> set (cap_params y)" "param_leq w v"
      using covers_iff [OF star y] xy by blast
    moreover have star': "cap_token y \<noteq> ''*''" using star covers_token [OF xy] by simp
    ultimately obtain u where u: "(k, u) \<in> set (cap_params x)" "param_leq u w"
      using covers_iff [OF star' x] yx by blast
    have "u = v" using u(1) kv wf_distinct [OF x] by (metis map_of_is_SomeI option.inject)
    then have "w = v"
      using w u kv wf_not_bool [OF x] wf_not_bool [OF y] by (auto intro: param_leq_antisym)
    with w show "(k, v) \<in> set (cap_params y)" by simp
  qed
  have "set (cap_params a) = set (cap_params b)"
    using sub [of a b] sub [of b a] assms False tok by auto
  then have "cap_params a = cap_params b"
    using assms by (auto simp: cap_wf_def intro: strict_sorted_set_unique)
  with tok show ?thesis by (auto intro: cap.equality)
qed

interpretation cap: attenuation covers cap_wf
  by unfold_locales (blast intro: covers_refl covers_trans)+

lemma covers_set_Nil: "covers_set held reach = [] \<longleftrightarrow> cap.within held reach"
  by (auto simp: covers_set_def covered_by_any_def cap.within_def filter_empty_conv list_ex_iff)

end
