(* ===== verification/Cap_Spelling.thy ===== *)
theory Cap_Spelling
  imports Cap_Laws
begin

section \<open>Canonical capabilities and their spelling\<close>

text \<open>
  What canonicalization establishes, and what the printed spelling preserves.  A capability
  built with its declaration in scope is canonical; a canonical capability is read back from
  its own spelling; and read back without the declaration it is only ever narrower.
\<close>

subsection \<open>Canonical values\<close>

definition plain_string :: "string \<Rightarrow> bool" where
  "plain_string s \<longleftrightarrow> (\<forall>ch \<in> set s. ch \<notin> set reserved_chars)"

definition canonical_path :: "string list \<Rightarrow> bool" where
  "canonical_path cs \<longleftrightarrow> cs \<noteq> [] \<and> (\<forall>p \<in> set cs. p \<noteq> [] \<and> p \<noteq> ''.'' \<and> p \<noteq> ''..''
     \<and> CHR ''/'' \<notin> set p \<and> plain_string p)"

text \<open>
  The spellings the frontend produces for a symbol: a \<^verbatim>\<open>config.\<close> path of identifiers, or the
  identifier of the enclosing declaration's own parameter.
\<close>

definition symbol_ok :: "symbol \<Rightarrow> bool" where
  "symbol_ok s \<longleftrightarrow> is_ident (symbol_ref s)
     \<or> (prefix ''config.'' (symbol_ref s) \<and> (let f = drop 7 (symbol_ref s) in
          f \<noteq> [] \<and> (\<forall>ch \<in> set f. ident_char ch \<or> ch = CHR ''.'') \<and> ident_char (last f)))"

lemma symbol_ok_iff:
  "symbol_ok s \<longleftrightarrow> is_ident (symbol_ref s)
     \<or> (\<exists>f. symbol_ref s = ''config.'' @ f \<and> f \<noteq> []
          \<and> (\<forall>ch \<in> set f. ident_char ch \<or> ch = CHR ''.'') \<and> ident_char (last f))"
  by (auto simp: symbol_ok_def Let_def prefix_def)

definition value_canonical :: "param_kind \<times> value_order \<Rightarrow> cap_value \<Rightarrow> bool" where
  "value_canonical row v = (case v of
       VSym s \<Rightarrow> fst row = Resource
     | VInt n \<Rightarrow> snd row \<in> {Ord_Ceiling, Ord_Bytes, Ord_Duration} \<and> fst row = Ceiling
     | VPath cs \<Rightarrow> snd row = Ord_Path \<and> fst row = Resource
     | VStr s \<Rightarrow> snd row = Ord_Discrete \<and> fst row = Resource \<and> plain_string s
     | VBool _ \<Rightarrow> False)"

definition row_ok :: "param_kind \<times> value_order \<Rightarrow> bool" where
  "row_ok row \<longleftrightarrow> (fst row = Ceiling \<longleftrightarrow> snd row \<in> {Ord_Ceiling, Ord_Bytes, Ord_Duration})"

lemma registry_row_ok: "map_of registry n = Some row \<Longrightarrow> row_ok row"
  by (auto simp: registry_def row_ok_def split: if_splits)

lemma kind_orders_row_ok: "row_ok (kind_orders k)"
  by (cases k) (auto simp: row_ok_def)

lemma declared_row_ok: "declared_order n d = Some row \<Longrightarrow> row_ok row"
  by (induction n d rule: declared_order.induct) (auto simp: kind_orders_row_ok)

lemma order_of_row_ok: "order_of n d = Inr row \<Longrightarrow> row_ok row"
  by (auto simp: order_of_def registry_row_ok declared_row_ok split: option.splits)

lemma normalize_name_cases:
  "normalize_name n = n \<or> map_of registry (normalize_name n) \<noteq> None"
  by (auto simp: normalize_name_def aliases_def registry_def dict_get_def)

lemma normalize_name_idem [simp]: "normalize_name (normalize_name n) = normalize_name n"
  by (auto simp: normalize_name_def aliases_def dict_get_def)

lemma order_of_registered:
  "is_registered n d \<Longrightarrow> \<exists>row. order_of (normalize_name n) d = Inr row"
  using normalize_name_cases [of n]
  by (auto simp: is_registered_def order_of_def split: option.splits)

lemma is_registered_normalize: "is_registered n d \<Longrightarrow> is_registered (normalize_name n) d"
  using normalize_name_cases [of n] by (auto simp: is_registered_def)

lemma forbidden_chars_Inr [simp]: "forbidden_chars s n = Inr u \<longleftrightarrow> plain_string s"
proof -
  have "forbidden_chars s n = Inr u \<longleftrightarrow> find (\<lambda>ch. ch \<in> set s) reserved_chars = None"
    by (auto simp: forbidden_chars_def split: option.splits)
  then show ?thesis by (auto simp: find_None_iff plain_string_def)
qed

lemma check_components_Inr:
  "check_components raw ps = Inr cs \<longleftrightarrow>
     cs = ps \<and> (\<forall>p \<in> set ps. p \<noteq> [] \<and> p \<noteq> ''.'' \<and> p \<noteq> ''..'')"
  by (induction ps arbitrary: cs) (auto simp: result_simps)

lemma canon_path_canonical:
  assumes "canon_path s = Inr cs" "plain_string s"
  shows "canonical_path cs"
proof -
  define body where "body = (if suffix ''/'' (tl s) then butlast (tl s) else tl s)"
  define parts where "parts = (if body \<noteq> [] then py_split (CHR ''/'') body else [])"
  from assms(1) have c: "check_components s parts = Inr cs" "cs \<noteq> []"
    by (auto simp: canon_path_def body_def parts_def Let_def result_simps split: if_splits)
  have sub: "set body \<subseteq> set s"
    unfolding body_def by (cases s) (auto dest: in_set_butlastD)
  have "plain_string p \<and> CHR ''/'' \<notin> set p" if "p \<in> set parts" for p
    using that py_split_parts_subset [of p _ body] py_split_parts_no_sep [of p _ body] sub assms(2)
    by (fastforce simp: parts_def plain_string_def split: if_splits)
  with c show ?thesis by (auto simp: canonical_path_def check_components_Inr)
qed

lemma canon_value_canonical:
  assumes "canon_value n v d = Inr w" "order_of n d = Inr row"
  shows "value_canonical row w" and "is_path_value w \<Longrightarrow> \<not> is_path_value v \<Longrightarrow> \<exists>cs. w = VPath cs \<and> canonical_path cs"
    and "is_symbol w \<Longrightarrow> v = w"
proof -
  have ok: "row_ok row" using assms(2) by (rule order_of_row_ok)
  obtain k r where row: "row = (k, r)" by fastforce
  have k: "k = Ceiling \<longleftrightarrow> r \<in> {Ord_Ceiling, Ord_Bytes, Ord_Duration}"
    using ok row by (simp add: row_ok_def)
  note facts = assms row k value_canonical_def is_path_value_def is_symbol_def canon_value_def
    canon_path_canonical
  show "value_canonical row w"
    using facts by (cases v; cases r; cases k) (auto simp: result_simps split: if_splits)
  show "\<exists>cs. w = VPath cs \<and> canonical_path cs" if "is_path_value w" "\<not> is_path_value v"
    using facts that by (cases v; cases r; cases k) (auto simp: result_simps split: if_splits)
  show "v = w" if "is_symbol w"
    using facts that by (cases v; cases r; cases k) (auto simp: result_simps split: if_splits)
qed

text \<open>A canonical value is a fixed point of canonicalization, up to the spelling of a path.\<close>

fun spell :: "cap_value \<Rightarrow> cap_value" where
  "spell (VPath cs) = VStr (CHR ''/'' # py_join ''/'' cs)"
| "spell v = v"

lemma plain_slash [simp]: "plain_string (CHR ''/'' # s) \<longleftrightarrow> plain_string s"
  by (simp add: plain_string_def reserved_chars_def)

lemma plain_join: "\<forall>p \<in> set cs. plain_string p \<Longrightarrow> plain_string (py_join ''/'' cs)"
proof -
  assume cs: "\<forall>p \<in> set cs. plain_string p"
  have "set (py_join ''/'' cs) \<subseteq> insert (CHR ''/'') (\<Union>p \<in> set cs. set p)"
    using set_py_join [of "''/''" cs] by simp
  moreover have "CHR ''/'' \<notin> set reserved_chars" by (simp add: reserved_chars_def)
  ultimately show ?thesis using cs unfolding plain_string_def by blast
qed

lemma join_last:
  assumes "\<forall>p \<in> set cs. p \<noteq> [] \<and> CHR ''/'' \<notin> set p" "cs \<noteq> []"
  shows "last (py_join ''/'' cs) \<noteq> CHR ''/''"
proof -
  have "last cs \<noteq> []" "CHR ''/'' \<notin> set (last cs)" using assms by auto
  then have "last (last cs) \<noteq> CHR ''/''" using last_in_set by metis
  then show ?thesis using assms by (simp add: last_py_join)
qed

lemma canon_path_spell:
  assumes "canonical_path cs"
  shows "canon_path (CHR ''/'' # py_join ''/'' cs) = Inr cs"
proof -
  have ne: "py_join ''/'' cs \<noteq> []" and l: "last (py_join ''/'' cs) \<noteq> CHR ''/''"
    using assms join_last [of cs] by (auto simp: canonical_path_def py_join_eq_Nil)
  then have "\<not> suffix ''/'' (py_join ''/'' cs)" by (auto simp: suffix_def)
  moreover have "py_split (CHR ''/'') (py_join ''/'' cs) = cs"
    using assms by (intro py_split_join) (auto simp: canonical_path_def)
  ultimately show ?thesis
    using assms ne by (simp add: canon_path_def check_components_Inr canonical_path_def Let_def result_simps)
qed

lemma canon_value_fixed:
  assumes "value_canonical row v" "order_of n d = Inr row"
    and "\<And>cs. v = VPath cs \<Longrightarrow> canonical_path cs" and "\<And>i. v = VInt i \<Longrightarrow> 0 \<le> i"
  shows "canon_value n (spell v) d = Inr v"
proof -
  obtain k r where row: "row = (k, r)" by fastforce
  show ?thesis
  proof (cases v)
    case (VPath cs)
    with assms have "canonical_path cs" by simp
    then have "plain_string (CHR ''/'' # py_join ''/'' cs)"
      using plain_join [of cs] by (simp add: canonical_path_def)
    with VPath assms row \<open>canonical_path cs\<close> show ?thesis
      by (auto simp: canon_value_def value_canonical_def canon_path_spell is_path_value_def result_simps)
  qed (use assms row in \<open>auto simp: canon_value_def value_canonical_def is_path_value_def result_simps\<close>)
qed


subsection \<open>Reading back a rendered parameter\<close>

definition param_ok :: "declared \<Rightarrow> string \<times> cap_value \<Rightarrow> bool" where
  "param_ok d p \<longleftrightarrow> is_ident (fst p) \<and> normalize_name (fst p) = fst p
     \<and> (\<exists>row. order_of (fst p) d = Inr row \<and> value_canonical row (snd p))
     \<and> (case snd p of VPath cs \<Rightarrow> canonical_path cs | VInt i \<Rightarrow> 0 \<le> i
          | VSym s \<Rightarrow> symbol_ok s | _ \<Rightarrow> True)"

definition cap_canonical :: "declared \<Rightarrow> cap \<Rightarrow> bool" where
  "cap_canonical d c \<longleftrightarrow> cap_token c \<noteq> [] \<and> CHR ''('' \<notin> set (cap_token c)
     \<and> (cap_token c = ''*'' \<longrightarrow> cap_params c = [])
     \<and> sorted_wrt (<) (map fst (cap_params c))
     \<and> (\<forall>p \<in> set (cap_params c). param_ok d p)"

lemma param_ok_cases:
  assumes "param_ok d (n, v)"
  obtains (path) cs where "v = VPath cs" "canonical_path cs"
    | (int) i where "v = VInt i" "0 \<le> i"
    | (sym) s where "v = VSym s" "symbol_ok s"
    | (str) s where "v = VStr s" "plain_string s"
  using assms by (cases v) (auto simp: param_ok_def value_canonical_def)

lemma quote_reserved: "CHR 0x22 \<in> set reserved_chars" "CHR '','' \<in> set reserved_chars"
  by (simp_all add: reserved_chars_def)

lemma plain_no_quote: "plain_string s \<Longrightarrow> CHR 0x22 \<notin> set s"
  using quote_reserved by (auto simp: plain_string_def)

lemma path_no_quote: "canonical_path cs \<Longrightarrow> CHR 0x22 \<notin> set (CHR ''/'' # py_join ''/'' cs)"
  using plain_join [of cs] plain_no_quote [of "CHR ''/'' # py_join ''/'' cs"]
  by (simp add: canonical_path_def)

lemma symbol_ok_chars:
  "symbol_ok s \<Longrightarrow> symbol_ref s \<noteq> []
     \<and> (\<forall>c \<in> set (symbol_ref s). \<not> py_space c \<and> c \<noteq> CHR 0x22 \<and> c \<noteq> CHR '','')"
proof -
  assume s: "symbol_ok s"
  have dots: "c = CHR ''.'' \<Longrightarrow> \<not> py_space c \<and> c \<noteq> CHR 0x22 \<and> c \<noteq> CHR '',''"
    and cfg: "c \<in> set ''config.'' \<Longrightarrow> \<not> py_space c \<and> c \<noteq> CHR 0x22 \<and> c \<noteq> CHR '',''" for c
    by (auto simp: py_space_def)
  from s show ?thesis unfolding symbol_ok_iff
  proof (elim disjE exE conjE)
    assume "is_ident (symbol_ref s)"
    then show ?thesis using is_ident_chars ident_char_not_special by fastforce
  next
    fix f assume f: "symbol_ref s = ''config.'' @ f" "\<forall>ch \<in> set f. ident_char ch \<or> ch = CHR ''.''"
    have "\<not> py_space c \<and> c \<noteq> CHR 0x22 \<and> c \<noteq> CHR '',''" if "c \<in> set (symbol_ref s)" for c
    proof (cases "c \<in> set f")
      case True
      then show ?thesis using f(2) ident_char_not_special [of c] dots [of c] by auto
    next
      case False
      with that have "c \<in> set ''config.''" unfolding f(1) by simp
      then show ?thesis by (rule cfg)
    qed
    then show ?thesis using f(1) by simp
  qed
qed

lemma dec_chars: "c \<in> set (dec_nat n) \<Longrightarrow> \<not> py_space c \<and> c \<noteq> CHR 0x22 \<and> c \<noteq> CHR '',''"
  using dec_nat_digits digit_ident_char ident_char_not_special by fastforce

lemma parse_value_quoted [simp]: "parse_value (CHR 0x22 # s @ [CHR 0x22]) = Inr (VStr s)"
  by (simp add: parse_value_def)

lemma parse_value_symbol:
  assumes "symbol_ok s"
  shows "parse_value (symbol_ref s) = Inr (VSym s)"
proof -
  have "CHR 0x22 \<notin> set (symbol_ref s)" "symbol_ref s \<noteq> []"
    using symbol_ok_chars [OF assms] by auto
  then have "hd (symbol_ref s) \<noteq> CHR 0x22" using hd_in_set by metis
  then show ?thesis
    using assms by (cases s) (auto simp: parse_value_def symbol_ok_iff)
qed

lemma parse_value_dec: "parse_value (dec_nat n) = Inr (VInt (int n))"
proof -
  obtain c cs where c: "dec_nat n = c # cs" by (cases "dec_nat n") auto
  then have d: "is_digit c" using dec_nat_digits [of c n] by simp
  then have "c \<noteq> CHR 0x22" "c \<noteq> CHR ''c''" "\<not> is_alpha_us c"
    by (auto simp: is_digit_def is_alpha_us_def)
  then show ?thesis
    using c py_int_dec_nat [of n] by (simp add: parse_value_def is_ident_def)
qed

lemma parse_value_render:
  assumes "param_ok d (n, v)"
  shows "parse_value (render_value v) = Inr (spell v)"
  using assms
proof (cases rule: param_ok_cases)
  case (path cs)
  then show ?thesis using parse_value_quoted [of "CHR ''/'' # py_join ''/'' cs"] by simp
next
  case (int i)
  then show ?thesis using parse_value_dec [of "nat i"] by (simp add: dec_int_def)
qed (simp_all add: parse_value_symbol)

lemma quote_not_space: "\<not> py_space (CHR 0x22)"
  by (simp add: py_space_def)

lemma strip_no_space: "\<forall>c \<in> set s. \<not> py_space c \<Longrightarrow> py_strip s = s"
  by (rule py_strip_id) (metis hd_in_set last_in_set)

lemma render_strip:
  assumes "param_ok d (n, v)"
  shows "py_strip (render_value v) = render_value v"
  using assms
proof (cases rule: param_ok_cases)
  case (path cs)
  then show ?thesis using quote_not_space by (intro py_strip_id) simp
next
  case (str s)
  then show ?thesis using quote_not_space by (intro py_strip_id) simp
next
  case (int i)
  then show ?thesis using dec_chars by (auto simp: dec_int_def intro: strip_no_space)
next
  case (sym s)
  then show ?thesis using symbol_ok_chars by (auto intro: strip_no_space)
qed

lemma ident_no_eq: "is_ident n \<Longrightarrow> CHR ''='' \<notin> set n"
  using is_ident_chars ident_char_not_special by blast

lemma parse_piece_render:
  assumes "param_ok d p"
  shows "parse_piece (render_param p) = Inr (fst p, spell (snd p))"
proof -
  obtain n v where p: "p = (n, v)" by fastforce
  have n: "is_ident n" using assms p by (simp add: param_ok_def)
  then have "py_find (CHR ''='') (n @ CHR ''='' # render_value v) = Some (length n)"
    by (intro py_find_append ident_no_eq)
  moreover have "py_strip n = n"
    using is_ident_chars [OF n] ident_char_not_special by (intro strip_no_space) blast
  ultimately show ?thesis
    using assms p parse_value_render [of d n v] render_strip [of d n v]
    by (simp add: parse_piece_def render_param_def)
qed


subsection \<open>Splitting a rendered list\<close>

definition balanced :: "string \<Rightarrow> bool" where
  "balanced w \<longleftrightarrow> (\<forall>cur rest. split_params_from False cur (w @ rest) = split_params_from False (cur @ w) rest)"

lemma balanced_append: "balanced v \<Longrightarrow> balanced w \<Longrightarrow> balanced (v @ w)"
  by (simp add: balanced_def)

lemma balanced_plain: "CHR 0x22 \<notin> set w \<Longrightarrow> CHR '','' \<notin> set w \<Longrightarrow> balanced w"
  by (induction w) (auto simp: balanced_def)

lemma split_inside: "CHR 0x22 \<notin> set w \<Longrightarrow>
    split_params_from True cur (w @ rest) = split_params_from True (cur @ w) rest"
  by (induction w arbitrary: cur) auto

lemma balanced_quoted: "CHR 0x22 \<notin> set w \<Longrightarrow> balanced (CHR 0x22 # w @ [CHR 0x22])"
  by (simp add: balanced_def split_inside)

lemma balanced_render:
  assumes "param_ok d p"
  shows "balanced (render_param p)"
proof -
  obtain n v where p: "p = (n, v)" by fastforce
  have "is_ident n" using assms p by (simp add: param_ok_def)
  then have "balanced n" "balanced ''=''"
    using is_ident_chars ident_char_not_special by (blast intro: balanced_plain, simp add: balanced_plain)
  moreover from assms p have "param_ok d (n, v)" by simp
  then have "balanced (render_value v)"
  proof (cases rule: param_ok_cases)
    case (path cs)
    then show ?thesis using balanced_quoted [OF path_no_quote] by simp
  next
    case (int i)
    then show ?thesis using dec_chars by (auto simp: dec_int_def intro!: balanced_plain)
  next
    case (sym s)
    then show ?thesis using symbol_ok_chars by (auto intro!: balanced_plain)
  next
    case (str s)
    then show ?thesis using balanced_quoted [OF plain_no_quote] by simp
  qed
  ultimately show ?thesis
    unfolding p render_param_def fst_conv snd_conv by (intro balanced_append)
qed

lemma split_params_join:
  assumes "ws \<noteq> []" "\<forall>w \<in> set ws. balanced w"
  shows "split_params (py_join '','' ws) = ws"
proof -
  have "split_params_from False [] (py_join '','' ws) = ws"
    using assms
  proof (induction ws)
    case (Cons w ws)
    have w: "split_params_from False [] (w @ rest) = split_params_from False w rest" for rest
      using Cons.prems by (simp add: balanced_def)
    show ?case
    proof (cases ws)
      case Nil
      then show ?thesis using w [of "[]"] by simp
    next
      case (Cons u us)
      then show ?thesis using w [of "CHR '','' # py_join '','' ws"] Cons.IH Cons.prems by simp
    qed
  qed simp
  then show ?thesis by (simp add: split_params_def)
qed


subsection \<open>The round trip\<close>

lemma canon_params_fixed:
  assumes "\<forall>p \<in> set ps. param_ok d p" "distinct (map fst ps)" "seen \<inter> fst ` set ps = {}" "d \<noteq> Admit_Unknown"
  shows "canon_params d seen (map (\<lambda>p. (fst p, spell (snd p))) ps) = Inr ps"
  using assms
proof (induction ps arbitrary: seen)
  case (Cons p ps)
  obtain n v where p: "p = (n, v)" by fastforce
  have ok: "param_ok d (n, v)" using Cons.prems p by simp
  then obtain row where row: "order_of n d = Inr row" "value_canonical row v" and nn: "normalize_name n = n"
    by (auto simp: param_ok_def)
  have "canon_value n (spell v) d = Inr v"
    using ok row by (intro canon_value_fixed) (auto simp: param_ok_def)
  moreover have "is_registered n d"
    using row nn by (auto simp: is_registered_def order_of_def split: option.splits)
  ultimately show ?case
    using Cons p nn by (simp add: Cons.IH)
qed simp

lemma make_cap_fixed:
  assumes "cap_canonical d c" "d \<noteq> Admit_Unknown"
  shows "make_cap_raw (cap_token c) (map (\<lambda>p. (fst p, spell (snd p))) (cap_params c)) d = Inr c"
proof -
  have s: "sorted (map fst (cap_params c))" "distinct (map fst (cap_params c))"
    using assms by (auto simp: cap_canonical_def strict_sorted_iff)
  have "canon_params d {} (map (\<lambda>p. (fst p, spell (snd p))) (cap_params c)) = Inr (cap_params c)"
    using assms s by (intro canon_params_fixed) (auto simp: cap_canonical_def)
  moreover have "sort_key fst (cap_params c) = cap_params c"
    using s(1) by (simp add: sorted_sort_id sort_key_id_if_sorted)
  ultimately show ?thesis
    using assms by (auto simp: make_cap_raw_def cap_canonical_def)
qed


lemma parse_to_str_raw:
  assumes "cap_token c \<noteq> []" "CHR ''('' \<notin> set (cap_token c)"
    and "\<forall>p \<in> set (cap_params c). param_ok d p"
  shows "parse_cap (to_str c) d' =
    make_cap_raw (cap_token c) (map (\<lambda>p. (fst p, spell (snd p))) (cap_params c)) d'"
proof (cases "cap_params c = []")
  case True
  then show ?thesis using assms by (simp add: to_str_def parse_cap_def py_find_None)
next
  case False
  define inner where "inner = py_join '','' (map render_param (cap_params c))"
  have spelled: "to_str c = cap_token c @ CHR ''('' # inner @ [CHR '')'']"
    using False by (simp add: to_str_def inner_def)
  have "split_params inner = map render_param (cap_params c)"
    unfolding inner_def using False assms(3) balanced_render by (intro split_params_join) auto
  moreover have "res_map parse_piece (map render_param (cap_params c))
      = Inr (map (\<lambda>p. (fst p, spell (snd p))) (cap_params c))"
    using assms(3) parse_piece_render by (intro res_map_Inr_map) blast
  moreover have "py_strip inner \<noteq> []"
  proof -
    obtain p ps where ps: "cap_params c = p # ps" using False by (cases "cap_params c") auto
    have "is_ident (fst p)" using assms(3) ps by (simp add: param_ok_def)
    then obtain ch where ch: "ch \<in> set (fst p)" "\<not> py_space ch"
      using is_ident_chars ident_char_not_special by (metis hd_in_set)
    then have "ch \<in> set inner"
      unfolding inner_def ps by (cases ps) (auto simp: render_param_def)
    with ch show ?thesis by (auto simp: py_strip_Nil)
  qed
  ultimately show ?thesis
    using assms py_find_append [of "CHR ''(''" "cap_token c" "inner @ '')''"]
    by (simp add: parse_cap_def spelled suffix_def Let_def)
qed

lemma parse_to_str:
  assumes "cap_canonical d c" "d \<noteq> Admit_Unknown"
  shows "parse_cap (to_str c) d = Inr c"
  using assms parse_to_str_raw [of c d d] make_cap_fixed [of d c]
  by (auto simp: cap_canonical_def)


subsection \<open>The stored read\<close>

text \<open>
  Without the declaration a core parameter is read back exactly, and a declared one keeps the
  value its spelling denotes: a declared path degrades to the string of its characters.
\<close>

definition stored_value :: "string \<Rightarrow> cap_value \<Rightarrow> cap_value" where
  "stored_value n v = (if map_of registry n = None then spell v else v)"

definition stored_cap :: "cap \<Rightarrow> cap" where
  "stored_cap c = mk_cap (cap_token c) (map (\<lambda>(n, v). (n, stored_value n v)) (cap_params c))"

lemma canon_params_stored:
  assumes "\<forall>p \<in> set ps. param_ok d p" "distinct (map fst ps)" "seen \<inter> fst ` set ps = {}"
  shows "canon_params Admit_Unknown seen (map (\<lambda>p. (fst p, spell (snd p))) ps)
    = Inr (map (\<lambda>(n, v). (n, stored_value n v)) ps)"
  using assms
proof (induction ps arbitrary: seen)
  case (Cons p ps)
  obtain n v where p: "p = (n, v)" by fastforce
  have ok: "param_ok d (n, v)" using Cons.prems p by simp
  then obtain row where row: "order_of n d = Inr row" "value_canonical row v" and nn: "normalize_name n = n"
    by (auto simp: param_ok_def)
  show ?case
  proof (cases "map_of registry n")
    case None
    then have "\<not> is_registered n Admit_Unknown" using nn by (simp add: is_registered_def)
    with None Cons p nn show ?thesis by (simp add: stored_value_def)
  next
    case (Some r)
    then have "order_of n Admit_Unknown = Inr row" "is_registered n Admit_Unknown"
      using row nn by (auto simp: order_of_def is_registered_def)
    moreover from this have "canon_value n (spell v) Admit_Unknown = Inr v"
      using ok row by (intro canon_value_fixed) (auto simp: param_ok_def)
    ultimately show ?thesis using Some Cons p nn by (simp add: stored_value_def)
  qed
qed simp

lemma parse_stored_to_str:
  assumes "cap_canonical d c"
  shows "parse_stored_cap (to_str c) = Inr (stored_cap c)"
proof -
  have s: "sorted (map fst (cap_params c))" "distinct (map fst (cap_params c))"
    using assms by (auto simp: cap_canonical_def strict_sorted_iff)
  let ?ps = "map (\<lambda>(n, v). (n, stored_value n v)) (cap_params c)"
  have "canon_params Admit_Unknown {} (map (\<lambda>p. (fst p, spell (snd p))) (cap_params c)) = Inr ?ps"
    using assms s by (intro canon_params_stored) (auto simp: cap_canonical_def)
  moreover have "map fst ?ps = map fst (cap_params c)" by (simp add: case_prod_unfold comp_def)
  then have "sort_key fst ?ps = ?ps"
    using s(1) by (metis sort_key_id_if_sorted)
  ultimately show ?thesis
    using assms parse_to_str_raw [of c d Admit_Unknown]
    by (auto simp: parse_stored_cap_def make_cap_raw_def cap_canonical_def stored_cap_def)
qed

lemma spell_path_inj:
  "canonical_path p \<Longrightarrow> canonical_path q \<Longrightarrow> spell (VPath p) = spell (VPath q) \<Longrightarrow> p = q"
  by (drule canon_path_spell, drule canon_path_spell) (metis cap_value.inject(1) spell.simps(1) sum.inject(2))

lemma stored_value_leq:
  assumes "param_ok d (n, v)" "param_ok d (n, w)" "param_leq (stored_value n v) (stored_value n w)"
  shows "param_leq v w"
proof (cases "map_of registry n")
  case None
  obtain row where row: "order_of n d = Inr row" "value_canonical row v" "value_canonical row w"
    using assms(1,2) by (auto simp: param_ok_def)
  have k: "row_ok row" using row(1) by (rule order_of_row_ok)
  have leq: "param_leq (spell v) (spell w)" using assms(3) None by (simp add: stored_value_def)
  show ?thesis
  proof (cases v)
    case (VPath p)
    with row k leq obtain q where q: "w = VPath q"
      by (cases w) (auto simp: value_canonical_def)
    with VPath leq assms show ?thesis by (auto simp: param_ok_def dest: spell_path_inj)
  qed (use row k leq in \<open>cases w; auto simp: value_canonical_def row_ok_def param_leq_VInt is_bool_value_def\<close>)+
qed (use assms in \<open>simp add: stored_value_def\<close>)

lemma cap_canonical_wf: "cap_canonical d c \<Longrightarrow> cap_wf c"
proof -
  assume c: "cap_canonical d c"
  have "\<not> is_bool_value v" if "(n, v) \<in> set (cap_params c)" for n v
  proof -
    have "param_ok d (n, v)" using c that by (auto simp: cap_canonical_def)
    then show ?thesis by (cases v) (auto simp: param_ok_def value_canonical_def is_bool_value_def)
  qed
  with c show ?thesis by (auto simp: cap_canonical_def cap_wf_def)
qed

lemma stored_cap_wf:
  assumes "cap_canonical d c"
  shows "cap_wf (stored_cap c)"
proof -
  have "\<not> is_bool_value (stored_value n v)" if "(n, v) \<in> set (cap_params c)" for n v
    using wf_not_bool [OF cap_canonical_wf [OF assms] that]
    by (cases v) (auto simp: stored_value_def is_bool_value_def)
  then show ?thesis
    using cap_canonical_wf [OF assms] by (auto simp: cap_wf_def stored_cap_def comp_def case_prod_unfold)
qed

lemma stored_cap_covers:
  assumes "cap_canonical d a" "cap_canonical d b" "covers (stored_cap a) (stored_cap b)"
  shows "covers a b"
proof (cases "cap_token a = ''*''")
  case True
  then show ?thesis using assms(3) by (simp add: stored_cap_def)
next
  case False
  then have star: "cap_token (stored_cap a) \<noteq> ''*''" by (simp add: stored_cap_def)
  have "\<exists>bv. (k, bv) \<in> set (cap_params b) \<and> param_leq bv av" if kav: "(k, av) \<in> set (cap_params a)" for k av
  proof -
    have "(k, stored_value k av) \<in> set (cap_params (stored_cap a))"
      using kav by (force simp: stored_cap_def)
    then obtain bv' where "(k, bv') \<in> set (cap_params (stored_cap b))" "param_leq bv' (stored_value k av)"
      using assms(3) covers_iff [OF star stored_cap_wf [OF assms(2)]] by blast
    then obtain bv where "(k, bv) \<in> set (cap_params b)" "param_leq (stored_value k bv) (stored_value k av)"
      by (auto simp: stored_cap_def)
    moreover have "param_ok d (k, av)" "param_ok d (k, bv)"
      using assms(1,2) kav calculation(1) unfolding cap_canonical_def by blast+
    moreover from this calculation(2) have "param_leq bv av" by (metis stored_value_leq)
    ultimately show ?thesis by blast
  qed
  then show ?thesis
    using covers_iff [OF False cap_canonical_wf [OF assms(2)]] covers_token [OF assms(3)]
    by (simp add: stored_cap_def)
qed

end
