(* ===== verification/Cap_Properties.thy ===== *)
theory Cap_Properties
  imports Cap_Spelling
begin

section \<open>Properties of the capability order\<close>

text \<open>
  What the constructor establishes, the order laws over constructed capabilities, the round
  trip through the canonical spelling, the fail-closed stored read, and substitution.
\<close>

subsection \<open>What the constructor returns\<close>

text \<open>The raw pairs the frontend hands over: identifier names, well-spelled symbols.\<close>

definition raw_ok :: "(string \<times> cap_value) list \<Rightarrow> bool" where
  "raw_ok raw \<longleftrightarrow> (\<forall>(n, v) \<in> set raw. is_ident n \<and>
     (case v of VSym s \<Rightarrow> symbol_ok s | VPath cs \<Rightarrow> canonical_path cs | _ \<Rightarrow> True))"

definition ints_nonneg :: "cap \<Rightarrow> bool" where
  "ints_nonneg c \<longleftrightarrow> (\<forall>(n, v) \<in> set (cap_params c). case v of VInt i \<Rightarrow> 0 \<le> i | _ \<Rightarrow> True)"

lemma canon_params_elem:
  assumes "canon_params d seen raw = Inr ps" "d \<noteq> Admit_Unknown" "(n, w) \<in> set ps"
  shows "\<exists>m v row. (m, v) \<in> set raw \<and> n = normalize_name m \<and> order_of n d = Inr row
    \<and> canon_value n v d = Inr w \<and> value_canonical row w"
  using assms
proof (induction raw arbitrary: seen ps)
  case (Cons p raw)
  obtain m v where p: "p = (m, v)" by fastforce
  from Cons.prems p obtain u qs where u: "is_registered m d" "canon_value (normalize_name m) v d = Inr u"
      "canon_params d (insert (normalize_name m) seen) raw = Inr qs" "ps = (normalize_name m, u) # qs"
    by (auto simp: Let_def result_simps split: if_splits)
  show ?case
  proof (cases "(n, w) = (normalize_name m, u)")
    case True
    obtain row where row: "order_of (normalize_name m) d = Inr row"
      using order_of_registered [OF u(1)] by blast
    with True u canon_value_canonical(1) [OF u(2) row] p show ?thesis by fastforce
  next
    case False
    with u(4) Cons.prems have "(n, w) \<in> set qs" by auto
    with Cons.IH [OF u(3) Cons.prems(2)] p show ?thesis by fastforce
  qed
qed simp

lemma canon_params_distinct:
  "canon_params d seen raw = Inr ps \<Longrightarrow> distinct (map fst ps) \<and> fst ` set ps \<inter> seen = {}"
proof (induction raw arbitrary: seen ps)
  case (Cons p raw)
  obtain m v where p: "p = (m, v)" by fastforce
  from Cons.prems p obtain u qs where u: "normalize_name m \<notin> seen"
      "canon_params d (insert (normalize_name m) seen) raw = Inr qs" "ps = (normalize_name m, u) # qs"
    by (auto simp: Let_def result_simps split: if_splits)
  with Cons.IH [OF u(2)] show ?case by force
qed simp

lemma make_cap_raw_Inr:
  "make_cap_raw t raw d = Inr c \<longleftrightarrow> t \<noteq> [] \<and> (t = ''*'' \<longrightarrow> raw = [])
     \<and> (\<exists>ps. canon_params d {} raw = Inr ps \<and> c = mk_cap t (sort_key fst ps))"
  by (auto simp: make_cap_raw_def result_simps)

lemma sorted_params: "distinct (map fst ps) \<Longrightarrow> sorted_wrt (<) (map fst (sort_key fst ps))"
proof -
  assume d: "distinct (map fst ps)"
  then have "distinct (map fst (sort_key fst ps))" by (simp add: distinct_map)
  then show ?thesis by (simp add: strict_sorted_iff)
qed

lemma make_cap_wf:
  assumes "make_cap_raw t raw d = Inr c" "d \<noteq> Admit_Unknown"
  shows "cap_wf c"
proof -
  obtain ps where ps: "canon_params d {} raw = Inr ps" "c = mk_cap t (sort_key fst ps)" "t = ''*'' \<Longrightarrow> raw = []"
    using assms(1) by (auto simp: make_cap_raw_Inr)
  have "\<not> is_bool_value w" if "(n, w) \<in> set ps" for n w
    using canon_params_elem [OF ps(1) assms(2) that]
    by (cases w) (auto simp: value_canonical_def is_bool_value_def)
  moreover have "sorted_wrt (<) (map fst (cap_params c))"
    using canon_params_distinct [OF ps(1)] sorted_params ps(2) by simp
  moreover have "t = ''*'' \<Longrightarrow> ps = []" using ps by auto
  ultimately show ?thesis using ps(2) by (auto simp: cap_wf_def)
qed

lemma normalize_ident: "is_ident n \<Longrightarrow> is_ident (normalize_name n)"
  by (auto simp: normalize_name_def aliases_def dict_get_def is_ident_def list_all_iff
      is_alpha_us_def ident_char_def)

lemma make_cap_canonical:
  assumes "make_cap_raw t raw d = Inr c" "d \<noteq> Admit_Unknown" "CHR ''('' \<notin> set t" "raw_ok raw" "ints_nonneg c"
  shows "cap_canonical d c"
proof -
  obtain ps where ps: "canon_params d {} raw = Inr ps" "c = mk_cap t (sort_key fst ps)" "t \<noteq> []"
    using assms(1) by (auto simp: make_cap_raw_Inr)
  have "param_ok d (n, w)" if nw: "(n, w) \<in> set ps" for n w
  proof -
    obtain m v row where m: "(m, v) \<in> set raw" "n = normalize_name m" "order_of n d = Inr row"
        "canon_value n v d = Inr w" "value_canonical row w"
      using canon_params_elem [OF ps(1) assms(2) nw] by blast
    have raw: "is_ident m" "case v of VSym s \<Rightarrow> symbol_ok s | VPath cs \<Rightarrow> canonical_path cs | _ \<Rightarrow> True"
      using assms(4) m(1) by (auto simp: raw_ok_def)
    have "case w of VPath cs \<Rightarrow> canonical_path cs | VInt i \<Rightarrow> 0 \<le> i | VSym s \<Rightarrow> symbol_ok s | _ \<Rightarrow> True"
    proof (cases w)
      case (VPath cs)
      show ?thesis
      proof (cases "is_path_value v")
        case True
        with m VPath raw show ?thesis
          by (cases v) (auto simp: canon_value_def is_path_value_def result_simps split: if_splits prod.splits)
      next
        case False
        then show ?thesis
          using canon_value_canonical(2) [OF m(4,3)] VPath by (auto simp: is_path_value_def)
      qed
    next
      case (VSym s)
      then show ?thesis using canon_value_canonical(3) [OF m(4,3)] raw by (auto simp: is_symbol_def)
    next
      case (VInt i)
      then show ?thesis using assms(5) nw ps(2) by (force simp: ints_nonneg_def)
    qed auto
    then show ?thesis using m raw by (auto simp: param_ok_def normalize_ident)
  qed
  then show ?thesis
    using ps assms make_cap_wf [OF assms(1,2)] by (auto simp: cap_canonical_def cap_wf_def)
qed



subsection \<open>Order laws\<close>

text \<open>C1: On the capabilities \<open>make_cap\<close> builds (with the declarations in scope, whichever
  they are), \<open>covers\<close> is a partial order: reflexive, transitive and antisymmetric.  Attenuation
  checks may therefore be composed hop by hop, and two mutually covering capabilities are the
  same capability.\<close>

theorem covers_partial_order:
  assumes a: "make_cap ta ra da = Inr a" "da \<noteq> Admit_Unknown"
    and b: "make_cap tb rb db = Inr b" "db \<noteq> Admit_Unknown"
    and c: "make_cap tc rc dc = Inr c" "dc \<noteq> Admit_Unknown"
  shows "covers a a \<and> (covers a b \<and> covers b c \<longrightarrow> covers a c) \<and> (covers a b \<and> covers b a \<longrightarrow> a = b)"
proof -
  have wf: "cap_wf a" "cap_wf b" "cap_wf c"
    using a b c make_cap_wf unfolding make_cap_def by blast+
  then show ?thesis using cap.cov_refl cap.cov_trans covers_antisym by meson
qed

definition ex_decl :: declared where
  "ex_decl = Decl [(''account'', Kind_Path), (''sends'', Kind_Ceiling)]"

definition ex_raw :: "(string \<times> cap_value) list" where
  "ex_raw = [(''sends'', VInt 5), (''account'', VStr ''/org/team''), (''host'', VStr ''a.b'')]"

definition ex_cap :: cap where
  "ex_cap = mk_cap ''mail.send'' [(''account'', VPath [''org'', ''team'']), (''host'', VStr ''a.b''),
     (''sends'', VInt 5)]"

definition ex_wide :: cap where
  "ex_wide = mk_cap ''mail.send'' [(''account'', VPath [''org''])]"

lemma ex_cap_made: "make_cap ''mail.send'' (Some ex_raw) ex_decl = Inr ex_cap"
  by code_simp

lemma ex_wide_made: "make_cap ''mail.send'' (Some [(''account'', VStr ''/org/'')]) ex_decl = Inr ex_wide"
  by code_simp

theorem covers_partial_order_witness:
  "covers ex_cap ex_cap \<and> covers (mk_cap ''mail.send'' []) ex_cap"
proof -
  have bare: "make_cap ''mail.send'' None No_Decl = Inr (mk_cap ''mail.send'' [])" by code_simp
  have d: "ex_decl \<noteq> Admit_Unknown" by (simp add: ex_decl_def)
  have "covers ex_wide ex_cap" "covers (mk_cap ''mail.send'' []) ex_wide" by code_simp+
  then show ?thesis
    using covers_partial_order [OF ex_cap_made d ex_wide_made d ex_cap_made d]
      covers_partial_order [OF bare _ ex_wide_made d ex_cap_made d] by simp
qed


subsection \<open>Round trip and stored read\<close>

text \<open>A capability built by \<open>make_cap\<close> is read back from its own printed spelling by
  \<open>parse_cap\<close> with the same declarations, unchanged: paths, hosts and tables, ceilings and
  symbols all survive the round trip, whatever order and aliases the parameters were written
  in.  The token holds no parenthesis, names are identifiers, symbols are spelled as the
  frontend spells them, and ceilings are non-negative.\<close>

theorem make_cap_roundtrip:
  assumes "make_cap t raw d = Inr c" "d \<noteq> Admit_Unknown" "CHR ''('' \<notin> set t"
    and "raw_ok (case raw of None \<Rightarrow> [] | Some ps \<Rightarrow> ps)" "ints_nonneg c"
  shows "parse_cap (to_str c) d = Inr c"
  using assms parse_to_str make_cap_canonical unfolding make_cap_def by blast

theorem make_cap_roundtrip_witness: "parse_cap (to_str ex_cap) ex_decl = Inr ex_cap"
proof -
  have "CHR ''('' \<notin> set ''mail.send''" "ex_decl \<noteq> Admit_Unknown" by (simp_all add: ex_decl_def)
  moreover have "raw_ok ex_raw" "ints_nonneg ex_cap" by code_simp+
  ultimately show ?thesis using make_cap_roundtrip [OF ex_cap_made] by simp
qed

text \<open>The stored read is fail-closed.  A recorded spelling, re-read without the declaration
  that named its parameters, always reads back; and whenever the re-read pair compares as
  covering, the capabilities that were recorded compare as covering too.  Losing the
  declaration can only narrow a cone, never widen it.\<close>

theorem stored_read_never_widens:
  assumes "make_cap ta ra d = Inr a" "make_cap tb rb d = Inr b" "d \<noteq> Admit_Unknown"
    and "CHR ''('' \<notin> set ta" "CHR ''('' \<notin> set tb"
    and "raw_ok (case ra of None \<Rightarrow> [] | Some ps \<Rightarrow> ps)" "raw_ok (case rb of None \<Rightarrow> [] | Some ps \<Rightarrow> ps)"
    and "ints_nonneg a" "ints_nonneg b"
  shows "\<exists>sa sb. parse_stored_cap (to_str a) = Inr sa \<and> parse_stored_cap (to_str b) = Inr sb
    \<and> (covers sa sb \<longrightarrow> covers a b)"
proof -
  have "cap_canonical d a" "cap_canonical d b"
    using assms make_cap_canonical unfolding make_cap_def by blast+
  then show ?thesis using parse_stored_to_str stored_cap_covers by blast
qed

theorem stored_read_never_widens_witness:
  "\<exists>sa. parse_stored_cap (to_str ex_cap) = Inr sa \<and> covers sa sa \<and> covers ex_cap ex_cap"
proof -
  have ok: "CHR ''('' \<notin> set ''mail.send''" "ex_decl \<noteq> Admit_Unknown" by (simp_all add: ex_decl_def)
  have raw: "raw_ok (case Some ex_raw of None \<Rightarrow> [] | Some ps \<Rightarrow> ps)" "ints_nonneg ex_cap" by code_simp+
  have "covers (stored_cap ex_cap) (stored_cap ex_cap)" by code_simp
  moreover have "parse_stored_cap (to_str ex_cap) = Inr (stored_cap ex_cap)"
    using make_cap_canonical [OF ex_cap_made [unfolded make_cap_def]] ok raw parse_stored_to_str by simp
  ultimately show ?thesis
    using stored_read_never_widens [OF ex_cap_made ex_cap_made ok(2,1,1) raw(1,1) raw(2,2)] by auto
qed

text \<open>The non-negativity that the round trip needs is not established by canonicalization.
  A byte budget written with a unit suffix and a minus sign is accepted as a negative ceiling,
  although a bare negative ceiling is refused; and the spelling it prints can no longer be read
  back.\<close>

theorem negative_suffixed_ceiling:
  "\<exists>c. make_cap ''net.fetch'' (Some [(''size'', VStr ''-10MB'')]) No_Decl = Inr c
     \<and> cap_params c = [(''size'', VInt (- 10485760))]
     \<and> parse_cap (to_str c) No_Decl = Inl (Ceiling_Negative ''size'' (- 10485760))"
proof -
  let ?c = "mk_cap ''net.fetch'' [(''size'', VInt (- 10485760))]"
  have "make_cap ''net.fetch'' (Some [(''size'', VStr ''-10MB'')]) No_Decl = Inr ?c" by code_simp
  moreover have "to_str ?c = ''net.fetch(size=-10485760)''"
    by (simp add: to_str_def render_param_def dec_int_def dec_nat.simps, code_simp)
  moreover have "parse_cap ''net.fetch(size=-10485760)'' No_Decl = Inl (Ceiling_Negative ''size'' (- 10485760))"
    by code_simp
  ultimately show ?thesis by auto
qed


subsection \<open>Paths, substitution, ceilings\<close>

definition path_spelling :: "string list \<Rightarrow> string" where
  "path_spelling cs = CHR ''/'' # py_join ''/'' cs"

text \<open>A path value is accepted exactly when it spells a canonical component list, with or
  without one trailing slash, and the result is that list: relative paths, the root, empty
  components and dot components are all refused, and one cone has one canonical value.\<close>

theorem canon_path_exact:
  "canon_path raw = Inr cs \<longleftrightarrow>
     cs \<noteq> [] \<and> list_all (\<lambda>p. p \<noteq> [] \<and> p \<noteq> ''.'' \<and> p \<noteq> ''..'' \<and> CHR ''/'' \<notin> set p) cs
     \<and> raw \<in> {path_spelling cs, path_spelling cs @ ''/''}"
  (is "_ \<longleftrightarrow> cs \<noteq> [] \<and> list_all ?ok cs \<and> _")
proof
  assume "canon_path raw = Inr cs"
  define body where "body = (if suffix ''/'' (tl raw) then butlast (tl raw) else tl raw)"
  define parts where "parts = (if body \<noteq> [] then py_split (CHR ''/'') body else [])"
  from \<open>canon_path raw = Inr cs\<close> have pre: "prefix ''/'' raw" and ne: "cs \<noteq> []"
    and c: "check_components raw parts = Inr cs"
    unfolding canon_path_def Let_def body_def [symmetric] parts_def [symmetric]
    by (simp_all only: result_simps split: if_splits) auto
  then have cs_parts: "cs = parts" and ok: "\<forall>p \<in> set cs. p \<noteq> [] \<and> p \<noteq> ''.'' \<and> p \<noteq> ''..''"
    unfolding check_components_Inr by blast+
  then have cs: "cs = py_split (CHR ''/'') body"
    using ne unfolding parts_def by (simp split: if_splits)
  then have "py_join ''/'' cs = body" by (simp add: py_join_split)
  moreover have "raw = CHR ''/'' # body \<or> raw = CHR ''/'' # body @ ''/''"
    using pre by (cases raw) (auto simp: body_def suffix_def)
  moreover have "list_all ?ok cs"
    unfolding list_all_iff cs using ok [unfolded cs] py_split_parts_no_sep [of _ "CHR ''/''" body] by blast
  ultimately show "cs \<noteq> [] \<and> list_all ?ok cs \<and> raw \<in> {path_spelling cs, path_spelling cs @ ''/''}"
    using ne by (auto simp: path_spelling_def)
next
  assume a: "cs \<noteq> [] \<and> list_all ?ok cs \<and> raw \<in> {path_spelling cs, path_spelling cs @ ''/''}"
  let ?j = "py_join ''/'' cs"
  have ok: "\<forall>p \<in> set cs. p \<noteq> [] \<and> CHR ''/'' \<notin> set p" using a by (auto simp: list_all_iff)
  have "?j \<noteq> []" "last ?j \<noteq> CHR ''/''" using ok a join_last [of cs] by (auto simp: py_join_eq_Nil)
  then have "\<not> suffix ''/'' ?j" by (auto simp: suffix_def)
  moreover have "py_split (CHR ''/'') ?j = cs" using ok a by (intro py_split_join) auto
  moreover have "check_components raw cs = Inr cs" using a by (auto simp: check_components_Inr list_all_iff)
  ultimately show "canon_path raw = Inr cs"
    using a \<open>?j \<noteq> []\<close> by (auto simp: canon_path_def path_spelling_def Let_def)
qed

lemma canon_params_symbol:
  "canon_params d seen raw = Inr ps \<Longrightarrow> (n, VSym s) \<in> set ps \<Longrightarrow> \<exists>m. (m, VSym s) \<in> set raw"
proof (induction raw arbitrary: seen ps)
  case (Cons p raw)
  obtain m v where p: "p = (m, v)" by fastforce
  from Cons.prems p obtain u qs where u: "u = v \<or> canon_value (normalize_name m) v d = Inr u"
      "canon_params d (insert (normalize_name m) seen) raw = Inr qs" "ps = (normalize_name m, u) # qs"
    by (auto simp: Let_def result_simps split: if_splits)
  show ?case
  proof (cases "u = VSym s")
    case True
    have "v = VSym s"
    proof (cases "u = v")
      case False
      with u have c: "canon_value (normalize_name m) v d = Inr u" by simp
      then obtain row where "order_of (normalize_name m) d = Inr row"
        by (auto simp: canon_value_def result_simps)
      then show ?thesis using canon_value_canonical(3) [OF c] True by (simp add: is_symbol_def)
    qed (use True in simp)
    then show ?thesis using p by auto
  next
    case False
    then have "(n, VSym s) \<in> set qs" using Cons.prems u by auto
    then show ?thesis using Cons.IH [OF u(2)] by auto
  qed
qed simp

text \<open>Substitution at a spawn site resolves exactly the \<open>config.\<close> symbols the bindings name.
  The token is unchanged, every symbol left in the result was there before and is either an
  argument of the enclosing declaration or a field the spawn does not bind, and a capability
  without symbols is returned as it is.\<close>

theorem substitute_symbols:
  assumes "substitute c bindings d = Inr c'"
  shows "cap_token c' = cap_token c \<and>
    (\<forall>n s. (n, VSym s) \<in> set (cap_params c') \<longrightarrow>
      (\<exists>m. (m, VSym s) \<in> set (cap_params c)) \<and> (is_arg s \<or> map_of bindings (symbol_field s) = None)) \<and>
    (list_all (\<lambda>(_, v). \<not> is_symbol v) (cap_params c) \<longrightarrow> c' = c)"
proof -
  let ?raw = "map (\<lambda>(n, v). (n, bind_value bindings v)) (cap_params c)"
  have *: "(\<exists>m. (m, VSym s) \<in> set (cap_params c)) \<and> (is_arg s \<or> map_of bindings (symbol_field s) = None)"
    if "(m, VSym s) \<in> set ?raw" for m s
    using that by (auto simp: bind_value_def split: cap_value.splits if_splits option.splits)
  consider (same) "list_all (\<lambda>(_, v). \<not> is_symbol v) (cap_params c)" "c' = c"
    | (made) ps where "canon_params (if d = No_Decl then Admit_Unknown else d) {} ?raw = Inr ps"
        "c' = mk_cap (cap_token c) (sort_key fst ps)" "\<not> list_all (\<lambda>(_, v). \<not> is_symbol v) (cap_params c)"
    using assms by (fastforce simp: substitute_def make_cap_raw_Inr list_ex_iff list_all_iff split: if_splits)
  note cs = this
  have "(\<exists>m. (m, VSym s) \<in> set (cap_params c)) \<and> (is_arg s \<or> map_of bindings (symbol_field s) = None)"
    if ns: "(n, VSym s) \<in> set (cap_params c')" for n s
    using cs
  proof cases
    case same
    with ns show ?thesis by (fastforce simp: list_all_iff is_symbol_def)
  next
    case (made ps)
    then have "(n, VSym s) \<in> set ps" using ns by simp
    with made(1) obtain m where "(m, VSym s) \<in> set ?raw" using canon_params_symbol by blast
    then show ?thesis by (rule *)
  qed
  moreover have "cap_token c' = cap_token c" using cs by cases auto
  moreover have "list_all (\<lambda>(_, v). \<not> is_symbol v) (cap_params c) \<longrightarrow> c' = c" using cs by cases auto
  ultimately show ?thesis by blast
qed

theorem substitute_symbols_witness:
  "\<exists>c'. substitute (mk_cap ''fs.write'' [(''path'', VSym (Symbol ''config.root''))]) [(''root'', ''/tmp'')] No_Decl = Inr c'
     \<and> cap_token c' = ''fs.write'' \<and> cap_params c' = [(''path'', VPath [''tmp''])]"
proof -
  let ?c = "mk_cap ''fs.write'' [(''path'', VSym (Symbol ''config.root''))]"
  let ?d = "mk_cap ''fs.write'' [(''path'', VPath [''tmp''])]"
  have "substitute ?c [(''root'', ''/tmp'')] No_Decl = Inr ?d" by code_simp
  from substitute_symbols [OF this] this show ?thesis by auto
qed

text \<open>The ceiling split of a constructed capability loses nothing and widens only as erasing
  ceilings must: the resource projection holds no integer, it covers the capability it came
  from, and the bindings of the capability are those of the projection together with those of
  the ceiling map.\<close>

theorem split_ceilings_sound:
  assumes "make_cap t raw d = Inr c" "d \<noteq> Admit_Unknown"
  shows "covers (fst (split_ceilings c)) c
    \<and> (\<forall>(n, v) \<in> set (cap_params (fst (split_ceilings c))). \<not> is_int_value v)
    \<and> (\<forall>n v. param_map c n = Some v \<longleftrightarrow>
      (case map_of (snd (split_ceilings c)) n of Some i \<Rightarrow> v = VInt i
        | None \<Rightarrow> param_map (fst (split_ceilings c)) n = Some v))"
proof -
  have wf: "cap_wf c" using assms make_cap_wf unfolding make_cap_def by blast
  let ?p = "fst (split_ceilings c)"
  have "cap_wf ?p"
    using wf unfolding cap_wf_def split_ceilings_def
    by (auto intro: sorted_wrt_filter simp: filter_map [symmetric] sorted_wrt_map)
  note pwf = this
  have set_p: "set (cap_params ?p) = {(n, v). (n, v) \<in> set (cap_params c) \<and> \<not> is_int_value v}"
    by (auto simp: split_ceilings_def)
  have ints: "\<forall>(n, v) \<in> set (cap_params ?p). \<not> is_int_value v" using set_p by auto
  have cov: "covers ?p c"
  proof (cases "cap_token c = ''*''")
    case True
    then show ?thesis by (simp add: split_ceilings_def)
  next
    case False
    then show ?thesis
      using set_p by (subst covers_iff [OF _ wf]) (auto simp: split_ceilings_def intro: param_leq_refl)
  qed
  have ceil: "map_of (snd (split_ceilings c)) n = Some i \<longleftrightarrow> (n, VInt i) \<in> set (cap_params c)" for n i
  proof -
    let ?q = "map (\<lambda>(n, v). (n, the_int v)) (filter (\<lambda>(_, v). is_int_value v) (cap_params c))"
    have "distinct (map fst (rev ?q))"
      using wf_distinct [OF wf] by (simp add: distinct_map_filter comp_def case_prod_unfold rev_map [symmetric])
    then have "map_of (snd (split_ceilings c)) n = Some i \<longleftrightarrow> (n, i) \<in> set ?q"
      unfolding split_ceilings_def snd_conv map_of_dict_of by (subst map_of_eq_Some_iff) auto
    also have "\<dots> \<longleftrightarrow> (n, VInt i) \<in> set (cap_params c)"
      by (force simp: is_int_value_def split: cap_value.splits)
    finally show ?thesis .
  qed
  have "param_map c n = Some v \<longleftrightarrow> (case map_of (snd (split_ceilings c)) n of Some i \<Rightarrow> v = VInt i
        | None \<Rightarrow> param_map ?p n = Some v)" for n v
  proof (cases "map_of (snd (split_ceilings c)) n")
    case None
    have "\<not> is_int_value v" if "(n, v) \<in> set (cap_params c)"
      using ceil [of n] None that by (cases v) (auto simp: is_int_value_def)
    then show ?thesis using None set_p by (auto simp: param_map_wf wf pwf)
  next
    case (Some i)
    then have "param_map c n = Some (VInt i)" using ceil by (simp add: param_map_wf wf)
    then show ?thesis using Some by auto
  qed
  with ints cov show ?thesis by blast
qed

theorem split_ceilings_sound_witness:
  "covers (fst (split_ceilings ex_cap)) ex_cap \<and> map_of (snd (split_ceilings ex_cap)) ''sends'' = Some 5"
proof -
  have d: "ex_decl \<noteq> Admit_Unknown" by (simp add: ex_decl_def)
  have "map_of (snd (split_ceilings ex_cap)) ''sends'' = Some 5" by code_simp
  with split_ceilings_sound [OF ex_cap_made d] show ?thesis by simp
qed

end
