(* ===== verification/Peer_Authority.thy ===== *)
theory Peer_Authority
  imports Cap_Properties
begin

section \<open>Authority monotonicity along a delegation chain (\<open>src/revl/peer_authority.py\<close>)\<close>

text \<open>
  A chain of holders, the delegating composition first.  Each hop must be covered by the one
  before it, capability by capability (\<open>covers_set\<close>) and budget by budget.  The checker raises
  one of the exceptions below at the first offending hop.
\<close>

record grant =
  holder :: string
  grant_caps :: "string list"
  budgets :: "(string, int) pydict"

abbreviation mk_grant :: "string \<Rightarrow> string list \<Rightarrow> (string, int) pydict \<Rightarrow> grant" where
  "mk_grant h cs bs \<equiv> \<lparr>holder = h, grant_caps = cs, budgets = bs\<rparr>"

datatype authority_error =
    Authority_Widening nat string string "string list" "(string \<times> int option \<times> int) list"
  | Unparseable_Cap cap_error
  | Negative_Budget string int

definition parsed_caps :: "grant \<Rightarrow> authority_error + cap list" where
  "parsed_caps g = res_map (\<lambda>t. case parse_cap t No_Decl of
       Inl e \<Rightarrow> Inl (Unparseable_Cap e) | Inr c \<Rightarrow> Inr c) (grant_caps g)"

fun budget_widenings_from :: "(string, int) pydict \<Rightarrow> (string \<times> int) list
    \<Rightarrow> authority_error + (string \<times> int option \<times> int) list" where
  "budget_widenings_from delegator [] = Inr []"
| "budget_widenings_from delegator ((key, granted) # rest) =
     (if granted < 0 then Inl (Negative_Budget key granted)
      else res_bind (budget_widenings_from delegator rest) (\<lambda>out.
        if granted = 0 then Inr out
        else case map_of delegator key of
            None \<Rightarrow> Inr ((key, None, granted) # out)
          | Some h \<Rightarrow> if granted > h then Inr ((key, Some h, granted) # out) else Inr out))"

text \<open>The delegate's entries are visited in key order.\<close>

definition budget_widenings :: "(string, int) pydict \<Rightarrow> (string, int) pydict
    \<Rightarrow> authority_error + (string \<times> int option \<times> int) list" where
  "budget_widenings delegator delegate = budget_widenings_from delegator (sort_key fst delegate)"

definition grant_widenings :: "grant \<Rightarrow> grant
    \<Rightarrow> authority_error + (string list \<times> (string \<times> int option \<times> int) list)" where
  "grant_widenings delegator delegate =
     res_bind (parsed_caps delegator) (\<lambda>held.
       res_bind (parsed_caps delegate) (\<lambda>reach.
         res_bind (budget_widenings (budgets delegator) (budgets delegate)) (\<lambda>bs.
           Inr (sort (map to_str (covers_set held reach)), bs))))"

definition check_hop :: "nat \<Rightarrow> grant \<Rightarrow> grant \<Rightarrow> authority_error + unit" where
  "check_hop index delegator delegate =
     res_bind (grant_widenings delegator delegate) (\<lambda>(cs, bs).
       if cs \<noteq> [] \<or> bs \<noteq> []
       then Inl (Authority_Widening index (holder delegate) (holder delegator) cs bs)
       else Inr ())"

text \<open>The loop over the hops \<open>i - 1 \<rightarrow> i\<close>, from hop \<open>i\<close> on\<close>

fun check_hops_from :: "nat \<Rightarrow> grant list \<Rightarrow> authority_error + unit" where
  "check_hops_from i (g # h # rest) =
     res_bind (check_hop i g h) (\<lambda>_. check_hops_from (Suc i) (h # rest))"
| "check_hops_from i _ = Inr ()"

definition check_delegation_chain :: "grant list \<Rightarrow> authority_error + unit" where
  "check_delegation_chain chain = check_hops_from 1 chain"

definition chain_is_monotone :: "grant list \<Rightarrow> authority_error + bool" where
  "chain_is_monotone chain = (case check_delegation_chain chain of
       Inr _ \<Rightarrow> Inr True
     | Inl (Authority_Widening _ _ _ _ _) \<Rightarrow> Inr False
     | Inl e \<Rightarrow> Inl e)"


subsection \<open>One hop\<close>

lemma parsed_caps_wf: "parsed_caps g = Inr cs \<Longrightarrow> \<forall>c \<in> set cs. cap_wf c"
proof -
  assume "parsed_caps g = Inr cs"
  then have "list_all2 (\<lambda>t c. parse_cap t No_Decl = Inr c) (grant_caps g) cs"
    unfolding parsed_caps_def res_map_Inr by (rule list_all2_mono) (simp split: sum.splits)
  moreover have "cap_wf c" if "parse_cap t No_Decl = Inr c" for t c
    using that make_cap_wf
    by (fastforce simp: parse_cap_def result_simps Let_def split: option.splits if_splits)
  ultimately show ?thesis by (auto simp: list_all2_conv_all_nth in_set_conv_nth) metis
qed

definition budget_within :: "(string, int) pydict \<Rightarrow> (string, int) pydict \<Rightarrow> bool" where
  "budget_within held granted \<longleftrightarrow> (\<forall>(k, n) \<in> set granted. 0 \<le> n
     \<and> (0 < n \<longrightarrow> (\<exists>h. map_of held k = Some h \<and> n \<le> h)))"

lemma budget_widenings_from_Nil:
  "budget_widenings_from held bs = Inr [] \<longleftrightarrow> budget_within held bs"
  by (induction held bs rule: budget_widenings_from.induct)
    (auto simp: budget_within_def result_simps split: option.splits if_splits)

lemma budget_widenings_Nil: "budget_widenings held bs = Inr [] \<longleftrightarrow> budget_within held bs"
  by (simp add: budget_widenings_def budget_widenings_from_Nil budget_within_def)

lemma check_hop_ok:
  "check_hop i g h = Inr () \<longleftrightarrow>
     (\<exists>held reach. parsed_caps g = Inr held \<and> parsed_caps h = Inr reach
        \<and> cap.within held reach \<and> budget_within (budgets g) (budgets h))"
proof -
  have "check_hop i g h = Inr () \<longleftrightarrow> (\<exists>held reach. parsed_caps g = Inr held \<and> parsed_caps h = Inr reach
      \<and> covers_set held reach = [] \<and> budget_widenings (budgets g) (budgets h) = Inr [])"
    by (auto simp: check_hop_def grant_widenings_def result_simps sort_Nil_iff split: if_splits)
  then show ?thesis by (simp add: covers_set_Nil budget_widenings_Nil)
qed


lemma grant_widenings_no_widening: "grant_widenings g h \<noteq> Inl (Authority_Widening i a b cs bs)"
proof -
  have "res_map f xs = Inl e \<Longrightarrow> \<exists>x. f x = Inl e" for f :: "string \<Rightarrow> authority_error + cap" and xs e
    by (induction xs) (auto simp: result_simps)
  then have "parsed_caps x \<noteq> Inl (Authority_Widening i a b cs bs)" for x
    unfolding parsed_caps_def by (fastforce split: sum.splits)
  moreover have "budget_widenings_from m ps \<noteq> Inl (Authority_Widening i a b cs bs)" for m ps
    by (induction m ps rule: budget_widenings_from.induct)
      (auto simp: result_simps split: option.splits if_splits)
  ultimately show ?thesis by (auto simp: grant_widenings_def budget_widenings_def result_simps)
qed


subsection \<open>The whole chain\<close>

definition caps_of :: "grant \<Rightarrow> cap list" where
  "caps_of g = (case parsed_caps g of Inl _ \<Rightarrow> [] | Inr cs \<Rightarrow> cs)"

lemma caps_of_wf: "\<forall>c \<in> set (caps_of g). cap_wf c"
  using parsed_caps_wf [of g] by (cases "parsed_caps g") (auto simp: caps_of_def)

lemma check_hops_chained:
  "check_hops_from i chain = Inr () \<Longrightarrow> cap.chained (map caps_of chain)"
  by (induction i chain rule: check_hops_from.induct)
    (auto simp: result_simps check_hop_ok caps_of_def)

lemma check_hops_parsed:
  "check_hops_from i (g # h # rest) = Inr () \<Longrightarrow> \<forall>x \<in> set (g # h # rest). \<exists>cs. parsed_caps x = Inr cs"
proof (induction rest arbitrary: i g h)
  case Nil
  then show ?case by (auto simp: result_simps check_hop_ok)
next
  case (Cons k rest)
  then have "check_hop i g h = Inr ()" "check_hops_from (Suc i) (h # k # rest) = Inr ()"
    by (auto simp: result_simps)
  with Cons.IH [of "Suc i" h k] show ?case by (auto simp: check_hop_ok)
qed

lemma check_hops_budgets:
  assumes "check_hops_from i (g # rest) = Inr ()" "h \<in> set rest" "(k, n) \<in> set (budgets h)" "0 < n"
    and "\<forall>x \<in> set rest. dict_ok (budgets x)"
  shows "\<exists>m. map_of (budgets g) k = Some m \<and> n \<le> m"
  using assms
proof (induction rest arbitrary: i g)
  case (Cons g' rest)
  then have hop: "budget_within (budgets g) (budgets g')" and "check_hops_from (Suc i) (g' # rest) = Inr ()"
    by (auto simp: result_simps check_hop_ok)
  show ?case
  proof (cases "h = g'")
    case True
    then show ?thesis using hop Cons.prems by (fastforce simp: budget_within_def)
  next
    case False
    then obtain m where m: "map_of (budgets g') k = Some m" "n \<le> m"
      using Cons.IH [OF \<open>check_hops_from (Suc i) (g' # rest) = Inr ()\<close>] Cons.prems by auto
    then have "(k, m) \<in> set (budgets g')" by (simp add: map_of_SomeD)
    with hop m Cons.prems(4) show ?thesis by (fastforce simp: budget_within_def)
  qed
qed simp

text \<open>C2: Authority only narrows.  When the chain check passes, every holder of the chain is
  bounded by the chain's root directly: each capability of each grant parses and is covered by
  some capability of the root, and each positive budget of a delegated grant is held by the
  root in at least that amount.  No length of chain, and no retry hop in it, adds authority.\<close>

theorem delegation_bounded_by_root:
  assumes "check_delegation_chain (root # rest) = Inr ()" "rest \<noteq> []"
    and "\<forall>g \<in> set rest. dict_ok (budgets g)" "g \<in> set rest"
  shows "(\<exists>held reach. parsed_caps root = Inr held \<and> parsed_caps g = Inr reach \<and> covers_set held reach = [])
    \<and> (\<forall>(k, n) \<in> set (budgets g). 0 < n \<longrightarrow> (\<exists>m. map_of (budgets root) k = Some m \<and> n \<le> m))"
proof
  have ok: "check_hops_from 1 (root # rest) = Inr ()" using assms(1) by (simp add: check_delegation_chain_def)
  have "cap.within (caps_of root) (caps_of g)"
    using check_hops_chained [OF ok] assms(4) caps_of_wf
    by (intro cap.chained_within_root [of _ "map caps_of rest"]) auto
  moreover obtain h rest' where "rest = h # rest'" using assms(2) by (cases rest) auto
  then obtain held reach where "parsed_caps root = Inr held" "parsed_caps g = Inr reach"
    using check_hops_parsed ok assms(4) by (metis list.set_intros(1,2))
  ultimately show "\<exists>held reach. parsed_caps root = Inr held \<and> parsed_caps g = Inr reach
      \<and> covers_set held reach = []"
    by (auto simp: caps_of_def covers_set_Nil)
  show "\<forall>(k, n) \<in> set (budgets g). 0 < n \<longrightarrow> (\<exists>m. map_of (budgets root) k = Some m \<and> n \<le> m)"
    using check_hops_budgets [OF ok assms(4)] assms(3) by fast
qed


definition ex_chain :: "grant list" where
  "ex_chain =
     [mk_grant ''root'' [''net.fetch'', ''fs.read''] [(''retries'', 3), (''money'', 10)],
      mk_grant ''a'' [''fs.read(calls=7)'', ''net.fetch''] [(''retries'', 2)],
      mk_grant ''b'' [''fs.read(calls=5)''] [(''retries'', 1)]]"

lemma ex_chain_ok: "check_delegation_chain ex_chain = Inr ()"
  by code_simp

theorem delegation_bounded_by_root_witness:
  "\<exists>held reach. parsed_caps (ex_chain ! 0) = Inr held \<and> parsed_caps (ex_chain ! 2) = Inr reach
    \<and> covers_set held reach = []"
  using delegation_bounded_by_root [OF ex_chain_ok [unfolded ex_chain_def], of "ex_chain ! 2"]
  by (simp add: ex_chain_def dict_ok_def)

text \<open>C3: The refusal names the first widening hop.  When the chain check raises
  \<open>AuthorityWidening\<close> at index \<open>i\<close>, hop \<open>i\<close> exists, the chain up to its delegator passes, and
  the reported capabilities and budgets are exactly what \<open>grant_widenings\<close> finds on that hop,
  with at least one of them non-empty.\<close>

theorem delegation_refusal_names_first_hop:
  assumes "check_delegation_chain chain = Inl (Authority_Widening i to from cs bs)"
  shows "1 \<le> i \<and> i < length chain \<and> check_delegation_chain (take i chain) = Inr ()
    \<and> grant_widenings (chain ! (i - 1)) (chain ! i) = Inr (cs, bs) \<and> (cs \<noteq> [] \<or> bs \<noteq> [])
    \<and> from = holder (chain ! (i - 1)) \<and> to = holder (chain ! i)"
proof -
  have gen: "j \<le> i \<and> i - j + 1 < length ch \<and> check_hops_from j (take (i - j + 1) ch) = Inr ()
      \<and> grant_widenings (ch ! (i - j)) (ch ! (i - j + 1)) = Inr (cs, bs) \<and> (cs \<noteq> [] \<or> bs \<noteq> [])
      \<and> from = holder (ch ! (i - j)) \<and> to = holder (ch ! (i - j + 1))"
    if "check_hops_from j ch = Inl (Authority_Widening i to from cs bs)" for j ch
    using that
  proof (induction j ch rule: check_hops_from.induct)
    case (1 j g h rest)
    show ?case
    proof (cases "check_hop j g h")
      case (Inl e)
      with 1 have e: "check_hop j g h = Inl (Authority_Widening i to from cs bs)" by simp
      have "grant_widenings g h = Inr (cs, bs) \<and> (cs \<noteq> [] \<or> bs \<noteq> []) \<and> i = j \<and> from = holder g \<and> to = holder h"
        using e grant_widenings_no_widening [of g h]
        by (auto simp: check_hop_def result_simps split: if_splits)
      then show ?thesis by simp
    next
      case (Inr u)
      with 1 have IH: "Suc j \<le> i \<and> i - Suc j + 1 < length (h # rest)
          \<and> check_hops_from (Suc j) (take (i - Suc j + 1) (h # rest)) = Inr ()
          \<and> grant_widenings ((h # rest) ! (i - Suc j)) ((h # rest) ! (i - Suc j + 1)) = Inr (cs, bs)
          \<and> (cs \<noteq> [] \<or> bs \<noteq> []) \<and> from = holder ((h # rest) ! (i - Suc j))
          \<and> to = holder ((h # rest) ! (i - Suc j + 1))"
        by simp
      then obtain n where n: "i = Suc (j + n)" by (metis Suc_le_eq less_iff_Suc_add)
      with IH Inr show ?thesis by (simp add: result_simps)
    qed
  qed simp_all
  from gen [of 1 chain] assms have "1 \<le> i" by (simp add: check_delegation_chain_def)
  with gen [of 1 chain] assms show ?thesis by (simp add: check_delegation_chain_def)
qed

theorem delegation_refusal_names_first_hop_witness:
  "grant_widenings (mk_grant ''a'' [''fs.read(calls=7)''] []) (mk_grant ''b'' [''fs.read''] [(''money'', 1)])
     = Inr ([''fs.read''], [(''money'', None, 1)])"
proof -
  let ?chain = "[mk_grant ''root'' [''fs.read''] [], mk_grant ''a'' [''fs.read(calls=7)''] [],
      mk_grant ''b'' [''fs.read''] [(''money'', 1)]]"
  have "check_delegation_chain ?chain = Inl (Authority_Widening 2 ''b'' ''a'' [''fs.read''] [(''money'', None, 1)])"
    by code_simp
  from delegation_refusal_names_first_hop [OF this] show ?thesis by simp
qed

end
