(* ===== verification/Json_Value.thy ===== *)
theory Json_Value
  imports Complex_Main Revl_Prelude
begin

section \<open>JSON documents and floating-point values\<close>

text \<open>
  The documents revl reads off the wire or off disk, as Python's \<^verbatim>\<open>json\<close> returns them.  A
  float is an exact rational, an infinity or NaN: rounding is not modelled, but the two
  infinities and NaN are, because Python's reader accepts them and comparisons with NaN
  are false.
\<close>

datatype pyfloat = Fin rat | Pos_Inf | Neg_Inf | NaN

fun fl_less :: "pyfloat \<Rightarrow> pyfloat \<Rightarrow> bool" where
  "fl_less (Fin a) (Fin b) = (a < b)"
| "fl_less (Fin _) Pos_Inf = True"
| "fl_less Neg_Inf (Fin _) = True"
| "fl_less Neg_Inf Pos_Inf = True"
| "fl_less _ _ = False"

fun fl_le :: "pyfloat \<Rightarrow> pyfloat \<Rightarrow> bool" where
  "fl_le (Fin a) (Fin b) = (a \<le> b)"
| "fl_le (Fin _) Pos_Inf = True"
| "fl_le Neg_Inf (Fin _) = True"
| "fl_le Neg_Inf Pos_Inf = True"
| "fl_le Pos_Inf Pos_Inf = True"
| "fl_le Neg_Inf Neg_Inf = True"
| "fl_le _ _ = False"

text \<open>\<^verbatim>\<open>float(n)\<close> of an integer raises \<^verbatim>\<open>OverflowError\<close> when it rounds past the largest double.\<close>

definition int_overflows :: "int \<Rightarrow> bool" where
  "int_overflows n \<longleftrightarrow> 2 ^ 1024 - 2 ^ 970 \<le> \<bar>n\<bar>"

datatype json =
    JNull
  | JBool bool
  | JInt int
  | JFloat pyfloat
  | JStr string
  | JArr "json list"
  | JObj "(string \<times> json) list"

text \<open>\<^verbatim>\<open>obj.get(member)\<close>: a missing member reads as \<^verbatim>\<open>None\<close>\<close>

definition member :: "(string \<times> json) list \<Rightarrow> string \<Rightarrow> json" where
  "member obj k = dict_get obj k JNull"

text \<open>Python's truth value of a document\<close>

fun truthy :: "json \<Rightarrow> bool" where
  "truthy JNull = False"
| "truthy (JBool b) = b"
| "truthy (JInt n) = (n \<noteq> 0)"
| "truthy (JFloat f) = (f \<noteq> Fin 0)"
| "truthy (JStr s) = (s \<noteq> [])"
| "truthy (JArr xs) = (xs \<noteq> [])"
| "truthy (JObj kvs) = (kvs \<noteq> [])"

text \<open>
  A document as a set member or a dictionary key: \<^verbatim>\<open>True\<close>, \<^verbatim>\<open>1\<close> and \<^verbatim>\<open>1.0\<close> are one key,
  and a list or an object is unhashable.
\<close>

datatype hkey = H_Null | H_Num rat | H_Odd pyfloat | H_Str string

fun hash_key :: "json \<Rightarrow> hkey option" where
  "hash_key JNull = Some H_Null"
| "hash_key (JBool b) = Some (H_Num (if b then 1 else 0))"
| "hash_key (JInt n) = Some (H_Num (of_int n))"
| "hash_key (JFloat (Fin q)) = Some (H_Num q)"
| "hash_key (JFloat f) = Some (H_Odd f)"
| "hash_key (JStr s) = Some (H_Str s)"
| "hash_key (JArr _) = None"
| "hash_key (JObj _) = None"


subsection \<open>Reading members of the expected shape\<close>

text \<open>A reader is \<^term>\<open>None\<close> where the member is not of the shape the writer produces.\<close>

definition obj_of :: "json \<Rightarrow> (string \<times> json) list option" where
  "obj_of j = (case j of JObj kvs \<Rightarrow> Some kvs | _ \<Rightarrow> None)"

text \<open>\<^verbatim>\<open>x or {}\<close> and \<^verbatim>\<open>x or []\<close>\<close>

definition obj_or_empty :: "json \<Rightarrow> (string \<times> json) list option" where
  "obj_or_empty j = (if truthy j then obj_of j else Some [])"

definition list_or_empty :: "json \<Rightarrow> json list option" where
  "list_or_empty j = (if truthy j then (case j of JArr xs \<Rightarrow> Some xs | _ \<Rightarrow> None) else Some [])"

definition str_or_null :: "json \<Rightarrow> string option option" where
  "str_or_null j = (case j of JNull \<Rightarrow> Some None | JStr s \<Rightarrow> Some (Some s) | _ \<Rightarrow> None)"

definition strings_or_null :: "json \<Rightarrow> string list option option" where
  "strings_or_null j = (case j of JNull \<Rightarrow> Some None
     | JArr xs \<Rightarrow> map_option Some (those (map (\<lambda>x. case x of JStr s \<Rightarrow> Some s | _ \<Rightarrow> None) xs))
     | _ \<Rightarrow> None)"

lemma those_map_Some: "(\<And>x. x \<in> set xs \<Longrightarrow> f x = Some (g x)) \<Longrightarrow> those (map f xs) = Some (map g xs)"
  by (induction xs) auto

end
