(* ===== verification/Peer_Offer.thy ===== *)
theory Peer_Offer
  imports Peer_Authority Json_Value
begin

section \<open>Signed peer offers and their eligibility (\<open>src/revl/peer_offer.py\<close>)\<close>

text \<open>
  A peer advertises its trust level, its facets and a grant ceiling in a signed record.  The
  record is a JSON document, hostile until verified.  The MAC over the canonical bytes is a
  parameter \<open>mac\<close>: it maps a document and a key to the hexadecimal signature, or to \<open>None\<close>
  where the document has no canonical spelling.  An exception that escapes a Python function
  is a value of \<open>offer_exn\<close>; a refusal is a reason.
\<close>

datatype offer_exn = Unknown_Trust string | Type_Error | Value_Error | Overflow_Error

datatype envelope_refusal =
    Bad_Kind | Bad_Version | Bad_Sign_Alg | Bad_Peer_Id | Bad_Attestation | Bad_Trust
  | Bad_Facet string | Bad_Resource_Offer | Bad_Resource string | Bad_Ceiling
  | Unparseable_Ceiling cap_error | Bad_Tee_Proof | Bad_Key_Id

datatype offer_refusal =
    No_Key | Not_An_Object | No_Signature | Not_Canonical | Signature_Mismatch
  | Envelope envelope_refusal
  | Tee_Not_Provable
  | Trust_Below_Floor | Region_Not_Allowed | Hardware_Not_Allowed | Resources_Too_Small
  | Unparseable_Capability cap_error
  | Ceiling_Exceeded "cap list"

definition trust_order :: "(string, nat) pydict" where
  "trust_order = [(''verified'', 0), (''attested'', 1), (''local'', 2)]"

definition trust_aliases :: "(string, string) pydict" where
  "trust_aliases = [(''trusted'', ''local'')]"

definition trust_rank :: "string \<Rightarrow> offer_exn + nat" where
  "trust_rank level = (case map_of trust_order (dict_get trust_aliases level level) of
       None \<Rightarrow> Inl (Unknown_Trust level) | Some r \<Rightarrow> Inr r)"

record resources =
  cores :: int
  memory_bytes :: int
  max_time_s :: pyfloat

definition satisfies :: "resources \<Rightarrow> resources \<Rightarrow> bool" where
  "satisfies offer need \<longleftrightarrow> cores offer \<ge> cores need \<and> memory_bytes offer \<ge> memory_bytes need
     \<and> fl_le (max_time_s need) (max_time_s offer)"


subsection \<open>The envelope\<close>

definition sign_algs :: "string list" where
  "sign_algs = [''hmac-sha256'', ''ecdsa-p256-sha256'']"

text \<open>
  Membership of \<^verbatim>\<open>attestation.trust\<close> in the trust table: a list or an object is unhashable, so
  the test itself raises \<^verbatim>\<open>TypeError\<close>.
\<close>

definition trust_known :: "json \<Rightarrow> offer_exn + bool" where
  "trust_known trust = (case trust of
       JStr s \<Rightarrow> Inr (map_of trust_order (dict_get trust_aliases s s) \<noteq> None)
     | JArr _ \<Rightarrow> Inl Type_Error
     | JObj _ \<Rightarrow> Inl Type_Error
     | _ \<Rightarrow> Inr False)"

definition nonneg_number :: "json \<Rightarrow> bool" where
  "nonneg_number v = (case v of
       JInt n \<Rightarrow> \<not> n < 0 | JFloat f \<Rightarrow> \<not> fl_less f (Fin 0) | _ \<Rightarrow> False)"

fun json_strings :: "json list \<Rightarrow> string list option" where
  "json_strings [] = Some []"
| "json_strings (JStr s # rest) = map_option ((#) s) (json_strings rest)"
| "json_strings _ = None"

definition is_hex16 :: "string \<Rightarrow> bool" where
  "is_hex16 s \<longleftrightarrow> length s = 16 \<and>
     list_all (\<lambda>c. is_digit c \<or> (97 \<le> (of_char c :: nat) \<and> (of_char c :: nat) \<le> 102)) s"

definition validate_key_id :: "(string \<times> json) list \<Rightarrow> envelope_refusal option" where
  "validate_key_id record = (case member record ''key_id'' of
       JStr kid \<Rightarrow> if is_hex16 kid then None else Some Bad_Key_Id
     | _ \<Rightarrow> Some Bad_Key_Id)"

definition validate_ceiling :: "(string \<times> json) list \<Rightarrow> envelope_refusal option" where
  "validate_ceiling record = (case member record ''grant_ceiling'' of
       JArr xs \<Rightarrow> (case json_strings xs of
           None \<Rightarrow> Some Bad_Ceiling
         | Some ts \<Rightarrow> (case res_map (\<lambda>t. parse_cap t No_Decl) ts of
               Inl e \<Rightarrow> Some (Unparseable_Ceiling e)
             | Inr _ \<Rightarrow> (case member record ''tee_proof'' of
                   JNull \<Rightarrow> validate_key_id record
                 | JObj _ \<Rightarrow> validate_key_id record
                 | _ \<Rightarrow> Some Bad_Tee_Proof)))
     | _ \<Rightarrow> Some Bad_Ceiling)"

definition is_jstr :: "json \<Rightarrow> bool" where
  "is_jstr v \<longleftrightarrow> (case v of JStr _ \<Rightarrow> True | _ \<Rightarrow> False)"

definition validate_resources :: "(string \<times> json) list \<Rightarrow> (string \<times> json) list \<Rightarrow> envelope_refusal option" where
  "validate_resources record att = (case find (\<lambda>facet. \<not> is_jstr (member att facet)) [''region'', ''hardware''] of
       Some facet \<Rightarrow> Some (Bad_Facet facet)
     | None \<Rightarrow> (case member att ''resource_offer'' of
           JObj ro \<Rightarrow> (case find (\<lambda>facet. \<not> nonneg_number (member ro facet))
                 [''cores'', ''memory_bytes'', ''max_time_s''] of
               Some facet \<Rightarrow> Some (Bad_Resource facet)
             | None \<Rightarrow> validate_ceiling record)
         | _ \<Rightarrow> Some Bad_Resource_Offer))"

definition validate_envelope :: "(string \<times> json) list \<Rightarrow> offer_exn + envelope_refusal option" where
  "validate_envelope record =
     (if member record ''kind'' \<noteq> JStr ''revl.peer-offer'' then Inr (Some Bad_Kind)
      else if member record ''version'' \<noteq> JStr ''1.0'' then Inr (Some Bad_Version)
      else if member record ''sign_alg'' \<notin> set (map JStr sign_algs) then Inr (Some Bad_Sign_Alg)
      else if \<not> is_jstr (member record ''peer_id'') \<or> member record ''peer_id'' = JStr []
      then Inr (Some Bad_Peer_Id)
      else case member record ''attestation'' of
          JObj att \<Rightarrow> res_bind (trust_known (member att ''trust'')) (\<lambda>known.
            if \<not> known then Inr (Some Bad_Trust) else Inr (validate_resources record att))
        | _ \<Rightarrow> Inr (Some Bad_Attestation))"


subsection \<open>Verification and the eligibility gates\<close>

type_synonym mac = "(string \<times> json) list \<Rightarrow> string \<Rightarrow> string option"

text \<open>The comparison of two strings in constant time raises \<^verbatim>\<open>TypeError\<close> where one is not ASCII; a digest is.\<close>

definition ascii_text :: "string \<Rightarrow> bool" where
  "ascii_text s \<longleftrightarrow> list_all (\<lambda>c. (of_char c :: nat) < 128) s"

definition verify_offer :: "mac \<Rightarrow> json \<Rightarrow> string \<Rightarrow> offer_exn + offer_refusal option" where
  "verify_offer mac doc key =
     (if key = [] then Inr (Some No_Key)
      else case doc of
          JObj record \<Rightarrow> (case member record ''signature'' of
              JStr given \<Rightarrow> (case mac (filter (\<lambda>(k, _). k \<noteq> ''signature'') record) key of
                  None \<Rightarrow> Inr (Some Not_Canonical)
                | Some expected \<Rightarrow>
                    if \<not> ascii_text given then Inl Type_Error
                    else if expected \<noteq> given then Inr (Some Signature_Mismatch)
                    else res_bind (validate_envelope record) (\<lambda>r. Inr (map_option Envelope r)))
            | _ \<Rightarrow> Inr (Some No_Signature))
        | _ \<Rightarrow> Inr (Some Not_An_Object))"

record placement_slot =
  trust_floor :: string
  regions :: "string list option"
  hardware :: "string list option"
  need :: resources
  slot_grant :: "string list"
  slot_budgets :: "(string, int) pydict"
  attested_tee :: bool

definition default_slot :: placement_slot where
  "default_slot = \<lparr>trust_floor = ''verified'', regions = None, hardware = None,
     need = \<lparr>cores = 0, memory_bytes = 0, max_time_s = Fin 0\<rparr>,
     slot_grant = [], slot_budgets = [], attested_tee = False\<rparr>"

text \<open>\<^verbatim>\<open>int(x)\<close> and \<^verbatim>\<open>float(x)\<close> of a JSON number\<close>

definition py_to_int :: "json \<Rightarrow> offer_exn + int" where
  "py_to_int v = (case v of
       JInt n \<Rightarrow> Inr n
     | JFloat (Fin q) \<Rightarrow> Inr (if q < 0 then \<lceil>q\<rceil> else \<lfloor>q\<rfloor>)
     | JFloat NaN \<Rightarrow> Inl Value_Error
     | JFloat _ \<Rightarrow> Inl Overflow_Error
     | _ \<Rightarrow> Inl Type_Error)"

definition py_to_float :: "json \<Rightarrow> offer_exn + pyfloat" where
  "py_to_float v = (case v of
       JInt n \<Rightarrow> if int_overflows n then Inl Overflow_Error else Inr (Fin (of_int n)) | JFloat f \<Rightarrow> Inr f | _ \<Rightarrow> Inl Type_Error)"

definition str_member :: "(string \<times> json) list \<Rightarrow> string \<Rightarrow> string" where
  "str_member obj k = (case member obj k of JStr s \<Rightarrow> s | _ \<Rightarrow> [])"

definition obj_member :: "(string \<times> json) list \<Rightarrow> string \<Rightarrow> (string \<times> json) list" where
  "obj_member obj k = (case member obj k of JObj o' \<Rightarrow> o' | _ \<Rightarrow> [])"

definition ceiling_strings :: "(string \<times> json) list \<Rightarrow> string list" where
  "ceiling_strings record = (case member record ''grant_ceiling'' of
       JArr xs \<Rightarrow> (case json_strings xs of Some ts \<Rightarrow> ts | None \<Rightarrow> []) | _ \<Rightarrow> [])"

text \<open>Gate (c): the advertised ceiling covers the grant of the slot.\<close>

definition ceiling_gate :: "string list \<Rightarrow> string list \<Rightarrow> offer_refusal option" where
  "ceiling_gate advertised wanted_caps = (case res_map (\<lambda>t. parse_cap t No_Decl) advertised of
       Inl e \<Rightarrow> Some (Unparseable_Capability e)
     | Inr held \<Rightarrow> (case res_map (\<lambda>t. parse_cap t No_Decl) wanted_caps of
           Inl e \<Rightarrow> Some (Unparseable_Capability e)
         | Inr wanted \<Rightarrow> (let uncovered = covers_set held wanted in
             if uncovered \<noteq> [] then Some (Ceiling_Exceeded uncovered) else None)))"

text \<open>Gate (b): the attested facets satisfy the slot, then gate (c).\<close>

definition facet_gates :: "(string \<times> json) list \<Rightarrow> placement_slot \<Rightarrow> offer_exn + offer_refusal option" where
  "facet_gates record slot =
     (let att = obj_member record ''attestation''; ro = obj_member att ''resource_offer'' in
      res_bind (trust_rank (str_member att ''trust'')) (\<lambda>rank.
      res_bind (trust_rank (trust_floor slot)) (\<lambda>floor.
        if rank < floor then Inr (Some Trust_Below_Floor)
        else if (case regions slot of None \<Rightarrow> False | Some rs \<Rightarrow> str_member att ''region'' \<notin> set rs)
        then Inr (Some Region_Not_Allowed)
        else if (case hardware slot of None \<Rightarrow> False | Some hs \<Rightarrow> str_member att ''hardware'' \<notin> set hs)
        then Inr (Some Hardware_Not_Allowed)
        else
          res_bind (py_to_int (member ro ''cores'')) (\<lambda>c.
          res_bind (py_to_int (member ro ''memory_bytes'')) (\<lambda>m.
          res_bind (py_to_float (member ro ''max_time_s'')) (\<lambda>t.
            if \<not> satisfies \<lparr>cores = c, memory_bytes = m, max_time_s = t\<rparr> (need slot)
            then Inr (Some Resources_Too_Small)
            else Inr (ceiling_gate (ceiling_strings record) (slot_grant slot))))))))"

text \<open>
  \<^verbatim>\<open>_offer_gates\<close> as the dispatcher reaches it, through \<^verbatim>\<open>offer_eligible(record, slot, key)\<close> with
  neither an attestation root nor a replay ledger: a slot that demands an attested enclave is
  then refused whatever proof the offer carries.  \<open>None\<close> is eligibility.
\<close>

definition offer_eligible :: "mac \<Rightarrow> json \<Rightarrow> placement_slot \<Rightarrow> string \<Rightarrow> offer_exn + offer_refusal option" where
  "offer_eligible mac doc slot key =
     res_bind (verify_offer mac doc key) (\<lambda>v. case v of
         Some r \<Rightarrow> Inr (Some r)
       | None \<Rightarrow> if attested_tee slot then Inr (Some Tee_Not_Provable)
           else (case doc of JObj record \<Rightarrow> facet_gates record slot | _ \<Rightarrow> Inr (Some Not_An_Object)))"

end
