(* ===== verification/Lawful_Retry.thy ===== *)
theory Lawful_Retry
  imports Peer_Offer
begin

section \<open>The lawful-retry dispatcher (\<open>src/revl/lawful_retry.py\<close>)\<close>

text \<open>
  What to do with the work of a lost peer, by effect class.  A replay spends one unit of the
  grant's retry budget, is offered only to a peer whose signed offer is eligible for the
  narrowed grant, and is checked as one more hop of the delegation chain.
\<close>

datatype effect_class = Pure | Idempotent_External | Witnessed | Deferred_Irreversible | Secret_Bearing

datatype disposition = Replay | Compensate | Durable_Handoff | Commit_Authority_Only | Refuse

record attempt =
  effect_class :: effect_class
  att_grant :: grant
  has_recorded_inverse :: bool
  base_slot :: "placement_slot option"

record decision =
  disposition :: disposition
  retry_grant :: "grant option"
  peer_id :: "string option"

datatype retry_exn = Offer_Exn offer_exn | Chain_Exn authority_error

definition plain_decision :: "disposition \<Rightarrow> decision" where
  "plain_decision d = \<lparr>disposition = d, retry_grant = None, peer_id = None\<rparr>"

definition classify_extern :: "(string \<times> json) list \<Rightarrow> effect_class" where
  "classify_extern facets =
     (if truthy (member facets ''secret'') then Secret_Bearing
      else if truthy (member facets ''deferred'') then Deferred_Irreversible
      else if truthy (member facets ''witnessed'') then Witnessed
      else if truthy (member facets ''idempotent'') \<or> truthy (member facets ''undo_idempotent'')
      then Idempotent_External
      else Pure)"

definition retry_budget :: "attempt \<Rightarrow> int" where
  "retry_budget a = dict_get (budgets (att_grant a)) ''retries'' 0"

definition make_retry_grant :: "attempt \<Rightarrow> string \<Rightarrow> grant" where
  "make_retry_grant a h = mk_grant h (grant_caps (att_grant a))
     (AList.update ''retries'' (max 0 (retry_budget a - 1)) (budgets (att_grant a)))"

definition slot_for_retry :: "attempt \<Rightarrow> grant \<Rightarrow> string \<Rightarrow> offer_exn + placement_slot" where
  "slot_for_retry a g min_trust =
     (let base = (case base_slot a of None \<Rightarrow> default_slot | Some s \<Rightarrow> s) in
      res_bind (trust_rank (trust_floor base)) (\<lambda>rb.
      res_bind (trust_rank min_trust) (\<lambda>rf.
        Inr (base\<lparr>trust_floor := (if rb > rf then trust_floor base else min_trust),
                  slot_grant := grant_caps g, slot_budgets := budgets g\<rparr>))))"

text \<open>\<^verbatim>\<open>str(peer_id)\<close> of the record's member; only strings reach the result, since an eligible
  offer has a string there\<close>

definition record_peer :: "json \<Rightarrow> string" where
  "record_peer doc = (case doc of JObj record \<Rightarrow> str_member record ''peer_id'' | _ \<Rightarrow> [])"

fun choose_from :: "mac \<Rightarrow> grant list \<Rightarrow> grant \<Rightarrow> placement_slot \<Rightarrow> string \<Rightarrow> json list
    \<Rightarrow> retry_exn + string option" where
  "choose_from mac chain g slot key [] = Inr None"
| "choose_from mac chain g slot key (doc # rest) =
     (case offer_eligible mac doc slot key of
        Inl e \<Rightarrow> Inl (Offer_Exn e)
      | Inr (Some _) \<Rightarrow> choose_from mac chain g slot key rest
      | Inr None \<Rightarrow>
          (case check_delegation_chain (chain @ [g\<lparr>holder := record_peer doc\<rparr>]) of
             Inl (Authority_Widening _ _ _ _ _) \<Rightarrow> choose_from mac chain g slot key rest
           | Inl e \<Rightarrow> Inl (Chain_Exn e)
           | Inr _ \<Rightarrow> Inr (Some (record_peer doc))))"

definition choose_peer :: "mac \<Rightarrow> grant list \<Rightarrow> attempt \<Rightarrow> grant \<Rightarrow> json list \<Rightarrow> string \<Rightarrow> string
    \<Rightarrow> retry_exn + string option" where
  "choose_peer mac chain a g candidates key min_trust =
     (case slot_for_retry a g min_trust of
        Inl e \<Rightarrow> Inl (Offer_Exn e)
      | Inr slot \<Rightarrow> choose_from mac chain g slot key candidates)"

definition trust_floor_of :: "effect_class \<Rightarrow> string" where
  "trust_floor_of ec = (if ec = Secret_Bearing then ''attested'' else ''verified'')"

definition dispatch_on_loss :: "mac \<Rightarrow> grant list \<Rightarrow> attempt \<Rightarrow> json list \<Rightarrow> string
    \<Rightarrow> retry_exn + decision" where
  "dispatch_on_loss mac chain a candidates key =
     (let ec = effect_class a in
      if ec = Witnessed then Inr (plain_decision Durable_Handoff)
      else if ec = Deferred_Irreversible then Inr (plain_decision Commit_Authority_Only)
      else if ec = Idempotent_External \<and> retry_budget a \<le> 0 then
        Inr (plain_decision (if has_recorded_inverse a then Compensate else Refuse))
      else if retry_budget a \<le> 0 then
        Inr (plain_decision (if has_recorded_inverse a then Compensate else Refuse))
      else
        (let g = make_retry_grant a ''<retry>'' in
         res_bind (choose_peer mac chain a g candidates key (trust_floor_of ec)) (\<lambda>p. case p of
             None \<Rightarrow> Inr (plain_decision Refuse)
           | Some pid \<Rightarrow> Inr \<lparr>disposition = Replay, retry_grant = Some (g\<lparr>holder := pid\<rparr>),
               peer_id = Some pid\<rparr>)))"


subsection \<open>What a replay guarantees\<close>

lemma choose_from_Some:
  "choose_from mac chain g slot key docs = Inr (Some pid) \<Longrightarrow>
     \<exists>doc \<in> set docs. offer_eligible mac doc slot key = Inr None \<and> pid = record_peer doc
       \<and> check_delegation_chain (chain @ [g\<lparr>holder := pid\<rparr>]) = Inr ()"
  by (induction mac chain g slot key docs rule: choose_from.induct)
    (auto split: sum.splits option.splits authority_error.splits)

lemma dispatch_replay:
  assumes "dispatch_on_loss mac chain a candidates key = Inr dec" "disposition dec = Replay"
  obtains pid slot where "effect_class a \<in> {Pure, Idempotent_External, Secret_Bearing}"
    "0 < retry_budget a" "peer_id dec = Some pid" "retry_grant dec = Some (make_retry_grant a pid)"
    "slot_for_retry a (make_retry_grant a ''<retry>'') (trust_floor_of (effect_class a)) = Inr slot"
    "choose_from mac chain (make_retry_grant a ''<retry>'') slot key candidates = Inr (Some pid)"
  using assms
  by (cases "effect_class a")
    (auto simp: dispatch_on_loss_def plain_decision_def Let_def result_simps choose_peer_def
      make_retry_grant_def split: if_splits option.splits sum.splits)

lemma eligible_facets:
  assumes "offer_eligible mac doc slot key = Inr None"
  obtains rec rank rf where "doc = JObj rec" "verify_offer mac doc key = Inr None"
    "trust_rank (str_member (obj_member rec ''attestation'') ''trust'') = Inr rank"
    "trust_rank (trust_floor slot) = Inr rf" "rf \<le> rank"
    "ceiling_gate (ceiling_strings rec) (slot_grant slot) = None" "\<not> attested_tee slot"
  using assms
  by (cases doc) (auto simp: offer_eligible_def facet_gates_def Let_def result_simps
      split: option.splits if_splits)

lemma ceiling_gate_None:
  assumes "ceiling_gate advertised wanted = None"
  obtains held reach where "res_map (\<lambda>t. parse_cap t No_Decl) advertised = Inr held"
    "res_map (\<lambda>t. parse_cap t No_Decl) wanted = Inr reach" "covers_set held reach = []"
  using assms by (auto simp: ceiling_gate_def Let_def split: sum.splits if_splits)


lemma slot_for_retry_floor:
  assumes "slot_for_retry a g min_trust = Inr slot"
  obtains r s where "trust_rank min_trust = Inr r" "trust_rank (trust_floor slot) = Inr s" "r \<le> s"
    "slot_grant slot = grant_caps g"
  using assms by (auto simp: slot_for_retry_def Let_def result_simps split: if_splits)

lemma trust_rank_floor_of: "trust_rank (trust_floor_of ec) = Inr (if ec = Secret_Bearing then 1 else 0)"
  by (simp add: trust_rank_def trust_floor_of_def trust_order_def trust_aliases_def dict_get_def)

text \<open>C4: A replay is lawful.  When the dispatcher decides to replay, the effect class is one
  that may be re-issued at all, the grant it hands on holds the lost attempt's capabilities and
  one unit less of a positive retry budget, the chain extended by that hop passes the
  monotonicity check, and the hop goes to a candidate whose offer verifies under the key, whose
  trust is at least \<open>attested\<close> when the work bears a secret, and whose advertised ceiling covers
  every capability of the grant.\<close>

theorem replay_lawful:
  assumes "dispatch_on_loss mac chain a candidates key = Inr dec" "disposition dec = Replay"
  shows "\<exists>g doc record rank held reach.
    effect_class a \<in> {Pure, Idempotent_External, Secret_Bearing} \<and> retry_grant dec = Some g
    \<and> grant_caps g = grant_caps (att_grant a) \<and> 0 < retry_budget a
    \<and> map_of (budgets g) ''retries'' = Some (retry_budget a - 1)
    \<and> check_delegation_chain (chain @ [g]) = Inr ()
    \<and> doc \<in> set candidates \<and> doc = JObj record \<and> verify_offer mac doc key = Inr None
    \<and> trust_rank (str_member (obj_member record ''attestation'') ''trust'') = Inr rank
    \<and> (effect_class a = Secret_Bearing \<longrightarrow> 1 \<le> rank)
    \<and> res_map (\<lambda>t. parse_cap t No_Decl) (ceiling_strings record) = Inr held
    \<and> res_map (\<lambda>t. parse_cap t No_Decl) (grant_caps g) = Inr reach \<and> covers_set held reach = []"
proof -
  obtain pid slot where d: "effect_class a \<in> {Pure, Idempotent_External, Secret_Bearing}"
    "0 < retry_budget a" "retry_grant dec = Some (make_retry_grant a pid)"
    and slot: "slot_for_retry a (make_retry_grant a ''<retry>'') (trust_floor_of (effect_class a)) = Inr slot"
    and choice: "choose_from mac chain (make_retry_grant a ''<retry>'') slot key candidates = Inr (Some pid)"
    using dispatch_replay [OF assms] by metis
  obtain doc where doc: "doc \<in> set candidates" "offer_eligible mac doc slot key = Inr None"
    and chain: "check_delegation_chain (chain @ [make_retry_grant a pid]) = Inr ()"
    using choose_from_Some [OF choice] by (auto simp: make_retry_grant_def)
  obtain rec rank rf where elig: "doc = JObj rec" "verify_offer mac doc key = Inr None"
    "trust_rank (str_member (obj_member rec ''attestation'') ''trust'') = Inr rank"
    "trust_rank (trust_floor slot) = Inr rf" "rf \<le> rank"
    and gate: "ceiling_gate (ceiling_strings rec) (slot_grant slot) = None"
    using eligible_facets [OF doc(2)] by metis
  obtain r s where "trust_rank (trust_floor_of (effect_class a)) = Inr r" "trust_rank (trust_floor slot) = Inr s"
    "r \<le> s" and sg: "slot_grant slot = grant_caps (att_grant a)"
    using slot_for_retry_floor [OF slot] by (auto simp: make_retry_grant_def)
  then have "effect_class a = Secret_Bearing \<longrightarrow> 1 \<le> rank" using elig by (auto simp: trust_rank_floor_of split: if_splits)
  moreover obtain held reach where "res_map (\<lambda>t. parse_cap t No_Decl) (ceiling_strings rec) = Inr held"
    "res_map (\<lambda>t. parse_cap t No_Decl) (grant_caps (att_grant a)) = Inr reach" "covers_set held reach = []"
    using ceiling_gate_None [OF gate] sg by metis
  moreover have "map_of (budgets (make_retry_grant a pid)) ''retries'' = Some (retry_budget a - 1)"
    "grant_caps (make_retry_grant a pid) = grant_caps (att_grant a)"
    using d(2) by (simp_all add: make_retry_grant_def update_conv')
  ultimately show ?thesis using d chain doc elig by metis
qed

definition ex_mac :: mac where
  "ex_mac record key = Some ''sig''"

definition ex_offer :: "json \<Rightarrow> json \<Rightarrow> (string \<times> json) list" where
  "ex_offer trust n =
    [(''kind'', JStr ''revl.peer-offer''), (''version'', JStr ''1.0''), (''sign_alg'', JStr ''hmac-sha256''),
     (''peer_id'', JStr ''p1''),
     (''attestation'', JObj [(''trust'', trust), (''region'', JStr ''eu''), (''hardware'', JStr ''cpu''),
        (''resource_offer'', JObj [(''cores'', n), (''memory_bytes'', JInt 1024), (''max_time_s'', JInt 60)])]),
     (''grant_ceiling'', JArr [JStr ''net.fetch'']),
     (''key_id'', JStr ''0123456789abcdef''), (''signature'', JStr ''sig'')]"

definition ex_attempt :: attempt where
  "ex_attempt = \<lparr>effect_class = Secret_Bearing,
     att_grant = mk_grant ''root'' [''net.fetch(calls=3)''] [(''retries'', 2)],
     has_recorded_inverse = False, base_slot = None\<rparr>"

lemma ex_dispatch:
  "dispatch_on_loss ex_mac [att_grant ex_attempt] ex_attempt
      [JObj (ex_offer (JStr ''verified'') (JInt 4)), JObj (ex_offer (JStr ''trusted'') (JInt 4))] ''k''
    = Inr \<lparr>disposition = Replay, retry_grant = Some (make_retry_grant ex_attempt ''p1''), peer_id = Some ''p1''\<rparr>"
  by code_simp

theorem replay_lawful_witness:
  "0 < retry_budget ex_attempt
    \<and> check_delegation_chain [att_grant ex_attempt, make_retry_grant ex_attempt ''p1''] = Inr ()"
  using replay_lawful [OF ex_dispatch] by simp


subsection \<open>Retries run out\<close>

text \<open>
  The replays that follow one loss when every replayed attempt is lost in turn: the next attempt
  holds the retry grant, and the hop has joined the chain.  \<open>losses\<close> lists the candidates and the
  key of each dispatch; the result is the number of replays made.
\<close>

fun replay_run :: "mac \<Rightarrow> grant list \<Rightarrow> attempt \<Rightarrow> (json list \<times> string) list \<Rightarrow> retry_exn + nat" where
  "replay_run mac chain a [] = Inr 0"
| "replay_run mac chain a ((candidates, key) # losses) =
     res_bind (dispatch_on_loss mac chain a candidates key) (\<lambda>dec.
       case (disposition dec, retry_grant dec) of
         (Replay, Some g) \<Rightarrow>
           res_bind (replay_run mac (chain @ [g]) (a\<lparr>att_grant := g\<rparr>) losses) (\<lambda>n. Inr (Suc n))
       | _ \<Rightarrow> Inr 0)"

text \<open>C5: A retry storm is impossible.  However many losses follow one another, and whatever
  offers are made at each, the number of replays never exceeds the retry budget the first lost
  attempt held; with no budget there is no replay.\<close>

theorem replays_bounded_by_budget:
  assumes "replay_run mac chain a losses = Inr n"
  shows "int n \<le> max 0 (retry_budget a)"
  using assms
proof (induction mac chain a losses arbitrary: n rule: replay_run.induct)
  case (2 mac chain a candidates key losses)
  then obtain dec where dec: "dispatch_on_loss mac chain a candidates key = Inr dec"
    by (auto simp: result_simps)
  show ?case
  proof (cases "disposition dec = Replay")
    case True
    obtain pid where pid: "0 < retry_budget a" "retry_grant dec = Some (make_retry_grant a pid)"
      using dispatch_replay [OF dec True] by metis
    let ?g = "make_retry_grant a pid"
    obtain m where m: "replay_run mac (chain @ [?g]) (a\<lparr>att_grant := ?g\<rparr>) losses = Inr m" "n = Suc m"
      using "2.prems" dec True pid by (auto simp: result_simps)
    have "retry_budget (a\<lparr>att_grant := ?g\<rparr>) = retry_budget a - 1"
      using pid(1) by (simp add: retry_budget_def make_retry_grant_def)
    moreover have "int m \<le> max 0 (retry_budget (a\<lparr>att_grant := ?g\<rparr>))"
      using "2.IH" [OF dec _ _ _ m(1)] True pid by auto
    ultimately show ?thesis using m(2) pid(1) by simp
  next
    case False
    with "2.prems" dec have "n = 0" by (cases "disposition dec") (auto split: option.splits)
    then show ?thesis by simp
  qed
qed simp

theorem replays_bounded_by_budget_witness:
  "replay_run ex_mac [att_grant ex_attempt] ex_attempt
     (replicate 3 ([JObj (ex_offer (JStr ''local'') (JInt 4))], ''k'')) = Inr 2
   \<and> int 2 \<le> max 0 (retry_budget ex_attempt)"
proof -
  have "replay_run ex_mac [att_grant ex_attempt] ex_attempt
     (replicate 3 ([JObj (ex_offer (JStr ''local'') (JInt 4))], ''k'')) = Inr 2" by code_simp
  from replays_bounded_by_budget [OF this] this show ?thesis by simp
qed


subsection \<open>Escaping exceptions\<close>

text \<open>The eligibility test promises never to raise, but two authentic records break that.
  An offer whose advertised core count is an infinite float passes the envelope check and raises
  \<open>OverflowError\<close> from the conversion to an integer; a record whose trust member is a list raises
  \<open>TypeError\<close> from the membership test of the envelope check.  Both hold for every slot that asks
  no more trust or facets than the record shows, and the dispatcher passes the exception on.\<close>

theorem offer_eligible_can_raise:
  assumes "mac (filter (\<lambda>(k, _). k \<noteq> ''signature'') (ex_offer (JStr ''local'') (JFloat Pos_Inf))) key = Some ''sig''"
    and "mac (filter (\<lambda>(k, _). k \<noteq> ''signature'') (ex_offer (JArr []) (JInt 4))) key = Some ''sig''" and "key \<noteq> []"
  shows "offer_eligible mac (JObj (ex_offer (JStr ''local'') (JFloat Pos_Inf))) default_slot key = Inl Overflow_Error
    \<and> offer_eligible mac (JObj (ex_offer (JArr []) (JInt 4))) default_slot key = Inl Type_Error"
proof
  have p: "parse_cap ''net.fetch'' No_Decl = Inr (mk_cap ''net.fetch'' [])" by code_simp
  have h: "is_hex16 ''0123456789abcdef''" and a: "ascii_text ''sig''" by code_simp+
  let ?r = "ex_offer (JStr ''local'') (JFloat Pos_Inf)"
  have "validate_envelope ?r = Inr None"
    using p h by (simp add: validate_envelope_def ex_offer_def member_def dict_get_def sign_algs_def is_jstr_def
        trust_known_def trust_aliases_def trust_order_def validate_resources_def nonneg_number_def
        validate_ceiling_def validate_key_id_def)
  moreover have "member ?r ''signature'' = JStr ''sig''" by (simp add: ex_offer_def member_def dict_get_def)
  ultimately have v: "verify_offer mac (JObj ?r) key = Inr None"
    using assms(1,3) a by (simp add: verify_offer_def)
  have "facet_gates ?r default_slot = Inl Overflow_Error" by code_simp
  with v show "offer_eligible mac (JObj ?r) default_slot key = Inl Overflow_Error"
    by (simp add: offer_eligible_def default_slot_def)
  let ?q = "ex_offer (JArr []) (JInt 4)"
  have "validate_envelope ?q = Inl Type_Error" by code_simp
  moreover have "member ?q ''signature'' = JStr ''sig''" by (simp add: ex_offer_def member_def dict_get_def)
  ultimately show "offer_eligible mac (JObj ?q) default_slot key = Inl Type_Error"
    using assms(2,3) a by (simp add: offer_eligible_def verify_offer_def)
qed

text \<open>Who holds no key at all can raise too: a signature of one character beyond ASCII is enough.\<close>

lemma foreign_signature_raises:
  assumes "key \<noteq> []" "mac (filter (\<lambda>(k, _). k \<noteq> ''signature'') record) key = Some expected"
    and "member record ''signature'' = JStr [CHR 0xE9]"
  shows "offer_eligible mac (JObj record) slot key = Inl Type_Error"
  using assms by (simp add: offer_eligible_def verify_offer_def ascii_text_def)

theorem offer_eligible_can_raise_witness:
  "offer_eligible ex_mac (JObj (ex_offer (JStr ''local'') (JFloat Pos_Inf))) default_slot ''k'' = Inl Overflow_Error"
  using offer_eligible_can_raise [of ex_mac "''k''"] by (simp add: ex_mac_def)

end
