(* ===== verification/Petri.thy ===== *)
theory Petri
  imports Revl_Prelude
begin

section \<open>The Petri-net engine (\<open>src/revl/petri.py\<close>)\<close>

text \<open>
  Place/transition nets with consume, produce and read arcs; the breadth-first walk of the
  marking graph under two caps; and P-semiflows by signed elimination.  A marking is a
  dictionary from places to token counts, and its canonical form is the sorted list of its
  non-zero entries.
\<close>

type_synonym marking = "(string, int) pydict"

definition canon :: "marking \<Rightarrow> marking" where
  "canon m = sort_key fst (filter (\<lambda>(p, n). n \<noteq> 0) m)"

record transition =
  t_id :: string
  consume :: "(string, int) pydict"
  produce :: "(string, int) pydict"
  reads :: "(string, int) pydict"

definition t_enabled :: "transition \<Rightarrow> marking \<Rightarrow> bool" where
  "t_enabled t m \<longleftrightarrow>
     (if list_ex (\<lambda>(p, w). dict_get m p 0 < w) (consume t) then False
      else if list_ex (\<lambda>(p, w). dict_get m p 0 < w) (reads t) then False
      else True)"

definition fire :: "transition \<Rightarrow> marking \<Rightarrow> marking" where
  "fire t m =
     (let out = fold (\<lambda>(p, w) d. AList.update p (dict_get d p 0 - w) d) (consume t) m;
          out = fold (\<lambda>(p, w) d. AList.update p (dict_get d p 0 + w) d) (produce t) out
      in filter (\<lambda>(p, n). n \<noteq> 0) out)"

type_synonym net = "transition list"

definition net_places :: "net \<Rightarrow> string set" where
  "net_places ts = (\<Union>t \<in> set ts. fst ` set (consume t) \<union> fst ` set (produce t) \<union> fst ` set (reads t))"

definition net_enabled :: "net \<Rightarrow> marking \<Rightarrow> transition list" where
  "net_enabled ts m = filter (\<lambda>t. t_enabled t m) ts"

text \<open>One row of the incidence matrix; a place's row maps transition ids to net changes.\<close>

definition incidence_row :: "net \<Rightarrow> string \<Rightarrow> (string, int) pydict" where
  "incidence_row ts p = fold (\<lambda>t row.
     let delta = dict_get (produce t) p 0 - dict_get (consume t) p 0
     in if delta \<noteq> 0 then AList.update (t_id t) delta row else row) ts []"


subsection \<open>The bounded walk\<close>

record walk =
  seen :: "marking list"
  queue :: "marking list"
  dead :: "marking list"
  fired :: "string list"
  bound_hit :: bool
  overflow :: bool

text \<open>The body of the inner loop: one enabled transition of the marking taken off the queue.\<close>

definition visit :: "nat \<Rightarrow> int \<Rightarrow> marking \<Rightarrow> transition \<Rightarrow> walk \<Rightarrow> walk" where
  "visit max_states max_tokens m t w =
     (let w = w\<lparr>fired := List.insert (t_id t) (fired w)\<rparr>; nxt = fire t m in
      if list_ex (\<lambda>(p, n). n > max_tokens) nxt then w\<lparr>overflow := True\<rparr>
      else let key = canon nxt in
        if key \<in> set (seen w) then w
        else if length (seen w) \<ge> max_states then w\<lparr>bound_hit := True\<rparr>
        else w\<lparr>seen := seen w @ [key], queue := queue w @ [nxt]\<rparr>)"

definition expand :: "net \<Rightarrow> nat \<Rightarrow> int \<Rightarrow> marking \<Rightarrow> walk \<Rightarrow> walk" where
  "expand ts max_states max_tokens m w =
     (let ready = net_enabled ts m in
      if ready = [] then w\<lparr>dead := dead w @ [canon m]\<rparr>
      else fold (visit max_states max_tokens m) ready w)"

definition walk_measure :: "nat \<Rightarrow> walk \<Rightarrow> nat" where
  "walk_measure max_states w = 2 * (max_states - length (seen w)) + length (queue w)"

lemma visit_measure: "walk_measure ms (visit ms mt m t w) \<le> walk_measure ms w"
  by (auto simp: walk_measure_def visit_def Let_def)

lemma fold_visit_measure: "walk_measure ms (fold (visit ms mt m) ts w) \<le> walk_measure ms w"
proof (induction ts arbitrary: w)
  case (Cons t ts)
  then show ?case using visit_measure [of ms mt m t w] le_trans by fastforce
qed simp

lemma expand_measure: "walk_measure ms (expand ts ms mt m w) \<le> walk_measure ms w"
  using fold_visit_measure by (simp add: expand_def Let_def walk_measure_def)

function walk_from :: "net \<Rightarrow> nat \<Rightarrow> int \<Rightarrow> walk \<Rightarrow> walk" where
  "walk_from ts ms mt w = (case queue w of
       [] \<Rightarrow> w
     | m # rest \<Rightarrow> walk_from ts ms mt (expand ts ms mt m (w\<lparr>queue := rest\<rparr>)))"
  by pat_completeness auto
termination
proof (relation "measure (\<lambda>(ts, ms, mt, w). walk_measure ms w)")
  fix ts :: net and ms :: nat and mt :: int and w :: walk and m rest
  assume "queue w = m # rest"
  then have "walk_measure ms (w\<lparr>queue := rest\<rparr>) < walk_measure ms w" by (simp add: walk_measure_def)
  then show "((ts, ms, mt, expand ts ms mt m (w\<lparr>queue := rest\<rparr>)), (ts, ms, mt, w))
      \<in> measure (\<lambda>(ts, ms, mt, w). walk_measure ms w)"
    using expand_measure [of ms ts mt m "w\<lparr>queue := rest\<rparr>"] by simp
qed simp

declare walk_from.simps [simp del]

record reachability =
  markings :: "marking list"
  dead_markings :: "marking list"
  fired_ids :: "string list"
  dead_transitions :: "string list"
  hit_bound :: bool
  token_overflow :: bool

definition conclusive :: "reachability \<Rightarrow> bool" where
  "conclusive r \<longleftrightarrow> \<not> hit_bound r \<and> \<not> token_overflow r"

definition start_walk :: "marking \<Rightarrow> walk" where
  "start_walk m0 = \<lparr>seen = [canon m0], queue = [m0], dead = [], fired = [], bound_hit = False, overflow = False\<rparr>"

definition reachable :: "net \<Rightarrow> marking \<Rightarrow> nat \<Rightarrow> int \<Rightarrow> reachability" where
  "reachable ts m0 max_states max_tokens =
     (let w = walk_from ts max_states max_tokens (start_walk m0) in
      \<lparr>markings = seen w, dead_markings = dead w, fired_ids = fired w,
       dead_transitions = filter (\<lambda>i. i \<notin> set (fired w)) (remdups (map t_id ts)),
       hit_bound = bound_hit w, token_overflow = overflow w\<rparr>)"


subsection \<open>Semiflows\<close>

type_synonym row = "(string, int) pydict \<times> (string, int) pydict"

definition gcd_values :: "(string, int) pydict \<Rightarrow> int" where
  "gcd_values r = fold (\<lambda>v g. gcd g v) (map (\<lambda>(k, v). \<bar>v\<bar>) (filter (\<lambda>(k, v). v \<noteq> 0) r)) 0"

definition divide_values :: "int \<Rightarrow> (string, int) pydict \<Rightarrow> (string, int) pydict" where
  "divide_values g r = map (\<lambda>(k, v). (k, v div g)) (filter (\<lambda>(k, v). v \<noteq> 0) r)"

definition normalize_row :: "(string, int) pydict \<Rightarrow> (string, int) pydict" where
  "normalize_row r = (if filter (\<lambda>(k, v). v \<noteq> 0) r = [] then []
     else let g = gcd_values r in if g \<le> 1 then r else divide_values g r)"

text \<open>The source iterates the set of all keys; the rows are read by key only, so one fixed order serves.\<close>

definition combine :: "(string, int) pydict \<Rightarrow> int \<Rightarrow> (string, int) pydict \<Rightarrow> int \<Rightarrow> (string, int) pydict" where
  "combine r1 w1 r2 w2 = filter (\<lambda>(k, v). v \<noteq> 0)
     (map (\<lambda>k. (k, w1 * dict_get r1 k 0 + w2 * dict_get r2 k 0)) (remdups (map fst r1 @ map fst r2)))"

definition normalize_pair :: "row \<Rightarrow> row" where
  "normalize_pair r = (if filter (\<lambda>(k, v). v \<noteq> 0) (snd r) = [] then r
     else let g = gcd_values (snd r) in
       if g \<le> 1 then r else (divide_values g (fst r), divide_values g (snd r)))"

definition row_support :: "row \<Rightarrow> string set" where
  "row_support r = set (map fst (snd r))"

definition drop_nonminimal :: "row list \<Rightarrow> row list" where
  "drop_nonminimal rows =
     (let uniq = fold (\<lambda>r acc. if \<exists>q \<in> set acc. row_support q = row_support r then acc else acc @ [r]) rows []
      in filter (\<lambda>r. \<not> (row_support r \<noteq> {} \<and> (\<exists>q \<in> set uniq. row_support q \<subset> row_support r))) uniq)"

definition eliminate :: "string \<Rightarrow> row list \<Rightarrow> row list" where
  "eliminate tid rows =
     (let pos = filter (\<lambda>(a, b). dict_get a tid 0 > 0) rows;
          neg = filter (\<lambda>(a, b). dict_get a tid 0 < 0) rows;
          zero = filter (\<lambda>(a, b). dict_get a tid 0 = 0) rows;
          new = concat (map (\<lambda>(a1, b1). map (\<lambda>(a2, b2).
            let c1 = \<bar>dict_get a2 tid 0\<bar>; c2 = \<bar>dict_get a1 tid 0\<bar>
            in normalize_pair (AList.delete tid (combine a1 c1 a2 c2), combine b1 c1 b2 c2)) neg) pos)
      in drop_nonminimal (zero @ new))"

definition initial_rows :: "net \<Rightarrow> string list \<Rightarrow> row list" where
  "initial_rows ts order = map (\<lambda>p. (dict_of (map (\<lambda>t. (t_id t, dict_get (incidence_row ts p) (t_id t) 0))
     (filter (\<lambda>t. dict_get (incidence_row ts p) (t_id t) 0 \<noteq> 0) ts)), [(p, 1)])) order"

definition dedupe :: "(string, int) pydict list \<Rightarrow> (string, int) pydict list" where
  "dedupe ys = rev (fst (fold (\<lambda>y (out, keys).
     let key = sort_key fst (normalize_row y) in
     if key \<noteq> [] \<and> key \<notin> set keys then (normalize_row y # out, key # keys) else (out, keys)) ys ([], [])))"

definition p_semiflows :: "net \<Rightarrow> string list \<Rightarrow> (string, int) pydict list" where
  "p_semiflows ts order =
     (let rows = fold (\<lambda>t. eliminate (t_id t)) ts (initial_rows ts order)
      in dedupe (map snd (filter (\<lambda>(a, b). b \<noteq> [] \<and> list_all (\<lambda>(k, v). v > 0) b) rows)))"

definition covered_places :: "net \<Rightarrow> string list \<Rightarrow> string set" where
  "covered_places ts order = (\<Union>y \<in> set (p_semiflows ts order). fst ` set (filter (\<lambda>(p, w). w > 0) y))"

text \<open>The default place order of the analyses is the sorted set of the net's places.\<close>

definition place_order :: "net \<Rightarrow> string list" where
  "place_order ts = sort (remdups (concat (map (\<lambda>t. map fst (consume t) @ map fst (produce t) @ map fst (reads t)) ts)))"

definition structurally_bounded :: "net \<Rightarrow> string list \<Rightarrow> bool" where
  "structurally_bounded ts order \<longleftrightarrow> set order \<subseteq> covered_places ts order"


subsection \<open>Markings up to their canonical form\<close>

definition net_ok :: "net \<Rightarrow> bool" where
  "net_ok ts \<longleftrightarrow> distinct (map t_id ts) \<and> (\<forall>t \<in> set ts. dict_ok (consume t) \<and> dict_ok (produce t) \<and> dict_ok (reads t)
     \<and> (\<forall>(p, w) \<in> set (consume t) \<union> set (produce t) \<union> set (reads t). 0 < w))"

lemma dict_get_filter:
  "dict_ok m \<Longrightarrow> dict_get (filter (\<lambda>(p, n). n \<noteq> 0) m) p 0 = dict_get m p (0::int)"
proof (induction m)
  case (Cons x m)
  obtain q n where x: "x = (q, n)" by fastforce
  have "map_of m p = None" "map_of (filter (\<lambda>(p, n). n \<noteq> 0) m) p = None" if "p = q"
    using Cons.prems x that by (auto simp: dict_ok_def map_of_eq_None_iff)
  then show ?case using Cons x by (auto simp: dict_get_def dict_ok_def)
qed simp

lemma dict_get_in: "dict_ok m \<Longrightarrow> (p, n) \<in> set m \<Longrightarrow> dict_get m p d = n"
  by (simp add: dict_get_def dict_ok_def)

lemma dict_get_nonzero: "dict_get m p 0 \<noteq> (0::int) \<Longrightarrow> (p, dict_get m p 0) \<in> set m"
  by (auto simp: dict_get_def split: option.splits dest: map_of_SomeD)

lemma canon_sorted: "dict_ok m \<Longrightarrow> sorted_wrt (<) (map fst (canon m))"
proof -
  assume "dict_ok m"
  then have "distinct (map fst (filter (\<lambda>(p, n). n \<noteq> 0) m))" by (simp add: dict_ok_def distinct_map_filter)
  then have "distinct (map fst (canon m))" by (simp add: canon_def distinct_map)
  then show ?thesis by (simp add: canon_def strict_sorted_iff)
qed

lemma set_canon: "dict_ok m \<Longrightarrow> set (canon m) = {(p, dict_get m p 0) | p. dict_get m p 0 \<noteq> 0}"
  using dict_get_in [of m] dict_get_nonzero [of m] by (force simp: canon_def)

lemma canon_eq_iff:
  assumes "dict_ok m" "dict_ok m'"
  shows "canon m = canon m' \<longleftrightarrow> (\<forall>p. dict_get m p 0 = dict_get m' p 0)"
proof
  assume "\<forall>p. dict_get m p 0 = dict_get m' p 0"
  then have "set (canon m) = set (canon m')" using assms by (simp add: set_canon)
  then show "canon m = canon m'" using canon_sorted assms by (intro strict_sorted_set_unique)
next
  assume eq: "canon m = canon m'"
  show "\<forall>p. dict_get m p 0 = dict_get m' p 0"
  proof
    fix p
    have "(p, dict_get m p 0) \<in> set (canon m) \<longleftrightarrow> dict_get m p 0 \<noteq> 0" if "dict_ok m" for m
      using that by (auto simp: set_canon)
    then show "dict_get m p 0 = dict_get m' p 0"
      using assms eq set_canon [of m] set_canon [of m'] by (cases "dict_get m p 0 = 0") auto
  qed
qed

lemma fold_update_get:
  assumes "dict_ok ps"
  shows "dict_get (fold (\<lambda>(p, w) d. AList.update p (f (dict_get d p 0) w) d) ps m) q (0::int)
    = (case map_of ps q of None \<Rightarrow> dict_get m q 0 | Some w \<Rightarrow> f (dict_get m q 0) w)"
  using assms
proof (induction ps arbitrary: m)
  case (Cons x ps)
  obtain p w where x: "x = (p, w)" by fastforce
  then have "dict_ok ps" "map_of ps p = None" using Cons.prems by (auto simp: dict_ok_def map_of_eq_None_iff)
  then show ?case using x by (auto simp: Cons.IH split: option.splits)
qed simp

lemma fold_update_ok: "dict_ok m \<Longrightarrow> dict_ok (fold (\<lambda>(p, w) d. AList.update p (f d p w) d) ps m)"
  by (induction ps arbitrary: m) auto

lemma dict_ok_filter [simp, intro]: "dict_ok m \<Longrightarrow> dict_ok (filter P m)"
  by (simp add: dict_ok_def distinct_map_filter)

lemma fire_ok: "dict_ok m \<Longrightarrow> dict_ok (fire t m)"
  by (simp add: fire_def Let_def fold_update_ok [where f = "\<lambda>d p w. dict_get d p 0 - w"]
      fold_update_ok [where f = "\<lambda>d p w. dict_get d p 0 + w"])

lemma fire_get:
  assumes "dict_ok m" "dict_ok (consume t)" "dict_ok (produce t)"
  shows "dict_get (fire t m) p 0 = dict_get m p 0 - dict_get (consume t) p 0 + dict_get (produce t) p 0"
proof -
  let ?c = "fold (\<lambda>(p, w) d. AList.update p (dict_get d p 0 - w) d) (consume t) m"
  let ?o = "fold (\<lambda>(p, w) d. AList.update p (dict_get d p 0 + w) d) (produce t) ?c"
  have "dict_ok ?o"
    using assms(1) by (intro fold_update_ok [where f = "\<lambda>d p w. dict_get d p 0 + w"]
      fold_update_ok [where f = "\<lambda>d p w. dict_get d p 0 - w"])
  then have "dict_get (fire t m) p 0 = dict_get ?o p 0"
    by (simp add: fire_def Let_def dict_get_filter)
  then show ?thesis
    using fold_update_get [OF assms(2), where f = "(-)" and m = m] fold_update_get [OF assms(3), where f = "(+)" and m = ?c]
    by (auto simp: dict_get_def [of "consume t"] dict_get_def [of "produce t"] split: option.splits)
qed

lemma enabled_canon:
  "dict_ok m \<Longrightarrow> dict_ok m' \<Longrightarrow> canon m = canon m' \<Longrightarrow> t_enabled t m = t_enabled t m'"
  by (simp add: canon_eq_iff t_enabled_def)

lemma fire_canon:
  "dict_ok m \<Longrightarrow> dict_ok m' \<Longrightarrow> dict_ok (consume t) \<Longrightarrow> dict_ok (produce t) \<Longrightarrow> canon m = canon m'
     \<Longrightarrow> canon (fire t m) = canon (fire t m')"
  by (simp add: canon_eq_iff fire_ok fire_get)

end
