(* ===== verification/Petri_Walk.thy ===== *)
theory Petri_Walk
  imports Petri
begin

section \<open>The walk finds exactly the reachable markings\<close>

text \<open>
  The token game as a step relation, and the walk's invariant: what is recorded is reachable,
  and whatever left the queue had its successors recorded, unless a cap was hit.
\<close>

inductive net_step :: "net \<Rightarrow> marking \<Rightarrow> marking \<Rightarrow> bool" for ts where
  net_step: "t \<in> set ts \<Longrightarrow> t_enabled t m \<Longrightarrow> net_step ts m (fire t m)"

inductive_cases net_stepE: "net_step ts m m'"

inductive net_reach :: "net \<Rightarrow> marking \<Rightarrow> marking \<Rightarrow> bool" for ts m0 where
  net_init: "net_reach ts m0 m0"
| net_next: "net_reach ts m0 m \<Longrightarrow> net_step ts m m' \<Longrightarrow> net_reach ts m0 m'"

lemma net_reach_ok: "net_reach ts m0 m \<Longrightarrow> dict_ok m0 \<Longrightarrow> dict_ok m"
  by (induction rule: net_reach.induct) (auto simp: fire_ok elim: net_stepE)

lemma net_reach_fire: "net_reach ts m0 m \<Longrightarrow> t \<in> set (net_enabled ts m) \<Longrightarrow> net_reach ts m0 (fire t m)"
  by (rule net_next) (auto simp: net_enabled_def intro: net_step)

definition walk_le :: "walk \<Rightarrow> walk \<Rightarrow> bool" where
  "walk_le w w' \<longleftrightarrow> set (seen w) \<subseteq> set (seen w') \<and> set (fired w) \<subseteq> set (fired w') \<and> set (dead w) \<subseteq> set (dead w')
     \<and> (bound_hit w \<longrightarrow> bound_hit w') \<and> (overflow w \<longrightarrow> overflow w')"

definition capped :: "walk \<Rightarrow> bool" where "capped w \<longleftrightarrow> bound_hit w \<or> overflow w"

definition handled :: "net \<Rightarrow> walk \<Rightarrow> marking \<Rightarrow> bool" where
  "handled ts w m \<longleftrightarrow> (net_enabled ts m = [] \<longrightarrow> canon m \<in> set (dead w))
     \<and> (\<forall>t \<in> set (net_enabled ts m). t_id t \<in> set (fired w) \<and> (canon (fire t m) \<in> set (seen w) \<or> capped w))"

lemma walk_le_refl [simp, intro]: "walk_le w w"
  by (simp add: walk_le_def)

lemma walk_le_trans: "walk_le w w' \<Longrightarrow> walk_le w' w'' \<Longrightarrow> walk_le w w''"
  by (auto simp: walk_le_def)

lemma handled_mono: "walk_le w w' \<Longrightarrow> handled ts w m \<Longrightarrow> handled ts w' m"
  unfolding walk_le_def handled_def capped_def by blast

lemma visit_le: "walk_le w (visit ms mt m t w)"
  by (auto simp: walk_le_def visit_def Let_def)

lemma fold_visit_le: "walk_le w (fold (visit ms mt m) ts w)"
  by (induction ts arbitrary: w) (auto intro: walk_le_trans visit_le)

lemma expand_le: "walk_le (w\<lparr>queue := q\<rparr>) w' \<Longrightarrow> walk_le w w'"
  by (simp add: walk_le_def)

lemma visit_handles: "t_id t \<in> set (fired (visit ms mt m t w)) \<and> (canon (fire t m) \<in> set (seen (visit ms mt m t w)) \<or> capped (visit ms mt m t w))"
  by (auto simp: visit_def Let_def capped_def)

lemma fold_visit_handles:
  "t \<in> set ts \<Longrightarrow> t_id t \<in> set (fired (fold (visit ms mt m) ts w))
     \<and> (canon (fire t m) \<in> set (seen (fold (visit ms mt m) ts w)) \<or> capped (fold (visit ms mt m) ts w))"
proof (induction ts arbitrary: w)
  case (Cons u ts)
  show ?case
  proof (cases "t = u")
    case True
    then show ?thesis using visit_handles [of u ms mt m w] fold_visit_le [of "visit ms mt m u w" ms mt m ts]
      unfolding walk_le_def capped_def by auto
  next
    case False
    then show ?thesis using Cons by simp
  qed
qed simp

lemma expand_handles: "handled ts (expand ts ms mt m w) m"
  using fold_visit_handles [where ts = "net_enabled ts m"] by (auto simp: handled_def expand_def Let_def)

lemma expand_walk_le: "walk_le w (expand ts ms mt m w)"
  using fold_visit_le by (simp add: expand_def Let_def) (auto simp: walk_le_def)

text \<open>Every recorded key is the canonical form of a reachable marking that is queued or handled.\<close>

definition walk_inv :: "net \<Rightarrow> marking \<Rightarrow> walk \<Rightarrow> bool" where
  "walk_inv ts m0 w \<longleftrightarrow>
     (\<forall>k \<in> set (seen w). \<exists>m. net_reach ts m0 m \<and> canon m = k \<and> (m \<in> set (queue w) \<or> handled ts w m))
     \<and> (\<forall>m \<in> set (queue w). net_reach ts m0 m \<and> canon m \<in> set (seen w))
     \<and> (\<forall>k \<in> set (dead w). \<exists>m. net_reach ts m0 m \<and> canon m = k \<and> net_enabled ts m = [])
     \<and> (\<forall>i \<in> set (fired w). \<exists>m t. net_reach ts m0 m \<and> t \<in> set (net_enabled ts m) \<and> t_id t = i)
     \<and> canon m0 \<in> set (seen w)"

text \<open>While a marking is expanded it stands outside the queue and is not yet handled.\<close>

definition open_inv :: "net \<Rightarrow> marking \<Rightarrow> marking \<Rightarrow> walk \<Rightarrow> bool" where
  "open_inv ts m0 x w \<longleftrightarrow> net_reach ts m0 x \<and> canon x \<in> set (seen w) \<and>
     (\<forall>k \<in> set (seen w). \<exists>m. net_reach ts m0 m \<and> canon m = k \<and> (m = x \<or> m \<in> set (queue w) \<or> handled ts w m))
     \<and> (\<forall>m \<in> set (queue w). net_reach ts m0 m \<and> canon m \<in> set (seen w))
     \<and> (\<forall>k \<in> set (dead w). \<exists>m. net_reach ts m0 m \<and> canon m = k \<and> net_enabled ts m = [])
     \<and> (\<forall>i \<in> set (fired w). \<exists>m t. net_reach ts m0 m \<and> t \<in> set (net_enabled ts m) \<and> t_id t = i)
     \<and> canon m0 \<in> set (seen w)"

lemma walk_inv_start: "walk_inv ts m0 (start_walk m0)"
  by (auto simp: walk_inv_def start_walk_def intro: net_init)

lemma walk_inv_open: "walk_inv ts m0 w \<Longrightarrow> queue w = m # rest \<Longrightarrow> open_inv ts m0 m (w\<lparr>queue := rest\<rparr>)"
  unfolding walk_inv_def open_inv_def handled_def capped_def by simp

lemma open_inv_close:
  assumes "open_inv ts m0 x w" "handled ts w x"
  shows "walk_inv ts m0 w"
proof -
  have "\<exists>m. net_reach ts m0 m \<and> canon m = k \<and> (m \<in> set (queue w) \<or> handled ts w m)" if k: "k \<in> set (seen w)" for k
  proof -
    obtain m where "net_reach ts m0 m" "canon m = k" "m = x \<or> m \<in> set (queue w) \<or> handled ts w m"
      using k assms(1) unfolding open_inv_def by blast
    then show ?thesis using assms(2) by blast
  qed
  then show ?thesis using assms(1) unfolding open_inv_def walk_inv_def by (elim conjE) (intro conjI; (assumption | blast))
qed

lemma open_inv_visit:
  assumes inv: "open_inv ts m0 x w" and t: "t \<in> set (net_enabled ts x)"
  shows "open_inv ts m0 x (visit ms mt x t w)"
proof -
  let ?w = "visit ms mt x t w"
  have fr: "net_reach ts m0 (fire t x)" and rx: "net_reach ts m0 x"
    using inv t net_reach_fire by (auto simp: open_inv_def)
  have cases: "seen ?w = seen w \<and> queue ?w = queue w \<or> seen ?w = seen w @ [canon (fire t x)] \<and> queue ?w = queue w @ [fire t x]"
    by (simp add: visit_def Let_def)
  have fired: "set (fired ?w) = insert (t_id t) (set (fired w))" and dead: "dead ?w = dead w"
    by (auto simp: visit_def Let_def)
  have h: "handled ts w m \<Longrightarrow> handled ts ?w m" for m by (rule handled_mono [OF visit_le])
  have "\<exists>m. net_reach ts m0 m \<and> canon m = k \<and> (m = x \<or> m \<in> set (queue ?w) \<or> handled ts ?w m)"
    if k: "k \<in> set (seen ?w)" for k
  proof (cases "k \<in> set (seen w)")
    case True
    then obtain m where "net_reach ts m0 m" "canon m = k" "m = x \<or> m \<in> set (queue w) \<or> handled ts w m"
      using inv unfolding open_inv_def by blast
    then show ?thesis using h cases by (metis Un_iff set_append)
  next
    case False
    then show ?thesis using k fr cases by (metis Un_iff empty_iff insert_iff list.set set_append)
  qed
  moreover have "\<forall>m \<in> set (queue ?w). net_reach ts m0 m \<and> canon m \<in> set (seen ?w)"
    using inv fr cases unfolding open_inv_def by fastforce
  moreover have "\<forall>i \<in> set (fired ?w). \<exists>m t. net_reach ts m0 m \<and> t \<in> set (net_enabled ts m) \<and> t_id t = i"
    using inv rx t unfolding open_inv_def fired by blast
  moreover have "canon x \<in> set (seen ?w)" "canon m0 \<in> set (seen ?w)"
    using inv visit_le [of w ms mt x t] unfolding open_inv_def walk_le_def by auto
  moreover have "\<forall>k \<in> set (dead ?w). \<exists>m. net_reach ts m0 m \<and> canon m = k \<and> net_enabled ts m = []"
    using inv unfolding open_inv_def dead by blast
  ultimately show ?thesis using rx unfolding open_inv_def by blast
qed

lemma open_inv_fold:
  "open_inv ts m0 x w \<Longrightarrow> set us \<subseteq> set (net_enabled ts x) \<Longrightarrow> open_inv ts m0 x (fold (visit ms mt x) us w)"
  by (induction us arbitrary: w) (auto intro: open_inv_visit)

lemma walk_inv_expand:
  assumes "walk_inv ts m0 w" "queue w = m # rest"
  shows "walk_inv ts m0 (expand ts ms mt m (w\<lparr>queue := rest\<rparr>))"
proof -
  let ?w = "w\<lparr>queue := rest\<rparr>" and ?e = "expand ts ms mt m (w\<lparr>queue := rest\<rparr>)"
  have op: "open_inv ts m0 m ?w" by (rule walk_inv_open [OF assms])
  have "open_inv ts m0 m ?e"
  proof (cases "net_enabled ts m = []")
    case True
    then have e: "?e = ?w\<lparr>dead := dead w @ [canon m]\<rparr>" by (simp add: expand_def)
    have "handled ts ?w k \<Longrightarrow> handled ts ?e k" for k by (rule handled_mono [OF expand_walk_le])
    then show ?thesis using op True unfolding open_inv_def e by simp metis
  next
    case False
    then show ?thesis using open_inv_fold [OF op] by (simp add: expand_def Let_def)
  qed
  then show ?thesis by (rule open_inv_close) (rule expand_handles)
qed

lemma walk_inv_from: "walk_inv ts m0 w \<Longrightarrow> walk_inv ts m0 (walk_from ts ms mt w) \<and> queue (walk_from ts ms mt w) = []"
proof (induction ts ms mt w rule: walk_from.induct)
  case (1 ts ms mt w)
  show ?case
  proof (cases "queue w")
    case Nil
    then show ?thesis using 1 by (simp add: walk_from.simps [of ts ms mt w])
  next
    case (Cons m rest)
    then show ?thesis using 1 walk_inv_expand [OF "1.prems" Cons] by (simp add: walk_from.simps [of ts ms mt w])
  qed
qed

text \<open>Two reachable markings with one canonical form enable the same transitions to the same effect.\<close>

lemma handled_canon:
  assumes "net_ok ts" "dict_ok m" "dict_ok m'" "canon m = canon m'" "handled ts w m"
  shows "handled ts w m'"
proof -
  have en: "net_enabled ts m' = net_enabled ts m"
    using assms enabled_canon [of m m'] by (simp add: net_enabled_def)
  have "canon (fire t m') = canon (fire t m)" if "t \<in> set (net_enabled ts m)" for t
    using that assms fire_canon [of m m' t] by (simp add: net_enabled_def net_ok_def)
  then show ?thesis using assms(4,5) en by (simp add: handled_def)
qed

lemma walk_inv_handled:
  assumes ok: "net_ok ts" "dict_ok m0" and inv: "walk_inv ts m0 w" "queue w = []"
    and m: "net_reach ts m0 m" "canon m \<in> set (seen w)"
  shows "handled ts w m"
proof -
  obtain m' where "net_reach ts m0 m'" "canon m' = canon m" "handled ts w m'"
    using m inv unfolding walk_inv_def by (metis list.set(1) empty_iff)
  then show ?thesis using handled_canon [OF ok(1)] net_reach_ok [OF _ ok(2)] m(1) by blast
qed

lemma walk_complete:
  assumes ok: "net_ok ts" "dict_ok m0" and inv: "walk_inv ts m0 w" "queue w = []" and nc: "\<not> capped w"
  shows "net_reach ts m0 m \<Longrightarrow> canon m \<in> set (seen w) \<and> handled ts w m"
proof (induction rule: net_reach.induct)
  case net_init
  then show ?case using inv walk_inv_handled [OF ok inv net_reach.net_init] by (simp add: walk_inv_def)
next
  case (net_next m m')
  obtain t where "t \<in> set (net_enabled ts m)" "m' = fire t m"
    using net_next.hyps(2) by (auto simp: net_enabled_def elim: net_stepE)
  then have "canon m' \<in> set (seen w)" using net_next.IH nc by (auto simp: handled_def)
  then show ?case using walk_inv_handled [OF ok inv net_reach.net_next [OF net_next.hyps]] by simp
qed

lemma walk_inv_sound:
  assumes "walk_inv ts m0 w" "queue w = []"
  shows "set (seen w) \<subseteq> canon ` {m. net_reach ts m0 m}"
    and "set (dead w) \<subseteq> canon ` {m. net_reach ts m0 m \<and> net_enabled ts m = []}"
    and "set (fired w) \<subseteq> {i. \<exists>m t. net_reach ts m0 m \<and> t \<in> set (net_enabled ts m) \<and> t_id t = i}"
proof -
  have "\<forall>k \<in> set (seen w). \<exists>m. net_reach ts m0 m \<and> canon m = k"
    "\<forall>k \<in> set (dead w). \<exists>m. net_reach ts m0 m \<and> canon m = k \<and> net_enabled ts m = []"
    and f: "\<forall>i \<in> set (fired w). \<exists>m t. net_reach ts m0 m \<and> t \<in> set (net_enabled ts m) \<and> t_id t = i"
    using assms unfolding walk_inv_def by metis+
  then show "set (seen w) \<subseteq> canon ` {m. net_reach ts m0 m}"
    "set (dead w) \<subseteq> canon ` {m. net_reach ts m0 m \<and> net_enabled ts m = []}" by fastforce+
  show "set (fired w) \<subseteq> {i. \<exists>m t. net_reach ts m0 m \<and> t \<in> set (net_enabled ts m) \<and> t_id t = i}"
    using f by (simp add: subset_iff)
qed

lemma visit_length: "length (seen w) \<le> max 1 ms \<Longrightarrow> length (seen (visit ms mt m t w)) \<le> max 1 ms"
  by (auto simp: visit_def Let_def)

lemma fold_visit_length: "length (seen w) \<le> max 1 ms \<Longrightarrow> length (seen (fold (visit ms mt m) us w)) \<le> max 1 ms"
  by (induction us arbitrary: w) (simp_all add: visit_length del: One_nat_def)

lemma walk_from_length:
  "length (seen w) \<le> max 1 ms \<Longrightarrow> length (seen (walk_from ts ms mt w)) \<le> max 1 ms"
proof (induction ts ms mt w rule: walk_from.induct)
  case (1 ts ms mt w)
  have "length (seen (expand ts ms mt m (w\<lparr>queue := rest\<rparr>))) \<le> max 1 ms" for m rest
    using 1(2) fold_visit_length [of "w\<lparr>queue := rest\<rparr>" ms] by (simp add: expand_def Let_def)
  then show ?case using 1 by (simp add: walk_from.simps [of ts ms mt w] split: list.split)
qed

lemmas reachable_walk = walk_inv_from [OF walk_inv_start]

lemma reachable_facts:
  "length (markings (reachable ts m0 ms mt)) \<le> max 1 ms
     \<and> set (markings (reachable ts m0 ms mt)) \<subseteq> canon ` {m. net_reach ts m0 m}
     \<and> set (dead_markings (reachable ts m0 ms mt)) \<subseteq> canon ` {m. net_reach ts m0 m \<and> net_enabled ts m = []}
     \<and> set (fired_ids (reachable ts m0 ms mt)) \<subseteq> {i. \<exists>m t. net_reach ts m0 m \<and> t \<in> set (net_enabled ts m) \<and> t_id t = i}"
proof -
  have "length (seen (walk_from ts ms mt (start_walk m0))) \<le> max 1 ms"
    by (rule walk_from_length) (simp add: start_walk_def)
  then show ?thesis
    using walk_inv_sound [OF conjunct1 [OF reachable_walk] conjunct2 [OF reachable_walk]]
    by (simp add: reachable_def Let_def del: One_nat_def)
qed

text \<open>The walk is bounded and sound whether or not a cap was hit: it records at most
  \<open>max_states\<close> markings (or the initial one alone), every marking it records is reachable, every
  marking it reports dead is reachable and enables no transition, and every transition it
  reports as fired is enabled at a reachable marking.\<close>

theorem reachable_sound:
  "length (markings (reachable ts m0 ms mt)) \<le> max 1 ms
     \<and> set (markings (reachable ts m0 ms mt)) \<subseteq> canon ` {m. net_reach ts m0 m}
     \<and> set (dead_markings (reachable ts m0 ms mt)) \<subseteq> canon ` {m. net_reach ts m0 m \<and> net_enabled ts m = []}
     \<and> set (fired_ids (reachable ts m0 ms mt)) \<subseteq> {i. \<exists>m t. net_reach ts m0 m \<and> t \<in> set (net_enabled ts m) \<and> t_id t = i}"
  by (rule reachable_facts)

lemma reachable_exact:
  assumes "net_ok ts" "dict_ok m0" "conclusive (reachable ts m0 ms mt)"
  shows "set (markings (reachable ts m0 ms mt)) = canon ` {m. net_reach ts m0 m}
     \<and> set (dead_markings (reachable ts m0 ms mt)) = canon ` {m. net_reach ts m0 m \<and> net_enabled ts m = []}
     \<and> set (dead_transitions (reachable ts m0 ms mt))
        = t_id ` set ts - {i. \<exists>m t. net_reach ts m0 m \<and> t \<in> set (net_enabled ts m) \<and> t_id t = i}"
proof -
  let ?w = "walk_from ts ms mt (start_walk m0)"
  have inv: "walk_inv ts m0 ?w" "queue ?w = []" using reachable_walk by auto
  have nc: "\<not> capped ?w" using assms(3) by (simp add: conclusive_def reachable_def Let_def capped_def)
  have c: "canon m \<in> set (seen ?w) \<and> handled ts ?w m" if "net_reach ts m0 m" for m
    using walk_complete [OF assms(1,2) inv nc that] .
  have "set (seen ?w) = canon ` {m. net_reach ts m0 m}"
    using c walk_inv_sound(1) [OF inv] by fastforce
  moreover have "set (dead ?w) = canon ` {m. net_reach ts m0 m \<and> net_enabled ts m = []}"
    using c walk_inv_sound(2) [OF inv] unfolding handled_def by fastforce
  moreover have "set (fired ?w) = {i. \<exists>m t. net_reach ts m0 m \<and> t \<in> set (net_enabled ts m) \<and> t_id t = i}"
  proof
    show "{i. \<exists>m t. net_reach ts m0 m \<and> t \<in> set (net_enabled ts m) \<and> t_id t = i} \<subseteq> set (fired ?w)"
      using c unfolding handled_def by blast
  qed (rule walk_inv_sound(3) [OF inv])
  ultimately show ?thesis by (auto simp: reachable_def Let_def)
qed

text \<open>C6: A conclusive walk of a well-formed net is exact: the markings it records are precisely
  the reachable ones, the dead markings it lists are precisely the reachable deadlocks, and the
  transitions it calls dead are precisely those that no reachable marking enables. So an empty
  list of dead markings establishes deadlock freedom.\<close>

theorem reachable_conclusive_exact:
  assumes "net_ok ts" "dict_ok m0" "conclusive (reachable ts m0 ms mt)"
  shows "set (markings (reachable ts m0 ms mt)) = canon ` {m. net_reach ts m0 m}
     \<and> set (dead_markings (reachable ts m0 ms mt)) = canon ` {m. net_reach ts m0 m \<and> net_enabled ts m = []}
     \<and> set (dead_transitions (reachable ts m0 ms mt))
        = t_id ` set ts - {i. \<exists>m t. net_reach ts m0 m \<and> t \<in> set (net_enabled ts m) \<and> t_id t = i}"
  by (rule reachable_exact [OF assms])

definition two_phase :: net where
  "two_phase = [\<lparr>t_id = ''take'', consume = [(''free'', 1)], produce = [(''held'', 1)], reads = [(''svc'', 1)]\<rparr>,
                \<lparr>t_id = ''drop'', consume = [(''held'', 1), (''svc'', 1)], produce = [(''free'', 1)], reads = []\<rparr>]"

theorem reachable_conclusive_exact_witness:
  "conclusive (reachable two_phase [(''free'', 1), (''svc'', 1)] 10 64)
     \<and> dead_markings (reachable two_phase [(''free'', 1), (''svc'', 1)] 10 64) = [[(''free'', 1)]]
     \<and> canon ` {m. net_reach two_phase [(''free'', 1), (''svc'', 1)] m \<and> net_enabled two_phase m = []} = {[(''free'', 1)]}"
proof -
  have ok: "net_ok two_phase" by (simp add: net_ok_def two_phase_def dict_ok_def)
  have run: "conclusive (reachable two_phase [(''free'', 1), (''svc'', 1)] 10 64)
     \<and> dead_markings (reachable two_phase [(''free'', 1), (''svc'', 1)] 10 64) = [[(''free'', 1)]]"
    by code_simp
  then show ?thesis
    using reachable_conclusive_exact [OF ok, of "[(''free'', 1), (''svc'', 1)]" 10 64] by (simp add: dict_ok_def)
qed

end
