(* ===== verification/Petri_Semiflow.thy ===== *)
theory Petri_Semiflow
  imports Petri_Walk
begin

section \<open>Semiflows are conserved, and covered places are bounded\<close>

text \<open>
  The signed elimination keeps every row the product of its place vector with the incidence
  matrix, zero on the columns already processed.  What survives is conserved by every firing,
  which bounds each place it covers.
\<close>

definition delta :: "transition \<Rightarrow> string \<Rightarrow> int" where
  "delta t p = dict_get (produce t) p 0 - dict_get (consume t) p 0"

definition weight_over :: "string set \<Rightarrow> (string, int) pydict \<Rightarrow> (string \<Rightarrow> int) \<Rightarrow> int" where
  "weight_over P b f = (\<Sum>p\<in>P. dict_get b p 0 * f p)"

lemma weight_over_linear:
  assumes "\<forall>p \<in> P. dict_get b p 0 = w1 * dict_get b1 p 0 + w2 * dict_get b2 p 0"
  shows "weight_over P b f = w1 * weight_over P b1 f + w2 * weight_over P b2 f"
  using assms by (simp add: weight_over_def sum.distrib sum_distrib_left algebra_simps)

lemma combine_ok: "dict_ok (combine r1 w1 r2 w2)"
  unfolding combine_def by (rule dict_ok_filter) (simp add: dict_ok_def comp_def)

lemma dict_get_map_keys:
  "dict_get (map (\<lambda>k. (k, f k)) ks) k 0 = (if k \<in> set ks then f k else (0::int))"
  by (auto simp: dict_get_def map_of_map_restrict restrict_map_def)

lemma dict_get_notin: "k \<notin> fst ` set d \<Longrightarrow> dict_get d k v = v"
  by (simp add: dict_get_def map_of_eq_None_iff [THEN iffD2])

lemma combine_get [simp]:
  "dict_get (combine r1 w1 r2 w2) k 0 = w1 * dict_get r1 k 0 + w2 * dict_get r2 k 0"
proof -
  let ?m = "map (\<lambda>k. (k, w1 * dict_get r1 k 0 + w2 * dict_get r2 k 0)) (remdups (map fst r1 @ map fst r2))"
  have "dict_ok ?m" by (simp add: dict_ok_def comp_def)
  then have "dict_get (combine r1 w1 r2 w2) k 0 = dict_get ?m k 0"
    unfolding combine_def by (rule dict_get_filter)
  then show ?thesis by (simp only: dict_get_map_keys) (auto simp: dict_get_notin)
qed

lemma combine_keys: "fst ` set (combine r1 w1 r2 w2) \<subseteq> fst ` set r1 \<union> fst ` set r2"
  by (force simp: combine_def)

lemma dict_get_delete [simp]: "dict_get (AList.delete k a) k' 0 = (if k' = k then 0 else dict_get a k' (0::int))"
  by (simp add: dict_get_def delete_conv')

subsection \<open>Dividing a row by its greatest common divisor\<close>

lemma fold_gcd_dvd: "fold (\<lambda>v g. gcd g v) vs g dvd g \<and> (\<forall>v \<in> set vs. fold (\<lambda>v g. gcd g v) vs g dvd (v::int))"
proof (induction vs arbitrary: g)
  case (Cons v vs)
  show ?case using Cons [of "gcd g v"] by (auto intro: dvd_trans)
qed simp

lemma gcd_values_dvd: "gcd_values r dvd dict_get r p 0"
proof (cases "dict_get r p 0 = 0")
  case False
  then have "(p, dict_get r p 0) \<in> set r" by (rule dict_get_nonzero)
  then have "\<bar>dict_get r p 0\<bar> \<in> set (map (\<lambda>(k, v). \<bar>v\<bar>) (filter (\<lambda>(k, v). v \<noteq> 0) r))"
    using False by force
  then show ?thesis unfolding gcd_values_def using fold_gcd_dvd by (metis dvd_abs_iff)
qed simp

lemma divide_values_get: "dict_ok r \<Longrightarrow> dict_get (divide_values g r) p 0 = dict_get r p 0 div g"
proof -
  assume ok: "dict_ok r"
  have "map_of (map (\<lambda>(k, v). (k, v div g)) xs) p = map_option (\<lambda>v. v div g) (map_of xs p)" for xs
    by (induction xs) auto
  then have "dict_get (divide_values g r) p 0 = dict_get (filter (\<lambda>(k, v). v \<noteq> 0) r) p 0 div g"
    by (simp add: divide_values_def dict_get_def split: option.splits)
  then show ?thesis using ok by (simp add: dict_get_filter)
qed

lemma divide_values_ok: "dict_ok r \<Longrightarrow> dict_ok (divide_values g r)"
  by (simp add: divide_values_def dict_ok_def distinct_map_filter comp_def case_prod_beta)

lemma divide_values_keys: "fst ` set (divide_values g r) \<subseteq> fst ` set r"
  by (force simp: divide_values_def)

lemma weight_over_divide:
  assumes "dict_ok b" "\<forall>p. g dvd dict_get b p 0" "1 < g"
  shows "weight_over P (divide_values g b) f * g = weight_over P b f"
proof -
  have "dict_get b p 0 div g * f p * g = dict_get b p 0 * f p" for p
    using assms(2) by (metis dvd_div_mult_self mult.assoc mult.commute)
  then show ?thesis by (simp only: weight_over_def divide_values_get [OF assms(1)] sum_distrib_right)
qed

subsection \<open>The invariant of the elimination\<close>

definition row_inv :: "net \<Rightarrow> string set \<Rightarrow> string set \<Rightarrow> row \<Rightarrow> bool" where
  "row_inv ts P gone r \<longleftrightarrow> dict_ok (fst r) \<and> dict_ok (snd r) \<and> fst ` set (snd r) \<subseteq> P
     \<and> (\<forall>t \<in> set ts. dict_get (fst r) (t_id t) 0 = weight_over P (snd r) (delta t))
     \<and> (\<forall>i \<in> gone. dict_get (fst r) i 0 = 0)"

lemma row_inv_combine:
  assumes r1: "row_inv ts P gone (a1, b1)" and r2: "row_inv ts P gone (a2, b2)"
    and zero: "c1 * dict_get a1 i 0 + c2 * dict_get a2 i 0 = 0"
  shows "row_inv ts P (insert i gone) (AList.delete i (combine a1 c1 a2 c2), combine b1 c1 b2 c2)"
proof -
  have "weight_over P (combine b1 c1 b2 c2) f = c1 * weight_over P b1 f + c2 * weight_over P b2 f" for f
    by (rule weight_over_linear) simp
  then have w: "weight_over P (combine b1 c1 b2 c2) (delta t) = c1 * dict_get a1 (t_id t) 0 + c2 * dict_get a2 (t_id t) 0"
    if "t \<in> set ts" for t
    using that r1 r2 by (simp add: row_inv_def)
  then have "\<forall>t \<in> set ts. dict_get (AList.delete i (combine a1 c1 a2 c2)) (t_id t) 0 = weight_over P (combine b1 c1 b2 c2) (delta t)"
    using zero by simp
  moreover have "fst ` set (combine b1 c1 b2 c2) \<subseteq> P"
    using r1 r2 by (intro subset_trans [OF combine_keys Un_least]) (simp_all add: row_inv_def)
  moreover have "\<forall>j \<in> insert i gone. dict_get (AList.delete i (combine a1 c1 a2 c2)) j 0 = 0"
    using r1 r2 by (auto simp: row_inv_def)
  ultimately show ?thesis by (simp add: row_inv_def combine_ok)
qed

lemma row_inv_normalize:
  assumes r: "row_inv ts P gone r"
  shows "row_inv ts P gone (normalize_pair r)"
proof (cases "filter (\<lambda>(k, v). v \<noteq> 0) (snd r) = [] \<or> gcd_values (snd r) \<le> 1")
  case True
  then show ?thesis using r by (auto simp: normalize_pair_def)
next
  case False
  let ?g = "gcd_values (snd r)"
  have ok: "dict_ok (fst r)" "dict_ok (snd r)" and g: "1 < ?g" using r False by (auto simp: row_inv_def)
  have n: "normalize_pair r = (divide_values ?g (fst r), divide_values ?g (snd r))"
    using False by (simp add: normalize_pair_def Let_def)
  have "dict_get (fst r) (t_id t) 0 div ?g = weight_over P (divide_values ?g (snd r)) (delta t)" if t: "t \<in> set ts" for t
  proof -
    have "dict_get (fst r) (t_id t) 0 = weight_over P (divide_values ?g (snd r)) (delta t) * ?g"
      using weight_over_divide [OF ok(2) _ g, of P "delta t"] gcd_values_dvd t r by (simp add: row_inv_def)
    then show ?thesis using g by simp
  qed
  then show ?thesis
    using r divide_values_keys [of ?g "snd r"] unfolding n row_inv_def
    by (simp add: divide_values_ok divide_values_get) blast
qed

lemma drop_nonminimal_sub: "set (drop_nonminimal rows) \<subseteq> set rows"
proof -
  have "set (fold (\<lambda>r acc. if \<exists>q \<in> set acc. row_support q = row_support r then acc else acc @ [r]) rows acc)
      \<subseteq> set acc \<union> set rows" for acc
    by (induction rows arbitrary: acc) (simp, force split: if_splits)
  from this [of "[]"] show ?thesis by (auto simp: drop_nonminimal_def Let_def)
qed

lemma eliminate_inv:
  assumes "\<forall>r \<in> set rows. row_inv ts P gone r"
  shows "\<forall>r \<in> set (eliminate i rows). row_inv ts P (insert i gone) r"
proof
  fix r assume "r \<in> set (eliminate i rows)"
  then have "r \<in> set (filter (\<lambda>(a, b). dict_get a i 0 = 0) rows) \<or>
     (\<exists>a1 b1 a2 b2. (a1, b1) \<in> set rows \<and> dict_get a1 i 0 > 0 \<and> (a2, b2) \<in> set rows \<and> dict_get a2 i 0 < 0 \<and>
        r = normalize_pair (AList.delete i (combine a1 \<bar>dict_get a2 i 0\<bar> a2 \<bar>dict_get a1 i 0\<bar>),
              combine b1 \<bar>dict_get a2 i 0\<bar> b2 \<bar>dict_get a1 i 0\<bar>))"
    using drop_nonminimal_sub unfolding eliminate_def Let_def by fastforce
  then show "row_inv ts P (insert i gone) r"
  proof (elim disjE exE conjE)
    assume "r \<in> set (filter (\<lambda>(a, b). dict_get a i 0 = 0) rows)"
    then show ?thesis using assms by (auto simp: row_inv_def)
  next
    fix a1 b1 a2 b2
    assume "(a1, b1) \<in> set rows" "dict_get a1 i 0 > 0" "(a2, b2) \<in> set rows" "dict_get a2 i 0 < 0"
      "r = normalize_pair (AList.delete i (combine a1 \<bar>dict_get a2 i 0\<bar> a2 \<bar>dict_get a1 i 0\<bar>),
              combine b1 \<bar>dict_get a2 i 0\<bar> b2 \<bar>dict_get a1 i 0\<bar>)"
    then show ?thesis using assms by (simp add: row_inv_normalize row_inv_combine)
  qed
qed

lemma eliminate_fold_inv:
  "\<forall>r \<in> set rows. row_inv ts P gone r \<Longrightarrow>
     \<forall>r \<in> set (fold (\<lambda>t. eliminate (t_id t)) us rows). row_inv ts P (gone \<union> t_id ` set us) r"
proof (induction us arbitrary: rows gone)
  case (Cons u us)
  show ?case using Cons.IH [OF eliminate_inv [OF Cons.prems]] by simp
qed simp

lemma incidence_row_step:
  "dict_get (fold (\<lambda>t row. let d = dict_get (produce t) p 0 - dict_get (consume t) p 0
      in if d \<noteq> 0 then AList.update (t_id t) d row else row) us row) i 0
     = (if i \<in> t_id ` set us then dict_get (fold (\<lambda>t row. let d = dict_get (produce t) p 0 - dict_get (consume t) p 0
      in if d \<noteq> 0 then AList.update (t_id t) d row else row) us row) i 0 else dict_get row i (0::int))"
  by (induction us arbitrary: row) (simp_all add: Let_def)

lemma incidence_row_get:
  assumes "distinct (map t_id ts)" "t \<in> set ts"
  shows "dict_get (incidence_row ts p) (t_id t) 0 = delta t p"
proof -
  let ?F = "\<lambda>t row. let d = dict_get (produce t) p 0 - dict_get (consume t) p 0
         in if d \<noteq> 0 then AList.update (t_id t) d row else row"
  have "distinct (map t_id us) \<Longrightarrow> t \<in> set us \<Longrightarrow> dict_get row (t_id t) 0 = 0 \<Longrightarrow>
      dict_get (fold ?F us row) (t_id t) 0 = delta t p" for us row
  proof (induction us arbitrary: row)
    case (Cons u us)
    show ?case
    proof (cases "t = u")
      case True
      then have "t_id t \<notin> t_id ` set us" using Cons.prems by simp
      then show ?thesis
        using True Cons.prems(3) incidence_row_step [of p us "?F u row" "t_id t"] by (simp add: Let_def delta_def)
    next
      case False
      then have "t \<in> set us" "t_id u \<notin> t_id ` set us" using Cons.prems by auto
      then have "t_id t \<noteq> t_id u" "t \<in> set us" by (metis image_eqI)+
      then show ?thesis using Cons by (simp add: Let_def)
    qed
  qed simp
  then show ?thesis using assms by (simp add: incidence_row_def dict_get_def)
qed

lemma dict_of_keys_get:
  "dict_get (dict_of (map (\<lambda>t. (t_id t, g (t_id t))) us)) i 0 = (if i \<in> t_id ` set us then g i else (0::int))"
proof -
  have "rev (map (\<lambda>t. (t_id t, g (t_id t))) us) = map (\<lambda>k. (k, g k)) (rev (map t_id us))"
    by (simp add: rev_map)
  then show ?thesis
    by (simp add: dict_get_def map_of_dict_of map_of_map_restrict restrict_map_def)
qed

lemma initial_rows_inv:
  assumes "distinct (map t_id ts)"
  shows "\<forall>r \<in> set (initial_rows ts order). row_inv ts (set order) {} r"
proof
  fix r assume "r \<in> set (initial_rows ts order)"
  then obtain p where p: "p \<in> set order" and r: "r = (dict_of (map (\<lambda>t. (t_id t, dict_get (incidence_row ts p) (t_id t) 0))
     (filter (\<lambda>t. dict_get (incidence_row ts p) (t_id t) 0 \<noteq> 0) ts)), [(p, 1)])"
    by (auto simp: initial_rows_def)
  have "weight_over (set order) [(p, 1)] f = f p" for f
  proof -
    have "weight_over (set order) [(p, 1)] f = (\<Sum>q\<in>set order. if q = p then f q else 0)"
      unfolding weight_over_def by (rule sum.cong) (auto simp: dict_get_def)
    then show ?thesis using p by simp
  qed
  moreover have "dict_get (fst r) (t_id t) 0 = delta t p" if t: "t \<in> set ts" for t
  proof -
    have "dict_get (fst r) (t_id t) 0 = dict_get (incidence_row ts p) (t_id t) 0"
      using t unfolding r fst_conv dict_of_keys_get [where g = "\<lambda>i. dict_get (incidence_row ts p) i 0"] by auto
    then show ?thesis using incidence_row_get [OF assms t] by simp
  qed
  ultimately show "row_inv ts (set order) {} r"
    using p by (simp add: row_inv_def r dict_of_ok) (simp add: dict_ok_def)
qed

text \<open>A conserved place vector: positive weights on places of the order, and no firing changes the sum.\<close>

definition semiflow :: "net \<Rightarrow> string set \<Rightarrow> (string, int) pydict \<Rightarrow> bool" where
  "semiflow ts P y \<longleftrightarrow> dict_ok y \<and> fst ` set y \<subseteq> P \<and> (\<forall>(p, v) \<in> set y. 0 < v)
     \<and> (\<forall>t \<in> set ts. weight_over P y (delta t) = 0)"

lemma dedupe_sub: "set (dedupe ys) \<subseteq> normalize_row ` set ys"
proof -
  have "set (fst (fold (\<lambda>y (out, keys). let key = sort_key fst (normalize_row y) in
       if key \<noteq> [] \<and> key \<notin> set keys then (normalize_row y # out, key # keys) else (out, keys)) ys (out, keys)))
      \<subseteq> set out \<union> normalize_row ` set ys" for out keys
  proof (induction ys arbitrary: out keys)
    case (Cons y ys)
    show ?case
      using Cons [of "normalize_row y # out" "sort_key fst (normalize_row y) # keys"] Cons [of out keys] by (auto simp: Let_def)
  qed simp
  from this [of "[]" "[]"] show ?thesis by (simp add: dedupe_def)
qed

lemma gcd_values_pos: "r \<noteq> [] \<Longrightarrow> \<forall>(p, v) \<in> set r. 0 < v \<Longrightarrow> (p, v) \<in> set r \<Longrightarrow> dict_ok r \<Longrightarrow> gcd_values r dvd v"
  using gcd_values_dvd [of r p] dict_get_in [of r p v 0] by simp

lemma semiflow_normalize:
  assumes y: "semiflow ts P y"
  shows "semiflow ts P (normalize_row y)"
proof (cases "filter (\<lambda>(k, v). v \<noteq> 0) y = [] \<or> gcd_values y \<le> 1")
  case True
  then have "normalize_row y = [] \<or> normalize_row y = y" by (auto simp: normalize_row_def Let_def)
  moreover have "semiflow ts P []" by (simp add: semiflow_def weight_over_def dict_get_def)
  ultimately show ?thesis using y by metis
next
  case False
  let ?g = "gcd_values y"
  have ok: "dict_ok y" and g: "1 < ?g" and n: "normalize_row y = divide_values ?g y"
    using y False by (auto simp: semiflow_def normalize_row_def Let_def)
  have "weight_over P (divide_values ?g y) (delta t) = 0" if "t \<in> set ts" for t
    using weight_over_divide [OF ok _ g, of P "delta t"] gcd_values_dvd that y g by (simp add: semiflow_def)
  moreover have "0 < v div ?g" if v: "(p, v) \<in> set y" for p v
  proof -
    have "?g dvd v" using gcd_values_dvd [of y p] dict_get_in [OF ok v, of 0] by simp
    moreover have "0 < v" using y v by (auto simp: semiflow_def)
    ultimately show ?thesis using g by (metis zdvd_imp_le pos_imp_zdiv_pos_iff order_less_trans zero_less_one)
  qed
  then have "\<forall>(p, v) \<in> set (divide_values ?g y). 0 < v" by (auto simp: divide_values_def)
  moreover have "fst ` set (divide_values ?g y) \<subseteq> P"
    using divide_values_keys y unfolding semiflow_def by (metis subset_trans)
  ultimately show ?thesis unfolding n semiflow_def by (simp add: divide_values_ok ok)
qed

lemma p_semiflows_semiflow:
  assumes "distinct (map t_id ts)" "y \<in> set (p_semiflows ts order)"
  shows "semiflow ts (set order) y"
proof -
  let ?rows = "fold (\<lambda>t. eliminate (t_id t)) ts (initial_rows ts order)"
  have inv: "\<forall>r \<in> set ?rows. row_inv ts (set order) (t_id ` set ts) r"
    using eliminate_fold_inv [OF initial_rows_inv [OF assms(1)]] by simp
  obtain r where r: "r \<in> set ?rows" "list_all (\<lambda>(k, v). v > 0) (snd r)" "y = normalize_row (snd r)"
    using assms(2) dedupe_sub unfolding p_semiflows_def Let_def by fastforce
  have "semiflow ts (set order) (snd r)"
    using inv r(1,2) by (force simp: row_inv_def semiflow_def list_all_iff)
  then show ?thesis unfolding r(3) by (rule semiflow_normalize)
qed

end
