(* ===== verification/Petri_Bounds.thy ===== *)
theory Petri_Bounds
  imports Petri_Semiflow
begin

section \<open>What a semiflow guarantees of every reachable marking\<close>

text \<open>
  The weighted token sum of a semiflow never changes; a covered place is bounded by it; and a
  structurally bounded net has a finite marking graph, which a walk with large enough caps
  explores in full.
\<close>

definition token_sum :: "(string, int) pydict \<Rightarrow> marking \<Rightarrow> int" where
  "token_sum y m = sum_list (map (\<lambda>(p, v). v * dict_get m p 0) y)"

lemma token_sum_over:
  assumes "dict_ok y" "fst ` set y \<subseteq> P" "finite P"
  shows "token_sum y m = weight_over P y (\<lambda>p. dict_get m p 0)"
proof -
  have ok: "distinct y" "inj_on fst (set y)"
    using assms(1) by (auto simp: dict_ok_def distinct_map)
  have "token_sum y m = (\<Sum>x\<in>set y. snd x * dict_get m (fst x) 0)"
    using ok by (simp add: token_sum_def sum_list_distinct_conv_sum_set case_prod_beta)
  also have "\<dots> = (\<Sum>x\<in>set y. dict_get y (fst x) 0 * dict_get m (fst x) 0)"
    by (rule sum.cong) (auto simp: dict_get_in [OF assms(1)])
  also have "\<dots> = (\<Sum>p\<in>fst ` set y. dict_get y p 0 * dict_get m p 0)"
    using ok(2) by (simp add: sum.reindex)
  also have "\<dots> = weight_over P y (\<lambda>p. dict_get m p 0)"
    unfolding weight_over_def using assms(2,3) by (intro sum.mono_neutral_left) (auto simp: dict_get_notin)
  finally show ?thesis .
qed

lemma net_okD: "net_ok ts \<Longrightarrow> t \<in> set ts \<Longrightarrow> dict_ok (consume t) \<and> dict_ok (produce t)"
  "net_ok ts \<Longrightarrow> distinct (map t_id ts)"
  "net_ok ts \<Longrightarrow> t \<in> set ts \<Longrightarrow> (p, w) \<in> set (consume t) \<union> set (produce t) \<Longrightarrow> 0 < w"
  by (auto simp: net_ok_def)

lemma token_sum_fire:
  assumes "net_ok ts" "t \<in> set ts" "dict_ok m" "semiflow ts (set order) y"
  shows "token_sum y (fire t m) = token_sum y m"
proof -
  have "dict_get (fire t m) p 0 = dict_get m p 0 + delta t p" for p
    using fire_get assms(3) net_okD(1) [OF assms(1,2)] by (simp add: delta_def)
  then have "weight_over (set order) y (\<lambda>p. dict_get (fire t m) p 0)
      = weight_over (set order) y (\<lambda>p. dict_get m p 0) + weight_over (set order) y (delta t)"
    by (simp add: weight_over_def sum.distrib distrib_left)
  then show ?thesis
    using assms(2,4) by (simp add: semiflow_def token_sum_over [where P = "set order"])
qed

lemma net_reach_token_sum:
  assumes "net_ok ts" "dict_ok m0" "semiflow ts (set order) y"
  shows "net_reach ts m0 m \<Longrightarrow> token_sum y m = token_sum y m0"
proof (induction rule: net_reach.induct)
  case (net_next m m')
  then show ?case
    using token_sum_fire [OF assms(1) _ net_reach_ok assms(3)] assms(2) by (auto elim!: net_stepE)
qed simp

lemma dict_get_nonneg: "dict_ok d \<Longrightarrow> \<forall>(p, w) \<in> set d. 0 < w \<Longrightarrow> 0 \<le> dict_get d p (0::int)"
  using dict_get_nonzero [of d p] by (cases "dict_get d p 0 = 0") auto

lemma enabled_covers:
  assumes "t_enabled t m" "\<forall>p. 0 \<le> dict_get m p 0"
  shows "dict_get (consume t) p 0 \<le> dict_get m p 0"
proof (cases "dict_get (consume t) p 0 = 0")
  case False
  then show ?thesis
    using assms(1) dict_get_nonzero [of "consume t" p]
    unfolding t_enabled_def list_ex_iff by (fastforce split: if_splits)
qed (simp add: assms(2))

lemma net_reach_nonneg:
  assumes "net_ok ts" "dict_ok m0" "\<forall>p. 0 \<le> dict_get m0 p 0"
  shows "net_reach ts m0 m \<Longrightarrow> \<forall>p. 0 \<le> dict_get m p 0"
proof (induction rule: net_reach.induct)
  case (net_next m m')
  obtain t where t: "t \<in> set ts" "t_enabled t m" "m' = fire t m" using net_next.hyps(2) by (elim net_stepE) auto
  have "0 \<le> dict_get (produce t) p 0" for p
    using assms(1) t(1) by (intro dict_get_nonneg) (auto simp: net_ok_def)
  then show ?case
    using enabled_covers [OF t(2) net_next.IH] fire_get [OF net_reach_ok [OF net_next.hyps(1) assms(2)]]
      net_okD(1) [OF assms(1) t(1)] t(3) by (simp add: add_increasing2)
qed (simp add: assms(3))

lemma token_sum_place:
  assumes "semiflow ts P y" "\<forall>p. 0 \<le> dict_get m p 0"
  shows "dict_get y p 0 * dict_get m p 0 \<le> token_sum y m"
proof -
  have pos: "0 \<le> v * dict_get m q 0" if "(q, v) \<in> set y" for q v
    using that assms by (force simp: semiflow_def)
  have ok: "dict_ok y" using assms(1) by (simp add: semiflow_def)
  show ?thesis
  proof (cases "dict_get y p 0 = 0")
    case True
    then show ?thesis using pos by (auto simp: token_sum_def intro!: sum_list_nonneg)
  next
    case False
    then have "dict_get y p 0 * dict_get m p 0 \<in> set (map (\<lambda>(p, v). v * dict_get m p 0) y)"
      using dict_get_nonzero by force
    then show ?thesis unfolding token_sum_def by (rule member_le_sum_list) (auto simp: pos)
  qed
qed

text \<open>C7: Every P-semiflow the engine returns is an invariant of the net: it has positive weights
  on places of the order, and its weighted token sum is the same in every reachable marking,
  whatever the order of the firings.\<close>

theorem p_semiflows_conserved:
  assumes "net_ok ts" "dict_ok m0" "y \<in> set (p_semiflows ts order)" "net_reach ts m0 m"
  shows "token_sum y m = token_sum y m0 \<and> (\<forall>(p, v) \<in> set y. p \<in> set order \<and> 0 < v)"
proof -
  have y: "semiflow ts (set order) y" by (rule p_semiflows_semiflow [OF net_okD(2) [OF assms(1)] assms(3)])
  then show ?thesis using net_reach_token_sum [OF assms(1,2) y assms(4)] by (force simp: semiflow_def)
qed

definition mutex_net :: net where
  "mutex_net = [\<lparr>t_id = ''a_in'', consume = [(''a_idle'', 1), (''lock'', 2)], produce = [(''a_crit'', 1)], reads = []\<rparr>,
                \<lparr>t_id = ''a_out'', consume = [(''a_crit'', 1)], produce = [(''a_idle'', 1), (''lock'', 2)], reads = []\<rparr>]"

definition mutex_order :: "string list" where "mutex_order = [''a_crit'', ''a_idle'', ''lock'']"

definition mutex_start :: marking where "mutex_start = [(''a_idle'', 1), (''lock'', 2)]"

lemma mutex_ok: "net_ok mutex_net" "dict_ok mutex_start"
  by (simp_all add: net_ok_def mutex_net_def mutex_start_def dict_ok_def)

lemma mutex_reach: "net_reach mutex_net mutex_start [(''a_crit'', 1)]"
proof -
  have "net_step mutex_net mutex_start (fire (hd mutex_net) mutex_start)"
    by (rule net_step) (simp add: mutex_net_def, code_simp)
  moreover have "fire (hd mutex_net) mutex_start = [(''a_crit'', 1)]" by code_simp
  ultimately show ?thesis using net_next net_init by metis
qed

theorem p_semiflows_conserved_witness:
  "map (\<lambda>y. (y, token_sum y [(''a_crit'', 1)])) (p_semiflows mutex_net mutex_order)
     = [([(''a_crit'', 1), (''a_idle'', 1)], 1), ([(''a_crit'', 2), (''lock'', 1)], 2)]
     \<and> token_sum [(''a_crit'', 2), (''lock'', 1)] [(''a_crit'', 1)] = token_sum [(''a_crit'', 2), (''lock'', 1)] mutex_start"
proof -
  have "p_semiflows mutex_net mutex_order = [[(''a_crit'', 1), (''a_idle'', 1)], [(''a_crit'', 2), (''lock'', 1)]]"
    by code_simp
  then show ?thesis
    using p_semiflows_conserved [OF mutex_ok _ mutex_reach, of "[(''a_crit'', 2), (''lock'', 1)]" mutex_order]
    by (simp add: token_sum_def dict_get_def)
qed

lemma semiflow_place_bound:
  assumes "net_ok ts" "dict_ok m0" "\<forall>p. 0 \<le> dict_get m0 p 0" "semiflow ts (set order) y" "0 < dict_get y p 0" "net_reach ts m0 m"
  shows "dict_get m p 0 \<le> token_sum y m0"
proof -
  have m: "\<forall>p. 0 \<le> dict_get m p 0" by (rule net_reach_nonneg [OF assms(1-3,6)])
  have "dict_get m p 0 \<le> dict_get y p 0 * dict_get m p 0"
    using m assms(5) mult_right_mono [of 1 "dict_get y p 0" "dict_get m p 0"] by simp
  then show ?thesis
    using token_sum_place [OF assms(4) m, of p] net_reach_token_sum [OF assms(1,2,4,6)] by simp
qed

lemma covered_bound:
  assumes "net_ok ts" "dict_ok m0" "\<forall>p. 0 \<le> dict_get m0 p 0" "p \<in> covered_places ts order"
  shows "\<exists>K. \<forall>m. net_reach ts m0 m \<longrightarrow> dict_get m p 0 \<le> K"
proof -
  obtain y w where y: "y \<in> set (p_semiflows ts order)" "(p, w) \<in> set y" "0 < w"
    using assms(4) by (auto simp: covered_places_def)
  have sf: "semiflow ts (set order) y" by (rule p_semiflows_semiflow [OF net_okD(2) [OF assms(1)] y(1)])
  then have "dict_get y p 0 = w" using y(2) dict_get_in by (auto simp: semiflow_def)
  then show ?thesis using semiflow_place_bound [OF assms(1-3) sf] y(3) by auto
qed

text \<open>A place outside the net keeps its initial count.\<close>

lemma reach_outside:
  assumes "net_ok ts" "dict_ok m0" "p \<notin> net_places ts"
  shows "net_reach ts m0 m \<Longrightarrow> dict_get m p 0 = dict_get m0 p 0"
proof (induction rule: net_reach.induct)
  case (net_next m m')
  obtain t where t: "t \<in> set ts" "m' = fire t m" using net_next.hyps(2) by (elim net_stepE) auto
  then have "dict_get (consume t) p 0 = 0" "dict_get (produce t) p 0 = 0"
    using assms(3) by (auto simp: net_places_def intro!: dict_get_notin)
  then show ?case
    using t net_next.IH fire_get [OF net_reach_ok [OF net_next.hyps(1) assms(2)]] net_okD(1) [OF assms(1) t(1)] by simp
qed simp

lemma net_places_finite: "finite (net_places ts)"
  by (simp add: net_places_def)

lemma structurally_bounded_bound:
  assumes "net_ok ts" "dict_ok m0" "\<forall>p. 0 \<le> dict_get m0 p 0"
    and "structurally_bounded ts order" "net_places ts \<subseteq> set order"
  obtains K where "\<And>m p. net_reach ts m0 m \<Longrightarrow> dict_get m p 0 \<le> K"
proof -
  have "\<forall>p \<in> net_places ts. \<exists>K. \<forall>m. net_reach ts m0 m \<longrightarrow> dict_get m p 0 \<le> K"
    using covered_bound [OF assms(1-3)] assms(4,5) by (fastforce simp: structurally_bounded_def)
  then obtain B where B: "\<And>p m. p \<in> net_places ts \<Longrightarrow> net_reach ts m0 m \<Longrightarrow> dict_get m p 0 \<le> B p" by metis
  let ?V = "B ` net_places ts \<union> snd ` set m0 \<union> {0}"
  have fin: "finite ?V" by (simp add: net_places_finite)
  have "dict_get m p 0 \<le> Max ?V" if m: "net_reach ts m0 m" for m p
  proof (cases "p \<in> net_places ts")
    case True
    then show ?thesis using B [OF True m] fin by (intro Max_ge_iff [THEN iffD2]) auto
  next
    case False
    have "dict_get m0 p 0 \<in> ?V" using dict_get_nonzero [of m0 p] by (cases "dict_get m0 p 0 = 0") force+
    then show ?thesis using reach_outside [OF assms(1,2) False m] fin by (simp add: Max_ge)
  qed
  then show thesis by (rule that)
qed

lemma reach_canon_finite:
  assumes "net_ok ts" "dict_ok m0" "\<forall>p. 0 \<le> dict_get m0 p 0"
    and K: "\<And>m p. net_reach ts m0 m \<Longrightarrow> dict_get m p 0 \<le> K"
  shows "finite (canon ` {m. net_reach ts m0 m})"
proof -
  let ?P = "net_places ts \<union> fst ` set m0"
  have fin: "finite (?P \<times> {0..K})" by (simp add: net_places_finite)
  have "canon m \<in> {xs. set xs \<subseteq> ?P \<times> {0..K} \<and> length xs \<le> card ?P}" if m: "net_reach ts m0 m" for m
  proof -
    have ok: "dict_ok m" by (rule net_reach_ok [OF m assms(2)])
    have sub: "set (canon m) \<subseteq> ?P \<times> {0..K}"
      using reach_outside [OF assms(1,2) _ m] net_reach_nonneg [OF assms(1-3) m] K [OF m]
      by (auto simp: set_canon [OF ok]) (metis dict_get_notin)
    have "distinct (map fst (canon m))" using canon_sorted [OF ok] strict_sorted_iff by blast
    then have "length (canon m) = card (fst ` set (canon m))" by (metis distinct_card length_map set_map)
    also have "\<dots> \<le> card ?P" using sub net_places_finite by (intro card_mono) auto
    finally show ?thesis using sub by simp
  qed
  then show ?thesis using finite_lists_length_le [OF fin] by (auto intro: finite_subset [rotated])
qed

text \<open>The walk's flags: a bound was hit only with the table full, an overflow only on a marking past the cap.\<close>

definition flags_inv :: "net \<Rightarrow> marking \<Rightarrow> nat \<Rightarrow> int \<Rightarrow> walk \<Rightarrow> bool" where
  "flags_inv ts m0 ms mt w \<longleftrightarrow> distinct (seen w) \<and> (bound_hit w \<longrightarrow> ms \<le> length (seen w))
     \<and> (overflow w \<longrightarrow> (\<exists>m p. net_reach ts m0 m \<and> mt < dict_get m p 0))"

lemma flags_visit:
  assumes "dict_ok m0" "net_reach ts m0 m" "t \<in> set (net_enabled ts m)" "flags_inv ts m0 ms mt w"
  shows "flags_inv ts m0 ms mt (visit ms mt m t w)"
proof -
  have r: "net_reach ts m0 (fire t m)" by (rule net_reach_fire [OF assms(2,3)])
  have "\<exists>p. mt < dict_get (fire t m) p 0" if over: "list_ex (\<lambda>(p, n). n > mt) (fire t m)"
  proof -
    obtain p n where "(p, n) \<in> set (fire t m)" "mt < n" using over by (auto simp: list_ex_iff)
    then show ?thesis using dict_get_in [OF net_reach_ok [OF r assms(1)], of p n 0] by auto
  qed
  then show ?thesis using assms(4) r by (auto simp: flags_inv_def visit_def Let_def)
qed

lemma flags_fold:
  "dict_ok m0 \<Longrightarrow> net_reach ts m0 m \<Longrightarrow> set us \<subseteq> set (net_enabled ts m) \<Longrightarrow> flags_inv ts m0 ms mt w
     \<Longrightarrow> flags_inv ts m0 ms mt (fold (visit ms mt m) us w)"
  by (induction us arbitrary: w) (simp_all add: flags_visit)

lemma flags_from:
  "dict_ok m0 \<Longrightarrow> walk_inv ts m0 w \<Longrightarrow> flags_inv ts m0 ms mt w \<Longrightarrow> flags_inv ts m0 ms mt (walk_from ts ms mt w)"
proof (induction ts ms mt w rule: walk_from.induct)
  case (1 ts ms mt w)
  show ?case
  proof (cases "queue w")
    case Nil
    then show ?thesis using 1 by (simp add: walk_from.simps [of ts ms mt w])
  next
    case (Cons m rest)
    have m: "net_reach ts m0 m" using "1.prems"(2) Cons by (auto simp: walk_inv_def)
    have w: "flags_inv ts m0 ms mt (w\<lparr>queue := rest\<rparr>)" using "1.prems"(3) by (simp add: flags_inv_def)
    have "flags_inv ts m0 ms mt (expand ts ms mt m (w\<lparr>queue := rest\<rparr>))"
    proof (cases "net_enabled ts m = []")
      case True
      then show ?thesis using w by (simp add: expand_def flags_inv_def)
    qed (use flags_fold [OF "1.prems"(1) m _ w] in \<open>simp add: expand_def Let_def\<close>)
    then show ?thesis
      using "1.IH" [OF Cons "1.prems"(1) walk_inv_expand [OF "1.prems"(2) Cons]] Cons
      by (simp add: walk_from.simps [of ts ms mt w])
  qed
qed

text \<open>Token counts that stay below a bound make the walk conclusive once its caps are large enough.\<close>

lemma bounded_conclusive:
  assumes "net_ok ts" "dict_ok m0" "\<forall>p. 0 \<le> dict_get m0 p 0"
    and K: "\<And>m p. net_reach ts m0 m \<Longrightarrow> dict_get m p 0 \<le> K"
  shows "\<exists>ms mt. \<forall>ms' mt'. ms \<le> ms' \<and> mt \<le> mt' \<longrightarrow> conclusive (reachable ts m0 ms' mt')"
proof -
  have fin: "finite (canon ` {m. net_reach ts m0 m})" by (rule reach_canon_finite [OF assms(1-3) K])
  have "conclusive (reachable ts m0 ms mt)" if caps: "Suc (card (canon ` {m. net_reach ts m0 m})) \<le> ms" "K \<le> mt" for ms mt
  proof -
    let ?w = "walk_from ts ms mt (start_walk m0)"
    have f: "flags_inv ts m0 ms mt ?w"
      by (rule flags_from [OF assms(2) walk_inv_start]) (simp add: flags_inv_def start_walk_def)
    have "length (seen ?w) = card (set (seen ?w))" using f by (simp add: flags_inv_def distinct_card)
    also have "\<dots> \<le> card (canon ` {m. net_reach ts m0 m})"
      using walk_inv_sound(1) reachable_walk by (intro card_mono [OF fin]) blast
    finally have "\<not> bound_hit ?w" using f caps(1) by (auto simp: flags_inv_def)
    moreover have "\<not> overflow ?w"
    proof
      assume "overflow ?w"
      then obtain m p where "net_reach ts m0 m" "mt < dict_get m p 0" using f by (auto simp: flags_inv_def)
      then show False using K caps(2) by (meson leD order.strict_trans1)
    qed
    ultimately show ?thesis by (simp add: conclusive_def reachable_def Let_def)
  qed
  then show ?thesis by blast
qed

text \<open>A net whose every place is covered by a semiflow has a finite marking graph, so the
  walk is conclusive once its caps are large enough: structural boundedness is what makes the
  liveness verdict obtainable.\<close>

theorem structurally_bounded_conclusive:
  assumes "net_ok ts" "dict_ok m0" "\<forall>p. 0 \<le> dict_get m0 p 0"
    and "structurally_bounded ts order" "net_places ts \<subseteq> set order"
  shows "\<exists>ms mt. \<forall>ms' mt'. ms \<le> ms' \<and> mt \<le> mt' \<longrightarrow> conclusive (reachable ts m0 ms' mt')"
proof -
  obtain K where K: "\<And>m p. net_reach ts m0 m \<Longrightarrow> dict_get m p 0 \<le> K"
    using structurally_bounded_bound [OF assms] by blast
  show ?thesis by (rule bounded_conclusive [OF assms(1-3) K])
qed

theorem structurally_bounded_conclusive_witness:
  "structurally_bounded mutex_net mutex_order \<and> (\<exists>ms mt. conclusive (reachable mutex_net mutex_start ms mt))"
proof -
  have sb: "structurally_bounded mutex_net mutex_order" unfolding structurally_bounded_def covered_places_def by code_simp
  have "\<forall>p. 0 \<le> dict_get mutex_start p 0" by (simp add: mutex_start_def dict_get_def)
  moreover have "net_places mutex_net \<subseteq> set mutex_order" by (simp add: net_places_def mutex_net_def mutex_order_def)
  ultimately show ?thesis using sb structurally_bounded_conclusive [OF mutex_ok] by blast
qed

end
