(* ===== verification/Leases.thy ===== *)
theory Leases
  imports Json_Value
begin

section \<open>The lease book (\<open>src/revl/mcp/leases.py\<close>)\<close>

text \<open>
  An operator-scoped, time-bound claim on a component name.  The book is explicit state: an
  operation takes the book and the clock reading and returns its result, or the exception it
  raises, with the book it leaves behind.  A read prunes first, so it changes the book too.

  A component name reaches the book from a request or a snapshot without a type check, so a
  key is any hashable JSON value.  Clock readings are rationals: rounding is not modelled.
\<close>

datatype key = Null_Key | Num_Key rat | Name string

text \<open>Python orders numbers with numbers and strings with strings; a sort that meets two kinds raises.\<close>

fun same_kind :: "key \<Rightarrow> key \<Rightarrow> bool" where
  "same_kind (Num_Key _) (Num_Key _) = True"
| "same_kind (Name _) (Name _) = True"
| "same_kind _ _ = False"

instantiation key :: linorder
begin

fun less_eq_key :: "key \<Rightarrow> key \<Rightarrow> bool" where
  "less_eq_key Null_Key _ = True"
| "less_eq_key (Num_Key _) Null_Key = False"
| "less_eq_key (Num_Key a) (Num_Key b) = (a \<le> b)"
| "less_eq_key (Num_Key _) (Name _) = True"
| "less_eq_key (Name s) (Name t) = (s \<le> t)"
| "less_eq_key (Name _) _ = False"

definition less_key :: "key \<Rightarrow> key \<Rightarrow> bool" where
  "less_key a b \<longleftrightarrow> a \<le> b \<and> \<not> b \<le> (a::key)"

instance
proof
  fix a b c :: key
  show "a < b \<longleftrightarrow> a \<le> b \<and> \<not> b \<le> a" by (simp add: less_key_def)
  show "a \<le> a" by (cases a) auto
  show "a \<le> b \<Longrightarrow> b \<le> c \<Longrightarrow> a \<le> c" by (cases a; cases b; cases c) auto
  show "a \<le> b \<Longrightarrow> b \<le> a \<Longrightarrow> a = b" by (cases a; cases b) auto
  show "a \<le> b \<or> b \<le> a" by (cases a; cases b) auto
qed

end

definition default_holder :: string where "default_holder = ''operator''"
definition default_ttl :: rat where "default_ttl = 300"
definition max_ttl :: rat where "max_ttl = 86400"

record lease =
  l_component :: key
  l_holder :: string
  l_acquired :: rat
  l_expiry :: rat
  l_verified :: bool

definition lease_active :: "lease \<Rightarrow> rat \<Rightarrow> bool" where
  "lease_active l now \<longleftrightarrow> now < l_expiry l"

definition remaining :: "lease \<Rightarrow> rat \<Rightarrow> rat" where
  "remaining l now = max 0 (l_expiry l - now)"

datatype lease_action = Claim | Renew | Release | Expired

text \<open>A stamped event; its prose is rendered from these fields and the remaining time.\<close>

record lease_event =
  ev_action :: lease_action
  ev_subject :: key
  ev_holder :: string
  ev_expiry :: rat
  ev_at :: rat

record lease_book =
  leases :: "(key, lease) pydict"
  events :: "lease_event list"

definition empty_book :: lease_book where "empty_book = \<lparr>leases = [], events = []\<rparr>"

datatype lease_error =
    Ttl_Not_Positive pyfloat
  | Ttl_Too_Long pyfloat
  | Already_Leased key string rat
  | Nothing_To_Renew key
  | Not_The_Holder key string string
  | Unorderable_Keys

definition stamp :: "lease_action \<Rightarrow> lease \<Rightarrow> rat \<Rightarrow> lease_book \<Rightarrow> lease_book" where
  "stamp a l now b = b\<lparr>events := events b @ [\<lparr>ev_action = a, ev_subject = l_component l,
     ev_holder = l_holder l, ev_expiry = l_expiry l, ev_at = now\<rparr>]\<rparr>"

definition prune :: "rat \<Rightarrow> lease_book \<Rightarrow> lease_book" where
  "prune now b = fold (\<lambda>(name, l) b.
     if \<not> lease_active l now then stamp Expired l now (b\<lparr>leases := AList.delete name (leases b)\<rparr>) else b) (leases b) b"

definition drain_events :: "lease_book \<Rightarrow> lease_event list \<times> lease_book" where
  "drain_events b = (events b, b\<lparr>events := []\<rparr>)"

text \<open>The guards on the span, and the span itself; a NaN is not positive.\<close>

definition check_ttl :: "pyfloat option \<Rightarrow> lease_error + rat" where
  "check_ttl ttl =
     (let ttl = (case ttl of None \<Rightarrow> Fin default_ttl | Some t \<Rightarrow> t) in
      if \<not> fl_less (Fin 0) ttl then Inl (Ttl_Not_Positive ttl)
      else case ttl of
          Fin t \<Rightarrow> if t > max_ttl then Inl (Ttl_Too_Long ttl) else Inr t
        | _ \<Rightarrow> Inl (Ttl_Too_Long ttl))"

definition claim :: "key \<Rightarrow> string \<Rightarrow> pyfloat option \<Rightarrow> rat \<Rightarrow> lease_book \<Rightarrow> (lease_error + lease) \<times> lease_book" where
  "claim c holder ttl now b =
     (case check_ttl ttl of
        Inl e \<Rightarrow> (Inl e, b)
      | Inr t \<Rightarrow>
          (let b = prune now b; current = map_of (leases b) c in
           if \<exists>cur. current = Some cur \<and> l_holder cur \<noteq> holder
           then (Inl (Already_Leased c (l_holder (the current)) (remaining (the current) now)), b)
           else let l = \<lparr>l_component = c, l_holder = holder,
                         l_acquired = (case current of Some cur \<Rightarrow> l_acquired cur | None \<Rightarrow> now),
                         l_expiry = now + t, l_verified = True\<rparr>
             in (Inr l, stamp (if current \<noteq> None then Renew else Claim) l now
                          (b\<lparr>leases := AList.update c l (leases b)\<rparr>))))"

definition renew :: "key \<Rightarrow> string \<Rightarrow> pyfloat option \<Rightarrow> rat \<Rightarrow> lease_book \<Rightarrow> (lease_error + lease) \<times> lease_book" where
  "renew c holder ttl now b =
     (let b = prune now b in
      case map_of (leases b) c of
        None \<Rightarrow> (Inl (Nothing_To_Renew c), b)
      | Some cur \<Rightarrow>
          if l_holder cur \<noteq> holder then (Inl (Not_The_Holder c (l_holder cur) holder), b)
          else claim c holder ttl now b)"

definition release :: "key \<Rightarrow> string \<Rightarrow> rat \<Rightarrow> lease_book \<Rightarrow> (lease_error + bool) \<times> lease_book" where
  "release c holder now b =
     (let b = prune now b in
      case map_of (leases b) c of
        None \<Rightarrow> (Inr False, b)
      | Some cur \<Rightarrow>
          if l_holder cur \<noteq> holder then (Inl (Not_The_Holder c (l_holder cur) holder), b)
          else (Inr True, stamp Release cur now (b\<lparr>leases := AList.delete c (leases b)\<rparr>)))"

text \<open>
  Re-seating a lease read from a snapshot: the elapsed and the NaN expiry are dropped, the rest
  clamped, and the lease is never verified.
\<close>

definition clamp_expiry :: "rat \<Rightarrow> pyfloat \<Rightarrow> rat" where
  "clamp_expiry now e = (case e of Fin e \<Rightarrow> min e (now + max_ttl) | _ \<Rightarrow> now + max_ttl)"

definition reinstate :: "key \<Rightarrow> string \<Rightarrow> pyfloat \<Rightarrow> pyfloat \<Rightarrow> rat \<Rightarrow> lease_book \<Rightarrow> lease option \<times> lease_book" where
  "reinstate c holder acquired expiry now b =
     (if \<not> fl_less (Fin now) expiry then (None, b)
      else let e = clamp_expiry now expiry;
               a = (case acquired of Fin a \<Rightarrow> if 0 \<le> a \<and> a \<le> e then a else now | _ \<Rightarrow> now);
               l = \<lparr>l_component = c, l_holder = holder, l_acquired = a, l_expiry = e, l_verified = False\<rparr>
        in (Some l, b\<lparr>leases := AList.update c l (leases b)\<rparr>))"


subsection \<open>Reads\<close>

fun all_same_kind :: "key list \<Rightarrow> bool" where
  "all_same_kind (k # ks) = (list_all (same_kind k) ks \<and> all_same_kind ks)"
| "all_same_kind [] = True"

definition active :: "rat \<Rightarrow> lease_book \<Rightarrow> (lease_error + lease list) \<times> lease_book" where
  "active now b =
     (let b = prune now b; ls = map snd (leases b) in
      if all_same_kind (map l_component ls) then (Inr (sort_key l_component ls), b) else (Inl Unorderable_Keys, b))"

definition holder_of :: "key \<Rightarrow> rat \<Rightarrow> lease_book \<Rightarrow> string option \<times> lease_book" where
  "holder_of c now b = (let b = prune now b in (map_option l_holder (map_of (leases b) c), b))"


subsection \<open>The advice and the enforcement\<close>

record session =
  s_token :: "string option"
  s_enforced :: bool
  s_book :: lease_book

definition holder_identity :: "session \<Rightarrow> string" where
  "holder_identity s = (case s_token s of Some t \<Rightarrow> if t = [] then default_holder else t | None \<Rightarrow> default_holder)"

text \<open>The exemption of a lease's own holder, granted to a claim this book minted only.\<close>

definition exempt :: "lease \<Rightarrow> string \<Rightarrow> bool" where
  "exempt l me \<longleftrightarrow> l_holder l = me \<and> l_verified l"

definition live_map :: "lease list \<Rightarrow> (key, lease) pydict" where
  "live_map ls = dict_of (map (\<lambda>l. (l_component l, l)) ls)"

text \<open>A warning names the lease, the time left, and whether it came back from a snapshot naming the reader.\<close>

definition advise :: "session \<Rightarrow> key list option \<Rightarrow> rat \<Rightarrow> (lease_error + (lease \<times> rat \<times> bool) list) \<times> session" where
  "advise s targets now =
     (case targets of
        None \<Rightarrow> (Inr [], s)
      | Some ts \<Rightarrow>
          if ts = [] then (Inr [], s)
          else let me = holder_identity s; (r, b) = active now (s_book s); s = s\<lparr>s_book := b\<rparr>
            in case r of
                 Inl e \<Rightarrow> (Inl e, s)
               | Inr ls \<Rightarrow> (Inr (concat (map (\<lambda>name. case map_of (live_map ls) name of
                     None \<Rightarrow> []
                   | Some l \<Rightarrow> if exempt l me then [] else [(l, remaining l now, \<not> l_verified l \<and> l_holder l = me)]) ts)), s))"

definition fenced :: "string list" where
  "fenced = [''swap'', ''unload'', ''commit'', ''abort'', ''load'', ''restore'']"

text \<open>The message of a refusal says which of the two cases it is; the rest of it names these fields.\<close>

record refusal =
  r_holder :: string
  r_component :: key
  r_held_by :: string
  r_expiry :: rat
  r_from_snapshot :: bool
  r_verb :: string

definition refuse :: "string \<Rightarrow> lease \<Rightarrow> string \<Rightarrow> refusal" where
  "refuse me l verb = \<lparr>r_holder = me, r_component = l_component l, r_held_by = l_holder l,
     r_expiry = l_expiry l, r_from_snapshot = (l_holder l = me), r_verb = verb\<rparr>"

datatype check_error = No_Rule string | Book_Error lease_error

fun first_fence :: "(key, lease) pydict \<Rightarrow> string \<Rightarrow> key list \<Rightarrow> lease option" where
  "first_fence live me [] = None"
| "first_fence live me (name # names) = (case map_of live name of
     Some l \<Rightarrow> if exempt l me then first_fence live me names else Some l
   | None \<Rightarrow> first_fence live me names)"

text \<open>The targets are the result of the derivation, \<^term>\<open>None\<close> when it is undecidable or raised.\<close>

definition check :: "session \<Rightarrow> string \<Rightarrow> key list option \<Rightarrow> rat \<Rightarrow> (check_error + refusal option) \<times> session" where
  "check s verb targets now =
     (if verb \<notin> set fenced then (Inl (No_Rule verb), s)
      else if \<not> s_enforced s then (Inr None, s)
      else let me = holder_identity s; (r, b) = active now (s_book s); s = s\<lparr>s_book := b\<rparr>
        in case r of
             Inl e \<Rightarrow> (Inl (Book_Error e), s)
           | Inr ls \<Rightarrow> (case targets of
                 None \<Rightarrow> (Inr (map_option (\<lambda>l. refuse me l verb) (find (\<lambda>l. \<not> exempt l me) ls)), s)
               | Some ts \<Rightarrow> (Inr (map_option (\<lambda>l. refuse me l verb) (first_fence (live_map ls) me ts)), s)))"

end
