(* ===== verification/Guarded_System.thy ===== *)
theory Guarded_System
  imports Main
begin

section \<open>Operations on a state, and what a run of them keeps\<close>

text \<open>
  The interface shared by the stateful components: a step function on an explicit state, a guard
  on the operations of a run, and an invariant that every guarded step keeps.
\<close>

locale guarded_system =
  fixes step :: "'op \<Rightarrow> 's \<Rightarrow> 's"
    and guard :: "'op \<Rightarrow> bool"
    and inv :: "'s \<Rightarrow> bool"
  assumes step_inv: "guard x \<Longrightarrow> inv s \<Longrightarrow> inv (step x s)"
begin

lemma run_inv: "list_all guard xs \<Longrightarrow> inv s \<Longrightarrow> inv (fold step xs s)"
  by (induction xs arbitrary: s) (auto intro: step_inv)

lemma run_prefix_inv: "list_all guard xs \<Longrightarrow> inv s \<Longrightarrow> inv (fold step (take n xs) s)"
  by (rule run_inv) (auto simp: list_all_iff dest: in_set_takeD)

end

end
