(* ===== verification/Lease_Properties.thy ===== *)
theory Lease_Properties
  imports Leases Guarded_System
begin

section \<open>What the lease book guarantees over any run of operations\<close>

text \<open>
  A run is a list of operations, each with the clock reading it saw; the readings need not be
  ordered.  Every fact about a run is an invariant of one step, lifted by the shared interface.
\<close>

datatype lease_op =
    Op_Claim key string "pyfloat option"
  | Op_Renew key string "pyfloat option"
  | Op_Release key string
  | Op_Reinstate key string pyfloat pyfloat
  | Op_Active
  | Op_Holder key
  | Op_Drain

fun lease_step :: "lease_op \<times> rat \<Rightarrow> lease_book \<Rightarrow> lease_book" where
  "lease_step (Op_Claim c h ttl, now) b = snd (claim c h ttl now b)"
| "lease_step (Op_Renew c h ttl, now) b = snd (renew c h ttl now b)"
| "lease_step (Op_Release c h, now) b = snd (release c h now b)"
| "lease_step (Op_Reinstate c h a e, now) b = snd (reinstate c h a e now b)"
| "lease_step (Op_Active, now) b = snd (active now b)"
| "lease_step (Op_Holder c, now) b = snd (holder_of c now b)"
| "lease_step (Op_Drain, now) b = snd (drain_events b)"

definition lookup_lease :: "lease_book \<Rightarrow> key \<Rightarrow> lease option" where
  "lookup_lease b c = map_of (leases b) c"

definition book_ok :: "lease_book \<Rightarrow> bool" where
  "book_ok b \<longleftrightarrow> dict_ok (leases b) \<and> (\<forall>(c, l) \<in> set (leases b). l_component l = c)"

subsection \<open>Pruning\<close>

lemma leases_stamp [simp]: "leases (stamp a l now b) = leases b"
  by (simp add: stamp_def)

lemma prune_fold:
  "leases (fold (\<lambda>(name, l) b. if \<not> lease_active l now then stamp Expired l now (b\<lparr>leases := AList.delete name (leases b)\<rparr>) else b) xs b)
     = filter (\<lambda>(n, _). n \<notin> fst ` set (filter (\<lambda>(_, l). \<not> lease_active l now) xs)) (leases b)"
proof (induction xs arbitrary: b)
  case (Cons x xs)
  then show ?case by (cases x) (auto simp: AList.delete_eq filter_filter intro!: filter_cong)
qed simp

lemma leases_prune:
  assumes "dict_ok (leases b)"
  shows "leases (prune now b) = filter (\<lambda>(_, l). lease_active l now) (leases b)"
proof -
  have "leases (prune now b) = filter (\<lambda>(n, _). n \<notin> fst ` set (filter (\<lambda>(_, l). \<not> lease_active l now) (leases b))) (leases b)"
    unfolding prune_def by (rule prune_fold)
  also have "\<dots> = filter (\<lambda>(_, l). lease_active l now) (leases b)"
    using assms by (intro filter_cong) (auto simp: dict_ok_def image_iff dest: eq_key_imp_eq_value)
  finally show ?thesis .
qed

lemma dict_ok_filter_fst: "dict_ok d \<Longrightarrow> dict_ok (filter P d)"
  by (simp add: dict_ok_def distinct_map_filter)

lemma map_of_filter_val:
  "dict_ok d \<Longrightarrow> map_of (filter (\<lambda>(_, l). P l) d) c = (case map_of d c of Some l \<Rightarrow> if P l then Some l else None | None \<Rightarrow> None)"
proof (induction d)
  case (Cons x d)
  obtain k v where x: "x = (k, v)" by fastforce
  have "map_of d k = None" using Cons.prems x by (simp add: dict_ok_def map_of_eq_None_iff)
  then show ?case using Cons x by (auto simp: dict_ok_def)
qed simp

lemma lookup_prune:
  "book_ok b \<Longrightarrow> lookup_lease (prune now b) c
     = (case lookup_lease b c of Some l \<Rightarrow> if lease_active l now then Some l else None | None \<Rightarrow> None)"
  by (simp add: lookup_lease_def leases_prune map_of_filter_val book_ok_def)

lemma book_ok_prune: "book_ok b \<Longrightarrow> book_ok (prune now b)"
  by (auto simp: book_ok_def leases_prune dict_ok_filter_fst)

lemma book_ok_stamp [simp]: "book_ok (stamp a l now b) = book_ok b"
  by (simp add: book_ok_def)

lemma lookup_stamp [simp]: "lookup_lease (stamp a l now b) c = lookup_lease b c"
  by (simp add: lookup_lease_def)

lemma set_update: "set (AList.update k v d) \<subseteq> insert (k, v) (set d)"
  by (induction d) auto

lemma book_ok_update: "book_ok b \<Longrightarrow> l_component l = c \<Longrightarrow> book_ok (b\<lparr>leases := AList.update c l (leases b)\<rparr>)"
  using set_update [of c l "leases b"] by (auto simp: book_ok_def)

lemma book_ok_delete: "book_ok b \<Longrightarrow> book_ok (b\<lparr>leases := AList.delete c (leases b)\<rparr>)"
  by (auto simp: book_ok_def AList.delete_eq dict_ok_filter_fst)

lemma lookup_update: "lookup_lease (b\<lparr>leases := AList.update c l (leases b)\<rparr>) c' = (if c' = c then Some l else lookup_lease b c')"
  by (simp add: lookup_lease_def update_conv')

lemma lookup_delete: "lookup_lease (b\<lparr>leases := AList.delete c (leases b)\<rparr>) c' = (if c' = c then None else lookup_lease b c')"
  by (simp add: lookup_lease_def delete_conv')

subsection \<open>What each operation leaves behind\<close>

text \<open>The three outcomes of an operation on the table: pruned only, one entry written, or one removed.\<close>

definition claimed :: "key \<Rightarrow> string \<Rightarrow> rat \<Rightarrow> rat \<Rightarrow> lease option \<Rightarrow> lease" where
  "claimed c h now t cur = \<lparr>l_component = c, l_holder = h,
     l_acquired = (case cur of Some l \<Rightarrow> l_acquired l | None \<Rightarrow> now), l_expiry = now + t, l_verified = True\<rparr>"

lemma claim_cases:
  obtains (ttl) e where "check_ttl ttl = Inl e" "claim c h ttl now b = (Inl e, b)"
  | (held) t l where "check_ttl ttl = Inr t" "lookup_lease (prune now b) c = Some l" "l_holder l \<noteq> h"
      "claim c h ttl now b = (Inl (Already_Leased c (l_holder l) (remaining l now)), prune now b)"
  | (free) t a where "check_ttl ttl = Inr t" "\<And>l. lookup_lease (prune now b) c = Some l \<Longrightarrow> l_holder l = h"
      "claim c h ttl now b = (Inr (claimed c h now t (lookup_lease (prune now b) c)),
         stamp a (claimed c h now t (lookup_lease (prune now b) c)) now
           ((prune now b)\<lparr>leases := AList.update c (claimed c h now t (lookup_lease (prune now b) c)) (leases (prune now b))\<rparr>))"
      "a = (if lookup_lease (prune now b) c = None then Claim else Renew)"
proof (cases "check_ttl ttl")
  case (Inl e)
  then show thesis by (intro ttl) (auto simp: claim_def)
next
  case (Inr t)
  show thesis
  proof (cases "\<exists>l. lookup_lease (prune now b) c = Some l \<and> l_holder l \<noteq> h")
    case True
    then obtain l where "lookup_lease (prune now b) c = Some l" "l_holder l \<noteq> h" by blast
    then show thesis using Inr by (intro held) (auto simp: claim_def lookup_lease_def Let_def)
  next
    case False
    then show thesis using Inr
      by (intro free [of t "if lookup_lease (prune now b) c = None then Claim else Renew"])
        (auto simp: claim_def lookup_lease_def Let_def claimed_def)
  qed
qed

lemma prune_idem: "book_ok b \<Longrightarrow> leases (prune now (prune now b)) = leases (prune now b)"
  using leases_prune [of b now] leases_prune [of "prune now b" now] book_ok_prune [of b now] by (simp add: book_ok_def)

lemma check_ttl_range: "check_ttl ttl = Inr t \<Longrightarrow> 0 < t \<and> t \<le> max_ttl"
  by (auto simp: check_ttl_def Let_def split: option.splits pyfloat.splits if_splits)

lemma renew_cases:
  obtains (refused) e where "renew c h ttl now b = (Inl e, prune now b)"
  | (claim) l where "lookup_lease (prune now b) c = Some l" "l_holder l = h" "renew c h ttl now b = claim c h ttl now (prune now b)"
proof (cases "lookup_lease (prune now b) c")
  case None
  then show thesis by (intro refused) (simp add: renew_def lookup_lease_def Let_def)
next
  case (Some l)
  then show thesis
    by (cases "l_holder l = h") (auto simp: renew_def lookup_lease_def Let_def intro: refused claim)
qed

lemma release_cases:
  obtains (none) "lookup_lease (prune now b) c = None" "release c h now b = (Inr False, prune now b)"
  | (other) l e where "lookup_lease (prune now b) c = Some l" "l_holder l \<noteq> h" "release c h now b = (Inl e, prune now b)"
  | (mine) l where "lookup_lease (prune now b) c = Some l" "l_holder l = h"
      "release c h now b = (Inr True, stamp Release l now ((prune now b)\<lparr>leases := AList.delete c (leases (prune now b))\<rparr>))"
  by (cases "lookup_lease (prune now b) c") (auto simp: release_def lookup_lease_def Let_def)

text \<open>The change one operation may make to one entry of the table.\<close>

definition live_at :: "rat \<Rightarrow> lease option \<Rightarrow> lease option" where
  "live_at now cur = (case cur of Some l \<Rightarrow> if lease_active l now then Some l else None | None \<Rightarrow> None)"

inductive lease_change :: "lease_op \<Rightarrow> rat \<Rightarrow> key \<Rightarrow> lease option \<Rightarrow> lease option \<Rightarrow> bool" where
  same: "lease_change x now c old old"
| expired: "\<not> lease_active l now \<Longrightarrow> lease_change x now c (Some l) None"
| released: "lease_change (Op_Release c (l_holder l)) now c (Some l) None"
| claimed: "x = Op_Claim c h ttl \<or> x = Op_Renew c h ttl \<Longrightarrow> check_ttl ttl = Inr t
     \<Longrightarrow> (\<And>l. live_at now old = Some l \<Longrightarrow> l_holder l = h)
     \<Longrightarrow> lease_change x now c old (Some (claimed c h now t (live_at now old)))"
| reinstated: "now < l_expiry l \<Longrightarrow> l_expiry l \<le> now + max_ttl \<Longrightarrow> l_component l = c \<Longrightarrow> l_holder l = h
     \<Longrightarrow> \<not> l_verified l \<Longrightarrow> lease_change (Op_Reinstate c h a e) now c old (Some l)"

lemma change_prune: "book_ok b \<Longrightarrow> lease_change x now c (lookup_lease b c) (lookup_lease (prune now b) c)"
  by (auto simp: lookup_prune split: option.splits intro: lease_change.intros)

lemma live_at_prune: "book_ok b \<Longrightarrow> live_at now (lookup_lease (prune now b) c) = live_at now (lookup_lease b c)"
  by (auto simp: lookup_prune live_at_def split: option.splits)

lemma lookup_prune_live: "book_ok b \<Longrightarrow> lookup_lease (prune now b) c = live_at now (lookup_lease b c)"
  by (simp add: lookup_prune live_at_def)

lemma change_claim:
  assumes ok: "book_ok b" and x: "x = Op_Claim c h ttl \<or> x = Op_Renew c h ttl"
  shows "book_ok (snd (claim c h ttl now b)) \<and> lease_change x now c' (lookup_lease b c') (lookup_lease (snd (claim c h ttl now b)) c')"
proof (rule claim_cases [of ttl c h now b])
  fix e assume "claim c h ttl now b = (Inl e, b)"
  then show ?thesis using ok by (simp add: same)
next
  fix l assume "claim c h ttl now b = (Inl (Already_Leased c (l_holder l) (remaining l now)), prune now b)"
  then show ?thesis using ok by (simp add: change_prune book_ok_prune)
next
  fix t a
  let ?l = "claimed c h now t (lookup_lease (prune now b) c)"
  assume t: "check_ttl ttl = Inr t" and mine: "\<And>l. lookup_lease (prune now b) c = Some l \<Longrightarrow> l_holder l = h"
    and r: "claim c h ttl now b = (Inr ?l, stamp a ?l now ((prune now b)\<lparr>leases := AList.update c ?l (leases (prune now b))\<rparr>))"
  have "lease_change x now c (lookup_lease b c) (Some ?l)"
    using lease_change.claimed [OF x t] mine ok by (simp add: lookup_prune_live)
  then show ?thesis
    using ok change_prune [OF ok, of x now c'] r
    by (auto simp: lookup_update book_ok_update book_ok_prune claimed_def)
qed

lemma change_trans_prune:
  assumes ok: "book_ok b" and ch: "lease_change x now c (lookup_lease (prune now b) c) new"
  shows "lease_change x now c (lookup_lease b c) new"
  using ch
proof (cases rule: lease_change.cases)
  case same
  then show ?thesis using change_prune [OF ok, of x now c] by simp
next
  case (expired l)
  then have "lookup_lease b c = Some l" using ok by (auto simp: lookup_prune split: option.splits if_splits)
  then show ?thesis using expired lease_change.expired by simp
next
  case (released l)
  then have "lookup_lease b c = Some l" using ok by (auto simp: lookup_prune split: option.splits if_splits)
  then show ?thesis using released lease_change.released by auto
next
  case (claimed h ttl t)
  then show ?thesis using lease_change.claimed [of x c h ttl t now "lookup_lease b c"] by (simp add: live_at_prune [OF ok])
next
  case (reinstated l h a e)
  then show ?thesis using lease_change.reinstated by simp
qed

lemma lease_step_change:
  assumes ok: "book_ok b"
  shows "book_ok (lease_step (x, now) b) \<and> lease_change x now c (lookup_lease b c) (lookup_lease (lease_step (x, now) b) c)"
proof (cases x)
  case (Op_Claim c' h ttl)
  then show ?thesis using change_claim [OF ok, of x c' h ttl now c] by simp
next
  case (Op_Renew c' h ttl)
  show ?thesis
  proof (rule renew_cases [of c' h ttl now b])
    fix e assume "renew c' h ttl now b = (Inl e, prune now b)"
    then show ?thesis using Op_Renew ok by (simp add: change_prune book_ok_prune)
  next
    assume "renew c' h ttl now b = claim c' h ttl now (prune now b)"
    then show ?thesis
      using Op_Renew change_claim [OF book_ok_prune [OF ok, of now], of x c' h ttl now c] change_trans_prune [OF ok] by simp
  qed
next
  case (Op_Release c' h)
  show ?thesis
  proof (rule release_cases [of now b c' h])
    fix l assume l: "lookup_lease (prune now b) c' = Some l" "l_holder l = h"
      and r: "release c' h now b = (Inr True, stamp Release l now ((prune now b)\<lparr>leases := AList.delete c' (leases (prune now b))\<rparr>))"
    have "lookup_lease b c' = Some l" using l(1) ok by (auto simp: lookup_prune split: option.splits if_splits)
    then have "lease_change x now c' (lookup_lease b c') None" using Op_Release l(2) lease_change.released by auto
    then show ?thesis
      using ok r Op_Release change_prune [OF ok, of x now c] by (auto simp: lookup_delete book_ok_delete book_ok_prune)
  qed (use ok Op_Release in \<open>auto simp: change_prune book_ok_prune\<close>)
next
  case (Op_Reinstate c' h a e)
  show ?thesis
  proof (cases "fl_less (Fin now) e")
    case True
    have "now < clamp_expiry now e \<and> clamp_expiry now e \<le> now + max_ttl"
      using True by (cases e) (auto simp: clamp_expiry_def max_ttl_def)
    then show ?thesis
      using True Op_Reinstate ok
      by (auto simp: reinstate_def Let_def lookup_update book_ok_update intro: same intro!: reinstated)
  qed (use Op_Reinstate ok in \<open>simp add: reinstate_def same\<close>)
next
  case Op_Drain
  then show ?thesis using ok by (auto simp: drain_events_def book_ok_def lookup_lease_def intro: same)
qed (use ok in \<open>auto simp: active_def holder_of_def Let_def change_prune book_ok_prune\<close>)

lemmas lease_step_ok = lease_step_change [THEN conjunct1]

subsection \<open>No lease outlives the horizon\<close>

definition bounded_book :: "rat \<Rightarrow> lease_book \<Rightarrow> bool" where
  "bounded_book T b \<longleftrightarrow> book_ok b \<and> (\<forall>c l. lookup_lease b c = Some l \<longrightarrow> l_expiry l \<le> T + max_ttl)"

lemma bounded_step:
  assumes "now \<le> T" "bounded_book T b"
  shows "bounded_book T (lease_step (x, now) b)"
proof -
  have ok: "book_ok b" using assms(2) by (simp add: bounded_book_def)
  have "l_expiry l \<le> T + max_ttl" if l: "lookup_lease (lease_step (x, now) b) c = Some l" for c l
  proof -
    have "lease_change x now c (lookup_lease b c) (Some l)" using lease_step_change [OF ok, of x now c] l by simp
    then show ?thesis
      using assms by (cases rule: lease_change.cases) (auto simp: bounded_book_def claimed_def dest!: check_ttl_range)
  qed
  then show ?thesis using lease_step_ok [OF ok] by (simp add: bounded_book_def)
qed

interpretation lease_horizon: guarded_system lease_step "\<lambda>(_, now). now \<le> T" "bounded_book T" for T
  by unfold_locales (auto intro: bounded_step)

lemma bounded_empty: "bounded_book T empty_book"
  by (simp add: bounded_book_def book_ok_def empty_book_def lookup_lease_def)

text \<open>C8: The workspace is never wedged.  Whatever was claimed, renewed, released or read back
  from a snapshot up to some instant, one horizon later no lease is active and anybody's claim
  with a lawful span succeeds.\<close>

theorem leases_never_wedge:
  assumes "\<forall>(x, t) \<in> set ops. t \<le> T" "T + max_ttl \<le> now" "check_ttl ttl = Inr t"
  shows "fst (active now (fold lease_step ops empty_book)) = Inr []
     \<and> fst (claim c h ttl now (fold lease_step ops empty_book))
         = Inr \<lparr>l_component = c, l_holder = h, l_acquired = now, l_expiry = now + t, l_verified = True\<rparr>"
proof -
  let ?b = "fold lease_step ops empty_book"
  have inv: "bounded_book T ?b"
    using assms(1) by (intro lease_horizon.run_inv bounded_empty) (simp add: list_all_iff)
  then have ok: "book_ok ?b" by (simp add: bounded_book_def)
  have "lookup_lease (prune now ?b) c = None" for c
    using inv assms(2) unfolding lookup_prune [OF ok] bounded_book_def lease_active_def
    by (fastforce split: option.splits)
  then have none: "map_of (leases (prune now ?b)) c = None" for c by (simp add: lookup_lease_def)
  then have "leases (prune now ?b) = []" by (metis map_of_eq_empty_iff ext)
  then show ?thesis using none assms(3) by (simp add: active_def claim_def Let_def)
qed

theorem leases_never_wedge_witness:
  "fst (active 100000 (fold lease_step [(Op_Claim (Name ''Cache'') ''a'' None, 0),
      (Op_Reinstate (Name ''Db'') ''ghost'' (Fin 0) Pos_Inf, 5)] empty_book)) = Inr []"
  by (rule leases_never_wedge [where T = 5 and ttl = None and t = 300 and h = "''b''" and c = "Name ''Db''", THEN conjunct1])
    (simp_all add: max_ttl_def check_ttl_def default_ttl_def)

subsection \<open>A live claim is not stolen\<close>






definition cache_lease :: lease where
  "cache_lease = \<lparr>l_component = Name ''Cache'', l_holder = ''alice'', l_acquired = 0, l_expiry = 300, l_verified = True\<rparr>"

definition cache_book :: lease_book where
  "cache_book = snd (claim (Name ''Cache'') ''alice'' None 0 empty_book)"

lemma cache_book_lease: "book_ok cache_book" "lookup_lease cache_book (Name ''Cache'') = Some cache_lease"
proof -
  have b: "leases cache_book = [(Name ''Cache'', cache_lease)]"
    by (simp add: cache_book_def cache_lease_def claim_def check_ttl_def empty_book_def prune_def Let_def default_ttl_def max_ttl_def)
  show "book_ok cache_book" "lookup_lease cache_book (Name ''Cache'') = Some cache_lease"
    unfolding book_ok_def lookup_lease_def b by (simp_all add: dict_ok_def cache_lease_def)
qed


subsection \<open>A snapshot carries fences, never exemptions\<close>

definition unexempt :: "key \<Rightarrow> string \<Rightarrow> lease_book \<Rightarrow> bool" where
  "unexempt c me b \<longleftrightarrow> book_ok b \<and> (\<forall>l. lookup_lease b c = Some l \<longrightarrow> \<not> exempt l me)"

definition not_claiming :: "key \<Rightarrow> string \<Rightarrow> lease_op \<times> rat \<Rightarrow> bool" where
  "not_claiming c me = (\<lambda>(x, _). case x of
       Op_Claim c' h ttl \<Rightarrow> c' \<noteq> c \<or> h \<noteq> me
     | Op_Renew c' h ttl \<Rightarrow> c' \<noteq> c \<or> h \<noteq> me
     | _ \<Rightarrow> True)"

lemma unexempt_step: "not_claiming c me (x, now) \<Longrightarrow> unexempt c me b \<Longrightarrow> unexempt c me (lease_step (x, now) b)"
proof -
  assume f: "not_claiming c me (x, now)" and h: "unexempt c me b"
  then have ok: "book_ok b" by (simp add: unexempt_def)
  show ?thesis
    using lease_step_change [OF ok, of x now c] f h lease_step_ok [OF ok]
    unfolding unexempt_def by (auto simp: not_claiming_def exempt_def claimed_def elim!: lease_change.cases)
qed

interpretation lease_unexempt: guarded_system lease_step "not_claiming c me" "unexempt c me" for c me
  by unfold_locales (auto intro: unexempt_step)

text \<open>The self-holder exemption is earned by a claim.  From a book whose lease on a name does
  not exempt an operator, no sequence of operations in which that operator never claims or
  renews the name, restored snapshots naming it as holder included, leads to a lease on the name
  that exempts it.\<close>

theorem exemption_needs_a_claim:
  assumes "book_ok b" "\<forall>l. lookup_lease b c = Some l \<longrightarrow> \<not> exempt l me" "\<forall>x \<in> set ops. not_claiming c me x"
  shows "\<forall>l. lookup_lease (fold lease_step ops b) c = Some l \<longrightarrow> \<not> exempt l me"
  using lease_unexempt.run_inv [of c me ops b] assms by (simp add: unexempt_def list_all_iff)

theorem exemption_needs_a_claim_witness:
  "\<not> exempt (the (lookup_lease (fold lease_step [(Op_Reinstate (Name ''Cache'') ''bob'' (Fin 0) (Fin 50), 10)] cache_book)
      (Name ''Cache''))) ''bob''"
proof -
  let ?b = "fold lease_step [(Op_Reinstate (Name ''Cache'') ''bob'' (Fin 0) (Fin 50), 10)] cache_book"
  have "lookup_lease ?b (Name ''Cache'') \<noteq> None"
    by (simp add: reinstate_def Let_def lookup_update)
  moreover have "\<forall>l. lookup_lease ?b (Name ''Cache'') = Some l \<longrightarrow> \<not> exempt l ''bob''"
    by (rule exemption_needs_a_claim) (simp_all add: cache_book_lease not_claiming_def cache_lease_def exempt_def)
  ultimately show ?thesis by auto
qed

text \<open>The re-seating of a lease asks nobody.  A snapshot entry for a name under a live, verified
  claim of another operator replaces that claim: afterwards the operator who claimed it is fenced
  out of its own name, and can neither renew nor release what it had claimed.\<close>

theorem reinstate_displaces_live_claim:
  assumes "book_ok b" "lookup_lease b c = Some l" "l_holder l \<noteq> h" "now < e" "e \<le> now + max_ttl"
  shows "lookup_lease (snd (reinstate c h (Fin now) (Fin e) now b)) c
       = Some \<lparr>l_component = c, l_holder = h, l_acquired = now, l_expiry = e, l_verified = False\<rparr>
     \<and> fst (renew c (l_holder l) None now (snd (reinstate c h (Fin now) (Fin e) now b))) = Inl (Not_The_Holder c h (l_holder l))
     \<and> fst (release c (l_holder l) now (snd (reinstate c h (Fin now) (Fin e) now b))) = Inl (Not_The_Holder c h (l_holder l))"
proof -
  let ?l = "\<lparr>l_component = c, l_holder = h, l_acquired = now, l_expiry = e, l_verified = False\<rparr>"
  have r: "snd (reinstate c h (Fin now) (Fin e) now b) = b\<lparr>leases := AList.update c ?l (leases b)\<rparr>"
    using assms(4,5) by (simp add: reinstate_def Let_def clamp_expiry_def)
  have ok: "book_ok (b\<lparr>leases := AList.update c ?l (leases b)\<rparr>)" using book_ok_update [OF assms(1), of ?l c] by simp
  have "lookup_lease (prune now (b\<lparr>leases := AList.update c ?l (leases b)\<rparr>)) c = Some ?l"
    using assms(4) by (simp add: lookup_prune [OF ok] lookup_update lease_active_def)
  then have "map_of (leases (prune now (b\<lparr>leases := AList.update c ?l (leases b)\<rparr>))) c = Some ?l"
    by (simp add: lookup_lease_def)
  then show ?thesis
    using assms(3) unfolding r by (simp add: lookup_update renew_def release_def Let_def)
qed

theorem reinstate_displaces_live_claim_witness:
  "fst (renew (Name ''Cache'') ''alice'' None 10 (snd (reinstate (Name ''Cache'') ''nobody'' (Fin 10) (Fin 60) 10 cache_book)))
     = Inl (Not_The_Holder (Name ''Cache'') ''nobody'' ''alice'')"
  using reinstate_displaces_live_claim [OF cache_book_lease, of "''nobody''" 10 60] by (simp add: cache_lease_def max_ttl_def)

end
