(* ===== verification/Lease_Check.thy ===== *)
theory Lease_Check
  imports Lease_Properties
begin

section \<open>The enforcement decision and the event log\<close>

text \<open>
  What \<open>check\<close> decides of the leases that are live, what a book with names of two kinds does to
  every read, and the event log as a second representation of the book.
\<close>

definition live_lease :: "session \<Rightarrow> rat \<Rightarrow> key \<Rightarrow> lease option" where
  "live_lease s now c = live_at now (lookup_lease (s_book s) c)"

lemma pruned_leases:
  "book_ok b \<Longrightarrow> set (map snd (leases (prune now b))) = {l. \<exists>c. live_at now (lookup_lease b c) = Some l}"
proof -
  assume ok: "book_ok b"
  then have d: "dict_ok (leases (prune now b))" using book_ok_prune by (simp add: book_ok_def)
  have "set (map snd (leases (prune now b))) = ran (map_of (leases (prune now b)))"
    using d by (simp add: dict_ok_def ran_distinct)
  also have "\<dots> = {l. \<exists>c. live_at now (lookup_lease b c) = Some l}"
    using lookup_prune_live [OF ok, of now] by (simp add: ran_def lookup_lease_def)
  finally show ?thesis .
qed

lemma live_map_of:
  assumes ok: "book_ok b" and set: "set ls = set (map snd (leases (prune now b)))"
  shows "map_of (live_map ls) c = live_at now (lookup_lease b c)"
proof -
  have comp: "l_component l = c" if "live_at now (lookup_lease b c) = Some l" for c l
    using that ok by (auto simp: live_at_def lookup_lease_def book_ok_def split: option.splits if_splits dest!: map_of_SomeD)
  have mem: "l \<in> set ls \<longleftrightarrow> (\<exists>c. live_at now (lookup_lease b c) = Some l)" for l
    unfolding set pruned_leases [OF ok] by simp
  show ?thesis
  proof (cases "live_at now (lookup_lease b c)")
    case None
    have "c \<notin> fst ` set (rev (map (\<lambda>l. (l_component l, l)) ls))"
    proof
      assume "c \<in> fst ` set (rev (map (\<lambda>l. (l_component l, l)) ls))"
      then obtain l where "l \<in> set ls" "l_component l = c" by auto
      then show False using mem comp None by fastforce
    qed
    then show ?thesis using None by (simp add: live_map_def map_of_dict_of map_of_eq_None_iff)
  next
    case (Some l)
    have "l \<in> set ls" "l_component l = c" using mem Some comp by blast+
    then have "c \<in> fst ` set (rev (map (\<lambda>l. (l_component l, l)) ls))" by force
    then obtain l' where l': "map_of (rev (map (\<lambda>l. (l_component l, l)) ls)) c = Some l'"
      using map_of_eq_None_iff by (metis option.exhaust)
    then have "l' \<in> set ls" "l_component l' = c" using map_of_SomeD [OF l'] by auto
    then have "live_at now (lookup_lease b c) = Some l'" using mem comp by blast
    then show ?thesis using l' Some by (simp add: live_map_def map_of_dict_of)
  qed
qed

lemma first_fence_None: "first_fence live me ts = None \<longleftrightarrow> (\<forall>c \<in> set ts. \<forall>l. map_of live c = Some l \<longrightarrow> exempt l me)"
  by (induction ts) (auto split: option.splits)

lemma first_fence_Some: "first_fence live me ts = Some l \<Longrightarrow> \<exists>c \<in> set ts. map_of live c = Some l \<and> \<not> exempt l me"
  by (induction ts) (auto split: option.splits if_splits)

definition orderable :: "rat \<Rightarrow> lease_book \<Rightarrow> bool" where
  "orderable now b \<longleftrightarrow> all_same_kind (map l_component (map snd (leases (prune now b))))"

lemma active_result:
  "active now b = (if orderable now b then Inr (sort_key l_component (map snd (leases (prune now b)))) else Inl Unorderable_Keys, prune now b)"
  by (simp add: active_def orderable_def Let_def)

text \<open>The enforcement decides what it says.  In a session whose policy enforces leases, a
  fenced verb on derived targets passes exactly when every target under a live lease is under one
  that exempts the operator; a refusal names such a live lease on one of the targets.  Targets
  that cannot be derived are checked against every live lease, so a verb that passes undecided
  would pass whatever it touches.\<close>

theorem check_decides:
  assumes "book_ok (s_book s)" "orderable now (s_book s)" "s_enforced s" "verb \<in> set fenced"
  shows "(fst (check s verb (Some ts) now) = Inr None \<longleftrightarrow>
            (\<forall>c \<in> set ts. \<forall>l. live_lease s now c = Some l \<longrightarrow> exempt l (holder_identity s)))
     \<and> (\<forall>r. fst (check s verb (Some ts) now) = Inr (Some r) \<longrightarrow>
            (\<exists>c \<in> set ts. \<exists>l. live_lease s now c = Some l \<and> \<not> exempt l (holder_identity s) \<and> r = refuse (holder_identity s) l verb))
     \<and> (fst (check s verb None now) = Inr None \<longrightarrow> fst (check s verb (Some ts) now) = Inr None)"
proof -
  let ?ls = "sort_key l_component (map snd (leases (prune now (s_book s))))" and ?me = "holder_identity s"
  have act: "active now (s_book s) = (Inr ?ls, prune now (s_book s))" using assms(2) by (simp add: active_result)
  have live: "map_of (live_map ?ls) c = live_lease s now c" for c
    using live_map_of [OF assms(1), of ?ls now c] by (simp add: live_lease_def)
  have some: "fst (check s verb (Some ts) now) = Inr (map_option (\<lambda>l. refuse ?me l verb) (first_fence (live_map ?ls) ?me ts))"
    using assms(3,4) by (simp add: check_def act Let_def)
  have none: "fst (check s verb None now) = Inr (map_option (\<lambda>l. refuse ?me l verb) (find (\<lambda>l. \<not> exempt l ?me) ?ls))"
    using assms(3,4) by (simp add: check_def act Let_def)
  have iff: "fst (check s verb (Some ts) now) = Inr None \<longleftrightarrow> (\<forall>c \<in> set ts. \<forall>l. live_lease s now c = Some l \<longrightarrow> exempt l ?me)"
    by (simp add: some first_fence_None live)
  moreover have "\<exists>c \<in> set ts. \<exists>l. live_lease s now c = Some l \<and> \<not> exempt l ?me \<and> r = refuse ?me l verb"
    if r: "fst (check s verb (Some ts) now) = Inr (Some r)" for r
    using r first_fence_Some [of "live_map ?ls" ?me ts] unfolding some by (fastforce simp: live)
  moreover have "fst (check s verb (Some ts) now) = Inr None" if n: "fst (check s verb None now) = Inr None"
  proof -
    have "\<forall>l \<in> set ?ls. exempt l ?me" using n by (simp add: none find_None_iff)
    moreover have "l \<in> set ?ls" if "live_lease s now c = Some l" for c l
      using that pruned_leases [OF assms(1), of now] by (auto simp: live_lease_def)
    ultimately show ?thesis unfolding iff by blast
  qed
  ultimately show ?thesis by blast
qed

definition bob_session :: session where
  "bob_session = \<lparr>s_token = Some ''bob'', s_enforced = True, s_book = cache_book\<rparr>"

lemma cache_orderable: "orderable 10 cache_book"
  by (simp add: orderable_def leases_prune [OF cache_book_lease(1) [unfolded book_ok_def, THEN conjunct1]])
    (simp add: cache_book_def claim_def check_ttl_def empty_book_def prune_def Let_def default_ttl_def max_ttl_def)

theorem check_decides_witness:
  "fst (check bob_session ''swap'' (Some [Name ''Db'']) 10) = Inr None
     \<and> fst (check bob_session ''swap'' None 10) \<noteq> Inr None
     \<and> fst (check bob_session ''swap'' (Some [Name ''Cache'']) 10) \<noteq> Inr None"
proof -
  have s: "book_ok (s_book bob_session)" "orderable 10 (s_book bob_session)" "s_enforced bob_session" "''swap'' \<in> set fenced"
    by (simp_all add: bob_session_def cache_book_lease cache_orderable fenced_def)
  have c: "live_lease bob_session 10 (Name ''Cache'') = Some cache_lease"
    using cache_book_lease(2) by (simp add: live_lease_def bob_session_def live_at_def lease_active_def) (simp add: cache_lease_def)
  have d: "live_lease bob_session 10 (Name ''Db'') = None"
    by (simp add: live_lease_def bob_session_def live_at_def lookup_lease_def cache_book_def claim_def check_ttl_def
        empty_book_def prune_def Let_def default_ttl_def max_ttl_def)
  have "\<not> exempt cache_lease (holder_identity bob_session)"
    by (simp add: exempt_def cache_lease_def holder_identity_def bob_session_def)
  then show ?thesis
    using check_decides [OF s, of "[Name ''Cache'']"] check_decides [OF s, of "[Name ''Db'']"] c d by auto
qed

text \<open>Names of two kinds wedge every read.  The component of a claim or of a restored lease is
  not checked to be a string, and a book with two live leases under names of different kinds, a
  number and a string, cannot be sorted: every read of the active leases raises, and so does
  every enforcement decision, whatever its targets.\<close>

theorem mixed_names_block_every_check:
  assumes "book_ok (s_book s)" "s_enforced s" "verb \<in> set fenced"
    and "live_lease s now (Num_Key n) = Some l1" "live_lease s now (Name x) = Some l2"
  shows "fst (active now (s_book s)) = Inl Unorderable_Keys
     \<and> fst (check s verb targets now) = Inl (Book_Error Unorderable_Keys)"
proof -
  have same: "same_kind a b \<or> same_kind b a" if "all_same_kind ks" "a \<in> set ks" "b \<in> set ks" "a \<noteq> b" for ks a b
    using that by (induction ks) (auto simp: list_all_iff)
  have ls: "l1 \<in> set (map snd (leases (prune now (s_book s))))" "l2 \<in> set (map snd (leases (prune now (s_book s))))"
    using assms(4,5) unfolding pruned_leases [OF assms(1)] live_lease_def by blast+
  have "l_component l1 = Num_Key n" "l_component l2 = Name x"
    using assms(1,4,5) by (auto simp: live_lease_def live_at_def lookup_lease_def book_ok_def split: option.splits if_splits dest!: map_of_SomeD)
  then have "Num_Key n \<in> set (map l_component (map snd (leases (prune now (s_book s)))))"
    "Name x \<in> set (map l_component (map snd (leases (prune now (s_book s)))))"
    using ls unfolding set_map [of l_component] by (metis imageI)+
  then have "\<not> orderable now (s_book s)"
    unfolding orderable_def using same [of "map l_component (map snd (leases (prune now (s_book s))))" "Num_Key n" "Name x"] by auto
  then have "active now (s_book s) = (Inl Unorderable_Keys, prune now (s_book s))" by (simp add: active_result)
  then show ?thesis using assms(2,3) by (simp add: check_def Let_def)
qed

definition mixed_book :: lease_book where
  "mixed_book = snd (claim (Num_Key 5) ''mallory'' None 1 cache_book)"

lemma mixed_book_ok: "book_ok mixed_book"
  using lease_step_ok [OF cache_book_lease(1), of "Op_Claim (Num_Key 5) ''mallory'' None" 1] by (simp add: mixed_book_def)

theorem mixed_names_block_every_check_witness:
  "fst (check (bob_session\<lparr>s_book := mixed_book\<rparr>) ''unload'' (Some [Name ''Db'']) 10) = Inl (Book_Error Unorderable_Keys)"
proof -
  have b: "leases mixed_book = [(Name ''Cache'', cache_lease), (Num_Key 5, \<lparr>l_component = Num_Key 5, l_holder = ''mallory'', l_acquired = 1, l_expiry = 301, l_verified = True\<rparr>)]"
    by (simp add: mixed_book_def cache_book_def cache_lease_def claim_def check_ttl_def empty_book_def prune_def Let_def
        default_ttl_def max_ttl_def stamp_def lease_active_def)
  show ?thesis
    by (rule mixed_names_block_every_check [where n = 5 and x = "''Cache''", THEN conjunct2])
      (simp_all add: mixed_book_ok bob_session_def fenced_def live_lease_def live_at_def lookup_lease_def b lease_active_def cache_lease_def)
qed

subsection \<open>The event log determines the book\<close>



definition book_abs :: "lease_book \<Rightarrow> key \<Rightarrow> (string \<times> rat) option" where
  "book_abs b c = map_option (\<lambda>l. (l_holder l, l_expiry l)) (lookup_lease b c)"






lemma book_abs_stamp [simp]: "book_abs (stamp a l now b) = book_abs b"
  by (rule ext) (simp add: book_abs_def)










end
