(* ===== verification/Layer_State.thy ===== *)
theory Layer_State
  imports Json_Value
begin

section \<open>The rollback plan of a promotion (\<open>src/revl/layer_state.py\<close>)\<close>

text \<open>
  The ordered state classes, the closed registry of evolvable layers, the plan, the gate that
  reads it and the report of what a rollback did.  The prose of a refusal is not built; a refusal
  carries its link and the layer and part it names.  A class is a string, because a plan may
  declare any token.
\<close>

definition state_classes :: "string list" where
  "state_classes = [''neither'', ''compensatable'', ''revertible'']"

definition undeclared :: string where "undeclared = ''undeclared''"
definition untouched_class :: string where "untouched_class = ''untouched''"

definition class_order :: "(string, int) pydict" where
  "class_order = (undeclared, -1) # zip state_classes [0, 1, 2]"

definition class_rank :: "string \<Rightarrow> int" where
  "class_rank c = dict_get class_order c (-1)"

definition weakest :: "string list \<Rightarrow> string" where
  "weakest cs = (case cs of [] \<Rightarrow> undeclared | c # cs \<Rightarrow> min_by class_rank c cs)"

definition at_or_below :: "string \<Rightarrow> string \<Rightarrow> bool" where
  "at_or_below claim limit =
     (if claim \<notin> fst ` set class_order \<or> limit \<notin> fst ` set class_order then False
      else class_rank claim \<le> class_rank limit)"

record layer =
  y_name :: string
  accumulates :: bool

definition layer_ceiling :: "layer \<Rightarrow> string" where
  "layer_ceiling y = (if accumulates y then ''compensatable'' else ''revertible'')"

definition model_bound :: "layer \<Rightarrow> bool" where "model_bound y = accumulates y"

definition layers :: "layer list" where
  "layers = [\<lparr>y_name = ''policies'', accumulates = False\<rparr>, \<lparr>y_name = ''routing'', accumulates = True\<rparr>,
     \<lparr>y_name = ''components'', accumulates = False\<rparr>, \<lparr>y_name = ''workflows'', accumulates = True\<rparr>,
     \<lparr>y_name = ''memory'', accumulates = True\<rparr>, \<lparr>y_name = ''runtime'', accumulates = False\<rparr>,
     \<lparr>y_name = ''device-placement'', accumulates = True\<rparr>]"

definition layer_named :: "string \<Rightarrow> layer option" where
  "layer_named n = map_of (map (\<lambda>y. (y_name y, y)) layers) n"

datatype link = Plan_Malformed | Layer_Unknown | Layer_Unaccounted | Layer_Undeclared | Class_Unknown
  | Class_Not_A_State_Class | Class_Above_Ceiling | State_Not_Restorable | Compensation_Untested | Compensation_Orphaned

record layer_refusal =
  f_link :: link
  f_layer :: "string option"
  f_part :: "string option"

definition refuse_plan :: "link \<Rightarrow> string option \<Rightarrow> string option \<Rightarrow> layer_refusal option" where
  "refuse_plan k y p = Some \<lparr>f_link = k, f_layer = y, f_part = p\<rparr>"

definition ui_classes :: "(string, string) pydict" where
  "ui_classes = [(''reversible'', ''revertible''), (''compensatable'', ''compensatable''),
     (''irreversible'', ''neither''), (''unknown'', ''neither'')]"

definition fold_class :: "string \<Rightarrow> string \<Rightarrow> link + string" where
  "fold_class vocabulary token =
     (if vocabulary = ''state''
      then if token \<in> fst ` set class_order \<and> token \<noteq> undeclared then Inr token else Inl Class_Unknown
      else if vocabulary \<noteq> ''ui'' then Inl Class_Unknown
      else if token = ''confirm-required'' then Inl Class_Not_A_State_Class
      else case map_of ui_classes token of None \<Rightarrow> Inl Class_Unknown | Some c \<Rightarrow> Inr c)"

definition is_nonempty_str :: "json \<Rightarrow> bool" where
  "is_nonempty_str v = (case v of JStr s \<Rightarrow> s \<noteq> [] | _ \<Rightarrow> False)"

definition stale_after_model_change :: "json \<Rightarrow> json \<Rightarrow> string list \<Rightarrow> string list" where
  "stale_after_model_change previous current revalidated =
     (if is_nonempty_str previous \<and> is_nonempty_str current \<and> previous = current then []
      else map y_name (filter (\<lambda>y. model_bound y \<and> y_name y \<notin> set revalidated) layers))"


subsection \<open>The plan\<close>

record part =
  p_name :: string
  p_state :: string
  compensation :: "(string \<times> json) list option"

definition compensation_name :: "part \<Rightarrow> string option" where
  "compensation_name p = (case compensation p of None \<Rightarrow> None
     | Some cm \<Rightarrow> (case member cm ''name'' of JStr s \<Rightarrow> if s = [] then None else Some s | _ \<Rightarrow> None))"

definition compensation_tested :: "part \<Rightarrow> bool" where
  "compensation_tested p = (case compensation p of None \<Rightarrow> False | Some cm \<Rightarrow> truthy (member cm ''tested''))"

record layer_decl =
  d_layer :: string
  parts :: "part list"
  untouched :: bool

definition decl_aggregate :: "layer_decl \<Rightarrow> string" where
  "decl_aggregate d = weakest (map p_state (parts d))"

record rollback_plan =
  promotion :: string
  declarations :: "layer_decl list"

definition by_layer :: "rollback_plan \<Rightarrow> string \<Rightarrow> layer_decl option" where
  "by_layer plan = map_of (rev (map (\<lambda>d. (d_layer d, d)) (declarations plan)))"

definition classify_layer :: "rollback_plan \<Rightarrow> string \<Rightarrow> string" where
  "classify_layer plan y = (case by_layer plan y of
       None \<Rightarrow> undeclared
     | Some d \<Rightarrow> if untouched d then untouched_class else decl_aggregate d)"


subsection \<open>The gate\<close>

text \<open>The first refusal of a list of probes.\<close>

fun first_refusal :: "('a \<Rightarrow> 'r option) \<Rightarrow> 'a list \<Rightarrow> 'r option" where
  "first_refusal f [] = None"
| "first_refusal f (x # xs) = (case f x of None \<Rightarrow> first_refusal f xs | Some r \<Rightarrow> Some r)"

fun check_part_names :: "string \<Rightarrow> string list \<Rightarrow> part list \<Rightarrow> layer_refusal option" where
  "check_part_names y used [] = None"
| "check_part_names y used (p # ps) =
     (if p_name p = [] then refuse_plan Plan_Malformed (Some y) None
      else if p_name p \<in> set used then refuse_plan Plan_Malformed (Some y) (Some (p_name p))
      else check_part_names y (p_name p # used) ps)"

fun check_decl_shapes :: "string list \<Rightarrow> layer_decl list \<Rightarrow> layer_refusal option" where
  "check_decl_shapes used [] = None"
| "check_decl_shapes used (d # ds) =
     (if d_layer d \<in> set used then refuse_plan Plan_Malformed (Some (d_layer d)) None
      else if layer_named (d_layer d) = None then refuse_plan Layer_Unknown (Some (d_layer d)) None
      else if untouched d \<and> parts d \<noteq> [] then refuse_plan Plan_Malformed (Some (d_layer d)) None
      else if \<not> untouched d \<and> parts d = [] then refuse_plan Layer_Undeclared (Some (d_layer d)) None
      else case check_part_names (d_layer d) [] (parts d) of
          Some r \<Rightarrow> Some r
        | None \<Rightarrow> check_decl_shapes (d_layer d # used) ds)"

definition check_shape :: "rollback_plan \<Rightarrow> layer_refusal option" where
  "check_shape plan = (if promotion plan = [] then refuse_plan Plan_Malformed None None
     else check_decl_shapes [] (declarations plan))"

definition check_coverage :: "rollback_plan \<Rightarrow> layer_refusal option" where
  "check_coverage plan = first_refusal (\<lambda>y. if by_layer plan (y_name y) = None
     then refuse_plan Layer_Unaccounted (Some (y_name y)) None else None) layers"

definition check_class :: "string \<Rightarrow> part \<Rightarrow> layer_refusal option" where
  "check_class y p =
     (if p_state p = undeclared \<or> p_state p \<notin> fst ` set class_order
      then if p_state p = undeclared \<or> p_state p = [] then refuse_plan Layer_Undeclared (Some y) (Some (p_name p))
        else refuse_plan Class_Unknown (Some y) (Some (p_name p))
      else None)"

definition check_classes :: "rollback_plan \<Rightarrow> layer_refusal option" where
  "check_classes plan = first_refusal (\<lambda>d. first_refusal (check_class (d_layer d)) (parts d)) (declarations plan)"

definition check_ceiling :: "layer_decl \<Rightarrow> layer_refusal option" where
  "check_ceiling d =
     (if untouched d then None
      else case layer_named (d_layer d) of
          None \<Rightarrow> None
        | Some y \<Rightarrow> if \<not> at_or_below (decl_aggregate d) (layer_ceiling y)
            then refuse_plan Class_Above_Ceiling (Some (d_layer d)) None else None)"

definition check_ceilings :: "rollback_plan \<Rightarrow> layer_refusal option" where
  "check_ceilings plan = first_refusal check_ceiling (declarations plan)"

definition check_compensation :: "string \<Rightarrow> part \<Rightarrow> layer_refusal option" where
  "check_compensation y p =
     (if p_state p = ''revertible''
      then if compensation_name p \<noteq> None then refuse_plan Compensation_Orphaned (Some y) (Some (p_name p)) else None
      else if compensation_name p = None then refuse_plan State_Not_Restorable (Some y) (Some (p_name p))
      else if \<not> compensation_tested p then refuse_plan Compensation_Untested (Some y) (Some (p_name p))
      else None)"

definition check_compensations :: "rollback_plan \<Rightarrow> layer_refusal option" where
  "check_compensations plan = first_refusal (\<lambda>d. first_refusal (check_compensation (d_layer d)) (parts d)) (declarations plan)"

definition check_plan :: "rollback_plan \<Rightarrow> layer_refusal option" where
  "check_plan plan = first_refusal (\<lambda>probe. probe plan)
     [check_shape, check_coverage, check_classes, check_ceilings, check_compensations]"


subsection \<open>The report\<close>

text \<open>An entry of the compensated and of the uncompensated list.\<close>

record layer_outcome =
  o_layer :: string
  o_state :: string
  o_parts :: "string list"

record rollback =
  restored :: "string list"
  compensated :: "(layer_outcome \<times> string list) list"
  uncompensated :: "layer_outcome list"
  left_untouched :: "string list"
  refused :: "layer_refusal option"

definition fully_restored :: "rollback \<Rightarrow> bool" where
  "fully_restored r \<longleftrightarrow> compensated r = [] \<and> uncompensated r = []"

definition declared_compensations :: "rollback_plan \<Rightarrow> string list" where
  "declared_compensations plan = concat (map (\<lambda>d. concat (map (\<lambda>p. case compensation_name p of Some n \<Rightarrow> [n] | None \<Rightarrow> []) (parts d))) (declarations plan))"

definition executed_compensations :: "rollback_plan \<Rightarrow> string list option \<Rightarrow> string list" where
  "executed_compensations plan only = (case only of
       None \<Rightarrow> declared_compensations plan
     | Some names \<Rightarrow> filter (\<lambda>n. n \<in> set (declared_compensations plan)) names)"

definition part_ran :: "string list \<Rightarrow> part \<Rightarrow> bool" where
  "part_ran executed p \<longleftrightarrow> (case compensation_name p of Some n \<Rightarrow> n \<in> set executed | None \<Rightarrow> False)"

definition outcome_of :: "string \<Rightarrow> part list \<Rightarrow> layer_outcome" where
  "outcome_of y ps = \<lparr>o_layer = y, o_state = weakest (map p_state ps), o_parts = map p_name ps\<rparr>"

definition report_layer :: "string list \<Rightarrow> rollback \<Rightarrow> layer_decl \<Rightarrow> rollback" where
  "report_layer executed r d =
     (if untouched d then r\<lparr>left_untouched := left_untouched r @ [d_layer d]\<rparr>
      else let missed = filter (\<lambda>p. p_state p \<noteq> ''revertible'' \<and> \<not> part_ran executed p) (parts d);
               covered = filter (\<lambda>p. p_state p \<noteq> ''revertible'' \<and> part_ran executed p) (parts d)
        in if missed \<noteq> [] then r\<lparr>uncompensated := uncompensated r @ [outcome_of (d_layer d) missed]\<rparr>
           else if covered \<noteq> [] then r\<lparr>compensated := compensated r
             @ [(outcome_of (d_layer d) covered, sort (remdups (map (\<lambda>p. the (compensation_name p)) covered)))]\<rparr>
           else r\<lparr>restored := restored r @ [d_layer d]\<rparr>)"

definition empty_rollback :: rollback where
  "empty_rollback = \<lparr>restored = [], compensated = [], uncompensated = [], left_untouched = [], refused = None\<rparr>"

text \<open>The layers are walked in registry order; the coverage check has put each one in the plan.\<close>

definition report :: "rollback_plan \<Rightarrow> string list option \<Rightarrow> rollback" where
  "report plan only = (case check_plan plan of
       Some f \<Rightarrow> empty_rollback\<lparr>refused := Some f\<rparr>
     | None \<Rightarrow> fold (\<lambda>y r. report_layer (executed_compensations plan only) r (the (by_layer plan (y_name y)))) layers empty_rollback)"

subsection \<open>Lifting a sibling's parts into a plan\<close>

definition shadow_parts :: "(string, string) pydict" where
  "shadow_parts = [(''route-arm'', ''routing''), (''agreement-ledger'', ''routing''), (''placement-history'', ''device-placement'')]"

fun group_parts :: "(string, (string \<times> json) list) pydict \<Rightarrow> (string \<times> string) list \<Rightarrow> (string, part list) pydict
    \<Rightarrow> layer_refusal + (string, part list) pydict" where
  "group_parts comps [] grouped = Inr grouped"
| "group_parts comps ((n, st) # rest) grouped = (case map_of shadow_parts n of
       None \<Rightarrow> Inl \<lparr>f_link = Layer_Unknown, f_layer = None, f_part = Some n\<rparr>
     | Some y \<Rightarrow> group_parts comps rest (AList.update y
         (dict_get grouped y [] @ [\<lparr>p_name = n, p_state = st, compensation = map_of comps n\<rparr>]) grouped))"

definition from_shadow_layers :: "string \<Rightarrow> (string, string) pydict \<Rightarrow> (string, (string \<times> json) list) pydict
    \<Rightarrow> string list \<Rightarrow> layer_refusal + rollback_plan" where
  "from_shadow_layers promo shadow comps others =
     res_bind (group_parts comps shadow []) (\<lambda>grouped.
       case find (\<lambda>n. n \<notin> fst ` set shadow) (map fst comps) of
         Some n \<Rightarrow> Inl \<lparr>f_link = Compensation_Orphaned, f_layer = None, f_part = Some n\<rparr>
       | None \<Rightarrow> Inr \<lparr>promotion = promo, declarations =
           map (\<lambda>(y, ps). \<lparr>d_layer = y, parts = ps, untouched = False\<rparr>) grouped
           @ map (\<lambda>n. \<lparr>d_layer = n, parts = [], untouched = True\<rparr>) others\<rparr>)"

end
