(* ===== verification/Layer_Properties.thy ===== *)
theory Layer_Properties
  imports Layer_State
begin

section \<open>What the plan gate admits and what a report says\<close>

text \<open>
  The gate's probes against one independent statement of an admissible plan, and the report of an
  admitted plan as a classification of every layer.
\<close>

definition part_admissible :: "part \<Rightarrow> bool" where
  "part_admissible p \<longleftrightarrow> (p_state p = ''revertible'' \<and> compensation_name p = None)
     \<or> (p_state p \<in> {''neither'', ''compensatable''} \<and> compensation_name p \<noteq> None \<and> compensation_tested p)"

definition decl_admissible :: "layer_decl \<Rightarrow> bool" where
  "decl_admissible d \<longleftrightarrow> (untouched d \<longleftrightarrow> parts d = []) \<and> distinct (map p_name (parts d)) \<and> [] \<notin> p_name ` set (parts d)
     \<and> (\<forall>p \<in> set (parts d). part_admissible p)
     \<and> (\<exists>y. layer_named (d_layer d) = Some y \<and> (accumulates y \<and> \<not> untouched d \<longrightarrow> (\<exists>p \<in> set (parts d). p_state p \<noteq> ''revertible'')))"

definition plan_admissible :: "rollback_plan \<Rightarrow> bool" where
  "plan_admissible plan \<longleftrightarrow> promotion plan \<noteq> [] \<and> distinct (map d_layer (declarations plan))
     \<and> d_layer ` set (declarations plan) = y_name ` set layers \<and> (\<forall>d \<in> set (declarations plan). decl_admissible d)"

lemma first_refusal_None: "first_refusal f xs = None \<longleftrightarrow> (\<forall>x \<in> set xs. f x = None)"
  by (induction xs) (auto split: option.splits)

lemma refuse_plan_not_None [simp]: "refuse_plan k y p \<noteq> None" "\<exists>r. refuse_plan k y p = Some r"
  by (simp_all add: refuse_plan_def)

lemma orelse_None: "(case r of Some x \<Rightarrow> Some x | None \<Rightarrow> q) = None \<longleftrightarrow> r = None \<and> q = None"
  by (cases r) auto

lemma check_part_names_None:
  "check_part_names y used ps = None \<longleftrightarrow> distinct (map p_name ps) \<and> [] \<notin> p_name ` set ps \<and> set used \<inter> p_name ` set ps = {}"
  by (induction ps arbitrary: used) auto

definition decl_shaped :: "layer_decl \<Rightarrow> bool" where
  "decl_shaped d \<longleftrightarrow> layer_named (d_layer d) \<noteq> None \<and> (untouched d \<longleftrightarrow> parts d = [])
     \<and> distinct (map p_name (parts d)) \<and> [] \<notin> p_name ` set (parts d)"

lemma check_decl_shapes_None:
  "check_decl_shapes used ds = None \<longleftrightarrow> distinct (map d_layer ds) \<and> set used \<inter> d_layer ` set ds = {} \<and> (\<forall>d \<in> set ds. decl_shaped d)"
  by (induction ds arbitrary: used)
    (auto simp: decl_shaped_def check_part_names_None orelse_None)

lemma by_layer_dom: "by_layer plan y = None \<longleftrightarrow> y \<notin> d_layer ` set (declarations plan)"
  by (force simp: by_layer_def map_of_eq_None_iff)

lemma check_coverage_None: "check_coverage plan = None \<longleftrightarrow> y_name ` set layers \<subseteq> d_layer ` set (declarations plan)"
  by (auto simp: check_coverage_def first_refusal_None by_layer_dom)

lemma classes_set: "fst ` set class_order = {''undeclared'', ''neither'', ''compensatable'', ''revertible''}"
  by (auto simp: class_order_def undeclared_def state_classes_def)

lemma check_class_None: "check_class y p = None \<longleftrightarrow> p_state p \<in> {''neither'', ''compensatable'', ''revertible''}"
  by (auto simp: check_class_def classes_set undeclared_def)

lemma class_rank_simps [simp]:
  "class_rank ''neither'' = 0" "class_rank ''compensatable'' = 1" "class_rank ''revertible'' = 2" "class_rank ''undeclared'' = -1"
  by (simp_all add: class_rank_def class_order_def undeclared_def state_classes_def dict_get_def)

lemma weakest_least: "c \<in> set cs \<Longrightarrow> weakest cs \<in> set cs \<and> class_rank (weakest cs) \<le> class_rank c"
  using min_by_least [of class_rank] by (cases cs) (auto simp: weakest_def)

lemma layer_named_in: "layer_named n = Some y \<Longrightarrow> y \<in> set layers \<and> y_name y = n"
  by (auto simp: layer_named_def dest!: map_of_SomeD)

lemma layer_named_self: "\<forall>y \<in> set layers. layer_named (y_name y) = Some y"
  by code_simp

lemma layer_named_dom: "layer_named n \<noteq> None \<longleftrightarrow> n \<in> y_name ` set layers"
  by (force simp: layer_named_def map_of_eq_None_iff)

lemma check_ceiling_None:
  assumes "decl_shaped d" "\<forall>p \<in> set (parts d). p_state p \<in> {''neither'', ''compensatable'', ''revertible''}"
  shows "check_ceiling d = None \<longleftrightarrow>
    (\<exists>y. layer_named (d_layer d) = Some y \<and> (accumulates y \<and> \<not> untouched d \<longrightarrow> (\<exists>p \<in> set (parts d). p_state p \<noteq> ''revertible'')))"
proof (cases "untouched d")
  case True
  then show ?thesis using assms(1) by (auto simp: check_ceiling_def decl_shaped_def)
next
  case False
  obtain y where y: "layer_named (d_layer d) = Some y" using assms(1) by (auto simp: decl_shaped_def)
  obtain p where p: "p \<in> set (parts d)" using False assms(1) by (cases "parts d") (auto simp: decl_shaped_def)
  let ?w = "decl_aggregate d"
  have w: "?w \<in> p_state ` set (parts d)" "\<forall>p \<in> set (parts d). class_rank ?w \<le> class_rank (p_state p)"
    using weakest_least [of _ "map p_state (parts d)"] p unfolding decl_aggregate_def by force+
  then have cls: "?w \<in> {''neither'', ''compensatable'', ''revertible''}" using assms(2) by auto
  have "at_or_below ?w ''compensatable'' \<longleftrightarrow> ?w \<noteq> ''revertible''"
    using cls by (auto simp: at_or_below_def classes_set)
  also have "\<dots> \<longleftrightarrow> (\<exists>p \<in> set (parts d). p_state p \<noteq> ''revertible'')"
    using w assms(2) cls by force
  finally have "at_or_below ?w ''compensatable'' \<longleftrightarrow> (\<exists>p \<in> set (parts d). p_state p \<noteq> ''revertible'')" .
  moreover have "at_or_below ?w ''revertible''" using cls by (auto simp: at_or_below_def classes_set)
  ultimately show ?thesis using y False by (auto simp: check_ceiling_def layer_ceiling_def)
qed

lemma check_compensation_None:
  assumes "p_state p \<in> {''neither'', ''compensatable'', ''revertible''}"
  shows "check_compensation y p = None \<longleftrightarrow> part_admissible p"
  using assms by (auto simp: check_compensation_def part_admissible_def)

text \<open>C11: The gate is exact.  A plan passes precisely when it names its promotion, accounts for each
  of the seven layers once, declares a layer untouched exactly when it has no part, gives every
  part a class and its name once, claims no accumulating layer restored, and names a tested
  compensation for exactly the parts that have no inverse.\<close>

theorem check_plan_exact: "check_plan plan = None \<longleftrightarrow> plan_admissible plan"
proof -
  have shape: "check_shape plan = None \<longleftrightarrow>
      promotion plan \<noteq> [] \<and> distinct (map d_layer (declarations plan)) \<and> (\<forall>d \<in> set (declarations plan). decl_shaped d)"
    by (auto simp: check_shape_def check_decl_shapes_None)
  have cover: "d_layer ` set (declarations plan) = y_name ` set layers"
    if "\<forall>d \<in> set (declarations plan). decl_shaped d" "y_name ` set layers \<subseteq> d_layer ` set (declarations plan)"
    using that layer_named_dom by (auto simp: decl_shaped_def)
  have part: "(\<forall>p \<in> set (parts d). check_class (d_layer d) p = None) \<and> (\<forall>p \<in> set (parts d). check_compensation (d_layer d) p = None)
      \<longleftrightarrow> (\<forall>p \<in> set (parts d). part_admissible p)" for d
    by (auto simp: check_class_None check_compensation_None) (auto simp: part_admissible_def check_compensation_None)
  have decl: "decl_admissible d \<longleftrightarrow> decl_shaped d \<and> check_ceiling d = None
      \<and> (\<forall>p \<in> set (parts d). check_class (d_layer d) p = None) \<and> (\<forall>p \<in> set (parts d). check_compensation (d_layer d) p = None)" for d
  proof -
    have "\<forall>p \<in> set (parts d). part_admissible p \<Longrightarrow> \<forall>p \<in> set (parts d). p_state p \<in> {''neither'', ''compensatable'', ''revertible''}"
      by (auto simp: part_admissible_def)
    then show ?thesis
      using part [of d] check_ceiling_None [of d] by (auto simp: decl_admissible_def decl_shaped_def)
  qed
  have "check_plan plan = None \<longleftrightarrow> promotion plan \<noteq> [] \<and> distinct (map d_layer (declarations plan))
      \<and> y_name ` set layers \<subseteq> d_layer ` set (declarations plan) \<and> (\<forall>d \<in> set (declarations plan). decl_admissible d)"
  proof -
    have "check_plan plan = None \<longleftrightarrow> check_shape plan = None \<and> check_coverage plan = None \<and> check_classes plan = None
        \<and> check_ceilings plan = None \<and> check_compensations plan = None"
      by (simp add: check_plan_def orelse_None first_refusal_None)
    then show ?thesis
      unfolding shape check_coverage_None check_classes_def check_ceilings_def check_compensations_def first_refusal_None decl
      by blast
  qed
  moreover have "\<forall>d \<in> set (declarations plan). decl_admissible d \<Longrightarrow> \<forall>d \<in> set (declarations plan). decl_shaped d"
    using decl by blast
  ultimately show ?thesis using cover unfolding plan_admissible_def by (metis order_refl)
qed

subsection \<open>The report of an admitted plan\<close>

definition is_restored :: "layer_decl \<Rightarrow> bool" where
  "is_restored d \<longleftrightarrow> \<not> untouched d \<and> (\<forall>p \<in> set (parts d). p_state p = ''revertible'')"

definition is_missed :: "string list \<Rightarrow> layer_decl \<Rightarrow> bool" where
  "is_missed ex d \<longleftrightarrow> \<not> untouched d \<and> (\<exists>p \<in> set (parts d). p_state p \<noteq> ''revertible'' \<and> \<not> part_ran ex p)"

definition is_covered :: "string list \<Rightarrow> layer_decl \<Rightarrow> bool" where
  "is_covered ex d \<longleftrightarrow> \<not> untouched d \<and> \<not> is_restored d \<and> \<not> is_missed ex d"

lemma report_layer_effect:
  "restored (report_layer ex r d) = restored r @ (if is_restored d then [d_layer d] else [])"
  "map (o_layer \<circ> fst) (compensated (report_layer ex r d)) = map (o_layer \<circ> fst) (compensated r) @ (if is_covered ex d then [d_layer d] else [])"
  "map o_layer (uncompensated (report_layer ex r d)) = map o_layer (uncompensated r) @ (if is_missed ex d then [d_layer d] else [])"
  "left_untouched (report_layer ex r d) = left_untouched r @ (if untouched d then [d_layer d] else [])"
  "refused (report_layer ex r d) = refused r"
  by (auto simp: report_layer_def Let_def is_restored_def is_covered_def is_missed_def outcome_of_def filter_empty_conv)

lemma report_fold:
  fixes ds :: "layer_decl list"
  shows "restored (fold (\<lambda>d r. report_layer ex r d) ds r) = restored r @ map d_layer (filter is_restored ds)"
    and "map (o_layer \<circ> fst) (compensated (fold (\<lambda>d r. report_layer ex r d) ds r)) = map (o_layer \<circ> fst) (compensated r) @ map d_layer (filter (is_covered ex) ds)"
    and "map o_layer (uncompensated (fold (\<lambda>d r. report_layer ex r d) ds r)) = map o_layer (uncompensated r) @ map d_layer (filter (is_missed ex) ds)"
    and "left_untouched (fold (\<lambda>d r. report_layer ex r d) ds r) = left_untouched r @ map d_layer (filter untouched ds)"
    and "refused (fold (\<lambda>d r. report_layer ex r d) ds r) = refused r"
  by (induction ds arbitrary: r) (simp_all add: report_layer_effect del: map_map)

text \<open>The declarations of an admissible plan, in registry order.\<close>

definition ordered_decls :: "rollback_plan \<Rightarrow> layer_decl list" where
  "ordered_decls plan = map (\<lambda>y. the (by_layer plan (y_name y))) layers"

lemma by_layer_decl:
  assumes "distinct (map d_layer (declarations plan))" "d \<in> set (declarations plan)"
  shows "by_layer plan (d_layer d) = Some d"
proof -
  have "distinct (map fst (rev (map (\<lambda>d. (d_layer d, d)) (declarations plan))))"
    using assms(1) by (simp add: rev_map [symmetric] comp_def)
  moreover have "(d_layer d, d) \<in> set (rev (map (\<lambda>d. (d_layer d, d)) (declarations plan)))" using assms(2) by simp
  ultimately show ?thesis unfolding by_layer_def by (metis map_of_is_SomeI)
qed

lemma ordered_decls_set:
  assumes "plan_admissible plan"
  shows "set (ordered_decls plan) = set (declarations plan)"
proof -
  have d: "distinct (map d_layer (declarations plan))" and s: "d_layer ` set (declarations plan) = y_name ` set layers"
    using assms by (auto simp: plan_admissible_def)
  have "set (ordered_decls plan) = (\<lambda>n. the (by_layer plan n)) ` (y_name ` set layers)"
    by (simp add: ordered_decls_def image_image)
  also have "\<dots> = (\<lambda>d. the (by_layer plan (d_layer d))) ` set (declarations plan)"
    unfolding s [symmetric] by (simp add: image_image)
  also have "\<dots> = set (declarations plan)" using by_layer_decl [OF d] by simp
  finally show ?thesis .
qed

lemma report_ordered:
  "check_plan plan = None \<Longrightarrow> report plan only
     = fold (\<lambda>d r. report_layer (executed_compensations plan only) r d) (ordered_decls plan) empty_rollback"
  by (simp add: report_def ordered_decls_def fold_map comp_def)

text \<open>The report of an admitted plan puts every layer under exactly the outcome it had: untouched
  where the plan says so, restored exactly where every part has an inverse, uncompensated where a
  part without one was left without its compensation, compensated otherwise.  A layer that
  accumulates state is never reported restored.\<close>

theorem report_classifies:
  assumes "check_plan plan = None"
  shows "set (restored (report plan only)) = d_layer ` {d \<in> set (declarations plan). is_restored d}
     \<and> set (map (o_layer \<circ> fst) (compensated (report plan only)))
         = d_layer ` {d \<in> set (declarations plan). is_covered (executed_compensations plan only) d}
     \<and> set (map o_layer (uncompensated (report plan only)))
         = d_layer ` {d \<in> set (declarations plan). is_missed (executed_compensations plan only) d}
     \<and> set (left_untouched (report plan only)) = d_layer ` {d \<in> set (declarations plan). untouched d}
     \<and> (\<forall>y \<in> set layers. accumulates y \<longrightarrow> y_name y \<notin> set (restored (report plan only)))"
proof -
  have adm: "plan_admissible plan" using assms check_plan_exact by blast
  note r = report_ordered [OF assms, of only] and s = ordered_decls_set [OF adm]
  have rest: "set (restored (report plan only)) = d_layer ` {d \<in> set (declarations plan). is_restored d}"
    unfolding r report_fold(1) by (simp add: s empty_rollback_def)
  moreover have "y_name y \<notin> set (restored (report plan only))" if y: "y \<in> set layers" "accumulates y" for y
  proof
    assume "y_name y \<in> set (restored (report plan only))"
    then obtain d where d: "d \<in> set (declarations plan)" "is_restored d" "d_layer d = y_name y" unfolding rest by auto
    have "layer_named (y_name y) = Some y" using layer_named_self y(1) by blast
    moreover have "decl_admissible d" using d(1) adm by (simp add: plan_admissible_def)
    ultimately show False using d(2,3) y(2) by (auto simp: decl_admissible_def is_restored_def)
  qed
  ultimately show ?thesis
    unfolding r report_fold by (simp add: s empty_rollback_def)
qed

definition route_plan :: rollback_plan where
  "route_plan = \<lparr>promotion = ''p1'', declarations =
     \<lparr>d_layer = ''routing'', parts = [\<lparr>p_name = ''arm'', p_state = ''revertible'', compensation = None\<rparr>,
        \<lparr>p_name = ''ledger'', p_state = ''neither'', compensation = Some [(''name'', JStr ''supersede''), (''tested'', JBool True)]\<rparr>], untouched = False\<rparr>
     # \<lparr>d_layer = ''policies'', parts = [\<lparr>p_name = ''rules'', p_state = ''revertible'', compensation = None\<rparr>], untouched = False\<rparr>
     # map (\<lambda>n. \<lparr>d_layer = n, parts = [], untouched = True\<rparr>) [''components'', ''workflows'', ''memory'', ''runtime'', ''device-placement'']\<rparr>"

theorem report_classifies_witness:
  "check_plan route_plan = None \<and> set (restored (report route_plan (Some []))) = {''policies''}
     \<and> map o_layer (uncompensated (report route_plan (Some []))) = [''routing'']"
proof -
  have c: "check_plan route_plan = None" by code_simp
  have "{d \<in> set (declarations route_plan). is_restored d} = {\<lparr>d_layer = ''policies'', parts = [\<lparr>p_name = ''rules'', p_state = ''revertible'', compensation = None\<rparr>], untouched = False\<rparr>}"
    by (auto simp: route_plan_def is_restored_def)
  moreover have "map o_layer (uncompensated (report route_plan (Some []))) = [''routing'']" by code_simp
  ultimately show ?thesis using report_classifies [OF c, of "Some []"] c by simp
qed

text \<open>A refused plan is reported with no residue.  The report of a plan the gate refuses carries
  the refusal and four empty lists, and its restoration flag is true, although nothing was
  restored and no layer is accounted for.\<close>

theorem refused_report_claims_restored:
  assumes "check_plan plan = Some f"
  shows "refused (report plan only) = Some f \<and> restored (report plan only) = [] \<and> fully_restored (report plan only)"
  using assms by (simp add: report_def empty_rollback_def fully_restored_def)

theorem refused_report_claims_restored_witness:
  "fully_restored (report (route_plan\<lparr>declarations := tl (declarations route_plan)\<rparr>) None)
     \<and> refused (report (route_plan\<lparr>declarations := tl (declarations route_plan)\<rparr>) None) = Some \<lparr>f_link = Layer_Unaccounted, f_layer = Some ''routing'', f_part = None\<rparr>"
proof -
  have "check_plan (route_plan\<lparr>declarations := tl (declarations route_plan)\<rparr>) = Some \<lparr>f_link = Layer_Unaccounted, f_layer = Some ''routing'', f_part = None\<rparr>"
    by code_simp
  then show ?thesis using refused_report_claims_restored by blast
qed

end
