(* ===== verification/Wal.thy ===== *)
theory Wal
  imports Json_Value
begin

section \<open>The write-ahead log, read side (\<open>src/revl/wal.py\<close>)\<close>

text \<open>
  A log is a file of bytes, one JSON record per line.  The parser of a line (UTF-8 decoding and
  \<^verbatim>\<open>json.loads\<close>) is the parameter \<open>parse\<close>, \<open>None\<close> when either step raises its decode error; the
  printer of a record is the parameter \<open>dumps\<close>.  What the code does with the bytes and with the
  parsed records is modelled in full, the exceptions a hostile record provokes included.
\<close>

type_synonym entry = "(string \<times> json) list"

datatype wal_error =
    Unhashable
  | Not_Iterable
  | Not_A_Record
  | Bad_Version json
  | Corrupt_Line nat
  | Placement_Index
  | Not_Unresolved int

definition is_kind :: "entry \<Rightarrow> string \<Rightarrow> bool" where
  "is_kind e k \<longleftrightarrow> member e ''record'' = JStr k"

definition key_of :: "json \<Rightarrow> wal_error + hkey" where
  "key_of v = (case hash_key v of None \<Rightarrow> Inl Unhashable | Some k \<Rightarrow> Inr k)"


subsection \<open>What a log settles\<close>

text \<open>\<^verbatim>\<open>set.update(x or [])\<close>: a falsy value adds nothing, a string adds its characters\<close>

definition elements_of :: "json \<Rightarrow> wal_error + json list" where
  "elements_of v = (if \<not> truthy v then Inr [] else case v of
       JArr xs \<Rightarrow> Inr xs
     | JStr s \<Rightarrow> Inr (map (\<lambda>c. JStr [c]) s)
     | JObj kvs \<Rightarrow> Inr (map (JStr \<circ> fst) kvs)
     | _ \<Rightarrow> Inl Not_Iterable)"

definition settled_of :: "entry \<Rightarrow> wal_error + hkey list" where
  "settled_of e =
     (if is_kind e ''discharge'' then res_bind (elements_of (member e ''discharged'')) (res_map key_of)
      else if is_kind e ''aborted'' then res_bind (elements_of (member e ''replayed'')) (res_map key_of)
      else Inr [])"

definition settled_descriptor_seqs :: "entry list \<Rightarrow> wal_error + hkey set" where
  "settled_descriptor_seqs rs = res_bind (res_map settled_of rs) (\<lambda>kss. Inr (set (concat kss)))"

text \<open>The join key of a spend and its emission, and of a decision and its crossing.\<close>

definition pair_key :: "string \<Rightarrow> string \<Rightarrow> entry \<Rightarrow> wal_error + hkey \<times> hkey" where
  "pair_key f g e = res_bind (key_of (member e f)) (\<lambda>a. res_bind (key_of (member e g)) (\<lambda>b. Inr (a, b)))"

fun decisions_from :: "(hkey \<times> hkey, entry) pydict \<Rightarrow> entry list \<Rightarrow> wal_error + (hkey \<times> hkey, entry) pydict" where
  "decisions_from d [] = Inr d"
| "decisions_from d (e # es) = (if \<not> is_kind e ''model-decision'' then decisions_from d es
     else res_bind (pair_key ''component'' ''stepIndex'' e) (\<lambda>k. decisions_from (AList.update k e d) es))"

definition model_decisions :: "entry list \<Rightarrow> wal_error + (hkey \<times> hkey, entry) pydict" where
  "model_decisions = decisions_from []"

abbreviation approval_key :: "entry \<Rightarrow> wal_error + hkey \<times> hkey" where
  "approval_key \<equiv> pair_key ''requestId'' ''use''"

type_synonym emissions = "(hkey \<times> hkey, int) pydict"

fun emissions_from :: "emissions \<Rightarrow> entry list \<Rightarrow> wal_error + emissions" where
  "emissions_from d [] = Inr d"
| "emissions_from d (e # es) = (if \<not> is_kind e ''approval-emission'' then emissions_from d es
     else res_bind (approval_key e) (\<lambda>k. emissions_from (AList.update k (dict_get d k 0 + 1) d) es))"

record spend =
  request :: json
  use_id :: json
  was_fired :: bool

fun spends_from :: "emissions \<Rightarrow> entry list \<Rightarrow> wal_error + spend list" where
  "spends_from d [] = Inr []"
| "spends_from d (e # es) = (if \<not> is_kind e ''approval-consumed'' then spends_from d es
     else res_bind (approval_key e) (\<lambda>k.
       let hit = dict_get d k 0 > 0; d = (if hit then AList.update k (dict_get d k 0 - 1) d else d) in
       res_bind (spends_from d es) (\<lambda>rest.
         Inr (\<lparr>request = member e ''requestId'', use_id = member e ''use'', was_fired = hit\<rparr> # rest))))"

definition approval_spends :: "entry list \<Rightarrow> wal_error + spend list" where
  "approval_spends rs = res_bind (emissions_from [] rs) (\<lambda>d. spends_from d rs)"

definition seqs_of :: "entry list \<Rightarrow> string list \<Rightarrow> int set" where
  "seqs_of rs kinds = set (concat (map (\<lambda>e. case member e ''seq'' of
     JInt n \<Rightarrow> if list_ex (is_kind e) kinds then [n] else [] | _ \<Rightarrow> []) rs))"

definition settled_seqs :: "entry list \<Rightarrow> int set" where
  "settled_seqs rs = seqs_of rs [''emission-complete'', ''operator-resolved'']"

text \<open>Membership of a document in a set of integers\<close>

definition seq_in :: "json \<Rightarrow> int set \<Rightarrow> wal_error + bool" where
  "seq_in v S = res_bind (key_of v) (\<lambda>k. Inr (k \<in> (\<lambda>n. H_Num (of_int n)) ` S))"


subsection \<open>The crossings nothing settles\<close>

datatype crossing =
    Lost_Emission json
  | Lost_Deferred json
  | Lost_Approval json json json

fun crossing_seq :: "crossing \<Rightarrow> json" where
  "crossing_seq (Lost_Emission s) = s"
| "crossing_seq (Lost_Deferred s) = s"
| "crossing_seq (Lost_Approval s _ _) = s"

definition last_approved :: "entry list \<Rightarrow> int" where
  "last_approved rs = fold (\<lambda>(i, e) m. if is_kind e ''commit-approved'' then int i else m) (enumerate 0 rs) (-1)"

definition effect_crossing :: "int set \<Rightarrow> int set \<Rightarrow> int \<Rightarrow> nat \<times> entry \<Rightarrow> wal_error + crossing list" where
  "effect_crossing settled flushed approved = (\<lambda>(i, e).
     let s = member e ''seq'' in
     if is_kind e ''effect'' \<and> member e ''kind'' = JStr ''emission''
     then res_bind (seq_in s settled) (\<lambda>b. Inr (if b then [] else [Lost_Emission s]))
     else if is_kind e ''deferred-emission'' \<and> int i < approved
     then res_bind (seq_in s (flushed \<union> settled)) (\<lambda>b. Inr (if b then [] else [Lost_Deferred s]))
     else Inr [])"

text \<open>The record that decides an activation-gate spend: the next header, generation or completion.\<close>

definition activation_completed :: "entry list \<Rightarrow> bool" where
  "activation_completed rest = (case find (\<lambda>e. is_kind e ''header'' \<or> is_kind e ''generation'' \<or> is_kind e ''activation-complete'') rest of
       Some e \<Rightarrow> is_kind e ''activation-complete''
     | None \<Rightarrow> False)"

fun approval_crossings :: "int set \<Rightarrow> emissions \<Rightarrow> entry list \<Rightarrow> wal_error + crossing list" where
  "approval_crossings settled d [] = Inr []"
| "approval_crossings settled d (e # rest) =
     (if \<not> is_kind e ''approval-consumed'' then approval_crossings settled d rest
      else res_bind (approval_key e) (\<lambda>k.
        if dict_get d k 0 \<noteq> 0 then approval_crossings settled (AList.update k (dict_get d k 0 - 1) d) rest
        else res_bind (seq_in (member e ''seq'') settled) (\<lambda>b.
          if b then approval_crossings settled d rest
          else if member e ''scope'' = JStr ''activation'' \<and> activation_completed rest
          then approval_crossings settled d rest
          else res_bind (approval_crossings settled d rest) (\<lambda>cs.
            Inr (Lost_Approval (member e ''seq'') (member e ''requestId'') (member e ''use'') # cs)))))"

definition unresolved_crossings :: "entry list \<Rightarrow> wal_error + crossing list" where
  "unresolved_crossings rs =
     (let settled = settled_seqs rs; flushed = seqs_of rs [''flushed'']; approved = last_approved rs in
      res_bind (res_map (effect_crossing settled flushed approved) (enumerate 0 rs)) (\<lambda>css.
      res_bind (emissions_from [] rs) (\<lambda>d.
      res_bind (approval_crossings settled d rs) (\<lambda>cs. Inr (concat css @ cs)))))"


subsection \<open>Reading the file\<close>

type_synonym bytes = "char list"

definition newline :: char where "newline = CHR 0x0A"

text \<open>Iterating a binary file: each line keeps its newline, the last may have none.\<close>

fun file_lines :: "bytes \<Rightarrow> bytes list" where
  "file_lines [] = []"
| "file_lines (c # cs) = (if c = newline then [c] # file_lines cs
     else case file_lines cs of [] \<Rightarrow> [[c]] | l # ls \<Rightarrow> (c # l) # ls)"

definition byte_space :: "char \<Rightarrow> bool" where
  "byte_space c \<longleftrightarrow> c \<in> set [CHR 0x20, CHR 0x09, CHR 0x0A, CHR 0x0B, CHR 0x0C, CHR 0x0D]"

definition blank_line :: "bytes \<Rightarrow> bool" where
  "blank_line l \<longleftrightarrow> list_all byte_space l"

definition check_version :: "entry \<Rightarrow> wal_error + unit" where
  "check_version h = res_bind (key_of (member h ''walVersion''))
     (\<lambda>k. if k = H_Num 1 then Inr () else Inl (Bad_Version (member h ''walVersion'')))"

record wal =
  w_header :: entry
  w_records :: "entry list"
  w_complete :: bool
  w_torn :: bool

definition empty_wal :: wal where
  "empty_wal = \<lparr>w_header = [], w_records = [], w_complete = False, w_torn = False\<rparr>"

definition read_entry :: "json \<Rightarrow> wal \<Rightarrow> wal_error + wal" where
  "read_entry v w = (case v of
       JObj e \<Rightarrow>
         if is_kind e ''placement-index'' then Inl Placement_Index
         else if is_kind e ''header'' then res_bind (check_version e) (\<lambda>_. Inr (w\<lparr>w_header := e\<rparr>))
         else if is_kind e ''activation-complete'' then Inr (w\<lparr>w_complete := True, w_records := w_records w @ [e]\<rparr>)
         else Inr (w\<lparr>w_records := w_records w @ [e]\<rparr>)
     | _ \<Rightarrow> Inl Not_A_Record)"

definition last_content :: "bytes list \<Rightarrow> int" where
  "last_content ls = fold (\<lambda>(i, l) m. if \<not> blank_line l then int i else m) (enumerate 0 ls) (-1)"

fun read_lines :: "(bytes \<Rightarrow> json option) \<Rightarrow> int \<Rightarrow> (nat \<times> bytes) list \<Rightarrow> wal \<Rightarrow> wal_error + wal" where
  "read_lines parse final [] w = Inr w"
| "read_lines parse final ((i, l) # ls) w =
     (if blank_line l then read_lines parse final ls w
      else case parse l of
          None \<Rightarrow> if int i = final then read_lines parse final ls (w\<lparr>w_torn := True\<rparr>) else Inl (Corrupt_Line i)
        | Some v \<Rightarrow> res_bind (read_entry v w) (read_lines parse final ls))"

definition read_wal :: "(bytes \<Rightarrow> json option) \<Rightarrow> bytes \<Rightarrow> wal_error + wal" where
  "read_wal parse bs = (let ls = file_lines bs in read_lines parse (last_content ls) (enumerate 0 ls) empty_wal)"


subsection \<open>Sealing a torn tail\<close>

text \<open>\<^verbatim>\<open>bytes.rfind\<close> of a newline, -1 when there is none\<close>

fun rfind_newline :: "bytes \<Rightarrow> int" where
  "rfind_newline [] = -1"
| "rfind_newline (c # cs) = (let r = rfind_newline cs in if r \<noteq> -1 then r + 1 else if c = newline then 0 else -1)"

text \<open>The backward scan in chunks of 4096 bytes, from a position in the file.\<close>

function scan_back :: "nat \<Rightarrow> bytes \<Rightarrow> nat \<Rightarrow> int" where
  "scan_back chunk bs pos = (if pos = 0 \<or> chunk = 0 then -1
     else let step = min chunk pos; start = pos - step; r = rfind_newline (take step (drop start bs))
       in if r \<noteq> -1 then int start + r else scan_back chunk bs start)"
  by pat_completeness auto
termination by (relation "measure (\<lambda>(chunk, bs, pos). pos)") auto

declare scan_back.simps [simp del]

definition last_newline_offset :: "bytes \<Rightarrow> int" where
  "last_newline_offset bs = scan_back 4096 bs (length bs)"

definition seal_torn_tail :: "bytes \<Rightarrow> bytes" where
  "seal_torn_tail bs = (if bs = [] then bs else if last bs = newline then bs
     else take (nat (last_newline_offset bs + 1)) bs)"

definition resolved_entry :: "int \<Rightarrow> entry" where
  "resolved_entry n = [(''record'', JStr ''operator-resolved''), (''seq'', JInt n)]"

definition resolve_crossing :: "(bytes \<Rightarrow> json option) \<Rightarrow> (entry \<Rightarrow> bytes) \<Rightarrow> bytes \<Rightarrow> int \<Rightarrow> wal_error + bytes" where
  "resolve_crossing parse dumps bs n =
     res_bind (read_wal parse bs) (\<lambda>w. res_bind (unresolved_crossings (w_records w)) (\<lambda>cs.
       if \<not> list_ex (\<lambda>c. hash_key (crossing_seq c) = Some (H_Num (of_int n))) cs then Inl (Not_Unresolved n)
       else Inr ((if w_torn w then seal_torn_tail bs else bs) @ dumps (resolved_entry n) @ [newline])))"

end
