(* ===== verification/Wal_File.thy ===== *)
theory Wal_File
  imports Wal
begin

section \<open>The log as a file: lines, the reader's gates and the sealer\<close>

text \<open>
  Splitting a file into lines, the backward scan for the last newline against its reference, what
  a successful read has kept, and what an append after a seal reads back.
\<close>

subsection \<open>Lines\<close>

lemma file_lines_concat: "concat (file_lines bs) = bs"
  by (induction bs) (auto split: list.splits)

lemma file_lines_nonempty: "l \<in> set (file_lines bs) \<Longrightarrow> l \<noteq> []"
  by (induction bs) (auto split: list.splits if_splits)

lemma file_lines_Nil [simp]: "file_lines bs = [] \<longleftrightarrow> bs = []"
  by (cases bs) (auto split: list.splits)

lemma file_lines_append:
  "bs = [] \<or> last bs = newline \<Longrightarrow> file_lines (bs @ cs) = file_lines bs @ file_lines cs"
proof (induction bs)
  case (Cons b bs)
  show ?case
  proof (cases "bs = []")
    case False
    then have "file_lines (bs @ cs) = file_lines bs @ file_lines cs" using Cons by simp
    moreover obtain l ls where "file_lines bs = l # ls" using False by (cases "file_lines bs") auto
    ultimately show ?thesis by simp
  qed (use Cons in simp)
qed simp

lemma file_lines_single: "newline \<notin> set l \<Longrightarrow> l \<noteq> [] \<Longrightarrow> file_lines l = [l]"
proof (induction l)
  case (Cons c l)
  then show ?case by (cases "l = []") auto
qed simp

lemma file_lines_terminated: "newline \<notin> set l \<Longrightarrow> file_lines (l @ [newline]) = [l @ [newline]]"
  by (induction l) auto

subsection \<open>The backward scan\<close>

lemma rfind_range: "-1 \<le> rfind_newline bs \<and> rfind_newline bs < int (length bs)"
  by (induction bs) (auto simp: Let_def)

lemma rfind_append: "rfind_newline (as @ bs) = (if rfind_newline bs \<noteq> -1 then int (length as) + rfind_newline bs else rfind_newline as)"
proof (induction as)
  case (Cons a as)
  show ?case using Cons rfind_range [of bs] by (cases "rfind_newline bs = -1") (simp_all add: Let_def)
qed simp

lemma rfind_split:
  assumes "newline \<notin> set b"
  shows "rfind_newline (a @ newline # b) = int (length a)"
proof -
  have "rfind_newline b = -1" using assms by (induction b) auto
  then show ?thesis by (simp add: rfind_append)
qed

lemma rfind_none: "newline \<notin> set b \<Longrightarrow> rfind_newline b = -1"
  by (induction b) auto

lemma scan_back_step:
  assumes "pos \<noteq> 0" "chunk \<noteq> 0" "step = min chunk pos" "start = pos - step"
  shows "scan_back chunk bs pos = (if rfind_newline (take step (drop start bs)) \<noteq> -1
     then int start + rfind_newline (take step (drop start bs)) else scan_back chunk bs start)"
  unfolding assms(3,4) by (subst scan_back.simps) (use assms(1,2) in \<open>simp only: Let_def if_False disj_not1 simp_thms\<close>)

lemma rfind_take_split:
  assumes "start \<le> length bs"
  shows "rfind_newline (take (start + step) bs) = (if rfind_newline (take step (drop start bs)) \<noteq> -1
     then int start + rfind_newline (take step (drop start bs)) else rfind_newline (take start bs))"
proof -
  have "length (take start bs) = start" using assms by simp
  then show ?thesis unfolding take_add rfind_append by (simp only:)
qed

lemma scan_back_rfind: "0 < chunk \<Longrightarrow> pos \<le> length bs \<Longrightarrow> scan_back chunk bs pos = rfind_newline (take pos bs)"
proof (induction pos rule: less_induct)
  case (less pos)
  show ?case
  proof (cases "pos = 0")
    case False
    define step where "step = min chunk pos"
    define start where "start = pos - step"
    have p: "pos = start + step" "start < pos" "start \<le> length bs"
      using False less.prems by (simp_all add: step_def start_def)
    have "scan_back chunk bs start = rfind_newline (take start bs)" using less.IH [OF p(2) less.prems(1) p(3)] .
    then show ?thesis
      using scan_back_step [OF False _ step_def start_def, of bs] rfind_take_split [OF p(3), of step] less.prems(1) p(1) by simp
  qed (simp add: scan_back.simps)
qed

lemma last_newline_offset_rfind: "last_newline_offset bs = rfind_newline bs"
  by (simp add: last_newline_offset_def scan_back_rfind)

text \<open>A file is a terminated part and an unterminated tail.\<close>

lemma split_tail:
  obtains body tail where "bs = body @ tail" "newline \<notin> set tail" "body = [] \<or> last body = newline"
proof (cases "newline \<in> set bs")
  case True
  then obtain a b where "bs = a @ newline # b" "newline \<notin> set b" using split_list_last by metis
  then show thesis using that [of "a @ [newline]" b] by simp
next
  case False
  then show thesis using that [of "[]" bs] by simp
qed

lemma seal_split:
  assumes "newline \<notin> set tail" "body = [] \<or> last body = newline"
  shows "seal_torn_tail (body @ tail) = body"
proof (cases "tail = []")
  case True
  then show ?thesis using assms by (auto simp: seal_torn_tail_def)
next
  case False
  then have "last (body @ tail) \<noteq> newline" using assms(1) by (metis last_appendR last_in_set)
  moreover have "nat (last_newline_offset (body @ tail) + 1) = length body"
  proof (cases "body = []")
    case True
    then show ?thesis using assms(1) by (simp add: last_newline_offset_rfind rfind_none)
  next
    case False
    then obtain a where "body = a @ [newline]" using assms(2) by (metis append_butlast_last_id)
    then show ?thesis using rfind_split [OF assms(1), of a] by (simp add: last_newline_offset_rfind)
  qed
  ultimately show ?thesis using False by (simp add: seal_torn_tail_def)
qed

text \<open>The sealer cuts exactly the unterminated tail: what it keeps is empty or ends in a
  newline, what it cuts has no newline, whatever the chunk boundaries of the backward scan, and a
  second seal changes nothing.\<close>

theorem seal_cuts_unterminated_tail:
  "\<exists>tail. bs = seal_torn_tail bs @ tail \<and> newline \<notin> set tail
     \<and> (seal_torn_tail bs = [] \<or> last (seal_torn_tail bs) = newline) \<and> seal_torn_tail (seal_torn_tail bs) = seal_torn_tail bs"
proof -
  obtain body tail where b: "bs = body @ tail" "newline \<notin> set tail" "body = [] \<or> last body = newline" by (rule split_tail)
  then have "seal_torn_tail bs = body" "seal_torn_tail body = body"
    using seal_split [OF b(2,3)] seal_split [of "[]" body] by simp_all
  then show ?thesis using b by auto
qed

subsection \<open>What a successful read kept\<close>

definition line_entries :: "(bytes \<Rightarrow> json option) \<Rightarrow> bytes list \<Rightarrow> entry list" where
  "line_entries parse ls = concat (map (\<lambda>l. case parse l of Some (JObj e) \<Rightarrow> [e] | _ \<Rightarrow> []) (filter (\<lambda>l. \<not> blank_line l) ls))"

definition add_entries :: "entry list \<Rightarrow> wal \<Rightarrow> wal" where
  "add_entries es w = w\<lparr>w_header := last (w_header w # filter (\<lambda>e. is_kind e ''header'') es),
     w_records := w_records w @ filter (\<lambda>e. \<not> is_kind e ''header'') es,
     w_complete := w_complete w \<or> list_ex (\<lambda>e. is_kind e ''activation-complete'') es\<rparr>"

lemma add_entries_Nil [simp]: "add_entries [] w = w"
  by (simp add: add_entries_def)

lemma is_kind_exclusive: "is_kind e k \<Longrightarrow> is_kind e k' \<longleftrightarrow> k = k'"
  by (auto simp: is_kind_def)

lemma read_entry_Inr: "read_entry v w = Inr w' \<Longrightarrow> \<exists>e. v = JObj e \<and> w' = add_entries [e] w"
  by (cases v) (auto simp: read_entry_def add_entries_def result_simps is_kind_def split: if_splits)

lemma add_entries_append: "add_entries es (add_entries [e] w) = add_entries (e # es) w"
  by (cases w) (simp add: add_entries_def)

lemma read_lines_steady:
  assumes "\<forall>(i, l) \<in> set ls. int i \<noteq> final"
  shows "read_lines parse final ls w = Inr w' \<Longrightarrow>
    w' = add_entries (line_entries parse (map snd ls)) w \<and> (\<forall>l \<in> set (map snd ls). \<not> blank_line l \<longrightarrow> (\<exists>e. parse l = Some (JObj e)))"
  using assms
proof (induction ls arbitrary: w)
  case (Cons x ls)
  obtain i l where x: "x = (i, l)" by fastforce
  show ?case
  proof (cases "blank_line l")
    case True
    then show ?thesis using Cons x by (simp add: line_entries_def)
  next
    case False
    then obtain v where v: "parse l = Some v" using Cons.prems x by (cases "parse l") auto
    obtain w1 where w1: "read_entry v w = Inr w1" "read_lines parse final ls w1 = Inr w'"
      using Cons.prems(1) x False v by (auto simp: result_simps)
    obtain e where e: "v = JObj e" "w1 = add_entries [e] w" using read_entry_Inr [OF w1(1)] by blast
    have "w' = add_entries (line_entries parse (map snd ls)) w1 \<and> (\<forall>l \<in> set (map snd ls). \<not> blank_line l \<longrightarrow> (\<exists>e. parse l = Some (JObj e)))"
      using Cons.IH [OF w1(2)] Cons.prems(2) by simp
    then show ?thesis using x False v e by (auto simp: line_entries_def add_entries_append)
  qed
qed (simp add: line_entries_def)

lemma read_lines_append:
  "read_lines parse final (xs @ ys) w = res_bind (read_lines parse final xs w) (read_lines parse final ys)"
proof (induction xs arbitrary: w)
  case (Cons x xs)
  obtain i l where x: "x = (i, l)" by fastforce
  show ?case
  proof (cases "parse l")
    case (Some v)
    then show ?thesis using Cons x by (cases "read_entry v w") auto
  qed (use Cons x in auto)
qed simp

lemma read_lines_blank: "\<forall>(i, l) \<in> set ls. blank_line l \<Longrightarrow> read_lines parse final ls w = Inr w"
  by (induction ls) auto

lemma last_content_split:
  assumes "\<not> blank_line l" "\<forall>b \<in> set bs. blank_line b"
  shows "last_content (as @ l # bs) = int (length as)"
proof -
  have "fold (\<lambda>(i, l) m. if \<not> blank_line l then int i else m) (enumerate n bs) m = m" for n m
    using assms(2) by (induction bs arbitrary: n) auto
  then show ?thesis using assms(1) by (simp add: last_content_def enumerate_append_eq)
qed

lemma content_split:
  obtains (blank) "\<forall>l \<in> set ls. blank_line l"
  | (content) as l bs where "ls = as @ l # bs" "\<not> blank_line l" "\<forall>b \<in> set bs. blank_line b"
  using split_list_last_prop [of ls "\<lambda>l. \<not> blank_line l"] by blast

text \<open>The read of a file whose last content line is known.\<close>

lemma read_wal_split:
  assumes "file_lines bs = as @ l # cs" "\<not> blank_line l" "\<forall>b \<in> set cs. blank_line b"
  shows "read_wal parse bs = res_bind (read_lines parse (int (length as)) (enumerate 0 as) empty_wal)
    (\<lambda>w. case parse l of None \<Rightarrow> Inr (w\<lparr>w_torn := True\<rparr>) | Some v \<Rightarrow> read_entry v w)"
proof -
  have tail: "read_lines parse final (enumerate n cs) w = Inr w" for final n w
    using assms(3) by (intro read_lines_blank) (auto simp: in_set_enumerate_eq)
  have last: "read_lines parse (int (length as)) ((length as, l) # enumerate (Suc (length as)) cs) w
      = (case parse l of None \<Rightarrow> Inr (w\<lparr>w_torn := True\<rparr>) | Some v \<Rightarrow> read_entry v w)" for w
  proof (cases "parse l")
    case (Some v)
    then show ?thesis using assms(2) tail by (cases "read_entry v w") auto
  qed (use assms(2) tail in simp)
  show ?thesis
    unfolding read_wal_def Let_def assms(1) last_content_split [OF assms(2,3)]
    by (simp only: enumerate_append_eq read_lines_append enumerate_simps add_0_left add_0_right plus_nat.add_0 last cong: res_bind_cong)
qed

lemma enumerate_fresh: "\<forall>(i, l) \<in> set (enumerate 0 as). int i \<noteq> int (length as)"
  by (auto simp: in_set_enumerate_eq)

lemma line_entries_append: "line_entries parse (xs @ ys) = line_entries parse xs @ line_entries parse ys"
  by (simp add: line_entries_def)

lemma line_entries_blank: "\<forall>l \<in> set ls. blank_line l \<Longrightarrow> line_entries parse ls = []"
  by (simp add: line_entries_def filter_empty_conv)

lemma read_wal_kept:
  assumes "read_wal parse bs = Inr w"
  shows "w_records w = filter (\<lambda>e. \<not> is_kind e ''header'') (line_entries parse (file_lines bs))
     \<and> (\<forall>l \<in> set (butlast (filter (\<lambda>l. \<not> blank_line l) (file_lines bs))). \<exists>e. parse l = Some (JObj e))
     \<and> (w_torn w \<longleftrightarrow> (\<exists>l \<in> set (file_lines bs). \<not> blank_line l \<and> parse l = None))
     \<and> (w_complete w \<longleftrightarrow> (\<exists>e \<in> set (w_records w). is_kind e ''activation-complete''))"
proof (cases rule: content_split [of "file_lines bs"])
  case blank
  then have "read_wal parse bs = Inr empty_wal"
    unfolding read_wal_def Let_def by (intro read_lines_blank) (auto simp: in_set_enumerate_eq)
  then show ?thesis using assms blank by (auto simp: empty_wal_def line_entries_blank filter_empty_conv)
next
  case (content as l cs)
  obtain w1 where w1: "read_lines parse (int (length as)) (enumerate 0 as) empty_wal = Inr w1"
    and fin: "(case parse l of None \<Rightarrow> Inr (w1\<lparr>w_torn := True\<rparr>) | Some v \<Rightarrow> read_entry v w1) = Inr w"
    using assms unfolding read_wal_split [OF content] by (auto simp: result_simps)
  have s: "w1 = add_entries (line_entries parse as) empty_wal" and all: "\<forall>l \<in> set as. \<not> blank_line l \<longrightarrow> (\<exists>e. parse l = Some (JObj e))"
    using read_lines_steady [OF enumerate_fresh w1] by simp_all
  have contents: "filter (\<lambda>l. \<not> blank_line l) (file_lines bs) = filter (\<lambda>l. \<not> blank_line l) as @ [l]"
    using content by (simp add: filter_empty_conv)
  have act: "is_kind e ''activation-complete'' \<Longrightarrow> \<not> is_kind e ''header''" for e by (simp add: is_kind_def)
  show ?thesis
  proof (cases "parse l")
    case None
    then have w: "w = w1\<lparr>w_torn := True\<rparr>" using fin by simp
    have "line_entries parse (file_lines bs) = line_entries parse as"
      using content None line_entries_blank [OF content(3), of parse] by (simp add: line_entries_def filter_empty_conv)
    then show ?thesis
      using w s all content None act unfolding contents
      by (auto simp: add_entries_def empty_wal_def list_ex_iff)
  next
    case (Some v)
    then obtain e where e: "v = JObj e" "w = add_entries [e] w1" using fin read_entry_Inr [of v w1 w] by auto
    have le: "line_entries parse (file_lines bs) = line_entries parse as @ [e]"
      using content Some e(1) line_entries_blank [OF content(3), of parse] by (simp add: line_entries_def filter_empty_conv)
    have "\<not> (\<exists>l \<in> set (file_lines bs). \<not> blank_line l \<and> parse l = None)" using all content Some by auto
    then show ?thesis
      using e s all act unfolding contents le
      by (auto simp: add_entries_def empty_wal_def list_ex_iff)
  qed
qed

text \<open>C12: A read drops no committed record.  When the reader accepts a file, every content line
  before the last is a record object it returns, in order; only the last content line may fail to
  parse, and then the read says torn; the run counts as complete exactly when one of the records
  is the completion marker.  A file with an unparseable line before its last content line is
  never accepted.\<close>

theorem read_wal_keeps_every_record:
  assumes "read_wal parse bs = Inr w"
  shows "w_records w = filter (\<lambda>e. \<not> is_kind e ''header'') (line_entries parse (file_lines bs))
     \<and> (\<forall>l \<in> set (butlast (filter (\<lambda>l. \<not> blank_line l) (file_lines bs))). \<exists>e. parse l = Some (JObj e))
     \<and> (w_torn w \<longleftrightarrow> (\<exists>l \<in> set (file_lines bs). \<not> blank_line l \<and> parse l = None))
     \<and> (w_complete w \<longleftrightarrow> (\<exists>e \<in> set (w_records w). is_kind e ''activation-complete''))"
  using assms by (rule read_wal_kept)

definition letter_parse :: "bytes \<Rightarrow> json option" where
  "letter_parse l = (case l of c # _ \<Rightarrow> if c = CHR ''E'' then Some (JObj [(''record'', JStr ''effect'')])
     else if c = CHR ''A'' then Some (JObj [(''record'', JStr ''activation-complete'')]) else None | [] \<Rightarrow> None)"

theorem read_wal_keeps_every_record_witness:
  "\<exists>w. read_wal letter_parse [CHR ''E'', newline, CHR ''A'', newline, CHR ''x''] = Inr w \<and> w_torn w \<and> w_complete w
     \<and> w_records w = [[(''record'', JStr ''effect'')], [(''record'', JStr ''activation-complete'')]]"
proof -
  have r: "read_wal letter_parse [CHR ''E'', newline, CHR ''A'', newline, CHR ''x'']
     = Inr \<lparr>w_header = [], w_records = [[(''record'', JStr ''effect'')], [(''record'', JStr ''activation-complete'')]], w_complete = True, w_torn = True\<rparr>"
    by code_simp
  have "line_entries letter_parse (file_lines [CHR ''E'', newline, CHR ''A'', newline, CHR ''x''])
     = [[(''record'', JStr ''effect'')], [(''record'', JStr ''activation-complete'')]]" by code_simp
  then show ?thesis using read_wal_keeps_every_record [OF r] r by simp
qed

end
