(* ===== verification/Wal_Properties.thy ===== *)
theory Wal_Properties
  imports Wal_File
begin

section \<open>Appending to a log, and what its records settle\<close>

text \<open>
  The append that every writer makes after a seal, the two files on which the append of
  \<open>resolve_crossing\<close> goes wrong, the effect of an operator's acknowledgement, and the join of
  approval spends with their emissions.
\<close>

definition plain_entry :: "entry \<Rightarrow> bool" where
  "plain_entry e \<longleftrightarrow> \<not> is_kind e ''header'' \<and> \<not> is_kind e ''placement-index''"

text \<open>A printed line: no newline inside, not blank, and read back as the record it was printed from.\<close>

definition prints :: "(bytes \<Rightarrow> json option) \<Rightarrow> (entry \<Rightarrow> bytes) \<Rightarrow> entry \<Rightarrow> bool" where
  "prints parse dumps e \<longleftrightarrow> newline \<notin> set (dumps e) \<and> \<not> blank_line (dumps e @ [newline])
     \<and> parse (dumps e @ [newline]) = Some (JObj e)"

text \<open>The file ends at a record boundary, or in an unterminated line that does not parse.\<close>

definition clean_end :: "bytes \<Rightarrow> wal \<Rightarrow> bool" where
  "clean_end bs w \<longleftrightarrow> (if bs = [] \<or> last bs = newline then \<not> w_torn w
     else w_torn w \<and> \<not> blank_line (last (file_lines bs)))"

lemma read_lines_torn:
  "read_lines parse final ls w = Inr w' \<Longrightarrow> \<forall>(i, l) \<in> set ls. int i \<noteq> final \<Longrightarrow> w_torn w' = w_torn w"
  by (drule read_lines_steady [rotated]) (simp_all add: add_entries_def)

lemma read_lines_final_irrelevant:
  assumes "\<forall>(i, l) \<in> set ls. int i \<noteq> final \<or> parse l \<noteq> None" "\<forall>(i, l) \<in> set ls. int i \<noteq> final'"
  shows "read_lines parse final ls w = Inr w' \<Longrightarrow> read_lines parse final' ls w = Inr w'"
  using assms
proof (induction ls arbitrary: w)
  case (Cons x ls)
  obtain i l where x: "x = (i, l)" by fastforce
  show ?case
  proof (cases "blank_line l \<or> parse l = None")
    case True
    then show ?thesis using Cons x by (auto split: option.splits if_splits)
  next
    case False
    then obtain v where v: "parse l = Some v" by auto
    obtain w1 where "read_entry v w = Inr w1" "read_lines parse final ls w1 = Inr w'"
      using Cons.prems(1) x False v by (auto simp: result_simps)
    then show ?thesis using Cons.IH [of w1] Cons.prems(2,3) x False v by simp
  qed
qed simp

text \<open>When a read succeeds untorn, appending a terminated printed line adds its record.\<close>

lemma read_wal_lines: "read_wal parse bs = read_lines parse (last_content (file_lines bs)) (enumerate 0 (file_lines bs)) empty_wal"
  by (simp add: read_wal_def Let_def)

lemma read_untorn_lines:
  assumes "read_lines parse final (enumerate 0 ls) empty_wal = Inr w" "\<not> w_torn w"
    and "\<forall>l \<in> set ls. \<not> blank_line l \<longrightarrow> parse l \<noteq> None"
  shows "read_lines parse (int (length ls)) (enumerate 0 ls) empty_wal = Inr w"
proof -
  have blank_free: "read_lines parse f xs v = read_lines parse f (filter (\<lambda>(i, l). \<not> blank_line l) xs) v" for f xs v
  proof (induction xs arbitrary: v)
    case (Cons x xs)
    obtain i l where "x = (i, l)" by fastforce
    then show ?case using Cons by (auto split: option.splits intro!: res_bind_cong)
  qed simp
  have "read_lines parse final (filter (\<lambda>(i, l). \<not> blank_line l) (enumerate 0 ls)) empty_wal = Inr w"
    using assms(1) blank_free by metis
  then have "read_lines parse (int (length ls)) (filter (\<lambda>(i, l). \<not> blank_line l) (enumerate 0 ls)) empty_wal = Inr w"
    by (rule read_lines_final_irrelevant [rotated 2])
      (use assms(3) in \<open>auto simp: in_set_enumerate_eq\<close>)
  then show ?thesis using blank_free by metis
qed

lemma append_read:
  assumes ls: "file_lines (bs @ dumps e @ [newline]) = ls @ [dumps e @ [newline]]"
    and rd: "read_lines parse (int (length ls)) (enumerate 0 ls) empty_wal = Inr w"
    and pr: "prints parse dumps e" "plain_entry e"
  shows "read_wal parse (bs @ dumps e @ [newline]) = Inr (add_entries [e] w)"
proof -
  have "read_wal parse (bs @ dumps e @ [newline]) = res_bind (Inr w) (\<lambda>w. case parse (dumps e @ [newline]) of None \<Rightarrow> Inr (w\<lparr>w_torn := True\<rparr>) | Some v \<Rightarrow> read_entry v w)"
    using read_wal_split [of "bs @ dumps e @ [newline]" ls "dumps e @ [newline]" "[]" parse] ls rd pr(1) by (simp add: prints_def)
  then show ?thesis
    using pr by (simp add: prints_def plain_entry_def read_entry_def add_entries_def)
qed

lemma untorn_parses:
  "read_wal parse bs = Inr w \<Longrightarrow> \<not> w_torn w \<Longrightarrow> l \<in> set (file_lines bs) \<Longrightarrow> \<not> blank_line l \<Longrightarrow> parse l \<noteq> None"
  using read_wal_kept [of parse bs w] by auto

lemma read_append_sealed:
  assumes rd: "read_wal parse bs = Inr w" and ce: "clean_end bs w" and pr: "prints parse dumps e" "plain_entry e"
  shows "read_wal parse (seal_torn_tail bs @ dumps e @ [newline]) = Inr (add_entries [e] (w\<lparr>w_torn := False\<rparr>))"
proof (cases "bs = [] \<or> last bs = newline")
  case True
  have nl: "newline \<notin> set (dumps e)" using pr(1) by (simp add: prints_def)
  have untorn: "\<not> w_torn w" using ce True by (simp add: clean_end_def)
  have sealed: "seal_torn_tail bs = bs" using True by (auto simp: seal_torn_tail_def)
  have "read_lines parse (int (length (file_lines bs))) (enumerate 0 (file_lines bs)) empty_wal = Inr w"
    using read_untorn_lines [OF rd [unfolded read_wal_lines] untorn] untorn_parses [OF rd untorn] by blast
  moreover have "file_lines (bs @ dumps e @ [newline]) = file_lines bs @ [dumps e @ [newline]]"
    using file_lines_append [OF True] file_lines_terminated [OF nl] by simp
  ultimately have "read_wal parse (bs @ dumps e @ [newline]) = Inr (add_entries [e] w)"
    by (rule append_read [rotated, OF _ pr])
  moreover have "w\<lparr>w_torn := False\<rparr> = w" using untorn by (cases w) simp
  ultimately show ?thesis by (simp only: sealed)
next
  case False
  obtain body tail where b: "bs = body @ tail" "newline \<notin> set tail" "body = [] \<or> last body = newline" by (rule split_tail)
  have t: "tail \<noteq> []" using False b by auto
  have nl: "newline \<notin> set (dumps e)" using pr(1) by (simp add: prints_def)
  have lines: "file_lines bs = file_lines body @ [tail]"
    using file_lines_append [OF b(3)] file_lines_single [OF b(2) t] b(1) by simp
  have torn: "w_torn w" "\<not> blank_line tail" using ce False lines by (simp_all add: clean_end_def)
  obtain w1 where w1: "read_lines parse (int (length (file_lines body))) (enumerate 0 (file_lines body)) empty_wal = Inr w1"
    and fin: "(case parse tail of None \<Rightarrow> Inr (w1\<lparr>w_torn := True\<rparr>) | Some v \<Rightarrow> read_entry v w1) = Inr w"
    using rd read_wal_split [of bs "file_lines body" tail "[]" parse] lines torn(2) by (auto simp: result_simps)
  have u: "\<not> w_torn w1" using read_lines_torn [OF w1 enumerate_fresh] by (simp add: empty_wal_def)
  have "parse tail = None"
  proof (rule ccontr)
    assume "parse tail \<noteq> None"
    then obtain v where "read_entry v w1 = Inr w" using fin by auto
    then show False using read_entry_Inr [of v w1 w] torn(1) u by (auto simp: add_entries_def)
  qed
  then have w: "w = w1\<lparr>w_torn := True\<rparr>" using fin by simp
  have "file_lines (body @ dumps e @ [newline]) = file_lines body @ [dumps e @ [newline]]"
    using file_lines_append [OF b(3)] file_lines_terminated [OF nl] by simp
  then have "read_wal parse (body @ dumps e @ [newline]) = Inr (add_entries [e] w1)" by (rule append_read [OF _ w1 pr])
  moreover have "w\<lparr>w_torn := False\<rparr> = w1" using w u by (cases w1) simp
  ultimately show ?thesis using seal_split [OF b(2,3)] b(1) by simp
qed

text \<open>An append after a seal is durable.  On a log the reader accepts and that ends at a record
  boundary, or in an unterminated line that does not parse, sealing and appending a printed
  record gives a log that reads back as the old records and the new one, untorn.\<close>

theorem sealed_append_reads_back:
  assumes "read_wal parse bs = Inr w" "clean_end bs w" "prints parse dumps e" "plain_entry e"
  shows "\<exists>w'. read_wal parse (seal_torn_tail bs @ dumps e @ [newline]) = Inr w'
     \<and> w_records w' = w_records w @ [e] \<and> w_header w' = w_header w \<and> \<not> w_torn w'
     \<and> w_complete w' = (w_complete w \<or> is_kind e ''activation-complete'')"
  using read_append_sealed [OF assms] assms(4) by (simp add: add_entries_def plain_entry_def)

text \<open>A parser that knows two lines, for concrete logs.\<close>

definition fence_entry :: entry where "fence_entry = [(''record'', JStr ''replay-fence'')]"
definition owed_entry :: entry where
  "owed_entry = [(''record'', JStr ''effect''), (''kind'', JStr ''emission''), (''seq'', JInt 7)]"

definition ex_dumps :: "entry \<Rightarrow> bytes" where
  "ex_dumps e = (if e = fence_entry then ''F'' else if e = owed_entry then ''O'' else ''R'')"

definition ex_parse :: "bytes \<Rightarrow> json option" where
  "ex_parse l = (case filter (\<lambda>c. \<not> byte_space c) l of
     [c] \<Rightarrow> if c = CHR ''F'' then Some (JObj fence_entry) else if c = CHR ''O'' then Some (JObj owed_entry)
            else if c = CHR ''R'' then Some (JObj (resolved_entry 7)) else None
   | _ \<Rightarrow> None)"

lemma ex_prints: "prints ex_parse ex_dumps fence_entry" "prints ex_parse ex_dumps owed_entry" "prints ex_parse ex_dumps (resolved_entry 7)"
  by code_simp+

theorem sealed_append_reads_back_witness:
  "map_option w_records (case read_wal ex_parse (seal_torn_tail [CHR ''O'', newline, CHR ''x''] @ ex_dumps fence_entry @ [newline]) of Inr w \<Rightarrow> Some w | _ \<Rightarrow> None) = Some [owed_entry, fence_entry]"
proof -
  have r: "read_wal ex_parse [CHR ''O'', newline, CHR ''x''] = Inr (\<lparr>w_header = [], w_records = [owed_entry], w_complete = False, w_torn = True\<rparr>)"
    by code_simp
  have "clean_end [CHR ''O'', newline, CHR ''x''] \<lparr>w_header = [], w_records = [owed_entry], w_complete = False, w_torn = True\<rparr>" by code_simp
  then show ?thesis
    using sealed_append_reads_back [OF r _ ex_prints(1)] by (auto simp: plain_entry_def fence_entry_def is_kind_def member_def dict_get_def)
qed

subsection \<open>Two files the append gets wrong\<close>

lemma read_one_more:
  assumes "body = [] \<or> last body = newline" "file_lines tail = [tail]" "\<not> blank_line tail"
  shows "read_wal parse (body @ tail) = res_bind (read_lines parse (int (length (file_lines body))) (enumerate 0 (file_lines body)) empty_wal)
    (\<lambda>w. case parse tail of None \<Rightarrow> Inr (w\<lparr>w_torn := True\<rparr>) | Some v \<Rightarrow> read_entry v w)"
  using read_wal_split [of "body @ tail" "file_lines body" tail "[]" parse] file_lines_append [OF assms(1), of tail] assms(2,3) by simp

lemma line_terminated: "newline \<notin> set l \<Longrightarrow> file_lines (l @ [newline]) = [l @ [newline]]"
  by (rule file_lines_terminated)

text \<open>An acknowledgement can destroy the record before it.  When the last record of a log is whole
  but its newline was not written, the reader returns it and says untorn, so \<open>resolve_crossing\<close>
  appends without sealing: the acknowledgement and the record become one line, which no longer
  parses, and the next read has lost both.\<close>

theorem resolve_merges_unterminated_record:
  assumes "body = [] \<or> last body = newline" "newline \<notin> set (dumps e)" "dumps e \<noteq> []" "\<not> blank_line (dumps e)"
    and "parse (dumps e) = Some (JObj e)" "plain_entry e" "newline \<notin> set (dumps (resolved_entry n))"
    and "parse (dumps e @ dumps (resolved_entry n) @ [newline]) = None"
    and "resolve_crossing parse dumps (body @ dumps e) n = Inr bs'"
  shows "\<exists>w w'. read_wal parse (body @ dumps e) = Inr w \<and> \<not> w_torn w \<and> read_wal parse bs' = Inr w' \<and> w_torn w'
     \<and> w_records w = w_records w' @ [e]"
proof -
  let ?start = "read_lines parse (int (length (file_lines body))) (enumerate 0 (file_lines body)) empty_wal"
  obtain w where rd: "read_wal parse (body @ dumps e) = Inr w"
    and bs': "bs' = (if w_torn w then seal_torn_tail (body @ dumps e) else body @ dumps e) @ dumps (resolved_entry n) @ [newline]"
    using assms(9) by (auto simp: resolve_crossing_def result_simps split: if_splits)
  have one: "read_wal parse (body @ dumps e) = res_bind ?start (read_entry (JObj e))"
    using read_one_more [OF assms(1) file_lines_single [OF assms(2,3)] assms(4), of parse] assms(5) by simp
  obtain w1 where w1: "?start = Inr w1" "read_entry (JObj e) w1 = Inr w" using rd one by (auto simp: result_simps)
  have u: "\<not> w_torn w1" using read_lines_torn [OF w1(1) enumerate_fresh] by (simp add: empty_wal_def)
  have w: "w = add_entries [e] w1" using read_entry_Inr [OF w1(2)] by simp
  then have untorn: "\<not> w_torn w" using u by (simp add: add_entries_def)
  let ?merged = "(dumps e @ dumps (resolved_entry n)) @ [newline]"
  have "\<not> blank_line ?merged" using assms(4) by (simp add: blank_line_def)
  moreover have "file_lines ?merged = [?merged]" using assms(2,7) by (intro file_lines_terminated) simp
  ultimately have "read_wal parse (body @ ?merged) = Inr (w1\<lparr>w_torn := True\<rparr>)"
    using read_one_more [OF assms(1), of ?merged parse] assms(8) w1(1) by simp
  then show ?thesis using rd untorn bs' w assms(6) by (simp add: add_entries_def plain_entry_def)
qed

theorem resolve_merges_unterminated_record_witness:
  "\<exists>bs' w w'. resolve_crossing ex_parse ex_dumps ''O'' 7 = Inr bs' \<and> read_wal ex_parse ''O'' = Inr w \<and> read_wal ex_parse bs' = Inr w'
     \<and> w_records w = w_records w' @ [owed_entry]"
proof -
  have r: "resolve_crossing ex_parse ex_dumps ([] @ ex_dumps owed_entry) 7 = Inr [CHR ''O'', CHR ''R'', newline]"
    by code_simp
  have "\<exists>w w'. read_wal ex_parse ([] @ ex_dumps owed_entry) = Inr w \<and> \<not> w_torn w \<and> read_wal ex_parse [CHR ''O'', CHR ''R'', newline] = Inr w' \<and> w_torn w'
     \<and> w_records w = w_records w' @ [owed_entry]"
    by (rule resolve_merges_unterminated_record [OF _ _ _ _ _ _ _ _ r]; code_simp)
  moreover have "ex_dumps owed_entry = ''O''" by code_simp
  ultimately show ?thesis using r by (metis append_Nil)
qed

text \<open>A torn line that is terminated is never sealed.  When the last line of a log does not parse
  but ends in a newline, the reader tolerates it as torn, but the sealer leaves it, and any
  record appended after it makes the log one the reader refuses for ever, as corrupt in mid-file.\<close>

theorem sealed_append_after_terminated_garbage:
  assumes "body = [] \<or> last body = newline" "newline \<notin> set g" "\<not> blank_line g" "parse (g @ [newline]) = None"
    and "read_wal parse (body @ g @ [newline]) = Inr w" "prints parse dumps e"
  shows "w_torn w \<and> seal_torn_tail (body @ g @ [newline]) = body @ g @ [newline]
     \<and> read_wal parse (seal_torn_tail (body @ g @ [newline]) @ dumps e @ [newline]) = Inl (Corrupt_Line (length (file_lines body)))"
proof -
  let ?g = "g @ [newline]" and ?d = "dumps e @ [newline]" and ?n = "length (file_lines body)"
  have fg: "file_lines ?g = [?g]" by (rule file_lines_terminated [OF assms(2)])
  have bg: "\<not> blank_line ?g" using assms(3) by (simp add: blank_line_def)
  have fd: "file_lines ?d = [?d]" "\<not> blank_line ?d" using assms(6) file_lines_terminated by (simp_all add: prints_def)
  obtain w1 where w1: "read_lines parse (int ?n) (enumerate 0 (file_lines body)) empty_wal = Inr w1" and w: "w = w1\<lparr>w_torn := True\<rparr>"
    using assms(5) read_one_more [OF assms(1) fg bg, of parse] assms(4) by (auto simp: result_simps)
  have sealed: "seal_torn_tail (body @ ?g) = body @ ?g" by (simp add: seal_torn_tail_def)
  have "file_lines (body @ ?g) = file_lines body @ [?g]" using file_lines_append [OF assms(1), of ?g] fg by simp
  then have ls: "file_lines ((body @ ?g) @ ?d) = (file_lines body @ [?g]) @ [?d]"
    using file_lines_append [of "body @ ?g" ?d] fd(1) by simp
  have "read_lines parse (int (Suc ?n)) (enumerate 0 (file_lines body)) empty_wal = Inr w1"
    by (rule read_lines_final_irrelevant [OF _ _ w1]) (auto simp: in_set_enumerate_eq)
  then have "read_lines parse (int (length (file_lines body @ [?g]))) (enumerate 0 (file_lines body @ [?g])) empty_wal = Inl (Corrupt_Line ?n)"
    using bg assms(4) by (simp add: enumerate_append_eq read_lines_append)
  then have "read_wal parse ((body @ ?g) @ ?d) = Inl (Corrupt_Line ?n)"
    using read_wal_split [of "(body @ ?g) @ ?d" "file_lines body @ [?g]" ?d "[]" parse] ls fd(2) by simp
  then show ?thesis using sealed w by simp
qed

theorem sealed_append_after_terminated_garbage_witness:
  "read_wal ex_parse (seal_torn_tail [CHR ''O'', newline, CHR ''x'', newline] @ ex_dumps fence_entry @ [newline]) = Inl (Corrupt_Line 1)"
proof -
  have r: "read_wal ex_parse ([CHR ''O'', newline] @ ''x'' @ [newline]) = Inr \<lparr>w_header = [], w_records = [owed_entry], w_complete = False, w_torn = True\<rparr>"
    by code_simp
  have "read_wal ex_parse (seal_torn_tail ([CHR ''O'', newline] @ ''x'' @ [newline]) @ ex_dumps fence_entry @ [newline])
     = Inl (Corrupt_Line (length (file_lines [CHR ''O'', newline])))"
    by (rule sealed_append_after_terminated_garbage [OF _ _ _ _ r ex_prints(1), THEN conjunct2, THEN conjunct2]; code_simp)
  moreover have "length (file_lines [CHR ''O'', newline]) = 1" by code_simp
  ultimately show ?thesis by simp
qed

end
