(* ===== verification/Wal_Settlement.thy ===== *)
theory Wal_Settlement
  imports Wal_Properties
begin

section \<open>What an acknowledgement settles, and which spends fired\<close>

text \<open>
  The report of unresolved crossings before and after an operator's acknowledgement, and the
  approval spends joined to the emissions that returned.
\<close>

lemma resolved_kinds:
  "is_kind (resolved_entry n) k \<longleftrightarrow> k = ''operator-resolved''" "member (resolved_entry n) ''seq'' = JInt n"
  by (auto simp: is_kind_def resolved_entry_def member_def dict_get_def)

lemma settled_seqs_resolved: "settled_seqs (rs @ [resolved_entry n]) = insert n (settled_seqs rs)"
  by (simp add: settled_seqs_def seqs_of_def resolved_kinds)

lemma flushed_resolved: "seqs_of (rs @ [resolved_entry n]) [''flushed''] = seqs_of rs [''flushed'']"
  by (simp add: seqs_of_def resolved_kinds)

lemma last_approved_resolved: "last_approved (rs @ [resolved_entry n]) = last_approved rs"
  by (simp add: last_approved_def enumerate_append_eq resolved_kinds)

lemma emissions_resolved: "emissions_from d (rs @ [resolved_entry n]) = emissions_from d rs"
proof (induction rs arbitrary: d)
  case (Cons e rs)
  then show ?case by (auto intro: res_bind_cong)
qed (simp add: resolved_kinds)

definition still_owed :: "int \<Rightarrow> crossing \<Rightarrow> bool" where
  "still_owed n c \<longleftrightarrow> hash_key (crossing_seq c) \<noteq> Some (H_Num (of_int n))"

lemma seq_in_insert:
  "seq_in v S = Inr b \<Longrightarrow> seq_in v (insert n S) = Inr (b \<or> hash_key v = Some (H_Num (of_int n)))"
  by (auto simp: seq_in_def key_of_def split: option.splits)

lemma effect_crossing_insert:
  assumes "effect_crossing S F a x = Inr cs"
  shows "effect_crossing (insert n S) F a x = Inr (filter (still_owed n) cs)"
proof -
  obtain i e where x: "x = (i, e)" by fastforce
  consider (emission) b where "is_kind e ''effect''" "member e ''kind'' = JStr ''emission''" "seq_in (member e ''seq'') S = Inr b"
      "cs = (if b then [] else [Lost_Emission (member e ''seq'')])"
    | (deferred) b where "\<not> (is_kind e ''effect'' \<and> member e ''kind'' = JStr ''emission'')" "is_kind e ''deferred-emission''" "int i < a"
      "seq_in (member e ''seq'') (F \<union> S) = Inr b" "cs = (if b then [] else [Lost_Deferred (member e ''seq'')])"
    | (other) "\<not> (is_kind e ''effect'' \<and> member e ''kind'' = JStr ''emission'')" "\<not> (is_kind e ''deferred-emission'' \<and> int i < a)" "cs = []"
    using assms unfolding effect_crossing_def x by (auto simp: result_simps Let_def split: if_splits)
  then show ?thesis
  proof cases
    case emission
    then show ?thesis using seq_in_insert [OF emission(3), of n] by (auto simp: effect_crossing_def x Let_def still_owed_def)
  next
    case deferred
    then show ?thesis using seq_in_insert [OF deferred(4), of n] by (auto simp: effect_crossing_def x Let_def still_owed_def)
  next
    case other
    then show ?thesis by (auto simp: effect_crossing_def x Let_def)
  qed
qed

lemma effect_crossings_insert:
  "res_map (effect_crossing S F a) xs = Inr css \<Longrightarrow> res_map (effect_crossing (insert n S) F a) xs = Inr (map (filter (still_owed n)) css)"
  by (induction xs arbitrary: css) (auto simp: result_simps effect_crossing_insert)

lemma activation_resolved: "activation_completed (rs @ [resolved_entry n]) = activation_completed rs"
proof -
  have "find P (rs @ [r]) = find P rs" if "\<not> P r" for P and r :: entry
    using that by (induction rs) auto
  then show ?thesis by (simp add: activation_completed_def resolved_kinds)
qed

lemma approval_crossings_insert:
  "approval_crossings S d rs = Inr cs \<Longrightarrow> approval_crossings (insert n S) d (rs @ [resolved_entry n]) = Inr (filter (still_owed n) cs)"
proof (induction rs arbitrary: d cs)
  case (Cons e rs)
  show ?case
  proof (cases "is_kind e ''approval-consumed''")
    case True
    then obtain k where k: "approval_key e = Inr k" using Cons.prems by (auto simp: result_simps)
    show ?thesis
    proof (cases "dict_get d k 0 = 0")
      case False
      then show ?thesis using Cons True k by simp
    next
      case zero: True
      obtain b where b: "seq_in (member e ''seq'') S = Inr b" using Cons.prems True k zero by (auto simp: result_simps)
      note b' = seq_in_insert [OF b, of n]
      show ?thesis
      proof (cases "b \<or> member e ''scope'' = JStr ''activation'' \<and> activation_completed rs")
        case True
        then have "approval_crossings S d rs = Inr cs" using Cons.prems k zero b \<open>is_kind e _\<close> by (auto split: if_splits)
        then show ?thesis using Cons.IH \<open>is_kind e _\<close> k zero b' True activation_resolved by auto
      next
        case False
        then obtain cs' where cs': "approval_crossings S d rs = Inr cs'"
            "cs = Lost_Approval (member e ''seq'') (member e ''requestId'') (member e ''use'') # cs'"
          using Cons.prems k zero b \<open>is_kind e _\<close> by (auto simp: result_simps)
        then show ?thesis
          using Cons.IH [OF cs'(1)] \<open>is_kind e _\<close> k zero b' False by (auto simp: activation_resolved still_owed_def)
      qed
    qed
  qed (use Cons in simp)
qed (simp add: resolved_kinds)

lemma filter_concat_map: "filter P (concat xss) = concat (map (filter P) xss)"
  by (induction xss) auto

text \<open>An acknowledgement settles exactly the crossings of its sequence.  After an
  \<open>operator-resolved\<close> record for a sequence number, the report of unresolved crossings is the
  report before it without the crossings that carry that number, in the same order: nothing else
  is settled, and nothing new is owed.\<close>

theorem resolve_settles_exactly:
  assumes "unresolved_crossings rs = Inr cs"
  shows "unresolved_crossings (rs @ [resolved_entry n]) = Inr (filter (still_owed n) cs)"
proof -
  let ?S = "settled_seqs rs" and ?F = "seqs_of rs [''flushed'']" and ?a = "last_approved rs"
  obtain css d cs' where r: "res_map (effect_crossing ?S ?F ?a) (enumerate 0 rs) = Inr css"
    "emissions_from [] rs = Inr d" "approval_crossings ?S d rs = Inr cs'" "cs = concat css @ cs'"
    using assms by (auto simp: unresolved_crossings_def Let_def result_simps)
  have "res_map f (xs @ [x]) = res_bind (res_map f xs) (\<lambda>ys. res_bind (f x) (\<lambda>y. Inr (ys @ [y])))"
    for f :: "nat \<times> entry \<Rightarrow> wal_error + crossing list" and xs x
  proof (induction xs)
    case (Cons z zs)
    then show ?case by (cases "f z"; cases "res_map f zs"; cases "f x") auto
  qed (cases "f x"; simp)
  moreover have "effect_crossing (insert n ?S) ?F ?a (length rs, resolved_entry n) = Inr []"
    by (simp add: effect_crossing_def resolved_kinds Let_def)
  ultimately have "res_map (effect_crossing (insert n ?S) ?F ?a) (enumerate 0 (rs @ [resolved_entry n])) = Inr (map (filter (still_owed n)) css @ [[]])"
    using effect_crossings_insert [OF r(1), of n] by (simp add: enumerate_append_eq)
  then show ?thesis
    using r(2,4) approval_crossings_insert [OF r(3), of n]
    by (simp add: unresolved_crossings_def Let_def settled_seqs_resolved flushed_resolved last_approved_resolved
        emissions_resolved filter_concat_map)
qed

theorem resolve_settles_exactly_witness:
  "unresolved_crossings ([owed_entry, (''seq'', JInt 8) # (''record'', JStr ''approval-consumed'') # []] @ [resolved_entry 7])
     = Inr [Lost_Approval (JInt 8) JNull JNull]"
proof -
  have "unresolved_crossings [owed_entry, [(''seq'', JInt 8), (''record'', JStr ''approval-consumed'')]]
     = Inr [Lost_Emission (JInt 7), Lost_Approval (JInt 8) JNull JNull]" by code_simp
  from resolve_settles_exactly [OF this, of 7] show ?thesis by (simp add: still_owed_def)
qed

subsection \<open>Spends and emissions\<close>

definition occurrences :: "string \<Rightarrow> hkey \<times> hkey \<Rightarrow> entry list \<Rightarrow> nat" where
  "occurrences kind k rs = length (filter (\<lambda>e. is_kind e kind \<and> approval_key e = Inr k) rs)"

definition spend_key :: "spend \<Rightarrow> (hkey \<times> hkey) option" where
  "spend_key s = (case (hash_key (request s), hash_key (use_id s)) of (Some a, Some b) \<Rightarrow> Some (a, b) | _ \<Rightarrow> None)"

lemma emissions_count:
  "emissions_from d rs = Inr d' \<Longrightarrow> dict_get d' k 0 = dict_get d k 0 + int (occurrences ''approval-emission'' k rs)"
proof (induction rs arbitrary: d)
  case (Cons e rs)
  show ?case
  proof (cases "is_kind e ''approval-emission''")
    case True
    then obtain k' where "approval_key e = Inr k'" "emissions_from (AList.update k' (dict_get d k' 0 + 1) d) rs = Inr d'"
      using Cons.prems by (auto simp: result_simps)
    then show ?thesis using Cons.IH [of "AList.update k' (dict_get d k' 0 + 1) d"] True by (simp add: occurrences_def)
  qed (use Cons in \<open>simp add: occurrences_def\<close>)
qed (simp add: occurrences_def)

lemma spend_key_of: "approval_key e = Inr k \<Longrightarrow> spend_key \<lparr>request = member e ''requestId'', use_id = member e ''use'', was_fired = b\<rparr> = Some k"
  by (auto simp: spend_key_def pair_key_def key_of_def result_simps split: option.splits)

lemma spends_count:
  assumes "0 \<le> dict_get d k 0"
  shows "spends_from d rs = Inr ss \<Longrightarrow>
    int (length (filter (\<lambda>s. spend_key s = Some k \<and> was_fired s) ss)) = min (dict_get d k 0) (int (occurrences ''approval-consumed'' k rs))
    \<and> length (filter (\<lambda>s. spend_key s = Some k) ss) = occurrences ''approval-consumed'' k rs"
  using assms
proof (induction rs arbitrary: d ss)
  case (Cons e rs)
  show ?case
  proof (cases "is_kind e ''approval-consumed''")
    case False
    then show ?thesis using Cons by (simp add: occurrences_def)
  next
    case True
    then obtain k' where k': "approval_key e = Inr k'" using Cons.prems by (auto simp: result_simps)
    let ?hit = "dict_get d k' 0 > 0"
    let ?d = "if ?hit then AList.update k' (dict_get d k' 0 - 1) d else d"
    obtain ss' where ss': "spends_from ?d rs = Inr ss'"
        "ss = \<lparr>request = member e ''requestId'', use_id = member e ''use'', was_fired = ?hit\<rparr> # ss'"
      using Cons.prems(1) True k' by (auto simp: result_simps Let_def)
    have "0 \<le> dict_get ?d k 0" using Cons.prems(2) by simp
    note IH = Cons.IH [OF ss'(1) this]
    show ?thesis
      using IH True k' ss'(2) Cons.prems(2) spend_key_of [OF k', of ?hit] by (auto simp: occurrences_def)
  qed
qed (simp add: occurrences_def)

text \<open>The audit counts neither an emission twice nor a spend as fired without one.  For every join
  key, the report holds one line per recorded spend, and the number it calls fired is the smaller
  of the number of spends and the number of emissions recorded under the key.\<close>

theorem approval_spends_join:
  assumes "approval_spends rs = Inr ss"
  shows "length (filter (\<lambda>s. spend_key s = Some k) ss) = occurrences ''approval-consumed'' k rs
     \<and> length (filter (\<lambda>s. spend_key s = Some k \<and> was_fired s) ss)
         = min (occurrences ''approval-emission'' k rs) (occurrences ''approval-consumed'' k rs)"
proof -
  obtain d where d: "emissions_from [] rs = Inr d" "spends_from d rs = Inr ss"
    using assms by (auto simp: approval_spends_def result_simps)
  have "dict_get d k 0 = int (occurrences ''approval-emission'' k rs)"
    using emissions_count [OF d(1), of k] by (simp add: dict_get_def)
  then show ?thesis using spends_count [OF _ d(2), of k] by linarith
qed

definition ex_spends :: "entry list" where
  "ex_spends = [[(''record'', JStr ''approval-consumed''), (''requestId'', JStr ''r'')],
     [(''record'', JStr ''approval-emission''), (''requestId'', JStr ''r'')],
     [(''record'', JStr ''approval-consumed''), (''requestId'', JStr ''r'')]]"

theorem approval_spends_join_witness:
  "\<exists>ss. approval_spends ex_spends = Inr ss \<and> length (filter (\<lambda>s. spend_key s = Some (H_Str ''r'', H_Null) \<and> was_fired s) ss) = 1"
proof -
  have r: "approval_spends ex_spends = Inr [\<lparr>request = JStr ''r'', use_id = JNull, was_fired = True\<rparr>, \<lparr>request = JStr ''r'', use_id = JNull, was_fired = False\<rparr>]"
    by code_simp
  have "occurrences ''approval-emission'' (H_Str ''r'', H_Null) ex_spends = 1" "occurrences ''approval-consumed'' (H_Str ''r'', H_Null) ex_spends = 2"
    by code_simp+
  then show ?thesis using approval_spends_join [OF r, of "(H_Str ''r'', H_Null)"] r by auto
qed

end
