(* ===== verification/Activation.thy ===== *)
theory Activation
  imports Revl_Prelude Guarded_System
begin

section \<open>Concurrent activation (\<open>src/revl/activation.py\<close>)\<close>

text \<open>
  The dependency edges read off a manifest, and the concurrent boot as a step relation: one task
  per component, suspended at its awaits.  A task waits until every prerequisite in the order has
  settled; it is skipped when one of them failed; otherwise it starts, and its activation later
  finishes or raises.  Every interleaving of the tasks is a sequence of these steps.
\<close>

record manifest_entry =
  e_name :: string
  inject :: "string list"
  provides :: "string list"
  isolate :: "(string, string) pydict"

definition shared_realm :: string where "shared_realm = []"

definition realm_of :: "'a manifest_entry_scheme \<Rightarrow> string \<Rightarrow> string" where
  "realm_of e k = dict_get (isolate e) k shared_realm"

definition entries_by_name :: "manifest_entry list \<Rightarrow> string \<Rightarrow> manifest_entry option" where
  "entries_by_name es = map_of (rev (map (\<lambda>e. (e_name e, e)) es))"

definition provider_table :: "string set \<Rightarrow> manifest_entry list \<Rightarrow> (string \<times> string, string) pydict" where
  "provider_table members es = fold (\<lambda>e d. if e_name e \<notin> members then d
     else fold (\<lambda>k d. AList.update (k, realm_of e k) (e_name e) d) (provides e) d) es []"

text \<open>The loop over the injected keys of one component, with the providers it has seen.\<close>

definition prereqs_of :: "(string \<times> string, string) pydict \<Rightarrow> manifest_entry \<Rightarrow> string list" where
  "prereqs_of table e = fold (\<lambda>k ps. case map_of table (k, realm_of e k) of
       None \<Rightarrow> ps
     | Some p \<Rightarrow> if p \<noteq> e_name e \<and> p \<notin> set ps then ps @ [p] else ps) (inject e) []"

text \<open>The members are the subset or all names; a member without an entry raises \<^verbatim>\<open>KeyError\<close>.\<close>

definition local_prereqs :: "manifest_entry list \<Rightarrow> string list option \<Rightarrow> string + (string, string list) pydict" where
  "local_prereqs es only =
     (let members = (case only of Some ns \<Rightarrow> remdups ns | None \<Rightarrow> remdups (map e_name es));
          table = provider_table (set members) es in
      res_map (\<lambda>n. case entries_by_name es n of None \<Rightarrow> Inl n | Some e \<Rightarrow> Inr (n, prereqs_of table e)) members)"

definition sequential_prereqs :: "string list \<Rightarrow> (string, string list) pydict" where
  "sequential_prereqs order = dict_of (map (\<lambda>i. (order ! i, if i = 0 then [] else [order ! (i - 1)])) [0..<length order])"


subsection \<open>The boot as a step relation\<close>

datatype task = Waiting | Started | Finished | Skipped | Errored

record boot =
  task_of :: "string \<Rightarrow> task"
  completion :: "string list"
  errors :: "string list"

definition boot_start :: boot where
  "boot_start = \<lparr>task_of = (\<lambda>_. Waiting), completion = [], errors = []\<rparr>"

text \<open>The event of a task is set when it finished, was skipped or raised; the last two failed.\<close>

definition failed_task :: "boot \<Rightarrow> string \<Rightarrow> bool" where
  "failed_task s n \<longleftrightarrow> task_of s n = Skipped \<or> task_of s n = Errored"

definition settled :: "boot \<Rightarrow> string \<Rightarrow> bool" where
  "settled s n \<longleftrightarrow> task_of s n = Finished \<or> failed_task s n"

definition known_prereqs :: "string list \<Rightarrow> (string, string list) pydict \<Rightarrow> string \<Rightarrow> string set" where
  "known_prereqs order pre n = {p \<in> set (dict_get pre n []). p \<in> set order}"

text \<open>A task past its waits: every prerequisite in the order has settled.\<close>

definition past_waits :: "string list \<Rightarrow> (string, string list) pydict \<Rightarrow> boot \<Rightarrow> string \<Rightarrow> bool" where
  "past_waits order pre s n \<longleftrightarrow> n \<in> set order \<and> task_of s n = Waiting \<and> list_all (\<lambda>p. p \<in> set order \<longrightarrow> settled s p) (dict_get pre n [])"

definition blocked :: "(string, string list) pydict \<Rightarrow> boot \<Rightarrow> string \<Rightarrow> bool" where
  "blocked pre s n \<longleftrightarrow> list_ex (\<lambda>p. failed_task s p) (dict_get pre n [])"

definition set_task :: "string \<Rightarrow> task \<Rightarrow> boot \<Rightarrow> boot" where
  "set_task n t s = s\<lparr>task_of := (task_of s)(n := t)\<rparr>"

inductive boot_step :: "string list \<Rightarrow> (string, string list) pydict \<Rightarrow> boot \<Rightarrow> boot \<Rightarrow> bool" for order pre where
  skip: "past_waits order pre s n \<Longrightarrow> blocked pre s n \<Longrightarrow> boot_step order pre s (set_task n Skipped s)"
| start: "past_waits order pre s n \<Longrightarrow> \<not> blocked pre s n \<Longrightarrow> boot_step order pre s (set_task n Started s)"
| finish: "n \<in> set order \<Longrightarrow> task_of s n = Started \<Longrightarrow>
     boot_step order pre s ((set_task n Finished s)\<lparr>completion := completion s @ [n]\<rparr>)"
| raise: "n \<in> set order \<Longrightarrow> task_of s n = Started \<Longrightarrow>
     boot_step order pre s ((set_task n Errored s)\<lparr>errors := errors s @ [n]\<rparr>)"

inductive_cases boot_stepE: "boot_step order pre s s'"

inductive boot_reach :: "string list \<Rightarrow> (string, string list) pydict \<Rightarrow> boot \<Rightarrow> bool" for order pre where
  boot_init: "boot_reach order pre boot_start"
| boot_next: "boot_reach order pre s \<Longrightarrow> boot_step order pre s s' \<Longrightarrow> boot_reach order pre s'"

text \<open>\<^verbatim>\<open>teardown_lifo\<close> disposes of the completions in reverse.\<close>

definition teardown_order :: "boot \<Rightarrow> string list" where
  "teardown_order s = rev (completion s)"


subsection \<open>The invariant of every interleaving\<close>

text \<open>No prerequisite of a component comes after it in a list that holds both.\<close>

definition topological :: "string list \<Rightarrow> (string, string list) pydict \<Rightarrow> string list \<Rightarrow> bool" where
  "topological order pre ns \<longleftrightarrow> (\<forall>as n bs. ns = as @ n # bs \<longrightarrow> known_prereqs order pre n \<subseteq> set as)"

definition grounded :: "string list \<Rightarrow> (string, string list) pydict \<Rightarrow> boot \<Rightarrow> bool" where
  "grounded order pre s \<longleftrightarrow> (\<forall>n. task_of s n \<in> {Started, Finished, Errored} \<longrightarrow> known_prereqs order pre n \<subseteq> set (completion s))"

definition cascaded :: "string list \<Rightarrow> (string, string list) pydict \<Rightarrow> boot \<Rightarrow> bool" where
  "cascaded order pre s \<longleftrightarrow> (\<forall>n. task_of s n = Skipped \<longrightarrow> (\<exists>p \<in> known_prereqs order pre n. failed_task s p))"

definition accounted :: "string list \<Rightarrow> boot \<Rightarrow> bool" where
  "accounted order s \<longleftrightarrow> distinct (completion s) \<and> set (completion s) = {n. task_of s n = Finished} \<and> {n. task_of s n \<noteq> Waiting} \<subseteq> set order"

definition boot_inv :: "string list \<Rightarrow> (string, string list) pydict \<Rightarrow> boot \<Rightarrow> bool" where
  "boot_inv order pre s \<longleftrightarrow> accounted order s \<and> topological order pre (completion s) \<and> grounded order pre s \<and> cascaded order pre s"

lemma topological_snoc: "topological order pre ns \<Longrightarrow> known_prereqs order pre n \<subseteq> set ns \<Longrightarrow> topological order pre (ns @ [n])"
  unfolding topological_def
proof (intro allI impI)
  fix as m bs
  assume t: "\<forall>as n bs. ns = as @ n # bs \<longrightarrow> known_prereqs order pre n \<subseteq> set as"
    and k: "known_prereqs order pre n \<subseteq> set ns" and eq: "ns @ [n] = as @ m # bs"
  show "known_prereqs order pre m \<subseteq> set as"
  proof (cases "bs = []")
    case True
    then show ?thesis using eq k by simp
  next
    case False
    then have "ns = as @ m # butlast bs" using eq by (metis append_butlast_last_id butlast.simps(2) butlast_append butlast_snoc list.distinct(1))
    then show ?thesis using t by blast
  qed
qed

lemma past_waits_finished:
  assumes "boot_inv order pre s" "past_waits order pre s n" "\<not> blocked pre s n"
  shows "known_prereqs order pre n \<subseteq> set (completion s)"
proof
  fix p assume p: "p \<in> known_prereqs order pre n"
  then have "settled s p" "\<not> failed_task s p"
    using assms(2,3) by (auto simp: past_waits_def blocked_def known_prereqs_def list_all_iff list_ex_iff)
  then show "p \<in> set (completion s)" using assms(1) by (simp add: settled_def boot_inv_def accounted_def)
qed

lemma cascaded_step:
  assumes "cascaded order pre s" "\<not> failed_task s n" "t = Skipped \<Longrightarrow> \<exists>p \<in> known_prereqs order pre n. failed_task s p"
    and "task_of s' = (task_of s)(n := t)"
  shows "cascaded order pre s'"
  unfolding cascaded_def
proof (intro allI impI)
  fix m assume m: "task_of s' m = Skipped"
  have "\<exists>p \<in> known_prereqs order pre m. failed_task s p"
  proof (cases "m = n")
    case True
    then show ?thesis using assms(3) m assms(4) by (simp only: fun_upd_same)
  next
    case False
    then have "task_of s m = Skipped" using m assms(4) by (simp only: fun_upd_other not_False_eq_True)
    then show ?thesis using assms(1) by (simp only: cascaded_def)
  qed
  then obtain p where "p \<in> known_prereqs order pre m" "failed_task s p" by blast
  moreover have "failed_task s' p"
  proof -
    have "p \<noteq> n" using \<open>failed_task s p\<close> assms(2) by blast
    then show ?thesis using \<open>failed_task s p\<close> by (simp add: failed_task_def assms(4))
  qed
  ultimately show "\<exists>p \<in> known_prereqs order pre m. failed_task s' p" by blast
qed

lemma grounded_step:
  assumes "grounded order pre s" "t \<in> {Started, Finished, Errored} \<Longrightarrow> known_prereqs order pre n \<subseteq> set (completion s)"
    and "task_of s' = (task_of s)(n := t)" "set (completion s) \<subseteq> set (completion s')"
  shows "grounded order pre s'"
  unfolding grounded_def
proof (intro allI impI)
  fix m assume m: "task_of s' m \<in> {Started, Finished, Errored}"
  have "known_prereqs order pre m \<subseteq> set (completion s)"
  proof (cases "m = n")
    case True
    then show ?thesis using assms(2) m assms(3) by (simp only: fun_upd_same)
  next
    case False
    then have "task_of s m \<in> {Started, Finished, Errored}" using m assms(3) by (simp only: fun_upd_other not_False_eq_True)
    then show ?thesis using assms(1) by (simp only: grounded_def)
  qed
  then show "known_prereqs order pre m \<subseteq> set (completion s')" using assms(4) by blast
qed

lemma boot_inv_step:
  assumes inv: "boot_inv order pre s" and st: "boot_step order pre s s'"
  shows "boot_inv order pre s'"
proof -
  have acc: "accounted order s" and top: "topological order pre (completion s)" and gr: "grounded order pre s" and ca: "cascaded order pre s"
    using inv by (simp_all add: boot_inv_def)
  show ?thesis using st
  proof (cases rule: boot_step.cases)
    case (skip n)
    have n: "task_of s n = Waiting" "n \<in> set order" using skip(2) by (simp_all add: past_waits_def)
    obtain p where p: "p \<in> set (dict_get pre n [])" "failed_task s p" using skip(3) by (auto simp: blocked_def list_ex_iff)
    have "task_of s p \<noteq> Waiting" using p(2) by (auto simp: failed_task_def)
    then have "p \<in> set order" using acc by (auto simp: accounted_def)
    then have pk: "p \<in> known_prereqs order pre n" using p(1) by (simp add: known_prereqs_def)
    have "cascaded order pre s'"
    proof (rule cascaded_step [OF ca, of n Skipped])
      show "\<exists>p \<in> known_prereqs order pre n. failed_task s p" using pk p(2) by blast
    qed (simp_all add: skip(1) set_task_def failed_task_def n)
    moreover have "grounded order pre s'" by (rule grounded_step [OF gr, of Skipped n]) (simp_all add: skip(1) set_task_def)
    ultimately show ?thesis using acc top n by (auto simp: boot_inv_def skip(1) set_task_def accounted_def)
  next
    case (start n)
    have n: "task_of s n = Waiting" "n \<in> set order" using start(2) by (simp_all add: past_waits_def)
    have "cascaded order pre s'" by (rule cascaded_step [OF ca, of n Started]) (simp_all add: start(1) set_task_def failed_task_def n)
    moreover have "grounded order pre s'"
      by (rule grounded_step [OF gr, of Started n]) (simp_all add: start(1) set_task_def past_waits_finished [OF inv start(2,3)])
    ultimately show ?thesis using acc top n by (auto simp: boot_inv_def start(1) set_task_def accounted_def)
  next
    case (finish n)
    have k: "known_prereqs order pre n \<subseteq> set (completion s)" using gr finish(3) by (simp add: grounded_def)
    have "cascaded order pre s'" by (rule cascaded_step [OF ca, of n Finished]) (simp_all add: finish(1,3) set_task_def failed_task_def)
    moreover have "grounded order pre s'" by (rule grounded_step [OF gr, of Finished n]) (auto simp: finish(1) set_task_def k)
    moreover have "topological order pre (completion s')" using topological_snoc [OF top k] by (simp add: finish(1))
    ultimately show ?thesis using acc finish(2,3) by (auto simp: boot_inv_def finish(1) set_task_def accounted_def)
  next
    case (raise n)
    have k: "known_prereqs order pre n \<subseteq> set (completion s)" using gr raise(3) by (simp add: grounded_def)
    have "cascaded order pre s'" by (rule cascaded_step [OF ca, of n Errored]) (simp_all add: raise(1,3) set_task_def failed_task_def)
    moreover have "grounded order pre s'" by (rule grounded_step [OF gr, of Errored n]) (auto simp: raise(1) set_task_def k)
    ultimately show ?thesis using acc top raise(2,3) by (auto simp: boot_inv_def raise(1) set_task_def accounted_def)
  qed
qed

lemma boot_inv_reach: "boot_reach order pre s \<Longrightarrow> boot_inv order pre s"
proof (induction rule: boot_reach.induct)
  case boot_init
  then show ?case by (simp add: boot_inv_def boot_start_def topological_def accounted_def grounded_def cascaded_def)
qed (rule boot_inv_step)

end
