(* ===== verification/Semver.thy ===== *)
theory Semver
  imports Revl_Prelude
begin

section \<open>Semantic versions (\<open>src/revl/update/semver.py\<close>)\<close>

text \<open>
  The pattern of a version as the cuts it makes: build metadata after the first plus sign, the
  prerelease after the first hyphen before it, three numerals in front.  The comparisons are the
  four methods of the class, equality the field-wise one of the dataclass.
\<close>

definition alnum :: "char \<Rightarrow> bool" where
  "alnum c \<longleftrightarrow> is_digit c \<or> (is_alpha_us c \<and> c \<noteq> CHR ''_'')"

text \<open>\<^verbatim>\<open>[0-9A-Za-z][0-9A-Za-z.-]*\<close>\<close>

definition valid_tail :: "string \<Rightarrow> bool" where
  "valid_tail s \<longleftrightarrow> s \<noteq> [] \<and> alnum (hd s) \<and> list_all (\<lambda>c. alnum c \<or> c = CHR ''.'' \<or> c = CHR ''-'') s"

definition optional_tail :: "string option \<Rightarrow> bool" where
  "optional_tail s \<longleftrightarrow> (case s of Some t \<Rightarrow> valid_tail t | None \<Rightarrow> True)"

text \<open>\<^verbatim>\<open>0|[1-9]\d*\<close>\<close>

definition numeral_id :: "string \<Rightarrow> bool" where
  "numeral_id s \<longleftrightarrow> s \<noteq> [] \<and> list_all is_digit s \<and> (hd s \<noteq> CHR ''0'' \<or> length s = 1)"

definition cut_at :: "char \<Rightarrow> string \<Rightarrow> string \<times> string option" where
  "cut_at c s = (takeWhile (\<lambda>x. x \<noteq> c) s, if c \<in> set s then Some (tl (dropWhile (\<lambda>x. x \<noteq> c) s)) else None)"

record version =
  major :: int
  minor :: int
  patch :: int
  prerelease :: "string list"
  build :: "string option"

definition numeral_value :: "string \<Rightarrow> int" where
  "numeral_value s = the (py_int s)"

definition parse_version :: "string \<Rightarrow> version option" where
  "parse_version t =
     (let s = py_strip t;
          s = (case s of [] \<Rightarrow> [] | c # cs \<Rightarrow> if c = CHR ''v'' then cs else c # cs);
          (front, b) = cut_at (CHR ''+'') s;
          (core, pre) = cut_at (CHR ''-'') front
      in case py_split (CHR ''.'') core of
          [x, y, z] \<Rightarrow>
            if numeral_id x \<and> numeral_id y \<and> numeral_id z \<and> optional_tail pre \<and> optional_tail b
            then Some \<lparr>major = numeral_value x, minor = numeral_value y, patch = numeral_value z,
              prerelease = (case pre of Some p \<Rightarrow> py_split (CHR ''.'') p | None \<Rightarrow> []), build = b\<rparr>
            else None
        | _ \<Rightarrow> None)"

definition stable :: "version \<Rightarrow> bool" where "stable v \<longleftrightarrow> prerelease v = []"

definition version_str :: "version \<Rightarrow> string" where
  "version_str v = py_join ''.'' [dec_int (major v), dec_int (minor v), dec_int (patch v)]
     @ (if prerelease v \<noteq> [] then CHR ''-'' # py_join ''.'' (prerelease v) else [])
     @ (case build v of Some b \<Rightarrow> if b \<noteq> [] then CHR ''+'' # b else [] | None \<Rightarrow> [])"


subsection \<open>Precedence\<close>

text \<open>An identifier of a prerelease: numeric ones sort by value, below the alphanumeric ones.\<close>

datatype pre_ident = Numeric int | Alpha string

instantiation pre_ident :: linorder
begin

fun less_eq_pre_ident :: "pre_ident \<Rightarrow> pre_ident \<Rightarrow> bool" where
  "less_eq_pre_ident (Numeric a) (Numeric b) = (a \<le> b)"
| "less_eq_pre_ident (Numeric _) (Alpha _) = True"
| "less_eq_pre_ident (Alpha _) (Numeric _) = False"
| "less_eq_pre_ident (Alpha s) (Alpha t) = (s \<le> t)"

definition less_pre_ident :: "pre_ident \<Rightarrow> pre_ident \<Rightarrow> bool" where
  "less_pre_ident a b \<longleftrightarrow> a \<le> b \<and> \<not> b \<le> (a::pre_ident)"

instance
proof
  fix a b c :: pre_ident
  show "a < b \<longleftrightarrow> a \<le> b \<and> \<not> b \<le> a" by (simp add: less_pre_ident_def)
  show "a \<le> a" by (cases a) auto
  show "a \<le> b \<Longrightarrow> b \<le> c \<Longrightarrow> a \<le> c" by (cases a; cases b; cases c) auto
  show "a \<le> b \<Longrightarrow> b \<le> a \<Longrightarrow> a = b" by (cases a; cases b) auto
  show "a \<le> b \<or> b \<le> a" by (cases a; cases b) auto
qed

end

definition identifier_of :: "string \<Rightarrow> pre_ident" where
  "identifier_of part = (if part \<noteq> [] \<and> list_all is_digit part then Numeric (numeral_value part) else Alpha part)"

text \<open>The precedence within a triple; \<^term>\<open>None\<close> is a release, after every prerelease.\<close>

definition precedence :: "version \<Rightarrow> pre_ident list option" where
  "precedence v = (if prerelease v = [] then None else Some (map identifier_of (prerelease v)))"

fun precedence_less :: "pre_ident list option \<Rightarrow> pre_ident list option \<Rightarrow> bool" where
  "precedence_less (Some a) (Some b) = (a < b)"
| "precedence_less (Some _) None = True"
| "precedence_less None _ = False"

definition triple :: "version \<Rightarrow> int list" where
  "triple v = [major v, minor v, patch v]"

definition version_lt :: "version \<Rightarrow> version \<Rightarrow> bool" where
  "version_lt a b = (if triple a \<noteq> triple b then triple a < triple b else precedence_less (precedence a) (precedence b))"

definition version_le :: "version \<Rightarrow> version \<Rightarrow> bool" where "version_le a b \<longleftrightarrow> a = b \<or> version_lt a b"
definition version_gt :: "version \<Rightarrow> version \<Rightarrow> bool" where "version_gt a b \<longleftrightarrow> \<not> version_le a b"
definition version_ge :: "version \<Rightarrow> version \<Rightarrow> bool" where "version_ge a b \<longleftrightarrow> \<not> version_lt a b"

datatype bump = Bump_Major | Bump_Minor | Bump_Patch | Bump_None

definition bump_kind :: "version \<Rightarrow> version \<Rightarrow> bump" where
  "bump_kind current latest =
     (if triple latest = triple current then
        if latest = current then Bump_None
        else if version_gt latest current then Bump_Patch else Bump_None
      else if version_lt latest current then Bump_None
      else if (major latest, minor latest) \<noteq> (major current, minor current)
      then if major latest \<noteq> major current then Bump_Major else Bump_Minor
      else if minor latest \<noteq> minor current then Bump_Minor else Bump_Patch)"


subsection \<open>Reading back what is printed\<close>

lemma alnum_char: "alnum c \<Longrightarrow> \<not> py_space c \<and> c \<noteq> CHR ''.'' \<and> c \<noteq> CHR ''-'' \<and> c \<noteq> CHR ''+''"
  by (auto simp: alnum_def is_digit_def is_alpha_us_def py_space_def)

lemma digit_char: "is_digit c \<Longrightarrow> \<not> py_space c \<and> c \<noteq> CHR ''.'' \<and> c \<noteq> CHR ''-'' \<and> c \<noteq> CHR ''+'' \<and> c \<noteq> CHR ''v''"
  by (auto simp: is_digit_def py_space_def)

lemma marks: "\<not> py_space CHR ''.''" "\<not> py_space CHR ''-''" "\<not> py_space CHR ''+''"
  by (simp_all add: py_space_def)

lemma tail_char: "valid_tail s \<Longrightarrow> c \<in> set s \<Longrightarrow> \<not> py_space c \<and> c \<noteq> CHR ''+''"
proof -
  assume s: "valid_tail s" "c \<in> set s"
  then have "alnum c \<or> c = CHR ''.'' \<or> c = CHR ''-''" by (auto simp: valid_tail_def list_all_iff)
  then show ?thesis using alnum_char [of c] marks by auto
qed

lemma dec_nat_head: "n \<noteq> 0 \<Longrightarrow> hd (dec_nat n) \<noteq> CHR ''0''"
proof (induction n rule: dec_nat.induct)
  case (1 n)
  show ?case
  proof (cases "n < 10")
    case True
    then have "digit_value (hd (dec_nat n)) \<noteq> 0" using 1 by (subst dec_nat.simps) (simp add: digit_value_dec)
    moreover have "digit_value CHR ''0'' = 0" by (simp add: digit_value_def)
    ultimately show ?thesis by metis
  next
    case False
    then show ?thesis using 1 by (subst dec_nat.simps) simp
  qed
qed

lemma numeral_id_dec: "numeral_id (dec_nat n)"
proof (cases "n = 0")
  case True
  then show ?thesis by (simp add: numeral_id_def dec_nat.simps is_digit_def)
qed (use dec_nat_digits dec_nat_head in \<open>auto simp: numeral_id_def list_all_iff\<close>)

lemma numeral_value_dec: "numeral_value (dec_nat n) = int n"
  by (simp add: numeral_value_def py_int_dec_nat)

lemma digits_nonneg: "py_digits p acc s = Some v \<Longrightarrow> 0 \<le> acc \<Longrightarrow> list_all is_digit s \<Longrightarrow> 0 \<le> v"
proof (induction s arbitrary: p acc)
  case (Cons c s)
  have "(of_char c :: int) = int (of_char c)" by (simp only: of_nat_of_char)
  then have "0 \<le> digit_value c" using Cons.prems(3) by (simp add: digit_value_def is_digit_def)
  then show ?case using Cons by simp
qed (auto split: if_splits)

lemma digits_defined: "list_all is_digit s \<Longrightarrow> p \<or> s \<noteq> [] \<Longrightarrow> py_digits p acc s \<noteq> None"
  by (induction s arbitrary: p acc) auto

lemma numeral_value_nonneg: "numeral_id s \<Longrightarrow> 0 \<le> numeral_value s"
proof -
  assume s: "numeral_id s"
  then have d: "list_all is_digit s" "s \<noteq> []" by (auto simp: numeral_id_def)
  obtain c cs where c: "s = c # cs" using d(2) by (cases s) auto
  have "py_strip s = s" using d digit_char by (intro py_strip_id) (auto simp: list_all_iff)
  moreover have "c \<noteq> CHR ''-''" "c \<noteq> CHR ''+''" using d(1) c digit_char [of c] by auto
  ultimately have "py_int s = py_digits False 0 s" by (simp add: py_int_def c)
  then show ?thesis
    using digits_defined [OF d(1), of False 0] d(2) digits_nonneg [OF _ _ d(1), of False 0] by (auto simp: numeral_value_def)
qed

lemma cut_at_none: "c \<notin> set s \<Longrightarrow> cut_at c s = (s, None)"
  by (auto simp: cut_at_def takeWhile_eq_all_conv)

lemma cut_at_some: "c \<notin> set s \<Longrightarrow> cut_at c (s @ c # t) = (s, Some t)"
  by (induction s) (auto simp: cut_at_def)

lemma cut_at_snd: "snd (cut_at c s) = Some t \<Longrightarrow> s = fst (cut_at c s) @ c # t"
proof -
  assume "snd (cut_at c s) = Some t"
  then have "c \<in> set s" "t = tl (dropWhile (\<lambda>x. x \<noteq> c) s)" by (auto simp: cut_at_def split: if_splits)
  moreover from this(1) have "dropWhile (\<lambda>x. x \<noteq> c) s = c # tl (dropWhile (\<lambda>x. x \<noteq> c) s)"
    by (induction s) auto
  ultimately show ?thesis by (metis cut_at_def fst_conv takeWhile_dropWhile_id)
qed

text \<open>The shape of a parsed version: what its parts can hold.\<close>

definition version_ok :: "version \<Rightarrow> bool" where
  "version_ok v \<longleftrightarrow> 0 \<le> major v \<and> 0 \<le> minor v \<and> 0 \<le> patch v
     \<and> (prerelease v \<noteq> [] \<longrightarrow> valid_tail (py_join ''.'' (prerelease v)) \<and> py_split (CHR ''.'') (py_join ''.'' (prerelease v)) = prerelease v)
     \<and> optional_tail (build v)"

lemma parse_version_ok: "parse_version t = Some v \<Longrightarrow> version_ok v"
proof -
  assume p: "parse_version t = Some v"
  define s where "s = (case py_strip t of [] \<Rightarrow> [] | c # cs \<Rightarrow> if c = CHR ''v'' then cs else c # cs)"
  obtain front b core pre where fb: "cut_at (CHR ''+'') s = (front, b)" and cp: "cut_at (CHR ''-'') front = (core, pre)" by fastforce
  obtain x y z where xyz: "py_split (CHR ''.'') core = [x, y, z]" "numeral_id x" "numeral_id y" "numeral_id z"
      "optional_tail pre" "optional_tail b"
      "v = \<lparr>major = numeral_value x, minor = numeral_value y, patch = numeral_value z,
        prerelease = (case pre of Some p \<Rightarrow> py_split (CHR ''.'') p | None \<Rightarrow> []), build = b\<rparr>"
    using p unfolding parse_version_def Let_def s_def [symmetric] fb cp prod.case
    by (auto split: list.splits if_splits)
  then show ?thesis
    by (auto simp: version_ok_def optional_tail_def numeral_value_nonneg py_join_split split: option.splits)
qed

lemma core_string:
  assumes "version_ok v"
  obtains x y z where "dec_int (major v) = dec_nat x" "dec_int (minor v) = dec_nat y" "dec_int (patch v) = dec_nat z"
    "major v = int x" "minor v = int y" "patch v = int z"
  using assms that [of "nat (major v)" "nat (minor v)" "nat (patch v)"] by (simp add: version_ok_def dec_int_def)

text \<open>The three pieces of a printed version: the numbers, the prerelease, the build metadata.\<close>

definition core_text :: "version \<Rightarrow> string" where
  "core_text v = py_join ''.'' [dec_int (major v), dec_int (minor v), dec_int (patch v)]"

definition pre_text :: "version \<Rightarrow> string" where
  "pre_text v = (if prerelease v = [] then [] else CHR ''-'' # py_join ''.'' (prerelease v))"

definition build_text :: "version \<Rightarrow> string" where
  "build_text v = (case build v of Some b \<Rightarrow> CHR ''+'' # b | None \<Rightarrow> [])"

lemma version_str_parts: "version_ok v \<Longrightarrow> version_str v = core_text v @ pre_text v @ build_text v"
  by (auto simp: version_str_def core_text_def pre_text_def build_text_def version_ok_def optional_tail_def valid_tail_def
      split: option.splits)

lemma dec_nat_chars: "c \<in> set (dec_nat k) \<Longrightarrow> \<not> py_space c \<and> c \<noteq> CHR ''.'' \<and> c \<noteq> CHR ''-'' \<and> c \<noteq> CHR ''+'' \<and> c \<noteq> CHR ''v''"
  using dec_nat_digits digit_char by blast

lemma core_text_chars:
  assumes "version_ok v" "c \<in> set (core_text v)"
  shows "\<not> py_space c \<and> c \<noteq> CHR ''-'' \<and> c \<noteq> CHR ''+''"
proof -
  obtain x y z where n: "dec_int (major v) = dec_nat x" "dec_int (minor v) = dec_nat y" "dec_int (patch v) = dec_nat z"
    by (rule core_string [OF assms(1)])
  show ?thesis using assms(2) dec_nat_chars [of c x] dec_nat_chars [of c y] dec_nat_chars [of c z] marks
    by (auto simp: core_text_def n)
qed

lemma pre_text_chars: "version_ok v \<Longrightarrow> c \<in> set (pre_text v) \<Longrightarrow> \<not> py_space c \<and> c \<noteq> CHR ''+''"
  using tail_char [of "py_join ''.'' (prerelease v)" c] marks by (auto simp: version_ok_def pre_text_def split: if_splits)

lemma build_text_chars: "version_ok v \<Longrightarrow> c \<in> set (build_text v) \<Longrightarrow> \<not> py_space c"
  using tail_char [of "the (build v)" c] marks by (cases "build v") (auto simp: version_ok_def optional_tail_def build_text_def)

lemma version_str_strip:
  assumes "version_ok v"
  shows "py_strip (version_str v) = version_str v"
proof -
  have "\<not> py_space c" if c: "c \<in> set (version_str v)" for c
  proof -
    have "c \<in> set (core_text v) \<or> c \<in> set (pre_text v) \<or> c \<in> set (build_text v)"
      using c unfolding version_str_parts [OF assms] set_append by blast
    then show ?thesis using core_text_chars [OF assms] pre_text_chars [OF assms] build_text_chars [OF assms] by blast
  qed
  then show ?thesis by (intro py_strip_id) (metis hd_in_set last_in_set)
qed

lemma version_str_no_v:
  assumes "version_ok v"
  shows "(case version_str v of [] \<Rightarrow> [] | c # cs \<Rightarrow> if c = CHR ''v'' then cs else c # cs) = version_str v"
proof -
  obtain x where x: "dec_int (major v) = dec_nat x" by (rule core_string [OF assms])
  obtain c cs where c: "dec_nat x = c # cs" by (cases "dec_nat x") auto
  then show ?thesis using dec_nat_chars [of c x] by (simp add: version_str_parts [OF assms] core_text_def x)
qed

lemma cut_build:
  assumes "version_ok v"
  shows "cut_at (CHR ''+'') (version_str v) = (core_text v @ pre_text v, build v)"
proof -
  have "CHR ''+'' \<notin> set (core_text v)" "CHR ''+'' \<notin> set (pre_text v)"
    using core_text_chars [OF assms] pre_text_chars [OF assms] by blast+
  then have plus: "CHR ''+'' \<notin> set (core_text v @ pre_text v)" by simp
  show ?thesis
  proof (cases "build v")
    case None
    then have "version_str v = core_text v @ pre_text v" by (simp add: version_str_parts [OF assms] build_text_def)
    then show ?thesis using cut_at_none [OF plus] None by (simp only:)
  next
    case (Some b)
    then have "version_str v = (core_text v @ pre_text v) @ CHR ''+'' # b" by (simp add: version_str_parts [OF assms] build_text_def)
    then show ?thesis using cut_at_some [OF plus, of b] Some by (simp only:)
  qed
qed

lemma cut_prerelease:
  assumes "version_ok v"
  shows "cut_at (CHR ''-'') (core_text v @ pre_text v) = (core_text v, if prerelease v = [] then None else Some (py_join ''.'' (prerelease v)))"
proof -
  have hyphen: "CHR ''-'' \<notin> set (core_text v)" using core_text_chars [OF assms] by blast
  show ?thesis
  proof (cases "prerelease v = []")
    case True
    then show ?thesis using cut_at_none [OF hyphen] by (simp add: pre_text_def)
  next
    case False
    then show ?thesis using cut_at_some [OF hyphen, of "py_join ''.'' (prerelease v)"] by (simp add: pre_text_def)
  qed
qed

lemma parse_version_str:
  assumes ok: "version_ok v"
  shows "parse_version (version_str v) = Some v"
proof -
  obtain x y z where n: "dec_int (major v) = dec_nat x" "dec_int (minor v) = dec_nat y" "dec_int (patch v) = dec_nat z"
    "major v = int x" "minor v = int y" "patch v = int z" by (rule core_string [OF ok])
  have dot: "CHR ''.'' \<notin> set (dec_nat k)" for k using dec_nat_chars [of "CHR ''.''" k] by blast
  have split: "py_split (CHR ''.'') (core_text v) = [dec_nat x, dec_nat y, dec_nat z]"
    unfolding core_text_def n(1-3) by (rule py_split_join) (simp_all add: dot)
  show ?thesis
    unfolding parse_version_def Let_def version_str_strip [OF ok] version_str_no_v [OF ok] cut_build [OF ok] prod.case
      cut_prerelease [OF ok] split
    using ok n by (cases v) (auto simp: numeral_id_dec numeral_value_dec version_ok_def optional_tail_def)
qed

text \<open>A version is read back as it was: whatever text a version was parsed from, printing it gives a
  canonical spelling that parses to the same version, prerelease and build included.\<close>

theorem version_roundtrip:
  assumes "parse_version t = Some v"
  shows "parse_version (version_str v) = Some v"
  by (rule parse_version_str [OF parse_version_ok [OF assms]])

definition rc_version :: version where
  "rc_version = \<lparr>major = 1, minor = 10, patch = 0, prerelease = [''rc'', ''1''], build = Some ''a-b''\<rparr>"

lemma rc_parse: "parse_version '' v1.10.0-rc.1+a-b'' = Some rc_version"
  by code_simp

theorem version_roundtrip_witness:
  "parse_version '' v1.10.0-rc.1+a-b'' = Some rc_version \<and> parse_version (version_str rc_version) = Some rc_version"
  using version_roundtrip [OF rc_parse] rc_parse by simp

subsection \<open>The order of releases\<close>

lemma precedence_less_irrefl: "\<not> precedence_less p p"
  by (cases p) auto

lemma precedence_less_trans: "precedence_less p q \<Longrightarrow> precedence_less q r \<Longrightarrow> precedence_less p r"
  by (cases p; cases q; cases r) auto

lemma precedence_less_total: "p \<noteq> q \<Longrightarrow> precedence_less p q \<or> precedence_less q p"
  by (cases p; cases q) auto

text \<open>The strict comparison orders releases as the specification asks.  It is irreflexive and
  transitive, two versions are incomparable exactly when their numbers and their prerelease
  identifiers agree, so build metadata never matters to it, and a release comes after every
  prerelease of the same numbers.\<close>

theorem version_lt_strict_weak_order:
  "\<not> version_lt a a \<and> (version_lt a b \<and> version_lt b c \<longrightarrow> version_lt a c)
     \<and> (\<not> version_lt a b \<and> \<not> version_lt b a \<longleftrightarrow> triple a = triple b \<and> precedence a = precedence b)
     \<and> (triple a = triple b \<and> \<not> stable a \<and> stable b \<longrightarrow> version_lt a b)"
proof -
  have "version_lt a c" if "version_lt a b" "version_lt b c"
    using that precedence_less_trans [of "precedence a" "precedence b" "precedence c"]
    by (auto simp: version_lt_def split: if_splits)
  moreover have "\<not> version_lt a b \<and> \<not> version_lt b a \<longleftrightarrow> triple a = triple b \<and> precedence a = precedence b"
    using precedence_less_total [of "precedence a" "precedence b"] precedence_less_irrefl
    by (cases "triple a = triple b") (auto simp: version_lt_def)
  moreover have "version_lt a b" if "triple a = triple b" "\<not> stable a" "stable b"
    using that by (simp add: version_lt_def precedence_def stable_def)
  ultimately show ?thesis using precedence_less_irrefl by (auto simp: version_lt_def)
qed

theorem version_lt_strict_weak_order_witness:
  "version_lt rc_version (rc_version\<lparr>prerelease := []\<rparr>) \<and> \<not> version_lt (rc_version\<lparr>prerelease := []\<rparr>) rc_version"
proof -
  have "triple rc_version = triple (rc_version\<lparr>prerelease := []\<rparr>)" "\<not> stable rc_version" "stable (rc_version\<lparr>prerelease := []\<rparr>)"
    by (simp_all add: rc_version_def triple_def stable_def)
  then have lt: "version_lt rc_version (rc_version\<lparr>prerelease := []\<rparr>)"
    using version_lt_strict_weak_order [of rc_version "rc_version\<lparr>prerelease := []\<rparr>"] by blast
  then show ?thesis
    using version_lt_strict_weak_order [of rc_version "rc_version\<lparr>prerelease := []\<rparr>" rc_version] by blast
qed

text \<open>Two builds of one version are each newer than the other.  The greater-than of the class is the
  negation of an or-equal that compares build metadata too, so two different versions of equal
  precedence are each greater than the other, and the update decision reports a patch in both
  directions.\<close>

theorem equal_precedence_both_newer:
  assumes "triple a = triple b" "precedence a = precedence b" "a \<noteq> b"
  shows "version_gt a b \<and> version_gt b a \<and> bump_kind a b = Bump_Patch \<and> bump_kind b a = Bump_Patch"
  using assms precedence_less_irrefl [of "precedence b"]
  by (auto simp: version_gt_def version_le_def version_lt_def bump_kind_def)

theorem equal_precedence_both_newer_witness:
  "version_gt rc_version (rc_version\<lparr>build := None\<rparr>) \<and> version_gt (rc_version\<lparr>build := None\<rparr>) rc_version"
proof -
  have "triple rc_version = triple (rc_version\<lparr>build := None\<rparr>)" "precedence rc_version = precedence (rc_version\<lparr>build := None\<rparr>)"
    "rc_version \<noteq> rc_version\<lparr>build := None\<rparr>"
    by (simp_all add: rc_version_def triple_def precedence_def)
  then show ?thesis using equal_precedence_both_newer by blast
qed

end
