(* ===== verification/Promotion_Barrier.thy ===== *)
theory Promotion_Barrier
  imports Json_Value
begin

section \<open>The authority barrier of a promotion (\<open>src/revl/promotion_barrier.py\<close>)\<close>

text \<open>
  The five authority axes and their spellings, the fail-closed reading of an authority diff, and
  the two rules a promotion path's declared stage order must pass.
\<close>

definition authority_axes :: "string list" where
  "authority_axes = [''budget'', ''capability'', ''realm'', ''retention'', ''taint'']"

definition axis_aliases :: "(string, string) pydict" where
  "axis_aliases = [(''capability'', ''capability''), (''taint'', ''taint''), (''budget'', ''budget''),
     (''realm'', ''realm''), (''retention'', ''retention''), (''capabilities'', ''capability''),
     (''origins'', ''taint''), (''residence'', ''realm'')]"

definition canonical_axis :: "string \<Rightarrow> string option" where
  "canonical_axis name = map_of axis_aliases (py_lower (py_strip name))"

text \<open>A diff that is not an object has no axes; the last spelling of an axis wins.\<close>

fun normalise_members :: "(string \<times> json) list \<Rightarrow> (string, json) pydict \<Rightarrow> string list \<Rightarrow> (string, json) pydict \<times> string list" where
  "normalise_members [] out unknown = (out, sort unknown)"
| "normalise_members ((k, v) # kvs) out unknown = (case canonical_axis k of
       None \<Rightarrow> normalise_members kvs out (unknown @ [k])
     | Some a \<Rightarrow> normalise_members kvs (AList.update a v out) unknown)"

definition normalise_diff :: "json \<Rightarrow> (string, json) pydict \<times> string list" where
  "normalise_diff d = (case d of JObj kvs \<Rightarrow> normalise_members kvs [] [] | _ \<Rightarrow> ([], []))"

datatype moved_reason = Not_A_Mapping | Unmeasured string | Not_A_Sequence string | Unread_Axes "string list"

definition axis_reading :: "(string, json) pydict \<Rightarrow> string \<Rightarrow> string list \<times> moved_reason list" where
  "axis_reading canonical a = (case map_of canonical a of
       None \<Rightarrow> ([a], [Unmeasured a])
     | Some (JArr xs) \<Rightarrow> (if xs \<noteq> [] then [a] else [], [])
     | Some _ \<Rightarrow> ([a], [Not_A_Sequence a]))"

definition authority_moved :: "json \<Rightarrow> string list \<Rightarrow> string list \<times> moved_reason list" where
  "authority_moved d axes = (case d of
       JObj _ \<Rightarrow> (let (canonical, unknown) = normalise_diff d; rs = map (axis_reading canonical) axes
         in (concat (map fst rs), concat (map snd rs) @ (if unknown \<noteq> [] then [Unread_Axes unknown] else [])))
     | _ \<Rightarrow> (axes, [Not_A_Mapping]))"


subsection \<open>The declared path\<close>

record promotion_path =
  stages :: "string list"
  measured :: "string list"
  authority :: string
  covers_axes :: "string list"
  uncovered :: "string list"

datatype barrier_link = No_Authority_Stage | Authority_After_Measurement "string list" | Authority_Is_Measured
  | Axis_Unknown string | Axis_Dropped "string list" | No_Measured_Stage | Stage_Order_Malformed

definition stage_index :: "promotion_path \<Rightarrow> string \<Rightarrow> nat" where
  "stage_index p s = length (takeWhile (\<lambda>x. x \<noteq> s) (stages p))"

definition check_path :: "promotion_path \<Rightarrow> barrier_link option" where
  "check_path p =
     (if stages p = [] then Some Stage_Order_Malformed
      else if \<not> distinct (stages p) then Some Stage_Order_Malformed
      else if authority p = [] then Some No_Authority_Stage
      else if authority p \<notin> set (stages p) then Some No_Authority_Stage
      else if authority p \<in> set (measured p) then Some Authority_Is_Measured
      else if filter (\<lambda>s. s \<notin> set (stages p)) (measured p) \<noteq> [] then Some Stage_Order_Malformed
      else if measured p = [] then Some No_Measured_Stage
      else let late = sort (filter (\<lambda>s. stage_index p s < stage_index p (authority p)) (measured p))
        in if late \<noteq> [] then Some (Authority_After_Measurement late) else None)"

definition check_axes :: "promotion_path \<Rightarrow> barrier_link option" where
  "check_axes p = (case find (\<lambda>a. canonical_axis a = None) (covers_axes p @ uncovered p) of
       Some a \<Rightarrow> Some (Axis_Unknown a)
     | None \<Rightarrow>
         (let dropped = sort (filter (\<lambda>x. Some x \<notin> canonical_axis ` set (covers_axes p @ uncovered p)) authority_axes);
              overlap = sort (filter (\<lambda>x. Some x \<in> canonical_axis ` set (covers_axes p) \<and> Some x \<in> canonical_axis ` set (uncovered p)) authority_axes)
          in if dropped \<noteq> [] then Some (Axis_Dropped dropped)
             else if overlap \<noteq> [] then Some (Axis_Dropped overlap) else None))"


subsection \<open>The registered paths\<close>

definition controller_path :: promotion_path where
  "controller_path = \<lparr>stages = [''trigger'', ''propose'', ''admit'', ''authority'', ''shadow'', ''canary'', ''observe''],
     measured = [''shadow'', ''canary'', ''observe''], authority = ''authority'',
     covers_axes = [''capability'', ''taint'', ''budget'', ''realm'', ''retention''], uncovered = []\<rparr>"

text \<open>The shadow path derives its stages from the precondition walks of \<open>shadow_promotion.py\<close>.\<close>

definition shadow_stages :: "string list" where
  "shadow_stages = [''route''] @ [''evidence'', ''policy'', ''authority'', ''state'']"

definition shadow_axes :: "string list" where
  "shadow_axes = [''budget'', ''capabilities'', ''origins'', ''residence'', ''retention'']"

definition shadow_accumulator :: "string list" where
  "shadow_accumulator = [''accumulate'']"

definition shadow_path :: promotion_path where
  "shadow_path = \<lparr>stages = shadow_stages @ shadow_accumulator, measured = shadow_accumulator, authority = ''authority'',
     covers_axes = shadow_axes, uncovered = []\<rparr>"

definition pool_path :: promotion_path where
  "pool_path = \<lparr>stages = [''charter'', ''membership'', ''tier'', ''ceiling'', ''attestation'', ''evidence'', ''issue''],
     measured = [''evidence''], authority = ''ceiling'',
     covers_axes = [''capability'', ''budget''], uncovered = [''taint'', ''realm'', ''retention'']\<rparr>"

definition canary_path :: promotion_path where
  "canary_path = \<lparr>stages = [''slice'', ''admit'', ''authority'', ''divergence'', ''revert''],
     measured = [''divergence''], authority = ''authority'',
     covers_axes = [''capability'', ''taint'', ''realm'', ''budget'', ''retention''], uncovered = []\<rparr>"

definition path_registry :: "promotion_path list" where
  "path_registry = [canary_path, controller_path, pool_path, shadow_path]"

subsection \<open>What the reading and the rules guarantee\<close>

lemma normalise_members_get:
  "map_of (fst (normalise_members kvs out unknown)) a = (case map_of (rev (map (\<lambda>(k, v). (canonical_axis k, v)) kvs)) (Some a) of
     Some v \<Rightarrow> Some v | None \<Rightarrow> map_of out a)"
  by (induction kvs arbitrary: out unknown)
    (auto simp: update_conv' map_add_def split: option.splits prod.splits)

lemma normalise_members_unknown:
  "set (snd (normalise_members kvs out unknown)) = set unknown \<union> {k \<in> fst ` set kvs. canonical_axis k = None}"
proof (induction kvs arbitrary: out unknown)
  case (Cons x kvs)
  obtain k v where x: "x = (k, v)" by fastforce
  show ?case
  proof (cases "canonical_axis k")
    case None
    then show ?thesis using Cons [of out "unknown @ [k]"] x by auto
  next
    case (Some a)
    then have "{j \<in> fst ` set (x # kvs). canonical_axis j = None} = {j \<in> fst ` set kvs. canonical_axis j = None}" using x by auto
    then show ?thesis using Cons [of "AList.update a v out" unknown] Some x by simp
  qed
qed simp

text \<open>The reading fails closed.  An axis is left out of the moved axes only when the diff is an
  object that carries it, in one of its spellings, with an empty sequence, the last one written
  under any spelling being the one read; and when nothing moved and no reason is given, every
  member of the diff is a known axis.\<close>

theorem authority_moved_fails_closed:
  assumes "a \<in> set axes" "a \<notin> set (fst (authority_moved d axes))"
  shows "\<exists>kvs. d = JObj kvs \<and> map_of (rev (map (\<lambda>(k, v). (canonical_axis k, v)) kvs)) (Some a) = Some (JArr [])
     \<and> (snd (authority_moved d axes) = [] \<longrightarrow> (\<forall>k \<in> fst ` set kvs. canonical_axis k \<noteq> None))"
proof -
  obtain kvs where d: "d = JObj kvs" using assms by (cases d) (auto simp: authority_moved_def)
  let ?c = "fst (normalise_members kvs [] [])"
  have m: "fst (authority_moved d axes) = concat (map (\<lambda>x. fst (axis_reading ?c x)) axes)"
    by (simp add: authority_moved_def d normalise_diff_def Let_def case_prod_beta comp_def)
  then have "a \<notin> set (fst (axis_reading ?c a))" using assms by auto
  then have "map_of ?c a = Some (JArr [])"
    by (auto simp: axis_reading_def split: option.splits json.splits if_splits)
  then have "map_of (rev (map (\<lambda>(k, v). (canonical_axis k, v)) kvs)) (Some a) = Some (JArr [])"
    by (simp add: normalise_members_get split: option.splits)
  moreover have "\<forall>k \<in> fst ` set kvs. canonical_axis k \<noteq> None" if r: "snd (authority_moved d axes) = []"
  proof -
    have "snd (normalise_members kvs [] []) = []"
      using r by (auto simp: authority_moved_def d normalise_diff_def Let_def case_prod_beta split: if_splits)
    then show ?thesis using normalise_members_unknown [of kvs "[]" "[]"] by auto
  qed
  ultimately show ?thesis using d by blast
qed

theorem authority_moved_fails_closed_witness:
  "fst (authority_moved (JObj [('' Origins '', JArr []), (''budget'', JNull)]) authority_axes) = [''budget'', ''capability'', ''realm'', ''retention'']
     \<and> map_of (rev (map (\<lambda>(k, v). (canonical_axis k, v)) [('' Origins '', JArr []), (''budget'', JNull)])) (Some ''taint'') = Some (JArr [])"
proof -
  have m: "fst (authority_moved (JObj [('' Origins '', JArr []), (''budget'', JNull)]) authority_axes) = [''budget'', ''capability'', ''realm'', ''retention'']"
    by code_simp
  have "''taint'' \<in> set authority_axes" by code_simp
  then show ?thesis using authority_moved_fails_closed [of "''taint''" authority_axes "JObj [('' Origins '', JArr []), (''budget'', JNull)]"] m by auto
qed

text \<open>The authority stage stands before a stage.\<close>

definition stands_before :: "string list \<Rightarrow> string \<Rightarrow> string \<Rightarrow> bool" where
  "stands_before ss a b \<longleftrightarrow> (\<exists>xs ys zs. ss = xs @ a # ys @ b # zs)"

lemma index_split: "ss = xs @ a # zs \<Longrightarrow> a \<notin> set xs \<Longrightarrow> length (takeWhile (\<lambda>x. x \<noteq> a) ss) = length xs"
  by (induction xs arbitrary: ss) auto

lemma stands_before_index:
  assumes "distinct ss" "a \<in> set ss" "b \<in> set ss" "a \<noteq> b"
  shows "stands_before ss a b \<longleftrightarrow> \<not> length (takeWhile (\<lambda>x. x \<noteq> b) ss) < length (takeWhile (\<lambda>x. x \<noteq> a) ss)"
proof -
  obtain xs zs where s: "ss = xs @ a # zs" using assms(2) by (meson split_list)
  then have d: "a \<notin> set xs" "a \<notin> set zs" using assms(1) by auto
  have ia: "length (takeWhile (\<lambda>x. x \<noteq> a) ss) = length xs" by (rule index_split [OF s d(1)])
  show ?thesis
  proof (cases "b \<in> set xs")
    case True
    obtain us vs where x: "xs = us @ b # vs" using True by (meson split_list)
    then have "b \<notin> set us" using s assms(1) by auto
    then have "length (takeWhile (\<lambda>x. x \<noteq> b) ss) = length us" using index_split [of ss us b "vs @ a # zs"] s x by simp
    moreover have "\<not> stands_before ss a b"
    proof
      assume "stands_before ss a b"
      then obtain ps qs rs where p: "ss = ps @ a # qs @ b # rs" by (auto simp: stands_before_def)
      then have "a \<notin> set ps" using assms(1) by auto
      then have "length ps = length xs" using index_split [OF p] ia by simp
      then have "ps = xs \<and> qs @ b # rs = zs" using p s by simp
      then have "b \<in> set zs" by auto
      then show False using s assms(1) True by auto
    qed
    ultimately show ?thesis using ia x by simp
  next
    case False
    then obtain us vs where z: "zs = us @ b # vs" using assms(3,4) s by (auto dest: split_list)
    then have "stands_before ss a b" using s by (auto simp: stands_before_def)
    moreover have "b \<notin> set us" using s z assms(1) by auto
    then have "length (takeWhile (\<lambda>x. x \<noteq> b) ss) = length (xs @ a # us)"
      using index_split [of ss "xs @ a # us" b vs] s z False assms(4) by simp
    ultimately show ?thesis using ia by simp
  qed
qed

lemma check_path_None:
  "check_path p = None \<longleftrightarrow> distinct (stages p) \<and> authority p \<noteq> [] \<and> authority p \<in> set (stages p)
     \<and> authority p \<notin> set (measured p) \<and> measured p \<noteq> []
     \<and> (\<forall>s \<in> set (measured p). s \<in> set (stages p) \<and> stands_before (stages p) (authority p) s)"
proof (cases "distinct (stages p) \<and> authority p \<in> set (stages p) \<and> authority p \<notin> set (measured p) \<and> set (measured p) \<subseteq> set (stages p)")
  case True
  have "stands_before (stages p) (authority p) s \<longleftrightarrow> \<not> stage_index p s < stage_index p (authority p)" if "s \<in> set (measured p)" for s
    unfolding stage_index_def by (rule stands_before_index) (use True that in auto)
  moreover have "(sort (filter Q (measured p)) = []) = (\<forall>s \<in> set (measured p). \<not> Q s)" for Q
    by (metis filter_empty_conv length_0_conv length_sort)
  ultimately show ?thesis using True by (auto simp: check_path_def Let_def filter_empty_conv)
next
  case False
  then show ?thesis by (auto simp: check_path_def Let_def filter_empty_conv)
qed

lemma sort_filter_Nil: "(sort (filter Q xs) = []) = (\<forall>x \<in> set xs. \<not> Q x)"
  by (metis filter_empty_conv length_0_conv length_sort)

text \<open>The axes a list of spellings names.\<close>

definition names_axis :: "string list \<Rightarrow> string \<Rightarrow> bool" where
  "names_axis ns a \<longleftrightarrow> list_ex (\<lambda>n. canonical_axis n = Some a) ns"

lemma names_axis_image: "Some a \<in> canonical_axis ` set ns \<longleftrightarrow> names_axis ns a"
  by (auto simp: names_axis_def list_ex_iff intro: rev_image_eqI)

lemma check_axes_None:
  "check_axes p = None \<longleftrightarrow> (\<forall>n \<in> set (covers_axes p @ uncovered p). canonical_axis n \<noteq> None)
     \<and> (\<forall>a \<in> set authority_axes. names_axis (covers_axes p) a \<noteq> names_axis (uncovered p) a)"
proof (cases "find (\<lambda>a. canonical_axis a = None) (covers_axes p @ uncovered p)")
  case None
  let ?all = "covers_axes p @ uncovered p"
  have app: "names_axis ?all a \<longleftrightarrow> names_axis (covers_axes p) a \<or> names_axis (uncovered p) a" for a by (simp add: names_axis_def)
  have e: "check_axes p = None \<longleftrightarrow> (\<forall>a \<in> set authority_axes. names_axis ?all a)
      \<and> (\<forall>a \<in> set authority_axes. \<not> (names_axis (covers_axes p) a \<and> names_axis (uncovered p) a))"
    unfolding check_axes_def None option.case Let_def names_axis_image by (simp add: sort_filter_Nil del: set_append)
  have "\<forall>n \<in> set ?all. canonical_axis n \<noteq> None" using None by (simp add: find_None_iff del: set_append)
  then show ?thesis unfolding e app by blast
next
  case (Some a)
  then have "\<not> (\<nexists>n. n \<in> set (covers_axes p @ uncovered p) \<and> canonical_axis n = None)"
    by (simp only: find_None_iff [symmetric]) simp
  then show ?thesis using Some by (auto simp: check_axes_def)
qed

text \<open>The two rules are the barrier.  A path passes the ordering rule exactly when it walks distinct
  stages, names one of them as its authority stage, does not count it as a measurement, has a
  measured stage, walks every measured stage, and has the authority stage before each of them; it
  passes the axis rule exactly when every axis it names is known and each authority axis is either
  covered or named as uncovered, not both.\<close>

theorem barrier_exact:
  "(check_path p = None \<longleftrightarrow> distinct (stages p) \<and> authority p \<noteq> [] \<and> authority p \<in> set (stages p)
      \<and> authority p \<notin> set (measured p) \<and> measured p \<noteq> []
      \<and> (\<forall>s \<in> set (measured p). s \<in> set (stages p) \<and> stands_before (stages p) (authority p) s))
   \<and> (check_axes p = None \<longleftrightarrow> (\<forall>n \<in> set (covers_axes p @ uncovered p). canonical_axis n \<noteq> None)
      \<and> (\<forall>a \<in> set authority_axes. names_axis (covers_axes p) a \<noteq> names_axis (uncovered p) a))"
  using check_path_None check_axes_None by blast

text \<open>Every registered path passes both rules.\<close>

lemma registry_admitted: "list_all (\<lambda>p. check_path p = None \<and> check_axes p = None) path_registry"
  by code_simp

theorem barrier_exact_witness:
  "list_all (\<lambda>p. stands_before (stages p) (authority p) (last (measured p))) path_registry
     \<and> names_axis (uncovered pool_path) ''taint'' \<noteq> names_axis (covers_axes pool_path) ''taint''"
proof -
  have "stands_before (stages p) (authority p) (last (measured p))" if "check_path p = None" for p
  proof -
    have "last (measured p) \<in> set (measured p)" using barrier_exact [of p] that by (intro last_in_set) blast
    then show ?thesis using barrier_exact [of p] that by blast
  qed
  moreover have "''taint'' \<in> set authority_axes" "pool_path \<in> set path_registry"
    by (simp_all add: authority_axes_def path_registry_def)
  moreover have "names_axis (uncovered p) a \<noteq> names_axis (covers_axes p) a" if "check_axes p = None" "a \<in> set authority_axes" for p a
    using barrier_exact [of p] that by blast
  ultimately show ?thesis using registry_admitted by (simp add: list_all_iff)
qed

end
