(* ===== verification/Type_Algebra.thy ===== *)
theory Type_Algebra
  imports Revl_Prelude
begin

section \<open>The type algebra (\<open>src/revl/typecheck.py\<close>)\<close>

text \<open>
  A type is its spelling, \<^term>\<open>None\<close> where nothing is known.  The parser splits a spelling into a head
  and argument spellings, the function arrow being a head of its own; \<open>compatible\<close> decides whether
  a value of one type may flow into a position of another.  It is modelled as admission and
  versioning call it, without a table of declared types, so a structural record never meets a
  nominal one.
\<close>

definition fn_head :: string where "fn_head = ''->''"

definition tparam_mark :: char where "tparam_mark = CHR ''?''"

definition poison :: string where "poison = ''!poison''"

text \<open>Splitting on the commas outside brackets of any kind.\<close>

fun split_top_from :: "int \<Rightarrow> string \<Rightarrow> string \<Rightarrow> string list" where
  "split_top_from d cur [] = [py_strip cur]"
| "split_top_from d cur (c # cs) =
     (if c \<in> {CHR ''['', CHR ''('', CHR ''{''} then split_top_from (d + 1) (cur @ [c]) cs
      else if c \<in> {CHR '']'', CHR '')'', CHR ''}''} then split_top_from (d - 1) (cur @ [c]) cs
      else if c = CHR '','' \<and> d = 0 then py_strip cur # split_top_from d [] cs
      else split_top_from d (cur @ [c]) cs)"

definition split_top_level :: "string \<Rightarrow> string list" where
  "split_top_level t = split_top_from 0 [] t"

text \<open>The text before and after the bracket that closes the first one.\<close>

fun close_bracket :: "int \<Rightarrow> string \<Rightarrow> string \<Rightarrow> (string \<times> string) option" where
  "close_bracket d seen [] = None"
| "close_bracket d seen (c # cs) =
     (if c \<in> {CHR ''['', CHR ''(''} then close_bracket (d + 1) (seen @ [c]) cs
      else if c \<in> {CHR '']'', CHR '')''}
      then (if d - 1 = 0 then Some (seen, cs) else close_bracket (d - 1) (seen @ [c]) cs)
      else close_bracket d (seen @ [c]) cs)"

definition split_fn_type :: "string \<Rightarrow> (string list \<times> string) option" where
  "split_fn_type name = (case name of
       [] \<Rightarrow> None
     | c # cs \<Rightarrow> if c \<noteq> CHR ''('' then None else
         (case close_bracket 1 [] cs of
            None \<Rightarrow> None
          | Some (seen, after) \<Rightarrow>
              (case dropWhile py_space after of
                 x # y # returns \<Rightarrow> if x = CHR ''-'' \<and> y = CHR ''>''
                   then Some (let inner = py_strip seen in (if inner \<noteq> [] then split_top_level inner else []), py_strip returns)
                   else None
               | _ \<Rightarrow> None)))"

definition parse_type :: "string option \<Rightarrow> string option \<times> string list" where
  "parse_type t = (case t of None \<Rightarrow> (None, []) | Some name \<Rightarrow>
     if name = [] then (None, []) else
     (case split_fn_type (py_strip name) of
        Some (params, returns) \<Rightarrow> (Some fn_head, params @ [returns])
      | None \<Rightarrow>
          if CHR ''['' \<notin> set name \<or> last name \<noteq> CHR '']'' then (Some name, [])
          else (Some (takeWhile (\<lambda>c. c \<noteq> CHR ''['') name),
                split_top_level (butlast (tl (dropWhile (\<lambda>c. c \<noteq> CHR ''['') name))))))"

abbreviation type_head :: "string option \<Rightarrow> string option" where "type_head t \<equiv> fst (parse_type t)"
abbreviation type_args :: "string option \<Rightarrow> string list" where "type_args t \<equiv> snd (parse_type t)"

definition format_type :: "string option \<Rightarrow> string list \<Rightarrow> string option" where
  "format_type h args = (case h of None \<Rightarrow> None | Some head \<Rightarrow> Some (
     if head = fn_head then CHR ''('' # py_join '', '' (butlast args) @ '') -> '' @ last args
     else if args = [] then head else head @ CHR ''['' # py_join '', '' args @ '']''))"

definition function_heads :: "string list" where "function_heads = [fn_head, ''Fn'']"

definition is_function_type :: "string option \<Rightarrow> bool" where
  "is_function_type t \<longleftrightarrow> (case type_head t of Some h \<Rightarrow> h \<in> set function_heads | None \<Rightarrow> False)"

text \<open>The fields of a structural record spelling; a part without a colon is skipped.\<close>

definition field_part :: "string \<Rightarrow> (string \<times> string option) option" where
  "field_part part = (if CHR '':'' \<notin> set part then None else
     (let v = py_strip (tl (dropWhile (\<lambda>c. c \<noteq> CHR '':'') part))
      in Some (py_strip (takeWhile (\<lambda>c. c \<noteq> CHR '':'') part), if v = [] then None else Some v)))"

definition structural_fields :: "string option \<Rightarrow> (string, string option) pydict option" where
  "structural_fields t = (case t of None \<Rightarrow> None | Some raw \<Rightarrow>
     if raw = [] then None else
     (let name = py_strip raw in
        if name = [] \<or> hd name \<noteq> CHR ''{'' \<or> last name \<noteq> CHR ''}'' then None
        else (let inner = py_strip (butlast (tl name)) in
          Some (if inner = [] then [] else dict_of (List.map_filter field_part (split_top_level inner))))))"

definition is_wildcard :: "string option \<Rightarrow> bool" where
  "is_wildcard t \<longleftrightarrow> (case t of None \<Rightarrow> True | Some n \<Rightarrow>
     n = ''Any'' \<or> n = ''Never'' \<or> n = poison \<or> (n \<noteq> [] \<and> hd n = tparam_mark))"


subsection \<open>The pieces of a spelling are shorter than it\<close>

definition type_size :: "string option \<Rightarrow> nat" where
  "type_size t = (case t of None \<Rightarrow> 0 | Some n \<Rightarrow> length n)"

lemma type_size_simps [simp]: "type_size None = 0" "type_size (Some n) = length n"
  by (simp_all add: type_size_def)

lemma length_strip: "length (py_strip s) \<le> length s"
  unfolding py_strip_def by (metis length_dropWhile_le length_rev order_trans)

lemma split_top_from_length: "x \<in> set (split_top_from d cur t) \<Longrightarrow> length x \<le> length cur + length t"
proof (induction t arbitrary: d cur)
  case Nil
  then show ?case using length_strip [of cur] by simp
next
  case (Cons c cs)
  let ?P = "c \<in> {CHR ''['', CHR ''('', CHR ''{''}" and ?Q = "c \<in> {CHR '']'', CHR '')'', CHR ''}''}" and ?R = "c = CHR '','' \<and> d = 0"
  have "(\<exists>d'. x \<in> set (split_top_from d' (cur @ [c]) cs)) \<or> x = py_strip cur \<or> x \<in> set (split_top_from d [] cs)"
    using Cons.prems unfolding split_top_from.simps(2) by (cases ?P; cases ?Q; cases ?R) (simp only: if_True if_False; force)+
  then show ?case using Cons.IH [of _ "cur @ [c]"] Cons.IH [of d "[]"] length_strip [of cur] by fastforce
qed

lemma split_top_length: "x \<in> set (split_top_level t) \<Longrightarrow> length x \<le> length t"
  using split_top_from_length [of x 0 "[]" t] by (simp add: split_top_level_def)

lemma close_bracket_length: "close_bracket d seen t = Some (a, b) \<Longrightarrow> length a + length b < length seen + length t"
proof (induction t arbitrary: d seen)
  case (Cons c cs)
  let ?P = "c \<in> {CHR ''['', CHR ''(''}" and ?Q = "c \<in> {CHR '']'', CHR '')''}"
  have "(\<exists>d'. close_bracket d' (seen @ [c]) cs = Some (a, b)) \<or> (a = seen \<and> b = cs)"
    using Cons.prems unfolding close_bracket.simps(2) by (cases ?P; cases ?Q; cases "d - 1 = 0") (simp only: if_True if_False; force)+
  then show ?case using Cons.IH [of _ "seen @ [c]"] by fastforce
qed simp

lemma split_fn_length:
  assumes "split_fn_type name = Some (ps, r)" "x \<in> set (ps @ [r])"
  shows "length x < length name"
proof -
  obtain cs seen after x1 y1 returns where p: "name = CHR ''('' # cs" "close_bracket 1 [] cs = Some (seen, after)"
    "dropWhile py_space after = x1 # y1 # returns" "r = py_strip returns"
    "ps = (if py_strip seen \<noteq> [] then split_top_level (py_strip seen) else [])"
    using assms(1) by (auto simp: split_fn_type_def Let_def split: list.splits if_splits option.splits)
  have l: "length seen + length after < length cs" using close_bracket_length [OF p(2)] by simp
  have "length returns \<le> length after" using p(3) length_dropWhile_le [of py_space after] by simp
  moreover have "length r \<le> length returns" unfolding p(4) by (rule length_strip)
  moreover have "length x \<le> length seen" if "x \<in> set ps"
    using that p(5) split_top_length [of x "py_strip seen"] length_strip [of seen] by (auto split: if_splits)
  ultimately show ?thesis using assms(2) l p(1) by auto
qed

lemma type_args_length:
  assumes "x \<in> set (type_args t)"
  shows "length x < type_size t"
proof -
  obtain name where t: "t = Some name" "name \<noteq> []" using assms by (cases t) (auto simp: parse_type_def split: if_splits)
  show ?thesis
  proof (cases "split_fn_type (py_strip name)")
    case (Some f)
    obtain ps r where f: "f = (ps, r)" by fastforce
    then have "length x < length (py_strip name)"
      using split_fn_length [of "py_strip name" ps r x] Some assms t by (simp add: parse_type_def)
    then show ?thesis using length_strip [of name] t by simp
  next
    case None
    let ?rest = "dropWhile (\<lambda>c. c \<noteq> CHR ''['') name"
    have "x \<in> set (split_top_level (butlast (tl ?rest)))" using assms None t by (auto simp: parse_type_def split: if_splits)
    then have "length x \<le> length (butlast (tl ?rest))" by (rule split_top_length)
    also have "\<dots> \<le> length name - 2" using length_dropWhile_le [of "\<lambda>c. c \<noteq> CHR ''[''" name] by simp
    also have "\<dots> < length name" using t(2) by (cases name) auto
    finally show ?thesis using t by simp
  qed
qed

lemma map_of_dict_of_in: "map_of (dict_of ps) k = Some v \<Longrightarrow> (k, v) \<in> set ps"
  unfolding map_of_dict_of by (auto dest: map_of_SomeD)

lemma structural_field_size:
  assumes "structural_fields t = Some fs" "map_of fs k = Some v"
  shows "type_size v < type_size t"
proof -
  obtain raw where t: "t = Some raw" using assms(1) by (cases t) (auto simp: structural_fields_def)
  let ?name = "py_strip raw" and ?inner = "py_strip (butlast (tl (py_strip raw)))"
  have n: "?name \<noteq> []" and fs: "fs = (if ?inner = [] then [] else dict_of (List.map_filter field_part (split_top_level ?inner)))"
    using assms(1) t by (auto simp: structural_fields_def Let_def split: if_splits)
  then have "(k, v) \<in> set (List.map_filter field_part (split_top_level ?inner))"
    using assms(2) map_of_dict_of_in by (fastforce split: if_splits)
  then obtain part where part: "part \<in> set (split_top_level ?inner)" "field_part part = Some (k, v)"
    by (auto simp: List.map_filter_def)
  have "type_size v \<le> length part"
  proof -
    let ?w = "tl (dropWhile (\<lambda>c. c \<noteq> CHR '':'') part)"
    have "type_size v \<le> length (py_strip ?w)" using part(2) by (auto simp: field_part_def Let_def split: if_splits)
    also have "\<dots> \<le> length ?w" by (rule length_strip)
    also have "\<dots> \<le> length part" using length_dropWhile_le [of "\<lambda>c. c \<noteq> CHR '':''" part] by simp
    finally show ?thesis .
  qed
  also have "\<dots> \<le> length ?inner" by (rule split_top_length [OF part(1)])
  also have "\<dots> \<le> length (butlast (tl ?name))" by (rule length_strip)
  also have "\<dots> < length ?name" using n by (cases ?name) auto
  also have "\<dots> \<le> length raw" by (rule length_strip)
  finally show ?thesis using t by simp
qed


subsection \<open>May a value of one type flow into a position of another\<close>

definition same_fields :: "(string, 'a) pydict \<Rightarrow> (string, 'b) pydict \<Rightarrow> bool" where
  "same_fields a b \<longleftrightarrow> list_all (\<lambda>k. k \<in> set (map fst b)) (map fst a) \<and> list_all (\<lambda>k. k \<in> set (map fst a)) (map fst b)"

definition field_of :: "(string, string option) pydict \<Rightarrow> string \<Rightarrow> string option" where
  "field_of fs k = dict_get fs k None"

definition is_function_head :: "string option \<Rightarrow> bool" where
  "is_function_head h \<longleftrightarrow> (case h of Some n \<Rightarrow> n \<in> set function_heads | None \<Rightarrow> False)"

definition first_arg :: "string list \<Rightarrow> string option" where
  "first_arg args = (case args of [] \<Rightarrow> None | x # _ \<Rightarrow> Some x)"

text \<open>The answers that need no look inside: the bottom takes nothing in, the wildcards and the dynamic
  type launder both ways, equal spellings flow.\<close>

definition flows_early :: "string option \<Rightarrow> string option \<Rightarrow> bool option" where
  "flows_early e a =
    (if type_head e = Some ''Never'' \<and> \<not> is_wildcard a then Some False
     else if is_wildcard e \<or> is_wildcard a then Some True
     else if type_head e = Some ''Value'' \<or> type_head a = Some ''Value'' then Some True
     else if e = a then Some True else None)"

definition widens :: "string option \<Rightarrow> string option \<Rightarrow> bool" where
  "widens eh ah \<longleftrightarrow> (eh = Some ''Float'' \<and> ah = Some ''Int'') \<or> ((eh = Some ''Int'' \<or> eh = Some ''Float'') \<and> ah = Some ''Int32'')"

lemma field_of_size:
  assumes "structural_fields t \<noteq> None"
  shows "type_size (field_of (the (structural_fields t)) k) < type_size t"
proof -
  obtain fs where fs: "structural_fields t = Some fs" using assms by blast
  have "type_size t \<noteq> 0" using fs by (cases t) (auto simp: structural_fields_def)
  then show ?thesis using structural_field_size [OF fs, of k] fs by (auto simp: field_of_def dict_get_def split: option.splits)
qed

lemma type_size_head: "type_head t = Some h \<Longrightarrow> type_size t \<noteq> 0"
  by (cases t) (auto simp: parse_type_def)

lemma first_arg_size: "type_head t = Some h \<Longrightarrow> type_size (first_arg (type_args t)) < type_size t"
  using type_args_length [of _ t] type_size_head [of t h] by (cases "type_args t") (auto simp: first_arg_def)

lemma zip_args_size:
  assumes "x \<in> set (zip xs ys)" "set xs \<subseteq> set (type_args e)" "set ys \<subseteq> set (type_args a)"
  shows "length (fst x) + length (snd x) < type_size e + type_size a"
proof -
  obtain u v where x: "x = (u, v)" by fastforce
  have "u \<in> set (type_args e)" "v \<in> set (type_args a)"
    using assms set_zip_leftD [of u v xs ys] set_zip_rightD [of u v xs ys] x by auto
  then show ?thesis using type_args_length [of u e] type_args_length [of v a] x by simp
qed

lemma butlast_args: "set (butlast xs) \<subseteq> set xs"
  by (auto dest: in_set_butlastD)

text \<open>Two function types of one arity always have a result; a head without arguments is no pair here.\<close>

function compatible :: "string option \<Rightarrow> string option \<Rightarrow> bool" where
  "compatible e a =
    (if flows_early e a \<noteq> None then the (flows_early e a)
     else if structural_fields e \<noteq> None \<and> structural_fields a \<noteq> None then
       same_fields (the (structural_fields e)) (the (structural_fields a))
       \<and> list_all (\<lambda>k. compatible (field_of (the (structural_fields e)) k) (field_of (the (structural_fields a)) k))
           (map fst (the (structural_fields e)))
     else if widens (type_head e) (type_head a) then True
     else if type_head e = Some ''Async'' \<and> type_head a \<noteq> Some ''Async'' then compatible (first_arg (type_args e)) a
     else if is_function_head (type_head e) \<and> is_function_head (type_head a) then
       length (type_args e) = length (type_args a)
       \<and> list_all (\<lambda>x. compatible (Some (snd x)) (Some (fst x))) (zip (butlast (type_args e)) (butlast (type_args a)))
       \<and> list_all (\<lambda>x. compatible (Some (fst x)) (Some (snd x))) (drop (length (type_args e) - 1) (zip (type_args e) (type_args a)))
     else if type_head e = Some ''Opt'' then
       (if type_head a = Some ''Opt'' then compatible (first_arg (type_args e)) (first_arg (type_args a))
        else compatible (first_arg (type_args e)) a)
     else if type_head e = type_head a \<and> length (type_args e) = length (type_args a) then
       list_all (\<lambda>x. compatible (Some (fst x)) (Some (snd x))) (zip (type_args e) (type_args a))
     else False)"
  by pat_completeness auto
termination
proof (relation "measure (\<lambda>(e, a). type_size e + type_size a)", goal_cases)
  case (2 e a k)
  then show ?case using field_of_size [of e k] field_of_size [of a k] by simp
next
  case (3 e a)
  then show ?case using first_arg_size [of e] by simp
next
  case (4 e a x)
  then show ?case using zip_args_size [OF _ butlast_args butlast_args, of x e a] by (simp add: add.commute)
next
  case (5 e a x)
  then have "x \<in> set (zip (type_args e) (type_args a))" by (meson in_set_dropD)
  then show ?case using zip_args_size [of x "type_args e" "type_args a" e a] by simp
next
  case (6 e a)
  then show ?case using first_arg_size [of e] first_arg_size [of a] by fastforce
next
  case (7 e a)
  then show ?case using first_arg_size [of e] by simp
next
  case (8 e a x)
  then show ?case using zip_args_size [of x "type_args e" "type_args a" e a] by simp
qed simp

declare compatible.simps [simp del]


subsection \<open>The common type of two branches\<close>

text \<open>The type arguments that are only a placeholder are filled from the other side, at any depth.\<close>

function fill_unknown_args :: "string \<Rightarrow> string option \<Rightarrow> string" where
  "fill_unknown_args keep other =
     (if type_head (Some keep) \<noteq> type_head other \<or> length (type_args (Some keep)) \<noteq> length (type_args other) then keep
      else (let filled = map (\<lambda>x. if fst x = ''Any'' \<and> snd x \<noteq> ''Any'' then snd x else fill_unknown_args (fst x) (Some (snd x)))
              (zip (type_args (Some keep)) (type_args other))
            in if filled \<noteq> type_args (Some keep) then the (format_type (type_head (Some keep)) filled) else keep))"
  by pat_completeness auto
termination
proof (relation "measure (\<lambda>(k, t). length k)", goal_cases)
  case (2 keep other x)
  then show ?case using type_args_length [of "fst x" "Some keep"] set_zip_leftD [of "fst x" "snd x"] by simp
qed simp

declare fill_unknown_args.simps [simp del]

definition join_types :: "string option \<Rightarrow> string option \<Rightarrow> string option" where
  "join_types a b = (case (a, b) of
       (Some x, Some y) \<Rightarrow> if compatible a b then Some (fill_unknown_args x b)
         else if compatible b a then Some (fill_unknown_args y a) else None
     | _ \<Rightarrow> None)"

end
