(* ===== verification/Type_Order.thy ===== *)
theory Type_Order
  imports Type_Algebra Attenuation
begin

section \<open>Compatibility is a preorder on static types\<close>

text \<open>
  The wildcards and the dynamic type make compatibility non-transitive by design.  On the spellings
  without them, with the arities the language gives its own heads, it is a preorder: numbers widen,
  the wrapper types inject, functions are contravariant in their parameters, and every other head
  is matched argument by argument.
\<close>

definition head_of :: "string \<Rightarrow> string" where "head_of s = the (type_head (Some s))"
abbreviation args_of :: "string \<Rightarrow> string list" where "args_of s \<equiv> type_args (Some s)"

definition wrapper :: "string \<Rightarrow> bool" where
  "wrapper h \<longleftrightarrow> h = ''Opt'' \<or> h = ''Async''"

definition arity_ok :: "string \<Rightarrow> nat \<Rightarrow> bool" where
  "arity_ok h n \<longleftrightarrow> (wrapper h \<longrightarrow> n = 1) \<and> (h \<in> {''Int'', ''Int32'', ''Float''} \<longrightarrow> n = 0) \<and> (h \<in> set function_heads \<longrightarrow> n \<ge> 1)"

function static :: "string \<Rightarrow> bool" where
  "static s \<longleftrightarrow> s \<noteq> [] \<and> \<not> is_wildcard (Some s) \<and> head_of s \<notin> {''Never'', ''Value''} \<and> structural_fields (Some s) = None
     \<and> arity_ok (head_of s) (length (args_of s)) \<and> list_all static (args_of s)"
  by pat_completeness auto
termination
  by (relation "measure length") (auto dest: type_args_length)

declare static.simps [simp del]

abbreviation flows :: "string \<Rightarrow> string \<Rightarrow> bool" where "flows e a \<equiv> compatible (Some e) (Some a)"

lemma static_head: "static s \<Longrightarrow> type_head (Some s) = Some (head_of s)"
  by (subst (asm) static.simps) (auto simp: head_of_def parse_type_def split: option.splits prod.splits)

lemma static_args: "static s \<Longrightarrow> x \<in> set (args_of s) \<Longrightarrow> static x"
  by (subst (asm) static.simps) (simp add: list_all_iff)

lemma static_arity: "static s \<Longrightarrow> arity_ok (head_of s) (length (args_of s))"
  by (subst (asm) static.simps) simp

lemma arg_shorter: "x \<in> set (args_of s) \<Longrightarrow> length x < length s"
  using type_args_length [of x "Some s"] by simp

lemma static_not_dynamic: "static s \<Longrightarrow> \<not> is_wildcard (Some s) \<and> head_of s \<notin> {''Never'', ''Value''} \<and> structural_fields (Some s) = None"
  by (subst (asm) static.simps) simp

lemma flows_refl: "static s \<Longrightarrow> flows s s"
  using static_not_dynamic [of s] by (subst compatible.simps) (simp add: flows_early_def static_head)

lemma heads_apart: "wrapper h \<Longrightarrow> h \<notin> set function_heads" "wrapper h \<Longrightarrow> h \<notin> {''Int'', ''Int32'', ''Float''}"
  "h \<in> set function_heads \<Longrightarrow> h \<notin> {''Int'', ''Int32'', ''Float''}"
  by (auto simp: wrapper_def function_heads_def fn_head_def)

lemma arrow_args: "static s \<Longrightarrow> head_of s \<in> set function_heads \<Longrightarrow> args_of s \<noteq> []"
  using static_arity [of s] by (cases "args_of s") (simp_all add: arity_ok_def)

definition inner :: "string \<Rightarrow> string" where "inner s = hd (args_of s)"

lemma inner_first: "static s \<Longrightarrow> wrapper (head_of s) \<Longrightarrow> args_of s = [inner s]"
  using static_arity [of s] by (cases "args_of s") (auto simp: arity_ok_def inner_def)

lemma flows_tail:
  assumes "static e" "static a" "e \<noteq> a"
  shows "flows e a \<longleftrightarrow>
     (if widens (Some (head_of e)) (Some (head_of a)) then True
     else if head_of e = ''Async'' \<and> head_of a \<noteq> ''Async'' then compatible (first_arg (args_of e)) (Some a)
     else if head_of e \<in> set function_heads \<and> head_of a \<in> set function_heads then
       length (args_of e) = length (args_of a)
       \<and> list_all (\<lambda>x. flows (snd x) (fst x)) (zip (butlast (args_of e)) (butlast (args_of a)))
       \<and> list_all (\<lambda>x. flows (fst x) (snd x)) (drop (length (args_of e) - 1) (zip (args_of e) (args_of a)))
     else if head_of e = ''Opt'' then
       (if head_of a = ''Opt'' then compatible (first_arg (args_of e)) (first_arg (args_of a))
        else compatible (first_arg (args_of e)) (Some a))
     else if head_of e = head_of a \<and> length (args_of e) = length (args_of a) then
       list_all (\<lambda>x. flows (fst x) (snd x)) (zip (args_of e) (args_of a))
     else False)"
proof -
  note static_not_dynamic [OF assms(1)] static_not_dynamic [OF assms(2)]
  then have "flows_early (Some e) (Some a) = None" "structural_fields (Some e) = None"
    using assms by (auto simp: flows_early_def static_head)
  then show ?thesis
    unfolding compatible.simps [of "Some e" "Some a"]
    by (simp add: is_function_head_def static_head assms del: One_nat_def)
qed

lemma list_all_zip: "length xs = length ys \<Longrightarrow> list_all (\<lambda>x. P (fst x) (snd x)) (zip xs ys) \<longleftrightarrow> list_all2 P xs ys"
  by (induction xs ys rule: list_induct2) auto

lemma last_zip: "length xs = length ys \<Longrightarrow> xs \<noteq> [] \<Longrightarrow> drop (length xs - 1) (zip xs ys) = [(last xs, last ys)]"
  by (induction xs ys rule: list_induct2) (auto simp: Suc_diff_le neq_Nil_conv split: nat.splits)

text \<open>The four ways a static type flows into another.\<close>

lemma flows_iff:
  assumes "static e" "static a"
  shows "flows e a \<longleftrightarrow> widens (Some (head_of e)) (Some (head_of a))
     \<or> (wrapper (head_of e) \<and> (if head_of a = head_of e then flows (inner e) (inner a) else flows (inner e) a))
     \<or> (head_of e \<in> set function_heads \<and> head_of a \<in> set function_heads
        \<and> list_all2 (\<lambda>x y. flows y x) (butlast (args_of e)) (butlast (args_of a)) \<and> flows (last (args_of e)) (last (args_of a)))
     \<or> (\<not> wrapper (head_of e) \<and> head_of e \<notin> set function_heads \<and> head_of a = head_of e \<and> list_all2 flows (args_of e) (args_of a))"
    (is "_ = ?R")
proof -
  consider (wrap) "wrapper (head_of e)" | (arrow) "head_of e \<in> set function_heads" "\<not> wrapper (head_of e)"
    | (plain) "\<not> wrapper (head_of e)" "head_of e \<notin> set function_heads" by blast
  then show ?thesis
  proof cases
    case wrap
    then have e: "first_arg (args_of e) = Some (inner e)" "args_of e = [inner e]"
      using inner_first [OF assms(1)] by (simp_all add: first_arg_def)
    have a: "first_arg (args_of a) = Some (inner a)" "args_of a = [inner a]" if "head_of a = head_of e"
      using inner_first [OF assms(2)] wrap that by (simp_all add: first_arg_def)
    have nw: "\<not> widens (Some (head_of e)) k" for k using heads_apart(2) [OF wrap] by (auto simp: widens_def)
    have "flows e a \<longleftrightarrow> (if head_of a = head_of e then flows (inner e) (inner a) else flows (inner e) a)"
    proof (cases "e = a")
      case True
      then show ?thesis using flows_refl [OF assms(1)] flows_refl [OF static_args [OF assms(1)], of "inner e"] e by simp
    next
      case False
      show ?thesis
        using wrap a heads_apart(1) [OF wrap] unfolding flows_tail [OF assms False] wrapper_def
        by (elim disjE) (simp_all add: widens_def first_arg_def e)
    qed
    then show ?thesis using wrap nw heads_apart(1) [OF wrap] by simp
  next
    case arrow
    then have ne: "args_of e \<noteq> []" using arrow_args [OF assms(1)] by blast
    have nw: "\<not> widens (Some (head_of e)) k" for k using heads_apart(3) [OF arrow(1)] by (auto simp: widens_def)
    have "flows e a \<longleftrightarrow> head_of a \<in> set function_heads \<and> length (args_of e) = length (args_of a)
        \<and> list_all2 (\<lambda>x y. flows y x) (butlast (args_of e)) (butlast (args_of a)) \<and> flows (last (args_of e)) (last (args_of a))"
    proof (cases "e = a")
      case True
      have "list_all2 (\<lambda>x y. flows y x) (butlast (args_of e)) (butlast (args_of e))"
        using static_args [OF assms(1)] by (intro list.rel_refl_strong flows_refl) (auto dest: in_set_butlastD)
      moreover have "flows (last (args_of e)) (last (args_of e))" by (rule flows_refl [OF static_args [OF assms(1) last_in_set [OF ne]]])
      ultimately show ?thesis using flows_refl [OF assms(1)] arrow True by simp
    next
      case False
      let ?len = "length (args_of e) = length (args_of a)"
      let ?params = "list_all (\<lambda>x. flows (snd x) (fst x)) (zip (butlast (args_of e)) (butlast (args_of a)))"
      let ?result = "list_all (\<lambda>x. flows (fst x) (snd x)) (drop (length (args_of e) - 1) (zip (args_of e) (args_of a)))"
      have "head_of e \<noteq> ''Opt'' \<and> head_of e \<noteq> ''Async''" using arrow(2) by (simp add: wrapper_def)
      then have "flows e a \<longleftrightarrow> head_of a \<in> set function_heads \<and> ?len \<and> ?params \<and> ?result"
        unfolding flows_tail [OF assms False] using arrow(1) nw by (auto simp del: One_nat_def)
      moreover have "?params \<longleftrightarrow> list_all2 (\<lambda>x y. flows y x) (butlast (args_of e)) (butlast (args_of a))" if ?len
        using that by (intro list_all_zip [where P = "\<lambda>x y. flows y x"]) simp
      moreover have "?result \<longleftrightarrow> flows (last (args_of e)) (last (args_of a))" if ?len
        unfolding last_zip [OF that ne] by simp
      ultimately show ?thesis by blast
    qed
    moreover have "length (args_of e) = length (args_of a)"
      if "list_all2 (\<lambda>x y. flows y x) (butlast (args_of e)) (butlast (args_of a))" "head_of a \<in> set function_heads"
    proof -
      have "length (args_of a) \<ge> 1" using static_arity [OF assms(2)] that(2) by (auto simp: arity_ok_def)
      moreover have "length (args_of e) \<ge> 1" using ne by (cases "args_of e") auto
      ultimately show ?thesis using list_all2_lengthD [OF that(1)] by simp
    qed
    ultimately show ?thesis using arrow nw by auto
  next
    case plain
    show ?thesis
    proof (cases "e = a")
      case True
      have "list_all2 flows (args_of e) (args_of e)"
        using static_args [OF assms(1)] by (intro list.rel_refl_strong flows_refl) auto
      then show ?thesis using flows_refl [OF assms(1)] plain True by simp
    next
      case False
      show ?thesis unfolding flows_tail [OF assms False] using plain
        by (auto simp: wrapper_def list_all_zip [where P = "\<lambda>x y. flows x y"] dest: list_all2_lengthD)
    qed
  qed
qed


text \<open>What flows into a wrapper, and what a wrapped value flows into.\<close>

lemma inner_static: "static s \<Longrightarrow> wrapper (head_of s) \<Longrightarrow> static (inner s) \<and> length (inner s) < length s"
  using static_args [of s "inner s"] arg_shorter [of "inner s" s] inner_first [of s] by simp

lemma flows_wrapper:
  assumes "static e" "static a" "wrapper (head_of e)"
  shows "flows e a \<longleftrightarrow> (if head_of a = head_of e then flows (inner e) (inner a) else flows (inner e) a)"
  using assms heads_apart(1,2) [OF assms(3)] by (auto simp: flows_iff widens_def)

lemma flows_wrapped:
  assumes "static e" "static a" "wrapper (head_of a)" "flows e a"
  shows "wrapper (head_of e)"
  using assms heads_apart(1,2) [OF assms(3)] by (auto simp: flows_iff widens_def)

lemma flows_strip:
  assumes "static x" "static w" "wrapper (head_of w)" "flows x w"
  shows "flows x (inner w)"
  using assms
proof (induction "length x + length w" arbitrary: x w rule: less_induct)
  case less
  have x: "wrapper (head_of x)" using flows_wrapped less.prems by blast
  note ix = inner_static [OF less.prems(1) x] and iw = inner_static [OF less.prems(2,3)]
  have IH: "static y \<Longrightarrow> static v \<Longrightarrow> wrapper (head_of v) \<Longrightarrow> flows y v \<Longrightarrow> length y + length v < length x + length w \<Longrightarrow> flows y (inner v)" for y v
    using less.hyps [of y v] by blast
  have "flows (inner x) (inner w)"
  proof (cases "head_of w = head_of x")
    case True
    then show ?thesis using less.prems(4) flows_wrapper [OF less.prems(1,2) x] by simp
  next
    case False
    then have "flows (inner x) w" using less.prems(4) flows_wrapper [OF less.prems(1,2) x] by simp
    then show ?thesis using IH [of "inner x" w] less.prems ix by simp
  qed
  moreover have "flows (inner x) (inner (inner w))" if "head_of (inner w) = head_of x"
    using IH [of "inner x" "inner w"] ix iw x that calculation by simp
  ultimately show ?case using flows_wrapper [of x "inner w"] less.prems(1) iw x by simp
qed

lemma flows_wrap:
  assumes "static e" "static a" "wrapper (head_of e)" "flows (inner e) a"
  shows "flows e a"
  using flows_strip [of "inner e" a] inner_static [OF assms(1,3)] assms flows_wrapper [OF assms(1,2,3)] by simp

lemma list_all2_trans_size:
  assumes "list_all2 P xs ys" "list_all2 P ys zs"
    and "\<And>x y z. x \<in> set xs \<Longrightarrow> y \<in> set ys \<Longrightarrow> z \<in> set zs \<Longrightarrow> P x y \<Longrightarrow> P y z \<Longrightarrow> P x z"
  shows "list_all2 P xs zs"
proof (rule list_all2_all_nthI)
  show "length xs = length zs" using assms(1,2) by (simp add: list_all2_lengthD)
next
  fix n assume "n < length xs"
  then show "P (xs ! n) (zs ! n)" using assms by (metis list_all2_conv_all_nth nth_mem)
qed

lemma flows_trans:
  assumes "static c" "static b" "static a" "flows c b" "flows b a"
  shows "flows c a"
  using assms
proof (induction "length c + length b + length a" arbitrary: c b a rule: less_induct)
  case less
  have IH: "static z \<Longrightarrow> static y \<Longrightarrow> static x \<Longrightarrow> flows z y \<Longrightarrow> flows y x
      \<Longrightarrow> length z + length y + length x < length c + length b + length a \<Longrightarrow> flows z x" for z y x
    using less.hyps by blast
  show ?case
  proof (cases "wrapper (head_of c)")
    case True
    note ic = inner_static [OF less.prems(1) True]
    show ?thesis
    proof (cases "head_of b = head_of c")
      case same: True
      then have wb: "wrapper (head_of b)" using True by simp
      note ib = inner_static [OF less.prems(2) wb]
      have cb: "flows (inner c) (inner b)" using less.prems(4) flows_wrapper [OF less.prems(1,2) True] same by simp
      show ?thesis
      proof (cases "head_of a = head_of b")
        case True
        then have wa: "wrapper (head_of a)" using wb by simp
        have "flows (inner b) (inner a)" using less.prems(5) flows_wrapper [OF less.prems(2,3) wb] True by simp
        then have "flows (inner c) (inner a)" using IH [of "inner c" "inner b" "inner a"] ic ib inner_static [OF less.prems(3) wa] cb by simp
        then show ?thesis using flows_wrapper [OF less.prems(1,3)] wb same True by simp
      next
        case False
        then have "flows (inner b) a" using less.prems(5) flows_wrapper [OF less.prems(2,3) wb] by simp
        then have "flows (inner c) a" using IH [of "inner c" "inner b" a] ic ib less.prems(3) cb by simp
        then show ?thesis using flows_wrap [OF less.prems(1,3) \<open>wrapper (head_of c)\<close>] by simp
      qed
    next
      case False
      then have "flows (inner c) b" using less.prems(4) flows_wrapper [OF less.prems(1,2) True] by simp
      then have "flows (inner c) a" using IH [of "inner c" b a] ic less.prems by simp
      then show ?thesis by (rule flows_wrap [OF less.prems(1,3) True])
    qed
  next
    case c: False
    then have b: "\<not> wrapper (head_of b)" using flows_wrapped [OF less.prems(1,2)] less.prems(4) by blast
    have cb: "widens (Some (head_of c)) (Some (head_of b))
        \<or> (head_of c \<in> set function_heads \<and> head_of b \<in> set function_heads
           \<and> list_all2 (\<lambda>x y. flows y x) (butlast (args_of c)) (butlast (args_of b)) \<and> flows (last (args_of c)) (last (args_of b)))
        \<or> (head_of c \<notin> set function_heads \<and> head_of b = head_of c \<and> list_all2 flows (args_of c) (args_of b))"
      using less.prems(4) c unfolding flows_iff [OF less.prems(1,2)] by blast
    have ba: "widens (Some (head_of b)) (Some (head_of a))
        \<or> (head_of b \<in> set function_heads \<and> head_of a \<in> set function_heads
           \<and> list_all2 (\<lambda>x y. flows y x) (butlast (args_of b)) (butlast (args_of a)) \<and> flows (last (args_of b)) (last (args_of a)))
        \<or> (head_of b \<notin> set function_heads \<and> head_of a = head_of b \<and> list_all2 flows (args_of b) (args_of a))"
      using less.prems(5) b unfolding flows_iff [OF less.prems(2,3)] by blast
    have small: "static z \<and> static y \<and> static x \<and> length z + length y + length x < length c + length b + length a"
      if "z \<in> set (args_of c)" "y \<in> set (args_of b)" "x \<in> set (args_of a)" for x y z
      using that static_args [OF less.prems(1)] static_args [OF less.prems(2)] static_args [OF less.prems(3)]
        arg_shorter [of z c] arg_shorter [of y b] arg_shorter [of x a] by simp
    have fwd: "flows z y \<Longrightarrow> flows y x \<Longrightarrow> flows z x"
      if "z \<in> set (args_of c)" "y \<in> set (args_of b)" "x \<in> set (args_of a)" for x y z
      using IH [of z y x] small [OF that] by blast
    have bwd: "flows x y \<Longrightarrow> flows y z \<Longrightarrow> flows x z"
      if "z \<in> set (args_of c)" "y \<in> set (args_of b)" "x \<in> set (args_of a)" for x y z
      using IH [of x y z] small [OF that] by (simp add: add.commute add.left_commute)
    show ?thesis using cb
    proof (elim disjE conjE)
      assume w: "widens (Some (head_of c)) (Some (head_of b))"
      then have "head_of b \<notin> set function_heads" by (auto simp: widens_def function_heads_def fn_head_def)
      then have "widens (Some (head_of b)) (Some (head_of a)) \<or> head_of a = head_of b" using ba by blast
      then have "widens (Some (head_of c)) (Some (head_of a))" using w by (auto simp: widens_def)
      then show ?thesis using flows_iff [OF less.prems(1,3)] by blast
    next
      assume f: "head_of c \<in> set function_heads" "head_of b \<in> set function_heads"
        and p: "list_all2 (\<lambda>x y. flows y x) (butlast (args_of c)) (butlast (args_of b))" "flows (last (args_of c)) (last (args_of b))"
      have "\<not> widens (Some (head_of b)) (Some (head_of a))" using heads_apart(3) [OF f(2)] by (auto simp: widens_def)
      then have g: "head_of a \<in> set function_heads" "list_all2 (\<lambda>x y. flows y x) (butlast (args_of b)) (butlast (args_of a))"
          "flows (last (args_of b)) (last (args_of a))"
        using ba f(2) by auto
      have ne: "args_of c \<noteq> []" "args_of b \<noteq> []" "args_of a \<noteq> []"
        using arrow_args [OF less.prems(1) f(1)] arrow_args [OF less.prems(2) f(2)] arrow_args [OF less.prems(3) g(1)] .
      have "list_all2 (\<lambda>x y. flows y x) (butlast (args_of c)) (butlast (args_of a))"
        by (rule list_all2_trans_size [OF p(1) g(2)]) (rule bwd [OF in_set_butlastD in_set_butlastD in_set_butlastD])
      moreover have "flows (last (args_of c)) (last (args_of a))" by (rule fwd [OF last_in_set [OF ne(1)] last_in_set [OF ne(2)] last_in_set [OF ne(3)] p(2) g(3)])
      ultimately show ?thesis using flows_iff [OF less.prems(1,3)] f(1) g(1) by blast
    next
      assume f: "head_of c \<notin> set function_heads" "head_of b = head_of c" "list_all2 flows (args_of c) (args_of b)"
      show ?thesis
      proof (cases "widens (Some (head_of b)) (Some (head_of a))")
        case True
        then show ?thesis using f(2) flows_iff [OF less.prems(1,3)] by simp
      next
        case False
        then have g: "head_of a = head_of b" "list_all2 flows (args_of b) (args_of a)" using ba f by auto
        have "list_all2 flows (args_of c) (args_of a)"
          by (rule list_all2_trans_size [OF f(3) g(2)]) (rule fwd)
        then show ?thesis using flows_iff [OF less.prems(1,3)] f g(1) c by simp
      qed
    qed
  qed
qed

interpretation type_flow: attenuation flows static
  using flows_refl flows_trans by unfold_locales blast+

text \<open>On static types the common type of two branches is one of them, and takes both.\<close>

lemma fill_static: "static k \<Longrightarrow> fill_unknown_args k other = k"
proof (induction k other rule: fill_unknown_args.induct)
  case (1 keep other)
  have st: "static x" if "x \<in> set (args_of keep)" for x using static_args [OF "1.prems" that] .
  have any: "\<not> static ''Any''" by (subst static.simps) (simp add: is_wildcard_def)
  show ?case
  proof (cases "type_head (Some keep) = type_head other \<and> length (args_of keep) = length (type_args other)")
    case True
    have "(if fst x = ''Any'' \<and> snd x \<noteq> ''Any'' then snd x else fill_unknown_args (fst x) (Some (snd x))) = fst x"
      if x: "x \<in> set (zip (args_of keep) (type_args other))" for x
    proof -
      have "static (fst x)" using x st set_zip_leftD [of "fst x" "snd x"] by simp
      then show ?thesis using "1.IH" [OF _ x] True any by auto
    qed
    then have "map (\<lambda>x. if fst x = ''Any'' \<and> snd x \<noteq> ''Any'' then snd x else fill_unknown_args (fst x) (Some (snd x)))
        (zip (args_of keep) (type_args other)) = map fst (zip (args_of keep) (type_args other))" by (intro map_cong refl)
    then show ?thesis using True by (subst fill_unknown_args.simps) (simp only: Let_def map_fst_zip if_False simp_thms if_True)
  next
    case False
    then show ?thesis by (subst fill_unknown_args.simps) auto
  qed
qed

lemma join_static:
  assumes "static x" "static y" "join_types (Some x) (Some y) = Some t"
  shows "flows t x \<and> flows t y"
  using assms flows_refl by (auto simp: join_types_def fill_static split: if_splits)

text \<open>C15: Compatibility is a preorder on static types, the order admission and versioning rely on: a
  value of a type fits its own type, what fits a type fits every type that takes that one, and the
  common type of two branches, where there is one, takes both.\<close>

theorem compatible_preorder:
  assumes "static c" "static b" "static a"
  shows "compatible (Some a) (Some a)
     \<and> (compatible (Some c) (Some b) \<and> compatible (Some b) (Some a) \<longrightarrow> compatible (Some c) (Some a))
     \<and> (\<forall>t. join_types (Some b) (Some a) = Some t \<longrightarrow> compatible (Some t) (Some b) \<and> compatible (Some t) (Some a))"
  using assms type_flow.cov_trans [of c b a] flows_refl join_static [of b a] by blast

theorem compatible_preorder_witness:
  "compatible (Some ''Opt[(Int) -> Float]'') (Some ''(Float) -> Int32'')"
proof -
  have "static ''Opt[(Int) -> Float]'' \<and> static ''(Int) -> Int'' \<and> static ''(Float) -> Int32''" by code_simp
  moreover have "compatible (Some ''Opt[(Int) -> Float]'') (Some ''(Int) -> Int'')" by code_simp
  moreover have "compatible (Some ''(Int) -> Int'') (Some ''(Float) -> Int32'')" by code_simp
  ultimately show ?thesis using compatible_preorder [of "''Opt[(Int) -> Float]''" "''(Int) -> Int''" "''(Float) -> Int32''"] by blast
qed

end
