(* ===== verification/Admission.thy ===== *)
theory Admission
  imports Type_Order Activation
begin

section \<open>The admission gate of a running composition (\<open>src/revl/admission.py\<close>)\<close>

text \<open>
  A redeclared service against the one the running components were compiled with, the state a
  successor takes over, and the provisions an admission withdraws.  A refusal is the drift, or the
  names the diagnostic is built from; its prose and its trace are not built.
\<close>

record method_decl =
  m_params :: "(string option \<times> string option) list"
  m_returns :: "string option"
  m_emission :: bool
  m_async :: bool
  m_commutative :: bool
  m_capabilities :: "string list option"
  m_witnessed :: "string list option"

record service_decl =
  s_methods :: "(string, method_decl) pydict"
  s_commutative :: bool

text \<open>Two dictionaries are equal when they hold the same entries, in any order.\<close>

definition dict_equal :: "('k, 'v) pydict \<Rightarrow> ('k, 'v) pydict \<Rightarrow> bool" where
  "dict_equal a b \<longleftrightarrow> list_all (\<lambda>(k, v). map_of b k = Some v) a \<and> list_all (\<lambda>(k, v). map_of a k = Some v) b"

definition service_equal :: "service_decl \<Rightarrow> service_decl \<Rightarrow> bool" where
  "service_equal a b \<longleftrightarrow> s_commutative a = s_commutative b \<and> dict_equal (s_methods a) (s_methods b)"

datatype drift_kind = Drift_Added | Drift_Removed | Drift_Signature | Drift_Emission | Drift_Witnessed | Drift_Commutative

record drift =
  d_method :: "string option"
  d_kind :: drift_kind

text \<open>\<^term>\<open>None\<close> is a bare emission, any capability.\<close>

definition caps_widen :: "string list option \<Rightarrow> string list option \<Rightarrow> bool" where
  "caps_widen old new = (case old of None \<Rightarrow> False | Some os \<Rightarrow>
     (case new of None \<Rightarrow> True | Some ns \<Rightarrow> \<not> list_all (\<lambda>c. c \<in> set os) ns))"

definition witnessed_caps :: "method_decl \<Rightarrow> string list option" where
  "witnessed_caps m = (case m_witnessed m of None \<Rightarrow> None | Some ws \<Rightarrow> if ws = [] then None else Some ws)"

text \<open>One parameter: what a consumer passed must still fit.\<close>

definition param_drifts :: "bool \<Rightarrow> string option \<Rightarrow> string option \<Rightarrow> bool" where
  "param_drifts strict opt npt \<longleftrightarrow>
     (if opt = npt then False else if strict then True else if opt = None then True
      else if npt = None then False else \<not> compatible npt opt)"

definition returns_drift :: "bool \<Rightarrow> string option \<Rightarrow> string option \<Rightarrow> bool" where
  "returns_drift strict ort nrt \<longleftrightarrow>
     (if ort = nrt then False else if strict then True else if ort = None then False
      else if nrt = None then True else \<not> compatible ort nrt)"

definition method_drift :: "bool \<Rightarrow> method_decl \<Rightarrow> method_decl \<Rightarrow> drift_kind option" where
  "method_drift strict om nm =
     (if length (m_params nm) \<noteq> length (m_params om) then Some Drift_Signature
      else if list_ex (\<lambda>(op, np). param_drifts strict (snd op) (snd np)) (zip (m_params om) (m_params nm)) then Some Drift_Signature
      else if returns_drift strict (m_returns om) (m_returns nm) then Some Drift_Signature
      else if m_emission nm \<and> \<not> m_emission om then Some Drift_Emission
      else if m_emission om \<and> \<not> m_emission nm \<and> strict then Some Drift_Emission
      else if m_witnessed nm \<noteq> None \<and> m_witnessed om = None then Some Drift_Witnessed
      else if m_witnessed om \<noteq> None \<and> m_witnessed nm = None \<and> strict then Some Drift_Witnessed
      else if m_emission nm \<and> m_emission om \<and> caps_widen (m_capabilities om) (m_capabilities nm) then Some Drift_Emission
      else if caps_widen (witnessed_caps om) (witnessed_caps nm) then Some Drift_Witnessed
      else if strict \<and> caps_widen (witnessed_caps nm) (witnessed_caps om) then Some Drift_Witnessed
      else if m_emission nm \<and> m_emission om \<and> strict \<and> caps_widen (m_capabilities nm) (m_capabilities om) then Some Drift_Emission
      else if m_async nm \<noteq> m_async om then Some Drift_Signature
      else if m_commutative nm \<noteq> m_commutative om then Some Drift_Commutative
      else None)"

fun first_drift :: "bool \<Rightarrow> (string, method_decl) pydict \<Rightarrow> (string, method_decl) pydict \<Rightarrow> drift option" where
  "first_drift strict news [] = None"
| "first_drift strict news ((n, om) # ms) = (case map_of news n of
       None \<Rightarrow> Some \<lparr>d_method = Some n, d_kind = Drift_Removed\<rparr>
     | Some nm \<Rightarrow> (case method_drift strict om nm of
         Some k \<Rightarrow> Some \<lparr>d_method = Some n, d_kind = k\<rparr>
       | None \<Rightarrow> first_drift strict news ms))"

definition service_compatible :: "service_decl \<Rightarrow> service_decl \<Rightarrow> bool \<Rightarrow> drift option" where
  "service_compatible new old strict =
     (if service_equal new old then None
      else if s_commutative old \<noteq> s_commutative new then Some \<lparr>d_method = None, d_kind = Drift_Commutative\<rparr>
      else (case (if strict then filter (\<lambda>n. map_of (s_methods old) n = None) (map fst (s_methods new)) else []) of
          n # _ \<Rightarrow> Some \<lparr>d_method = Some n, d_kind = Drift_Added\<rparr>
        | [] \<Rightarrow> first_drift strict (s_methods new) (s_methods old)))"


subsection \<open>Who touches a service\<close>

record comp_entry = manifest_entry +
  routes :: "string list"
  handoff :: "(string \<times> string option) option"

record touchers =
  consumers :: "string list"
  providers :: "string list"
  unresolved :: bool

record ambient =
  a_components :: "comp_entry list"
  provision_services :: "(string, string) pydict"
  a_handoffs :: "(string, string option) pydict"
  a_withdrawn :: "comp_entry list"

definition keys_of_service :: "(string, string) pydict \<Rightarrow> string \<Rightarrow> (comp_entry \<Rightarrow> string list) \<Rightarrow> comp_entry list \<Rightarrow> string list" where
  "keys_of_service table svc keys es =
     concat (map (\<lambda>e. map (\<lambda>_. e_name e) (filter (\<lambda>k. map_of table k = Some svc) (keys e))) es)"

definition dedupe_names :: "string list \<Rightarrow> string list" where
  "dedupe_names ns = map fst (dict_of (map (\<lambda>n. (n, ())) ns))"

definition service_touchers :: "string \<Rightarrow> ambient \<Rightarrow> touchers" where
  "service_touchers svc a =
     \<lparr>consumers = dedupe_names (keys_of_service (provision_services a) svc inject (a_components a)),
      providers = dedupe_names (keys_of_service (provision_services a) svc provides (a_components a)),
      unresolved = list_ex (\<lambda>e. list_ex (\<lambda>k. map_of (provision_services a) k = None) (inject e @ provides e)) (a_components a)\<rparr>"

text \<open>The refusal of a replacement names the drift and who it affects.\<close>

definition admit_service_replacement :: "string \<Rightarrow> service_decl \<Rightarrow> service_decl \<Rightarrow> ambient \<Rightarrow> (drift \<times> string list) option" where
  "admit_service_replacement svc new old a =
     (let touch = service_touchers svc a;
          retained = providers touch \<noteq> [] \<or> unresolved touch
      in case service_compatible new old retained of
          None \<Rightarrow> None
        | Some d \<Rightarrow> if consumers touch = [] \<and> providers touch = [] \<and> \<not> unresolved touch then None
            else Some (d, dedupe_names (consumers touch @ providers touch)))"


subsection \<open>State hand-off and withdrawn provisions\<close>

definition handoff_compatible :: "string option \<Rightarrow> string option \<Rightarrow> bool" where
  "handoff_compatible accepted exported \<longleftrightarrow> compatible accepted exported"

definition handoff_refused :: "(string, string option) pydict \<Rightarrow> comp_entry \<Rightarrow> bool" where
  "handoff_refused running c = (case handoff c of None \<Rightarrow> False | Some (key, accepted) \<Rightarrow>
     (case map_of running key of None \<Rightarrow> False | Some exported \<Rightarrow> \<not> handoff_compatible accepted exported))"

definition admit_handoff_replacement :: "comp_entry list \<Rightarrow> ambient \<Rightarrow> comp_entry option" where
  "admit_handoff_replacement cs a = find (handoff_refused (a_handoffs a)) cs"

definition provisions :: "comp_entry list \<Rightarrow> (string \<times> string) list" where
  "provisions es = concat (map (\<lambda>e. map (\<lambda>k. (k, realm_of e k)) (provides e)) es)"

definition after_provisions :: "string list \<Rightarrow> comp_entry list \<Rightarrow> comp_entry list \<Rightarrow> (string \<times> string) list" where
  "after_provisions templates retained cs = provisions retained @ provisions (filter (\<lambda>c. e_name c \<notin> set templates) cs)"

text \<open>The first withdrawn provider of a lost key is the one the refusal names.\<close>

definition withdrawn_pairs :: "comp_entry list \<Rightarrow> ((string \<times> string) \<times> string) list" where
  "withdrawn_pairs ws = concat (map (\<lambda>e. map (\<lambda>k. ((k, realm_of e k), e_name e)) (provides e)) ws)"

definition set_lost :: "(string \<times> string) list \<Rightarrow> (string \<times> string) \<times> string \<Rightarrow> (string \<times> string, string) pydict \<Rightarrow> (string \<times> string, string) pydict" where
  "set_lost after x d = (if fst x \<in> set after \<or> map_of d (fst x) \<noteq> None then d else d @ [x])"

definition lost_provisions :: "comp_entry list \<Rightarrow> (string \<times> string) list \<Rightarrow> (string \<times> string, string) pydict" where
  "lost_provisions withdrawn after = fold (set_lost after) (withdrawn_pairs withdrawn) []"

record stranded =
  st_consumer :: string
  st_key :: string
  st_realm :: string
  st_provider :: string

definition stranded_key :: "(string \<times> string, string) pydict \<Rightarrow> comp_entry \<Rightarrow> string \<Rightarrow> stranded list" where
  "stranded_key lost e k = (case map_of lost (k, realm_of e k) of None \<Rightarrow> []
     | Some p \<Rightarrow> [\<lparr>st_consumer = e_name e, st_key = k, st_realm = realm_of e k, st_provider = p\<rparr>])"

definition stranded_by :: "(string \<times> string, string) pydict \<Rightarrow> comp_entry \<Rightarrow> stranded list" where
  "stranded_by lost e = concat (map (stranded_key lost e) (filter (\<lambda>k. k \<notin> set (routes e)) (inject e)))"

definition admit_provision_withdrawal :: "string list \<Rightarrow> comp_entry list \<Rightarrow> ambient \<Rightarrow> stranded option" where
  "admit_provision_withdrawal templates cs a =
     (if a_withdrawn a = [] then None
      else let lost = lost_provisions (a_withdrawn a) (after_provisions templates (a_components a) cs)
        in if lost = [] then None
           else (case concat (map (stranded_by lost) (a_components a)) of [] \<Rightarrow> None | s # _ \<Rightarrow> Some s))"

end
