(* ===== verification/Admission_Properties.thy ===== *)
theory Admission_Properties
  imports Admission
begin

section \<open>What an admitted replacement guarantees the running components\<close>

text \<open>
  A consumer's call sites stay valid, a retained provider pins the interface, and no requirement
  that was met becomes unmet.
\<close>

lemma dict_equal_get: "dict_ok a \<Longrightarrow> dict_ok b \<Longrightarrow> dict_equal a b \<longleftrightarrow> map_of a = map_of b"
proof
  assume ok: "dict_ok a" "dict_ok b" and e: "dict_equal a b"
  show "map_of a = map_of b"
  proof
    fix k
    show "map_of a k = map_of b k"
    proof (cases "map_of a k")
      case None
      show ?thesis
      proof (cases "map_of b k")
        case (Some v)
        then have "map_of a k = Some v" using e map_of_SomeD by (fastforce simp: dict_equal_def list_all_iff)
        then show ?thesis using None by simp
      qed (use None in simp)
    next
      case (Some v)
      then show ?thesis using e map_of_SomeD by (fastforce simp: dict_equal_def list_all_iff)
    qed
  qed
next
  assume ok: "dict_ok a" "dict_ok b" and e: "map_of a = map_of b"
  show "dict_equal a b"
    using ok unfolding dict_equal_def list_all_iff dict_ok_def e [symmetric]
    by (auto simp: e map_of_eq_Some_iff) (metis e map_of_eq_Some_iff)+
qed

definition service_ok :: "service_decl \<Rightarrow> bool" where
  "service_ok s \<longleftrightarrow> dict_ok (s_methods s)"

lemma map_of_Cons_all: "map_of ms n = None \<Longrightarrow>
    (\<forall>k v. map_of ((n, x) # ms) k = Some v \<longrightarrow> P k v) \<longleftrightarrow> P n x \<and> (\<forall>k v. map_of ms k = Some v \<longrightarrow> P k v)"
  by (auto split: if_splits)

lemma first_drift_None:
  assumes "dict_ok ms"
  shows "first_drift strict news ms = None
     \<longleftrightarrow> (\<forall>n om. map_of ms n = Some om \<longrightarrow> (\<exists>nm. map_of news n = Some nm \<and> method_drift strict om nm = None))"
  using assms
proof (induction strict news ms rule: first_drift.induct)
  case (2 strict news n om ms)
  then have "map_of ms n = None" "dict_ok ms" by (auto simp: dict_ok_def map_of_eq_None_iff)
  then show ?case using 2 unfolding map_of_Cons_all [OF \<open>map_of ms n = None\<close>] by (auto split: option.splits)
qed simp

lemma caps_widen_refl: "\<not> caps_widen c c"
  by (auto simp: caps_widen_def list_all_iff split: option.splits)

lemma method_drift_refl: "method_drift strict m m = None"
  by (auto simp: method_drift_def param_drifts_def returns_drift_def caps_widen_refl list_ex_iff zip_same split: if_splits)

text \<open>An admitted interface: the service promise is kept, and every old method has an undrifted new one.\<close>

lemma service_compatible_None:
  assumes "service_ok new" "service_ok old"
  shows "service_compatible new old strict = None
     \<longleftrightarrow> s_commutative new = s_commutative old
       \<and> (strict \<longrightarrow> dom (map_of (s_methods new)) \<subseteq> dom (map_of (s_methods old)))
       \<and> (\<forall>n om. map_of (s_methods old) n = Some om \<longrightarrow> (\<exists>nm. map_of (s_methods new) n = Some nm \<and> method_drift strict om nm = None))"
proof -
  have eq: "s_commutative new = s_commutative old \<and> map_of (s_methods new) = map_of (s_methods old)" if "service_equal new old"
    using that assms dict_equal_get by (auto simp: service_equal_def service_ok_def)
  have added: "filter (\<lambda>n. map_of (s_methods old) n = None) (map fst (s_methods new)) = [] \<longleftrightarrow> dom (map_of (s_methods new)) \<subseteq> dom (map_of (s_methods old))"
    unfolding filter_empty_conv set_map dom_map_of_conv_image_fst [of "s_methods new"] by (auto simp: dom_def)
  show ?thesis
    unfolding service_compatible_def using eq added first_drift_None [of "s_methods old" strict "s_methods new"] assms(2) method_drift_refl
    by (auto simp: service_ok_def split: list.splits)
qed


subsection \<open>Call sites of running consumers\<close>










lemma if_Some_None: "(if c then Some x else y) = None \<longleftrightarrow> \<not> c \<and> y = None"
  by simp

lemma method_drift_iff:
  "method_drift strict om nm = None \<longleftrightarrow>
     length (m_params nm) = length (m_params om)
     \<and> \<not> list_ex (\<lambda>(op, np). param_drifts strict (snd op) (snd np)) (zip (m_params om) (m_params nm))
     \<and> \<not> returns_drift strict (m_returns om) (m_returns nm)
     \<and> \<not> (m_emission nm \<and> \<not> m_emission om) \<and> \<not> (m_emission om \<and> \<not> m_emission nm \<and> strict)
     \<and> \<not> (m_witnessed nm \<noteq> None \<and> m_witnessed om = None) \<and> \<not> (m_witnessed om \<noteq> None \<and> m_witnessed nm = None \<and> strict)
     \<and> \<not> (m_emission nm \<and> m_emission om \<and> caps_widen (m_capabilities om) (m_capabilities nm))
     \<and> \<not> caps_widen (witnessed_caps om) (witnessed_caps nm)
     \<and> \<not> (strict \<and> caps_widen (witnessed_caps nm) (witnessed_caps om))
     \<and> \<not> (m_emission nm \<and> m_emission om \<and> strict \<and> caps_widen (m_capabilities nm) (m_capabilities om))
     \<and> m_async nm = m_async om \<and> m_commutative nm = m_commutative om"
  unfolding method_drift_def if_Some_None by (simp only: not_not simp_thms)

lemma params_undrifted:
  "length xs = length ys \<Longrightarrow> \<not> list_ex (\<lambda>(op, np). P op np) (zip xs ys) \<longleftrightarrow> list_all2 (\<lambda>op np. \<not> P op np) xs ys"
  by (induction xs ys rule: list_induct2) auto






text \<open>A lookup service: the redeclaration widens a parameter, narrows a result, drops an emission and adds a method.\<close>

definition lookup_old :: service_decl where
  "lookup_old = \<lparr>s_methods = [(''get'', \<lparr>m_params = [(Some ''k'', Some ''Int'')], m_returns = Some ''Opt[Int]'', m_emission = True,
     m_async = False, m_commutative = False, m_capabilities = Some [''net''], m_witnessed = None\<rparr>)], s_commutative = False\<rparr>"

definition lookup_new :: service_decl where
  "lookup_new = \<lparr>s_methods = [(''put'', \<lparr>m_params = [], m_returns = None, m_emission = False,
       m_async = False, m_commutative = False, m_capabilities = None, m_witnessed = None\<rparr>),
     (''get'', \<lparr>m_params = [(Some ''key'', Some ''Float'')], m_returns = Some ''Int'', m_emission = False,
       m_async = False, m_commutative = False, m_capabilities = None, m_witnessed = None\<rparr>)], s_commutative = False\<rparr>"

definition lookup_user :: comp_entry where
  "lookup_user = \<lparr>e_name = ''api'', inject = [''lookup''], provides = [''web''], isolate = [], routes = [], handoff = None\<rparr>"

definition lookup_ambient :: ambient where
  "lookup_ambient = \<lparr>a_components = [lookup_user], provision_services = [(''lookup'', ''Lookup''), (''web'', ''Web'')],
     a_handoffs = [], a_withdrawn = []\<rparr>"


subsection \<open>A retained provider pins the interface\<close>

definition same_scope :: "string list option \<Rightarrow> string list option \<Rightarrow> bool" where
  "same_scope a b \<longleftrightarrow> map_option set a = map_option set b"

definition same_interface :: "method_decl \<Rightarrow> method_decl \<Rightarrow> bool" where
  "same_interface om nm \<longleftrightarrow> map snd (m_params om) = map snd (m_params nm) \<and> m_returns om = m_returns nm
     \<and> m_emission om = m_emission nm \<and> (m_emission om \<longrightarrow> same_scope (m_capabilities om) (m_capabilities nm))
     \<and> (m_witnessed om = None \<longleftrightarrow> m_witnessed nm = None) \<and> same_scope (witnessed_caps om) (witnessed_caps nm)
     \<and> m_async om = m_async nm \<and> m_commutative om = m_commutative nm"

lemma same_scope_widen: "same_scope a b \<longleftrightarrow> \<not> caps_widen a b \<and> \<not> caps_widen b a"
  by (auto simp: same_scope_def caps_widen_def list_all_iff split: option.splits)

lemma params_same:
  "length ps = length qs \<Longrightarrow> list_all2 (\<lambda>op np. \<not> param_drifts True (snd op) (snd np)) ps qs \<longleftrightarrow> map snd ps = map snd qs"
  by (induction ps qs rule: list_induct2) (auto simp: param_drifts_def)

lemma method_drift_strict: "method_drift True om nm = None \<longleftrightarrow> same_interface om nm"
proof (cases "length (m_params om) = length (m_params nm)")
  case True
  note p = params_undrifted [OF True, of "\<lambda>op np. param_drifts True (snd op) (snd np)", unfolded params_same [OF True]]
  have r: "returns_drift True r q \<longleftrightarrow> r \<noteq> q" for r q by (simp add: returns_drift_def)
  show ?thesis unfolding method_drift_iff p r same_interface_def same_scope_widen using True by auto
next
  case False
  then show ?thesis by (auto simp: method_drift_iff same_interface_def dest: map_eq_imp_length_eq)
qed

text \<open>A retained provider pins the interface.  When a running provider stays, or some touched key cannot be
  resolved, the gate admits exactly the redeclarations with the same service promise and the same
  methods, each with the same parameter and return types, marks and scopes; only the names of
  parameters and the order of a scope may change.\<close>

theorem retained_provider_pins_interface:
  assumes "service_ok new" "service_ok old"
    and "providers (service_touchers svc a) \<noteq> [] \<or> unresolved (service_touchers svc a)"
  shows "admit_service_replacement svc new old a = None
     \<longleftrightarrow> s_commutative new = s_commutative old \<and> dom (map_of (s_methods new)) = dom (map_of (s_methods old))
       \<and> (\<forall>n om nm. map_of (s_methods old) n = Some om \<and> map_of (s_methods new) n = Some nm \<longrightarrow> same_interface om nm)"
proof -
  have "admit_service_replacement svc new old a = None \<longleftrightarrow> service_compatible new old True = None"
    using assms(3) by (auto simp: admit_service_replacement_def Let_def split: option.splits)
  also have "\<dots> \<longleftrightarrow> s_commutative new = s_commutative old \<and> dom (map_of (s_methods new)) \<subseteq> dom (map_of (s_methods old))
       \<and> (\<forall>n om. map_of (s_methods old) n = Some om \<longrightarrow> (\<exists>nm. map_of (s_methods new) n = Some nm \<and> same_interface om nm))"
    using service_compatible_None [OF assms(1,2), of True] by (simp add: method_drift_strict)
  also have "\<dots> \<longleftrightarrow> s_commutative new = s_commutative old \<and> dom (map_of (s_methods new)) = dom (map_of (s_methods old))
       \<and> (\<forall>n om nm. map_of (s_methods old) n = Some om \<and> map_of (s_methods new) n = Some nm \<longrightarrow> same_interface om nm)"
    by (auto simp: dom_def subset_iff set_eq_iff) (metis option.inject)+
  finally show ?thesis .
qed

theorem retained_provider_pins_interface_witness:
  "providers (service_touchers ''Web'' lookup_ambient) = [''api''] \<and> admit_service_replacement ''Web'' lookup_new lookup_old lookup_ambient \<noteq> None"
proof -
  have p: "providers (service_touchers ''Web'' lookup_ambient) = [''api'']" by code_simp
  have ok: "service_ok lookup_new" "service_ok lookup_old" by code_simp+
  have "''put'' \<in> dom (map_of (s_methods lookup_new))" "''put'' \<notin> dom (map_of (s_methods lookup_old))"
    by (simp_all add: lookup_new_def lookup_old_def)
  then show ?thesis using retained_provider_pins_interface [OF ok, of "''Web''" lookup_ambient] p by auto
qed

subsection \<open>State hand-off\<close>

lemma handoff_holds_state:
  assumes "admit_handoff_replacement cs a = None" "c \<in> set cs" "handoff c = Some (k, Some accepted)"
    and "map_of (a_handoffs a) k = Some (Some exported)"
    and "static accepted" "static exported" "static t" "flows exported t"
  shows "flows accepted t"
proof -
  have "\<not> handoff_refused (a_handoffs a) c" using assms(1,2) by (simp add: admit_handoff_replacement_def find_None_iff)
  then have "flows accepted exported" using assms(3,4) by (simp add: handoff_refused_def handoff_compatible_def)
  then show ?thesis using flows_trans assms(5-8) by blast
qed

subsection \<open>Withdrawn provisions\<close>

lemma provisions_set: "(k, r) \<in> set (provisions es) \<longleftrightarrow> (\<exists>e \<in> set es. k \<in> set (provides e) \<and> r = realm_of e k)"
  by (auto simp: provisions_def)

lemma set_lost_get:
  "map_of (set_lost after x d) kr = (if kr = fst x \<and> kr \<notin> set after \<and> map_of d kr = None then Some (snd x) else map_of d kr)"
  by (cases x) (auto simp: set_lost_def map_add_def split: option.splits)

lemma lost_get: "map_of (lost_provisions ws after) kr = (if kr \<in> set after then None else map_of (withdrawn_pairs ws) kr)"
proof -
  have "map_of (fold (set_lost after) ps d) kr
      = (case map_of d kr of Some p \<Rightarrow> Some p | None \<Rightarrow> if kr \<in> set after then None else map_of ps kr)" for ps d
  proof (induction ps arbitrary: d)
    case (Cons x ps)
    show ?case unfolding fold_simps Cons by (cases x) (simp add: set_lost_get split: option.splits)
  qed (simp split: option.splits)
  from this [of "withdrawn_pairs ws" "[]"] show ?thesis by (simp add: lost_provisions_def)
qed

lemma withdrawn_pairs_set: "(kr, p) \<in> set (withdrawn_pairs ws) \<longleftrightarrow> (\<exists>w \<in> set ws. fst kr \<in> set (provides w) \<and> kr = (fst kr, realm_of w (fst kr)) \<and> p = e_name w)"
  by (auto simp: withdrawn_pairs_def)

lemma lost_iff:
  "map_of (lost_provisions ws after) (k, r) \<noteq> None \<longleftrightarrow> (k, r) \<in> set (provisions ws) \<and> (k, r) \<notin> set after"
proof -
  have "fst ` set (withdrawn_pairs ws) = set (provisions ws)" by (auto simp: withdrawn_pairs_def provisions_def image_iff)
  then show ?thesis by (simp add: lost_get map_of_eq_None_iff del: not_None_eq)
qed

lemma first_of_list:
  "(case xs of [] \<Rightarrow> None | x # _ \<Rightarrow> Some x) = None \<longleftrightarrow> xs = []"
  "(case xs of [] \<Rightarrow> None | x # _ \<Rightarrow> Some x) = Some y \<Longrightarrow> y \<in> set xs"
  by (cases xs; simp)+

lemma stranded_key_Nil: "stranded_key lost e k = [] \<longleftrightarrow> map_of lost (k, realm_of e k) = None"
  by (simp add: stranded_key_def split: option.splits)

lemma stranded_key_set:
  "s \<in> set (stranded_key lost e k) \<Longrightarrow> map_of lost (k, realm_of e k) = Some (st_provider s) \<and> st_consumer s = e_name e
     \<and> st_key s = k \<and> st_realm s = realm_of e k"
  by (auto simp: stranded_key_def split: option.splits)

text \<open>No admission strands a consumer.  The gate passes exactly when every key a retained component requires
  outside its routed keys, and that a withdrawn component provided in the realm the consumer reads,
  is provided there again by a retained component or by a candidate that is not a template; a
  refusal names such a consumer and the withdrawn provider of its key.\<close>

theorem withdrawal_exact:
  "(admit_provision_withdrawal templates cs a = None \<longleftrightarrow>
      (\<forall>e \<in> set (a_components a). \<forall>k \<in> set (inject e). k \<notin> set (routes e) \<and> (k, realm_of e k) \<in> set (provisions (a_withdrawn a))
         \<longrightarrow> (k, realm_of e k) \<in> set (after_provisions templates (a_components a) cs)))
   \<and> (\<forall>s. admit_provision_withdrawal templates cs a = Some s \<longrightarrow>
      (\<exists>e \<in> set (a_components a). e_name e = st_consumer s \<and> st_key s \<in> set (inject e) \<and> st_realm s = realm_of e (st_key s)
         \<and> (\<exists>w \<in> set (a_withdrawn a). e_name w = st_provider s \<and> st_key s \<in> set (provides w) \<and> st_realm s = realm_of w (st_key s))))"
proof -
  let ?after = "after_provisions templates (a_components a) cs"
  let ?lost = "lost_provisions (a_withdrawn a) ?after"
  let ?all = "concat (map (stranded_by ?lost) (a_components a))"
  have empty: "?all = []" if "a_withdrawn a = [] \<or> ?lost = []"
  proof -
    have "map_of ?lost = (\<lambda>_. None)" using that by (auto simp: lost_provisions_def withdrawn_pairs_def)
    then have "stranded_key ?lost e k = []" for e k by (simp add: stranded_key_Nil)
    then show ?thesis by (simp add: stranded_by_def)
  qed
  then have admit: "admit_provision_withdrawal templates cs a = (case ?all of [] \<Rightarrow> None | s # _ \<Rightarrow> Some s)"
    unfolding admit_provision_withdrawal_def Let_def by (metis list.case(1))
  have "?all = [] \<longleftrightarrow> (\<forall>e \<in> set (a_components a). \<forall>k \<in> set (inject e). k \<notin> set (routes e) \<longrightarrow> map_of ?lost (k, realm_of e k) = None)"
    by (auto simp: stranded_by_def stranded_key_Nil)
  also have "\<dots> \<longleftrightarrow> (\<forall>e \<in> set (a_components a). \<forall>k \<in> set (inject e). k \<notin> set (routes e) \<and> (k, realm_of e k) \<in> set (provisions (a_withdrawn a))
         \<longrightarrow> (k, realm_of e k) \<in> set ?after)"
    using lost_iff [of "a_withdrawn a" ?after] by blast
  finally have none: "?all = [] \<longleftrightarrow> \<dots>" .
  have named: "\<exists>e \<in> set (a_components a). e_name e = st_consumer s \<and> st_key s \<in> set (inject e) \<and> st_realm s = realm_of e (st_key s)
      \<and> (\<exists>w \<in> set (a_withdrawn a). e_name w = st_provider s \<and> st_key s \<in> set (provides w) \<and> st_realm s = realm_of w (st_key s))"
    if sa: "s \<in> set ?all" for s
  proof -
    obtain e k where e: "e \<in> set (a_components a)" "k \<in> set (inject e)" "s \<in> set (stranded_key ?lost e k)"
      using sa by (auto simp: stranded_by_def)
    note s = stranded_key_set [OF e(3)]
    then have "((k, realm_of e k), st_provider s) \<in> set (withdrawn_pairs (a_withdrawn a))"
      by (auto simp: lost_get split: if_splits dest: map_of_SomeD)
    then obtain w where "w \<in> set (a_withdrawn a)" "k \<in> set (provides w)" "realm_of e k = realm_of w k" "st_provider s = e_name w"
      by (auto simp: withdrawn_pairs_set)
    then show ?thesis using e(1,2) s by metis
  qed
  have "admit_provision_withdrawal templates cs a = None \<longleftrightarrow> ?all = []" unfolding admit by (rule first_of_list(1))
  moreover have "admit_provision_withdrawal templates cs a = Some s \<Longrightarrow> s \<in> set ?all" for s unfolding admit by (rule first_of_list(2))
  ultimately show ?thesis using none named by blast
qed

theorem withdrawal_exact_witness:
  "\<exists>s. admit_provision_withdrawal [] [] (lookup_ambient\<lparr>a_withdrawn := [lookup_user\<lparr>e_name := ''db'', provides := [''lookup'']\<rparr>]\<rparr>) = Some s
     \<and> st_consumer s = ''api''"
proof -
  let ?w = "lookup_user\<lparr>e_name := ''db'', provides := [''lookup'']\<rparr>"
  let ?a = "lookup_ambient\<lparr>a_withdrawn := [?w]\<rparr>"
  have a: "a_components ?a = [lookup_user]" by (simp add: lookup_ambient_def)
  have "(''lookup'', realm_of lookup_user ''lookup'') \<in> set (provisions [?w])" by code_simp
  moreover have "(''lookup'', realm_of lookup_user ''lookup'') \<notin> set (after_provisions [] [lookup_user] [])" by code_simp
  moreover have "''lookup'' \<in> set (inject lookup_user)" "''lookup'' \<notin> set (routes lookup_user)" by (simp_all add: lookup_user_def)
  ultimately have "admit_provision_withdrawal [] [] ?a \<noteq> None"
    using withdrawal_exact [of "[]" "[]" ?a] unfolding a by auto
  then obtain s where s: "admit_provision_withdrawal [] [] ?a = Some s" by blast
  then have "e_name lookup_user = st_consumer s" using withdrawal_exact [of "[]" "[]" ?a] unfolding a by auto
  then show ?thesis using s by (auto simp: lookup_user_def)
qed

end
