(* ===== verification/Version_Derive.thy ===== *)
theory Version_Derive
  imports Admission_Properties Semver
begin

section \<open>Derived versions (\<open>src/revl/version.py\<close>)\<close>

text \<open>
  The bump a composition needs is the join over the changes between two service tables, each
  change classified by the admission gate's own relation.  The tables hold declarations already read
  from the documents.
\<close>

datatype change_kind = Drifted drift_kind | Emission_Loss | Widened | Service_Added | Service_Removed

record change =
  ch_service :: string
  ch_method :: "string option"
  ch_kind :: change_kind
  ch_bump :: bump

abbreviation mk_change :: "string \<Rightarrow> string option \<Rightarrow> change_kind \<Rightarrow> bump \<Rightarrow> change" where
  "mk_change s m k b \<equiv> \<lparr>ch_service = s, ch_method = m, ch_kind = k, ch_bump = b\<rparr>"

definition one_method :: "string \<Rightarrow> method_decl \<Rightarrow> service_decl" where
  "one_method n m = \<lparr>s_methods = [(n, m)], s_commutative = False\<rparr>"

definition classify_method :: "string \<Rightarrow> string \<Rightarrow> method_decl \<Rightarrow> method_decl \<Rightarrow> change option" where
  "classify_method svc n om nm =
     (case service_compatible (one_method n nm) (one_method n om) False of
        Some d \<Rightarrow> Some (mk_change svc (Some n) (Drifted (d_kind d)) Bump_Major)
      | None \<Rightarrow> if m_emission om \<and> \<not> m_emission nm then Some (mk_change svc (Some n) Emission_Loss Bump_Minor)
          else if service_equal (one_method n nm) (one_method n om) then None
          else Some (mk_change svc (Some n) Widened Bump_Minor))"

text \<open>\<^verbatim>\<open>sorted(set(a) - set(b))\<close> and \<^verbatim>\<open>sorted(set(a) & set(b))\<close> over the keys of two dictionaries.\<close>

definition keys_minus :: "(string, 'a) pydict \<Rightarrow> (string, 'b) pydict \<Rightarrow> string list" where
  "keys_minus a b = sort (filter (\<lambda>k. map_of b k = None) (remdups (map fst a)))"

definition keys_both :: "(string, 'a) pydict \<Rightarrow> (string, 'b) pydict \<Rightarrow> string list" where
  "keys_both a b = sort (filter (\<lambda>k. map_of b k \<noteq> None) (remdups (map fst a)))"

definition diff_methods :: "string \<Rightarrow> service_decl \<Rightarrow> service_decl \<Rightarrow> change list" where
  "diff_methods svc old new =
     (if s_commutative old \<noteq> s_commutative new then [mk_change svc None (Drifted Drift_Commutative) Bump_Major] else [])
     @ map (\<lambda>n. mk_change svc (Some n) (Drifted Drift_Added) Bump_Minor) (keys_minus (s_methods new) (s_methods old))
     @ map (\<lambda>n. mk_change svc (Some n) (Drifted Drift_Removed) Bump_Major) (keys_minus (s_methods old) (s_methods new))
     @ List.map_filter (\<lambda>n. classify_method svc n (the (map_of (s_methods old) n)) (the (map_of (s_methods new) n)))
         (keys_both (s_methods old) (s_methods new))"

definition diff_services :: "(string, service_decl) pydict \<Rightarrow> (string, service_decl) pydict \<Rightarrow> change list" where
  "diff_services old new =
     map (\<lambda>n. mk_change n None Service_Added Bump_Minor) (keys_minus new old)
     @ map (\<lambda>n. mk_change n None Service_Removed Bump_Major) (keys_minus old new)
     @ concat (map (\<lambda>n. diff_methods n (the (map_of old n)) (the (map_of new n))) (keys_both old new))"

fun bump_rank :: "bump \<Rightarrow> nat" where
  "bump_rank Bump_None = 0" | "bump_rank Bump_Patch = 1" | "bump_rank Bump_Minor = 2" | "bump_rank Bump_Major = 3"

definition join_bumps :: "change list \<Rightarrow> bump" where
  "join_bumps cs = fold (\<lambda>c b. if bump_rank (ch_bump c) > bump_rank b then ch_bump c else b) cs Bump_Patch"

text \<open>\<^term>\<open>None\<close> is \<^verbatim>\<open>ValueError\<close>.\<close>

definition bump_version :: "string \<Rightarrow> bump \<Rightarrow> string option" where
  "bump_version previous b =
     (case py_split (CHR ''.'') (dropWhile (\<lambda>c. c = CHR ''v'') (py_strip previous)) of
        [x, y, z] \<Rightarrow>
          if list_all (\<lambda>p. p \<noteq> [] \<and> list_all is_digit p) [x, y, z]
          then Some (py_join ''.'' (map dec_int (case b of
              Bump_Major \<Rightarrow> [numeral_value x + 1, 0, 0]
            | Bump_Minor \<Rightarrow> [numeral_value x, numeral_value y + 1, 0]
            | _ \<Rightarrow> [numeral_value x, numeral_value y, numeral_value z + 1])))
          else None
      | _ \<Rightarrow> None)"

record derivation =
  dv_bump :: bump
  dv_changes :: "change list"
  dv_next :: "string option"

definition derive :: "(string, service_decl) pydict \<Rightarrow> (string, service_decl) pydict \<Rightarrow> string option \<Rightarrow> derivation option" where
  "derive old new previous =
     (let cs = diff_services old new; b = join_bumps cs in
      case previous of
        None \<Rightarrow> Some \<lparr>dv_bump = b, dv_changes = cs, dv_next = None\<rparr>
      | Some p \<Rightarrow> if p = [] then Some \<lparr>dv_bump = b, dv_changes = cs, dv_next = None\<rparr>
          else map_option (\<lambda>v. \<lparr>dv_bump = b, dv_changes = cs, dv_next = Some v\<rparr>) (bump_version p b))"


subsection \<open>The bump measures the changes\<close>

lemma keys_minus_set: "n \<in> set (keys_minus a b) \<longleftrightarrow> map_of a n \<noteq> None \<and> map_of b n = None"
  by (auto simp: keys_minus_def map_of_eq_None_iff)

lemma keys_both_set: "n \<in> set (keys_both a b) \<longleftrightarrow> map_of a n \<noteq> None \<and> map_of b n \<noteq> None"
  by (auto simp: keys_both_def map_of_eq_None_iff)

lemma one_method_ok: "service_ok (one_method n m)"
  by (simp add: one_method_def service_ok_def dict_ok_def)

lemma one_method_compatible: "service_compatible (one_method n nm) (one_method n om) False = None \<longleftrightarrow> method_drift False om nm = None"
  unfolding service_compatible_None [OF one_method_ok one_method_ok] by (auto simp: one_method_def)

lemma one_method_equal: "service_equal (one_method n nm) (one_method n om) \<longleftrightarrow> nm = om"
  by (auto simp: service_equal_def one_method_def dict_equal_def)

lemma classify_None: "classify_method svc n om nm = None \<longleftrightarrow> nm = om"
  using method_drift_refl one_method_compatible [of n nm om]
  by (auto simp: classify_method_def one_method_equal split: option.splits if_splits)

lemma classify_bump: "classify_method svc n om nm = Some c \<Longrightarrow> ch_bump c = (if method_drift False om nm = None then Bump_Minor else Bump_Major)"
  using one_method_compatible [of n nm om] by (auto simp: classify_method_def split: option.splits if_splits)

lemma join_rank: "r \<le> bump_rank (join_bumps cs) \<longleftrightarrow> r \<le> 1 \<or> (\<exists>c \<in> set cs. r \<le> bump_rank (ch_bump c))"
proof -
  have "r \<le> bump_rank (fold (\<lambda>c b. if bump_rank (ch_bump c) > bump_rank b then ch_bump c else b) cs b)
      \<longleftrightarrow> r \<le> bump_rank b \<or> (\<exists>c \<in> set cs. r \<le> bump_rank (ch_bump c))" for b
    by (induction cs arbitrary: b) auto
  then show ?thesis by (simp add: join_bumps_def)
qed

lemma bump_by_rank: "b = Bump_Major \<longleftrightarrow> 3 \<le> bump_rank b" "b \<in> {Bump_Patch, Bump_None} \<longleftrightarrow> \<not> 2 \<le> bump_rank b"
  by (cases b; simp)+

lemma join_Major: "join_bumps cs = Bump_Major \<longleftrightarrow> (\<exists>c \<in> set cs. ch_bump c = Bump_Major)"
  unfolding bump_by_rank join_rank by simp

lemma join_Patch: "join_bumps cs = Bump_Patch \<longleftrightarrow> (\<forall>c \<in> set cs. ch_bump c \<in> {Bump_Patch, Bump_None})"
proof -
  have "1 \<le> bump_rank (join_bumps cs)" unfolding join_rank by simp
  then have "join_bumps cs \<noteq> Bump_None" by auto
  then have "join_bumps cs = Bump_Patch \<longleftrightarrow> join_bumps cs \<in> {Bump_Patch, Bump_None}" by blast
  then show ?thesis unfolding bump_by_rank(2) join_rank by simp
qed

definition major_change :: "change \<Rightarrow> bool" where "major_change c \<longleftrightarrow> ch_bump c = Bump_Major"

lemma map_filter_set: "set (List.map_filter f xs) = {y. \<exists>x \<in> set xs. f x = Some y}"
  by (force simp: List.map_filter_def)

lemma keys_minus_Nil: "keys_minus a b = [] \<longleftrightarrow> (\<forall>n. map_of a n = None \<or> map_of b n \<noteq> None)"
  unfolding set_empty [symmetric] set_eq_iff keys_minus_set by auto

lemma diff_methods_bump: "c \<in> set (diff_methods svc old new) \<Longrightarrow> ch_bump c \<in> {Bump_Minor, Bump_Major}"
  by (auto simp: diff_methods_def map_filter_set dest!: classify_bump split: if_splits)

lemma diff_methods_major:
  assumes "service_ok old" "service_ok new"
  shows "(\<exists>c \<in> set (diff_methods svc old new). major_change c) \<longleftrightarrow> service_compatible new old False \<noteq> None"
proof -
  let ?o = "map_of (s_methods old)" and ?n = "map_of (s_methods new)"
  have cls: "(\<exists>c. classify_method svc n om nm = Some c \<and> major_change c) \<longleftrightarrow> method_drift False om nm \<noteq> None" for n om nm
  proof (cases "classify_method svc n om nm")
    case None
    then have "nm = om" by (simp only: classify_None)
    then show ?thesis using None method_drift_refl [of False om] by simp
  next
    case (Some c)
    then show ?thesis using classify_bump [OF Some] by (auto simp: major_change_def)
  qed
  have e1: "(\<exists>c \<in> set (if s_commutative old \<noteq> s_commutative new then [mk_change svc None (Drifted Drift_Commutative) Bump_Major] else []). major_change c)
      \<longleftrightarrow> s_commutative old \<noteq> s_commutative new"
    by (simp add: major_change_def)
  have e2: "\<not> (\<exists>c \<in> set (map (\<lambda>n. mk_change svc (Some n) (Drifted Drift_Added) Bump_Minor) ns). major_change c)" for ns
    by (auto simp: major_change_def)
  have e3: "(\<exists>c \<in> set (map (\<lambda>n. mk_change svc (Some n) (Drifted Drift_Removed) Bump_Major) (keys_minus (s_methods old) (s_methods new))). major_change c)
      \<longleftrightarrow> (\<exists>n. ?o n \<noteq> None \<and> ?n n = None)"
    by (simp add: major_change_def keys_minus_set Bex_def del: not_None_eq)
  have e4: "(\<exists>c \<in> set (List.map_filter (\<lambda>n. classify_method svc n (the (?o n)) (the (?n n))) (keys_both (s_methods old) (s_methods new))). major_change c)
      \<longleftrightarrow> (\<exists>n. ?o n \<noteq> None \<and> ?n n \<noteq> None \<and> method_drift False (the (?o n)) (the (?n n)) \<noteq> None)"
  proof -
    have "(\<exists>c \<in> {y. \<exists>x \<in> A. f x = Some y}. Q c) \<longleftrightarrow> (\<exists>x \<in> A. \<exists>c. f x = Some c \<and> Q c)" for A :: "string set" and f :: "string \<Rightarrow> change option" and Q
      by blast
    then show ?thesis unfolding map_filter_set by (simp only: cls) (simp only: Bex_def keys_both_set conj_assoc)
  qed
  have "(\<exists>c \<in> set (diff_methods svc old new). major_change c) \<longleftrightarrow> s_commutative old \<noteq> s_commutative new
      \<or> (\<exists>n. ?o n \<noteq> None \<and> ?n n = None) \<or> (\<exists>n. ?o n \<noteq> None \<and> ?n n \<noteq> None \<and> method_drift False (the (?o n)) (the (?n n)) \<noteq> None)"
    unfolding diff_methods_def set_append bex_Un e1 e3 e4 using e2 by blast
  also have "\<dots> \<longleftrightarrow> \<not> (s_commutative new = s_commutative old \<and> (\<forall>n om. ?o n = Some om \<longrightarrow> (\<exists>nm. ?n n = Some nm \<and> method_drift False om nm = None)))"
    by (metis option.exhaust_sel option.sel option.distinct(1))
  also have "\<dots> \<longleftrightarrow> service_compatible new old False \<noteq> None"
    using service_compatible_None [OF assms(2,1), of False] by simp
  finally show ?thesis .
qed

lemma same_maps:
  "(\<forall>n. f n = None \<or> g n \<noteq> None) \<and> (\<forall>n. g n = None \<or> f n \<noteq> None) \<and> (\<forall>n. g n \<noteq> None \<and> f n \<noteq> None \<longrightarrow> the (f n) = the (g n)) \<longleftrightarrow> f = g"
proof
  assume a: "(\<forall>n. f n = None \<or> g n \<noteq> None) \<and> (\<forall>n. g n = None \<or> f n \<noteq> None) \<and> (\<forall>n. g n \<noteq> None \<and> f n \<noteq> None \<longrightarrow> the (f n) = the (g n))"
  show "f = g"
  proof
    fix n
    show "f n = g n" using a [THEN conjunct1, rule_format, of n] a [THEN conjunct2, THEN conjunct1, rule_format, of n]
        a [THEN conjunct2, THEN conjunct2, rule_format, of n] by (cases "f n"; cases "g n") simp_all
  qed
qed auto

lemma diff_methods_Nil:
  assumes "service_ok old" "service_ok new"
  shows "diff_methods svc old new = [] \<longleftrightarrow> service_equal new old"
proof -
  let ?o = "map_of (s_methods old)" and ?n = "map_of (s_methods new)"
  have "diff_methods svc old new = [] \<longleftrightarrow> s_commutative old = s_commutative new \<and> (\<forall>n. ?n n = None \<or> ?o n \<noteq> None)
      \<and> (\<forall>n. ?o n = None \<or> ?n n \<noteq> None) \<and> (\<forall>n. ?o n \<noteq> None \<and> ?n n \<noteq> None \<longrightarrow> the (?n n) = the (?o n))"
    unfolding diff_methods_def append_is_Nil_conv map_is_Nil_conv keys_minus_Nil map_filter_Nil
    by (auto simp: keys_both_set classify_None simp del: not_None_eq)
  also have "\<dots> \<longleftrightarrow> s_commutative new = s_commutative old \<and> ?n = ?o"
    unfolding same_maps by (simp only: eq_commute [of "s_commutative old"])
  finally show ?thesis
    using dict_equal_get [of "s_methods new" "s_methods old"] assms by (simp add: service_equal_def service_ok_def)
qed

subsection \<open>The derived bump and the admission gate\<close>

definition table_ok :: "(string, service_decl) pydict \<Rightarrow> bool" where
  "table_ok t \<longleftrightarrow> dict_ok t \<and> list_all (\<lambda>(n, s). service_ok s) t"

lemma table_ok_get: "table_ok t \<Longrightarrow> map_of t n = Some s \<Longrightarrow> service_ok s"
  by (auto simp: table_ok_def list_all_iff dest: map_of_SomeD)

lemma diff_services_bump: "c \<in> set (diff_services old new) \<Longrightarrow> ch_bump c \<in> {Bump_Minor, Bump_Major}"
proof -
  assume c: "c \<in> set (diff_services old new)"
  show ?thesis
  proof (cases "\<exists>n. c \<in> set (diff_methods n (the (map_of old n)) (the (map_of new n)))")
    case True
    then show ?thesis using diff_methods_bump by blast
  next
    case False
    then have "c \<in> set (map (\<lambda>n. mk_change n None Service_Added Bump_Minor) (keys_minus new old))
        \<or> c \<in> set (map (\<lambda>n. mk_change n None Service_Removed Bump_Major) (keys_minus old new))"
      using c unfolding diff_services_def set_append set_concat set_map by blast
    then show ?thesis by (elim disjE) (simp_all only: set_map image_iff, elim bexE, simp, elim bexE, simp)
  qed
qed

lemma split_missing: "(\<not> (\<forall>n. A n \<or> \<not> B n) \<or> (\<exists>n. (\<not> A n \<and> \<not> B n) \<and> C n)) \<longleftrightarrow> (\<exists>n. \<not> A n \<and> (B n \<or> C n))"
  by blast

lemma diff_services_major:
  assumes "table_ok old" "table_ok new"
  shows "(\<exists>c \<in> set (diff_services old new). major_change c)
     \<longleftrightarrow> (\<exists>n s. map_of old n = Some s \<and> (case map_of new n of None \<Rightarrow> True | Some s' \<Rightarrow> service_compatible s' s False \<noteq> None))"
proof -
  have e1: "\<not> (\<exists>c \<in> set (map (\<lambda>n. mk_change n None Service_Added Bump_Minor) ns). major_change c)" for ns
    by (auto simp: major_change_def)
  have e2: "(\<exists>c \<in> set (map (\<lambda>n. mk_change n None Service_Removed Bump_Major) ns). major_change c) \<longleftrightarrow> ns \<noteq> []" for ns
    by (cases ns) (auto simp: major_change_def)
  have e3: "(\<exists>c \<in> set (diff_methods n (the (map_of old n)) (the (map_of new n))). major_change c)
      \<longleftrightarrow> service_compatible (the (map_of new n)) (the (map_of old n)) False \<noteq> None" if "n \<in> set (keys_both old new)" for n
    using that table_ok_get [OF assms(1)] table_ok_get [OF assms(2)] unfolding keys_both_set by (intro diff_methods_major) auto
  have "(\<exists>c \<in> set (diff_services old new). major_change c) \<longleftrightarrow> keys_minus old new \<noteq> []
      \<or> (\<exists>n \<in> set (keys_both old new). service_compatible (the (map_of new n)) (the (map_of old n)) False \<noteq> None)"
  proof -
    have "(\<exists>c \<in> set (concat (map f xs)). Q c) \<longleftrightarrow> (\<exists>n \<in> set xs. \<exists>c \<in> set (f n). Q c)" for f :: "string \<Rightarrow> change list" and xs Q by auto
    moreover have "(\<exists>n \<in> set (keys_both old new). \<exists>c \<in> set (diff_methods n (the (map_of old n)) (the (map_of new n))). major_change c)
        \<longleftrightarrow> (\<exists>n \<in> set (keys_both old new). service_compatible (the (map_of new n)) (the (map_of old n)) False \<noteq> None)"
      by (rule bex_cong [OF refl e3])
    ultimately show ?thesis unfolding diff_services_def set_append bex_Un e2 by (simp only: e1 simp_thms)
  qed
  also have "\<dots> \<longleftrightarrow> (\<exists>n. map_of old n \<noteq> None \<and> (map_of new n = None
      \<or> service_compatible (the (map_of new n)) (the (map_of old n)) False \<noteq> None))"
    unfolding keys_minus_Nil Bex_def keys_both_set by (rule split_missing)
  also have "\<dots> \<longleftrightarrow> (\<exists>n s. map_of old n = Some s \<and> (case map_of new n of None \<Rightarrow> True | Some s' \<Rightarrow> service_compatible s' s False \<noteq> None))"
  proof (rule ex_cong1)
    fix n
    show "(map_of old n \<noteq> None \<and> (map_of new n = None \<or> service_compatible (the (map_of new n)) (the (map_of old n)) False \<noteq> None))
        \<longleftrightarrow> (\<exists>s. map_of old n = Some s \<and> (case map_of new n of None \<Rightarrow> True | Some s' \<Rightarrow> service_compatible s' s False \<noteq> None))"
      by (cases "map_of old n"; cases "map_of new n") simp_all
  qed
  finally show ?thesis .
qed

lemma diff_services_Nil:
  assumes "table_ok old" "table_ok new"
  shows "diff_services old new = [] \<longleftrightarrow> (\<forall>n. rel_option service_equal (map_of new n) (map_of old n))"
proof -
  have e: "diff_methods n (the (map_of old n)) (the (map_of new n)) = [] \<longleftrightarrow> service_equal (the (map_of new n)) (the (map_of old n))"
    if "n \<in> set (keys_both old new)" for n
    using that table_ok_get [OF assms(1)] table_ok_get [OF assms(2)] unfolding keys_both_set by (intro diff_methods_Nil) auto
  have "diff_services old new = [] \<longleftrightarrow> keys_minus new old = [] \<and> keys_minus old new = []
      \<and> (\<forall>n \<in> set (keys_both old new). service_equal (the (map_of new n)) (the (map_of old n)))"
    unfolding diff_services_def append_is_Nil_conv map_is_Nil_conv concat_eq_Nil_conv set_map ball_simps using e by blast
  also have "\<dots> \<longleftrightarrow> (\<forall>n. (map_of new n = None \<or> map_of old n \<noteq> None) \<and> (map_of old n = None \<or> map_of new n \<noteq> None)
      \<and> (map_of old n \<noteq> None \<and> map_of new n \<noteq> None \<longrightarrow> service_equal (the (map_of new n)) (the (map_of old n))))"
    unfolding keys_minus_Nil Ball_def keys_both_set by blast
  also have "\<dots> \<longleftrightarrow> (\<forall>n. rel_option service_equal (map_of new n) (map_of old n))"
    by (intro all_cong1) (auto simp: option_rel_Some2 option_rel_Some1 split: option.splits)
  finally show ?thesis .
qed

text \<open>C17: The derived bump is the admission gate's verdict.  It is major exactly when some old service is gone
  or its redeclaration would be refused to a running consumer; it is a patch exactly when no service
  changed at all, and then no change is listed; otherwise it is minor.\<close>

theorem derived_bump_exact:
  assumes "table_ok old" "table_ok new"
  shows "(join_bumps (diff_services old new) = Bump_Major \<longleftrightarrow>
      (\<exists>n s. map_of old n = Some s \<and> (case map_of new n of None \<Rightarrow> True | Some s' \<Rightarrow> service_compatible s' s False \<noteq> None)))
   \<and> (join_bumps (diff_services old new) = Bump_Patch \<longleftrightarrow> (\<forall>n. rel_option service_equal (map_of new n) (map_of old n)))
   \<and> (join_bumps (diff_services old new) = Bump_Patch \<longleftrightarrow> diff_services old new = [])
   \<and> join_bumps (diff_services old new) \<noteq> Bump_None"
proof -
  let ?cs = "diff_services old new"
  have "join_bumps ?cs = Bump_Patch \<longleftrightarrow> ?cs = []"
  proof (cases ?cs)
    case (Cons c cs)
    then have "ch_bump c \<notin> {Bump_Patch, Bump_None}" using diff_services_bump [of c old new] by auto
    then show ?thesis unfolding join_Patch using Cons by auto
  qed (simp add: join_bumps_def)
  moreover have "join_bumps ?cs \<noteq> Bump_None" using join_rank [of 1 ?cs] by auto
  ultimately show ?thesis
    using diff_services_major [OF assms, unfolded major_change_def] diff_services_Nil [OF assms] unfolding join_Major by blast
qed

theorem derived_bump_exact_witness:
  "join_bumps (diff_services [(''Lookup'', lookup_old)] [(''Lookup'', lookup_new)]) = Bump_Minor
     \<and> join_bumps (diff_services [(''Lookup'', lookup_new)] [(''Lookup'', lookup_old)]) = Bump_Major"
proof -
  have ok: "table_ok [(''Lookup'', lookup_old)]" "table_ok [(''Lookup'', lookup_new)]" by code_simp+
  have c: "service_compatible lookup_new lookup_old False = None" by code_simp
  have n: "service_compatible lookup_old lookup_new False \<noteq> None" by code_simp
  have e: "\<not> service_equal lookup_new lookup_old" by code_simp
  have "join_bumps (diff_services [(''Lookup'', lookup_old)] [(''Lookup'', lookup_new)]) \<noteq> Bump_Major"
    using derived_bump_exact [OF ok] c by (auto split: if_splits)
  moreover have "join_bumps (diff_services [(''Lookup'', lookup_old)] [(''Lookup'', lookup_new)]) \<noteq> Bump_Patch"
  proof -
    have "\<not> rel_option service_equal (map_of [(''Lookup'', lookup_new)] ''Lookup'') (map_of [(''Lookup'', lookup_old)] ''Lookup'')" using e by simp
    then show ?thesis using derived_bump_exact [OF ok] by blast
  qed
  moreover have "join_bumps (diff_services [(''Lookup'', lookup_old)] [(''Lookup'', lookup_new)]) \<noteq> Bump_None"
    using derived_bump_exact [OF ok] by blast
  moreover have "join_bumps (diff_services [(''Lookup'', lookup_new)] [(''Lookup'', lookup_old)]) = Bump_Major"
    using derived_bump_exact [OF ok(2,1)] n by auto
  ultimately show ?thesis by (cases "join_bumps (diff_services [(''Lookup'', lookup_old)] [(''Lookup'', lookup_new)])") auto
qed


subsection \<open>Applying the bump\<close>

definition bumped :: "version \<Rightarrow> bump \<Rightarrow> version" where
  "bumped v b = (case b of
       Bump_Major \<Rightarrow> v\<lparr>major := major v + 1, minor := 0, patch := 0\<rparr>
     | Bump_Minor \<Rightarrow> v\<lparr>minor := minor v + 1, patch := 0\<rparr>
     | _ \<Rightarrow> v\<lparr>patch := patch v + 1\<rparr>)"

lemma strip_v_dec: "dropWhile (\<lambda>c. c = CHR ''v'') (dec_nat n @ s) = dec_nat n @ s"
proof -
  obtain c cs where c: "dec_nat n = c # cs" by (cases "dec_nat n") auto
  then show ?thesis using dec_nat_chars [of c n] by simp
qed

text \<open>A derived version is the next version.  For a parsed release, without prerelease or build metadata,
  the bump yields the spelling of the release one step up in the bumped number with the lower numbers reset;
  that spelling parses back, is newer, and differs from the old release by exactly the bump.\<close>

theorem bump_version_next:
  assumes "parse_version t = Some v" "prerelease v = []" "build v = None" "b \<in> {Bump_Major, Bump_Minor, Bump_Patch}"
  shows "bump_version (version_str v) b = Some (version_str (bumped v b))
     \<and> parse_version (version_str (bumped v b)) = Some (bumped v b)
     \<and> version_gt (bumped v b) v \<and> bump_kind v (bumped v b) = b"
proof -
  have ok: "version_ok v" by (rule parse_version_ok [OF assms(1)])
  then have pos: "0 \<le> major v" "0 \<le> minor v" "0 \<le> patch v" by (simp_all add: version_ok_def)
  obtain x y z where n: "dec_int (major v) = dec_nat x" "dec_int (minor v) = dec_nat y" "dec_int (patch v) = dec_nat z"
    "major v = int x" "minor v = int y" "patch v = int z" by (rule core_string [OF ok])
  have str: "version_str w = py_join ''.'' (map dec_int [major w, minor w, patch w])" if "prerelease w = []" "build w = None" for w
    using that by (simp add: version_str_def)
  have vs: "version_str v = py_join ''.'' [dec_nat x, dec_nat y, dec_nat z]" using str [OF assms(2,3)] n by simp
  have "py_split (CHR ''.'') (version_str v) = [dec_nat x, dec_nat y, dec_nat z]"
    unfolding vs by (rule py_split_join) (use dec_nat_chars in auto)
  moreover have "dropWhile (\<lambda>c. c = CHR ''v'') (version_str v) = version_str v" unfolding vs by (simp add: strip_v_dec)
  moreover have "list_all (\<lambda>p. p \<noteq> [] \<and> list_all is_digit p) [dec_nat x, dec_nat y, dec_nat z]"
    using dec_nat_digits by (simp add: list_all_iff)
  ultimately have bv: "bump_version (version_str v) b = Some (py_join ''.'' (map dec_int (case b of
      Bump_Major \<Rightarrow> [major v + 1, 0, 0] | Bump_Minor \<Rightarrow> [major v, minor v + 1, 0] | _ \<Rightarrow> [major v, minor v, patch v + 1])))"
    by (cases b) (simp_all add: bump_version_def version_str_strip [OF ok] numeral_value_dec n)
  have b: "b = Bump_Major \<or> b = Bump_Minor \<or> b = Bump_Patch" using assms(4) by simp
  have "version_str (bumped v b) = py_join ''.'' (map dec_int [major (bumped v b), minor (bumped v b), patch (bumped v b)])"
    by (rule str) (use b assms(2,3) in \<open>auto simp: bumped_def\<close>)
  then have "bump_version (version_str v) b = Some (version_str (bumped v b))"
    unfolding bv using b by (elim disjE) (simp_all add: bumped_def)
  moreover have "version_ok (bumped v b)" using b pos assms(2,3) by (auto simp: bumped_def version_ok_def optional_tail_def)
  then have "parse_version (version_str (bumped v b)) = Some (bumped v b)" by (rule parse_version_str)
  moreover have "version_gt (bumped v b) v"
    using b pos by (elim disjE) (auto simp: bumped_def version_gt_def version_le_def version_lt_def triple_def dest: arg_cong [where f = triple])
  moreover have "bump_kind v (bumped v b) = b"
    using b pos by (elim disjE) (auto simp: bumped_def bump_kind_def version_lt_def triple_def)
  ultimately show ?thesis by blast
qed

definition plain_version :: version where
  "plain_version = \<lparr>major = 1, minor = 4, patch = 2, prerelease = [], build = None\<rparr>"

theorem bump_version_next_witness:
  "parse_version ''1.4.2'' = Some plain_version \<and> version_gt (bumped plain_version Bump_Minor) plain_version
     \<and> bump_version (version_str plain_version) Bump_Minor = Some (version_str (bumped plain_version Bump_Minor))"
proof -
  have p: "parse_version ''1.4.2'' = Some plain_version" by code_simp
  show ?thesis using bump_version_next [OF p, of Bump_Minor] p by (simp add: plain_version_def)
qed

end
