(* ===== verification/Service_Documents.thy ===== *)
theory Service_Documents
  imports Version_Derive Json_Value
begin

section \<open>Service declarations read back from compiled documents\<close>

text \<open>
  The reader admission and versioning share (\<open>_service_from_ir\<close> of \<open>src/revl/admission.py\<close>) and the
  derivation of a version from two documents (\<open>src/revl/version.py\<close>).  A document that is not the
  shape the compiler writes makes the Python code raise or carry a foreign value along; both are
  \<^term>\<open>None\<close> here.  The members a reader copies for other passes (comments and taint qualifiers) are
  not part of the interface relation and are not read.
\<close>

definition param_from_ir :: "json \<Rightarrow> (string option \<times> string option) option" where
  "param_from_ir p = Option.bind (obj_of p) (\<lambda>q. Option.bind (str_or_null (member q ''name'')) (\<lambda>n.
     map_option (\<lambda>t. (n, t)) (str_or_null (member q ''type''))))"

definition method_from_ir :: "json \<Rightarrow> method_decl option" where
  "method_from_ir j = Option.bind (obj_of j) (\<lambda>m.
     Option.bind (list_or_empty (member m ''params'')) (\<lambda>ps.
     Option.bind (those (map param_from_ir ps)) (\<lambda>params.
     Option.bind (str_or_null (member m ''returns'')) (\<lambda>ret.
     Option.bind (strings_or_null (member m ''capabilities'')) (\<lambda>caps.
     map_option (\<lambda>wit. \<lparr>m_params = params, m_returns = ret, m_emission = truthy (member m ''emission''),
         m_async = truthy (member m ''async''), m_commutative = truthy (member m ''commutative''),
         m_capabilities = caps, m_witnessed = wit\<rparr>)
       (strings_or_null (member m ''witnessed'')))))))"

definition methods_from_ir :: "(string \<times> json) list \<Rightarrow> (string, method_decl) pydict option" where
  "methods_from_ir ms = those (map (\<lambda>(n, j). map_option (Pair n) (method_from_ir j)) ms)"

definition service_from_ir :: "json \<Rightarrow> service_decl option" where
  "service_from_ir j = Option.bind (obj_or_empty j) (\<lambda>s.
     Option.bind (obj_or_empty (member s ''methods'')) (\<lambda>ms.
     map_option (\<lambda>methods. \<lparr>s_methods = methods, s_commutative = truthy (member s ''commutative'')\<rparr>) (methods_from_ir ms)))"

text \<open>The \<^verbatim>\<open>services\<close> table of a document; an audit report has none and is refused.\<close>

definition services_of :: "(string \<times> json) list \<Rightarrow> (string \<times> json) list option" where
  "services_of document = obj_of (member document ''services'')"

definition table_from_ir :: "(string \<times> json) list \<Rightarrow> (string, service_decl) pydict option" where
  "table_from_ir t = those (map (\<lambda>(n, j). map_option (Pair n) (service_from_ir j)) t)"

definition derive_documents :: "(string \<times> json) list \<Rightarrow> (string \<times> json) list \<Rightarrow> string option \<Rightarrow> derivation option" where
  "derive_documents previous current version =
     Option.bind (Option.bind (services_of previous) table_from_ir) (\<lambda>old.
     Option.bind (Option.bind (services_of current) table_from_ir) (\<lambda>new. derive old new version))"


subsection \<open>What the compiler writes is read back\<close>

definition json_opt :: "string option \<Rightarrow> json" where
  "json_opt s = (case s of None \<Rightarrow> JNull | Some t \<Rightarrow> JStr t)"

definition json_strs :: "string list option \<Rightarrow> json" where
  "json_strs s = (case s of None \<Rightarrow> JNull | Some ts \<Rightarrow> JArr (map JStr ts))"

definition method_ir :: "method_decl \<Rightarrow> json" where
  "method_ir m = JObj [(''params'', JArr (map (\<lambda>(n, t). JObj [(''name'', json_opt n), (''type'', json_opt t)]) (m_params m))),
     (''returns'', json_opt (m_returns m)), (''emission'', JBool (m_emission m)), (''async'', JBool (m_async m)),
     (''commutative'', JBool (m_commutative m)), (''capabilities'', json_strs (m_capabilities m)), (''witnessed'', json_strs (m_witnessed m))]"

definition service_ir :: "service_decl \<Rightarrow> json" where
  "service_ir s = JObj [(''methods'', JObj (map (\<lambda>(n, m). (n, method_ir m)) (s_methods s))), (''commutative'', JBool (s_commutative s))]"

lemma str_or_null_opt: "str_or_null (json_opt s) = Some s"
  by (simp add: str_or_null_def json_opt_def split: option.splits)

lemma strings_or_null_strs: "strings_or_null (json_strs s) = Some s"
proof (cases s)
  case (Some ts)
  have "those (map (\<lambda>x. case x of JStr s \<Rightarrow> Some s | _ \<Rightarrow> None) (map JStr ts)) = Some ts"
    by (induction ts) auto
  then show ?thesis using Some by (simp add: strings_or_null_def json_strs_def)
qed (simp add: strings_or_null_def json_strs_def)

lemma param_from_ir_of: "param_from_ir (JObj [(''name'', json_opt n), (''type'', json_opt t)]) = Some (n, t)"
  by (simp add: param_from_ir_def obj_of_def member_def dict_get_def str_or_null_opt)

lemma params_from_ir_of: "those (map param_from_ir (map (\<lambda>(n, t). JObj [(''name'', json_opt n), (''type'', json_opt t)]) ps)) = Some ps"
  using those_map_Some [of ps "\<lambda>p. param_from_ir (case p of (n, t) \<Rightarrow> JObj [(''name'', json_opt n), (''type'', json_opt t)])" id]
  by (simp add: param_from_ir_of comp_def split: prod.splits)

lemma method_from_ir_of: "method_from_ir (method_ir m) = Some m"
proof -
  have l: "list_or_empty (JArr xs) = Some xs" for xs by (simp add: list_or_empty_def)
  show ?thesis
    unfolding method_from_ir_def method_ir_def
    by (simp add: obj_of_def member_def dict_get_def l params_from_ir_of str_or_null_opt strings_or_null_strs del: map_map)
qed

lemma service_from_ir_of: "service_from_ir (service_ir s) = Some s"
proof -
  have "methods_from_ir (map (\<lambda>(n, m). (n, method_ir m)) ms) = Some ms" for ms
    unfolding methods_from_ir_def by (induction ms) (auto simp: method_from_ir_of)
  moreover have "obj_or_empty (JObj kvs) = Some kvs" for kvs by (cases kvs) (simp_all add: obj_or_empty_def obj_of_def)
  ultimately show ?thesis by (simp add: service_from_ir_def service_ir_def member_def dict_get_def)
qed

text \<open>The derivation over two written documents is the derivation over their tables.\<close>

lemma derive_documents_written:
  "derive_documents [(''services'', JObj (map (\<lambda>(n, s). (n, service_ir s)) old))]
      [(''services'', JObj (map (\<lambda>(n, s). (n, service_ir s)) new))] v = derive old new v"
proof -
  have "table_from_ir (map (\<lambda>(n, s). (n, service_ir s)) t) = Some t" for t
    unfolding table_from_ir_def by (induction t) (auto simp: service_from_ir_of)
  then show ?thesis by (simp add: derive_documents_def services_of_def obj_of_def member_def dict_get_def)
qed

end
