(* ===== verification/Liveness.thy ===== *)
theory Liveness
  imports Petri Json_Value
begin

section \<open>The net of a composition and its verdict (\<open>src/revl/liveness.py\<close>)\<close>

text \<open>
  A component of a composition is a transition that fires once: it consumes its control token,
  reads the shared services it injects, consumes the single-consumer provisions it injects, and
  produces its own provisions and a token that it is done.  The verdict is what the bounded walk
  of that net says about dead markings that still hold a control token.
\<close>

definition live_shared :: string where "live_shared = ''<shared>''"

record lentry =
  le_name :: string
  le_inject :: "string list"
  le_provides :: "string list"
  le_isolate :: "(string, string) pydict"
  le_routes :: "(string, string list) pydict"
  le_consumable :: "string list"
  le_capacity :: "(string, int) pydict"


subsection \<open>Reading the entries of a document\<close>

definition strings_of :: "json \<Rightarrow> string list option" where
  "strings_of j = Option.bind (list_or_empty j) (\<lambda>xs. those (map (\<lambda>x. case x of JStr s \<Rightarrow> Some s | _ \<Rightarrow> None) xs))"

definition string_dict_of :: "json \<Rightarrow> (string, string) pydict option" where
  "string_dict_of j = Option.bind (obj_or_empty j) (\<lambda>kvs.
     those (map (\<lambda>(k, v). case v of JStr s \<Rightarrow> Some (k, s) | _ \<Rightarrow> None) kvs))"

text \<open>\<^verbatim>\<open>int(x)\<close> of a document value\<close>

fun json_int :: "json \<Rightarrow> int option" where
  "json_int (JInt n) = Some n"
| "json_int (JBool b) = Some (if b then 1 else 0)"
| "json_int (JFloat (Fin q)) = Some (if q < 0 then - \<lfloor>- q\<rfloor> else \<lfloor>q\<rfloor>)"
| "json_int (JStr s) = py_int s"
| "json_int _ = None"

definition int_dict_of :: "json \<Rightarrow> (string, int) pydict option" where
  "int_dict_of j = Option.bind (obj_or_empty j) (\<lambda>kvs. those (map (\<lambda>(k, v). map_option (Pair k) (json_int v)) kvs))"

text \<open>A route without realms is no route.\<close>

definition routes_of :: "json \<Rightarrow> (string, string list) pydict option" where
  "routes_of j = Option.bind (obj_or_empty j) (\<lambda>kvs. those (map (\<lambda>(k, v).
     Option.bind (obj_or_empty v) (\<lambda>r. map_option (Pair k) (strings_of (member r ''realms'')))) kvs))"

definition name_of :: "json \<Rightarrow> string option" where
  "name_of j = (case j of JStr s \<Rightarrow> Some s | _ \<Rightarrow> None)"

definition lentry_from :: "(string list \<Rightarrow> string list) \<Rightarrow> string \<Rightarrow> (string \<times> json) list \<Rightarrow> (string \<times> json) list \<Rightarrow> lentry option" where
  "lentry_from order inject_member c marks =
     Option.bind (name_of (member c ''name'')) (\<lambda>name.
     Option.bind (strings_of (member c inject_member)) (\<lambda>inject.
     Option.bind (strings_of (member c ''provides'')) (\<lambda>provides.
     Option.bind (string_dict_of (member c ''isolate'')) (\<lambda>isolate.
     Option.bind (routes_of (member c ''routes'')) (\<lambda>routes.
     Option.bind (strings_of (member marks ''consumable'')) (\<lambda>consumable.
     Option.bind (int_dict_of (member marks ''consumableCapacity'')) (\<lambda>capacity.
       Some \<lparr>le_name = name, le_inject = order inject, le_provides = order provides, le_isolate = isolate,
         le_routes = routes, le_consumable = consumable, le_capacity = capacity\<rparr>)))))))"

text \<open>A document with a manifest lists its entries; a bare one has them synthesized, sorted, from its
  components, and the synthesized entry carries no consumable marks.\<close>

definition lentries_of_document :: "(string \<times> json) list \<Rightarrow> lentry list option" where
  "lentries_of_document document =
     Option.bind (obj_or_empty (member document ''manifest'')) (\<lambda>manifest.
       case member manifest ''components'' of
         JNull \<Rightarrow> Option.bind (list_or_empty (member document ''components''))
           (\<lambda>cs. those (map (\<lambda>c. Option.bind (obj_of c) (\<lambda>c. lentry_from sort ''requires'' c [])) cs))
       | JArr es \<Rightarrow> those (map (\<lambda>e. Option.bind (obj_of e) (\<lambda>e. lentry_from id ''inject'' e e)) es)
       | _ \<Rightarrow> None)"


subsection \<open>Places and arcs\<close>

definition live_realm :: "lentry \<Rightarrow> string \<Rightarrow> string" where
  "live_realm e k = dict_get (le_isolate e) k live_shared"

definition prov_place :: "string \<Rightarrow> string \<Rightarrow> string" where
  "prov_place k r = ''prov:'' @ k @ ''@'' @ r"

definition ctl_place :: "string \<Rightarrow> string" where "ctl_place n = ''ctl:'' @ n"

definition done_place :: "string \<Rightarrow> string" where "done_place n = ''done:'' @ n"

definition act_id :: "string \<Rightarrow> string" where "act_id n = ''act:'' @ n"

definition live_capacity :: "lentry \<Rightarrow> string \<Rightarrow> int" where
  "live_capacity e k = dict_get (le_capacity e) k 1"

definition routed_realms :: "lentry \<Rightarrow> string \<Rightarrow> string list option" where
  "routed_realms e k = (case dict_get (le_routes e) k [] of [] \<Rightarrow> None | rs \<Rightarrow> Some rs)"

definition provision_label :: "string \<Rightarrow> string \<Rightarrow> string" where
  "provision_label k r = (if r = live_shared then ''`'' @ k @ ''`'' else ''`'' @ k @ ''` in realm `'' @ r @ ''`'')"

text \<open>The place an entry provides a key in, and the places it needs for its injects, in order.\<close>

definition provided_place :: "lentry \<Rightarrow> string \<Rightarrow> string" where
  "provided_place e k = prov_place k (live_realm e k)"

definition needed_places :: "lentry \<Rightarrow> string list" where
  "needed_places e = concat (map (\<lambda>k. map (prov_place k)
     (case routed_realms e k of Some rs \<Rightarrow> rs | None \<Rightarrow> [live_realm e k])) (le_inject e))"

text \<open>Pass 1: who provides each place, under which label, and which places are consumable.\<close>

definition register_provider :: "lentry \<Rightarrow> (string, string) pydict \<Rightarrow> (string, string) pydict" where
  "register_provider e d = fold (\<lambda>k d. if map_of d (provided_place e k) \<noteq> None then d
     else AList.update (provided_place e k) (le_name e) d) (le_provides e) d"

definition register_label :: "lentry \<Rightarrow> (string, string) pydict \<Rightarrow> (string, string) pydict" where
  "register_label e d = fold (\<lambda>k. AList.update (provided_place e k) (provision_label k (live_realm e k))) (le_provides e) d"

definition register_consumable :: "lentry \<Rightarrow> (string, string \<times> int) pydict \<Rightarrow> (string, string \<times> int) pydict" where
  "register_consumable e d = fold (\<lambda>k d. if k \<in> set (le_consumable e)
     then AList.update (provided_place e k) (le_name e, live_capacity e k) d else d) (le_provides e) d"

definition consumable_places :: "lentry list \<Rightarrow> (string, string \<times> int) pydict" where
  "consumable_places es = fold register_consumable es []"

definition is_consumable :: "lentry list \<Rightarrow> string \<Rightarrow> bool" where
  "is_consumable es p \<longleftrightarrow> map_of (consumable_places es) p \<noteq> None"

text \<open>Pass 2: the transition of an entry.\<close>

definition act_consume :: "(string \<Rightarrow> bool) \<Rightarrow> lentry \<Rightarrow> (string, int) pydict" where
  "act_consume cons e = fold (\<lambda>p c. if cons p then AList.update p (dict_get c p 0 + 1) c else c)
     (needed_places e) [(ctl_place (le_name e), 1)]"

definition act_read :: "(string \<Rightarrow> bool) \<Rightarrow> lentry \<Rightarrow> (string, int) pydict" where
  "act_read cons e = fold (\<lambda>p d. if cons p then d else AList.update p 1 d) (needed_places e) []"

definition act_produce :: "(string \<Rightarrow> bool) \<Rightarrow> lentry \<Rightarrow> (string, int) pydict" where
  "act_produce cons e = fold (\<lambda>k. AList.update (provided_place e k) (if cons (provided_place e k) then live_capacity e k else 1))
     (le_provides e) [(done_place (le_name e), 1)]"

definition activation :: "(string \<Rightarrow> bool) \<Rightarrow> lentry \<Rightarrow> transition" where
  "activation cons e = \<lparr>t_id = act_id (le_name e), consume = act_consume cons e, produce = act_produce cons e, reads = act_read cons e\<rparr>"

definition live_net :: "lentry list \<Rightarrow> net" where
  "live_net es = map (activation (is_consumable es)) es"

text \<open>Who consumes each consumable place.\<close>

definition consumers_of :: "lentry list \<Rightarrow> (string, string list) pydict" where
  "consumers_of es = fold (\<lambda>e d. fold (\<lambda>p d. if is_consumable es p
       then AList.update p (dict_get d p [] @ [le_name e]) d else d) (needed_places e) d) es
     (map (\<lambda>(p, _). (p, [])) (consumable_places es))"

text \<open>The initial marking: a control token for each entry, and every place that is needed and that no
  entry produces, because the host provides it.\<close>

definition produced_places :: "net \<Rightarrow> string set" where
  "produced_places ts = (\<Union>t \<in> set ts. fst ` set (produce t))"

definition ambient_place :: "net \<Rightarrow> string \<Rightarrow> bool" where
  "ambient_place ts p \<longleftrightarrow> take 4 p \<noteq> ''ctl:'' \<and> p \<notin> produced_places ts"

definition ambient_capacity :: "lentry list \<Rightarrow> string \<Rightarrow> int" where
  "ambient_capacity es p = (case map_of (consumable_places es) p of Some (_, c) \<Rightarrow> c | None \<Rightarrow> 1)"

definition control_tokens :: "lentry list \<Rightarrow> marking" where
  "control_tokens es = fold (\<lambda>e. AList.update (ctl_place (le_name e)) 1) es []"

definition live_initial :: "lentry list \<Rightarrow> marking" where
  "live_initial es = fold (\<lambda>t m. fold (\<lambda>p m. if ambient_place (live_net es) p
       then AList.update p (max (dict_get m p 0) (ambient_capacity es p)) m else m) (map fst (reads t) @ map fst (consume t)) m)
     (live_net es) (control_tokens es)"

record derivation_net =
  dn_net :: net
  dn_initial :: marking
  dn_activation_of :: "(string, string) pydict"
  dn_label :: "(string, string) pydict"
  dn_consumers :: "(string, string list) pydict"
  dn_provider :: "(string, string) pydict"

definition derive_net :: "lentry list \<Rightarrow> derivation_net" where
  "derive_net es = \<lparr>dn_net = live_net es, dn_initial = live_initial es,
     dn_activation_of = fold (\<lambda>e. AList.update (act_id (le_name e)) (le_name e)) es [],
     dn_label = fold register_label es [], dn_consumers = consumers_of es, dn_provider = fold register_provider es []\<rparr>"


subsection \<open>The analysis\<close>

datatype live_verdict = Live | Deadlock | Inconclusive

record live_finding =
  lf_component :: string
  lf_waits_on :: "string list"
  lf_contended_with :: "string list"

record live_report =
  lr_verdict :: live_verdict
  lr_activations :: nat
  lr_places :: nat
  lr_explored :: nat
  lr_findings :: "live_finding list"
  lr_bounded :: bool
  lr_bound_hit :: bool

text \<open>The components whose control token survives in a dead marking.\<close>

definition control_holders :: "marking \<Rightarrow> string list" where
  "control_holders m = sort (map (\<lambda>(p, n). drop 4 p) (filter (\<lambda>(p, n). n \<noteq> 0 \<and> take 4 p = ''ctl:'') m))"

definition starved_places :: "net \<Rightarrow> marking \<Rightarrow> string \<Rightarrow> string list" where
  "starved_places ts m c = (case find (\<lambda>t. t_id t = act_id c) ts of None \<Rightarrow> []
     | Some t \<Rightarrow> map fst (filter (\<lambda>(p, w). take 4 p \<noteq> ''ctl:'' \<and> dict_get m p 0 < w) (consume t)))"

definition starve :: "net \<Rightarrow> marking \<Rightarrow> (string, string list) pydict \<Rightarrow> (string, string list) pydict" where
  "starve ts m d = fold (\<lambda>c d. AList.update c (dict_get d c [] @ starved_places ts m c) d) (control_holders m) d"

definition starved :: "net \<Rightarrow> marking list \<Rightarrow> (string, string list) pydict" where
  "starved ts deads = fold (starve ts) deads []"

definition rivals :: "(string, string list) pydict \<Rightarrow> string \<Rightarrow> string list \<Rightarrow> string list" where
  "rivals consumers c waits = filter (\<lambda>r. r \<noteq> c) (concat (map (\<lambda>p. dict_get consumers p []) waits))"

definition finding_of :: "derivation_net \<Rightarrow> string \<times> string list \<Rightarrow> live_finding" where
  "finding_of d s = (case s of (c, places) \<Rightarrow> let waits = sort (remdups places) in
     \<lparr>lf_component = c, lf_waits_on = map (\<lambda>p. dict_get (dn_label d) p p) waits,
      lf_contended_with = sort (remdups (rivals (dn_consumers d) c waits))\<rparr>)"

definition live_findings :: "derivation_net \<Rightarrow> reachability \<Rightarrow> live_finding list" where
  "live_findings d result = map (finding_of d) (sort_key fst (starved (dn_net d) (dead_markings result)))"

definition verdict_of :: "live_finding list \<Rightarrow> reachability \<Rightarrow> live_verdict" where
  "verdict_of findings result = (if findings \<noteq> [] then Deadlock else if conclusive result then Live else Inconclusive)"

definition analyze_entries :: "lentry list \<Rightarrow> nat \<Rightarrow> int \<Rightarrow> live_report" where
  "analyze_entries es max_states max_tokens =
     (let d = derive_net es;
          result = reachable (dn_net d) (dn_initial d) max_states max_tokens;
          findings = live_findings d result
      in \<lparr>lr_verdict = verdict_of findings result,
          lr_activations = length (dn_activation_of d), lr_places = card (net_places (dn_net d)),
          lr_explored = length (markings result), lr_findings = findings,
          lr_bounded = structurally_bounded (dn_net d) (place_order (dn_net d)), lr_bound_hit = \<not> conclusive result\<rparr>)"

definition analyze_document :: "(string \<times> json) list \<Rightarrow> nat \<Rightarrow> int \<Rightarrow> live_report option" where
  "analyze_document document max_states max_tokens =
     map_option (\<lambda>es. analyze_entries es max_states max_tokens) (lentries_of_document document)"

text \<open>Report only: no verdict but a proven deadlock gives a nonzero exit.\<close>

definition live_exit_code :: "live_report \<Rightarrow> int" where
  "live_exit_code r = (if lr_verdict r = Deadlock then 1 else 0)"

end
