(* ===== verification/Liveness_Net.thy ===== *)
theory Liveness_Net
  imports Liveness Petri_Walk
begin

section \<open>Runs of the net of a composition\<close>

text \<open>
  Facts about the arcs of an activation, the initial marking, and the firing sequences of the net: every
  activation fires at most once, and a control token is spent exactly when its activation has fired.
\<close>

named_theorems place_simps \<open>the three kinds of places are apart\<close>

lemma places_apart [place_simps]:
  "prov_place k r \<noteq> ctl_place n" "ctl_place n \<noteq> prov_place k r" "done_place n' \<noteq> ctl_place n" "ctl_place n \<noteq> done_place n'"
  "done_place n \<noteq> prov_place k r" "prov_place k r \<noteq> done_place n" "ctl_place n = ctl_place n' \<longleftrightarrow> n = n'"
  "act_id n = act_id n' \<longleftrightarrow> n = n'"
  by (simp_all add: prov_place_def ctl_place_def done_place_def act_id_def)

lemma provided_place_prov [place_simps]: "provided_place e k \<noteq> ctl_place n" "ctl_place n \<noteq> provided_place e k"
  by (simp_all add: provided_place_def place_simps)

lemma needed_not_ctl [place_simps]: "ctl_place n \<notin> set (needed_places e)"
  by (auto simp: needed_places_def place_simps split: option.splits)

lemma needed_not_done: "done_place n \<notin> set (needed_places e)"
  by (auto simp: needed_places_def place_simps split: option.splits)


subsection \<open>Folds of dictionary updates\<close>

lemma count_fold_get:
  "dict_get (fold (\<lambda>p c. if P p then AList.update p (dict_get c p 0 + 1) c else c) ps c0) q 0
     = dict_get c0 q 0 + (if P q then int (count_list ps q) else 0)"
  by (induction ps arbitrary: c0) auto

lemma count_fold_ok: "dict_ok c0 \<Longrightarrow> dict_ok (fold (\<lambda>p c. if P p then AList.update p (dict_get c p (0::int) + 1) c else c) ps c0)"
  by (induction ps arbitrary: c0) auto

lemma set_fold_get:
  "dict_get (fold (\<lambda>p d. if P p then d else AList.update p (1::int) d) ps d0) q 0
     = (if \<not> P q \<and> q \<in> set ps then 1 else dict_get d0 q 0)"
  by (induction ps arbitrary: d0) auto

lemma set_fold_ok: "dict_ok d0 \<Longrightarrow> dict_ok (fold (\<lambda>p d. if P p then d else AList.update p (1::int) d) ps d0)"
  by (induction ps arbitrary: d0) auto

lemma key_fold_get:
  "q \<notin> f ` set ks \<Longrightarrow> dict_get (fold (\<lambda>k. AList.update (f k) (w k)) ks d0) q z = dict_get d0 q z"
  by (induction ks arbitrary: d0) auto

lemma key_fold_in:
  "(\<And>k. k \<in> set ks \<Longrightarrow> Q (w k)) \<Longrightarrow> q \<in> f ` set ks \<or> Q (dict_get d0 q z) \<Longrightarrow> Q (dict_get (fold (\<lambda>k. AList.update (f k) (w k)) ks d0) q z)"
  by (induction ks arbitrary: d0) auto

lemma key_fold_ok: "dict_ok d0 \<Longrightarrow> dict_ok (fold (\<lambda>k. AList.update (f k) (w k)) ks d0)"
  by (induction ks arbitrary: d0) auto

lemma dict_get_keys: "dict_ok d \<Longrightarrow> (\<forall>(p, w) \<in> set d. (0::int) < w) \<longleftrightarrow> (\<forall>p \<in> fst ` set d. 0 < dict_get d p 0)"
  using dict_get_in [of d] by fastforce


subsection \<open>The arcs of an activation\<close>

lemma act_consume_get:
  "dict_get (act_consume cons e) q 0
     = (if q = ctl_place (le_name e) then 1 else if cons q then int (count_list (needed_places e) q) else 0)"
proof -
  have "dict_get [(ctl_place (le_name e), 1::int)] q 0 = (if q = ctl_place (le_name e) then 1 else 0)" by (simp add: dict_get_def)
  then show ?thesis using needed_not_ctl [of "le_name e" e] by (simp add: act_consume_def count_fold_get count_notin)
qed

lemma act_read_get: "dict_get (act_read cons e) q 0 = (if \<not> cons q \<and> q \<in> set (needed_places e) then 1 else 0)"
  by (simp add: act_read_def set_fold_get) (simp add: dict_get_def)

lemma act_produce_ctl: "dict_get (act_produce cons e) (ctl_place n) 0 = 0"
  unfolding act_produce_def by (subst key_fold_get) (auto simp: place_simps dict_get_def)

lemma act_dicts_ok: "dict_ok (act_consume cons e)" "dict_ok (act_produce cons e)" "dict_ok (act_read cons e)"
proof -
  have "dict_ok [(q, 1::int)]" for q :: string by (simp add: dict_ok_def)
  then show "dict_ok (act_consume cons e)" "dict_ok (act_produce cons e)" "dict_ok (act_read cons e)"
    unfolding act_consume_def act_produce_def act_read_def by (intro count_fold_ok set_fold_ok key_fold_ok dict_ok_Nil; assumption)+
qed

lemma act_produce_pos:
  assumes "\<And>k. k \<in> set (le_provides e) \<Longrightarrow> 0 < live_capacity e k" "q \<in> provided_place e ` set (le_provides e) \<or> q = done_place (le_name e)"
  shows "0 < dict_get (act_produce cons e) q 0"
  unfolding act_produce_def using assms by (intro key_fold_in [where Q = "\<lambda>n. 0 < n"]) (auto simp: dict_get_def)

lemma act_produce_nonneg:
  assumes "\<And>k. k \<in> set (le_provides e) \<Longrightarrow> 0 < live_capacity e k"
  shows "0 \<le> dict_get (act_produce cons e) q 0"
proof (cases "q \<in> provided_place e ` set (le_provides e)")
  case True
  then show ?thesis using act_produce_pos [OF assms] by (simp add: order_less_imp_le)
next
  case False
  then show ?thesis unfolding act_produce_def by (subst key_fold_get) (auto simp: dict_get_def)
qed

text \<open>The keys of the arc dictionaries.\<close>

lemma act_keys:
  "fst ` set (act_produce cons e) = insert (done_place (le_name e)) (provided_place e ` set (le_provides e))"
  "fst ` set (act_read cons e) = {p \<in> set (needed_places e). \<not> cons p}"
  "fst ` set (act_consume cons e) = insert (ctl_place (le_name e)) {p \<in> set (needed_places e). cons p}"
proof -
  have "fst ` set (fold (\<lambda>k. AList.update (f k) (w k)) ks d) = fst ` set d \<union> f ` set ks"
    for f :: "string \<Rightarrow> string" and w :: "string \<Rightarrow> int" and ks d
    by (induction ks arbitrary: d) (auto simp: dom_update)
  then show "fst ` set (act_produce cons e) = insert (done_place (le_name e)) (provided_place e ` set (le_provides e))"
    by (simp add: act_produce_def)
  have "fst ` set (fold (\<lambda>p d. if cons p then d else AList.update p (1::int) d) ps d) = fst ` set d \<union> {p \<in> set ps. \<not> cons p}" for ps d
    by (induction ps arbitrary: d) (auto simp: dom_update)
  then show "fst ` set (act_read cons e) = {p \<in> set (needed_places e). \<not> cons p}" by (simp add: act_read_def)
  have "fst ` set (fold (\<lambda>p c. if cons p then AList.update p (dict_get c p 0 + 1) c else c) ps d)
      = fst ` set d \<union> {p \<in> set ps. cons p}" for ps and d :: "(string, int) pydict"
    by (induction ps arbitrary: d) (auto simp: dom_update)
  then show "fst ` set (act_consume cons e) = insert (ctl_place (le_name e)) {p \<in> set (needed_places e). cons p}"
    by (simp add: act_consume_def)
qed


subsection \<open>Well-formed compositions\<close>

text \<open>Component names are unique and a declared capacity is positive.\<close>

definition wf_entries :: "lentry list \<Rightarrow> bool" where
  "wf_entries es \<longleftrightarrow> distinct (map le_name es) \<and> (\<forall>e \<in> set es. \<forall>k \<in> set (le_provides e). 0 < live_capacity e k)"

lemma live_net_ok:
  assumes "wf_entries es"
  shows "net_ok (live_net es)"
proof -
  have "distinct (map t_id (live_net es))"
    using assms by (auto simp: wf_entries_def live_net_def activation_def comp_def distinct_map inj_on_def place_simps)
  moreover have "(\<forall>(p, w) \<in> set (act_consume cons e). 0 < w) \<and> (\<forall>(p, w) \<in> set (act_produce cons e). 0 < w)
      \<and> (\<forall>(p, w) \<in> set (act_read cons e). 0 < w)" if "e \<in> set es" for e cons
  proof -
    have "\<forall>p \<in> fst ` set (act_consume cons e). 0 < dict_get (act_consume cons e) p 0"
      unfolding act_keys act_consume_get by (auto simp: count_list_0_iff neq0_conv [symmetric] simp del: neq0_conv)
    moreover have "\<forall>p \<in> fst ` set (act_produce cons e). 0 < dict_get (act_produce cons e) p 0"
      using act_produce_pos [of e _ cons] assms \<open>e \<in> set es\<close> unfolding act_keys wf_entries_def by blast
    moreover have "\<forall>p \<in> fst ` set (act_read cons e). 0 < dict_get (act_read cons e) p 0"
      unfolding act_keys act_read_get by auto
    ultimately show ?thesis by (simp only: dict_get_keys [OF act_dicts_ok(1)] dict_get_keys [OF act_dicts_ok(2)] dict_get_keys [OF act_dicts_ok(3)])
  qed
  ultimately show ?thesis
    unfolding net_ok_def by (auto simp: live_net_def activation_def act_dicts_ok ball_Un)
qed


subsection \<open>The initial marking\<close>

definition seed :: "lentry list \<Rightarrow> string list \<Rightarrow> marking \<Rightarrow> marking" where
  "seed es ps m = fold (\<lambda>p m. if ambient_place (live_net es) p
       then AList.update p (max (dict_get m p 0) (ambient_capacity es p)) m else m) ps m"

lemma seed_append: "seed es (ps @ qs) m = seed es qs (seed es ps m)"
  by (simp add: seed_def)

lemma live_initial_seed:
  "live_initial es = seed es (concat (map (\<lambda>t. map fst (reads t) @ map fst (consume t)) (live_net es))) (control_tokens es)"
proof -
  have "fold (\<lambda>t m. seed es (map fst (reads t) @ map fst (consume t)) m) ts m
      = seed es (concat (map (\<lambda>t. map fst (reads t) @ map fst (consume t)) ts)) m" for ts m
    by (induction ts arbitrary: m) (simp_all add: seed_append, simp add: seed_def)
  then show ?thesis by (simp add: live_initial_def seed_def)
qed

lemma seed_skips: "\<not> ambient_place (live_net es) q \<or> q \<notin> set ps \<Longrightarrow> dict_get (seed es ps m) q 0 = dict_get m q 0"
  unfolding seed_def by (induction ps arbitrary: m) auto

lemma seed_grows: "dict_get m q 0 \<le> dict_get (seed es ps m) q 0"
proof (induction ps arbitrary: m)
  case (Cons p ps)
  have "dict_get m q 0 \<le> dict_get (seed es [p] m) q 0" by (simp add: seed_def)
  then show ?case using Cons [of "seed es [p] m"] seed_append [of es "[p]" ps m] by simp
qed (simp add: seed_def)

lemma seed_supplies: "ambient_place (live_net es) q \<Longrightarrow> q \<in> set ps \<Longrightarrow> ambient_capacity es q \<le> dict_get (seed es ps m) q 0"
proof (induction ps arbitrary: m)
  case (Cons p ps)
  show ?case
  proof (cases "p = q")
    case True
    then have "ambient_capacity es q \<le> dict_get (seed es [p] m) q 0" using Cons.prems(1) by (simp add: seed_def)
    then show ?thesis using seed_grows [of "seed es [p] m" q es ps] seed_append [of es "[p]" ps m] by simp
  next
    case False
    then show ?thesis using Cons seed_append [of es "[p]" ps m] by simp
  qed
qed simp

lemma seed_ok: "dict_ok m \<Longrightarrow> dict_ok (seed es ps m)"
  unfolding seed_def by (induction ps arbitrary: m) auto

lemma control_tokens_ok: "dict_ok (control_tokens es)"
  unfolding control_tokens_def by (rule key_fold_ok) simp

lemma control_tokens_get: "dict_get (control_tokens es) q 0 = (if q \<in> ctl_place ` le_name ` set es then 1 else 0)"
proof (cases "q \<in> ctl_place ` le_name ` set es")
  case True
  then have "dict_get (control_tokens es) q 0 = 1"
    unfolding control_tokens_def by (intro key_fold_in [where Q = "\<lambda>n. n = 1"]) auto
  then show ?thesis using True by simp
next
  case False
  then have "q \<notin> (\<lambda>e. ctl_place (le_name e)) ` set es" by auto
  then show ?thesis using False unfolding control_tokens_def by (subst key_fold_get) (simp_all add: dict_get_def)
qed

lemma initial_ok: "dict_ok (live_initial es)"
  by (simp add: live_initial_seed seed_ok control_tokens_ok)

lemma initial_ctl: "dict_get (live_initial es) (ctl_place n) 0 = (if n \<in> le_name ` set es then 1 else 0)"
proof -
  have "\<not> ambient_place (live_net es) (ctl_place n)" by (simp add: ambient_place_def ctl_place_def)
  then have "dict_get (live_initial es) (ctl_place n) 0 = dict_get (control_tokens es) (ctl_place n) 0"
    by (simp add: live_initial_seed seed_skips)
  then show ?thesis by (simp add: control_tokens_get image_iff place_simps)
qed

lemma initial_nonneg: "0 \<le> dict_get (live_initial es) q 0"
proof -
  have "0 \<le> dict_get (control_tokens es) q 0" by (simp add: control_tokens_get)
  then show ?thesis using seed_grows order_trans unfolding live_initial_seed by blast
qed

text \<open>A place that is needed, shared and produced by no entry is seeded.\<close>

lemma initial_ambient:
  assumes "e \<in> set es" "p \<in> set (needed_places e)" "\<not> is_consumable es p" "p \<notin> produced_places (live_net es)"
  shows "1 \<le> dict_get (live_initial es) p 0"
proof -
  obtain k r where p: "p = prov_place k r" using assms(2) by (auto simp: needed_places_def)
  have "ambient_place (live_net es) p" using assms(4) by (simp add: ambient_place_def p prov_place_def)
  moreover have "p \<in> fst ` set (reads (activation (is_consumable es) e))"
    using assms(2,3) by (simp add: activation_def act_keys)
  then have "p \<in> set (concat (map (\<lambda>t. map fst (reads t) @ map fst (consume t)) (live_net es)))"
    using assms(1) by (force simp: live_net_def)
  moreover have "ambient_capacity es p = 1" using assms(3) unfolding is_consumable_def by (cases "map_of (consumable_places es) p") (simp_all add: ambient_capacity_def)
  ultimately show ?thesis using seed_supplies unfolding live_initial_seed by metis
qed


subsection \<open>Firing sequences\<close>

fun fires :: "marking \<Rightarrow> transition list \<Rightarrow> bool" where
  "fires m [] \<longleftrightarrow> True"
| "fires m (t # us) \<longleftrightarrow> t_enabled t m \<and> fires (fire t m) us"

definition after_run :: "marking \<Rightarrow> transition list \<Rightarrow> marking" where
  "after_run m us = fold fire us m"

lemma fires_snoc: "fires m (us @ [t]) \<longleftrightarrow> fires m us \<and> t_enabled t (after_run m us)"
  by (induction us arbitrary: m) (auto simp: after_run_def)

lemma net_reach_run: "net_reach ts m0 m \<longleftrightarrow> (\<exists>us. set us \<subseteq> set ts \<and> fires m0 us \<and> m = after_run m0 us)"
proof
  assume "net_reach ts m0 m"
  then show "\<exists>us. set us \<subseteq> set ts \<and> fires m0 us \<and> m = after_run m0 us"
  proof (induction rule: net_reach.induct)
    case net_init
    have "set [] \<subseteq> set ts \<and> fires m0 [] \<and> m0 = after_run m0 []" by (simp add: after_run_def)
    then show ?case by blast
  next
    case (net_next m m')
    obtain us where us: "set us \<subseteq> set ts" "fires m0 us" "m = after_run m0 us" using net_next.IH by blast
    obtain t where t: "t \<in> set ts" "t_enabled t m" "m' = fire t m" using net_next.hyps(2) by (elim net_stepE) auto
    have "set (us @ [t]) \<subseteq> set ts \<and> fires m0 (us @ [t]) \<and> m' = after_run m0 (us @ [t])"
      using us t by (simp add: fires_snoc) (simp add: after_run_def)
    then show ?case by blast
  qed
next
  assume "\<exists>us. set us \<subseteq> set ts \<and> fires m0 us \<and> m = after_run m0 us"
  then obtain us where "set us \<subseteq> set ts" "fires m0 us" "m = after_run m0 us" by blast
  then show "net_reach ts m0 m"
  proof (induction us arbitrary: m rule: rev_induct)
    case Nil
    then show ?case by (simp add: after_run_def net_reach.net_init)
  next
    case (snoc t us)
    have "net_reach ts m0 (after_run m0 us)" using snoc by (simp add: fires_snoc)
    moreover have "net_step ts (after_run m0 us) m"
      using snoc.prems net_step [of t ts "after_run m0 us"] by (simp add: fires_snoc) (simp add: after_run_def)
    ultimately show ?case by (rule net_reach.net_next)
  qed
qed

text \<open>A control token is spent exactly when its activation has fired.\<close>

definition activated :: "transition list \<Rightarrow> string set" where
  "activated us = {n. act_id n \<in> t_id ` set us}"

lemma enabled_needs: "t_enabled t m \<Longrightarrow> dict_get (consume t) p 0 \<noteq> 0 \<Longrightarrow> dict_get (consume t) p 0 \<le> dict_get m p 0"
  using dict_get_nonzero [of "consume t" p] by (fastforce simp: t_enabled_def list_ex_iff split: if_splits)

lemma activation_run:
  assumes "wf_entries es"
  shows "fires (live_initial es) us \<Longrightarrow> set us \<subseteq> set (live_net es) \<Longrightarrow> distinct us \<and> dict_ok (after_run (live_initial es) us)
    \<and> (\<forall>n. dict_get (after_run (live_initial es) us) (ctl_place n) 0 = (if n \<in> le_name ` set es - activated us then 1 else 0))"
proof (induction us rule: rev_induct)
  case Nil
  then show ?case by (simp add: after_run_def initial_ctl initial_ok activated_def)
next
  case (snoc t us)
  let ?m = "after_run (live_initial es) us"
  have IH: "distinct us" "dict_ok ?m"
      "\<And>n. dict_get ?m (ctl_place n) 0 = (if n \<in> le_name ` set es - activated us then 1 else 0)"
    and en: "t_enabled t ?m"
    using snoc by (simp_all add: fires_snoc)
  obtain e where e: "e \<in> set es" "t = activation (is_consumable es) e"
    using snoc.prems(2) by (auto simp: live_net_def)
  have c: "dict_get (consume t) (ctl_place n) 0 = (if n = le_name e then 1 else 0)" for n
    using needed_not_ctl [of n e] by (simp add: e activation_def act_consume_get place_simps count_notin)
  have fresh: "le_name e \<notin> activated us"
    using enabled_needs [OF en, of "ctl_place (le_name e)"] c IH(3) [of "le_name e"] by (auto split: if_splits)
  have act: "activated (us @ [t]) = insert (le_name e) (activated us)"
    by (auto simp: activated_def e activation_def place_simps)
  have "t \<notin> set us" using fresh by (force simp: activated_def e activation_def)
  moreover have m: "after_run (live_initial es) (us @ [t]) = fire t ?m" by (simp add: after_run_def)
  moreover have "dict_get (fire t ?m) (ctl_place n) 0 = (if n \<in> le_name ` set es - activated (us @ [t]) then 1 else 0)" for n
  proof -
    have "dict_get (produce t) (ctl_place n) 0 = 0" by (simp add: e activation_def act_produce_ctl)
    then have "dict_get (fire t ?m) (ctl_place n) 0 = dict_get ?m (ctl_place n) 0 - (if n = le_name e then 1 else 0)"
      using fire_get [OF IH(2), of t "ctl_place n"] c by (simp add: e activation_def act_dicts_ok)
    then show ?thesis unfolding act IH(3) using fresh e(1) by auto
  qed
  ultimately show ?case using IH(1,2) by (simp add: fire_ok)
qed

lemma activated_names: "set us \<subseteq> set (live_net es) \<Longrightarrow> activated us \<subseteq> le_name ` set es"
  by (force simp: activated_def live_net_def activation_def place_simps)

lemma live_net_length: "wf_entries es \<Longrightarrow> distinct us \<Longrightarrow> set us \<subseteq> set (live_net es) \<Longrightarrow> length us \<le> length es"
  by (metis card_length card_mono distinct_card finite_set le_trans length_map live_net_def)

end
