(* ===== verification/Liveness_Properties.thy ===== *)
theory Liveness_Properties
  imports Liveness_Net Petri_Bounds
begin

section \<open>What the liveness verdict says of a composition\<close>

text \<open>
  A complete run is a firing sequence of the net that cannot be extended.  The findings of a report are
  the components that some complete run leaves inactive, the verdict is obtainable for every
  well-formed composition, and a composition of shared services whose dependencies are acyclic is live.
\<close>

definition complete_run :: "lentry list \<Rightarrow> transition list \<Rightarrow> bool" where
  "complete_run es us \<longleftrightarrow> set us \<subseteq> set (live_net es) \<and> fires (live_initial es) us
     \<and> net_enabled (live_net es) (after_run (live_initial es) us) = []"

text \<open>The components some complete run leaves inactive.\<close>

definition strandable :: "lentry list \<Rightarrow> string set" where
  "strandable es = {n \<in> le_name ` set es. \<exists>us. complete_run es us \<and> n \<notin> activated us}"

lemma run_reach: "set us \<subseteq> set (live_net es) \<Longrightarrow> fires (live_initial es) us \<Longrightarrow> net_reach (live_net es) (live_initial es) (after_run (live_initial es) us)"
  unfolding net_reach_run by blast

lemma control_holders_set: "dict_ok m \<Longrightarrow> set (control_holders (canon m)) = {n. dict_get m (ctl_place n) 0 \<noteq> 0}"
proof -
  assume ok: "dict_ok m"
  have take: "take 4 p = ''ctl:'' \<longleftrightarrow> p = ctl_place (drop 4 p)" for p :: string
  proof
    assume "take 4 p = ''ctl:''"
    then show "p = ctl_place (drop 4 p)" unfolding ctl_place_def by (metis append_take_drop_id)
  next
    assume "p = ctl_place (drop 4 p)"
    then have "take 4 p = take 4 (ctl_place (drop 4 p))" by (rule arg_cong)
    then show "take 4 p = ''ctl:''" by (simp add: ctl_place_def)
  qed
  have "set (control_holders (canon m)) = {n. \<exists>p c. (p, c) \<in> set (canon m) \<and> c \<noteq> 0 \<and> take 4 p = ''ctl:'' \<and> n = drop 4 p}"
    by (force simp: control_holders_def)
  also have "\<dots> = {n. \<exists>c. (ctl_place n, c) \<in> set (canon m) \<and> c \<noteq> 0}"
  proof -
    have d: "drop 4 (ctl_place n) = n" for n by (simp add: ctl_place_def)
    show ?thesis unfolding take
    proof (rule Collect_cong)
      fix n
      show "(\<exists>p c. (p, c) \<in> set (canon m) \<and> c \<noteq> 0 \<and> p = ctl_place (drop 4 p) \<and> n = drop 4 p)
          \<longleftrightarrow> (\<exists>c. (ctl_place n, c) \<in> set (canon m) \<and> c \<noteq> 0)" (is "?l \<longleftrightarrow> ?r")
      proof
        assume ?l
        then obtain p c where pc: "(p, c) \<in> set (canon m)" "c \<noteq> 0" "p = ctl_place (drop 4 p)" "n = drop 4 p" by blast
        then have "p = ctl_place n" by simp
        then show ?r using pc(1,2) by blast
      next
        assume ?r
        then obtain c where "(ctl_place n, c) \<in> set (canon m)" "c \<noteq> 0" by blast
        then show ?l using d [of n] by (intro exI [of _ "ctl_place n"] exI [of _ c]) simp
      qed
    qed
  qed
  finally show ?thesis by (auto simp: set_canon [OF ok])
qed

lemma starved_keys: "fst ` set (starved ts deads) = (\<Union>m \<in> set deads. set (control_holders m))"
proof -
  have s: "fst ` set (starve ts m d) = fst ` set d \<union> set (control_holders m)" for m d
  proof -
    have "fst ` set (fold (\<lambda>c d. AList.update c (dict_get d c [] @ starved_places ts m c) d) cs d) = fst ` set d \<union> set cs" for cs
      by (induction cs arbitrary: d) (auto simp: dom_update)
    then show ?thesis by (simp add: starve_def)
  qed
  have "fst ` set (fold (starve ts) deads d) = fst ` set d \<union> (\<Union>m \<in> set deads. set (control_holders m))" for d
    by (induction deads arbitrary: d) (auto simp: s)
  then show ?thesis by (simp add: starved_def)
qed

lemma finding_component: "lf_component (finding_of d s) = fst s"
  by (cases s) (simp add: finding_of_def Let_def)

lemma findings_components:
  "lf_component ` set (lr_findings (analyze_entries es ms mt))
     = (\<Union>m \<in> set (dead_markings (reachable (live_net es) (live_initial es) ms mt)). set (control_holders m))"
  by (simp add: analyze_entries_def live_findings_def Let_def derive_net_def image_image finding_component starved_keys)

lemma verdict_cases:
  "lr_verdict (analyze_entries es ms mt) = (if lf_component ` set (lr_findings (analyze_entries es ms mt)) \<noteq> {} then Deadlock
     else if \<not> lr_bound_hit (analyze_entries es ms mt) then Live else Inconclusive)"
  "lr_bound_hit (analyze_entries es ms mt) \<longleftrightarrow> \<not> conclusive (reachable (live_net es) (live_initial es) ms mt)"
proof -
  have "sort_key fst xs = [] \<longleftrightarrow> xs = []" for xs :: "(string \<times> string list) list" by (metis set_empty set_sort)
  then show "lr_verdict (analyze_entries es ms mt) = (if lf_component ` set (lr_findings (analyze_entries es ms mt)) \<noteq> {} then Deadlock
     else if \<not> lr_bound_hit (analyze_entries es ms mt) then Live else Inconclusive)"
    by (simp add: analyze_entries_def verdict_of_def live_findings_def Let_def)
qed (simp add: analyze_entries_def Let_def derive_net_def)

text \<open>A dead marking's control holders are the components its run left inactive.\<close>

lemma holders_of_run:
  assumes "wf_entries es" "set us \<subseteq> set (live_net es)" "fires (live_initial es) us"
  shows "set (control_holders (canon (after_run (live_initial es) us))) = le_name ` set es - activated us"
  using activation_run [OF assms(1,3,2)] by (auto simp: control_holders_set)

lemma strandable_holders:
  assumes "wf_entries es"
  shows "strandable es = (\<Union>k \<in> canon ` {m. net_reach (live_net es) (live_initial es) m \<and> net_enabled (live_net es) m = []}. set (control_holders k))"
    (is "_ = (\<Union>k \<in> canon ` ?D. _ k)")
proof -
  have D: "?D = after_run (live_initial es) ` {us. complete_run es us}"
    unfolding net_reach_run complete_run_def by blast
  have "(\<Union>k \<in> canon ` ?D. set (control_holders k)) = (\<Union>us \<in> {us. complete_run es us}. le_name ` set es - activated us)"
    unfolding D image_image UN_simps(10) using holders_of_run [OF assms] by (intro SUP_cong) (auto simp: complete_run_def)
  then show ?thesis by (auto simp: strandable_def)
qed

lemma findings_strandable:
  assumes "wf_entries es"
  shows "lf_component ` set (lr_findings (analyze_entries es ms mt)) \<subseteq> strandable es"
    and "\<not> lr_bound_hit (analyze_entries es ms mt) \<Longrightarrow> lf_component ` set (lr_findings (analyze_entries es ms mt)) = strandable es"
proof -
  show "lf_component ` set (lr_findings (analyze_entries es ms mt)) \<subseteq> strandable es"
    using reachable_facts [of "live_net es" "live_initial es" ms mt] strandable_holders [OF assms]
    unfolding findings_components by blast
  assume "\<not> lr_bound_hit (analyze_entries es ms mt)"
  then have "conclusive (reachable (live_net es) (live_initial es) ms mt)" by (simp add: verdict_cases(2))
  then show "lf_component ` set (lr_findings (analyze_entries es ms mt)) = strandable es"
    using reachable_exact [OF live_net_ok [OF assms] initial_ok] strandable_holders [OF assms]
    unfolding findings_components by simp
qed

text \<open>The reachable markings are the ends of runs without repetition, so they are finitely many.\<close>

lemma live_bounded:
  assumes "wf_entries es"
  obtains K where "\<And>m p. net_reach (live_net es) (live_initial es) m \<Longrightarrow> dict_get m p 0 \<le> K"
proof -
  let ?R = "{m. net_reach (live_net es) (live_initial es) m}"
  have "?R \<subseteq> after_run (live_initial es) ` {us. set us \<subseteq> set (live_net es) \<and> distinct us}"
    unfolding net_reach_run using activation_run [OF assms] by auto
  moreover have "finite {us. set us \<subseteq> set (live_net es) \<and> distinct us}"
    by (rule finite_subset_distinct) simp
  ultimately have fin: "finite ?R" by (meson finite_imageI finite_subset)
  let ?V = "insert 0 (\<Union>m \<in> ?R. snd ` set m)"
  have "dict_get m p 0 \<le> Max ?V" if "net_reach (live_net es) (live_initial es) m" for m p
  proof (rule Max_ge)
    show "finite ?V" using fin by simp
    show "dict_get m p 0 \<in> ?V"
      using that dict_get_nonzero [of m p] by (cases "dict_get m p 0 = 0") force+
  qed
  then show thesis by (rule that)
qed

lemma live_conclusive:
  assumes "wf_entries es"
  shows "\<exists>ms mt. \<forall>ms' mt'. ms \<le> ms' \<and> mt \<le> mt' \<longrightarrow> conclusive (reachable (live_net es) (live_initial es) ms' mt')"
proof -
  obtain K where "\<And>m p. net_reach (live_net es) (live_initial es) m \<Longrightarrow> dict_get m p 0 \<le> K"
    using live_bounded [OF assms] by blast
  then show ?thesis
    using bounded_conclusive [OF live_net_ok [OF assms] initial_ok] initial_nonneg by metis
qed


subsection \<open>Compositions of shared services\<close>

definition shared_only :: "lentry list \<Rightarrow> bool" where
  "shared_only es \<longleftrightarrow> (\<forall>e \<in> set es. \<forall>k \<in> set (le_provides e). k \<notin> set (le_consumable e))"

definition provides_places :: "lentry \<Rightarrow> string set" where
  "provides_places e = provided_place e ` set (le_provides e)"

text \<open>A rank that descends from each entry to every provider of a place it needs: no dependency cycle.\<close>

definition ranked :: "(string \<Rightarrow> nat) \<Rightarrow> lentry list \<Rightarrow> bool" where
  "ranked rank es \<longleftrightarrow> (\<forall>e \<in> set es. \<forall>e' \<in> set es. set (needed_places e) \<inter> provides_places e' \<noteq> {} \<longrightarrow> rank (le_name e') < rank (le_name e))"

lemma shared_only_consumable: "shared_only es \<Longrightarrow> \<not> is_consumable es p"
proof -
  assume sh: "shared_only es"
  have "register_consumable e d = d" if "e \<in> set es" for e d
  proof -
    have "\<forall>k \<in> set ks. k \<notin> set (le_consumable e) \<Longrightarrow> fold (\<lambda>k d. if k \<in> set (le_consumable e)
       then AList.update (provided_place e k) (le_name e, live_capacity e k) d else d) ks d = d" for ks
      by (induction ks) auto
    then show ?thesis using sh that by (simp add: register_consumable_def shared_only_def)
  qed
  then have "fold register_consumable xs [] = []" if "set xs \<subseteq> set es" for xs
    using that by (induction xs) auto
  then show ?thesis by (simp add: is_consumable_def consumable_places_def)
qed

text \<open>With shared services only, a provision is never taken away again.\<close>

lemma shared_places_stay:
  assumes "wf_entries es" "shared_only es"
  shows "fires (live_initial es) us \<Longrightarrow> set us \<subseteq> set (live_net es)
    \<Longrightarrow> (\<forall>k r. dict_get (live_initial es) (prov_place k r) 0 \<le> dict_get (after_run (live_initial es) us) (prov_place k r) 0)
      \<and> (\<forall>e \<in> set es. le_name e \<in> activated us \<longrightarrow> (\<forall>p \<in> provides_places e. 1 \<le> dict_get (after_run (live_initial es) us) p 0))"
proof (induction us rule: rev_induct)
  case Nil
  then show ?case by (simp add: after_run_def activated_def)
next
  case (snoc t us)
  let ?m = "after_run (live_initial es) us"
  have us: "fires (live_initial es) us" "set us \<subseteq> set (live_net es)" using snoc.prems by (simp_all add: fires_snoc)
  obtain e where e: "e \<in> set es" "t = activation (is_consumable es) e" using snoc.prems(2) by (auto simp: live_net_def)
  have ok: "dict_ok ?m" using activation_run [OF assms(1) us] by simp
  have cap: "\<And>e k. e \<in> set es \<Longrightarrow> k \<in> set (le_provides e) \<Longrightarrow> 0 < live_capacity e k" using assms(1) by (simp add: wf_entries_def)
  have fin: "after_run (live_initial es) (us @ [t]) = fire t ?m" by (simp add: after_run_def)
  have get: "dict_get (fire t ?m) (prov_place k r) 0 = dict_get ?m (prov_place k r) 0 + dict_get (produce t) (prov_place k r) 0" for k r
    using fire_get [OF ok, of t "prov_place k r"] shared_only_consumable [OF assms(2)]
    by (simp add: e(2) activation_def act_dicts_ok act_consume_get place_simps)
  have nn: "0 \<le> dict_get (produce t) q 0" for q
    using act_produce_nonneg cap [OF e(1)] by (simp add: e(2) activation_def)
  have "1 \<le> dict_get (fire t ?m) p 0"
    if f: "f \<in> set es" "le_name f \<in> activated (us @ [t])" and p: "p \<in> provides_places f" for f p
  proof -
    obtain k where k: "p = prov_place k (live_realm f k)" using p by (auto simp: provides_places_def provided_place_def)
    show ?thesis
    proof (cases "le_name f \<in> activated us")
      case True
      then have "1 \<le> dict_get ?m p 0" using snoc.IH [OF us] f(1) p by blast
      then show ?thesis using get nn [of p] unfolding k by simp
    next
      case False
      then have "le_name f = le_name e" using f(2) by (auto simp: activated_def e(2) activation_def place_simps)
      then have "f = e" using assms(1) f(1) e(1) by (auto simp: wf_entries_def distinct_map dest: inj_onD)
      then have "0 < dict_get (produce t) p 0"
        using act_produce_pos [of e p] cap [OF e(1)] p by (simp add: e(2) activation_def provides_places_def)
      moreover have "0 \<le> dict_get ?m p 0"
        using snoc.IH [OF us] initial_nonneg [of es p] unfolding k by (meson order_trans)
      ultimately show ?thesis using get unfolding k by simp
    qed
  qed
  moreover have "dict_get (live_initial es) (prov_place k r) 0 \<le> dict_get (fire t ?m) (prov_place k r) 0" for k r
  proof -
    have "dict_get (live_initial es) (prov_place k r) 0 \<le> dict_get ?m (prov_place k r) 0" using snoc.IH [OF us] by blast
    then show ?thesis using get [of k r] nn [of "prov_place k r"] by simp
  qed
  ultimately show ?case unfolding fin by blast
qed

lemma shared_complete:
  assumes wf: "wf_entries es" and sh: "shared_only es" and rk: "ranked rank es" and run: "complete_run es us"
  shows "e \<in> set es \<Longrightarrow> le_name e \<in> activated us"
proof (induction "rank (le_name e)" arbitrary: e rule: less_induct)
  case less
  let ?m = "after_run (live_initial es) us" and ?t = "activation (is_consumable es) e"
  have us: "fires (live_initial es) us" "set us \<subseteq> set (live_net es)" using run by (simp_all add: complete_run_def)
  note stay = shared_places_stay [OF wf sh us]
  show ?case
  proof (rule ccontr)
    assume idle: "le_name e \<notin> activated us"
    have needs: "1 \<le> dict_get ?m p 0" if p: "p \<in> set (needed_places e)" for p
    proof (cases "\<exists>f \<in> set es. p \<in> provides_places f")
      case True
      then obtain f where f: "f \<in> set es" "p \<in> provides_places f" by blast
      then have "rank (le_name f) < rank (le_name e)" using rk less.prems p unfolding ranked_def by blast
      then show ?thesis using less.hyps f stay by blast
    next
      case False
      have "p \<noteq> done_place n" for n using needed_not_done p by auto
      then have "p \<notin> produced_places (live_net es)"
        using False by (auto simp: produced_places_def live_net_def activation_def act_keys provides_places_def)
      then have "1 \<le> dict_get (live_initial es) p 0"
        using initial_ambient [OF less.prems p] shared_only_consumable [OF sh] by blast
      moreover obtain k r where "p = prov_place k r" using p by (auto simp: needed_places_def)
      ultimately show ?thesis using stay by (meson order_trans)
    qed
    have ctl: "dict_get ?m (ctl_place (le_name e)) 0 = 1"
      using activation_run [OF wf us] idle less.prems by simp
    have c: "\<forall>(p, w) \<in> set (consume ?t). w \<le> dict_get ?m p 0"
    proof clarify
      fix p w assume pw: "(p, w) \<in> set (consume ?t)"
      then have "p = ctl_place (le_name e)"
        using act_keys(3) [of "is_consumable es" e] shared_only_consumable [OF sh] by (force simp: activation_def)
      moreover have "w = dict_get (act_consume (is_consumable es) e) p 0"
        using pw dict_get_in [OF act_dicts_ok(1)] by (simp add: activation_def)
      ultimately show "w \<le> dict_get ?m p 0" using ctl by (simp add: act_consume_get)
    qed
    have r: "\<forall>(p, w) \<in> set (reads ?t). w \<le> dict_get ?m p 0"
    proof clarify
      fix p w assume pw: "(p, w) \<in> set (reads ?t)"
      then have "p \<in> set (needed_places e)" using act_keys(2) [of "is_consumable es" e] by (force simp: activation_def)
      moreover have "w = dict_get (act_read (is_consumable es) e) p 0"
        using pw dict_get_in [OF act_dicts_ok(3)] by (simp add: activation_def)
      ultimately show "w \<le> dict_get ?m p 0" using needs [of p] by (auto simp: act_read_get)
    qed
    have "t_enabled ?t ?m" using c r by (auto simp: t_enabled_def list_ex_iff not_less)
    then have "?t \<in> set (net_enabled (live_net es) ?m)" using less.prems by (simp add: net_enabled_def live_net_def)
    then show False using run by (simp add: complete_run_def)
  qed
qed

lemma shared_not_strandable: "wf_entries es \<Longrightarrow> shared_only es \<Longrightarrow> ranked rank es \<Longrightarrow> strandable es = {}"
  using shared_complete by (auto simp: strandable_def)



subsection \<open>Properties\<close>

text \<open>A fan-out of one: a stream with a single consumer that two components inject, and a service of one of them.\<close>

definition one_stream :: "lentry list" where
  "one_stream =
     [\<lparr>le_name = ''P'', le_inject = [], le_provides = [''s''], le_isolate = [], le_routes = [], le_consumable = [''s''], le_capacity = []\<rparr>,
      \<lparr>le_name = ''A'', le_inject = [''s''], le_provides = [''svc''], le_isolate = [], le_routes = [], le_consumable = [], le_capacity = []\<rparr>,
      \<lparr>le_name = ''B'', le_inject = [''s''], le_provides = [], le_isolate = [], le_routes = [], le_consumable = [], le_capacity = []\<rparr>,
      \<lparr>le_name = ''C'', le_inject = [''svc''], le_provides = [], le_isolate = [], le_routes = [], le_consumable = [], le_capacity = []\<rparr>]"

definition log_chain :: "lentry list" where
  "log_chain =
     [\<lparr>le_name = ''store'', le_inject = [''log''], le_provides = [''db''], le_isolate = [], le_routes = [], le_consumable = [], le_capacity = []\<rparr>,
      \<lparr>le_name = ''api'', le_inject = [''db'', ''log''], le_provides = [], le_isolate = [], le_routes = [], le_consumable = [], le_capacity = []\<rparr>]"

lemma one_stream_wf: "wf_entries one_stream"
  by (simp add: wf_entries_def one_stream_def live_capacity_def dict_get_def)

lemma log_chain_wf: "wf_entries log_chain"
  by (simp add: wf_entries_def log_chain_def live_capacity_def dict_get_def)

text \<open>The search behind the liveness verdict always ends with an answer to give.  In a composition whose
  component names are unique and whose declared capacities are positive, no firing sequence activates a
  component twice, so none is longer than the number of components; and there are caps from
  which on the walk of the marking graph is conclusive, so that the verdict is \<open>Live\<close> or \<open>Deadlock\<close>.\<close>

theorem liveness_search_ends:
  assumes "wf_entries es"
  shows "(\<forall>us. set us \<subseteq> set (live_net es) \<and> fires (live_initial es) us \<longrightarrow> distinct us \<and> length us \<le> length es)
     \<and> (\<exists>ms mt. \<forall>ms' mt'. ms \<le> ms' \<and> mt \<le> mt' \<longrightarrow> lr_verdict (analyze_entries es ms' mt') \<noteq> Inconclusive)"
proof -
  have "distinct us \<and> length us \<le> length es" if "set us \<subseteq> set (live_net es)" "fires (live_initial es) us" for us
    using activation_run [OF assms that(2,1)] live_net_length [OF assms _ that(1)] by blast
  moreover have "lr_verdict (analyze_entries es ms mt) \<noteq> Inconclusive"
    if "conclusive (reachable (live_net es) (live_initial es) ms mt)" for ms mt
    using that verdict_cases [of es ms mt] by simp
  ultimately show ?thesis using live_conclusive [OF assms] by meson
qed

theorem liveness_search_ends_witness:
  "fires (live_initial log_chain) (live_net log_chain) \<and> length (live_net log_chain) \<le> length log_chain
     \<and> (\<exists>ms mt. lr_verdict (analyze_entries log_chain ms mt) \<noteq> Inconclusive)"
proof -
  have "fires (live_initial log_chain) (live_net log_chain)" by code_simp
  then show ?thesis using liveness_search_ends [OF log_chain_wf] by blast
qed

text \<open>C18: The verdict says what can happen.  Every component a report names is left inactive by some
  complete run of the composition, whether or not a cap was hit; when none was hit, the report names
  all such components; and a \<open>Live\<close> verdict means that every complete run, in whatever order the
  components come up, activates them all.\<close>

theorem liveness_verdict_exact:
  assumes "wf_entries es"
  shows "lf_component ` set (lr_findings (analyze_entries es ms mt)) \<subseteq> strandable es
    \<and> (\<not> lr_bound_hit (analyze_entries es ms mt) \<longrightarrow> lf_component ` set (lr_findings (analyze_entries es ms mt)) = strandable es)
    \<and> (lr_verdict (analyze_entries es ms mt) = Deadlock \<longleftrightarrow> lr_findings (analyze_entries es ms mt) \<noteq> [])
    \<and> (lr_verdict (analyze_entries es ms mt) = Live \<longrightarrow> (\<forall>us. complete_run es us \<longrightarrow> activated us = le_name ` set es))"
proof -
  note f = findings_strandable [OF assms, of ms mt]
  have "activated us = le_name ` set es"
    if live: "lr_verdict (analyze_entries es ms mt) = Live" and run: "complete_run es us" for us
  proof
    have "lf_component ` set (lr_findings (analyze_entries es ms mt)) = {}" "\<not> lr_bound_hit (analyze_entries es ms mt)"
      using live verdict_cases(1) [of es ms mt] by (auto split: if_splits)
    then have "strandable es = {}" using f(2) by simp
    then show "le_name ` set es \<subseteq> activated us" using run by (auto simp: strandable_def)
    show "activated us \<subseteq> le_name ` set es" by (rule activated_names) (use run in \<open>simp add: complete_run_def\<close>)
  qed
  then show ?thesis using f verdict_cases(1) [of es ms mt] by simp
qed

theorem liveness_verdict_exact_witness:
  "lr_verdict (analyze_entries one_stream 100 64) = Deadlock \<and> strandable one_stream = {''A'', ''B'', ''C''}"
proof -
  let ?r = "reachable (live_net one_stream) (live_initial one_stream) 100 64"
  have run: "map lf_component (live_findings (derive_net one_stream) ?r) = [''A'', ''B'', ''C'']" "conclusive ?r"
    by code_simp+
  have "map lf_component (lr_findings (analyze_entries one_stream 100 64)) = [''A'', ''B'', ''C'']"
      "\<not> lr_bound_hit (analyze_entries one_stream 100 64)"
    using run by (simp_all add: analyze_entries_def derive_net_def Let_def)
  then have names: "lf_component ` set (lr_findings (analyze_entries one_stream 100 64)) = {''A'', ''B'', ''C''}"
      and hit: "\<not> lr_bound_hit (analyze_entries one_stream 100 64)"
    by (simp_all only: set_map [symmetric] list.set simp_thms)
  note v = liveness_verdict_exact [OF one_stream_wf, of 100 64]
  have "strandable one_stream = {''A'', ''B'', ''C''}"
    using conjunct1 [OF conjunct2 [OF v]] hit names by (simp only: not_False_eq_True simp_thms)
  moreover have "lr_findings (analyze_entries one_stream 100 64) \<noteq> []" using names by (metis image_empty insert_not_empty list.set(1))
  ultimately show ?thesis using conjunct1 [OF conjunct2 [OF conjunct2 [OF v]]] by (simp only: simp_thms)
qed

text \<open>C19: A composition that provides shared services only, with no cycle among its dependencies, is live:
  the analysis never reports a deadlock, at any caps, and reports \<open>Live\<close> once the caps are large enough.\<close>

theorem shared_acyclic_live:
  assumes "wf_entries es" "shared_only es" "ranked rank es"
  shows "lr_verdict (analyze_entries es ms mt) \<noteq> Deadlock
    \<and> (\<exists>ms mt. \<forall>ms' mt'. ms \<le> ms' \<and> mt \<le> mt' \<longrightarrow> lr_verdict (analyze_entries es ms' mt') = Live)"
proof -
  have none: "lf_component ` set (lr_findings (analyze_entries es ms mt)) = {}" for ms mt
    using findings_strandable(1) [OF assms(1), of ms mt] unfolding shared_not_strandable [OF assms] by (rule subset_empty [THEN iffD1])
  have "lr_verdict (analyze_entries es ms mt) = Live" if "conclusive (reachable (live_net es) (live_initial es) ms mt)" for ms mt
    using that none verdict_cases [of es ms mt] by simp
  moreover have "lr_verdict (analyze_entries es ms mt) \<noteq> Deadlock" using none verdict_cases(1) [of es ms mt] by simp
  ultimately show ?thesis using live_conclusive [OF assms(1)] by meson
qed

theorem shared_acyclic_live_witness:
  "lr_verdict (analyze_entries log_chain 0 0) \<noteq> Deadlock \<and> lr_verdict (analyze_entries log_chain 100 64) = Live"
proof -
  have "ranked (\<lambda>n. if n = ''api'' then 1 else 0) log_chain"
    unfolding ranked_def provides_places_def by code_simp
  moreover have "shared_only log_chain" by (simp add: shared_only_def log_chain_def)
  moreover have "verdict_of (live_findings (derive_net log_chain) (reachable (live_net log_chain) (live_initial log_chain) 100 64))
      (reachable (live_net log_chain) (live_initial log_chain) 100 64) = Live"
    by code_simp
  then have "lr_verdict (analyze_entries log_chain 100 64) = Live"
    by (simp add: analyze_entries_def derive_net_def Let_def)
  ultimately show ?thesis using shared_acyclic_live [OF log_chain_wf] by blast
qed

text \<open>A component stranded because the provider of a service it reads is stranded is named, but the
  report has nothing for it to wait on: only the places it would consume are looked at.\<close>

lemma indirect_victim_has_no_reason:
  "map (\<lambda>f. (lf_component f, lf_waits_on f)) (live_findings (derive_net one_stream)
       (reachable (live_net one_stream) (live_initial one_stream) 100 64))
     = [(''A'', [''`s`'']), (''B'', [''`s`'']), (''C'', [])]"
  by code_simp

end
