(* ===== verification/Ready_System.thy ===== *)
theory Ready_System
  imports Main
begin

section \<open>Runs that choose among what is ready\<close>

text \<open>
  The interface of a component that offers, in every state, a list of operations it is ready to perform:
  whatever is chosen keeps the invariant and spends some of what is left.  A run performs the
  chosen operations one by one.
\<close>

inductive chosen_run :: "('s \<Rightarrow> 'a list) \<Rightarrow> ('a \<Rightarrow> 's \<Rightarrow> 's) \<Rightarrow> 's \<Rightarrow> 'a list \<Rightarrow> 's \<Rightarrow> bool" for ready perform s where
  chosen_none: "chosen_run ready perform s [] s"
| chosen_next: "chosen_run ready perform s as t \<Longrightarrow> a \<in> set (ready t) \<Longrightarrow> chosen_run ready perform s (as @ [a]) (perform a t)"

lemma chosen_first:
  assumes "a \<in> set (ready s)" "chosen_run ready perform (perform a s) as t"
  shows "chosen_run ready perform s (a # as) t"
  using assms(2)
proof (induction rule: chosen_run.induct)
  case chosen_none
  have "chosen_run ready perform s ([] @ [a]) (perform a s)"
    by (rule chosen_run.chosen_next) (rule chosen_run.chosen_none, rule assms(1))
  then show ?case by simp
next
  case (chosen_next as t b)
  have "chosen_run ready perform s ((a # as) @ [b]) (perform b t)" by (rule chosen_run.chosen_next) (rule chosen_next.IH, rule chosen_next.hyps(2))
  then show ?case by simp
qed

locale ready_system =
  fixes ready :: "'s \<Rightarrow> 'a list"
    and perform :: "'a \<Rightarrow> 's \<Rightarrow> 's"
    and inv :: "'s \<Rightarrow> bool"
    and left :: "'s \<Rightarrow> nat"
  assumes keeps: "inv s \<Longrightarrow> a \<in> set (ready s) \<Longrightarrow> inv (perform a s)"
    and spends: "inv s \<Longrightarrow> a \<in> set (ready s) \<Longrightarrow> left (perform a s) < left s"
begin

lemma chosen_keeps: "chosen_run ready perform s as t \<Longrightarrow> inv s \<Longrightarrow> inv t"
  by (induction rule: chosen_run.induct) (auto intro: keeps)

lemma chosen_spends: "chosen_run ready perform s as t \<Longrightarrow> inv s \<Longrightarrow> length as + left t \<le> left s"
proof (induction rule: chosen_run.induct)
  case (chosen_next as t a)
  then show ?case using spends [of t a] chosen_keeps by fastforce
qed simp

lemma chosen_length: "chosen_run ready perform s as t \<Longrightarrow> inv s \<Longrightarrow> length as \<le> left s"
  using chosen_spends by fastforce

end

end
