(* ===== verification/Schedule.thy ===== *)
theory Schedule
  imports Revl_Prelude Ready_System "HOL-Library.Product_Lexorder"
begin

section \<open>Seeded schedules (\<open>src/revl/schedule.py\<close>)\<close>

text \<open>
  The scheduler that drives one composition through interleavings of activations and teardowns: which
  atoms are enabled in a state, in which order they are offered, how a chooser picks among
  them, when a run ends, which fibers are reported stuck, and the minimization of a failing choice
  vector.  What an atom does to the runtime is not part of the scheduler's state.
\<close>

record scomp =
  sc_name :: string
  sc_provides :: "string list"
  sc_requires :: "string list"

text \<open>The components by name and the load order; a document without one is loaded in document order.\<close>

definition sc_table :: "scomp list \<Rightarrow> (string, scomp) pydict" where
  "sc_table cs = dict_of (map (\<lambda>c. (sc_name c, c)) cs)"

definition load_order :: "string list option \<Rightarrow> scomp list \<Rightarrow> string list" where
  "load_order manifest cs = (case manifest of None \<Rightarrow> map sc_name cs | Some [] \<Rightarrow> map sc_name cs | Some ns \<Rightarrow> ns)"

definition load_index :: "string list \<Rightarrow> (string, int) pydict" where
  "load_index order = dict_of (zip order (map int [0..<length order]))"

datatype atom = Activate string | Teardown string

fun atom_key :: "(string, int) pydict \<Rightarrow> atom \<Rightarrow> int \<times> int \<times> string" where
  "atom_key idx (Activate n) = (0, dict_get idx n (2 ^ 30), n)"
| "atom_key idx (Teardown n) = (1, dict_get idx n (2 ^ 30), n)"

fun atom_label :: "atom \<Rightarrow> string" where
  "atom_label (Activate n) = ''activate('' @ n @ '')''"
| "atom_label (Teardown n) = ''teardown('' @ n @ '')''"

record sched_state =
  st_active :: "string list"
  st_torn :: "string list"
  st_provided :: "(string, int) pydict"

definition sched_start :: sched_state where
  "sched_start = \<lparr>st_active = [], st_torn = [], st_provided = []\<rparr>"

text \<open>Who needs a key that a component provides.\<close>

definition dependents :: "(string, scomp) pydict \<Rightarrow> string \<Rightarrow> string list" where
  "dependents tbl p = (case map_of tbl p of None \<Rightarrow> [] | Some pc \<Rightarrow>
     map fst (filter (\<lambda>(n, c). n \<noteq> p \<and> list_ex (\<lambda>k. k \<in> set (sc_provides pc)) (sc_requires c)) tbl))"

definition available :: "sched_state \<Rightarrow> string \<Rightarrow> bool" where
  "available st k \<longleftrightarrow> dict_get (st_provided st) k 0 > 0"

definition ready_unsorted :: "(string, scomp) pydict \<Rightarrow> sched_state \<Rightarrow> atom list" where
  "ready_unsorted tbl st =
     map (\<lambda>(n, c). Activate n) (filter (\<lambda>(n, c). n \<notin> set (st_active st) \<and> n \<notin> set (st_torn st)
       \<and> list_all (available st) (sc_requires c)) tbl)
     @ map Teardown (filter (\<lambda>n. list_all (\<lambda>d. d \<in> set (st_torn st)) (dependents tbl n)) (st_active st))"

definition ready_atoms :: "(string, scomp) pydict \<Rightarrow> (string, int) pydict \<Rightarrow> sched_state \<Rightarrow> atom list" where
  "ready_atoms tbl idx st = sort_key (atom_key idx) (ready_unsorted tbl st)"

definition all_settled :: "(string, scomp) pydict \<Rightarrow> sched_state \<Rightarrow> bool" where
  "all_settled tbl st \<longleftrightarrow> list_all (\<lambda>(n, c). n \<in> set (st_torn st)) tbl"

definition stuck_fibers :: "(string, scomp) pydict \<Rightarrow> sched_state \<Rightarrow> string list" where
  "stuck_fibers tbl st =
     (let latent = (\<lambda>k. available st k \<or> list_ex (\<lambda>(n, c). n \<notin> set (st_torn st) \<and> k \<in> set (sc_provides c)) tbl)
      in map fst (filter (\<lambda>(n, c). n \<notin> set (st_active st) \<and> n \<notin> set (st_torn st) \<and> \<not> list_all latent (sc_requires c)) tbl))"

definition provides_of :: "(string, scomp) pydict \<Rightarrow> string \<Rightarrow> string list" where
  "provides_of tbl n = (case map_of tbl n of None \<Rightarrow> [] | Some c \<Rightarrow> remdups (sc_provides c))"

definition mark_active :: "(string, scomp) pydict \<Rightarrow> string \<Rightarrow> sched_state \<Rightarrow> sched_state" where
  "mark_active tbl n st = st\<lparr>st_active := (if n \<in> set (st_active st) then st_active st else st_active st @ [n]),
     st_provided := fold (\<lambda>k d. AList.update k (dict_get d k 0 + 1) d) (provides_of tbl n) (st_provided st)\<rparr>"

definition mark_torn :: "(string, scomp) pydict \<Rightarrow> string \<Rightarrow> sched_state \<Rightarrow> sched_state" where
  "mark_torn tbl n st = st\<lparr>st_active := removeAll n (st_active st), st_torn := List.insert n (st_torn st),
     st_provided := fold (\<lambda>k d. if dict_get d k 0 \<noteq> 0 then AList.update k (dict_get d k 0 - 1) d else d)
       (provides_of tbl n) (st_provided st)\<rparr>"

fun perform_atom :: "(string, scomp) pydict \<Rightarrow> atom \<Rightarrow> sched_state \<Rightarrow> sched_state" where
  "perform_atom tbl (Activate n) st = mark_active tbl n st"
| "perform_atom tbl (Teardown n) st = mark_torn tbl n st"


subsection \<open>Choosers and the driver\<close>

text \<open>
  A chooser is the vector of indices it will read: the canonical one is empty, a replay is a recorded
  vector, and a seed's vector is what its generator returns.  An index past the end of the ready
  list is clamped to it, and an exhausted vector reads zero.
\<close>

fun pick :: "nat list \<Rightarrow> nat \<Rightarrow> nat \<times> nat list" where
  "pick [] n = (0, [])"
| "pick (c # cs) n = (min c (n - 1), cs)"

record schedule_result =
  sr_atoms :: "atom list"
  sr_choices :: "nat list"
  sr_turns :: nat
  sr_deadlock :: "string list"
  sr_capped :: bool
  sr_end :: sched_state

function drive_schedule :: "(string, scomp) pydict \<Rightarrow> (string, int) pydict \<Rightarrow> nat \<Rightarrow> nat list \<Rightarrow> schedule_result \<Rightarrow> schedule_result" where
  "drive_schedule tbl idx cap choices r =
     (let st = sr_end r; ready = ready_atoms tbl idx st in
      if ready = [] then
        (if all_settled tbl st then r
         else r\<lparr>sr_deadlock := (if stuck_fibers tbl st \<noteq> [] then stuck_fibers tbl st else st_active st)\<rparr>)
      else if sr_turns r \<ge> cap then r\<lparr>sr_capped := True\<rparr>
      else (let (i, rest) = pick choices (length ready); a = ready ! i in
        drive_schedule tbl idx cap rest
          (r\<lparr>sr_atoms := sr_atoms r @ [a], sr_choices := sr_choices r @ [i], sr_turns := Suc (sr_turns r),
             sr_end := perform_atom tbl a st\<rparr>)))"
  by pat_completeness auto
termination
  by (relation "measure (\<lambda>(tbl, idx, cap, choices, r). cap - sr_turns r)") auto

declare drive_schedule.simps [simp del]

definition start_result :: schedule_result where
  "start_result = \<lparr>sr_atoms = [], sr_choices = [], sr_turns = 0, sr_deadlock = [], sr_capped = False, sr_end = sched_start\<rparr>"

definition turn_cap :: "scomp list \<Rightarrow> nat" where
  "turn_cap cs = max 8 (4 * (length cs + 1))"

definition run_schedule :: "string list option \<Rightarrow> scomp list \<Rightarrow> nat \<Rightarrow> nat list \<Rightarrow> schedule_result" where
  "run_schedule manifest cs cap choices = drive_schedule (sc_table cs) (load_index (load_order manifest cs))
     (if cap = 0 then turn_cap cs else cap) choices start_result"


subsection \<open>Minimization of a choice vector\<close>

text \<open>The test of a candidate runs it; here it is a predicate.\<close>

fun drop_trailing :: "(nat list \<Rightarrow> bool) \<Rightarrow> nat list \<Rightarrow> nat list" where
  "drop_trailing fails [] = []"
| "drop_trailing fails (c # cs) = (if fails (butlast (c # cs)) then drop_trailing fails (butlast (c # cs)) else c # cs)"

definition zero_at :: "(nat list \<Rightarrow> bool) \<Rightarrow> nat \<Rightarrow> nat list \<Rightarrow> nat list" where
  "zero_at fails i cs = (if cs ! i = 0 then cs else if fails (cs[i := 0]) then cs[i := 0] else cs)"

definition zero_pass :: "(nat list \<Rightarrow> bool) \<Rightarrow> nat list \<Rightarrow> nat list" where
  "zero_pass fails cs = fold (zero_at fails) [0..<length cs] cs"

definition minimize_round :: "(nat list \<Rightarrow> bool) \<Rightarrow> nat list \<Rightarrow> nat list" where
  "minimize_round fails cs = zero_pass fails (drop_trailing fails cs)"

lemma zero_at_sum: "i < length cs \<Longrightarrow> length (zero_at fails i cs) = length cs \<and> sum_list (zero_at fails i cs) \<le> sum_list cs
    \<and> (zero_at fails i cs \<noteq> cs \<longrightarrow> sum_list (zero_at fails i cs) < sum_list cs)"
  using sum_list_update [of i cs 0] elem_le_sum_list [of i cs] by (auto simp: zero_at_def)

lemma zero_fold_sum:
  "\<forall>i \<in> set is. i < length cs \<Longrightarrow> length (fold (zero_at fails) is cs) = length cs \<and> sum_list (fold (zero_at fails) is cs) \<le> sum_list cs
    \<and> (fold (zero_at fails) is cs \<noteq> cs \<longrightarrow> sum_list (fold (zero_at fails) is cs) < sum_list cs)"
proof (induction "is" arbitrary: cs)
  case (Cons i "is")
  note z = zero_at_sum [of i cs fails]
  have "\<forall>j \<in> set is. j < length (zero_at fails i cs)" using Cons.prems z by simp
  note IH = Cons.IH [OF this]
  then show ?case using Cons.prems z by (cases "zero_at fails i cs = cs") auto
qed simp

lemma zero_pass_sum: "length (zero_pass fails cs) = length cs \<and> (zero_pass fails cs \<noteq> cs \<longrightarrow> sum_list (zero_pass fails cs) < sum_list cs)"
  using zero_fold_sum [of "[0..<length cs]" cs fails] by (simp add: zero_pass_def)

lemma drop_trailing_prefix: "\<exists>n. drop_trailing fails cs = take n cs"
proof (induction fails cs rule: drop_trailing.induct)
  case (2 fails c cs)
  show ?case
  proof (cases "fails (butlast (c # cs))")
    case True
    then obtain n where "drop_trailing fails (butlast (c # cs)) = take n (butlast (c # cs))" using 2 by blast
    then have "drop_trailing fails (c # cs) = take (min n (length cs)) (c # cs)"
      using True by (simp add: butlast_conv_take min.commute)
    then show ?thesis by blast
  next
    case False
    then have "drop_trailing fails (c # cs) = take (length (c # cs)) (c # cs)" by simp
    then show ?thesis by blast
  qed
qed simp

lemma sum_list_take_le: "sum_list (take n cs) \<le> sum_list (cs :: nat list)"
  by (metis append_take_drop_id le_add1 sum_list_append)

lemma minimize_round_less:
  "minimize_round fails cs \<noteq> cs \<Longrightarrow> length (minimize_round fails cs) + sum_list (minimize_round fails cs) < length cs + sum_list cs"
proof -
  assume ne: "minimize_round fails cs \<noteq> cs"
  obtain n where n: "drop_trailing fails cs = take n cs" using drop_trailing_prefix by blast
  show ?thesis
  proof (cases "take n cs = cs")
    case True
    then show ?thesis using zero_pass_sum [of fails cs] ne n by (simp add: minimize_round_def)
  next
    case False
    then have "length (take n cs) < length cs" by (simp add: not_less)
    moreover have "sum_list (zero_pass fails (take n cs)) \<le> sum_list (take n cs)"
      using zero_pass_sum [of fails "take n cs"] by (cases "zero_pass fails (take n cs) = take n cs") auto
    ultimately show ?thesis
      using zero_pass_sum [of fails "take n cs"] sum_list_take_le [of n cs] n by (simp add: minimize_round_def)
  qed
qed

function minimize :: "(nat list \<Rightarrow> bool) \<Rightarrow> nat list \<Rightarrow> nat list" where
  "minimize fails cs = (let next = minimize_round fails cs in if next = cs then cs else minimize fails next)"
  by pat_completeness auto
termination
  by (relation "measure (\<lambda>(fails, cs). length cs + sum_list cs)") (auto intro: minimize_round_less)

declare minimize.simps [simp del]

end
