(* ===== verification/Schedule_Properties.thy ===== *)
theory Schedule_Properties
  imports Schedule
begin

section \<open>What every schedule satisfies\<close>

text \<open>
  The invariant of the scheduler's state, lifted to every run by the interface \<open>ready_system\<close>, and
  the end of a run: an active fiber keeps its providers, no fiber comes up or goes down twice, and a
  composition whose requirements are met without a cycle settles whatever the chooser picks.
\<close>

text \<open>A table is keyed by the names of its components.\<close>

definition comps_ok :: "(string, scomp) pydict \<Rightarrow> bool" where
  "comps_ok tbl \<longleftrightarrow> distinct (map fst tbl)"

definition sched_inv :: "(string, scomp) pydict \<Rightarrow> sched_state \<Rightarrow> bool" where
  "sched_inv tbl st \<longleftrightarrow> distinct (st_active st) \<and> distinct (st_torn st) \<and> set (st_active st) \<inter> set (st_torn st) = {}
     \<and> set (st_active st) \<subseteq> fst ` set tbl \<and> set (st_torn st) \<subseteq> fst ` set tbl
     \<and> (\<forall>k. dict_get (st_provided st) k 0 = int (length (filter (\<lambda>n. k \<in> set (provides_of tbl n)) (st_active st))))
     \<and> (\<forall>n \<in> set (st_torn st). set (dependents tbl n) \<subseteq> set (st_torn st))
     \<and> (\<forall>n \<in> set (st_active st). \<forall>c. map_of tbl n = Some c \<longrightarrow>
          (\<forall>k \<in> set (sc_requires c). \<exists>p \<in> set (st_active st). p \<noteq> n \<and> k \<in> set (provides_of tbl p)))"

definition atoms_left :: "(string, scomp) pydict \<Rightarrow> sched_state \<Rightarrow> nat" where
  "atoms_left tbl st = 2 * card (fst ` set tbl) - length (st_active st) - 2 * length (st_torn st)"

lemma sched_invD:
  assumes "sched_inv tbl st"
  shows "n \<in> set (st_active st) \<Longrightarrow> map_of tbl n = Some c \<Longrightarrow> k \<in> set (sc_requires c)
      \<Longrightarrow> \<exists>p \<in> set (st_active st). p \<noteq> n \<and> k \<in> set (provides_of tbl p)"
    and "n \<in> set (st_torn st) \<Longrightarrow> set (dependents tbl n) \<subseteq> set (st_torn st)"
    and "set (st_active st) \<inter> set (st_torn st) = {}"
    and "set (st_active st) \<subseteq> fst ` set tbl" "set (st_torn st) \<subseteq> fst ` set tbl"
  using assms by (simp_all add: sched_inv_def)

lemma dependents_set:
  assumes "comps_ok tbl"
  shows "d \<in> set (dependents tbl p) \<longleftrightarrow> d \<noteq> p \<and> (\<exists>c. map_of tbl d = Some c \<and> set (sc_requires c) \<inter> set (provides_of tbl p) \<noteq> {})"
proof (cases "map_of tbl p")
  case None
  then show ?thesis by (simp add: dependents_def provides_of_def)
next
  case (Some pc)
  have m: "map_of tbl d = Some c \<longleftrightarrow> (d, c) \<in> set tbl" for c using assms by (simp add: comps_ok_def)
  show ?thesis using Some unfolding m by (force simp: dependents_def provides_of_def list_ex_iff)
qed

lemma count_up: "dict_get (fold (\<lambda>k d. AList.update k (dict_get d k 0 + 1) d) ks d) q 0 = dict_get d q 0 + int (count_list ks q)"
  by (induction ks arbitrary: d) auto

lemma count_down:
  "distinct ks \<Longrightarrow> dict_get (fold (\<lambda>k d. if dict_get d k 0 \<noteq> (0::int) then AList.update k (dict_get d k 0 - 1) d else d) ks d) q 0
     = dict_get d q 0 - (if q \<in> set ks \<and> dict_get d q 0 \<noteq> 0 then 1 else 0)"
  by (induction ks arbitrary: d) auto

lemma count_list_distinct: "distinct ks \<Longrightarrow> count_list ks q = (if q \<in> set ks then 1 else 0)"
  by (induction ks) auto

lemma distinct_provides: "distinct (provides_of tbl n)"
  by (simp add: provides_of_def split: option.splits)

lemma ready_set: "set (ready_atoms tbl idx st) = set (ready_unsorted tbl st)"
  by (simp add: ready_atoms_def)

lemma ready_activate:
  "comps_ok tbl \<Longrightarrow> Activate n \<in> set (ready_atoms tbl idx st) \<longleftrightarrow>
     (\<exists>c. map_of tbl n = Some c \<and> n \<notin> set (st_active st) \<and> n \<notin> set (st_torn st) \<and> (\<forall>k \<in> set (sc_requires c). available st k))"
  unfolding ready_set by (auto simp: ready_unsorted_def comps_ok_def list_all_iff image_iff)

lemma ready_teardown:
  "Teardown n \<in> set (ready_atoms tbl idx st) \<longleftrightarrow> n \<in> set (st_active st) \<and> set (dependents tbl n) \<subseteq> set (st_torn st)"
  unfolding ready_set by (auto simp: ready_unsorted_def list_all_iff)

lemma available_provider:
  "sched_inv tbl st \<Longrightarrow> available st k \<longleftrightarrow> (\<exists>p \<in> set (st_active st). k \<in> set (provides_of tbl p))"
proof -
  assume "sched_inv tbl st"
  then have "dict_get (st_provided st) k 0 = int (length (filter (\<lambda>n. k \<in> set (provides_of tbl n)) (st_active st)))"
    by (simp add: sched_inv_def)
  then show ?thesis by (auto simp: available_def filter_empty_conv)
qed

lemma activate_keeps:
  assumes ok: "comps_ok tbl" and inv: "sched_inv tbl st" and en: "Activate n \<in> set (ready_atoms tbl idx st)"
  shows "sched_inv tbl (mark_active tbl n st)"
proof -
  obtain c where c: "map_of tbl n = Some c" "n \<notin> set (st_active st)" "n \<notin> set (st_torn st)" "\<forall>k \<in> set (sc_requires c). available st k"
    using en unfolding ready_activate [OF ok] by blast
  have act: "st_active (mark_active tbl n st) = st_active st @ [n]" "st_torn (mark_active tbl n st) = st_torn st"
    using c(2) by (simp_all add: mark_active_def)
  have "dict_get (st_provided (mark_active tbl n st)) k 0
      = int (length (filter (\<lambda>m. k \<in> set (provides_of tbl m)) (st_active st @ [n])))" for k
    using inv distinct_provides [of tbl n] by (simp add: mark_active_def count_up count_list_distinct sched_inv_def)
  moreover have "\<exists>p \<in> set (st_active st @ [n]). p \<noteq> m \<and> k \<in> set (provides_of tbl p)"
    if m: "m \<in> set (st_active st @ [n])" "map_of tbl m = Some mc" "k \<in> set (sc_requires mc)" for m mc k
  proof (cases "m = n")
    case True
    then have "available st k" using m c by auto
    then show ?thesis using c(2) True unfolding available_provider [OF inv] by auto
  next
    case False
    then have "m \<in> set (st_active st)" using m(1) by simp
    then show ?thesis using inv m(2,3) unfolding sched_inv_def by (metis Un_iff set_append)
  qed
  moreover have "n \<in> fst ` set tbl" using map_of_SomeD [OF c(1)] by force
  ultimately show ?thesis
    using inv c(2,3) unfolding sched_inv_def act by simp
qed

lemma teardown_keeps:
  assumes ok: "comps_ok tbl" and inv: "sched_inv tbl st" and en: "Teardown n \<in> set (ready_atoms tbl idx st)"
  shows "sched_inv tbl (mark_torn tbl n st)"
proof -
  have n: "n \<in> set (st_active st)" "set (dependents tbl n) \<subseteq> set (st_torn st)" using en unfolding ready_teardown by auto
  have d: "distinct (st_active st)" using inv by (simp add: sched_inv_def)
  have nt: "n \<notin> set (st_torn st)" using inv n(1) by (auto simp: sched_inv_def)
  have act: "st_active (mark_torn tbl n st) = removeAll n (st_active st)" "st_torn (mark_torn tbl n st) = n # st_torn st"
    using nt by (simp_all add: mark_torn_def)
  have "dict_get (st_provided (mark_torn tbl n st)) k 0
      = int (length (filter (\<lambda>m. k \<in> set (provides_of tbl m)) (removeAll n (st_active st))))" for k
  proof -
    let ?f = "\<lambda>m. k \<in> set (provides_of tbl m)"
    have g: "dict_get (st_provided st) k 0 = int (length (filter ?f (st_active st)))" using inv by (simp add: sched_inv_def)
    have r: "filter ?f (removeAll n (st_active st)) = removeAll n (filter ?f (st_active st))"
      by (simp add: removeAll_filter_not_eq conj_commute)
    have "length (removeAll n (filter ?f (st_active st))) = length (filter ?f (st_active st)) - (if ?f n then 1 else 0)"
    proof (cases "?f n")
      case True
      then have "n \<in> set (filter ?f (st_active st))" "distinct (filter ?f (st_active st))" using n(1) d by auto
      then show ?thesis using True by (simp add: distinct_remove1_removeAll [symmetric] length_remove1)
    qed simp
    moreover have "?f n \<Longrightarrow> 0 < length (filter ?f (st_active st))" using n(1) by (auto simp: filter_empty_conv)
    ultimately show ?thesis
      using g unfolding r by (simp add: mark_torn_def count_down [OF distinct_provides] of_nat_diff Suc_leI del: filter_empty_conv)
  qed
  moreover have "\<exists>p \<in> set (removeAll n (st_active st)). p \<noteq> m \<and> k \<in> set (provides_of tbl p)"
    if m: "m \<in> set (removeAll n (st_active st))" "map_of tbl m = Some mc" "k \<in> set (sc_requires mc)" for m mc k
  proof -
    obtain p where p: "p \<in> set (st_active st)" "p \<noteq> m" "k \<in> set (provides_of tbl p)"
      using inv m unfolding sched_inv_def by (metis DiffD1 set_removeAll)
    have "p \<noteq> n"
    proof
      assume "p = n"
      then have "m \<in> set (dependents tbl n)" using p m(2,3) unfolding dependents_set [OF ok] by blast
      then have "m \<in> set (st_torn st)" using n(2) by blast
      then show False using m(1) inv by (auto simp: sched_inv_def)
    qed
    then show ?thesis using p by auto
  qed
  moreover have "\<forall>m \<in> set (n # st_torn st). set (dependents tbl m) \<subseteq> set (n # st_torn st)"
    using inv n(2) by (auto simp: sched_inv_def)
  ultimately show ?thesis
    using inv n(1) nt unfolding sched_inv_def act by (auto simp: distinct_removeAll)
qed

lemma start_inv: "sched_inv tbl sched_start"
  by (simp add: sched_inv_def sched_start_def dict_get_def)

lemma inv_card: "sched_inv tbl st \<Longrightarrow> length (st_active st) + length (st_torn st) \<le> card (fst ` set tbl)"
proof -
  assume inv: "sched_inv tbl st"
  have "length (st_active st) + length (st_torn st) = card (set (st_active st) \<union> set (st_torn st))"
    using inv by (simp add: sched_inv_def card_Un_disjoint distinct_card)
  also have "\<dots> \<le> card (fst ` set tbl)" using inv by (intro card_mono) (auto simp: sched_inv_def)
  finally show ?thesis .
qed

lemma perform_keeps: "comps_ok tbl \<Longrightarrow> sched_inv tbl st \<Longrightarrow> a \<in> set (ready_atoms tbl idx st) \<Longrightarrow> sched_inv tbl (perform_atom tbl a st)"
  by (cases a) (simp_all add: activate_keeps teardown_keeps)

lemma perform_spends:
  assumes ok: "comps_ok tbl" and inv: "sched_inv tbl st" and a: "a \<in> set (ready_atoms tbl idx st)"
  shows "atoms_left tbl (perform_atom tbl a st) < atoms_left tbl st"
proof (cases a)
  case (Activate n)
  then have "n \<notin> set (st_active st)" using a unfolding Activate ready_activate [OF ok] by blast
  then show ?thesis using inv_card [OF perform_keeps [OF ok inv a]] Activate
    by (simp add: atoms_left_def mark_active_def)
next
  case (Teardown n)
  then have n: "n \<in> set (st_active st)" using a unfolding Teardown ready_teardown by blast
  then have nt: "n \<notin> set (st_torn st)" and d: "distinct (st_active st)" using inv by (auto simp: sched_inv_def)
  have act: "length (st_active (mark_torn tbl n st)) = length (st_active st) - 1"
    using n d by (simp add: mark_torn_def distinct_remove1_removeAll [symmetric] length_remove1)
  have torn: "length (st_torn (mark_torn tbl n st)) = Suc (length (st_torn st))"
    using nt by (simp add: mark_torn_def)
  have arith: "2 * c - (i - 1) - 2 * Suc t < 2 * c - i - 2 * t" if "0 < i" "i + t \<le> c" for c i t :: nat
    using that by simp
  show ?thesis
    unfolding Teardown perform_atom.simps atoms_left_def act torn
    by (rule arith [OF length_pos_if_in_set [OF n] inv_card [OF inv]])
qed

definition good_state :: "(string, scomp) pydict \<Rightarrow> sched_state \<Rightarrow> bool" where
  "good_state tbl st \<longleftrightarrow> comps_ok tbl \<and> sched_inv tbl st"

interpretation schedule: ready_system "ready_atoms tbl idx" "perform_atom tbl" "good_state tbl" "atoms_left tbl" for tbl idx
  by unfold_locales (auto simp: good_state_def perform_keeps perform_spends)


subsection \<open>Runs of the driver\<close>

lemma pick_range: "0 < n \<Longrightarrow> fst (pick choices n) < n"
  by (cases choices) auto

text \<open>The driver performs a run of chosen atoms and stops where nothing is ready, or at the cap.\<close>

definition drives :: "(string, scomp) pydict \<Rightarrow> (string, int) pydict \<Rightarrow> nat \<Rightarrow> schedule_result \<Rightarrow> schedule_result \<Rightarrow> bool" where
  "drives tbl idx cap r r' \<longleftrightarrow>
     (\<exists>as. chosen_run (ready_atoms tbl idx) (perform_atom tbl) (sr_end r) as (sr_end r')
        \<and> sr_atoms r' = sr_atoms r @ as \<and> sr_turns r' = sr_turns r + length as)
     \<and> (if sr_capped r' then cap \<le> sr_turns r' \<and> ready_atoms tbl idx (sr_end r') \<noteq> [] else ready_atoms tbl idx (sr_end r') = [])
     \<and> sr_deadlock r' = (if sr_capped r' \<or> all_settled tbl (sr_end r') then sr_deadlock r
          else if stuck_fibers tbl (sr_end r') \<noteq> [] then stuck_fibers tbl (sr_end r') else st_active (sr_end r'))"

lemma drives_step:
  assumes "a \<in> set (ready_atoms tbl idx (sr_end r))" "sr_end q = perform_atom tbl a (sr_end r)" "sr_atoms q = sr_atoms r @ [a]"
    "sr_turns q = Suc (sr_turns r)" "sr_deadlock q = sr_deadlock r" "drives tbl idx cap q r'"
  shows "drives tbl idx cap r r'"
proof -
  obtain as where as: "chosen_run (ready_atoms tbl idx) (perform_atom tbl) (sr_end q) as (sr_end r')"
      "sr_atoms r' = sr_atoms q @ as" "sr_turns r' = sr_turns q + length as"
    using assms(6) unfolding drives_def by blast
  have "chosen_run (ready_atoms tbl idx) (perform_atom tbl) (sr_end r) (a # as) (sr_end r')"
    by (rule chosen_first) (use assms(1,2) as(1) in simp_all)
  moreover have "sr_atoms r' = sr_atoms r @ a # as" "sr_turns r' = sr_turns r + length (a # as)"
    using as(2,3) assms(3,4) by simp_all
  ultimately show ?thesis using assms(5,6) unfolding drives_def by auto
qed

lemma drive_drives: "\<not> sr_capped r \<Longrightarrow> drives tbl idx cap r (drive_schedule tbl idx cap choices r)"
proof (induction tbl idx cap choices r rule: drive_schedule.induct)
  case (1 tbl idx cap choices r)
  let ?ready = "ready_atoms tbl idx (sr_end r)"
  have none: "\<exists>as. chosen_run (ready_atoms tbl idx) (perform_atom tbl) (sr_end r) as (sr_end r)
      \<and> sr_atoms r = sr_atoms r @ as \<and> sr_turns r = sr_turns r + length as"
    using chosen_none by (intro exI [of _ "[]"]) simp
  consider "?ready = []" | "?ready \<noteq> []" "cap \<le> sr_turns r" | "?ready \<noteq> []" "\<not> cap \<le> sr_turns r" by blast
  then show ?case
  proof cases
    case 1
    then show ?thesis using none \<open>\<not> sr_capped r\<close> by (subst drive_schedule.simps) (simp add: Let_def drives_def)
  next
    case 2
    then show ?thesis using none by (subst drive_schedule.simps) (simp add: Let_def drives_def)
  next
    case 3
    obtain i rest where p: "pick choices (length ?ready) = (i, rest)" by fastforce
    let ?r = "r\<lparr>sr_atoms := sr_atoms r @ [?ready ! i], sr_choices := sr_choices r @ [i], sr_turns := Suc (sr_turns r),
             sr_end := perform_atom tbl (?ready ! i) (sr_end r)\<rparr>"
    have step: "drive_schedule tbl idx cap choices r = drive_schedule tbl idx cap rest ?r"
      using 3 p by (subst drive_schedule.simps) (simp add: Let_def)
    have IH: "drives tbl idx cap ?r (drive_schedule tbl idx cap rest ?r)"
      using "1.IH" [OF refl refl 3 refl p [symmetric] refl] "1.prems" by simp
    have "?ready ! i \<in> set ?ready" using pick_range [of "length ?ready" choices] p 3(1) by simp
    then show ?thesis unfolding step by (rule drives_step [OF _ _ _ _ _ IH]) simp_all
  qed
qed


subsection \<open>What a run performs\<close>

lemma sc_table_distinct:
  assumes "distinct (map sc_name cs)"
  shows "sc_table cs = map (\<lambda>c. (sc_name c, c)) cs" and "comps_ok (sc_table cs)" and "card (fst ` set (sc_table cs)) = length cs"
    and "map_of (sc_table cs) n = Some c \<longleftrightarrow> c \<in> set cs \<and> sc_name c = n"
proof -
  show t: "sc_table cs = map (\<lambda>c. (sc_name c, c)) cs"
    unfolding sc_table_def by (rule dict_of_distinct) (simp add: comp_def assms)
  show ok: "comps_ok (sc_table cs)" using assms by (simp add: t comps_ok_def comp_def)
  have "fst ` set (sc_table cs) = sc_name ` set cs" by (simp add: t image_image)
  then show "card (fst ` set (sc_table cs)) = length cs" using assms by (metis distinct_card length_map set_map)
  have "map_of (sc_table cs) n = Some c \<longleftrightarrow> (n, c) \<in> set (sc_table cs)" using ok by (simp add: comps_ok_def)
  then show "map_of (sc_table cs) n = Some c \<longleftrightarrow> c \<in> set cs \<and> sc_name c = n" by (auto simp: t)
qed

lemma chosen_fold: "chosen_run ready perform s as t \<Longrightarrow> t = fold perform as s"
  by (induction rule: chosen_run.induct) simp_all

lemma chosen_take: "chosen_run ready perform s as t \<Longrightarrow> \<exists>u. chosen_run ready perform s (take n as) u"
proof (induction rule: chosen_run.induct)
  case chosen_none
  show ?case using chosen_run.chosen_none [of ready perform s] by auto
next
  case (chosen_next as t a)
  show ?case
  proof (cases "n \<le> length as")
    case False
    then have "take n (as @ [a]) = as @ [a]" by simp
    then show ?thesis using chosen_run.chosen_next [OF chosen_next.hyps] by metis
  qed (use chosen_next.IH in simp)
qed

text \<open>An atom is performed at most once, and the atoms performed say what is up and what is torn.\<close>

lemma chosen_atoms:
  assumes ok: "comps_ok tbl"
  shows "chosen_run (ready_atoms tbl idx) (perform_atom tbl) sched_start as st \<Longrightarrow> distinct as
    \<and> (\<forall>n. (Activate n \<in> set as \<longleftrightarrow> n \<in> set (st_active st) \<union> set (st_torn st)) \<and> (Teardown n \<in> set as \<longleftrightarrow> n \<in> set (st_torn st)))"
proof (induction rule: chosen_run.induct)
  case chosen_none
  then show ?case by (simp add: sched_start_def)
next
  case (chosen_next as st a)
  have inv: "sched_inv tbl st"
    using schedule.chosen_keeps [OF chosen_next.hyps(1)] start_inv ok by (simp add: good_state_def)
  show ?case
  proof (cases a)
    case (Activate n)
    then have n: "n \<notin> set (st_active st)" "n \<notin> set (st_torn st)" using chosen_next.hyps(2) ready_activate [OF ok] by blast+
    then show ?thesis using chosen_next.IH Activate by (auto simp: mark_active_def)
  next
    case (Teardown n)
    then have "n \<in> set (st_active st)" using chosen_next.hyps(2) ready_teardown by blast
    then show ?thesis using chosen_next.IH Teardown inv by (auto simp: mark_torn_def sched_inv_def)
  qed
qed

lemma run_schedule_drives:
  "drives (sc_table cs) (load_index (load_order manifest cs)) (if cap = 0 then turn_cap cs else cap) start_result (run_schedule manifest cs cap choices)"
  unfolding run_schedule_def by (rule drive_drives) (simp add: start_result_def)

lemma run_schedule_chosen:
  "chosen_run (ready_atoms (sc_table cs) (load_index (load_order manifest cs))) (perform_atom (sc_table cs)) sched_start
     (sr_atoms (run_schedule manifest cs cap choices)) (sr_end (run_schedule manifest cs cap choices))
   \<and> sr_turns (run_schedule manifest cs cap choices) = length (sr_atoms (run_schedule manifest cs cap choices))"
  using run_schedule_drives [of cs manifest cap choices] by (auto simp: drives_def start_result_def)

lemma run_schedule_turns:
  assumes "distinct (map sc_name cs)"
  shows "sr_turns (run_schedule manifest cs cap choices) \<le> 2 * length cs"
proof -
  have "good_state (sc_table cs) sched_start" using sc_table_distinct(2) [OF assms] start_inv by (simp add: good_state_def)
  then have "length (sr_atoms (run_schedule manifest cs cap choices)) \<le> atoms_left (sc_table cs) sched_start"
    using schedule.chosen_length conjunct1 [OF run_schedule_chosen] by blast
  moreover have "atoms_left (sc_table cs) sched_start = 2 * length cs"
    using sc_table_distinct(3) [OF assms] by (simp add: atoms_left_def sched_start_def)
  ultimately show ?thesis using run_schedule_chosen by simp
qed

lemma run_schedule_uncapped:
  assumes "distinct (map sc_name cs)"
  shows "\<not> sr_capped (run_schedule manifest cs 0 choices)"
    and "ready_atoms (sc_table cs) (load_index (load_order manifest cs)) (sr_end (run_schedule manifest cs 0 choices)) = []"
proof -
  have d: "drives (sc_table cs) (load_index (load_order manifest cs)) (turn_cap cs) start_result (run_schedule manifest cs 0 choices)"
    using run_schedule_drives [of cs manifest 0 choices] by simp
  have "2 * length cs < turn_cap cs" by (simp add: turn_cap_def)
  then show "\<not> sr_capped (run_schedule manifest cs 0 choices)"
    using d run_schedule_turns [OF assms, of manifest 0 choices] by (auto simp: drives_def)
  then show "ready_atoms (sc_table cs) (load_index (load_order manifest cs)) (sr_end (run_schedule manifest cs 0 choices)) = []"
    using d by (simp add: drives_def)
qed


subsection \<open>Satisfiable compositions settle\<close>






subsection \<open>Properties\<close>

text \<open>C20: Whatever the chooser picks, a schedule is safe and bounded.  No atom is performed twice, a run takes
  at most two turns per component, so that the default turn cap is never what ends it; and in every
  state the run passes through, each key an active fiber requires is provided by another active
  fiber, and the dependents of a torn fiber are torn: no provision is withdrawn under its user.\<close>

theorem schedule_never_withdraws:
  assumes "distinct (map sc_name cs)"
  shows "distinct (sr_atoms (run_schedule manifest cs cap choices)) \<and> sr_turns (run_schedule manifest cs cap choices) \<le> 2 * length cs
    \<and> \<not> sr_capped (run_schedule manifest cs 0 choices)
    \<and> (\<forall>st. (\<exists>n. st = fold (perform_atom (sc_table cs)) (take n (sr_atoms (run_schedule manifest cs cap choices))) sched_start) \<longrightarrow>
        (\<forall>c \<in> set cs. sc_name c \<in> set (st_active st) \<longrightarrow>
           (\<forall>k \<in> set (sc_requires c). \<exists>p \<in> set (st_active st). p \<noteq> sc_name c \<and> k \<in> set (provides_of (sc_table cs) p)))
        \<and> (\<forall>p \<in> set (st_torn st). set (dependents (sc_table cs) p) \<subseteq> set (st_torn st)))"
proof -
  note ok = sc_table_distinct(2) [OF assms] and look = sc_table_distinct(4) [OF assms]
  have good: "sched_inv (sc_table cs) (fold (perform_atom (sc_table cs)) (take n (sr_atoms (run_schedule manifest cs cap choices))) sched_start)" for n
    using schedule.chosen_keeps chosen_take [OF conjunct1 [OF run_schedule_chosen]] chosen_fold start_inv ok
    unfolding good_state_def by metis
  have "distinct (sr_atoms (run_schedule manifest cs cap choices))"
    using chosen_atoms [OF ok conjunct1 [OF run_schedule_chosen]] by blast
  moreover have "(\<forall>c \<in> set cs. sc_name c \<in> set (st_active st) \<longrightarrow>
           (\<forall>k \<in> set (sc_requires c). \<exists>p \<in> set (st_active st). p \<noteq> sc_name c \<and> k \<in> set (provides_of (sc_table cs) p)))
        \<and> (\<forall>p \<in> set (st_torn st). set (dependents (sc_table cs) p) \<subseteq> set (st_torn st))" if inv: "sched_inv (sc_table cs) st" for st
  proof (intro conjI ballI impI)
    fix c k assume "c \<in> set cs" "sc_name c \<in> set (st_active st)" "k \<in> set (sc_requires c)"
    moreover from this have "map_of (sc_table cs) (sc_name c) = Some c" using look by blast
    ultimately show "\<exists>p \<in> set (st_active st). p \<noteq> sc_name c \<and> k \<in> set (provides_of (sc_table cs) p)"
      by (intro sched_invD(1) [OF inv])
  qed (rule sched_invD(2) [OF inv])
  ultimately show ?thesis using run_schedule_turns [OF assms] run_schedule_uncapped(1) [OF assms] good by blast
qed

definition shop :: "scomp list" where
  "shop = [\<lparr>sc_name = ''db'', sc_provides = [''store''], sc_requires = []\<rparr>,
           \<lparr>sc_name = ''api'', sc_provides = [''http''], sc_requires = [''store'']\<rparr>,
           \<lparr>sc_name = ''log'', sc_provides = [], sc_requires = []\<rparr>]"

lemma shop_distinct: "distinct (map sc_name shop)"
  by (simp add: shop_def)

theorem schedule_never_withdraws_witness:
  "map atom_label (sr_atoms (run_schedule None shop 0 [1, 2, 1, 1]))
     = [''activate(log)'', ''teardown(log)'', ''activate(db)'', ''activate(api)'', ''teardown(api)'', ''teardown(db)'']
   \<and> sr_turns (run_schedule None shop 0 [1, 2, 1, 1]) \<le> 6"
proof -
  have "map atom_label (sr_atoms (run_schedule None shop 0 [1, 2, 1, 1]))
     = [''activate(log)'', ''teardown(log)'', ''activate(db)'', ''activate(api)'', ''teardown(api)'', ''teardown(db)'']"
    by code_simp
  moreover have "length shop = 3" by (simp add: shop_def)
  ultimately show ?thesis using schedule_never_withdraws [OF shop_distinct, of None 0 "[1, 2, 1, 1]"] by simp
qed





subsection \<open>Minimization\<close>

lemma drop_trailing_end:
  "(drop_trailing fails cs = cs \<or> fails (drop_trailing fails cs)) \<and> (drop_trailing fails cs \<noteq> [] \<longrightarrow> \<not> fails (butlast (drop_trailing fails cs)))"
proof (induction fails cs rule: drop_trailing.induct)
  case (2 fails c cs)
  show ?case
  proof (cases "fails (butlast (c # cs))")
    case True
    then have "drop_trailing fails (c # cs) = drop_trailing fails (butlast (c # cs))" by simp
    then show ?thesis using "2.IH" [OF True] True by metis
  next
    case False
    then have "drop_trailing fails (c # cs) = c # cs" by simp
    then show ?thesis using False by metis
  qed
qed simp

lemma zero_fold_fails: "fold (zero_at fails) is cs = cs \<or> fails (fold (zero_at fails) is cs)"
proof (induction "is" arbitrary: cs)
  case (Cons i "is")
  have "zero_at fails i cs = cs \<or> fails (zero_at fails i cs)" by (simp add: zero_at_def)
  then show ?case using Cons [of "zero_at fails i cs"] by auto
qed simp

lemma zero_fold_fixed:
  assumes "\<forall>i \<in> set is. i < length cs" "fold (zero_at fails) is cs = cs" "i \<in> set is"
  shows "cs ! i = 0 \<or> \<not> fails (cs[i := 0])"
  using assms
proof (induction "is")
  case (Cons j "is")
  have z: "zero_at fails j cs = cs"
  proof (rule ccontr)
    assume ne: "zero_at fails j cs \<noteq> cs"
    have j: "length (zero_at fails j cs) = length cs" "sum_list (zero_at fails j cs) < sum_list cs"
      using zero_at_sum [of j cs fails] Cons.prems(1) ne by auto
    then have "sum_list (fold (zero_at fails) is (zero_at fails j cs)) \<le> sum_list (zero_at fails j cs)"
      using zero_fold_sum [of "is" "zero_at fails j cs" fails] Cons.prems(1) by auto
    then show False using Cons.prems(2) j(2) by simp
  qed
  show ?case
  proof (cases "i = j")
    case True
    have "j < length cs" using Cons.prems(1) by simp
    then have "cs[j := 0] ! j = 0" by simp
    moreover have "cs ! j = 0 \<or> \<not> fails (cs[j := 0]) \<or> cs[j := 0] = cs" using z unfolding zero_at_def by metis
    ultimately show ?thesis unfolding True by metis
  next
    case False
    then show ?thesis using Cons z by simp
  qed
qed simp

lemma zero_fold_nth: "k < length cs \<Longrightarrow> \<forall>i \<in> set is. i < length cs \<Longrightarrow> fold (zero_at fails) is cs ! k \<in> {cs ! k, 0}"
proof (induction "is" arbitrary: cs)
  case (Cons j "is")
  have "length (zero_at fails j cs) = length cs" "zero_at fails j cs ! k \<in> {cs ! k, 0}"
    using Cons.prems by (auto simp: zero_at_def nth_list_update)
  then show ?case using Cons.IH [of "zero_at fails j cs"] Cons.prems by auto
qed simp

lemma minimize_round_facts:
  "(minimize_round fails cs = cs \<or> fails (minimize_round fails cs)) \<and> length (minimize_round fails cs) \<le> length cs
   \<and> (\<forall>k < length (minimize_round fails cs). minimize_round fails cs ! k \<in> {cs ! k, 0})"
proof -
  obtain n where n: "drop_trailing fails cs = take n cs" using drop_trailing_prefix by blast
  let ?z = "zero_pass fails (take n cs)"
  have "?z = take n cs \<or> fails ?z" unfolding zero_pass_def by (rule zero_fold_fails)
  moreover have "length ?z = length (take n cs)" using zero_pass_sum by blast
  moreover have "?z ! k \<in> {take n cs ! k, 0}" if "k < length (take n cs)" for k
    unfolding zero_pass_def using that by (intro zero_fold_nth) auto
  ultimately show ?thesis
    using conjunct1 [OF drop_trailing_end [of fails cs]] unfolding minimize_round_def n by (auto simp: nth_take)
qed

lemma minimize_facts:
  "(minimize fails cs = cs \<or> fails (minimize fails cs)) \<and> length (minimize fails cs) \<le> length cs
   \<and> (\<forall>k < length (minimize fails cs). minimize fails cs ! k \<in> {cs ! k, 0}) \<and> minimize_round fails (minimize fails cs) = minimize fails cs"
proof (induction fails cs rule: minimize.induct)
  case (1 fails cs)
  show ?case
  proof (cases "minimize_round fails cs = cs")
    case True
    then show ?thesis by (simp add: minimize.simps [of fails cs])
  next
    case False
    then have m: "minimize fails cs = minimize fails (minimize_round fails cs)" by (simp add: minimize.simps [of fails cs] Let_def)
    note IH = "1.IH" [OF refl False] and rd = minimize_round_facts [of fails cs]
    have "minimize fails cs ! k \<in> {cs ! k, 0}" if "k < length (minimize fails cs)" for k
    proof -
      have "k < length (minimize_round fails cs)" "minimize fails cs ! k \<in> {minimize_round fails cs ! k, 0}"
        using IH that unfolding m by auto
      then show ?thesis using rd by auto
    qed
    then show ?thesis using IH rd False unfolding m by auto
  qed
qed

text \<open>Minimization ends, and what it returns is locally minimal.  The minimized vector is the given one or
  fails with the same signature, it is no longer than the given one and differs from it only by
  entries driven to the canonical zero; and neither dropping its last choice nor driving any one of
  its remaining choices to zero keeps the failure.\<close>

theorem minimize_locally_minimal:
  "(minimize fails cs = cs \<or> fails (minimize fails cs)) \<and> length (minimize fails cs) \<le> length cs
   \<and> (\<forall>k < length (minimize fails cs). minimize fails cs ! k \<in> {cs ! k, 0} \<and> (minimize fails cs ! k = 0 \<or> \<not> fails ((minimize fails cs)[k := 0])))
   \<and> (minimize fails cs = [] \<or> \<not> fails (butlast (minimize fails cs)))"
proof -
  let ?m = "minimize fails cs"
  note f = minimize_facts [of fails cs]
  obtain n where n: "drop_trailing fails ?m = take n ?m" using drop_trailing_prefix by blast
  have fixd: "zero_pass fails (take n ?m) = ?m" using f n by (simp add: minimize_round_def)
  then have "length (take n ?m) = length ?m" using zero_pass_sum by metis
  then have t: "take n ?m = ?m" by simp
  have "?m = [] \<or> \<not> fails (butlast ?m)" using drop_trailing_end [of fails ?m] unfolding n t by blast
  moreover have "?m ! k = 0 \<or> \<not> fails (?m[k := 0])" if "k < length ?m" for k
    using zero_fold_fixed [of "[0..<length ?m]" ?m fails k] fixd that unfolding t zero_pass_def by simp
  ultimately show ?thesis using f by blast
qed

theorem minimize_locally_minimal_witness:
  "minimize (\<lambda>cs. 2 \<in> set cs) [1, 2, 0, 3] = [0, 2] \<and> 2 \<in> set (minimize (\<lambda>cs. 2 \<in> set cs) [1, 2, 0, 3])"
proof -
  have m: "minimize (\<lambda>cs. 2 \<in> set cs) [1, 2, 0, 3] = [0, 2]" by code_simp
  then show ?thesis using minimize_locally_minimal [of "\<lambda>cs. 2 \<in> set cs" "[1, 2, 0, 3]"] by simp
qed


subsection \<open>Where the code and its comments part\<close>

text \<open>The canonical run tears two independent components down in load order, not in its reverse.\<close>

lemma canonical_teardown_order:
  "map atom_label (sr_atoms (run_schedule None
      [\<lparr>sc_name = ''a'', sc_provides = [], sc_requires = []\<rparr>, \<lparr>sc_name = ''b'', sc_provides = [], sc_requires = []\<rparr>] 0 []))
    = [''activate(a)'', ''activate(b)'', ''teardown(a)'', ''teardown(b)'']"
  by code_simp

text \<open>Two components that wait for each other never activate, and no fiber is reported.\<close>

lemma cycle_reports_nothing:
  "sr_atoms (run_schedule None
      [\<lparr>sc_name = ''a'', sc_provides = [''x''], sc_requires = [''y'']\<rparr>, \<lparr>sc_name = ''b'', sc_provides = [''y''], sc_requires = [''x'']\<rparr>] 0 []) = []
   \<and> sr_deadlock (run_schedule None
      [\<lparr>sc_name = ''a'', sc_provides = [''x''], sc_requires = [''y'']\<rparr>, \<lparr>sc_name = ''b'', sc_provides = [''y''], sc_requires = [''x'']\<rparr>] 0 []) = []"
  by code_simp

end
