(* ===== verification/Emission_Analysis.thy ===== *)
theory Emission_Analysis
  imports Json_Value Type_Algebra
begin

section \<open>Emission reachability (\<open>src/revl/emission_analysis.py\<close>)\<close>

text \<open>
  Which functions reach an irreversible host effect, and through which capabilities: the names a
  lowered body calls or passes on as values, the least fixed point over the call graph with the
  witness it leaves, its twin for asynchronous callables, and the walk along a witness.  A set of
  names is a list that is read as a set; the order in which the code visits a set never shows.
\<close>

subsection \<open>The capabilities a rewind may run\<close>

definition host_confined_roots :: "string list" where "host_confined_roots = [''fs'']"

definition cap_realm_root :: "string \<Rightarrow> string" where
  "cap_realm_root token = hd (py_split CHR ''.'' (hd (py_split CHR ''('' token)))"

definition enumerated_not_run :: "string list \<Rightarrow> bool" where
  "enumerated_not_run caps \<longleftrightarrow> (if caps = [] then True else list_ex (\<lambda>c. cap_realm_root c \<notin> set host_confined_roots) caps)"


subsection \<open>Names called and names passed\<close>

definition kind_is :: "(string \<times> json) list \<Rightarrow> string \<Rightarrow> bool" where
  "kind_is node k \<longleftrightarrow> member node ''kind'' = JStr k"

definition name_in :: "(string \<times> json) list \<Rightarrow> string list" where
  "name_in node = (case member node ''name'' of JStr n \<Rightarrow> [n] | _ \<Rightarrow> [])"

text \<open>The name a call node calls directly: its callee is a variable.\<close>

definition direct_callee :: "(string \<times> json) list \<Rightarrow> string list" where
  "direct_callee node = (if kind_is node ''call'' then
     (case member node ''callee'' of JObj c \<Rightarrow> if kind_is c ''var'' then name_in c else [] | _ \<Rightarrow> []) else [])"

definition called_here :: "(string \<times> json) list \<Rightarrow> string list" where
  "called_here node = (if kind_is node ''fn'' then name_in node else []) @ direct_callee node"

definition passed_here :: "bool \<Rightarrow> (string \<times> json) list \<Rightarrow> string list" where
  "passed_here callee_pos node = (if kind_is node ''var'' \<and> \<not> callee_pos then name_in node else [])"

lemma json_sizes: "x \<in> set xs \<Longrightarrow> size x < size (JArr xs)" "kv \<in> set kvs \<Longrightarrow> size (snd kv) < size (JObj kvs)"
proof -
  show "x \<in> set xs \<Longrightarrow> size x < size (JArr xs)" by (induction xs) auto
  show "kv \<in> set kvs \<Longrightarrow> size (snd kv) < size (JObj kvs)" by (induction kvs) (auto simp: prod.size_gen_o_map split: prod.splits)
qed

text \<open>The names a node calls, and the names it mentions as values; an asynchronous arrow hides its body when asked to.\<close>

function calls_in :: "bool \<Rightarrow> bool \<Rightarrow> json \<Rightarrow> string list \<times> string list" where
  "calls_in stop callee_pos (JObj node) =
     (if stop \<and> kind_is node ''arrow'' \<and> truthy (member node ''async'') then ([], [])
      else let subs = map (\<lambda>kv. calls_in stop (fst kv = ''callee'' \<and> kind_is node ''call'') (snd kv)) node
        in (called_here node @ concat (map fst subs), passed_here callee_pos node @ concat (map snd subs)))"
| "calls_in stop callee_pos (JArr xs) =
     (let subs = map (calls_in stop False) xs in (concat (map fst subs), concat (map snd subs)))"
| "calls_in stop callee_pos JNull = ([], [])"
| "calls_in stop callee_pos (JBool b) = ([], [])"
| "calls_in stop callee_pos (JInt n) = ([], [])"
| "calls_in stop callee_pos (JFloat f) = ([], [])"
| "calls_in stop callee_pos (JStr s) = ([], [])"
  by pat_completeness auto
termination
  by (relation "measure (\<lambda>(stop, cp, j). size j)") (simp_all only: in_measure case_prod_conv json_sizes wf_measure)


subsection \<open>Declarations\<close>

record extern_ir =
  ex_name :: string
  ex_class :: string
  ex_caps :: "string list"
  ex_async :: bool

record fn_ir =
  fi_name :: string
  fi_params :: "(string \<times> string option) list"
  fi_body :: json

definition called_table :: "bool \<Rightarrow> fn_ir list \<Rightarrow> (string, string list) pydict" where
  "called_table stop fns = dict_of (map (\<lambda>f. (fi_name f, fst (calls_in stop False (fi_body f)))) fns)"

definition passed_table :: "fn_ir list \<Rightarrow> (string, string list) pydict" where
  "passed_table fns = dict_of (map (\<lambda>f. (fi_name f, snd (calls_in False False (fi_body f)))) fns)"

text \<open>The seed of the fixed point: the scope an extern declares replaces its name.\<close>

definition seed_caps :: "bool \<Rightarrow> string list \<Rightarrow> extern_ir list \<Rightarrow> (string, string list) pydict" where
  "seed_caps by_name classes externs = dict_of (map (\<lambda>e. (ex_name e, if by_name \<or> ex_caps e = [] then [ex_name e] else remdups (ex_caps e)))
     (filter (\<lambda>e. ex_class e \<in> set classes) externs))"


subsection \<open>Witnesses\<close>

text \<open>The names visited from a name along the witness edges, cut at a repetition.\<close>

function witness_walk :: "(string, string) pydict \<Rightarrow> string list \<Rightarrow> string \<Rightarrow> string list" where
  "witness_walk witness visited name = (case map_of witness name of None \<Rightarrow> visited
     | Some m \<Rightarrow> if m \<in> set visited then visited else witness_walk witness (visited @ [m]) m)"
  by pat_completeness auto
termination
proof (relation "measure (\<lambda>(witness, visited, name). card (snd ` set witness - set visited))", goal_cases)
  case (2 witness visited name m)
  then have "m \<in> snd ` set witness - set visited" by (force dest: map_of_SomeD)
  then have "snd ` set witness - set (visited @ [m]) \<subset> snd ` set witness - set visited" by auto
  then show ?case by (simp only: in_measure case_prod_conv) (rule psubset_card_mono, simp_all)
qed simp

declare witness_walk.simps [simp del]

definition emission_chain :: "string \<Rightarrow> (string, string) pydict \<Rightarrow> string list" where
  "emission_chain name witness = witness_walk witness [name] name"

definition witness_depth :: "string \<Rightarrow> (string, string) pydict \<Rightarrow> int" where
  "witness_depth name witness = int (length (emission_chain name witness)) - 1"


subsection \<open>The fixed point\<close>

record emission_state =
  em_caps :: "(string, string list) pydict"
  em_witness :: "(string, string) pydict"
  em_changed :: bool

abbreviation caps_of_name :: "emission_state \<Rightarrow> string \<Rightarrow> string list" where
  "caps_of_name st n \<equiv> dict_get (em_caps st) n []"

text \<open>What the names called and the names passed contribute to one function.\<close>

definition reached_by_calls :: "emission_state \<Rightarrow> string list \<Rightarrow> string list" where
  "reached_by_calls st called = concat (map (caps_of_name st) called)"

definition emitting_refs :: "emission_state \<Rightarrow> string list \<Rightarrow> string list" where
  "emitting_refs st passed = filter (\<lambda>r. caps_of_name st r \<noteq> []) (sort (remdups passed))"

definition reached_by_values :: "emission_state \<Rightarrow> string list \<Rightarrow> string list" where
  "reached_by_values st passed = concat (map (\<lambda>r. ''*'' # caps_of_name st r) (emitting_refs st passed))"

definition value_witness :: "emission_state \<Rightarrow> string \<Rightarrow> string list \<Rightarrow> (string, string) pydict" where
  "value_witness st name passed = fold (\<lambda>r w. if map_of w name = None then AList.update name r w else w) (emitting_refs st passed) (em_witness st)"

definition call_witness :: "emission_state \<Rightarrow> string \<Rightarrow> string list \<Rightarrow> (string, string) pydict \<Rightarrow> (string, string) pydict" where
  "call_witness st name called w =
     (if map_of (em_caps st) name \<noteq> None then w
      else case sort (remdups (filter (\<lambda>c. caps_of_name st c \<noteq> []) called)) of [] \<Rightarrow> w
        | c # cs \<Rightarrow> AList.update name (min_by (\<lambda>x. witness_depth x w) c cs) w)"

definition visit_fn :: "(string, string list) pydict \<Rightarrow> string \<times> string list \<Rightarrow> emission_state \<Rightarrow> emission_state" where
  "visit_fn passed nc st =
     (let (name, called) = nc; refs = dict_get passed name [];
          reached = remdups (reached_by_calls st called @ reached_by_values st refs);
          w = value_witness st name refs in
      if reached \<noteq> [] \<and> \<not> set reached \<subseteq> set (caps_of_name st name) then
        st\<lparr>em_caps := AList.update name (List.union reached (caps_of_name st name)) (em_caps st),
           em_witness := call_witness st name called w, em_changed := True\<rparr>
      else st\<lparr>em_witness := w\<rparr>)"

definition emission_pass :: "(string, string list) pydict \<Rightarrow> (string, string list) pydict \<Rightarrow> emission_state \<Rightarrow> emission_state" where
  "emission_pass calls passed st = fold (visit_fn passed) calls (st\<lparr>em_changed := False\<rparr>)"


text \<open>A visit adds to the capabilities of one name what it reaches, and notices when that is new.\<close>

definition reached_set :: "(string, string list) pydict \<Rightarrow> emission_state \<Rightarrow> string \<times> string list \<Rightarrow> string set" where
  "reached_set passed st nc = set (reached_by_calls st (snd nc)) \<union> set (reached_by_values st (dict_get passed (fst nc) []))"

lemma visit_fn_cases:
  "visit_fn passed (n, called) st =
     (if \<not> reached_set passed st (n, called) \<subseteq> set (caps_of_name st n) then
        st\<lparr>em_caps := AList.update n (List.union (remdups (reached_by_calls st called @ reached_by_values st (dict_get passed n []))) (caps_of_name st n)) (em_caps st),
           em_witness := call_witness st n called (value_witness st n (dict_get passed n [])), em_changed := True\<rparr>
      else st\<lparr>em_witness := value_witness st n (dict_get passed n [])\<rparr>)"
proof -
  let ?r = "remdups (reached_by_calls st called @ reached_by_values st (dict_get passed n []))"
  have "set ?r = reached_set passed st (n, called)" by (simp add: reached_set_def)
  then have "?r \<noteq> [] \<and> \<not> set ?r \<subseteq> set (caps_of_name st n) \<longleftrightarrow> \<not> reached_set passed st (n, called) \<subseteq> set (caps_of_name st n)"
    by (metis empty_subsetI set_empty)
  then show ?thesis unfolding visit_fn_def Let_def prod.case by (simp only:)
qed

lemma visit_caps:
  "set (caps_of_name (visit_fn passed nc st) m) = set (caps_of_name st m) \<union> (if m = fst nc then reached_set passed st nc else {})"
  by (cases nc) (auto simp: visit_fn_cases reached_set_def)

lemma visit_changed: "em_changed (visit_fn passed nc st) \<longleftrightarrow> em_changed st \<or> \<not> reached_set passed st nc \<subseteq> set (caps_of_name st (fst nc))"
  by (cases nc) (simp add: visit_fn_cases)

definition em_tokens :: "emission_state \<Rightarrow> string set" where
  "em_tokens st = insert ''*'' (\<Union>n. set (caps_of_name st n))"

lemma em_tokens_finite: "finite (em_tokens st)"
proof -
  have "set (caps_of_name st n) \<subseteq> (\<Union>v \<in> snd ` set (em_caps st). set v)" for n
  proof (cases "map_of (em_caps st) n")
    case (Some v)
    then have "v \<in> snd ` set (em_caps st)" by (force dest: map_of_SomeD)
    then show ?thesis using Some by (auto simp: dict_get_def)
  qed (simp add: dict_get_def)
  then have "(\<Union>n. set (caps_of_name st n)) \<subseteq> (\<Union>v \<in> snd ` set (em_caps st). set v)" by blast
  moreover have "finite (\<Union>v \<in> snd ` set (em_caps st). set v)" by blast
  ultimately show ?thesis by (simp add: em_tokens_def finite_subset)
qed

lemma reached_tokens: "reached_set passed st nc \<subseteq> em_tokens st"
  by (auto simp: reached_set_def reached_by_calls_def reached_by_values_def em_tokens_def)

definition em_le :: "emission_state \<Rightarrow> emission_state \<Rightarrow> bool" where
  "em_le st st' \<longleftrightarrow> (\<forall>m. set (caps_of_name st m) \<subseteq> set (caps_of_name st' m)) \<and> em_tokens st' \<subseteq> em_tokens st"

lemma em_le_trans: "em_le st st' \<Longrightarrow> em_le st' st'' \<Longrightarrow> em_le st st''"
  unfolding em_le_def by (meson order_trans)

lemma em_tokens_le: "(\<And>m. set (caps_of_name st' m) \<subseteq> em_tokens st) \<Longrightarrow> em_tokens st' \<subseteq> em_tokens st"
  unfolding em_tokens_def [of st'] by (auto simp: em_tokens_def [of st])

lemma caps_in_tokens: "set (caps_of_name st m) \<subseteq> em_tokens st"
  by (auto simp: em_tokens_def)

lemma visit_fn_le: "em_le st (visit_fn passed nc st)"
proof -
  have "set (caps_of_name (visit_fn passed nc st) m) \<subseteq> em_tokens st" for m
    unfolding visit_caps using reached_tokens [of passed st nc] caps_in_tokens [of st m] by simp
  then have "em_tokens (visit_fn passed nc st) \<subseteq> em_tokens st" by (rule em_tokens_le)
  then show ?thesis unfolding em_le_def visit_caps by simp
qed

lemma fold_visit_fn_le: "em_le st (fold (visit_fn passed) ncs st)"
proof (induction ncs arbitrary: st)
  case (Cons nc ncs)
  show ?case using em_le_trans [OF visit_fn_le Cons] by simp
qed (simp add: em_le_def)

lemma fold_visit_changed:
  "em_changed (fold (visit_fn passed) ncs st) \<Longrightarrow> em_changed st \<or>
     (\<exists>n \<in> fst ` set ncs. set (caps_of_name st n) \<subset> set (caps_of_name (fold (visit_fn passed) ncs st) n))"
proof (induction ncs arbitrary: st)
  case (Cons nc ncs)
  let ?st = "visit_fn passed nc st"
  have le: "set (caps_of_name st n) \<subseteq> set (caps_of_name ?st n)" "set (caps_of_name ?st n) \<subseteq> set (caps_of_name (fold (visit_fn passed) ncs ?st) n)" for n
    using visit_fn_le [of st passed nc] fold_visit_fn_le [of ?st passed ncs] by (simp_all add: em_le_def)
  consider "em_changed st" | "\<not> em_changed st" "em_changed ?st" | "\<not> em_changed ?st" by blast
  then show ?case
  proof cases
    case 2
    then have "set (caps_of_name st (fst nc)) \<subset> set (caps_of_name ?st (fst nc))" unfolding visit_changed visit_caps by auto
    then have "set (caps_of_name st (fst nc)) \<subset> set (caps_of_name (fold (visit_fn passed) ncs ?st) (fst nc))" using le(2) by (meson psubset_subset_trans)
    then show ?thesis by auto
  next
    case 3
    moreover have "em_changed (fold (visit_fn passed) ncs ?st)" using Cons.prems by simp
    ultimately obtain n where n: "n \<in> fst ` set ncs" "set (caps_of_name ?st n) \<subset> set (caps_of_name (fold (visit_fn passed) ncs ?st) n)"
      using Cons.IH [of ?st] by blast
    have "set (caps_of_name st n) \<subset> set (caps_of_name (fold (visit_fn passed) ncs ?st) n)" using le(1) n(2) by (rule subset_psubset_trans)
    then show ?thesis using n(1) by auto
  qed simp
qed simp

definition em_missing :: "(string, string list) pydict \<Rightarrow> emission_state \<Rightarrow> nat" where
  "em_missing calls st = (\<Sum>n \<in> fst ` set calls. card (em_tokens st - set (caps_of_name st n)))"

lemma emission_pass_missing:
  assumes "em_changed (emission_pass calls passed st)"
  shows "em_missing calls (emission_pass calls passed st) < em_missing calls st"
proof -
  let ?s = "st\<lparr>em_changed := False\<rparr>" and ?st = "emission_pass calls passed st"
  have le: "em_le ?s ?st" unfolding emission_pass_def by (rule fold_visit_fn_le)
  have same: "em_tokens ?s = em_tokens st" by (simp add: em_tokens_def)
  obtain n where n: "n \<in> fst ` set calls" "set (caps_of_name st n) \<subset> set (caps_of_name ?st n)"
    using fold_visit_changed [of passed calls ?s] assms unfolding emission_pass_def by auto
  have tok: "set (caps_of_name ?st m) \<subseteq> em_tokens st" for m
    using le caps_in_tokens [of ?st m] unfolding em_le_def same by blast
  have sub: "em_tokens ?st - set (caps_of_name ?st m) \<subseteq> em_tokens st - set (caps_of_name st m)" for m
    using le unfolding em_le_def same by auto
  have "em_tokens ?st - set (caps_of_name ?st n) \<subset> em_tokens st - set (caps_of_name st n)"
    using sub [of n] n(2) tok [of n] by blast
  then show ?thesis
    unfolding em_missing_def using n(1) sub
    by (intro sum_strict_mono_ex1) (auto intro!: card_mono psubset_card_mono simp: em_tokens_finite)
qed

function emission_fix :: "(string, string list) pydict \<Rightarrow> (string, string list) pydict \<Rightarrow> emission_state \<Rightarrow> emission_state" where
  "emission_fix calls passed st =
     (let st' = emission_pass calls passed st in if em_changed st' then emission_fix calls passed st' else st')"
  by pat_completeness auto
termination
  by (relation "measure (\<lambda>(calls, passed, st). em_missing calls st)") (simp_all add: emission_pass_missing)

declare emission_fix.simps [simp del]

definition emitting_state :: "bool \<Rightarrow> string list \<Rightarrow> fn_ir list \<Rightarrow> extern_ir list \<Rightarrow> emission_state" where
  "emitting_state by_name classes fns externs = emission_fix (called_table False fns) (passed_table fns)
     \<lparr>em_caps = seed_caps by_name classes externs, em_witness = [], em_changed = True\<rparr>"

definition emitting_capabilities :: "bool \<Rightarrow> string list \<Rightarrow> fn_ir list \<Rightarrow> extern_ir list \<Rightarrow> (string, string list) pydict" where
  "emitting_capabilities by_name classes fns externs = em_caps (emitting_state by_name classes fns externs)"

definition crossing_classes :: "string list" where "crossing_classes = [''emission'', ''witnessed'']"

definition emitting_fns :: "fn_ir list \<Rightarrow> extern_ir list \<Rightarrow> string list" where
  "emitting_fns fns externs = map fst (emitting_capabilities False crossing_classes fns externs)"

definition emitting_extern_names :: "fn_ir list \<Rightarrow> extern_ir list \<Rightarrow> (string, string list) pydict" where
  "emitting_extern_names fns externs = emitting_capabilities True crossing_classes fns externs"

text \<open>The callables that may not be used as a value, each with the extern its refusal names.\<close>

definition emission_value_externs :: "fn_ir list \<Rightarrow> extern_ir list \<Rightarrow> string list \<Rightarrow> (string, string) pydict" where
  "emission_value_externs fns externs exclude =
     List.map_filter (\<lambda>(n, names). case sort (filter (\<lambda>x. x \<noteq> ''*'') names) of [] \<Rightarrow> None
        | c # _ \<Rightarrow> if n \<in> set exclude then None else Some (n, c))
       (emitting_capabilities True [''emission''] fns externs)"


subsection \<open>Asynchronous callables\<close>

definition is_async_fn_type :: "string option \<Rightarrow> bool" where
  "is_async_fn_type t = (let (head, args) = parse_type t in
     if head \<noteq> Some fn_head \<or> args = [] then False else fst (parse_type (Some (last args))) = Some ''Async'')"

definition async_params :: "fn_ir list \<Rightarrow> (string, string list) pydict" where
  "async_params fns = dict_of (map (\<lambda>f. (fi_name f, map fst (filter (\<lambda>p. is_async_fn_type (snd p)) (fi_params f)))) fns)"

record colour_state =
  cs_coloured :: "string list"
  cs_witness :: "(string, string) pydict"
  cs_changed :: bool

definition colour_fn :: "(string, string list) pydict \<Rightarrow> string \<times> string list \<Rightarrow> colour_state \<Rightarrow> colour_state" where
  "colour_fn params nc st =
     (let (name, called) = nc;
          reached = sort (remdups (filter (\<lambda>c. c \<in> set (cs_coloured st)) called));
          own = sort (remdups (filter (\<lambda>c. c \<in> set (dict_get params name [])) called)) in
      if name \<in> set (cs_coloured st) then st
      else case reached of
          c # cs \<Rightarrow> st\<lparr>cs_coloured := cs_coloured st @ [name],
             cs_witness := AList.update name (min_by (\<lambda>x. witness_depth x (cs_witness st)) c cs) (cs_witness st), cs_changed := True\<rparr>
        | [] \<Rightarrow> (case own of p # _ \<Rightarrow> st\<lparr>cs_coloured := cs_coloured st @ [name], cs_witness := AList.update name p (cs_witness st), cs_changed := True\<rparr>
            | [] \<Rightarrow> st))"

definition colour_pass :: "(string, string list) pydict \<Rightarrow> (string, string list) pydict \<Rightarrow> colour_state \<Rightarrow> colour_state" where
  "colour_pass calls params st = fold (colour_fn params) calls (st\<lparr>cs_changed := False\<rparr>)"

definition colours :: "(string, string list) pydict \<Rightarrow> string set \<Rightarrow> string \<times> string list \<Rightarrow> bool" where
  "colours params C nc \<longleftrightarrow> fst nc \<in> C \<or> set (snd nc) \<inter> (C \<union> set (dict_get params (fst nc) [])) \<noteq> {}"

lemma colour_fn_set:
  "set (cs_coloured (colour_fn params nc st)) = set (cs_coloured st) \<union> (if colours params (set (cs_coloured st)) nc then {fst nc} else {})"
  "cs_changed (colour_fn params nc st) \<longleftrightarrow> cs_changed st \<or> colours params (set (cs_coloured st)) nc \<and> fst nc \<notin> set (cs_coloured st)"
proof -
  obtain n called where nc: "nc = (n, called)" by fastforce
  let ?reached = "sort (remdups (filter (\<lambda>c. c \<in> set (cs_coloured st)) called))"
  let ?own = "sort (remdups (filter (\<lambda>c. c \<in> set (dict_get params n [])) called))"
  have e: "colours params (set (cs_coloured st)) nc \<longleftrightarrow> n \<in> set (cs_coloured st) \<or> ?reached \<noteq> [] \<or> ?own \<noteq> []"
  proof -
    have "?reached = [] \<longleftrightarrow> set called \<inter> set (cs_coloured st) = {}" "?own = [] \<longleftrightarrow> set called \<inter> set (dict_get params n []) = {}"
      by (auto simp: filter_empty_conv set_empty [symmetric] simp del: set_empty)
    then show ?thesis unfolding colours_def nc by auto
  qed
  show "set (cs_coloured (colour_fn params nc st)) = set (cs_coloured st) \<union> (if colours params (set (cs_coloured st)) nc then {fst nc} else {})"
    unfolding e unfolding nc colour_fn_def Let_def by (auto split: list.splits)
  show "cs_changed (colour_fn params nc st) \<longleftrightarrow> cs_changed st \<or> colours params (set (cs_coloured st)) nc \<and> fst nc \<notin> set (cs_coloured st)"
    unfolding e unfolding nc colour_fn_def Let_def by (auto split: list.splits)
qed

lemma fold_colour_mono: "set (cs_coloured st) \<subseteq> set (cs_coloured (fold (colour_fn params) ncs st))"
proof (induction ncs arbitrary: st)
  case (Cons nc ncs)
  then show ?case using colour_fn_set(1) [of params nc st] by (metis Un_subset_iff fold_simps(2))
qed simp

lemma fold_colour_changed:
  "cs_changed (fold (colour_fn params) ncs st) \<Longrightarrow> cs_changed st \<or>
     (\<exists>n \<in> fst ` set ncs. n \<notin> set (cs_coloured st) \<and> n \<in> set (cs_coloured (fold (colour_fn params) ncs st)))"
proof (induction ncs arbitrary: st)
  case (Cons nc ncs)
  let ?st = "colour_fn params nc st"
  have le: "set (cs_coloured st) \<subseteq> set (cs_coloured ?st)" "set (cs_coloured ?st) \<subseteq> set (cs_coloured (fold (colour_fn params) ncs ?st))"
    by (simp add: colour_fn_set(1)) (rule fold_colour_mono)
  consider "cs_changed st" | "\<not> cs_changed st" "cs_changed ?st" | "\<not> cs_changed ?st" by blast
  then show ?case
  proof cases
    case 2
    then have "fst nc \<notin> set (cs_coloured st)" "fst nc \<in> set (cs_coloured ?st)" unfolding colour_fn_set by auto
    then show ?thesis using le(2) by auto
  next
    case 3
    then show ?thesis using Cons.IH [of ?st] Cons.prems le(1) by auto
  qed simp
qed simp

lemma colour_pass_less:
  assumes "cs_changed (colour_pass calls params st)"
  shows "card (fst ` set calls - set (cs_coloured (colour_pass calls params st))) < card (fst ` set calls - set (cs_coloured st))"
proof (rule psubset_card_mono)
  let ?s = "st\<lparr>cs_changed := False\<rparr>"
  obtain n where "n \<in> fst ` set calls" "n \<notin> set (cs_coloured st)" "n \<in> set (cs_coloured (colour_pass calls params st))"
    using fold_colour_changed [of params calls ?s] assms unfolding colour_pass_def by auto
  moreover have "set (cs_coloured st) \<subseteq> set (cs_coloured (colour_pass calls params st))"
    using fold_colour_mono [of ?s params calls] by (simp add: colour_pass_def)
  ultimately show "fst ` set calls - set (cs_coloured (colour_pass calls params st)) \<subset> fst ` set calls - set (cs_coloured st)" by blast
qed simp

function colour_fix :: "(string, string list) pydict \<Rightarrow> (string, string list) pydict \<Rightarrow> colour_state \<Rightarrow> colour_state" where
  "colour_fix calls params st =
     (let st' = colour_pass calls params st in if cs_changed st' then colour_fix calls params st' else st')"
  by pat_completeness auto
termination
  by (relation "measure (\<lambda>(calls, params, st). card (fst ` set calls - set (cs_coloured st)))") (simp_all add: colour_pass_less)

declare colour_fix.simps [simp del]

definition async_callables :: "fn_ir list \<Rightarrow> extern_ir list \<Rightarrow> colour_state" where
  "async_callables fns externs = colour_fix (called_table True fns) (async_params fns)
     \<lparr>cs_coloured = remdups (map ex_name (filter ex_async externs)), cs_witness = [], cs_changed = True\<rparr>"

end
