(* ===== verification/Emission_Properties.thy ===== *)
theory Emission_Properties
  imports Emission_Analysis
begin

section \<open>The emission analysis computes reachability, with its evidence\<close>

text \<open>
  The declarative meaning of the analysis is a reachability relation over the call graph.  The fixed
  point computes exactly that relation, and every witness chain it leaves leads along the graph to a
  seed.
\<close>

subsection \<open>Reachability\<close>

text \<open>A name crosses a capability it is seeded with, that a name it calls or passes on crosses, and the
  unnameable capability \<open>*\<close> when it passes on a name that crosses anything.\<close>

inductive crosses :: "(string, string list) pydict \<Rightarrow> (string, string list) pydict \<Rightarrow> (string, string list) pydict \<Rightarrow> string \<Rightarrow> string \<Rightarrow> bool"
  for calls passed seeds where
  seeded: "t \<in> set (dict_get seeds n []) \<Longrightarrow> crosses calls passed seeds n t"
| by_call: "(n, cs) \<in> set calls \<Longrightarrow> c \<in> set cs \<Longrightarrow> crosses calls passed seeds c t \<Longrightarrow> crosses calls passed seeds n t"
| by_value: "n \<in> fst ` set calls \<Longrightarrow> r \<in> set (dict_get passed n []) \<Longrightarrow> crosses calls passed seeds r t \<Longrightarrow> crosses calls passed seeds n t"
| by_dispatch: "n \<in> fst ` set calls \<Longrightarrow> r \<in> set (dict_get passed n []) \<Longrightarrow> crosses calls passed seeds r t \<Longrightarrow> crosses calls passed seeds n ''*''"

definition em_sound :: "(string, string list) pydict \<Rightarrow> (string, string list) pydict \<Rightarrow> (string, string list) pydict \<Rightarrow> emission_state \<Rightarrow> bool" where
  "em_sound calls passed seeds st \<longleftrightarrow> (\<forall>n. \<forall>t \<in> set (caps_of_name st n). crosses calls passed seeds n t)"

lemma reached_calls_set: "t \<in> set (reached_by_calls st called) \<longleftrightarrow> (\<exists>c \<in> set called. t \<in> set (caps_of_name st c))"
  by (simp add: reached_by_calls_def)

lemma reached_values_set:
  "t \<in> set (reached_by_values st refs) \<longleftrightarrow> (\<exists>r \<in> set refs. caps_of_name st r \<noteq> [] \<and> (t = ''*'' \<or> t \<in> set (caps_of_name st r)))"
  by (auto simp: reached_by_values_def emitting_refs_def)

lemma reached_sound:
  assumes "em_sound calls passed seeds st" "nc \<in> set calls" "t \<in> reached_set passed st nc"
  shows "crosses calls passed seeds (fst nc) t"
proof -
  have n: "fst nc \<in> fst ` set calls" "(fst nc, snd nc) \<in> set calls" using assms(2) by auto
  have sound: "t \<in> set (caps_of_name st m) \<Longrightarrow> crosses calls passed seeds m t" for m t using assms(1) by (simp add: em_sound_def)
  consider c where "c \<in> set (snd nc)" "t \<in> set (caps_of_name st c)"
    | r where "r \<in> set (dict_get passed (fst nc) [])" "caps_of_name st r \<noteq> []" "t = ''*'' \<or> t \<in> set (caps_of_name st r)"
    using assms(3) unfolding reached_set_def Un_iff reached_calls_set reached_values_set by blast
  then show ?thesis
  proof cases
    case 1
    then show ?thesis using by_call [OF n(2)] sound by blast
  next
    case 2
    obtain u where "u \<in> set (caps_of_name st r)" using 2(2) by (meson last_in_set)
    then show ?thesis using 2(1,3) sound by_value [OF n(1)] by_dispatch [OF n(1)] by blast
  qed
qed

lemma visit_sound: "em_sound calls passed seeds st \<Longrightarrow> nc \<in> set calls \<Longrightarrow> em_sound calls passed seeds (visit_fn passed nc st)"
  unfolding em_sound_def [of _ _ _ "visit_fn passed nc st"] visit_caps
  using reached_sound [of calls passed seeds st nc] by (auto simp: em_sound_def split: if_splits)

lemma fold_visit_sound:
  "em_sound calls passed seeds st \<Longrightarrow> set ncs \<subseteq> set calls \<Longrightarrow> em_sound calls passed seeds (fold (visit_fn passed) ncs st)"
  by (induction ncs arbitrary: st) (auto intro: visit_sound)

lemma visit_unchanged: "\<not> em_changed (visit_fn passed nc st) \<Longrightarrow> em_caps (visit_fn passed nc st) = em_caps st"
  by (cases nc) (auto simp: visit_fn_cases split: if_splits)

lemma fold_visit_unchanged:
  "\<not> em_changed (fold (visit_fn passed) ncs st) \<Longrightarrow> \<not> em_changed st \<and> em_caps (fold (visit_fn passed) ncs st) = em_caps st
     \<and> (\<forall>nc \<in> set ncs. reached_set passed st nc \<subseteq> set (caps_of_name st (fst nc)))"
proof (induction ncs arbitrary: st)
  case (Cons nc ncs)
  let ?st = "visit_fn passed nc st"
  have IH: "\<not> em_changed ?st" "em_caps (fold (visit_fn passed) ncs ?st) = em_caps ?st"
      "\<forall>nc \<in> set ncs. reached_set passed ?st nc \<subseteq> set (caps_of_name ?st (fst nc))"
    using Cons.IH [of ?st] Cons.prems by simp_all
  have same: "em_caps ?st = em_caps st" by (rule visit_unchanged [OF IH(1)])
  moreover have "reached_set passed ?st nc' = reached_set passed st nc'" for nc'
    unfolding reached_set_def reached_by_calls_def reached_by_values_def emitting_refs_def same ..
  ultimately show ?case using IH unfolding visit_changed by simp
qed simp

text \<open>What the fixed point keeps of every pass, and what holds at its end.\<close>

lemma emission_fix_inv:
  assumes "\<And>st. P st \<Longrightarrow> P (emission_pass calls passed st)"
  shows "P st \<Longrightarrow> P (emission_fix calls passed st)"
  using assms
proof (induction calls passed st rule: emission_fix.induct)
  case (1 calls passed st)
  then show ?case by (subst emission_fix.simps) (simp add: Let_def)
qed

lemma emission_fix_stable:
  "\<not> em_changed (emission_fix calls passed st)
   \<and> (\<forall>nc \<in> set calls. reached_set passed (emission_fix calls passed st) nc \<subseteq> set (caps_of_name (emission_fix calls passed st) (fst nc)))"
proof (induction calls passed st rule: emission_fix.induct)
  case (1 calls passed st)
  let ?st = "emission_pass calls passed st"
  show ?case
  proof (cases "em_changed ?st")
    case True
    then have "emission_fix calls passed st = emission_fix calls passed ?st" by (subst emission_fix.simps) (simp add: Let_def)
    then show ?thesis using 1 True by simp
  next
    case False
    then have e: "emission_fix calls passed st = ?st" by (subst emission_fix.simps) (simp add: Let_def)
    have "em_caps ?st = em_caps (st\<lparr>em_changed := False\<rparr>)"
        "\<forall>nc \<in> set calls. reached_set passed (st\<lparr>em_changed := False\<rparr>) nc \<subseteq> set (caps_of_name (st\<lparr>em_changed := False\<rparr>) (fst nc))"
      using fold_visit_unchanged [of passed calls "st\<lparr>em_changed := False\<rparr>"] False unfolding emission_pass_def by blast+
    moreover from this(1) have "reached_set passed ?st nc = reached_set passed (st\<lparr>em_changed := False\<rparr>) nc" for nc
      unfolding reached_set_def reached_by_calls_def reached_by_values_def emitting_refs_def by simp
    ultimately show ?thesis unfolding e using False by simp
  qed
qed

lemma emission_fix_grows: "set (caps_of_name st n) \<subseteq> set (caps_of_name (emission_fix calls passed st) n)"
proof -
  have "set (caps_of_name st n) \<subseteq> set (caps_of_name (emission_pass calls passed st') n)"
    if "set (caps_of_name st n) \<subseteq> set (caps_of_name st' n)" for st'
    using that fold_visit_fn_le [of "st'\<lparr>em_changed := False\<rparr>" passed calls] by (fastforce simp: em_le_def emission_pass_def)
  then show ?thesis
    using emission_fix_inv [where P = "\<lambda>st'. set (caps_of_name st n) \<subseteq> set (caps_of_name st' n)", of calls passed st] by blast
qed

lemma em_sound_changed: "em_sound calls passed seeds (st\<lparr>em_changed := b\<rparr>) \<longleftrightarrow> em_sound calls passed seeds st"
  by (simp add: em_sound_def)

lemma emission_fix_exact:
  assumes "em_caps st = seeds"
  shows "t \<in> set (caps_of_name (emission_fix calls passed st) n) \<longleftrightarrow> crosses calls passed seeds n t"
proof
  let ?st = "emission_fix calls passed st"
  have "em_sound calls passed seeds ?st"
  proof (rule emission_fix_inv)
    show "em_sound calls passed seeds st" using assms by (auto simp: em_sound_def intro: crosses.seeded)
    show "em_sound calls passed seeds st' \<Longrightarrow> em_sound calls passed seeds (emission_pass calls passed st')" for st'
      unfolding emission_pass_def by (rule fold_visit_sound) (simp_all add: em_sound_changed)
  qed
  then show "t \<in> set (caps_of_name ?st n) \<Longrightarrow> crosses calls passed seeds n t" by (simp add: em_sound_def)
  have stable: "reached_set passed ?st nc \<subseteq> set (caps_of_name ?st (fst nc))" if "nc \<in> set calls" for nc
    using emission_fix_stable that by blast
  show "crosses calls passed seeds n t \<Longrightarrow> t \<in> set (caps_of_name ?st n)"
  proof (induction rule: crosses.induct)
    case (seeded t n)
    then show ?case using emission_fix_grows [of st n calls passed] assms by auto
  next
    case (by_call n cs c t)
    have "t \<in> reached_set passed ?st (n, cs)" unfolding reached_set_def Un_iff reached_calls_set using by_call by auto
    then show ?case using stable [OF by_call.hyps(1)] by auto
  next
    case (by_value n r t)
    then obtain cs where cs: "(n, cs) \<in> set calls" by auto
    have "caps_of_name ?st r \<noteq> []" using by_value.IH by auto
    then have "t \<in> reached_set passed ?st (n, cs)" unfolding reached_set_def Un_iff reached_values_set using by_value by auto
    then show ?case using stable [OF cs] by auto
  next
    case (by_dispatch n r t)
    then obtain cs where cs: "(n, cs) \<in> set calls" by auto
    have "caps_of_name ?st r \<noteq> []" using by_dispatch.IH by auto
    then have "''*'' \<in> reached_set passed ?st (n, cs)" unfolding reached_set_def Un_iff reached_values_set using by_dispatch by auto
    then show ?case using stable [OF cs] by auto
  qed
qed

lemma emitting_exact:
  "t \<in> set (dict_get (emitting_capabilities by_name classes fns externs) n [])
     \<longleftrightarrow> crosses (called_table False fns) (passed_table fns) (seed_caps by_name classes externs) n t"
  unfolding emitting_capabilities_def emitting_state_def by (rule emission_fix_exact) simp


subsection \<open>Witnesses\<close>

text \<open>An edge of the call graph, by a call or by a value.\<close>

definition graph_edge :: "(string, string list) pydict \<Rightarrow> (string, string list) pydict \<Rightarrow> string \<Rightarrow> string \<Rightarrow> bool" where
  "graph_edge calls passed n m \<longleftrightarrow> m \<in> set (dict_get calls n []) \<union> set (dict_get passed n [])"

text \<open>Each entry leads, along an edge, to a name that was emitting before; only seeds have none.\<close>

definition em_evident :: "(string, string list) pydict \<Rightarrow> (string, string list) pydict \<Rightarrow> string set \<Rightarrow> (string \<Rightarrow> nat) \<Rightarrow> emission_state \<Rightarrow> bool" where
  "em_evident calls passed S rank st \<longleftrightarrow> dom (map_of (em_witness st)) = dom (map_of (em_caps st)) - S \<and> S \<subseteq> dom (map_of (em_caps st))
     \<and> (\<forall>n \<in> dom (map_of (em_caps st)). caps_of_name st n \<noteq> [])
     \<and> (\<forall>n m. map_of (em_witness st) n = Some m \<longrightarrow> graph_edge calls passed n m \<and> m \<in> dom (map_of (em_caps st)) \<and> rank m < rank n)"

lemma caps_dom: "caps_of_name st n \<noteq> [] \<Longrightarrow> n \<in> dom (map_of (em_caps st))"
  by (auto simp: dict_get_def split: option.splits)

lemma value_witness_other: "n \<noteq> name \<Longrightarrow> map_of (value_witness st name refs) n = map_of (em_witness st) n"
proof -
  assume ne: "n \<noteq> name"
  have "map_of (fold (\<lambda>r w. if map_of w name = None then AList.update name r w else w) rs w) n = map_of w n" for rs w
    using ne by (induction rs arbitrary: w) (auto simp: update_conv')
  then show ?thesis by (simp add: value_witness_def)
qed

lemma value_witness_own:
  "map_of (value_witness st name refs) name = (case map_of (em_witness st) name of Some m \<Rightarrow> Some m
     | None \<Rightarrow> (case emitting_refs st refs of [] \<Rightarrow> None | r # _ \<Rightarrow> Some r))"
proof -
  have fx: "map_of w name = Some m \<Longrightarrow> map_of (fold (\<lambda>r w. if map_of w name = None then AList.update name r w else w) rs w) name = Some m" for rs w m
    by (induction rs) auto
  show ?thesis
    by (cases "map_of (em_witness st) name"; cases "emitting_refs st refs") (simp_all add: value_witness_def fx update_conv')
qed

lemma call_witness_other: "n \<noteq> name \<Longrightarrow> map_of (call_witness st name called w) n = map_of w n"
  by (auto simp: call_witness_def update_conv' split: list.splits)

text \<open>The witness a newly emitting name gets is an emitting neighbour.\<close>

lemma new_witness:
  assumes new: "map_of (em_caps st) name = None" and nw: "map_of (em_witness st) name = None"
    and r: "reached_by_calls st called @ reached_by_values st refs \<noteq> []"
  shows "\<exists>m. map_of (call_witness st name called (value_witness st name refs)) name = Some m \<and> m \<in> set called \<union> set refs \<and> caps_of_name st m \<noteq> []"
proof -
  let ?w = "value_witness st name refs" and ?c = "sort (remdups (filter (\<lambda>c. caps_of_name st c \<noteq> []) called))"
  have cset: "set ?c = {c \<in> set called. caps_of_name st c \<noteq> []}" by simp
  show ?thesis
  proof (cases ?c)
    case Nil
    then have none: "\<not> (\<exists>c \<in> set called. caps_of_name st c \<noteq> [])" using cset by (metis (mono_tags, lifting) empty_Collect_eq list.set(1))
    then have "reached_by_calls st called = []" by (auto simp: reached_by_calls_def)
    then have "emitting_refs st refs \<noteq> []" using r by (auto simp: reached_by_values_def)
    then obtain x xs where x: "emitting_refs st refs = x # xs" by (meson list.exhaust)
    then have "x \<in> set refs" "caps_of_name st x \<noteq> []" using list.set_intros(1) [of x xs] unfolding x [symmetric] by (auto simp: emitting_refs_def)
    moreover have "map_of ?w name = Some x" by (simp add: value_witness_own nw x)
    moreover have "call_witness st name called ?w = ?w" unfolding call_witness_def Nil by simp
    ultimately show ?thesis by auto
  next
    case (Cons c cs)
    let ?m = "min_by (\<lambda>x. witness_depth x ?w) c cs"
    have "?m \<in> set ?c" unfolding Cons using min_by_least [of "\<lambda>x. witness_depth x ?w" c cs] by simp
    then have "?m \<in> set called" "caps_of_name st ?m \<noteq> []" unfolding cset by auto
    moreover have "call_witness st name called ?w = AList.update name ?m ?w" unfolding call_witness_def Cons using new by simp
    ultimately show ?thesis by (auto simp: update_conv')
  qed
qed

lemma visit_evident:
  assumes ev: "em_evident calls passed S rank st" and dict: "dict_ok calls" and nc: "nc \<in> set calls" and out: "fst nc \<notin> S"
  shows "\<exists>rank. em_evident calls passed S rank (visit_fn passed nc st)"
proof -
  obtain n called where p: "nc = (n, called)" by fastforce
  let ?refs = "dict_get passed n []" and ?st = "visit_fn passed nc st"
  have called: "dict_get calls n [] = called" using nc dict by (simp add: p dict_get_def dict_ok_def)
  have wd: "map_of (em_witness st) n = None \<longleftrightarrow> map_of (em_caps st) n = None"
    using ev out unfolding em_evident_def p by (metis DiffD1 DiffI domIff fst_conv)
  let ?chg = "\<not> reached_set passed st nc \<subseteq> set (caps_of_name st n)"
  have r: "set (reached_by_calls st called @ reached_by_values st ?refs) = reached_set passed st nc" by (simp add: reached_set_def p)
  have caps: "em_caps ?st = (if ?chg then AList.update n (List.union (remdups (reached_by_calls st called @ reached_by_values st ?refs)) (caps_of_name st n)) (em_caps st) else em_caps st)"
    and wit: "em_witness ?st = (if ?chg then call_witness st n called (value_witness st n ?refs) else value_witness st n ?refs)"
    unfolding p visit_fn_cases by simp_all
  show ?thesis
  proof (cases "map_of (em_caps st) n")
    case (Some v)
    then obtain m where m: "map_of (em_witness st) n = Some m" using wd by (cases "map_of (em_witness st) n") auto
    have "map_of (value_witness st n ?refs) k = map_of (em_witness st) k" for k
      by (cases "k = n") (simp_all add: value_witness_other value_witness_own m)
    then have w: "map_of (em_witness ?st) = map_of (em_witness st)" unfolding wit call_witness_def using Some by (auto simp: fun_eq_iff)
    have d: "dom (map_of (em_caps ?st)) = dom (map_of (em_caps st))" unfolding caps using Some by (auto simp: update_conv')
    have ne: "caps_of_name ?st k \<noteq> []" if "k \<in> dom (map_of (em_caps st))" for k
      using that ev visit_fn_le [of st passed nc] unfolding em_evident_def em_le_def by (metis set_empty subset_empty)
    have "em_evident calls passed S rank ?st" using ev ne unfolding em_evident_def w d by blast
    then show ?thesis by blast
  next
    case None
    then have empty: "caps_of_name st n = []" by (simp add: dict_get_def)
    show ?thesis
    proof (cases ?chg)
      case False
      then have "reached_set passed st nc = {}" using empty by simp
      then have "emitting_refs st ?refs = []" using r by (auto simp: reached_by_values_def split: if_splits)
      then have "value_witness st n ?refs = em_witness st" by (simp add: value_witness_def)
      then have "em_evident calls passed S rank ?st" using ev False unfolding em_evident_def caps wit by simp
      then show ?thesis by blast
    next
      case True
      have "reached_by_calls st called @ reached_by_values st ?refs \<noteq> []" using True r by (metis empty_subsetI list.set(1))
      then obtain m where m: "map_of (em_witness ?st) n = Some m" "m \<in> set called \<union> set ?refs" "caps_of_name st m \<noteq> []"
        using new_witness [OF None] wd None True unfolding wit by auto
      have other: "map_of (em_witness ?st) k = map_of (em_witness st) k" if "k \<noteq> n" for k
        unfolding wit using that True by (simp add: call_witness_other value_witness_other)
      have d: "dom (map_of (em_caps ?st)) = insert n (dom (map_of (em_caps st)))" unfolding caps using True by (auto simp: update_conv')
      have md: "m \<in> dom (map_of (em_caps st))" using caps_dom m(3) .
      have wdom: "dom (map_of (em_witness ?st)) = insert n (dom (map_of (em_witness st)))" using m(1) other by (auto simp: dom_def) metis+
      have ne: "caps_of_name ?st k \<noteq> []" if "k \<in> dom (map_of (em_caps ?st))" for k
      proof (cases "k = n")
        case True
        then show ?thesis using \<open>?chg\<close> visit_caps [of passed nc st n] by (auto simp: p)
      next
        case False
        then show ?thesis using that ev visit_fn_le [of st passed nc] unfolding d em_evident_def em_le_def by (metis insertE set_empty subset_empty)
      qed
      let ?rank = "rank(n := Suc (rank m))"
      have "graph_edge calls passed a b \<and> b \<in> dom (map_of (em_caps ?st)) \<and> ?rank b < ?rank a" if ab: "map_of (em_witness ?st) a = Some b" for a b
      proof (cases "a = n")
        case True
        moreover have "m \<noteq> n" using md None by auto
        ultimately show ?thesis using ab m md called by (auto simp: graph_edge_def d)
      next
        case False
        then have "map_of (em_witness st) a = Some b" using ab other by simp
        then have "graph_edge calls passed a b" "b \<in> dom (map_of (em_caps st))" "rank b < rank a" using ev unfolding em_evident_def by blast+
        moreover from this(2) have "b \<noteq> n" using None by auto
        ultimately show ?thesis using False d by auto
      qed
      moreover have "dom (map_of (em_witness ?st)) = dom (map_of (em_caps ?st)) - S" "S \<subseteq> dom (map_of (em_caps ?st))"
        unfolding wdom d using ev out by (auto simp: em_evident_def p)
      ultimately have "em_evident calls passed S ?rank ?st" using ne unfolding em_evident_def by blast
      then show ?thesis by blast
    qed
  qed
qed


lemma visit_keeps_evident:
  assumes "dict_ok calls" "S \<inter> fst ` set calls = {}" "set ncs \<subseteq> set calls"
  shows "\<exists>rank. em_evident calls passed S rank st \<Longrightarrow> \<exists>rank. em_evident calls passed S rank (fold (visit_fn passed) ncs st)"
  using assms(3)
proof (induction ncs arbitrary: st)
  case (Cons nc ncs)
  then obtain rank where rank: "em_evident calls passed S rank st" by blast
  have "nc \<in> set calls" "fst nc \<notin> S" using Cons.prems(2) assms(2) by auto
  then have "\<exists>rank. em_evident calls passed S rank (visit_fn passed nc st)" by (rule visit_evident [OF rank assms(1)])
  then show ?case using Cons by simp
qed simp

lemma evident_changed: "em_evident calls passed S rank (st\<lparr>em_changed := b\<rparr>) \<longleftrightarrow> em_evident calls passed S rank st"
  by (simp add: em_evident_def)

lemma emission_fix_evident:
  assumes "dict_ok calls" "S \<inter> fst ` set calls = {}" "\<exists>rank. em_evident calls passed S rank st"
  shows "\<exists>rank. em_evident calls passed S rank (emission_fix calls passed st)"
proof (rule emission_fix_inv [where P = "\<lambda>st. \<exists>rank. em_evident calls passed S rank st", of calls passed st])
  fix st assume "\<exists>rank. em_evident calls passed S rank st"
  then show "\<exists>rank. em_evident calls passed S rank (emission_pass calls passed st)"
    unfolding emission_pass_def by (intro visit_keeps_evident [OF assms(1,2)]) (simp_all add: evident_changed)
qed (rule assms(3))

text \<open>A walk along the witness of an emitting name ends in a seed.\<close>

lemma witness_walk_seed:
  assumes ev: "em_evident calls passed S rank st"
  shows "n \<in> dom (map_of (em_caps st)) \<Longrightarrow> \<forall>x \<in> set visited. rank n \<le> rank x \<Longrightarrow>
    \<exists>rest. witness_walk (em_witness st) visited n = visited @ rest \<and> successively (graph_edge calls passed) (n # rest)
      \<and> sorted_wrt (\<lambda>x y. rank y < rank x) (n # rest) \<and> last (n # rest) \<in> S"
proof (induction "rank n" arbitrary: n visited rule: less_induct)
  case less
  show ?case
  proof (cases "map_of (em_witness st) n")
    case None
    then have "n \<in> S" using less.prems(1) ev unfolding em_evident_def by blast
    moreover have "witness_walk (em_witness st) visited n = visited" by (subst witness_walk.simps) (simp add: None)
    ultimately show ?thesis by (intro exI [of _ "[]"]) simp
  next
    case (Some m)
    then have m: "graph_edge calls passed n m" "m \<in> dom (map_of (em_caps st))" "rank m < rank n" using ev unfolding em_evident_def by blast+
    have "m \<notin> set visited" using less.prems(2) m(3) by (meson leD)
    then have w: "witness_walk (em_witness st) visited n = witness_walk (em_witness st) (visited @ [m]) m"
      by (subst witness_walk.simps) (simp add: Some)
    have "\<forall>x \<in> set (visited @ [m]). rank m \<le> rank x" using less.prems(2) m(3) by fastforce
    then obtain rest where rest: "witness_walk (em_witness st) (visited @ [m]) m = (visited @ [m]) @ rest"
        "successively (graph_edge calls passed) (m # rest)" "sorted_wrt (\<lambda>x y. rank y < rank x) (m # rest)" "last (m # rest) \<in> S"
      using less.hyps [OF m(3) m(2)] by blast
    have "sorted_wrt (\<lambda>x y. rank y < rank x) (n # m # rest)" using rest(3) m(3) by auto
    moreover have "successively (graph_edge calls passed) (n # m # rest)" using rest(2) m(1) by simp
    ultimately show ?thesis using rest(1,4) unfolding w by (intro exI [of _ "m # rest"]) simp
  qed
qed

lemma seed_caps_nonempty: "n \<in> fst ` set (seed_caps by_name classes externs) \<Longrightarrow> dict_get (seed_caps by_name classes externs) n [] \<noteq> []"
proof -
  let ?f = "\<lambda>e. (ex_name e, if by_name \<or> ex_caps e = [] then [ex_name e] else remdups (ex_caps e))"
  assume "n \<in> fst ` set (seed_caps by_name classes externs)"
  then obtain v where v: "map_of (seed_caps by_name classes externs) n = Some v"
    by (metis domIff dom_map_of_conv_image_fst option.exhaust)
  then have "(n, v) \<in> set (map ?f (filter (\<lambda>e. ex_class e \<in> set classes) externs))"
    unfolding seed_caps_def map_of_dict_of by (auto dest: map_of_SomeD)
  then have "v \<noteq> []" by (auto split: if_splits)
  then show ?thesis using v by (simp add: dict_get_def)
qed

lemma emission_chain_evidence:
  assumes apart: "fi_name ` set fns \<inter> ex_name ` set externs = {}"
    and n: "n \<in> fst ` set (emitting_capabilities by_name classes fns externs)"
  shows "\<exists>rest. emission_chain n (em_witness (emitting_state by_name classes fns externs)) = n # rest
    \<and> successively (graph_edge (called_table False fns) (passed_table fns)) (n # rest) \<and> distinct (n # rest)
    \<and> last (n # rest) \<in> fst ` set (seed_caps by_name classes externs)"
proof -
  let ?calls = "called_table False fns" and ?passed = "passed_table fns" and ?seeds = "seed_caps by_name classes externs"
  let ?S = "fst ` set ?seeds" and ?st = "emitting_state by_name classes fns externs"
  let ?s0 = "\<lparr>em_caps = ?seeds, em_witness = [], em_changed = True\<rparr>"
  have "?S \<subseteq> ex_name ` set externs" unfolding seed_caps_def dict_of_keys by auto
  moreover have "fst ` set ?calls = fi_name ` set fns" unfolding called_table_def dict_of_keys by (simp add: image_image)
  ultimately have "?S \<inter> fst ` set ?calls = {}" using apart by blast
  moreover have "em_evident ?calls ?passed ?S (\<lambda>_. 0) ?s0"
    using seed_caps_nonempty by (simp add: em_evident_def dom_map_of_conv_image_fst)
  ultimately obtain rank where ev: "em_evident ?calls ?passed ?S rank ?st"
    using emission_fix_evident [of ?calls ?S ?passed ?s0] dict_of_ok unfolding emitting_state_def called_table_def by blast
  have "n \<in> dom (map_of (em_caps ?st))" using n by (simp add: emitting_capabilities_def dom_map_of_conv_image_fst)
  then obtain rest where rest: "witness_walk (em_witness ?st) [n] n = [n] @ rest" "successively (graph_edge ?calls ?passed) (n # rest)"
      "sorted_wrt (\<lambda>x y. rank y < rank x) (n # rest)" "last (n # rest) \<in> ?S"
    using witness_walk_seed [OF ev, of n "[n]"] by auto
  have "sorted_wrt (\<lambda>x y. rank y < rank x) xs \<Longrightarrow> distinct xs" for xs :: "string list"
    by (induction xs) auto
  then show ?thesis using rest by (auto simp: emission_chain_def)
qed


subsection \<open>Colours\<close>

text \<open>A callable suspends if it is an asynchronous extern, calls one of its own asynchronous parameters, or
  calls a callable that suspends.\<close>

inductive suspends :: "(string, string list) pydict \<Rightarrow> (string, string list) pydict \<Rightarrow> string set \<Rightarrow> string \<Rightarrow> bool" for calls params A where
  async_extern: "n \<in> A \<Longrightarrow> suspends calls params A n"
| own_param: "(n, cs) \<in> set calls \<Longrightarrow> c \<in> set cs \<Longrightarrow> c \<in> set (dict_get params n []) \<Longrightarrow> suspends calls params A n"
| calls_async: "(n, cs) \<in> set calls \<Longrightarrow> c \<in> set cs \<Longrightarrow> suspends calls params A c \<Longrightarrow> suspends calls params A n"

lemma fold_colour_sound:
  "\<forall>n \<in> set (cs_coloured st). suspends calls params A n \<Longrightarrow> set ncs \<subseteq> set calls
     \<Longrightarrow> \<forall>n \<in> set (cs_coloured (fold (colour_fn params) ncs st)). suspends calls params A n"
proof (induction ncs arbitrary: st)
  case (Cons nc ncs)
  have "suspends calls params A (fst nc)" if col: "colours params (set (cs_coloured st)) nc"
  proof -
    have nc: "(fst nc, snd nc) \<in> set calls" using Cons.prems(2) by simp
    consider "fst nc \<in> set (cs_coloured st)" | c where "c \<in> set (snd nc)" "c \<in> set (cs_coloured st)"
      | c where "c \<in> set (snd nc)" "c \<in> set (dict_get params (fst nc) [])"
      using col unfolding colours_def by blast
    then show ?thesis using Cons.prems(1) own_param [OF nc] calls_async [OF nc] by cases blast+
  qed
  then have "\<forall>n \<in> set (cs_coloured (colour_fn params nc st)). suspends calls params A n"
    unfolding colour_fn_set using Cons.prems(1) by auto
  then show ?case using Cons by simp
qed simp

lemma fold_colour_unchanged:
  "\<not> cs_changed (fold (colour_fn params) ncs st) \<Longrightarrow> set (cs_coloured (fold (colour_fn params) ncs st)) = set (cs_coloured st)
     \<and> \<not> cs_changed st \<and> (\<forall>nc \<in> set ncs. colours params (set (cs_coloured st)) nc \<longrightarrow> fst nc \<in> set (cs_coloured st))"
proof (induction ncs arbitrary: st)
  case (Cons nc ncs)
  have IH: "set (cs_coloured (fold (colour_fn params) ncs (colour_fn params nc st))) = set (cs_coloured (colour_fn params nc st))"
      "\<not> cs_changed (colour_fn params nc st)"
      "\<forall>nc' \<in> set ncs. colours params (set (cs_coloured (colour_fn params nc st))) nc' \<longrightarrow> fst nc' \<in> set (cs_coloured (colour_fn params nc st))"
    using Cons.IH [of "colour_fn params nc st"] Cons.prems by simp_all
  have c: "\<not> cs_changed st" "colours params (set (cs_coloured st)) nc \<Longrightarrow> fst nc \<in> set (cs_coloured st)" using IH(2) unfolding colour_fn_set by auto
  then have same: "set (cs_coloured (colour_fn params nc st)) = set (cs_coloured st)" unfolding colour_fn_set by auto
  show ?case using IH c unfolding same by simp
qed simp

lemma colour_fix_exact:
  "\<forall>n \<in> set (cs_coloured st). suspends calls params A n \<Longrightarrow> A \<subseteq> set (cs_coloured st)
     \<Longrightarrow> set (cs_coloured (colour_fix calls params st)) = {n. suspends calls params A n}"
proof (induction calls params st rule: colour_fix.induct)
  case (1 calls params st)
  let ?s = "st\<lparr>cs_changed := False\<rparr>" and ?st = "colour_pass calls params st"
  have sound: "\<forall>n \<in> set (cs_coloured ?st). suspends calls params A n"
    unfolding colour_pass_def by (rule fold_colour_sound) (use "1.prems"(1) in simp_all)
  have A: "A \<subseteq> set (cs_coloured ?st)" using "1.prems"(2) fold_colour_mono [of ?s params calls] by (auto simp: colour_pass_def)
  show ?case
  proof (cases "cs_changed ?st")
    case True
    then have "colour_fix calls params st = colour_fix calls params ?st" by (subst colour_fix.simps) (simp add: Let_def)
    then show ?thesis using "1.IH" [OF refl True sound A] by simp
  next
    case False
    then have e: "colour_fix calls params st = ?st" by (subst colour_fix.simps) (simp add: Let_def)
    have same: "set (cs_coloured ?st) = set (cs_coloured st)" and closed: "\<forall>nc \<in> set calls. colours params (set (cs_coloured st)) nc \<longrightarrow> fst nc \<in> set (cs_coloured st)"
      using fold_colour_unchanged [of params calls ?s] False unfolding colour_pass_def by simp_all
    have cl: "n \<in> set (cs_coloured st)" if "(n, cs) \<in> set calls" "c \<in> set cs" "c \<in> set (cs_coloured st) \<union> set (dict_get params n [])" for n cs c
      using closed that unfolding colours_def by fastforce
    have "suspends calls params A n \<Longrightarrow> n \<in> set (cs_coloured st)" for n
    proof (induction rule: suspends.induct)
      case (async_extern n)
      then show ?case using "1.prems"(2) by blast
    qed (use cl in blast)+
    then show ?thesis unfolding e same using "1.prems"(1) by blast
  qed
qed



subsection \<open>Properties\<close>

text \<open>C22: The emission fixed point is exact: a capability is in the set computed for a name precisely when
  the call graph leads from the name to it, where an edge is a call or a callable passed on as a value,
  a chain may end in any extern of the seeding classes, and a name that passes on an emitting callable
  crosses the unnameable boundary as well. This holds for every table of functions, recursive ones
  included, for either keying and any choice of seeding classes.\<close>

theorem emission_reach_exact:
  "t \<in> set (dict_get (emitting_capabilities by_name classes fns externs) n [])
     \<longleftrightarrow> crosses (called_table False fns) (passed_table fns) (seed_caps by_name classes externs) n t"
  by (rule emitting_exact)

text \<open>The evidence of a verdict is sound and complete: every function found to be emitting has a witness
  chain that follows calls and value references through distinct names, each hop an edge of the call
  graph, down to an extern that seeds the analysis.\<close>

theorem emission_evidence_reaches_seed:
  assumes "fi_name ` set fns \<inter> ex_name ` set externs = {}"
    and "n \<in> set (emitting_fns fns externs)"
  shows "\<exists>rest. emission_chain n (em_witness (emitting_state False crossing_classes fns externs)) = n # rest
    \<and> successively (graph_edge (called_table False fns) (passed_table fns)) (n # rest) \<and> distinct (n # rest)
    \<and> last (n # rest) \<in> fst ` set (seed_caps False crossing_classes externs)"
  by (rule emission_chain_evidence [OF assms(1)]) (use assms(2) in \<open>simp add: emitting_fns_def\<close>)

text \<open>\<open>notify\<close> calls the extern \<open>send\<close>, \<open>relay\<close> hands \<open>notify\<close> to \<open>apply\<close>, which calls nothing by name, and
  \<open>main\<close> calls \<open>relay\<close> and itself.\<close>

definition call_node :: "string \<Rightarrow> json list \<Rightarrow> json" where
  "call_node f xs = JObj [(''kind'', JStr ''call''), (''callee'', JObj [(''kind'', JStr ''var''), (''name'', JStr f)]), (''args'', JArr xs)]"

definition mail_fns :: "fn_ir list" where
  "mail_fns =
     [\<lparr>fi_name = ''main'', fi_params = [], fi_body = JArr [call_node ''relay'' [], call_node ''main'' []]\<rparr>,
      \<lparr>fi_name = ''relay'', fi_params = [], fi_body = JArr [call_node ''apply'' [JObj [(''kind'', JStr ''var''), (''name'', JStr ''notify'')]]]\<rparr>,
      \<lparr>fi_name = ''apply'', fi_params = [(''f'', Some ''() -> Unit'')], fi_body = JArr [call_node ''f'' []]\<rparr>,
      \<lparr>fi_name = ''notify'', fi_params = [], fi_body = JArr [JObj [(''kind'', JStr ''fn''), (''name'', JStr ''send'')]]\<rparr>]"

definition mail_externs :: "extern_ir list" where
  "mail_externs = [\<lparr>ex_name = ''send'', ex_class = ''emission'', ex_caps = [''net.smtp''], ex_async = True\<rparr>]"

theorem emission_evidence_reaches_seed_witness:
  "emission_chain ''main'' (em_witness (emitting_state False crossing_classes mail_fns mail_externs)) = [''main'', ''relay'', ''notify'', ''send'']
   \<and> dict_get (emitting_capabilities False crossing_classes mail_fns mail_externs) ''main'' [] = [''*'', ''net.smtp'']
   \<and> ''send'' \<in> fst ` set (seed_caps False crossing_classes mail_externs)"
proof -
  have chain: "emission_chain ''main'' (em_witness (emitting_state False crossing_classes mail_fns mail_externs)) = [''main'', ''relay'', ''notify'', ''send'']"
    by code_simp
  have caps: "dict_get (emitting_capabilities False crossing_classes mail_fns mail_externs) ''main'' [] = [''*'', ''net.smtp'']"
    by code_simp
  have mem: "''main'' \<in> set (emitting_fns mail_fns mail_externs)" by code_simp
  have apart: "fi_name ` set mail_fns \<inter> ex_name ` set mail_externs = {}" by (simp add: mail_fns_def mail_externs_def)
  obtain rest where "''main'' # rest = [''main'', ''relay'', ''notify'', ''send'']" "last (''main'' # rest) \<in> fst ` set (seed_caps False crossing_classes mail_externs)"
    using emission_evidence_reaches_seed [OF apart mem] unfolding chain by metis
  then show ?thesis using chain caps by simp
qed

text \<open>The colouring is exact: a callable is marked for an inserted \<open>await\<close> precisely when it is an
  asynchronous extern, calls one of its own parameters of asynchronous function type, or calls a
  callable that is marked; a body that only builds an asynchronous arrow is not marked for what the
  arrow does.\<close>

theorem async_colours_exact:
  "set (cs_coloured (async_callables fns externs))
     = {n. suspends (called_table True fns) (async_params fns) (ex_name ` {e \<in> set externs. ex_async e}) n}"
  unfolding async_callables_def by (rule colour_fix_exact) (auto intro: suspends.async_extern)

lemma mail_colours: "cs_coloured (async_callables mail_fns mail_externs) = [''send'', ''notify'']"
  by code_simp

end
