(* ===== verification/Parallel.thy ===== *)
theory Parallel
  imports Emission_Analysis Cap_Order
begin

section \<open>The parallel-emission partition (\<open>src/revl/parallel.py\<close>)\<close>

text \<open>
  The plan that says which emissions of a component a runtime may fire concurrently: the emission sites
  read off the compiled body, the reach of the steps between them, and the contiguous groups that are
  grown while every pair of a group is provably independent.  Documents are read as the code reads
  them; a member of the wrong shape reads as an absent one.
\<close>

subsection \<open>Reading documents\<close>

definition dict_of_json :: "json \<Rightarrow> (string \<times> json) list" where
  "dict_of_json j = (case j of JObj kvs \<Rightarrow> kvs | _ \<Rightarrow> [])"

definition list_of_json :: "json \<Rightarrow> json list" where
  "list_of_json j = (case j of JArr xs \<Rightarrow> xs | _ \<Rightarrow> [])"

definition strings_in :: "json \<Rightarrow> string list" where
  "strings_in j = map (\<lambda>x. case x of JStr s \<Rightarrow> s | _ \<Rightarrow> []) (list_of_json j)"

text \<open>\<^verbatim>\<open>d.get(k)\<close> where the key is itself read from a document\<close>

definition member_at :: "(string \<times> json) list \<Rightarrow> json \<Rightarrow> json" where
  "member_at d k = (case k of JStr s \<Rightarrow> member d s | _ \<Rightarrow> JNull)"

lemma member_size: "size (member kvs k) < size (JObj kvs)"
proof (cases "map_of kvs k")
  case (Some v)
  then have "(k, v) \<in> set kvs" by (rule map_of_SomeD)
  then show ?thesis using json_sizes(2) [of "(k, v)" kvs] Some by (simp add: member_def dict_get_def)
qed (simp add: member_def dict_get_def)

lemma list_size: "x \<in> set (list_of_json j) \<Longrightarrow> size x < size j"
  using json_sizes(1) by (cases j) (auto simp: list_of_json_def)

lemma list_member_size: "x \<in> set (list_of_json (member kvs k)) \<Longrightarrow> size x < size (JObj kvs)"
  using list_size [of x "member kvs k"] member_size [of kvs k] by simp

lemma dict_member_size: "x \<in> set (list_of_json (member (dict_of_json m) k)) \<Longrightarrow> size x < size m"
  using list_member_size by (cases m) (auto simp: dict_of_json_def, simp_all add: list_of_json_def member_def dict_get_def)

definition fn_of_ir :: "json \<Rightarrow> fn_ir" where
  "fn_of_ir j = (let d = dict_of_json j in
     \<lparr>fi_name = concat (name_in d),
      fi_params = map (\<lambda>p. (concat (name_in (dict_of_json p)), case member (dict_of_json p) ''type'' of JStr t \<Rightarrow> Some t | _ \<Rightarrow> None)) (list_of_json (member d ''params'')),
      fi_body = member d ''body''\<rparr>)"

definition extern_of_ir :: "json \<Rightarrow> extern_ir" where
  "extern_of_ir j = (let d = dict_of_json j in
     \<lparr>ex_name = concat (name_in d), ex_class = (case member d ''class'' of JStr c \<Rightarrow> c | _ \<Rightarrow> []),
      ex_caps = strings_in (member d ''capabilities''), ex_async = truthy (member d ''async'')\<rparr>)"

text \<open>The functions of a document: a list, or the values of a dictionary.\<close>

definition fns_of_ir :: "(string \<times> json) list \<Rightarrow> fn_ir list" where
  "fns_of_ir ir = map fn_of_ir (case member ir ''functions'' of JObj kvs \<Rightarrow> map snd kvs | j \<Rightarrow> list_of_json j)"

definition externs_of_ir :: "(string \<times> json) list \<Rightarrow> extern_ir list" where
  "externs_of_ir ir = map extern_of_ir (list_of_json (member ir ''externs''))"


subsection \<open>Emission sites\<close>

definition star :: string where "star = ''*''"

definition from_spec :: "(string \<times> json) list \<Rightarrow> (string \<times> json) list \<Rightarrow> string list \<times> bool" where
  "from_spec svc spec = (case member spec ''capabilities'' of JNull \<Rightarrow> [star] | j \<Rightarrow> strings_in j,
     truthy (member spec ''commutative'') \<or> truthy (member svc ''commutative''))"

definition method_spec :: "(string \<times> json) list \<Rightarrow> json \<Rightarrow> (string \<times> json) list" where
  "method_spec svc m = dict_of_json (member_at (dict_of_json (member svc ''methods'')) m)"

text \<open>The three shapes: a call through a required key, a provision call on an instance, a host extern.\<close>

definition req_emission :: "(string \<times> json) list \<Rightarrow> (string \<times> json) list \<Rightarrow> (string \<times> json) list \<Rightarrow> (string list \<times> bool) option" where
  "req_emission ir cmp expr = (case member expr ''target'' of
     JObj target \<Rightarrow> if kind_is expr ''call'' \<and> kind_is target ''req'' then
         let svc = dict_of_json (member_at (dict_of_json (member ir ''services'')) (member_at (dict_of_json (member cmp ''requires'')) (member target ''name'')));
             spec = method_spec svc (member expr ''method'')
         in if truthy (member spec ''emission'') then Some (from_spec svc spec) else None
       else None
   | _ \<Rightarrow> None)"

definition instance_emission :: "(string \<times> json) list \<Rightarrow> (string \<times> json) list \<Rightarrow> (string list \<times> bool) option" where
  "instance_emission ir expr = (case member expr ''callee'' of
     JObj callee \<Rightarrow> (case member callee ''target'' of
       JObj recv \<Rightarrow> if kind_is expr ''call'' \<and> kind_is callee ''field'' \<and> kind_is recv ''instance-get'' then
           let svc = dict_of_json (member_at (dict_of_json (member ir ''services'')) (member recv ''service''));
               spec = method_spec svc (member callee ''name'')
           in if truthy (member spec ''emission'') then Some (from_spec svc spec) else None
         else None
     | _ \<Rightarrow> None)
   | _ \<Rightarrow> None)"

definition extern_index :: "(string \<times> json) list \<Rightarrow> (string, (string \<times> json) list) pydict" where
  "extern_index ir = dict_of (map (\<lambda>e. (concat (name_in (dict_of_json e)), dict_of_json e)) (list_of_json (member ir ''externs'')))"

definition host_emission :: "(string \<times> json) list \<Rightarrow> (string \<times> json) list \<Rightarrow> (string list \<times> bool) option" where
  "host_emission ir expr = (if kind_is expr ''fn'' then
     (case member expr ''name'' of JStr n \<Rightarrow> (case map_of (extern_index ir) n of
          Some entry \<Rightarrow> if member entry ''class'' = JStr ''emission'' then
              Some (if strings_in (member entry ''capabilities'') = [] then [n] else strings_in (member entry ''capabilities''),
                truthy (member entry ''commutative''))
            else None
        | None \<Rightarrow> None)
      | _ \<Rightarrow> None)
     else None)"

definition resolve_emission :: "(string \<times> json) list \<Rightarrow> (string \<times> json) list \<Rightarrow> json \<Rightarrow> (string list \<times> bool) option" where
  "resolve_emission ir cmp j = (case j of
     JObj expr \<Rightarrow> (case req_emission ir cmp expr of Some r \<Rightarrow> Some r
       | None \<Rightarrow> (case instance_emission ir expr of Some r \<Rightarrow> Some r | None \<Rightarrow> host_emission ir expr))
   | _ \<Rightarrow> None)"

function contains_emission_call :: "(string \<times> json) list \<Rightarrow> (string \<times> json) list \<Rightarrow> json \<Rightarrow> bool" where
  "contains_emission_call ir cmp j = (case j of
     JObj kvs \<Rightarrow> resolve_emission ir cmp j \<noteq> None \<or> list_ex (\<lambda>kv. contains_emission_call ir cmp (snd kv)) kvs
   | JArr xs \<Rightarrow> list_ex (contains_emission_call ir cmp) xs
   | _ \<Rightarrow> False)"
  by pat_completeness auto
termination
  by (relation "measure (\<lambda>(ir, cmp, j). size j)") (simp_all only: in_measure case_prod_conv json_sizes wf_measure)

declare contains_emission_call.simps [simp del]

datatype reach = Reach_Star | Reach_Concrete

definition step_reach :: "(string, string list) pydict \<Rightarrow> (string \<times> json) list \<Rightarrow> (string \<times> json) list \<Rightarrow> json \<Rightarrow> reach option" where
  "step_reach fn_caps ir cmp step =
     (let reached = concat (map (\<lambda>n. dict_get fn_caps n []) (fst (calls_in False False step))) in
      if star \<in> set reached then Some Reach_Star
      else if reached \<noteq> [] \<or> contains_emission_call ir cmp step then Some Reach_Concrete
      else None)"


subsection \<open>Which emissions may share a group\<close>

record emission =
  e_index :: nat
  e_caps :: "cap list"
  e_commutative :: bool
  e_step :: json

definition parse_caps :: "string list \<Rightarrow> cap list" where
  "parse_caps ss = map (\<lambda>s. case parse_stored_cap s of Inr c \<Rightarrow> c | Inl _ \<Rightarrow> mk_cap star []) ss"

definition tokens :: "emission \<Rightarrow> string set" where
  "tokens e = cap_token ` set (e_caps e)"

definition independent :: "emission \<Rightarrow> emission \<Rightarrow> bool" where
  "independent a b \<longleftrightarrow> (if star \<in> tokens a \<or> star \<in> tokens b then False
     else list_all (\<lambda>x. list_all (\<lambda>y. disjoint_caps x y) (e_caps b)) (e_caps a))"

definition same_key :: "emission \<Rightarrow> emission \<Rightarrow> bool" where
  "same_key a b \<longleftrightarrow> (if star \<in> tokens a \<or> star \<in> tokens b then False else set (e_caps a) = set (e_caps b))"

definition reorderable :: "emission \<Rightarrow> emission \<Rightarrow> bool" where
  "reorderable a b \<longleftrightarrow> same_key a b \<and> e_commutative a \<and> e_commutative b"

definition compatible_emissions :: "emission \<Rightarrow> emission \<Rightarrow> bool" where
  "compatible_emissions a b \<longleftrightarrow> independent a b \<or> reorderable a b"


subsection \<open>The partitioner\<close>

text \<open>The sealed groups, the open one, and the number of the next emission.  The code keeps the indices and the
  steps of a sealed group in two lists; here the group is kept and both are read off it.\<close>

record partition =
  p_sealed :: "emission list list"
  p_current :: "emission list"
  p_next :: nat

definition seal :: "partition \<Rightarrow> partition" where
  "seal p = (if p_current p \<noteq> [] then p\<lparr>p_sealed := p_sealed p @ [p_current p], p_current := []\<rparr> else p)"

definition add_emission :: "string list \<Rightarrow> bool \<Rightarrow> json \<Rightarrow> partition \<Rightarrow> partition" where
  "add_emission caps commutative step p =
     (let e = \<lparr>e_index = p_next p, e_caps = parse_caps caps, e_commutative = commutative, e_step = step\<rparr>;
          p = p\<lparr>p_next := Suc (p_next p)\<rparr> in
      if p_current p \<noteq> [] \<and> list_all (\<lambda>m. compatible_emissions m e) (p_current p) then p\<lparr>p_current := p_current p @ [e]\<rparr>
      else (seal p)\<lparr>p_current := [e]\<rparr>)"

definition step_is :: "(string \<times> json) list \<Rightarrow> string \<Rightarrow> bool" where
  "step_is d k \<longleftrightarrow> member d ''step'' = JStr k"

definition pure_eligible :: "string list" where
  "pure_eligible = [''let'', ''let_pattern'', ''expr'', ''call'', ''assert'']"

function walk_step :: "(string, string list) pydict \<Rightarrow> (string \<times> json) list \<Rightarrow> (string \<times> json) list \<Rightarrow> json \<Rightarrow> partition \<Rightarrow> partition" where
  "walk_step fn_caps ir cmp j p = (case j of
     JObj step \<Rightarrow>
       if step_is step ''emit'' then
         (case resolve_emission ir cmp (member step ''expr'') of
            None \<Rightarrow> add_emission [star] False j (seal p)
          | Some (caps, commutative) \<Rightarrow> add_emission caps commutative j p)
       else if step_is step ''provide'' then
         fold (\<lambda>m p. seal (fold (walk_step fn_caps ir cmp) (list_of_json (member (dict_of_json m) ''body'')) p))
           (list_of_json (member step ''methods'')) (seal p)
       else if step_is step ''timer'' then
         seal (fold (walk_step fn_caps ir cmp) (list_of_json (member step ''body'')) (seal p))
       else if list_ex (step_is step) pure_eligible then
         (case step_reach fn_caps ir cmp j of None \<Rightarrow> p | Some _ \<Rightarrow> seal p)
       else seal p
   | _ \<Rightarrow> p)"
  by pat_completeness auto
termination
proof (relation "measure (\<lambda>(fn_caps, ir, cmp, j, p). size j)", goal_cases)
  case (2 fn_caps ir cmp j p step m q x r)
  then have "m \<in> set (list_of_json (member step ''methods''))" "x \<in> set (list_of_json (member (dict_of_json m) ''body''))" by auto
  moreover from this(2) have "size x < size m" by (rule dict_member_size)
  ultimately show ?case using list_member_size [of m step "''methods''"] 2 by simp
next
  case (3 fn_caps ir cmp j p step x q)
  then show ?case using list_member_size [of x step "''body''"] by simp
qed simp

declare walk_step.simps [simp del]

definition walk_steps :: "(string, string list) pydict \<Rightarrow> (string \<times> json) list \<Rightarrow> (string \<times> json) list \<Rightarrow> json list \<Rightarrow> partition \<Rightarrow> partition" where
  "walk_steps fn_caps ir cmp steps p = fold (walk_step fn_caps ir cmp) steps p"

definition no_groups :: partition where
  "no_groups = \<lparr>p_sealed = [], p_current = [], p_next = 0\<rparr>"

text \<open>The partition of one component's body, sealed at its end.\<close>

definition body_groups :: "(string \<times> json) list \<Rightarrow> (string \<times> json) list \<Rightarrow> emission list list" where
  "body_groups ir cmp = p_sealed (seal (walk_steps (emitting_capabilities False crossing_classes (fns_of_ir ir) (externs_of_ir ir)) ir cmp
     (list_of_json (member cmp ''body'')) no_groups))"

definition group_indices :: "emission list \<Rightarrow> nat list" where
  "group_indices g = map e_index g"

definition group_steps :: "emission list \<Rightarrow> json list" where
  "group_steps g = map e_step g"

definition plan_with :: "(emission list \<Rightarrow> 'a) \<Rightarrow> (string \<times> json) list \<Rightarrow> (string, 'a list) pydict" where
  "plan_with view ir = fold (\<lambda>c plan. let cmp = dict_of_json c; groups = body_groups ir cmp in
     if groups = [] then plan else AList.update (concat (name_in cmp)) (map view groups) plan) (list_of_json (member ir ''components'')) []"

definition parallel_plan :: "(string \<times> json) list \<Rightarrow> (string, nat list list) pydict" where
  "parallel_plan ir = plan_with group_indices ir"

definition parallel_plan_steps :: "(string \<times> json) list \<Rightarrow> (string, json list list) pydict" where
  "parallel_plan_steps ir = plan_with group_steps ir"

definition has_parallel_group :: "(string, nat list list) pydict \<Rightarrow> bool" where
  "has_parallel_group plan \<longleftrightarrow> list_ex (\<lambda>(c, groups). list_ex (\<lambda>g. 1 < length g) groups) plan"

end
