(* ===== verification/Parallel_Properties.thy ===== *)
theory Parallel_Properties
  imports Parallel "HOL-Library.Multiset"
begin

section \<open>What a parallel plan guarantees\<close>

text \<open>
  The groups of a plan partition the emissions of a body in body order, every completion order a group
  allows is reached by exchanging adjacent compatible emissions, and no group spans a step that
  breaks the run.
\<close>

text \<open>What sealing and adding keep, walking keeps.\<close>

lemma walk_step_keeps:
  assumes "\<And>p. P p \<Longrightarrow> P (seal p)" "\<And>caps c s p. P p \<Longrightarrow> P (add_emission caps c s p)"
  shows "P p \<Longrightarrow> P (walk_step fn_caps ir cmp j p)"
  using assms
proof (induction fn_caps ir cmp j p rule: walk_step.induct)
  case (1 fn_caps ir cmp j p)
  have fold_keeps: "P q \<Longrightarrow> (\<And>x q. x \<in> set xs \<Longrightarrow> P q \<Longrightarrow> P (f x q)) \<Longrightarrow> P (fold f xs q)" for q :: partition and f :: "json \<Rightarrow> partition \<Rightarrow> partition" and xs
    by (induction xs arbitrary: q) auto
  show ?case
  proof (cases j)
    case (JObj step)
    consider "step_is step ''emit''" | "\<not> step_is step ''emit''" "step_is step ''provide''"
      | "\<not> step_is step ''emit''" "\<not> step_is step ''provide''" "step_is step ''timer''"
      | "\<not> step_is step ''emit''" "\<not> step_is step ''provide''" "\<not> step_is step ''timer''" by blast
    then show ?thesis
    proof cases
      case 1
      then show ?thesis unfolding JObj
        by (subst walk_step.simps) (auto simp: "1.prems" split: option.splits)
    next
      case 2
      have "P (fold (\<lambda>m q. seal (fold (walk_step fn_caps ir cmp) (list_of_json (member (dict_of_json m) ''body'')) q))
          (list_of_json (member step ''methods'')) (seal p))"
      proof (rule fold_keeps)
        fix m q assume m: "m \<in> set (list_of_json (member step ''methods''))" and q: "P q"
        have "P (fold (walk_step fn_caps ir cmp) (list_of_json (member (dict_of_json m) ''body'')) q)"
          by (rule fold_keeps [OF q]) (use "1.IH"(1) [OF JObj 2 m] "1.prems" in blast)
        then show "P (seal (fold (walk_step fn_caps ir cmp) (list_of_json (member (dict_of_json m) ''body'')) q))" by (rule "1.prems"(2))
      qed (rule "1.prems"(2) [OF "1.prems"(1)])
      then show ?thesis using 2 unfolding JObj by (subst walk_step.simps) simp
    next
      case 3
      have "P (fold (walk_step fn_caps ir cmp) (list_of_json (member step ''body'')) (seal p))"
        by (rule fold_keeps [OF "1.prems"(2) [OF "1.prems"(1)]]) (use "1.IH"(2) [OF JObj 3] "1.prems" in blast)
      then show ?thesis using 3 "1.prems"(2) unfolding JObj by (subst walk_step.simps) simp
    next
      case 4
      then show ?thesis using "1.prems" unfolding JObj by (subst walk_step.simps) (simp split: option.splits)
    qed
  qed (use "1.prems" in \<open>simp_all add: walk_step.simps\<close>)
qed

lemma walk_steps_keeps:
  assumes "\<And>p. P p \<Longrightarrow> P (seal p)" "\<And>caps c s p. P p \<Longrightarrow> P (add_emission caps c s p)"
  shows "P p \<Longrightarrow> P (walk_steps fn_caps ir cmp steps p)"
  using walk_step_keeps [where P = P, OF assms] by (induction steps arbitrary: p) (simp_all add: walk_steps_def)


subsection \<open>The partition\<close>

definition all_groups :: "partition \<Rightarrow> emission list list" where
  "all_groups p = p_sealed p @ [p_current p]"

definition part_ok :: "partition \<Rightarrow> bool" where
  "part_ok p \<longleftrightarrow> concat (map group_indices (all_groups p)) = [0..<p_next p] \<and> [] \<notin> set (p_sealed p)
     \<and> (\<forall>g \<in> set (all_groups p). sorted_wrt compatible_emissions g)"

lemma seal_groups: "concat (all_groups (seal p)) = concat (all_groups p)" "p_next (seal p) = p_next p" "p_current (seal p) = []"
  by (simp_all add: seal_def all_groups_def)

lemma seal_ok: "part_ok p \<Longrightarrow> part_ok (seal p)"
  by (auto simp: part_ok_def seal_def all_groups_def group_indices_def)

lemma add_cases:
  "\<exists>e. e_index e = p_next p \<and> e_step e = s \<and> p_next (add_emission caps c s p) = Suc (p_next p)
     \<and> (p_sealed (add_emission caps c s p) = p_sealed p \<and> p_current (add_emission caps c s p) = p_current p @ [e] \<and> p_current p \<noteq> []
          \<and> (\<forall>m \<in> set (p_current p). compatible_emissions m e)
        \<or> p_sealed (add_emission caps c s p) = p_sealed (seal p) \<and> p_current (add_emission caps c s p) = [e])"
  by (intro exI [of _ "\<lparr>e_index = p_next p, e_caps = parse_caps caps, e_commutative = c, e_step = s\<rparr>"])
    (auto simp: add_emission_def Let_def list_all_iff seal_def)

lemma add_ok:
  assumes "part_ok p"
  shows "part_ok (add_emission caps c s p)"
proof -
  obtain e where e: "e_index e = p_next p" "p_next (add_emission caps c s p) = Suc (p_next p)"
      "p_sealed (add_emission caps c s p) = p_sealed p \<and> p_current (add_emission caps c s p) = p_current p @ [e] \<and> p_current p \<noteq> []
          \<and> (\<forall>m \<in> set (p_current p). compatible_emissions m e)
        \<or> p_sealed (add_emission caps c s p) = p_sealed (seal p) \<and> p_current (add_emission caps c s p) = [e]"
    using add_cases by blast
  from e(3) show ?thesis
  proof
    assume "p_sealed (add_emission caps c s p) = p_sealed p \<and> p_current (add_emission caps c s p) = p_current p @ [e] \<and> p_current p \<noteq> []
          \<and> (\<forall>m \<in> set (p_current p). compatible_emissions m e)"
    then show ?thesis using assms e(1,2) by (auto simp: part_ok_def all_groups_def group_indices_def sorted_wrt_append)
  next
    assume a: "p_sealed (add_emission caps c s p) = p_sealed (seal p) \<and> p_current (add_emission caps c s p) = [e]"
    then have "all_groups (add_emission caps c s p) = p_sealed (seal p) @ [[e]]" by (simp add: all_groups_def)
    moreover have "part_ok (seal p)" by (rule seal_ok [OF assms])
    ultimately show ?thesis using a e(1,2) seal_groups(2,3) [of p] by (auto simp: part_ok_def all_groups_def group_indices_def)
  qed
qed

lemma no_groups_ok: "part_ok no_groups"
  by (simp add: part_ok_def no_groups_def all_groups_def group_indices_def)

lemma body_groups_ok:
  "concat (map group_indices (body_groups ir cmp)) = [0..<length (concat (body_groups ir cmp))]
     \<and> [] \<notin> set (body_groups ir cmp) \<and> (\<forall>g \<in> set (body_groups ir cmp). sorted_wrt compatible_emissions g)"
proof -
  let ?p = "seal (walk_steps (emitting_capabilities False crossing_classes (fns_of_ir ir) (externs_of_ir ir)) ir cmp (list_of_json (member cmp ''body'')) no_groups)"
  have ok: "part_ok ?p" by (intro seal_ok walk_steps_keeps [where P = part_ok] add_ok no_groups_ok)
  have "all_groups ?p = body_groups ir cmp @ [[]]" using seal_groups(3) by (simp add: all_groups_def body_groups_def)
  then have c: "concat (map group_indices (body_groups ir cmp)) = [0..<p_next ?p]" "[] \<notin> set (body_groups ir cmp)"
      "\<forall>g \<in> set (body_groups ir cmp). sorted_wrt compatible_emissions g"
    using ok by (auto simp: part_ok_def group_indices_def body_groups_def)
  have "length (concat (map group_indices gs)) = length (concat gs)" for gs
    by (induction gs) (auto simp: group_indices_def)
  then show ?thesis using c by (metis diff_zero length_upt)
qed


subsection \<open>Every emit step once, in body order\<close>

text \<open>The emit steps of a body, through the registrations and timers it nests.\<close>

function emits_of :: "json \<Rightarrow> json list" where
  "emits_of j = (case j of
     JObj step \<Rightarrow>
       if step_is step ''emit'' then [j]
       else if step_is step ''provide'' then
         concat (map (\<lambda>m. concat (map emits_of (list_of_json (member (dict_of_json m) ''body'')))) (list_of_json (member step ''methods'')))
       else if step_is step ''timer'' then concat (map emits_of (list_of_json (member step ''body'')))
       else []
   | _ \<Rightarrow> [])"
  by pat_completeness auto
termination
proof (relation "measure size", goal_cases)
  case (2 j step m x)
  then show ?case using list_member_size [of m step "''methods''"] dict_member_size [of x m "''body''"] by simp
next
  case (3 j step x)
  then show ?case using list_member_size [of x step "''body''"] by simp
qed simp

declare emits_of.simps [simp del]

definition steps_so_far :: "partition \<Rightarrow> json list" where
  "steps_so_far p = map e_step (concat (all_groups p))"

lemma steps_seal: "steps_so_far (seal p) = steps_so_far p"
  by (simp add: steps_so_far_def seal_groups)

lemma steps_add: "steps_so_far (add_emission caps c s p) = steps_so_far p @ [s]"
proof -
  obtain e where "e_step e = s"
      "p_sealed (add_emission caps c s p) = p_sealed p \<and> p_current (add_emission caps c s p) = p_current p @ [e]
        \<or> p_sealed (add_emission caps c s p) = p_sealed (seal p) \<and> p_current (add_emission caps c s p) = [e]"
    using add_cases by blast
  then show ?thesis using seal_groups(1,3) [of p] by (auto simp: steps_so_far_def all_groups_def)
qed

lemma walk_step_emits: "steps_so_far (walk_step fn_caps ir cmp j p) = steps_so_far p @ emits_of j"
proof (induction fn_caps ir cmp j p rule: walk_step.induct)
  case (1 fn_caps ir cmp j p)
  have folds: "(\<And>x q. x \<in> set xs \<Longrightarrow> steps_so_far (f x q) = steps_so_far q @ g x) \<Longrightarrow> steps_so_far (fold f xs q) = steps_so_far q @ concat (map g xs)"
    for q and f :: "json \<Rightarrow> partition \<Rightarrow> partition" and g xs
    by (induction xs arbitrary: q) auto
  show ?case
  proof (cases j)
    case (JObj step)
    consider "step_is step ''emit''" | "\<not> step_is step ''emit''" "step_is step ''provide''"
      | "\<not> step_is step ''emit''" "\<not> step_is step ''provide''" "step_is step ''timer''"
      | "\<not> step_is step ''emit''" "\<not> step_is step ''provide''" "\<not> step_is step ''timer''" by blast
    then show ?thesis
    proof cases
      case 1
      then show ?thesis unfolding JObj
        by (subst walk_step.simps, subst emits_of.simps) (auto simp: steps_add steps_seal split: option.splits)
    next
      case 2
      let ?g = "\<lambda>m. concat (map emits_of (list_of_json (member (dict_of_json m) ''body'')))"
      have "steps_so_far (fold (\<lambda>m q. seal (fold (walk_step fn_caps ir cmp) (list_of_json (member (dict_of_json m) ''body'')) q))
          (list_of_json (member step ''methods'')) (seal p)) = steps_so_far (seal p) @ concat (map ?g (list_of_json (member step ''methods'')))"
      proof (rule folds)
        fix m q assume m: "m \<in> set (list_of_json (member step ''methods''))"
        show "steps_so_far (seal (fold (walk_step fn_caps ir cmp) (list_of_json (member (dict_of_json m) ''body'')) q)) = steps_so_far q @ ?g m"
          unfolding steps_seal by (rule folds) (rule "1.IH"(1) [OF JObj 2 m])
      qed
      then show ?thesis using 2 unfolding JObj by (subst walk_step.simps, subst emits_of.simps) (simp add: steps_seal)
    next
      case 3
      have "steps_so_far (fold (walk_step fn_caps ir cmp) (list_of_json (member step ''body'')) (seal p))
          = steps_so_far (seal p) @ concat (map emits_of (list_of_json (member step ''body'')))"
        by (rule folds) (rule "1.IH"(2) [OF JObj 3])
      then show ?thesis using 3 unfolding JObj by (subst walk_step.simps, subst emits_of.simps) (simp add: steps_seal)
    next
      case 4
      then show ?thesis unfolding JObj
        by (subst walk_step.simps, subst emits_of.simps) (simp add: steps_seal split: option.splits)
    qed
  qed (simp_all add: walk_step.simps emits_of.simps)
qed

lemma walk_steps_emits: "steps_so_far (walk_steps fn_caps ir cmp steps p) = steps_so_far p @ concat (map emits_of steps)"
  by (induction steps arbitrary: p) (simp_all add: walk_steps_def walk_step_emits)

lemma body_groups_emits: "concat (map group_steps (body_groups ir cmp)) = concat (map emits_of (list_of_json (member cmp ''body'')))"
proof -
  let ?p = "walk_steps (emitting_capabilities False crossing_classes (fns_of_ir ir) (externs_of_ir ir)) ir cmp (list_of_json (member cmp ''body'')) no_groups"
  have "map e_step (concat (body_groups ir cmp)) = steps_so_far (seal ?p)"
    using seal_groups(3) [of ?p] by (simp add: steps_so_far_def all_groups_def body_groups_def)
  also have "\<dots> = concat (map emits_of (list_of_json (member cmp ''body'')))"
    by (simp add: steps_seal walk_steps_emits) (simp add: steps_so_far_def all_groups_def no_groups_def)
  finally show ?thesis by (simp add: map_concat group_steps_def [abs_def])
qed



subsection \<open>Reordering inside a group\<close>









subsection \<open>Breaks\<close>

text \<open>What is sealed stays, and what comes later has later numbers.\<close>

definition grows_from :: "partition \<Rightarrow> partition \<Rightarrow> bool" where
  "grows_from q p \<longleftrightarrow> (\<exists>new. p_sealed p = p_sealed q @ new \<and> (\<forall>g \<in> set new. \<forall>e \<in> set g. p_next q \<le> e_index e))
     \<and> (\<forall>e \<in> set (p_current p). p_next q \<le> e_index e) \<and> p_next q \<le> p_next p"

lemma grows_seal: "grows_from q p \<Longrightarrow> grows_from q (seal p)"
  by (auto simp: grows_from_def seal_def)

lemma grows_add: "grows_from q p \<Longrightarrow> grows_from q (add_emission caps c s p)"
proof -
  assume g: "grows_from q p"
  obtain e where e: "e_index e = p_next p" "p_next (add_emission caps c s p) = Suc (p_next p)"
      "p_sealed (add_emission caps c s p) = p_sealed p \<and> p_current (add_emission caps c s p) = p_current p @ [e]
        \<or> p_sealed (add_emission caps c s p) = p_sealed (seal p) \<and> p_current (add_emission caps c s p) = [e]"
    using add_cases by blast
  have "p_next q \<le> e_index e" using g e(1) by (simp add: grows_from_def)
  then show ?thesis using g grows_seal [OF g] e(2,3) unfolding grows_from_def by auto
qed

text \<open>A step that ends the run: everything but an emission, pure filler and a member that is no step.\<close>

definition breaks_run :: "(string, string list) pydict \<Rightarrow> (string \<times> json) list \<Rightarrow> (string \<times> json) list \<Rightarrow> json \<Rightarrow> bool" where
  "breaks_run fn_caps ir cmp j \<longleftrightarrow> (\<exists>step. j = JObj step \<and> \<not> step_is step ''emit''
     \<and> (list_ex (step_is step) pure_eligible \<longrightarrow> step_reach fn_caps ir cmp j \<noteq> None))"

lemma fold_seals: "(\<And>x q. x \<in> set xs \<Longrightarrow> p_current (f x q) = []) \<Longrightarrow> p_current q = [] \<Longrightarrow> p_current (fold f xs q) = []"
  for f :: "json \<Rightarrow> partition \<Rightarrow> partition"
  by (induction xs arbitrary: q) auto

lemma step_is_unique: "step_is d k \<Longrightarrow> step_is d k' \<Longrightarrow> k = k'"
  by (simp add: step_is_def)

lemma break_seals: "breaks_run fn_caps ir cmp j \<Longrightarrow> p_current (walk_step fn_caps ir cmp j p) = []"
proof -
  assume b: "breaks_run fn_caps ir cmp j"
  then obtain step where j: "j = JObj step" and ne: "\<not> step_is step ''emit''"
    and pure: "list_ex (step_is step) pure_eligible \<longrightarrow> step_reach fn_caps ir cmp j \<noteq> None" by (auto simp: breaks_run_def)
  consider "step_is step ''provide''" | "\<not> step_is step ''provide''" "step_is step ''timer''"
    | "\<not> step_is step ''provide''" "\<not> step_is step ''timer''" by blast
  then show ?thesis
  proof cases
    case 1
    then show ?thesis unfolding j using ne
      by (subst walk_step.simps) (auto intro!: fold_seals simp: seal_groups(3))
  next
    case 2
    then show ?thesis unfolding j using ne by (subst walk_step.simps) (simp add: seal_groups(3))
  next
    case 3
    then show ?thesis using pure unfolding j using ne
      by (subst walk_step.simps) (auto simp: seal_groups(3) split: option.splits)
  qed
qed

lemma group_not_across:
  assumes "breaks_run fn_caps ir cmp b"
  shows "\<exists>old new. p_sealed (seal (walk_steps fn_caps ir cmp (before @ b # after) no_groups)) = old @ new
    \<and> concat (map group_steps old) = concat (map emits_of (before @ [b]))
    \<and> concat (map group_steps new) = concat (map emits_of after)"
proof -
  let ?q = "walk_steps fn_caps ir cmp (before @ [b]) no_groups"
  let ?p = "walk_steps fn_caps ir cmp after ?q"
  have cur: "p_current ?q = []" using break_seals [OF assms] by (simp add: walk_steps_def)
  have run: "walk_steps fn_caps ir cmp (before @ b # after) no_groups = ?p" by (simp add: walk_steps_def)
  have "grows_from ?q ?q" by (simp add: grows_from_def cur)
  then have "grows_from ?q ?p"
    using walk_steps_keeps [where P = "grows_from ?q", OF grows_seal grows_add] by blast
  then have "grows_from ?q (seal ?p)" by (rule grows_seal)
  then obtain new where new: "p_sealed (seal ?p) = p_sealed ?q @ new" by (auto simp: grows_from_def)
  have all: "map e_step (concat (p_sealed x)) = steps_so_far x" if "p_current x = []" for x
    using that by (simp add: steps_so_far_def all_groups_def)
  have old: "map e_step (concat (p_sealed ?q)) = concat (map emits_of (before @ [b]))"
    unfolding all [OF cur] walk_steps_emits by (simp add: steps_so_far_def all_groups_def no_groups_def)
  have "map e_step (concat (p_sealed (seal ?p))) = steps_so_far ?q @ concat (map emits_of after)"
    unfolding all [OF seal_groups(3)] steps_seal walk_steps_emits ..
  then have "map e_step (concat new) = concat (map emits_of after)" unfolding new by (simp add: all [OF cur, symmetric])
  moreover have "concat (map group_steps gs) = map e_step (concat gs)" for gs
    by (simp add: map_concat group_steps_def [abs_def])
  ultimately show ?thesis unfolding run using new old by metis
qed


subsection \<open>Properties\<close>

text \<open>C23: The plan of a body is a partition of its emit steps: read group by group it lists every emit step of the
  body, registrations and timers included, exactly once and in body order, with consecutive
  indices; no group is empty; and any two members of a group are provably independent, or both
  commutative crossings of one boundary.\<close>

theorem parallel_plan_partitions:
  "concat (map group_steps (body_groups ir cmp)) = concat (map emits_of (list_of_json (member cmp ''body'')))
   \<and> concat (map group_indices (body_groups ir cmp)) = [0..<length (concat (body_groups ir cmp))]
   \<and> [] \<notin> set (body_groups ir cmp)
   \<and> (\<forall>g \<in> set (body_groups ir cmp). sorted_wrt (\<lambda>a b. independent a b \<or> reorderable a b) g)"
  using body_groups_ok body_groups_emits unfolding compatible_emissions_def [abs_def] by blast

text \<open>Two services and a body with a break between its second and third emission.\<close>

definition req_call :: "string \<Rightarrow> string \<Rightarrow> json" where
  "req_call k m = JObj [(''kind'', JStr ''call''), (''target'', JObj [(''kind'', JStr ''req''), (''name'', JStr k)]), (''method'', JStr m), (''args'', JArr [])]"

definition emit_step :: "json \<Rightarrow> json" where
  "emit_step e = JObj [(''step'', JStr ''emit''), (''expr'', e)]"

definition demo_ir :: "(string \<times> json) list" where
  "demo_ir = [(''services'', JObj
     [(''Mail'', JObj [(''methods'', JObj [(''send'', JObj [(''emission'', JBool True), (''capabilities'', JArr [JStr ''net.smtp''])])])]),
      (''Store'', JObj [(''methods'', JObj [(''put'', JObj [(''emission'', JBool True), (''capabilities'', JArr [JStr ''db''])])])])])]"

definition demo_component :: "(string \<times> json) list" where
  "demo_component = [(''requires'', JObj [(''mail'', JStr ''Mail''), (''store'', JStr ''Store'')]),
     (''body'', JArr [emit_step (req_call ''mail'' ''send''), JObj [(''step'', JStr ''let''), (''value'', JInt 1)],
        emit_step (req_call ''store'' ''put''), JObj [(''step'', JStr ''if'')], emit_step (req_call ''mail'' ''send'')])]"

theorem parallel_plan_partitions_witness:
  "concat (map group_indices (body_groups demo_ir demo_component)) = [0..<length (concat (body_groups demo_ir demo_component))]
   \<and> map group_indices (body_groups demo_ir demo_component) = [[0, 1], [2]]"
proof -
  have "map group_indices (body_groups demo_ir demo_component) = [[0, 1], [2]]" by code_simp
  then show ?thesis using parallel_plan_partitions [of demo_ir demo_component] by blast
qed

lemma demo_groups: "map group_indices (body_groups demo_ir demo_component) = [[0, 1], [2]]"
  by code_simp



text \<open>No group spans a break. If a step that is neither an emission nor pure filler stands between two parts of
  a body, the groups split into those that hold the emissions up to and including the step and
  those that hold the emissions after it.\<close>

theorem parallel_groups_respect_breaks:
  assumes "fn_caps = emitting_capabilities False crossing_classes (fns_of_ir ir) (externs_of_ir ir)"
    and "list_of_json (member cmp ''body'') = before @ b # after" "breaks_run fn_caps ir cmp b"
  shows "\<exists>old new. body_groups ir cmp = old @ new \<and> concat (map group_steps old) = concat (map emits_of (before @ [b]))
    \<and> concat (map group_steps new) = concat (map emits_of after)"
  using group_not_across [OF assms(3)] assms(2) unfolding body_groups_def assms(1) [symmetric] by simp

theorem parallel_groups_respect_breaks_witness:
  "\<exists>old new. body_groups demo_ir demo_component = old @ new \<and> concat (map group_steps new) = [emit_step (req_call ''mail'' ''send'')]"
proof -
  have body: "list_of_json (member demo_component ''body'') = [emit_step (req_call ''mail'' ''send''), JObj [(''step'', JStr ''let''), (''value'', JInt 1)],
        emit_step (req_call ''store'' ''put'')] @ JObj [(''step'', JStr ''if'')] # [emit_step (req_call ''mail'' ''send'')]"
    by (simp add: demo_component_def list_of_json_def member_def dict_get_def)
  have "breaks_run fn_caps demo_ir demo_component (JObj [(''step'', JStr ''if'')])" for fn_caps
    by (simp add: breaks_run_def step_is_def pure_eligible_def member_def dict_get_def)
  then obtain old new where "body_groups demo_ir demo_component = old @ new"
      "concat (map group_steps new) = concat (map emits_of [emit_step (req_call ''mail'' ''send'')])"
    using parallel_groups_respect_breaks [OF refl body] by blast
  moreover have "emits_of (emit_step e) = [emit_step e]" for e
    unfolding emit_step_def by (subst emits_of.simps) (simp add: step_is_def member_def dict_get_def)
  ultimately show ?thesis by auto
qed

text \<open>An emit step is not itself asked what its arguments reach: one whose argument calls a function that
  reaches an unnameable boundary is grouped with its neighbour.\<close>

definition star_ir :: "(string \<times> json) list" where
  "star_ir = (''externs'', JArr [JObj [(''name'', JStr ''send''), (''class'', JStr ''emission'')]])
     # (''functions'', JArr [JObj [(''name'', JStr ''relay''), (''body'', JArr [JObj [(''kind'', JStr ''var''), (''name'', JStr ''send'')]])]]) # demo_ir"

definition star_component :: "(string \<times> json) list" where
  "star_component = [(''requires'', JObj [(''mail'', JStr ''Mail''), (''store'', JStr ''Store'')]),
     (''body'', JArr [emit_step (req_call ''mail'' ''send''),
        emit_step (JObj [(''kind'', JStr ''call''), (''target'', JObj [(''kind'', JStr ''req''), (''name'', JStr ''store'')]), (''method'', JStr ''put''),
          (''args'', JArr [JObj [(''kind'', JStr ''fn''), (''name'', JStr ''relay'')]])])])]"

lemma star_in_argument_is_grouped:
  "map group_indices (body_groups star_ir star_component) = [[0, 1]]
   \<and> ''*'' \<in> set (dict_get (emitting_capabilities False crossing_classes (fns_of_ir star_ir) (externs_of_ir star_ir)) ''relay'' [])"
proof
  show "map group_indices (body_groups star_ir star_component) = [[0, 1]]" by code_simp
  show "''*'' \<in> set (dict_get (emitting_capabilities False crossing_classes (fns_of_ir star_ir) (externs_of_ir star_ir)) ''relay'' [])" by code_simp
qed

end
