(* ===== verification/Brace_Match.thy ===== *)
theory Brace_Match
  imports Revl_Prelude
begin

section \<open>Raw braces (\<open>src/revl/lexer.py\<close>)\<close>

text \<open>
  The scanner that finds the closing brace of a \<^verbatim>\<open>${...}\<close> interpolation or of a host body without
  being misled by a brace inside a string, a character literal or a comment.  A position of
  the source is the suffix that starts there: an index \<^verbatim>\<open>i\<close> of the code is \<open>drop i source\<close>, and
  \<^verbatim>\<open>source.startswith(p, i)\<close> is \<open>prefix p\<close>.
\<close>

abbreviation line_end :: char where "line_end \<equiv> CHR 10"

datatype string_mode = Escaped | Raw | Char_Literal

record trivia =
  tv_strings :: "(char, string_mode) pydict"
  tv_line :: "string list"
  tv_blocks :: "(string \<times> string) list"
  tv_triples :: "string list"

definition revl_trivia :: trivia where
  "revl_trivia = \<lparr>tv_strings = [(CHR 0x22, Escaped), (CHR 0x60, Raw)], tv_line = [''//''], tv_blocks = [], tv_triples = []\<rparr>"

definition c_family :: trivia where
  "c_family = \<lparr>tv_strings = [(CHR 0x22, Escaped), (CHR 0x27, Char_Literal), (CHR 0x60, Raw)], tv_line = [],
     tv_blocks = [(''/*'', ''*/'')], tv_triples = []\<rparr>"

definition ts_trivia :: trivia where
  "ts_trivia = \<lparr>tv_strings = [(CHR 0x22, Escaped), (CHR 0x27, Escaped), (CHR 0x60, Raw)], tv_line = [],
     tv_blocks = [(''/*'', ''*/'')], tv_triples = []\<rparr>"

definition py_trivia :: trivia where
  "py_trivia = \<lparr>tv_strings = [(CHR 0x22, Escaped), (CHR 0x27, Escaped)], tv_line = [], tv_blocks = [],
     tv_triples = [replicate 3 (CHR 0x22), replicate 3 (CHR 0x27)]\<rparr>"

definition wasm_trivia :: trivia where
  "wasm_trivia = \<lparr>tv_strings = [(CHR 0x22, Escaped)], tv_line = [], tv_blocks = [(''(;'', '';)'')], tv_triples = []\<rparr>"

definition host_trivia :: "(string, trivia) pydict" where
  "host_trivia = [(''rust'', c_family), (''go'', c_family), (''java'', c_family), (''ts'', ts_trivia), (''typescript'', ts_trivia),
     (''node'', ts_trivia), (''js'', ts_trivia), (''py'', py_trivia), (''python'', py_trivia), (''wasm'', wasm_trivia)]"


subsection \<open>Skipping one literal or comment\<close>

text \<open>\<^verbatim>\<open>source.find(p, i)\<close>, answered by the suffix just past the match\<close>

fun after_first :: "string \<Rightarrow> string \<Rightarrow> string option" where
  "after_first p [] = (if p = [] then Some [] else None)"
| "after_first p (c # r) = (if prefix p (c # r) then Some (drop (length p) (c # r)) else after_first p r)"

text \<open>The text behind the opening quote of what may be a character literal.\<close>

definition char_literal_end :: "string \<Rightarrow> string option" where
  "char_literal_end s = (case s of
     [] \<Rightarrow> None
   | c # r \<Rightarrow>
       if c = line_end then None
       else if c = CHR 0x5C then
         (case dropWhile (\<lambda>x. x \<noteq> CHR 0x27 \<and> x \<noteq> line_end) (drop 1 r) of
            x # q \<Rightarrow> if x = CHR 0x27 then Some q else None
          | [] \<Rightarrow> None)
       else if c \<noteq> CHR 0x27 then
         (case r of x # q \<Rightarrow> if x = CHR 0x27 then Some q else None | [] \<Rightarrow> None)
       else None)"

fun skip_escaped :: "char \<Rightarrow> string \<Rightarrow> string" where
  "skip_escaped quote [] = []"
| "skip_escaped quote [x] = (if x = CHR 0x5C then [] else if x = quote then [] else if x = line_end then [x] else [])"
| "skip_escaped quote (x # y # r) = (if x = CHR 0x5C then skip_escaped quote r
     else if x = quote then y # r else if x = line_end then x # y # r else skip_escaped quote (y # r))"

fun skip_triple :: "string \<Rightarrow> string \<Rightarrow> string" where
  "skip_triple t [] = []"
| "skip_triple t [x] = (if prefix t [x] then drop (length t) [x] else [])"
| "skip_triple t (x # y # r) = (if prefix t (x # y # r) then drop (length t) (x # y # r)
     else if x = CHR 0x5C then skip_triple t r else skip_triple t (y # r))"

text \<open>The position behind the literal or comment that begins here, or here when none does.\<close>

definition skip_string :: "trivia \<Rightarrow> char \<Rightarrow> string \<Rightarrow> string" where
  "skip_string tv c r = (case map_of (tv_strings tv) c of
     None \<Rightarrow> c # r
   | Some Char_Literal \<Rightarrow> (case char_literal_end r of Some q \<Rightarrow> q | None \<Rightarrow> c # r)
   | Some Raw \<Rightarrow> (case after_first [c] r of Some q \<Rightarrow> q | None \<Rightarrow> [])
   | Some Escaped \<Rightarrow> skip_escaped c r)"

definition skip_trivia :: "trivia \<Rightarrow> string \<Rightarrow> string" where
  "skip_trivia tv s = (case List.find (\<lambda>(opener, closer). prefix opener s) (tv_blocks tv) of
     Some (opener, closer) \<Rightarrow> (case after_first closer (drop (length opener) s) of Some q \<Rightarrow> q | None \<Rightarrow> [])
   | None \<Rightarrow>
     if list_ex (\<lambda>opener. prefix opener s) (tv_line tv) then dropWhile (\<lambda>x. x \<noteq> line_end) s
     else (case List.find (\<lambda>t. prefix t s) (tv_triples tv) of
         Some t \<Rightarrow> skip_triple t (drop (length t) s)
       | None \<Rightarrow> skip_string tv (hd s) (tl s)))"

text \<open>One move over a character that is not a brace.\<close>

definition skip_plain :: "trivia \<Rightarrow> string \<Rightarrow> string" where
  "skip_plain tv s = (let q = skip_trivia tv s in if length q < length s then q else tl s)"

lemma skip_plain_less: "length (skip_plain tv (c # r)) < Suc (length r)"
  by (simp add: skip_plain_def Let_def)


subsection \<open>The matching brace\<close>

function match_from :: "trivia \<Rightarrow> int \<Rightarrow> string \<Rightarrow> string option" where
  "match_from tv depth [] = None"
| "match_from tv depth (c # r) =
     (if c = CHR ''{'' then match_from tv (depth + 1) r
      else if c = CHR ''}'' then (if depth - 1 = 0 then Some (c # r) else match_from tv (depth - 1) r)
      else match_from tv depth (skip_plain tv (c # r)))"
  by pat_completeness auto
termination
  by (relation "measure (\<lambda>(tv, depth, s). length s)") (simp_all only: in_measure case_prod_conv wf_measure skip_plain_less length_Cons lessI)

text \<open>Every position the scanner reaches lies behind the one it started from.\<close>

lemma after_first_suffix: "after_first p s = Some q \<Longrightarrow> suffix q s"
  by (induction p s rule: after_first.induct) (auto split: if_splits intro: suffix_drop suffix_ConsI simp del: drop.simps)

lemma drop_suffix: "suffix (drop n s) s"
  by (simp add: suffix_drop)

lemma dropWhile_suffix: "suffix (dropWhile P s) s"
  by (simp add: suffix_dropWhile)

lemma char_literal_suffix: "char_literal_end s = Some q \<Longrightarrow> suffix q s"
proof (cases s)
  case (Cons c r)
  have "suffix q (c # r)" if "dropWhile P (drop 1 r) = x # q" for P x
  proof -
    have "suffix (x # q) (c # r)" by (metis that dropWhile_suffix drop_suffix suffix_ConsI suffix_order.trans)
    then show ?thesis by (rule suffix_ConsD)
  qed
  moreover assume "char_literal_end s = Some q"
  ultimately show ?thesis unfolding Cons by (auto simp: char_literal_end_def suffix_ConsI split: if_splits list.splits)
qed (simp add: char_literal_end_def)

lemma skip_escaped_suffix: "suffix (skip_escaped quote s) s"
  by (induction quote s rule: skip_escaped.induct) (auto intro: suffix_ConsI)

lemma skip_triple_suffix: "suffix (skip_triple t s) s"
  by (induction t s rule: skip_triple.induct) (auto intro: suffix_ConsI suffix_drop simp del: drop.simps)

lemma skip_string_suffix: "suffix (skip_string tv c r) (c # r)"
  by (auto simp: skip_string_def intro: suffix_ConsI skip_escaped_suffix char_literal_suffix after_first_suffix split: option.splits string_mode.splits)

lemma skip_trivia_suffix: "suffix (skip_trivia tv (c # r)) (c # r)"
proof -
  have 1: "suffix q (c # r)" if "after_first closer (drop n (c # r)) = Some q" for closer q n
    by (rule suffix_order.trans [OF after_first_suffix [OF that] drop_suffix])
  have 2: "suffix (skip_triple t (drop n (c # r))) (c # r)" for t n
    by (rule suffix_order.trans [OF skip_triple_suffix drop_suffix])
  show ?thesis
    unfolding skip_trivia_def
    by (auto simp only: list.sel intro: 1 2 dropWhile_suffix skip_string_suffix Nil_suffix split: option.splits if_splits)
qed

lemma skip_plain_suffix: "suffix (skip_plain tv (c # r)) r"
proof (cases "length (skip_trivia tv (c # r)) < length (c # r)")
  case True
  then have "skip_trivia tv (c # r) \<noteq> c # r" by auto
  then show ?thesis using skip_trivia_suffix [of tv c r] True by (simp add: skip_plain_def suffix_Cons)
qed (simp add: skip_plain_def)

lemma match_from_suffix: "match_from tv depth s = Some q \<Longrightarrow> suffix q s \<and> q \<noteq> [] \<and> hd q = CHR ''}''"
proof (induction tv depth s rule: match_from.induct)
  case (2 tv depth c r)
  then show ?case
    using skip_plain_suffix [of tv c r] by (auto split: if_splits intro: suffix_ConsI suffix_order.trans)
qed simp

definition match_brace :: "trivia \<Rightarrow> string \<Rightarrow> string option" where
  "match_brace tv s = match_from tv 0 s"

lemma match_brace_suffix: "match_brace tv s = Some q \<Longrightarrow> suffix q s \<and> q \<noteq> [] \<and> hd q = CHR ''}''"
  unfolding match_brace_def by (rule match_from_suffix)

text \<open>The text between two positions, the second behind the first.\<close>

definition text_before :: "string \<Rightarrow> string \<Rightarrow> string" where
  "text_before q s = take (length s - length q) s"

lemma text_before_suffix: "suffix q s \<Longrightarrow> s = text_before q s @ q"
  by (auto simp: suffix_def text_before_def)

lemma text_before_append [simp]: "text_before q (a @ q) = a"
  by (simp add: text_before_def)

end
