(* ===== verification/Lexer.thy ===== *)
theory Lexer
  imports Brace_Match
begin

section \<open>The lexer (\<open>src/revl/lexer.py\<close>)\<close>

text \<open>
  The tokenizer of the language: keywords, operators, the identifier alphabet, number and string
  literals, templates and host bodies, and the main loop with its line counter.  As in
  \<open>Brace_Match\<close> a position is a suffix of the source.  Characters are those below code point
  256, so the two branches for a byte-order mark and for a lone surrogate have no input; the other branches
  for characters outside the identifier alphabet are those of Latin-1.
\<close>

subsection \<open>Tables\<close>

definition reserved_words :: "string list" where
  "reserved_words = [''service'', ''component'', ''requires'', ''provides'', ''config'', ''let'', ''effect'', ''undo'', ''emit'', ''emission'',
     ''provide'', ''fn'', ''return'', ''true'', ''false'', ''null'', ''isolate'', ''intercept'', ''realm'', ''in'', ''with'', ''handoff'', ''spawn'',
     ''every'', ''after'', ''subscribe'', ''type'', ''use'', ''pub'', ''var'', ''while'', ''for'', ''of'', ''if'', ''else'', ''match'', ''test'',
     ''assert'', ''async'', ''as'', ''fail'', ''break'', ''continue'', ''hole'', ''extern'', ''acquire'', ''pure'', ''compensate'', ''await'',
     ''verified'', ''commutative'', ''try'', ''idempotent'']"

definition symbol_chars :: string where "symbol_chars = ''{}()[],:=.''"

definition operators :: "string list" where
  "operators = [''==='', ''!=='', ''=>'', ''?.'', ''??'', ''<<'', ''>>'', ''<='', ''>='', ''=='', ''!='', ''&&'', ''||'', ''->'']"

definition operators_by_first :: "(char, string list) pydict" where
  "operators_by_first = fold (\<lambda>op d. AList.update (hd op) (dict_get d (hd op) [] @ [op]) d) operators []"

definition single_operators :: string where "single_operators = ''+-*/%<>!?;|@&^~''"

text \<open>The first operator of the bucket that the source continues with.\<close>

definition match_operator :: "string \<Rightarrow> string option" where
  "match_operator s = (case s of [] \<Rightarrow> None
     | c # r \<Rightarrow> (case map_of operators_by_first c of None \<Rightarrow> None | Some bucket \<Rightarrow> List.find (\<lambda>op. prefix op s) bucket))"

text \<open>A character that a Unicode-permissive lexer would take as identifier text, below code point 256.\<close>

definition uni_ident :: "char \<Rightarrow> bool" where
  "uni_ident c \<longleftrightarrow> ident_char c \<or> (let n = (of_char c :: nat) in
     n \<in> {170, 178, 179, 181, 185, 186, 188, 189, 190} \<or> (192 \<le> n \<and> n \<noteq> 215 \<and> n \<noteq> 247))"

definition is_ascii :: "char \<Rightarrow> bool" where
  "is_ascii c \<longleftrightarrow> (of_char c :: nat) < 128"


subsection \<open>Tokens and refusals\<close>

datatype template_part = Text_Part string | Expr_Part string

datatype token_value = No_Value | Str_Value string | Int_Value int | Float_Value string | Parts_Value "template_part list" | Host_Value string string

record token =
  tk_kind :: string
  tk_value :: token_value
  tk_line :: int
  tk_interp :: "int list"
  tk_stray :: "(int \<times> int) option"

definition plain_token :: "string \<Rightarrow> token_value \<Rightarrow> int \<Rightarrow> token" where
  "plain_token kind v line = \<lparr>tk_kind = kind, tk_value = v, tk_line = line, tk_interp = [], tk_stray = None\<rparr>"

datatype lex_problem =
    Misplaced_Separator string | No_Digit string | Integer_Too_Long
  | Unterminated_String | Dollar_In_String | Unterminated_Triple
  | Unterminated_Interpolation | Empty_Interpolation | Unterminated_Template
  | Non_Ascii_Identifier string char | F_String string char | Unterminated_Host string
  | Hash_Comment | Unexpected_Character char

type_synonym lex_error = "int \<times> lex_problem"

fun at_line :: "int \<Rightarrow> lex_problem + 'a \<Rightarrow> lex_error + 'a" where
  "at_line line (Inl p) = Inl (line, p)"
| "at_line line (Inr x) = Inr x"

text \<open>The number of line ends in a text.\<close>

definition newlines :: "string \<Rightarrow> int" where
  "newlines s = int (count_list s line_end)"

text \<open>The identifier-shaped run around a position of the source, and its first character outside ASCII.\<close>

definition word_around :: "string \<Rightarrow> string \<Rightarrow> string" where
  "word_around source s = rev (takeWhile uni_ident (rev (text_before s source))) @ takeWhile uni_ident s"

definition non_ascii_ident :: "string \<Rightarrow> string \<Rightarrow> lex_problem" where
  "non_ascii_ident source s = (let word = word_around source s in
     Non_Ascii_Identifier word (case List.find (\<lambda>c. \<not> is_ascii c) word of Some c \<Rightarrow> c | None \<Rightarrow> CHR 0x00))"


subsection \<open>Numbers\<close>

fun grouped_digits :: "(char \<Rightarrow> bool) \<Rightarrow> string \<Rightarrow> bool \<Rightarrow> string \<Rightarrow> string \<Rightarrow> lex_problem + (string \<times> string)" where
  "grouped_digits valid what prev buf [] =
     (if buf = [] then Inl (No_Digit what) else if prev then Inl (Misplaced_Separator what) else Inr ([], buf))"
| "grouped_digits valid what prev buf (c # r) =
     (if c = CHR ''_'' then (if buf = [] \<or> prev then Inl (Misplaced_Separator what) else grouped_digits valid what True buf r)
      else if valid c then grouped_digits valid what False (buf @ [c]) r
      else if buf = [] then Inl (No_Digit what) else if prev then Inl (Misplaced_Separator what) else Inr (c # r, buf))"

definition scan_digits :: "(char \<Rightarrow> bool) \<Rightarrow> string \<Rightarrow> string \<Rightarrow> lex_problem + (string \<times> string)" where
  "scan_digits valid what s = grouped_digits valid what False [] s"

definition is_hex_digit :: "char \<Rightarrow> bool" where
  "is_hex_digit c \<longleftrightarrow> is_digit c \<or> c \<in> set ''abcdefABCDEF''"

definition hex_value :: "char \<Rightarrow> int" where
  "hex_value c = (let n = (of_char c :: int) in if is_digit c then n - 48 else if 97 \<le> n then n - 87 else n - 55)"

definition digits_value :: "int \<Rightarrow> string \<Rightarrow> int" where
  "digits_value base ds = foldl (\<lambda>v c. base * v + hex_value c) 0 ds"

definition radix_of :: "char \<Rightarrow> (int \<times> string \<times> (char \<Rightarrow> bool)) option" where
  "radix_of c = (let l = py_lower_char c in
     if l = CHR ''x'' then Some (16, ''hexadecimal'', is_hex_digit)
     else if l = CHR ''b'' then Some (2, ''binary'', \<lambda>d. d \<in> set ''01'')
     else if l = CHR ''o'' then Some (8, ''octal'', \<lambda>d. d \<in> set ''01234567'')
     else None)"

text \<open>The longest decimal literal Python's \<^verbatim>\<open>int()\<close> converts.\<close>

definition max_str_digits :: nat where "max_str_digits = 4300"

text \<open>An optional fraction and an optional exponent; the flag says whether the number is a float.\<close>

definition scan_fraction :: "string \<times> string \<Rightarrow> lex_problem + (string \<times> string \<times> bool)" where
  "scan_fraction sn = (case sn of
     (p # d # r, num) \<Rightarrow> if p = CHR ''.'' \<and> is_digit d
         then res_bind (scan_digits is_digit ''number'' (d # r)) (\<lambda>(q, frac). Inr (q, num @ ''.'' @ frac, True))
         else Inr (p # d # r, num, False)
   | (s, num) \<Rightarrow> Inr (s, num, False))"

definition exponent_sign :: "string \<Rightarrow> string \<times> string" where
  "exponent_sign s = (case s of c # r \<Rightarrow> if c \<in> set ''+-'' then ([c], r) else ([], s) | [] \<Rightarrow> ([], []))"

definition scan_exponent :: "string \<times> string \<times> bool \<Rightarrow> lex_problem + (string \<times> string \<times> bool)" where
  "scan_exponent snf = (case snf of (s, num, is_float) \<Rightarrow>
     (case s of
        e # r \<Rightarrow> (case exponent_sign r of (sign, q) \<Rightarrow>
          if e \<in> set ''eE'' \<and> q \<noteq> [] \<and> is_digit (hd q)
          then res_bind (scan_digits is_digit ''number'' q) (\<lambda>(q', ex). Inr (q', num @ ''e'' @ sign @ ex, True))
          else Inr (s, num, is_float))
      | [] \<Rightarrow> Inr (s, num, is_float)))"

definition finish_number :: "string \<times> string \<times> bool \<Rightarrow> lex_problem + (string \<times> string \<times> token_value)" where
  "finish_number snf = (case snf of (s, num, is_float) \<Rightarrow>
     if is_float then Inr (s, ''float'', Float_Value num)
     else if length num > max_str_digits then Inl Integer_Too_Long
     else Inr (s, ''int'', Int_Value (digits_value 10 num)))"

text \<open>The position behind the number, its token kind and its value.\<close>

definition lex_number :: "string \<Rightarrow> lex_problem + (string \<times> string \<times> token_value)" where
  "lex_number s = (case s of
     z # c # r \<Rightarrow> (case (if z = CHR ''0'' then radix_of c else None) of
         Some (base, what, valid) \<Rightarrow> res_bind (scan_digits valid what r) (\<lambda>(q, ds). Inr (q, ''int'', Int_Value (digits_value base ds)))
       | None \<Rightarrow> res_bind (scan_digits is_digit ''number'' s) (\<lambda>x. res_bind (scan_fraction x) (\<lambda>y. res_bind (scan_exponent y) finish_number)))
   | _ \<Rightarrow> res_bind (scan_digits is_digit ''number'' s) (\<lambda>x. res_bind (scan_fraction x) (\<lambda>y. res_bind (scan_exponent y) finish_number)))"


subsection \<open>Strings\<close>

text \<open>Whether a text occurs in another.\<close>

definition occurs :: "string \<Rightarrow> string \<Rightarrow> bool" where
  "occurs p s \<longleftrightarrow> after_first p s \<noteq> None"

text \<open>A complete \<^verbatim>\<open>${...}\<close> in a plain string that carries no backtick.\<close>

definition looks_interpolated :: "string \<Rightarrow> bool" where
  "looks_interpolated text = (case after_first ''${'' text of None \<Rightarrow> False
     | Some r \<Rightarrow> CHR 0x60 \<notin> set text \<and> CHR ''}'' \<in> set r)"

definition close_string :: "string \<Rightarrow> string \<Rightarrow> lex_problem + (string \<times> string)" where
  "close_string buf r = (if looks_interpolated buf then Inl Dollar_In_String else Inr (r, buf))"

fun lex_string :: "char \<Rightarrow> string \<Rightarrow> string \<Rightarrow> lex_problem + (string \<times> string)" where
  "lex_string quote buf [] = Inl Unterminated_String"
| "lex_string quote buf [c] =
     (if c = quote then close_string buf [] else if c = line_end then Inl Unterminated_String else lex_string quote (buf @ [c]) [])"
| "lex_string quote buf (c # d # r) =
     (if c = CHR 0x5C \<and> (d = quote \<or> d = CHR 0x5C) then lex_string quote (buf @ [d]) r
      else if c = quote then close_string buf (d # r)
      else if c = line_end then Inl Unterminated_String
      else lex_string quote (buf @ [c]) (d # r))"

definition triple_quote :: string where "triple_quote = replicate 3 (CHR 0x22)"

fun triple_body :: "int \<Rightarrow> int \<Rightarrow> string \<Rightarrow> string \<Rightarrow> lex_error + (string \<times> string \<times> int)" where
  "triple_body start line buf [] = Inl (start, Unterminated_Triple)"
| "triple_body start line buf (c # r) =
     (if prefix triple_quote (c # r) then Inr (drop 3 (c # r), buf, line)
      else triple_body start (if c = line_end then line + 1 else line) (buf @ [c]) r)"

definition lex_triple :: "int \<Rightarrow> string \<Rightarrow> lex_error + (string \<times> string \<times> int)" where
  "lex_triple line s = (case s of c # r \<Rightarrow> if c = line_end then triple_body (line + 1) (line + 1) [] r else triple_body line line [] s
     | [] \<Rightarrow> triple_body line line [] s)"


subsection \<open>Templates\<close>

text \<open>\<^verbatim>\<open>source.rfind(p)\<close>, answered by the suffix just past the last match\<close>

fun after_last :: "string \<Rightarrow> string \<Rightarrow> string option" where
  "after_last p [] = None"
| "after_last p (c # r) = (case after_last p r of Some q \<Rightarrow> Some q
     | None \<Rightarrow> if prefix p (c # r) then Some (drop (length p) (c # r)) else None)"

definition has_open_block_comment :: "string \<Rightarrow> bool" where
  "has_open_block_comment body = (case after_last ''/*'' body of None \<Rightarrow> False | Some r \<Rightarrow> \<not> occurs ''*/'' r)"

definition closing_backtick_is_stray :: "string \<Rightarrow> string \<Rightarrow> bool" where
  "closing_backtick_is_stray body rest =
     (let line_before = rev (takeWhile (\<lambda>c. c \<noteq> line_end) (rev body)) in
      if \<not> (occurs ''//'' line_before \<or> has_open_block_comment body) then False
      else py_strip (takeWhile (\<lambda>c. c \<noteq> line_end) rest) \<noteq> [])"

definition flush_text :: "string \<Rightarrow> template_part list \<Rightarrow> template_part list" where
  "flush_text buf parts = (if buf \<noteq> [] then parts @ [Text_Part buf] else parts)"

record template =
  tm_rest :: string
  tm_parts :: "template_part list"
  tm_line :: int
  tm_stray :: "(int \<times> int) option"
  tm_interp :: "int list"

text \<open>The template loop: \<open>body\<close> is the position behind the opening backtick, \<open>start\<close> its line.\<close>

function template_from :: "string \<Rightarrow> int \<Rightarrow> int \<Rightarrow> string \<Rightarrow> template_part list \<Rightarrow> int list \<Rightarrow> string \<Rightarrow> lex_error + template" where
  "template_from body start line buf parts interp [] = Inl (start, Unterminated_Template)"
| "template_from body start line buf parts interp (c # r) =
     (if c = CHR 0x60 then
        Inr \<lparr>tm_rest = r, tm_parts = flush_text buf parts, tm_line = line,
             tm_stray = (if closing_backtick_is_stray (text_before (c # r) body) r then Some (start, line) else None),
             tm_interp = interp\<rparr>
      else if c = line_end then template_from body start (line + 1) (buf @ [c]) parts interp r
      else if c = CHR ''$'' \<and> r \<noteq> [] \<and> hd r = CHR ''{'' then
        (case match_brace revl_trivia r of
           None \<Rightarrow> Inl (line, Unterminated_Interpolation)
         | Some q \<Rightarrow>
             (let raw = text_before q (tl r) in
              if py_strip raw = [] then Inl (line, Empty_Interpolation)
              else template_from body start (line + newlines (text_before q (c # r))) []
                     (flush_text buf parts @ [Expr_Part (py_strip raw)])
                     (interp @ [line + newlines (takeWhile py_space raw)]) (tl q)))
      else template_from body start line (buf @ [c]) parts interp r)"
  by pat_completeness auto
termination
proof (relation "measure (\<lambda>(body, start, line, buf, parts, interp, s). length s)", goal_cases)
  case (3 body start line buf parts interp c r q raw)
  then have "suffix q r" using match_brace_suffix by blast
  then show ?case using suffix_length_le by fastforce
qed simp_all

definition lex_template :: "int \<Rightarrow> string \<Rightarrow> lex_error + template" where
  "lex_template line s = template_from s line line [] [] [] s"


subsection \<open>The main loop\<close>

text \<open>Words: a run of identifier characters, refused when another script or a quote is glued to it.\<close>

definition lex_word :: "string \<Rightarrow> string \<Rightarrow> lex_problem + (string \<times> string)" where
  "lex_word source s = (let word = takeWhile ident_char s; rest = dropWhile ident_char s in
     case rest of [] \<Rightarrow> Inr (rest, word)
     | d # r \<Rightarrow> if uni_ident d then Inl (non_ascii_ident source rest)
         else if word \<in> {''f'', ''F''} \<and> (d = CHR 0x22 \<or> d = CHR 0x27) then Inl (F_String word d)
         else Inr (rest, word))"

text \<open>Behind an \<^verbatim>\<open>@\<close> that a name follows: a host body in braces, or a lone symbol.\<close>

definition lex_host :: "int \<Rightarrow> string \<Rightarrow> lex_error + (token \<times> int \<times> string)" where
  "lex_host line s = (let r = tl s; backend = takeWhile ident_char r; k = dropWhile py_space (dropWhile ident_char r) in
     if k \<noteq> [] \<and> hd k = CHR ''{'' then
       (case match_brace (dict_get host_trivia backend c_family) k of
          None \<Rightarrow> Inl (line, Unterminated_Host backend)
        | Some p \<Rightarrow> Inr (plain_token ''hostbody'' (Host_Value backend (text_before p (tl k))) line,
            line + newlines (text_before (tl p) s), tl p))
     else Inr (plain_token ''@'' (Str_Value ''@'') line, line, r))"

text \<open>A token that is neither an operator nor skipped.\<close>

definition string_token :: "int \<Rightarrow> string \<Rightarrow> token" where
  "string_token line text = plain_token ''string'' (Str_Value text) line"

definition template_token :: "int \<Rightarrow> template \<Rightarrow> token" where
  "template_token line t = (plain_token ''template'' (Parts_Value (tm_parts t)) line) \<lparr>tk_interp := tm_interp t, tk_stray := tm_stray t\<rparr>"

definition word_token :: "int \<Rightarrow> string \<Rightarrow> token" where
  "word_token line word = plain_token (if word \<in> set reserved_words then ''kw'' else ''ident'') (Str_Value word) line"

definition literal_token :: "string \<Rightarrow> int \<Rightarrow> string \<Rightarrow> lex_error + (token \<times> int \<times> string)" where
  "literal_token source line s = (let c = hd s; r = tl s in
     if prefix triple_quote s then res_bind (lex_triple line (drop 3 s)) (\<lambda>(q, text, l). Inr (string_token line text, l, q))
     else if c = CHR 0x22 \<or> c = CHR 0x27 then res_bind (at_line line (lex_string c [] r)) (\<lambda>(q, text). Inr (string_token line text, line, q))
     else if c = CHR 0x60 then res_bind (lex_template line r) (\<lambda>t. Inr (template_token line t, tm_line t, tm_rest t))
     else if is_alpha_us c then res_bind (at_line line (lex_word source s)) (\<lambda>(q, word). Inr (word_token line word, line, q))
     else if is_digit c then res_bind (at_line line (lex_number s)) (\<lambda>(q, kind, v). Inr (plain_token kind v line, line, q))
     else if c = CHR ''@'' \<and> r \<noteq> [] \<and> is_alpha_us (hd r) then lex_host line s
     else if c \<in> set symbol_chars \<or> c \<in> set single_operators then Inr (plain_token [c] (Str_Value [c]) line, line, r)
     else if c = CHR ''#'' then Inl (line, Hash_Comment)
     else if uni_ident c then Inl (line, non_ascii_ident source s)
     else Inl (line, Unexpected_Character c))"

text \<open>One iteration of the loop: the tokens it appends, the line counter and the position behind it.\<close>

definition operator_token :: "int \<Rightarrow> string \<Rightarrow> token" where
  "operator_token line op = plain_token (if op = ''->'' then ''arrow'' else op) (Str_Value op) line"

definition next_token :: "string \<Rightarrow> int \<Rightarrow> string \<Rightarrow> lex_error + (token list \<times> int \<times> string)" where
  "next_token source line s =
     (if hd s = line_end then Inr ([], line + 1, tl s)
      else if py_space (hd s) then Inr ([], line, tl s)
      else if prefix ''//'' s then Inr ([], line, dropWhile (\<lambda>x. x \<noteq> line_end) s)
      else case match_operator s of
        Some op \<Rightarrow> Inr ([operator_token line op], line, drop (length op) s)
      | None \<Rightarrow> res_bind (literal_token source line s) (\<lambda>(t, l, q). Inr ([t], l, q)))"

subsection \<open>Every scanner moves forward and counts its lines\<close>

text \<open>From one position to a later one, with the line counter advanced by the line ends between them.\<close>

definition advances :: "int \<Rightarrow> string \<Rightarrow> int \<Rightarrow> string \<Rightarrow> bool" where
  "advances line s l q \<longleftrightarrow> (\<exists>a. s = a @ q \<and> l = line + newlines a)"

named_theorems advance \<open>how far a scanner moves\<close>

lemma newlines_simps [simp]: "newlines [] = 0" "newlines (c # a) = (if c = line_end then 1 else 0) + newlines a"
    "newlines (a @ b) = newlines a + newlines b"
  by (simp_all add: newlines_def)

lemma newlines_none: "line_end \<notin> set a \<Longrightarrow> newlines a = 0"
  by (simp add: newlines_def)

lemma advances_refl [simp, intro]: "advances line s line s"
  unfolding advances_def by (rule exI [of _ "[]"]) simp

lemma advances_Cons: "advances (line + (if c = line_end then 1 else 0)) r l q \<Longrightarrow> advances line (c # r) l q"
  unfolding advances_def by (elim exE conjE, rule_tac x = "c # a" in exI) simp

lemma advances_newline: "advances (line + 1) r l q \<Longrightarrow> advances line (line_end # r) l q"
  by (rule advances_Cons) simp

lemma advances_plain: "c \<noteq> line_end \<Longrightarrow> advances line r l q \<Longrightarrow> advances line (c # r) l q"
  by (rule advances_Cons) simp

lemma advances_trans: "advances line s l q \<Longrightarrow> advances l q l' q' \<Longrightarrow> advances line s l' q'"
  unfolding advances_def by (elim exE conjE, rule_tac x = "a @ aa" in exI) simp

lemma advances_same: "s = a @ q \<Longrightarrow> line_end \<notin> set a \<Longrightarrow> advances line s line q"
  by (auto simp: advances_def newlines_none)

lemma advances_before: "suffix q s \<Longrightarrow> advances line s (line + newlines (text_before q s)) q"
  using text_before_suffix [of q s] by (auto simp: advances_def)

lemma advances_takeWhile: "line_end \<notin> set (takeWhile P s) \<Longrightarrow> advances line s line (dropWhile P s)"
  by (rule advances_same [of _ "takeWhile P s"]) simp_all

lemma advances_drop: "prefix p s \<Longrightarrow> line_end \<notin> set p \<Longrightarrow> advances line s line (drop (length p) s)"
  by (auto simp: prefix_def intro: advances_same)

lemma grouped_digits_advance:
  "grouped_digits valid what prev buf s = Inr (q, ds) \<Longrightarrow> \<not> valid line_end \<Longrightarrow> advances line s line q"
  by (induction valid what prev buf s rule: grouped_digits.induct) (auto split: if_splits intro!: advances_plain)

lemma scan_digits_advance [advance]: "scan_digits valid what s = Inr (q, ds) \<Longrightarrow> \<not> valid line_end \<Longrightarrow> advances line s line q"
  unfolding scan_digits_def by (rule grouped_digits_advance)

lemma not_newline [simp]: "\<not> is_digit line_end" "\<not> is_hex_digit line_end" "\<not> is_alpha_us line_end" "\<not> ident_char line_end" "\<not> uni_ident line_end"
  by (simp_all add: is_digit_def is_hex_digit_def is_alpha_us_def ident_char_def uni_ident_def)

lemma ident_not_newline: "ident_char c \<Longrightarrow> c \<noteq> line_end" "is_digit c \<Longrightarrow> c \<noteq> line_end"
  by auto

lemma digits_advance: "scan_digits is_digit what s = Inr (q, ds) \<Longrightarrow> advances line s line q"
  using scan_digits_advance not_newline(1) by blast

lemma radix_not_newline: "radix_of c = Some (base, what, valid) \<Longrightarrow> c \<noteq> line_end \<and> \<not> valid line_end"
  by (auto simp: radix_of_def py_lower_char_def Let_def split: if_splits)

lemma scan_fraction_advance [advance]: "scan_fraction (s, num) = Inr (q, num', fl) \<Longrightarrow> advances line s line q"
  by (auto simp: scan_fraction_def result_simps split: list.splits if_splits intro: advances_plain digits_advance)

lemma exponent_sign_advance: "exponent_sign s = (sign, q) \<Longrightarrow> advances line s line q"
  by (auto simp: exponent_sign_def split: list.splits if_splits intro: advances_plain)

lemma scan_exponent_advance [advance]: "scan_exponent (s, num, fl) = Inr (q, num', fl') \<Longrightarrow> advances line s line q"
proof (cases s)
  case (Cons e r)
  assume h: "scan_exponent (s, num, fl) = Inr (q, num', fl')"
  obtain sign t where t: "exponent_sign r = (sign, t)" by force
  show ?thesis
  proof (cases "e \<in> set ''eE'' \<and> t \<noteq> [] \<and> is_digit (hd t)")
    case True
    then obtain ds where "scan_digits is_digit ''number'' t = Inr (q, ds)"
      using h unfolding Cons scan_exponent_def by (auto simp: t result_simps)
    then have "advances line r line q"
      using advances_trans [OF exponent_sign_advance [OF t]] digits_advance by blast
    then show ?thesis using True by (auto simp: Cons intro: advances_plain)
  next
    case False
    then show ?thesis using h by (auto simp: Cons scan_exponent_def t)
  qed
qed (simp add: scan_exponent_def)

lemma finish_number_advance [advance]: "finish_number (s, num, fl) = Inr (q, kind, v) \<Longrightarrow> q = s"
  by (auto simp: finish_number_def split: if_splits)

lemma digits_first_advance:
  assumes "scan_digits is_digit what (z # t) = Inr (q, ds)" "is_digit z"
  shows "advances line t line q"
proof -
  have "z \<noteq> CHR ''_''" using assms(2) by (auto simp: is_digit_def)
  then show ?thesis using assms by (auto simp: scan_digits_def intro: grouped_digits_advance)
qed

lemma decimal_advance:
  assumes "res_bind (scan_digits is_digit ''number'' (z # t)) (\<lambda>x. res_bind (scan_fraction x) (\<lambda>y. res_bind (scan_exponent y) finish_number)) = Inr (q, kind, v)"
    and "is_digit z"
  shows "advances line t line q"
proof -
  obtain s1 n1 s2 n2 f2 s3 n3 f3 where d: "scan_digits is_digit ''number'' (z # t) = Inr (s1, n1)" "scan_fraction (s1, n1) = Inr (s2, n2, f2)"
      "scan_exponent (s2, n2, f2) = Inr (s3, n3, f3)" "finish_number (s3, n3, f3) = Inr (q, kind, v)"
    using assms(1) by (auto simp: result_simps)
  show ?thesis
    using advances_trans [OF digits_first_advance [OF d(1) assms(2)] advances_trans [OF scan_fraction_advance [OF d(2)] scan_exponent_advance [OF d(3)]]]
      finish_number_advance [OF d(4)] by simp
qed

lemma lex_number_advance [advance]:
  assumes "lex_number (z # t) = Inr (q, kind, v)" "is_digit z"
  shows "advances line t line q"
proof (cases "\<exists>c r x. t = c # r \<and> z = CHR ''0'' \<and> radix_of c = Some x")
  case True
  then obtain c r base what valid where t: "t = c # r" and x: "z = CHR ''0''" "radix_of c = Some (base, what, valid)" by (metis prod_cases3)
  then obtain ds where "scan_digits valid what r = Inr (q, ds)" using assms by (auto simp: lex_number_def result_simps)
  moreover have "c \<noteq> line_end" "\<not> valid line_end" using radix_not_newline [OF x(2)] by auto
  ultimately show ?thesis unfolding t by (intro advances_plain scan_digits_advance)
next
  case False
  then show ?thesis using assms by (intro decimal_advance [of z _ _ kind v]) (auto simp: lex_number_def split: list.splits option.splits if_splits)
qed

lemma lex_string_advance: "lex_string quote buf s = Inr (q, text) \<Longrightarrow> quote \<noteq> line_end \<Longrightarrow> advances line s line q"
proof (induction quote buf s rule: lex_string.induct)
  case (3 quote buf c d r)
  show ?case
  proof (cases "c = CHR 0x5C \<and> (d = quote \<or> d = CHR 0x5C)")
    case True
    then show ?thesis using 3 by (auto intro!: advances_plain)
  next
    case False
    then show ?thesis using 3 by (auto simp: close_string_def split: if_splits intro: advances_plain)
  qed
qed (auto simp: close_string_def split: if_splits intro: advances_plain)

lemma triple_body_advance: "triple_body start line buf s = Inr (q, text, l) \<Longrightarrow> advances line s l q"
proof (induction start line buf s rule: triple_body.induct)
  case (2 start line buf c r)
  show ?case
  proof (cases "prefix triple_quote (c # r)")
    case True
    then show ?thesis using 2(2) advances_drop [OF True] by (auto simp: triple_quote_def)
  next
    case False
    then show ?thesis using 2 by (auto split: if_splits intro: advances_Cons)
  qed
qed simp

lemma lex_triple_advance: "lex_triple line s = Inr (q, text, l) \<Longrightarrow> advances line s l q"
proof (cases "s \<noteq> [] \<and> hd s = line_end")
  case True
  moreover assume "lex_triple line s = Inr (q, text, l)"
  ultimately show ?thesis by (cases s) (auto simp: lex_triple_def intro: advances_newline dest: triple_body_advance)
next
  case False
  moreover assume "lex_triple line s = Inr (q, text, l)"
  ultimately have "triple_body line line [] s = Inr (q, text, l)" by (cases s) (auto simp: lex_triple_def simp del: triple_body.simps split: if_splits)
  then show ?thesis by (rule triple_body_advance)
qed

lemma template_from_advance:
  "template_from body start line buf parts interp s = Inr t \<Longrightarrow> advances line s (tm_line t) (tm_rest t)"
proof (induction body start line buf parts interp s rule: template_from.induct)
  case (2 body start line buf parts interp c r)
  consider "c = CHR 0x60" | "c = line_end" | "c = CHR ''$'' \<and> r \<noteq> [] \<and> hd r = CHR ''{''" "c \<noteq> line_end" "c \<noteq> CHR 0x60"
    | "c \<noteq> CHR 0x60" "c \<noteq> line_end" "\<not> (c = CHR ''$'' \<and> r \<noteq> [] \<and> hd r = CHR ''{'')" by blast
  then show ?case
  proof cases
    case 1
    then show ?thesis using 2(4) by (auto intro: advances_plain)
  next
    case 2
    then show ?thesis using "2.IH"(1) "2.prems" by (auto intro: advances_Cons)
  next
    case 3
    then obtain q where q: "match_brace revl_trivia r = Some q" "py_strip (text_before q (tl r)) \<noteq> []"
      using "2.prems" by (auto simp: Let_def split: option.splits if_splits)
    note m = match_brace_suffix [OF q(1)]
    have "advances line (c # r) (line + newlines (text_before q (c # r))) q" by (rule advances_before) (simp add: m suffix_ConsI)
    moreover have "advances l q l (tl q)" for l using m by (cases q) (auto intro: advances_plain)
    moreover have "advances (line + newlines (text_before q (c # r))) (tl q) (tm_line t) (tm_rest t)"
      using "2.IH"(2) [OF 3(3) 3(2) 3(1) q(1) refl q(2)] "2.prems" 3 q by (simp add: Let_def)
    ultimately show ?thesis by (meson advances_trans)
  next
    case 4
    then show ?thesis using "2.IH"(3) "2.prems" by (auto intro: advances_plain)
  qed
qed simp

lemma lex_template_advance: "lex_template line s = Inr t \<Longrightarrow> advances line s (tm_line t) (tm_rest t)"
  unfolding lex_template_def by (rule template_from_advance)

lemma ident_run_advance: "advances line s line (dropWhile ident_char s)"
  by (rule advances_takeWhile) (auto dest: set_takeWhileD)

lemma lex_word_advance: "lex_word source s = Inr (q, word) \<Longrightarrow> advances line s line q \<and> word = takeWhile ident_char s \<and> q = dropWhile ident_char s"
  using ident_run_advance [of line s] by (cases "dropWhile ident_char s") (auto simp: lex_word_def Let_def simp del: dropWhile_eq_Nil_conv split: if_splits)

lemma at_line_Inr [simp]: "at_line line r = Inr x \<longleftrightarrow> r = Inr x"
  by (cases r) auto


lemma operators_by_first_buckets:
  "map_of operators_by_first c = Some bucket \<Longrightarrow> bucket = filter (\<lambda>op. hd op = c) operators"
proof -
  have "list_all (\<lambda>(c, bucket). bucket = filter (\<lambda>op. hd op = c) operators) operators_by_first" by code_simp
  then show "map_of operators_by_first c = Some bucket \<Longrightarrow> bucket = filter (\<lambda>op. hd op = c) operators"
    by (auto simp: list_all_iff dest!: map_of_SomeD)
qed

lemma operators_plain: "op \<in> set operators \<Longrightarrow> op \<noteq> [] \<and> line_end \<notin> set op"
proof -
  have "list_all (\<lambda>op. op \<noteq> [] \<and> line_end \<notin> set op) operators" by code_simp
  then show "op \<in> set operators \<Longrightarrow> op \<noteq> [] \<and> line_end \<notin> set op" by (auto simp: list_all_iff)
qed

lemma match_operatorD: "match_operator s = Some op \<Longrightarrow> op \<in> set operators \<and> prefix op s"
  by (auto simp: match_operator_def find_Some_iff dest!: operators_by_first_buckets split: list.splits option.splits)
     (metis (no_types, lifting) filter_is_subset nth_mem subsetD)

lemma lex_host_advance:
  assumes "lex_host line (c # r) = Inr (t, l, q)" "c \<noteq> line_end"
  shows "advances line (c # r) l q \<and> suffix q r \<and> tk_line t = line"
proof -
  let ?k = "dropWhile py_space (dropWhile ident_char r)"
  have k: "suffix ?k r" by (rule suffix_order.trans [OF dropWhile_suffix dropWhile_suffix])
  show ?thesis
  proof (cases "?k \<noteq> [] \<and> hd ?k = CHR ''{''")
    case True
    note h = assms(1) [unfolded lex_host_def Let_def list.sel if_P [OF True]]
    obtain p where p: "match_brace (dict_get host_trivia (takeWhile ident_char r) c_family) ?k = Some p"
      using h by (cases "match_brace (dict_get host_trivia (takeWhile ident_char r) c_family) ?k") auto
    then have t: "tk_line t = line" and l: "l = line + newlines (text_before (tl p) (c # r))" and q: "q = tl p"
      using h by (auto simp: plain_token_def)
    have "suffix (tl p) p" by (cases p) (simp_all add: suffix_ConsI)
    then have "suffix q r" using match_brace_suffix [OF p] k unfolding q by (meson suffix_order.trans)
    then show ?thesis using advances_before [OF suffix_ConsI, of q r line c] t l q by simp
  next
    case False
    then show ?thesis using assms by (auto simp: lex_host_def Let_def plain_token_def simp del: dropWhile_eq_Nil_conv intro: advances_plain)
  qed
qed

text \<open>One iteration of the loop: it consumes, it keeps the counter true, and a token carries the line it starts on.\<close>

lemma advances_suffix: "advances line r l q \<Longrightarrow> suffix q r"
  by (auto simp: advances_def suffix_def)

definition moves :: "int \<Rightarrow> char \<Rightarrow> string \<Rightarrow> token list \<times> int \<times> string \<Rightarrow> bool" where
  "moves line c r x \<longleftrightarrow> (case x of (ts, l, q) \<Rightarrow> advances line (c # r) l q \<and> suffix q r \<and> length ts \<le> 1 \<and> (\<forall>t \<in> set ts. tk_line t = line))"

lemma moves_plain: "c \<noteq> line_end \<Longrightarrow> advances line r l q \<Longrightarrow> length ts \<le> 1 \<Longrightarrow> (\<And>t. t \<in> set ts \<Longrightarrow> tk_line t = line) \<Longrightarrow> moves line c r (ts, l, q)"
  by (auto simp: moves_def intro: advances_plain advances_suffix)

lemma moves_shorter: "advances line (c # r) l q \<Longrightarrow> q \<noteq> c # r \<Longrightarrow> length ts \<le> 1 \<Longrightarrow> (\<And>t. t \<in> set ts \<Longrightarrow> tk_line t = line) \<Longrightarrow> moves line c r (ts, l, q)"
  by (auto simp: moves_def suffix_Cons dest: advances_suffix)

lemma plain_token_line [simp]: "tk_line (plain_token k v line) = line"
  by (simp add: plain_token_def)


lemma token_lines [simp]: "tk_line (string_token line text) = line" "tk_line (template_token line t) = line"
    "tk_line (word_token line word) = line" "tk_line (operator_token line op) = line"
  by (simp_all add: string_token_def template_token_def word_token_def operator_token_def)

text \<open>The branches of \<open>literal_token\<close>, each with the condition it is taken under.\<close>

lemma literal_token_cases:
  assumes "literal_token source line (c # r) = Inr x"
  obtains (triple) str l q where "prefix triple_quote (c # r)" "lex_triple line (drop 3 (c # r)) = Inr (q, str, l)" "x = (string_token line str, l, q)"
  | (quoted) str q where "c = CHR 0x22 \<or> c = CHR 0x27" "lex_string c [] r = Inr (q, str)" "x = (string_token line str, line, q)"
  | (backtick) t where "c = CHR 0x60" "lex_template line r = Inr t" "x = (template_token line t, tm_line t, tm_rest t)"
  | (word) q w where "is_alpha_us c" "lex_word source (c # r) = Inr (q, w)" "x = (word_token line w, line, q)"
  | (number) q kind v where "is_digit c" "lex_number (c # r) = Inr (q, kind, v)" "x = (plain_token kind v line, line, q)"
  | (host) "c = CHR ''@''" "lex_host line (c # r) = Inr x"
  | (lone) "c \<in> set symbol_chars \<or> c \<in> set single_operators" "x = (plain_token [c] (Str_Value [c]) line, line, r)"
  using assms unfolding literal_token_def Let_def list.sel
  by (auto simp: result_simps simp del: drop_Suc_Cons drop_Cons_numeral split: if_splits intro: triple quoted backtick word number host lone)

lemma literal_token_moves: "literal_token source line (c # r) = Inr (t, l, q) \<Longrightarrow> c \<noteq> line_end \<Longrightarrow> moves line c r ([t], l, q)"
proof (elim literal_token_cases, goal_cases)
  case (1 str l' q')
  have "advances line (c # r) line (drop 3 (c # r))" using advances_drop [OF 1(2), of line] by (simp add: triple_quote_def)
  then have "advances line (c # r) l' q'" using lex_triple_advance [OF 1(3)] by (rule advances_trans)
  moreover have "suffix q' (drop 3 (c # r))" by (rule advances_suffix [OF lex_triple_advance [OF 1(3)]])
  then have "suffix q' r" by (auto dest: suffix_order.trans [OF _ drop_suffix])
  ultimately show ?case using 1(4) by (simp add: moves_def)
next
  case (2 str q')
  then have "advances line r line q'" by (intro lex_string_advance [OF 2(3)]) auto
  then show ?case using 2 by (auto intro: moves_plain)
next
  case (3 t')
  then show ?case using lex_template_advance [OF 3(3)] by (auto intro: moves_plain)
next
  case (4 q' w)
  have "q' = dropWhile ident_char r" using lex_word_advance [OF 4(3)] 4(2) by (simp add: ident_char_def)
  then show ?case using ident_run_advance 4(1,4) by (auto intro: moves_plain)
next
  case (5 q' kind v)
  then show ?case using lex_number_advance [OF 5(3,2)] by (auto intro: moves_plain)
next
  case 6
  then show ?case using lex_host_advance [OF 6(3,1)] by (simp add: moves_def)
next
  case 7
  then show ?case by (auto intro: moves_plain)
qed

lemma next_token_moves: "next_token source line (c # r) = Inr x \<Longrightarrow> moves line c r x"
proof -
  assume h: "next_token source line (c # r) = Inr x"
  consider "c = line_end" | "c \<noteq> line_end" "py_space c" | "c \<noteq> line_end" "\<not> py_space c" "prefix ''//'' (c # r)"
    | "c \<noteq> line_end" "\<not> py_space c" "\<not> prefix ''//'' (c # r)" by blast
  then show ?thesis
  proof cases
    case 1
    then show ?thesis using h by (auto simp: next_token_def moves_def advances_newline)
  next
    case 2
    then show ?thesis using h by (auto simp: next_token_def intro: moves_plain)
  next
    case 3
    have "x = ([], line, dropWhile (\<lambda>x. x \<noteq> line_end) (c # r))"
      using h unfolding next_token_def list.sel if_not_P [OF 3(1)] if_not_P [OF 3(2)] if_P [OF 3(3)] by blast
    moreover have "advances line r line (dropWhile (\<lambda>x. x \<noteq> line_end) r)"
      by (rule advances_takeWhile) (auto dest: set_takeWhileD)
    ultimately show ?thesis using 3 by (auto intro: moves_plain)
  next
    case 4
    note h = h [unfolded next_token_def list.sel if_not_P [OF 4(1)] if_not_P [OF 4(2)] if_not_P [OF 4(3)]]
    show ?thesis
    proof (cases "match_operator (c # r)")
      case (Some op)
      have op: "op \<noteq> []" "line_end \<notin> set op" "prefix op (c # r)" using match_operatorD [OF Some] operators_plain by auto
      then have "drop (length op) (c # r) \<noteq> c # r" by (metis length_drop length_Cons length_greater_0_conv diff_less less_irrefl zero_less_Suc)
      then have "moves line c r ([operator_token line op], line, drop (length op) (c # r))"
        using advances_drop [OF op(3,2)] by (intro moves_shorter) auto
      then show ?thesis using h by (simp add: Some)
    next
      case None
      then show ?thesis using h literal_token_moves [OF _ 4(1)] by (auto simp: result_simps)
    qed
  qed
qed


subsection \<open>The loop\<close>

definition eof_token :: "int \<Rightarrow> token" where
  "eof_token line = plain_token ''eof'' No_Value line"

function lex_loop :: "string \<Rightarrow> int \<Rightarrow> string \<Rightarrow> lex_error + token list" where
  "lex_loop source line s = (if s = [] then Inr [eof_token line]
     else case next_token source line s of
       Inl e \<Rightarrow> Inl e
     | Inr (ts, l, q) \<Rightarrow> res_bind (lex_loop source l q) (\<lambda>rest. Inr (ts @ rest)))"
  by pat_completeness auto
termination
proof (relation "measure (\<lambda>(source, line, s). length s)", goal_cases)
  case (2 source line s x ts z l q)
  then obtain c r where s: "s = c # r" by (cases s) auto
  have "suffix q r" using next_token_moves [of source line c r x] 2 s by (auto simp: moves_def)
  then show ?case using suffix_length_le s by fastforce
qed simp

declare lex_loop.simps [simp del]

definition lex :: "string \<Rightarrow> int \<Rightarrow> lex_error + token list" where
  "lex source line_offset = lex_loop source (1 + line_offset) source"

end
