(* ===== verification/Lexer_Properties.thy ===== *)
theory Lexer_Properties
  imports Lexer
begin

section \<open>Properties of the lexer\<close>

text \<open>
  The brace scanner against a grammar of balanced text, the operator table against maximal munch, the
  line of every token, the alphabet of every name, and the round trip of printed tokens.
\<close>

subsection \<open>The counter is the grammar\<close>

text \<open>
  The text between two positions is balanced: characters, literals and comments are passed over whole,
  and a brace opens a balanced text that its partner closes.
\<close>

inductive braces :: "trivia \<Rightarrow> string \<Rightarrow> string \<Rightarrow> bool" for tv where
  here: "braces tv s s"
| plain: "c \<notin> {CHR ''{'', CHR ''}''} \<Longrightarrow> braces tv (skip_plain tv (c # r)) q \<Longrightarrow> braces tv (c # r) q"
| nested: "braces tv r (CHR ''}'' # p) \<Longrightarrow> braces tv p q \<Longrightarrow> braces tv (CHR ''{'' # r) q"

text \<open>As many closing braces as are open, with balanced text before each.\<close>

fun closes :: "trivia \<Rightarrow> nat \<Rightarrow> string \<Rightarrow> string \<Rightarrow> bool" where
  "closes tv 0 s q \<longleftrightarrow> braces tv s q \<and> q \<noteq> [] \<and> hd q = CHR ''}''"
| "closes tv (Suc d) s q \<longleftrightarrow> (\<exists>p. braces tv s (CHR ''}'' # p) \<and> closes tv d p q)"

lemma closes_prefix: "closes tv d s q \<Longrightarrow> (\<And>x. braces tv s x \<Longrightarrow> braces tv s' x) \<Longrightarrow> closes tv d s' q"
  by (cases d) auto

lemma match_from_closes: "match_from tv (int d + 1) s = Some q \<Longrightarrow> closes tv d s q"
proof (induction tv "int d + 1" s arbitrary: d rule: match_from.induct)
  case (2 tv c r)
  consider "c = CHR ''{''" | "c = CHR ''}''" | "c \<notin> {CHR ''{'', CHR ''}''}" by blast
  then show ?case
  proof cases
    case 1
    then have "closes tv (Suc d) r q" using "2.hyps"(1) [of "Suc d"] "2.prems" by simp
    then show ?thesis using 1 by (auto intro: closes_prefix nested)
  next
    case 2
    show ?thesis
    proof (cases d)
      case (Suc d')
      then have "closes tv d' r q" using "2.hyps"(2) [of d'] "2.prems" 2 by (simp add: add.commute)
      then show ?thesis using 2 Suc here by auto
    qed (use "2.prems" 2 here in auto)
  next
    case 3
    then have "closes tv d (skip_plain tv (c # r)) q" using "2.hyps"(3) [of d] "2.prems" by simp
    then show ?thesis using 3 by (auto intro: closes_prefix plain)
  qed
qed simp

lemma braces_match_from: "braces tv s q \<Longrightarrow> d \<ge> 1 \<Longrightarrow> match_from tv d s = match_from tv d q"
  by (induction arbitrary: d rule: braces.induct) auto

text \<open>The brace scanner is the grammar of balanced text.  From an opening brace it finds a position precisely when
  that position holds a closing brace and everything between is balanced, where literals and comments
  of the host language are passed over whole; so a brace inside a string never closes a body early, and
  the position is the only one there is.\<close>

theorem match_brace_exact:
  "match_brace tv (CHR ''{'' # r) = Some q \<longleftrightarrow> braces tv r q \<and> q \<noteq> [] \<and> hd q = CHR ''}''"
proof
  assume "match_brace tv (CHR ''{'' # r) = Some q"
  then show "braces tv r q \<and> q \<noteq> [] \<and> hd q = CHR ''}''"
    using match_from_closes [of tv 0 r q] by (simp add: match_brace_def)
next
  assume q: "braces tv r q \<and> q \<noteq> [] \<and> hd q = CHR ''}''"
  then obtain p where "q = CHR ''}'' # p" by (cases q) auto
  then show "match_brace tv (CHR ''{'' # r) = Some q"
    using q braces_match_from [of tv r q 1] by (simp add: match_brace_def)
qed


subsection \<open>Operators\<close>

lemma operator_buckets: "c \<in> hd ` set operators \<Longrightarrow> map_of operators_by_first c = Some (filter (\<lambda>op. hd op = c) operators)"
proof -
  have "list_all (\<lambda>op. map_of operators_by_first (hd op) = Some (filter (\<lambda>p. hd p = hd op) operators)) operators" by code_simp
  then show "c \<in> hd ` set operators \<Longrightarrow> map_of operators_by_first c = Some (filter (\<lambda>op. hd op = c) operators)"
    by (auto simp: list_all_iff)
qed

lemma find_filter: "(\<And>x. x \<in> set xs \<Longrightarrow> P x \<Longrightarrow> Q x) \<Longrightarrow> List.find P (filter Q xs) = List.find P xs"
  by (induction xs) auto

lemma match_operator_scan: "match_operator s = List.find (\<lambda>op. prefix op s) operators"
proof (cases s)
  case Nil
  then show ?thesis using operators_plain by (fastforce simp: match_operator_def find_None_iff intro!: sym [of _ None])
next
  case (Cons c r)
  show ?thesis
  proof (cases "c \<in> hd ` set operators")
    case True
    have "List.find (\<lambda>op. prefix op s) (filter (\<lambda>op. hd op = c) operators) = List.find (\<lambda>op. prefix op s) operators"
      by (rule find_filter) (use operators_plain Cons in \<open>auto simp: prefix_Cons\<close>)
    then show ?thesis by (simp add: match_operator_def Cons operator_buckets [OF True])
  next
    case False
    then have "map_of operators_by_first c = None"
    proof -
      have "list_all (\<lambda>(c, b). c \<in> hd ` set operators) operators_by_first" by code_simp
      then show ?thesis using False by (auto simp: list_all_iff map_of_eq_None_iff)
    qed
    moreover have "\<not> prefix op s" if "op \<in> set operators" for op
      using operators_plain [OF that] False imageI [OF that, of hd] by (auto simp: Cons prefix_Cons)
    then have "List.find (\<lambda>op. prefix op s) operators = None" by (auto simp: find_None_iff)
    ultimately show ?thesis by (simp add: match_operator_def Cons)
  qed
qed

text \<open>The table lists an operator before each of its own proper prefixes.\<close>

lemma operators_longest_first: "sorted_wrt (\<lambda>a b. \<not> strict_prefix a b) operators"
  by code_simp

lemma find_sorted:
  "List.find P xs = Some x \<Longrightarrow> sorted_wrt R xs \<Longrightarrow> y \<in> set xs \<Longrightarrow> P y \<Longrightarrow> y = x \<or> R x y"
  by (induction xs) (auto split: if_splits)

lemma munch:
  "match_operator s = Some op \<longleftrightarrow> op \<in> set operators \<and> prefix op s \<and> (\<forall>op' \<in> set operators. prefix op' s \<longrightarrow> length op' \<le> length op)"
proof -
  have longest: "length op' \<le> length x" if "match_operator s = Some x" "op' \<in> set operators" "prefix op' s" for x op'
  proof -
    have "op' = x \<or> \<not> strict_prefix x op'" using find_sorted [OF that(1) [unfolded match_operator_scan] operators_longest_first that(2,3)] .
    moreover have "prefix x s" using match_operatorD [OF that(1)] by blast
    ultimately show ?thesis using prefix_same_cases [OF _ that(3), of x] by (auto simp: strict_prefix_def dest: prefix_length_le)
  qed
  show ?thesis
  proof
    assume h: "match_operator s = Some op"
    then show "op \<in> set operators \<and> prefix op s \<and> (\<forall>op' \<in> set operators. prefix op' s \<longrightarrow> length op' \<le> length op)"
      using match_operatorD [OF h] longest [OF h] by blast
  next
    assume h: "op \<in> set operators \<and> prefix op s \<and> (\<forall>op' \<in> set operators. prefix op' s \<longrightarrow> length op' \<le> length op)"
    then obtain x where x: "match_operator s = Some x"
      unfolding match_operator_scan by (metis find_None_iff not_None_eq)
    then have "length x = length op" using h longest [OF x] match_operatorD [OF x] by (meson le_antisym)
    then have "x = op" using h match_operatorD [OF x] by (auto simp: prefix_def append_eq_append_conv)
    then show "match_operator s = Some op" using x by simp
  qed
qed

text \<open>CX: The operator table is maximal munch.  Looking only into the bucket of the first character gives the
  operator a scan of the whole table would give first, and that is the longest operator the source
  continues with.\<close>

theorem operator_maximal_munch:
  "match_operator s = List.find (\<lambda>op. prefix op s) operators
   \<and> (match_operator s = Some op \<longleftrightarrow> op \<in> set operators \<and> prefix op s \<and> (\<forall>op' \<in> set operators. prefix op' s \<longrightarrow> length op' \<le> length op))"
proof
  show "match_operator s = Some op \<longleftrightarrow> op \<in> set operators \<and> prefix op s \<and> (\<forall>op' \<in> set operators. prefix op' s \<longrightarrow> length op' \<le> length op)"
    by (rule munch)
qed (rule match_operator_scan)

theorem operator_maximal_munch_witness:
  "match_operator ''===x'' = Some ''==='' \<and> match_operator ''== x'' = Some ''=='' \<and> length ''=='' \<le> length ''===''"
proof -
  have m: "match_operator ''===x'' = Some ''==='' \<and> match_operator ''== x'' = Some ''==''" by code_simp
  then show ?thesis using operator_maximal_munch [of "''===x''" "''===''"] by simp
qed



subsection \<open>Lines and places\<close>

text \<open>Where a token stands: the text before it, and the source from it on, where the loop reads it.\<close>

definition stands_at :: "string \<Rightarrow> int \<Rightarrow> token \<Rightarrow> string \<Rightarrow> string \<Rightarrow> bool" where
  "stands_at source line_offset t a b \<longleftrightarrow> source = a @ b \<and> tk_line t = 1 + line_offset + newlines a
     \<and> (if b = [] then t = eof_token (tk_line t) else \<exists>l q. next_token source (tk_line t) b = Inr ([t], l, q))"

lemma lex_loop_places:
  "lex_loop source line s = Inr ts \<Longrightarrow> source = a @ s \<Longrightarrow> line = 1 + off + newlines a \<Longrightarrow> t \<in> set ts \<Longrightarrow> \<exists>a b. stands_at source off t a b"
proof (induction source line s arbitrary: a ts rule: lex_loop.induct)
  case (1 source line s)
  show ?case
  proof (cases s)
    case Nil
    then have "t = eof_token line" using "1.prems"(1,4) by (auto simp: lex_loop.simps)
    then have "stands_at source off t a []" using "1.prems"(2,3) Nil by (simp add: stands_at_def eof_token_def)
    then show ?thesis by blast
  next
    case (Cons c r)
    then obtain us l q rest where n: "next_token source line s = Inr (us, l, q)" "lex_loop source l q = Inr rest" "ts = us @ rest"
      using "1.prems"(1) by (subst (asm) lex_loop.simps) (auto simp: result_simps split: sum.splits prod.splits)
    have m: "moves line c r (us, l, q)" using next_token_moves n(1) Cons by blast
    then obtain b where b: "s = b @ q" "l = line + newlines b" by (auto simp: moves_def advances_def Cons)
    show ?thesis
    proof (cases "t \<in> set us")
      case True
      then have "us = [t]" "tk_line t = line" using m by (auto simp: moves_def le_Suc_eq length_Suc_conv)
      then have "stands_at source off t a s" using "1.prems" n(1) Cons by (auto simp: stands_at_def)
      then show ?thesis by blast
    next
      case False
      then have "t \<in> set rest" using n(3) "1.prems"(4) by simp
      moreover have "source = (a @ b) @ q" "l = 1 + off + newlines (a @ b)" using "1.prems"(2,3) b by simp_all
      ultimately show ?thesis using "1.IH" [OF _ n(1) refl refl n(2)] Cons by blast
    qed
  qed
qed

text \<open>C25: Every token names the line it starts on.  When a source is accepted, each token stands at a place of the
  source that the loop reads it from, and its line is one more than the line ends before that place,
  counted from the offset, whatever templates, comments, multi-line strings and host bodies precede it.\<close>

theorem lex_lines_true:
  assumes "lex source line_offset = Inr ts" "t \<in> set ts"
  shows "\<exists>a b. source = a @ b \<and> tk_line t = 1 + line_offset + newlines a
    \<and> (if b = [] then t = eof_token (tk_line t) else \<exists>l q. next_token source (tk_line t) b = Inr ([t], l, q))"
  using lex_loop_places [of source _ source ts "[]" line_offset t] assms unfolding lex_def stands_at_def by simp


text \<open>The source of the witnesses: a comment, a template that spans lines, a host body and a name.\<close>

definition sample :: string where
  "sample = ''// c'' @ [line_end] @ ''let x = `a'' @ [line_end] @ ''${ f(1) }` @py { }'' @ [line_end] @ ''tail''"

definition sample_tokens :: "token list" where
  "sample_tokens = [plain_token ''kw'' (Str_Value ''let'') 2, plain_token ''ident'' (Str_Value ''x'') 2, plain_token ''='' (Str_Value ''='') 2,
     (plain_token ''template'' (Parts_Value [Text_Part (''a'' @ [line_end]), Expr_Part ''f(1)'']) 2) \<lparr>tk_interp := [3]\<rparr>,
     plain_token ''hostbody'' (Host_Value ''py'' '' '') 3, plain_token ''ident'' (Str_Value ''tail'') 4, eof_token 4]"

lemma sample_lexes: "lex sample 0 = Inr sample_tokens"
  by code_simp

lemma sample_tail: "plain_token ''ident'' (Str_Value ''tail'') 4 \<in> set sample_tokens"
  by (simp add: sample_tokens_def)

theorem lex_lines_true_witness:
  "\<exists>ts t a b. lex sample 0 = Inr ts \<and> t \<in> set ts \<and> tk_value t = Str_Value ''tail'' \<and> sample = a @ b \<and> tk_line t = 1 + newlines a \<and> tk_line t = 4"
proof -
  note ts = sample_lexes sample_tail
  show ?thesis using lex_lines_true [OF ts] ts by (force simp: plain_token_def)
qed


subsection \<open>Names\<close>

lemma operator_kinds: "op \<in> set operators \<Longrightarrow> tk_kind (operator_token line op) \<notin> {''ident'', ''kw''}"
proof -
  have "list_all (\<lambda>op. (if op = ''->'' then ''arrow'' else op) \<notin> {''ident'', ''kw''}) operators" by code_simp
  then show "op \<in> set operators \<Longrightarrow> tk_kind (operator_token line op) \<notin> {''ident'', ''kw''}"
    by (auto simp: list_all_iff operator_token_def plain_token_def)
qed

lemma number_kind: "lex_number s = Inr (q, kind, v) \<Longrightarrow> kind \<in> {''int'', ''float''}"
  by (auto simp: lex_number_def result_simps finish_number_def split: list.splits option.splits if_splits)

lemma lex_word_name:
  assumes "lex_word source (c # r) = Inr (q, w)" "is_alpha_us c"
  shows "c # r = w @ q \<and> is_ident w \<and> (q = [] \<or> \<not> uni_ident (hd q))"
proof -
  have w: "w = takeWhile ident_char (c # r)" "q = dropWhile ident_char (c # r)" using lex_word_advance [OF assms(1)] by auto
  have "is_ident w" using assms(2) by (auto simp: w is_ident_def ident_char_def list_all_iff dest: set_takeWhileD)
  moreover have "q = [] \<or> \<not> uni_ident (hd q)"
    using assms(1) unfolding lex_word_def Let_def w(2) [symmetric] by (cases q) (auto split: if_splits)
  ultimately show ?thesis unfolding w by simp
qed

lemma host_kind: "lex_host line s = Inr (t, l, q) \<Longrightarrow> tk_kind t \<in> {''hostbody'', ''@''}"
  by (auto simp: lex_host_def Let_def plain_token_def simp del: dropWhile_eq_Nil_conv split: option.splits if_splits)

lemma next_token_name:
  assumes "next_token source line s = Inr ([t], l, q)" "s \<noteq> []" "tk_kind t \<in> {''ident'', ''kw''}"
  shows "\<exists>w. s = w @ q \<and> t = word_token line w \<and> is_ident w \<and> (q = [] \<or> \<not> uni_ident (hd q))"
proof -
  obtain c r where s: "s = c # r" using assms(2) by (cases s) auto
  show ?thesis
  proof (cases "match_operator s")
    case (Some op)
    then have "t = operator_token line op" using assms(1) unfolding next_token_def by (auto split: if_splits)
    then show ?thesis using operator_kinds match_operatorD [OF Some] assms(3) by blast
  next
    case None
    then have "literal_token source line (c # r) = Inr (t, l, q)"
      using assms(1) unfolding next_token_def s by (auto simp: result_simps split: if_splits)
    then show ?thesis
    proof (cases rule: literal_token_cases)
      case (word q' w)
      then show ?thesis using lex_word_name [OF word(2,1)] s by auto
    next
      case (number q' kind v)
      then show ?thesis using number_kind [OF number(2)] assms(3) by (auto simp: plain_token_def)
    next
      case host
      then show ?thesis using host_kind [of line "c # r" t l q] assms(3) by auto
    qed (use assms(3) in \<open>auto simp: string_token_def template_token_def plain_token_def\<close>)
  qed
qed

lemma ident_char_ascii: "ident_char c \<Longrightarrow> is_ascii c"
  by (auto simp: ident_char_def is_alpha_us_def is_digit_def is_ascii_def)

text \<open>Every name is plain ASCII and whole.  A name or keyword of an accepted source is a nonempty ASCII identifier
  that the source holds at its place, it is a keyword exactly when it is reserved, and the character
  behind it is not one that another script or a host tier would read as part of the name: so no two
  names that differ for the checker can be one name for a host.\<close>

theorem names_ascii_and_whole:
  assumes "lex source line_offset = Inr ts" "t \<in> set ts" "tk_kind t \<in> {''ident'', ''kw''}"
  shows "\<exists>a w q. source = a @ w @ q \<and> tk_value t = Str_Value w \<and> is_ident w \<and> list_all is_ascii w
    \<and> (tk_kind t = ''kw'' \<longleftrightarrow> w \<in> set reserved_words) \<and> (q = [] \<or> \<not> uni_ident (hd q))"
proof -
  obtain a b where ab: "stands_at source line_offset t a b"
    using lex_loop_places [of source _ source ts "[]" line_offset t] assms(1,2) unfolding lex_def by auto
  have "b \<noteq> []" using ab assms(3) by (cases b) (auto simp: stands_at_def eof_token_def plain_token_def)
  then obtain l q where "next_token source (tk_line t) b = Inr ([t], l, q)" using ab by (auto simp: stands_at_def)
  from next_token_name [OF this \<open>b \<noteq> []\<close> assms(3)] obtain w where w: "b = w @ q" "t = word_token (tk_line t) w" "is_ident w"
      "q = [] \<or> \<not> uni_ident (hd q)" by blast
  have "tk_value t = Str_Value w \<and> (tk_kind t = ''kw'' \<longleftrightarrow> w \<in> set reserved_words)"
    by (subst (1 2) w(2)) (simp add: word_token_def plain_token_def)
  moreover have "list_all is_ascii w" using is_ident_chars [OF w(3)] ident_char_ascii by (auto simp: list_all_iff)
  moreover have "source = a @ w @ q" using ab w(1) by (simp add: stands_at_def)
  ultimately show ?thesis using w(3,4) by blast
qed

theorem names_ascii_and_whole_witness:
  "\<exists>ts a w q. lex sample 0 = Inr ts \<and> sample = a @ w @ q \<and> list_all is_ascii w \<and> w = ''tail''"
proof -
  note ts = sample_lexes sample_tail
  show ?thesis using names_ascii_and_whole [OF ts] ts(1) by (force simp: plain_token_def)
qed



subsection \<open>Where the code and its comments part\<close>

text \<open>An interpolation whose expression holds a single-quoted brace is cut at that brace, although such a
  string is a literal of the language; the same brace in double quotes is passed over.\<close>

lemma single_quoted_brace_closes_early:
  "map_sum id (map tk_value) (lex ([CHR 0x60] @ ''${f('' @ [CHR 0x27] @ ''}'' @ [CHR 0x27] @ '')}'' @ [CHR 0x60]) 0)
     = Inr [Parts_Value [Expr_Part (''f('' @ [CHR 0x27]), Text_Part ([CHR 0x27] @ '')}'')], No_Value]"
  "map_sum id (map tk_value) (lex ([CHR 0x60] @ ''${f('' @ [CHR 0x22] @ ''}'' @ [CHR 0x22] @ '')}'' @ [CHR 0x60]) 0)
     = Inr [Parts_Value [Expr_Part (''f('' @ [CHR 0x22] @ ''}'' @ [CHR 0x22] @ '')'')], No_Value]"
  by code_simp+

end
