(* ===== verification/Lexer_Roundtrip.thy ===== *)
theory Lexer_Roundtrip
  imports Lexer_Properties
begin

section \<open>Printed tokens are read back\<close>

text \<open>A printer for tokens, one space behind each, and the proof that the lexer reads its output as those tokens.\<close>

datatype lexeme = Word string | Number nat | Quoted string | Operator string | Lone char

definition escape :: "string \<Rightarrow> string" where
  "escape w = concat (map (\<lambda>c. if c = CHR 0x22 \<or> c = CHR 0x5C then [CHR 0x5C, c] else [c]) w)"

fun spelling :: "lexeme \<Rightarrow> string" where
  "spelling (Word w) = w"
| "spelling (Number n) = dec_nat n"
| "spelling (Quoted w) = CHR 0x22 # escape w @ [CHR 0x22]"
| "spelling (Operator op) = op"
| "spelling (Lone c) = [c]"

fun token_of :: "int \<Rightarrow> lexeme \<Rightarrow> token" where
  "token_of line (Word w) = word_token line w"
| "token_of line (Number n) = plain_token ''int'' (Int_Value (int n)) line"
| "token_of line (Quoted w) = string_token line w"
| "token_of line (Operator op) = operator_token line op"
| "token_of line (Lone c) = plain_token [c] (Str_Value [c]) line"

fun lexeme_ok :: "lexeme \<Rightarrow> bool" where
  "lexeme_ok (Word w) \<longleftrightarrow> is_ident w"
| "lexeme_ok (Number n) \<longleftrightarrow> length (dec_nat n) \<le> max_str_digits"
| "lexeme_ok (Quoted w) \<longleftrightarrow> line_end \<notin> set w \<and> \<not> looks_interpolated w"
| "lexeme_ok (Operator op) \<longleftrightarrow> op \<in> set operators"
| "lexeme_ok (Lone c) \<longleftrightarrow> c \<in> set symbol_chars \<union> set single_operators"

abbreviation space :: char where "space \<equiv> CHR '' ''"

lemma lex_string_escape:
  "line_end \<notin> set w \<Longrightarrow> lex_string (CHR 0x22) buf (escape w @ CHR 0x22 # rest) = close_string (buf @ w) rest"
proof (induction w arbitrary: buf)
  case Nil
  then show ?case by (cases rest) (simp_all add: escape_def)
next
  case (Cons c w)
  obtain d t where "escape w @ CHR 0x22 # rest = d # t" by (cases "escape w @ CHR 0x22 # rest") auto
  then show ?case using Cons.IH [of "buf @ [c]"] Cons.prems by (auto simp: escape_def)
qed

lemma scan_digits_run:
  "list_all is_digit ds \<Longrightarrow> ds \<noteq> [] \<or> buf \<noteq> [] \<Longrightarrow> grouped_digits is_digit what False buf (ds @ space # rest) = Inr (space # rest, buf @ ds)"
proof (induction ds arbitrary: buf)
  case (Cons d ds)
  moreover from this have "d \<noteq> CHR ''_''" by (auto simp: is_digit_def)
  ultimately show ?case by simp
qed (simp add: is_digit_def)

lemma digits_value_dec: "digits_value 10 (dec_nat n) = int n"
proof (induction n rule: dec_nat.induct)
  case (1 n)
  have hex: "hex_value (char_of (48 + k)) = int k" if "k < 10" for k
    using digit_value_dec [OF that] dec_digit [OF that] by (simp add: hex_value_def digit_value_def Let_def)
  show ?case
  proof (cases "n < 10")
    case True
    then show ?thesis by (subst dec_nat.simps) (simp add: digits_value_def hex)
  next
    case False
    then have "digits_value 10 (dec_nat (n div 10)) = int (n div 10)" by (rule 1)
    moreover have "10 * int (n div 10) + int (n mod 10) = int n" by (simp add: zdiv_int zmod_int)
    ultimately show ?thesis using False by (subst dec_nat.simps) (simp add: digits_value_def hex)
  qed
qed

lemma radix_of_plain: "is_digit c \<or> c = space \<Longrightarrow> radix_of c = None"
  by (auto simp: radix_of_def py_lower_char_def is_digit_def Let_def)

lemma lex_number_dec:
  assumes "length (dec_nat n) \<le> max_str_digits"
  shows "lex_number (dec_nat n @ space # rest) = Inr (space # rest, ''int'', Int_Value (int n))"
proof -
  have digits: "list_all is_digit (dec_nat n)" using dec_nat_digits by (auto simp: list_all_iff)
  obtain z t where z: "dec_nat n = z # t" by (cases "dec_nat n") auto
  obtain c r where c: "t @ space # rest = c # r" by (cases "t @ space # rest") auto
  then have "is_digit c \<or> c = space" using digits z by (cases t) auto
  then have "lex_number (dec_nat n @ space # rest) = res_bind (scan_digits is_digit ''number'' (dec_nat n @ space # rest))
      (\<lambda>x. res_bind (scan_fraction x) (\<lambda>y. res_bind (scan_exponent y) finish_number))"
    using z c radix_of_plain by (simp add: lex_number_def)
  also have "\<dots> = finish_number (space # rest, dec_nat n, False)"
    using scan_digits_run [OF digits, of "[]"]
    by (cases rest) (auto simp: scan_digits_def scan_fraction_def scan_exponent_def split: prod.splits)
  finally show ?thesis using assms by (simp add: finish_number_def digits_value_dec)
qed

lemma lex_word_ident:
  assumes "is_ident w"
  shows "lex_word source (w @ space # rest) = Inr (space # rest, w)"
proof -
  have "\<forall>c \<in> set w. ident_char c" "\<not> ident_char space" "\<not> uni_ident space"
    using is_ident_chars [OF assms] by (auto simp: ident_char_def uni_ident_def is_alpha_us_def is_digit_def)
  then show ?thesis by (simp add: lex_word_def takeWhile_append dropWhile_append)
qed

lemma operators_no_space: "op \<in> set operators \<Longrightarrow> space \<notin> set op \<and> 2 \<le> length op"
proof -
  have "list_all (\<lambda>op. space \<notin> set op \<and> 2 \<le> length op) operators" by code_simp
  then show "op \<in> set operators \<Longrightarrow> space \<notin> set op \<and> 2 \<le> length op" by (auto simp: list_all_iff)
qed

lemma prefix_before_space: "prefix op (w @ space # rest) \<Longrightarrow> space \<notin> set op \<Longrightarrow> length op \<le> length w"
  by (auto simp: prefix_def append_eq_append_conv2) (metis Cons_eq_append_conv list.set_intros(1))

lemma match_operator_self: "op \<in> set operators \<Longrightarrow> match_operator (op @ space # rest) = Some op"
  by (subst munch) (use prefix_before_space operators_no_space in auto)

lemma match_operator_lone: "length w = 1 \<Longrightarrow> match_operator (w @ space # rest) = None"
  unfolding match_operator_scan using prefix_before_space operators_no_space by (fastforce simp: find_None_iff)

lemma match_operator_other: "c \<notin> hd ` set operators \<Longrightarrow> match_operator (c # r) = None"
  unfolding match_operator_scan using operators_no_space by (fastforce simp: find_None_iff prefix_Cons image_iff)

lemma operator_heads: "c \<in> hd ` set operators \<Longrightarrow> \<not> ident_char c \<and> c \<noteq> CHR 0x22 \<and> c \<noteq> line_end \<and> \<not> py_space c"
proof -
  have "list_all (\<lambda>op. \<not> ident_char (hd op) \<and> hd op \<noteq> CHR 0x22 \<and> hd op \<noteq> line_end \<and> \<not> py_space (hd op)) operators" by code_simp
  then show "c \<in> hd ` set operators \<Longrightarrow> \<not> ident_char c \<and> c \<noteq> CHR 0x22 \<and> c \<noteq> line_end \<and> \<not> py_space c" by (auto simp: list_all_iff)
qed


text \<open>One printed token is read back, and the space behind it is passed over.\<close>

lemma next_token_literal:
  assumes "c \<noteq> line_end" "\<not> py_space c" "\<not> prefix ''//'' (c # r)" "match_operator (c # r) = None" "literal_token source line (c # r) = Inr (t, l, q)"
  shows "next_token source line (c # r) = Inr ([t], l, q)"
  unfolding next_token_def list.sel if_not_P [OF assms(1)] if_not_P [OF assms(2)] if_not_P [OF assms(3)] using assms(4,5) by simp

lemma ident_first: "ident_char c \<Longrightarrow> c \<noteq> line_end \<and> \<not> py_space c \<and> c \<noteq> CHR 0x22 \<and> c \<noteq> CHR 0x27 \<and> c \<noteq> CHR 0x60 \<and> c \<noteq> CHR ''/''"
  by (auto simp: ident_char_def is_alpha_us_def is_digit_def py_space_def)

lemma triple_quote_Cons: "triple_quote = [CHR 0x22, CHR 0x22, CHR 0x22]"
  by (simp add: triple_quote_def eval_nat_numeral)

lemma not_triple: "c \<noteq> CHR 0x22 \<Longrightarrow> \<not> prefix triple_quote (c # r)"
  by (auto simp: triple_quote_Cons)

lemma digit_not_alpha: "is_digit c \<Longrightarrow> \<not> is_alpha_us c"
  by (auto simp: is_digit_def is_alpha_us_def)

lemma lone_chars:
  assumes "c \<in> set symbol_chars \<union> set single_operators"
  shows "c \<noteq> line_end \<and> \<not> py_space c \<and> c \<noteq> CHR 0x22 \<and> c \<noteq> CHR 0x27 \<and> c \<noteq> CHR 0x60 \<and> \<not> is_alpha_us c \<and> \<not> is_digit c"
proof -
  have "list_all (\<lambda>c. c \<noteq> line_end \<and> \<not> py_space c \<and> c \<noteq> CHR 0x22 \<and> c \<noteq> CHR 0x27 \<and> c \<noteq> CHR 0x60 \<and> \<not> is_alpha_us c \<and> \<not> is_digit c)
      (symbol_chars @ single_operators)" by code_simp
  then show ?thesis using assms by (auto simp: list_all_iff)
qed

lemma next_token_spell: "lexeme_ok x \<Longrightarrow> next_token source line (spelling x @ space # rest) = Inr ([token_of line x], line, space # rest)"
proof (cases x)
  case (Word w)
  assume "lexeme_ok x"
  then have w: "is_ident w" using Word by simp
  then obtain c v where c: "w = c # v" "is_alpha_us c" "ident_char c" by (auto simp: is_ident_def ident_char_def split: list.splits)
  have "literal_token source line (c # v @ space # rest) = Inr (word_token line w, line, space # rest)"
    using lex_word_ident [OF w, of source rest] c ident_first [OF c(3)] by (simp add: literal_token_def not_triple Let_def)
  then show ?thesis using c ident_first [OF c(3)] operator_heads [of c] by (auto simp: Word intro!: next_token_literal match_operator_other)
next
  case (Number n)
  assume "lexeme_ok x"
  then have n: "length (dec_nat n) \<le> max_str_digits" using Number by simp
  obtain c v where v: "dec_nat n = c # v" by (cases "dec_nat n") auto
  have c: "is_digit c" using dec_nat_digits [of c n] v by simp
  have "literal_token source line (c # v @ space # rest) = Inr (plain_token ''int'' (Int_Value (int n)) line, line, space # rest)"
    using lex_number_dec [OF n, of rest] c digit_not_alpha [OF c] ident_first [OF digit_ident_char [OF c]]
    by (simp add: literal_token_def not_triple Let_def v)
  then show ?thesis using v ident_first [OF digit_ident_char [OF c]] digit_ident_char [OF c] operator_heads [of c]
    by (auto simp: Number intro!: next_token_literal match_operator_other)
next
  case (Quoted w)
  assume "lexeme_ok x"
  then have w: "line_end \<notin> set w" "\<not> looks_interpolated w" using Quoted by auto
  have "\<not> prefix triple_quote (CHR 0x22 # escape w @ CHR 0x22 # space # rest)"
    by (cases w) (auto simp: triple_quote_Cons escape_def)
  then have "literal_token source line (CHR 0x22 # escape w @ CHR 0x22 # space # rest) = Inr (string_token line w, line, space # rest)"
    using lex_string_escape [OF w(1), of "[]" "space # rest"] w(2) by (simp add: literal_token_def Let_def close_string_def)
  then show ?thesis using operator_heads [of "CHR 0x22"] by (auto simp: Quoted py_space_def intro!: next_token_literal match_operator_other)
next
  case (Operator op)
  assume "lexeme_ok x"
  then have op: "op \<in> set operators" using Operator by simp
  obtain c v where c: "op = c # v" using operators_plain [OF op] by (cases op) auto
  have "c \<noteq> line_end" "\<not> py_space c" using operator_heads [of c] imageI [OF op, of hd] c by auto
  moreover have "\<not> prefix ''//'' (op @ space # rest)"
  proof -
    have "list_all (\<lambda>op. \<not> prefix ''//'' op \<and> 2 \<le> length op) operators" by code_simp
    then show ?thesis using op c by (cases v) (auto simp: list_all_iff)
  qed
  ultimately show ?thesis
    using match_operator_self [OF op, of rest] c unfolding Operator spelling.simps next_token_def by simp
next
  case (Lone c)
  assume "lexeme_ok x"
  then have c: "c \<in> set symbol_chars \<union> set single_operators" using Lone by simp
  have "match_operator (c # space # rest) = None" using match_operator_lone [of "[c]" rest] by simp
  moreover have "literal_token source line (c # space # rest) = Inr (plain_token [c] (Str_Value [c]) line, line, space # rest)"
    using c lone_chars [OF c] by (auto simp: literal_token_def Let_def not_triple is_alpha_us_def)
  ultimately show ?thesis using lone_chars [OF c] by (auto simp: Lone intro!: next_token_literal)
qed

lemma lex_loop_space: "lex_loop source line (space # s) = lex_loop source line s"
  by (subst lex_loop.simps) (auto simp: next_token_def py_space_def split: sum.splits intro: sum.exhaust [of "lex_loop source line s"])

text \<open>C26: Printed tokens are read back.  For every list of names and keywords, natural numbers of a length Python
  converts, string literals printed with the two escapes, operators and lone symbols, the lexer
  applied to their spellings, a space behind each, returns exactly those tokens and the end marker, all on
  the first line.\<close>

theorem lex_print_roundtrip:
  assumes "list_all lexeme_ok xs"
  shows "lex (concat (map (\<lambda>x. spelling x @ [space]) xs)) line_offset = Inr (map (token_of (1 + line_offset)) xs @ [eof_token (1 + line_offset)])"
proof -
  have "lex_loop source line (concat (map (\<lambda>x. spelling x @ [space]) xs)) = Inr (map (token_of line) xs @ [eof_token line])" for source line
    using assms
  proof (induction xs)
    case Nil
    then show ?case by (simp add: lex_loop.simps)
  next
    case (Cons x xs)
    have "spelling x \<noteq> []" using Cons.prems operators_plain by (cases x) (auto simp: is_ident_def)
    then show ?case
      using Cons next_token_spell [of x source line "concat (map (\<lambda>x. spelling x @ [space]) xs)"]
      by (subst lex_loop.simps) (simp add: lex_loop_space)
  qed
  then show ?thesis by (simp add: lex_def)
qed

theorem lex_print_roundtrip_witness:
  "lex (concat (map (\<lambda>x. spelling x @ [space]) [Word ''let'', Word ''x'', Lone CHR ''='', Number 42, Operator ''=>'', Quoted [CHR 0x22, CHR 0x5C]])) 0
     = Inr (map (token_of 1) [Word ''let'', Word ''x'', Lone CHR ''='', Number 42, Operator ''=>'', Quoted [CHR 0x22, CHR 0x5C]] @ [eof_token 1])"
proof -
  have "list_all lexeme_ok [Word ''let'', Word ''x'', Lone CHR ''='', Number 42, Operator ''=>'', Quoted [CHR 0x22, CHR 0x5C]]"
    by code_simp
  from lex_print_roundtrip [OF this, of 0] show ?thesis by simp
qed

end
