(* ===== verification/Quorum_Cast.thy ===== *)
theory Quorum_Cast
  imports Revl_Prelude
begin

section \<open>Whose cast is it (\<open>src/revl/mcp/quorum.py\<close>)\<close>

text \<open>
  The identity of a vote: which operator it counts for and which principal supplied it, or why it is
  refused.  A cast is attributed to the session's bound operator, to an operator whose secret was
  presented, or to one whose signature over this very act verifies, and to nobody else.  The digest and the
  signature check are parameters.
\<close>

record oper =
  opr_token :: string
  opr_vote_key :: "string option"
  opr_sign_key :: "string option"
  opr_not_after :: "int option"
  opr_revoked :: bool

text \<open>What a signed cast signs: the question, the act, the vote and the name it is for.\<close>

record cast_binding =
  cb_request :: string
  cb_hash :: string
  cb_candidate :: string
  cb_component :: string
  cb_kind :: string
  cb_round :: int
  cb_action :: string
  cb_vote :: "string option"
  cb_as :: "string option"

record crypto =
  cr_sha :: "string \<Rightarrow> string"
  cr_verify :: "string \<Rightarrow> cast_binding \<Rightarrow> string \<Rightarrow> bool"

datatype cast = Cast (cast_voter: string) (cast_principal: string) (cast_how: string)

text \<open>An unbound cast: the machine reason and the name that was asserted.\<close>

type_synonym unbound = "string \<times> string"

record credentials =
  as_token :: "string option"
  as_secret :: "string option"
  as_proof :: "string option"

text \<open>Python's truth of an optional string.\<close>

definition given :: "string option \<Rightarrow> string option" where
  "given x = (case x of Some [] \<Rightarrow> None | y \<Rightarrow> y)"

definition principal_of_credential :: "crypto \<Rightarrow> string \<Rightarrow> string" where
  "principal_of_credential cr d = ''cred:'' @ take 16 (cr_sha cr (''revl.quorum.principal'' @ [CHR 0x00] @ d))"

definition principal_of_signer :: "crypto \<Rightarrow> string \<Rightarrow> string" where
  "principal_of_signer cr k = ''sign:'' @ take 16 (cr_sha cr (''revl.quorum.signer'' @ [CHR 0x00] @ k))"

definition lifetime_refusal :: "oper \<Rightarrow> int option \<Rightarrow> unbound option" where
  "lifetime_refusal who now_ms = (if opr_revoked who then Some (''revoked-credential'', opr_token who)
     else case opr_not_after who of None \<Rightarrow> None
       | Some t \<Rightarrow> (case now_ms of None \<Rightarrow> Some (''expired-credential'', opr_token who)
           | Some now \<Rightarrow> if now > t then Some (''expired-credential'', opr_token who) else None))"

definition session_cast :: "oper option \<Rightarrow> string \<Rightarrow> int option \<Rightarrow> unbound + cast" where
  "session_cast bound bound_by now_ms = (case bound of
     None \<Rightarrow> Inr (Cast [] (''session:'') bound_by)
   | Some b \<Rightarrow> (case lifetime_refusal b now_ms of Some u \<Rightarrow> Inl u
       | None \<Rightarrow> Inr (Cast (opr_token b) (''session:'' @ opr_token b) bound_by)))"

text \<open>A cast that a signing key binds: by proof or not at all.\<close>

definition signed_cast :: "crypto \<Rightarrow> string \<Rightarrow> string \<Rightarrow> string option \<Rightarrow> cast_binding option \<Rightarrow> unbound + cast" where
  "signed_cast cr name key proof binding = (case proof of
     None \<Rightarrow> Inl (''unsigned-cast'', name)
   | Some p \<Rightarrow> (case binding of None \<Rightarrow> Inl (''unbound-question'', name)
       | Some b \<Rightarrow> if cr_verify cr key b p then Inr (Cast name (principal_of_signer cr key) ''signature'')
           else Inl (''unproven-signature'', name)))"

definition secret_cast :: "crypto \<Rightarrow> string \<Rightarrow> string option \<Rightarrow> string option \<Rightarrow> string option \<Rightarrow> unbound + cast" where
  "secret_cast cr name vote_key secret proof =
     (if proof \<noteq> None then Inl (''unproven-signature'', name)
      else case vote_key of None \<Rightarrow> Inl (''unkeyed-identity'', name)
        | Some k \<Rightarrow> (case secret of None \<Rightarrow> Inl (''unproven-identity'', name)
            | Some s \<Rightarrow> if cr_sha cr s = k then Inr (Cast name (principal_of_credential cr k) ''credential'')
                else Inl (''unproven-identity'', name)))"

definition registry_cast :: "crypto \<Rightarrow> string \<Rightarrow> string option \<Rightarrow> string option \<Rightarrow> cast_binding option \<Rightarrow> (string, oper) pydict option \<Rightarrow> int option \<Rightarrow> unbound + cast" where
  "registry_cast cr name secret proof binding registry now_ms = (case registry of
     None \<Rightarrow> Inl (''unbound-identity'', name)
   | Some ops \<Rightarrow> (case map_of ops name of None \<Rightarrow> Inl (''unknown-operator'', name)
     | Some who \<Rightarrow> (case lifetime_refusal who now_ms of Some u \<Rightarrow> Inl u
       | None \<Rightarrow> (case given (opr_sign_key who) of
           Some key \<Rightarrow> signed_cast cr name key proof binding
         | None \<Rightarrow> secret_cast cr name (given (opr_vote_key who)) secret proof))))"

definition resolve_cast ::
  "crypto \<Rightarrow> credentials \<Rightarrow> cast_binding option \<Rightarrow> oper option \<Rightarrow> string \<Rightarrow> (string, oper) pydict option \<Rightarrow> int option \<Rightarrow> unbound + cast" where
  "resolve_cast cr cred binding bound bound_by registry now_ms =
     (let bound_token = map_option opr_token bound; secret = given (as_secret cred); proof = given (as_proof cred) in
      case given (as_token cred) of
        None \<Rightarrow> if secret \<noteq> None \<or> proof \<noteq> None then Inl (''unnamed-credential'', case bound_token of Some t \<Rightarrow> t | None \<Rightarrow> [])
          else session_cast bound bound_by now_ms
      | Some name \<Rightarrow> if Some name = bound_token \<and> secret = None \<and> proof = None then session_cast bound bound_by now_ms
          else registry_cast cr name secret proof binding registry now_ms)"


subsection \<open>Exactly the proven identities\<close>

text \<open>The credential of an operator is in force.\<close>

definition in_force :: "oper \<Rightarrow> int option \<Rightarrow> bool" where
  "in_force who now_ms \<longleftrightarrow> \<not> opr_revoked who \<and> (\<forall>t. opr_not_after who = Some t \<longrightarrow> (\<exists>now. now_ms = Some now \<and> now \<le> t))"

lemma lifetime_refusal_None: "lifetime_refusal who now_ms = None \<longleftrightarrow> in_force who now_ms"
  by (auto simp: lifetime_refusal_def in_force_def split: option.splits)

text \<open>What proves an identity: the binding of the session, a secret whose digest the profile holds, or a signature
  over this act under the key the profile holds.\<close>

inductive proves :: "crypto \<Rightarrow> credentials \<Rightarrow> cast_binding option \<Rightarrow> oper option \<Rightarrow> (string, oper) pydict option \<Rightarrow> int option \<Rightarrow> string \<Rightarrow> string \<Rightarrow> bool"
  for cr cred binding bound registry now_ms where
  unbound_session: "bound = None \<Longrightarrow> given (as_token cred) = None \<Longrightarrow> given (as_secret cred) = None \<Longrightarrow> given (as_proof cred) = None
    \<Longrightarrow> proves cr cred binding bound registry now_ms [] ''session:''"
| bound_session: "bound = Some b \<Longrightarrow> in_force b now_ms \<Longrightarrow> given (as_token cred) \<in> {None, Some (opr_token b)} \<Longrightarrow> given (as_secret cred) = None \<Longrightarrow> given (as_proof cred) = None
    \<Longrightarrow> proves cr cred binding bound registry now_ms (opr_token b) (''session:'' @ opr_token b)"
| by_secret: "given (as_token cred) = Some name \<Longrightarrow> registry = Some ops \<Longrightarrow> map_of ops name = Some who \<Longrightarrow> in_force who now_ms \<Longrightarrow> given (opr_sign_key who) = None
    \<Longrightarrow> given (as_proof cred) = None \<Longrightarrow> given (as_secret cred) = Some s \<Longrightarrow> given (opr_vote_key who) = Some (cr_sha cr s)
    \<Longrightarrow> proves cr cred binding bound registry now_ms name (principal_of_credential cr (cr_sha cr s))"
| by_signature: "given (as_token cred) = Some name \<Longrightarrow> registry = Some ops \<Longrightarrow> map_of ops name = Some who \<Longrightarrow> in_force who now_ms \<Longrightarrow> given (opr_sign_key who) = Some key
    \<Longrightarrow> given (as_proof cred) = Some p \<Longrightarrow> binding = Some b \<Longrightarrow> cr_verify cr key b p
    \<Longrightarrow> proves cr cred binding bound registry now_ms name (principal_of_signer cr key)"


lemma lifetime_cases: "lifetime_refusal who now_ms = None \<and> in_force who now_ms \<or> (\<exists>u. lifetime_refusal who now_ms = Some u) \<and> \<not> in_force who now_ms"
  using lifetime_refusal_None [of who now_ms] by blast

lemma given_not_empty [simp]: "given x = Some s \<Longrightarrow> s \<noteq> []" "given x \<noteq> Some []"
  by (auto simp: given_def split: option.splits list.splits)

lemma session_cast_Inr: "session_cast bound bound_by now_ms = Inr c \<longleftrightarrow>
    (bound = None \<and> c = Cast [] ''session:'' bound_by) \<or> (\<exists>b. bound = Some b \<and> in_force b now_ms \<and> c = Cast (opr_token b) (''session:'' @ opr_token b) bound_by)"
  using lifetime_cases [of _ now_ms] by (cases bound) (auto simp: session_cast_def lifetime_refusal_None [symmetric] split: option.splits)

lemma registry_cast_Inr: "registry_cast cr name secret proof binding registry now_ms = Inr c \<longleftrightarrow>
    (\<exists>ops who. registry = Some ops \<and> map_of ops name = Some who \<and> in_force who now_ms \<and>
      ((\<exists>key p b. given (opr_sign_key who) = Some key \<and> proof = Some p \<and> binding = Some b \<and> cr_verify cr key b p \<and> c = Cast name (principal_of_signer cr key) ''signature'')
       \<or> (\<exists>s. given (opr_sign_key who) = None \<and> proof = None \<and> secret = Some s \<and> given (opr_vote_key who) = Some (cr_sha cr s)
            \<and> c = Cast name (principal_of_credential cr (cr_sha cr s)) ''credential'')))"
  by (cases registry; cases "\<exists>ops who. registry = Some ops \<and> map_of ops name = Some who")
    (auto simp: registry_cast_def signed_cast_def secret_cast_def lifetime_refusal_None [symmetric] split: option.splits)

lemma resolve_cast_iff:
  "(\<exists>how. resolve_cast cr cred binding bound bound_by registry now_ms = Inr (Cast v p how)) \<longleftrightarrow> proves cr cred binding bound registry now_ms v p"
proof -
  let ?r = "resolve_cast cr cred binding bound bound_by registry now_ms"
  let ?session = "given (as_token cred) \<in> {None, map_option opr_token bound} \<and> given (as_secret cred) = None \<and> given (as_proof cred) = None"
  show ?thesis
  proof (cases ?session)
    case True
    then have "?r = session_cast bound bound_by now_ms" by (cases bound; cases "given (as_token cred)") (auto simp: resolve_cast_def Let_def)
    then show ?thesis using True by (cases bound) (auto simp: session_cast_Inr proves.simps)
  next
    case False
    then show ?thesis
    proof (cases "given (as_token cred)")
      case None
      then show ?thesis using False by (auto simp: resolve_cast_def Let_def proves.simps)
    next
      case (Some name)
      then have "?r = registry_cast cr name (given (as_secret cred)) (given (as_proof cred)) binding registry now_ms"
        using False by (auto simp: resolve_cast_def Let_def)
      then show ?thesis using False Some by (cases bound) (auto simp: registry_cast_Inr proves.simps)
    qed
  qed
qed

lemmas resolve_cast_proves = resolve_cast_iff [THEN iffD1]

text \<open>C27: A cast is believed exactly when it is proven.  An identity is bound to a cast precisely when the session's
  own binding gives it and nothing else was presented, or the named operator's secret digests to the
  profile's entry, or a signature over this act verifies under the operator's key; and in each case
  only while the credential is in force, with the principal derived from what proved it.  Every other cast
  is refused, and an operator with a signing key is never cast for by a secret.\<close>

theorem resolve_cast_exact:
  "(\<exists>how. resolve_cast cr cred binding bound bound_by registry now_ms = Inr (Cast v p how)) \<longleftrightarrow> proves cr cred binding bound registry now_ms v p"
  by (rule resolve_cast_iff)

end
