(* ===== verification/Quorum.thy ===== *)
theory Quorum
  imports Quorum_Cast
begin

section \<open>Multi-party questions (\<open>src/revl/mcp/session.py\<close>, \<open>src/revl/mcp/quorum.py\<close>)\<close>

text \<open>
  The vote protocol of a session: tickets, answer rounds, the decision graph of each question, the four
  acts on it, the single-use approval a decision mints, and the receipt of its spend.  Each operation
  takes the session and returns it updated, also when it refuses, because a refusal is itself
  recorded.  An act reads the clock once; a reading below the floor is the floor.
\<close>

subsection \<open>State\<close>

record ticket =
  t_hash :: string
  t_candidate :: string
  t_component :: string
  t_kind :: string
  t_caps :: "string list"
  t_args :: string

record rule =
  r_require :: int
  r_approvers :: "string list"
  r_ttl :: "int option"

datatype question_outcome = Satisfied | Denied | Expired | Escalated | Revoked

datatype closed_by = By_Votes | By_Override

record vote =
  v_id :: string
  v_voter :: string
  v_ballot :: string
  v_at :: int
  v_round :: int

record override =
  ov_by :: string
  ov_reason :: string
  ov_at :: int
  ov_self :: bool

record question =
  q_request :: string
  q_hash :: string
  q_candidate :: string
  q_component :: string
  q_kind :: string
  q_round :: int
  q_caps :: "string list"
  q_require :: int
  q_approvers :: "string list"
  q_proposer :: string
  q_opened :: int
  q_expires :: "int option"
  q_expired :: "int option"
  q_votes :: "(string, vote) pydict"
  q_principals :: "(string, string) pydict"
  q_outcome :: "question_outcome option"
  q_satisfied_by :: "closed_by option"
  q_resolved :: "int option"
  q_override :: "override option"

record ledger_entry =
  le_request :: string
  le_round :: int
  le_hash :: string
  le_candidate :: string
  le_component :: string
  le_args :: string
  le_granted :: int
  le_expires :: "int option"
  le_expired :: "int option"
  le_consumed :: bool

datatype graph_row =
    Opened_Row string
  | Refused_Row string (ref_action: string) (ref_reason: string) (ref_voter: string) (ref_counted: int)
  | Vote_Row string vote string string int
  | Expired_Row string int
  | Denied_Row string string int "string list"
  | Satisfied_Row string closed_by int "string list" string
  | Override_Row string override int
  | Escalated_Row string string string
  | Revoked_Row string string string "string list"
  | Granted_Row string string

datatype quorum_error =
    Unknown_Ticket | Ambiguous_Approvers | Single_Party | Not_A_Quorum | Count_Unreachable
  | Not_Bound unbound | Refused string | No_Reason | Not_A_Member | Already_Closed question_outcome | Lapsed

text \<open>The admission receipt, axis by axis.\<close>

record receipt_binding =
  rb_request :: string
  rb_hash :: string
  rb_candidate :: string
  rb_component :: string
  rb_kind :: string
  rb_round :: int
  rb_caps :: "string list"
  rb_expires :: "int option"
  rb_granted :: int
  rb_args :: string

record receipt_rule =
  rr_require :: int
  rr_approvers :: "string list"
  rr_proposer :: string

record receipt_decision =
  rd_outcome :: "question_outcome option"
  rd_satisfied_by :: "closed_by option"
  rd_counted :: int
  rd_opened :: int
  rd_resolved :: "int option"
  rd_votes :: "vote list"
  rd_refusals :: "(string \<times> string \<times> string \<times> int) list"
  rd_override :: "override option"

record receipt_body =
  rc_kind :: string
  rc_version :: int
  rc_binding :: receipt_binding
  rc_rule :: receipt_rule
  rc_decision :: receipt_decision
  rc_spend :: "(string \<times> int) option"

record receipt = receipt_body +
  rc_digest :: string

record session_state =
  s_tickets :: "(string, ticket) pydict"
  s_rounds :: "(string, int) pydict"
  s_questions :: "(string, question) pydict"
  s_ledger :: "ledger_entry list"
  s_rows :: "graph_row list"
  s_receipts :: "(string, receipt) pydict"
  s_floor :: int

definition fresh_session :: session_state where
  "fresh_session = \<lparr>s_tickets = [], s_rounds = [], s_questions = [], s_ledger = [], s_rows = [], s_receipts = [], s_floor = 0\<rparr>"

text \<open>What an act comes with: the operator the request is bound to, and what bound it.  The configuration of a session:
  its cryptography, its policy and the operator profile it was served with.\<close>

record caller =
  ca_bound :: "oper option"
  ca_how :: string

record config =
  cf_crypto :: crypto
  cf_policy :: "string \<Rightarrow> rule option"
  cf_registry :: "(string, oper) pydict option"
  cf_digest :: "receipt_body \<Rightarrow> string"

definition caller_token :: "caller \<Rightarrow> string" where
  "caller_token ca = (case ca_bound ca of None \<Rightarrow> [] | Some b \<Rightarrow> opr_token b)"

text \<open>The ratcheted clock.\<close>

definition read_clock :: "int \<Rightarrow> session_state \<Rightarrow> int \<times> session_state" where
  "read_clock reading s = (if reading < s_floor s then (s_floor s, s) else (reading, s\<lparr>s_floor := reading\<rparr>))"


subsection \<open>Which humans a crossing needs\<close>

definition covering_rules :: "config \<Rightarrow> ticket \<Rightarrow> rule list" where
  "covering_rules cf t = concat (map (\<lambda>c. case cf_policy cf c of None \<Rightarrow> [] | Some r \<Rightarrow> [r]) (t_caps t))"

definition is_quorum :: "rule \<Rightarrow> bool" where "is_quorum r \<longleftrightarrow> r_require r > 1"

definition names_approvers :: "rule \<Rightarrow> bool" where "names_approvers r \<longleftrightarrow> r_approvers r \<noteq> []"

definition multi_party_rules :: "config \<Rightarrow> ticket \<Rightarrow> rule list" where
  "multi_party_rules cf t = filter (\<lambda>r. names_approvers r \<or> is_quorum r) (covering_rules cf t)"

definition approval_shape :: "config \<Rightarrow> ticket \<Rightarrow> quorum_error + rule option" where
  "approval_shape cf t = (case multi_party_rules cf t of [] \<Rightarrow> Inr None
     | r # rs \<Rightarrow> if list_all (\<lambda>x. (r_require x, r_approvers x) = (r_require r, r_approvers r)) rs then Inr (Some r) else Inl Ambiguous_Approvers)"

definition ticket_ttl :: "config \<Rightarrow> ticket \<Rightarrow> int option" where
  "ticket_ttl cf t = (case concat (map (\<lambda>r. case r_ttl r of None \<Rightarrow> [] | Some n \<Rightarrow> [n]) (covering_rules cf t)) of
     [] \<Rightarrow> None | n # ns \<Rightarrow> Some (fold min ns n))"

definition shortfall :: "string \<Rightarrow> rule \<Rightarrow> bool" where
  "shortfall proposer r \<longleftrightarrow> int (length (filter (\<lambda>n. n \<noteq> proposer) (r_approvers r))) < r_require r"

definition request_id :: "session_state \<Rightarrow> string \<Rightarrow> string" where
  "request_id s h = (let n = dict_get (s_rounds s) h 1 in if n \<le> 1 then h else h @ ''#r'' @ dec_int n)"

definition quorum_pending :: "session_state \<Rightarrow> string \<Rightarrow> bool" where
  "quorum_pending s h = (case map_of (s_questions s) (request_id s h) of None \<Rightarrow> False
     | Some q \<Rightarrow> q_outcome q = None \<and> q_expired q = None)"

definition counted :: "question \<Rightarrow> int" where
  "counted q = int (length (filter (\<lambda>(n, v). v_ballot v = ''approve'') (q_votes q)))"

definition put_question :: "question \<Rightarrow> session_state \<Rightarrow> session_state" where
  "put_question q s = s\<lparr>s_questions := AList.update (q_request q) q (s_questions s)\<rparr>"

definition log_row :: "graph_row \<Rightarrow> session_state \<Rightarrow> session_state" where
  "log_row r s = s\<lparr>s_rows := s_rows s @ [r]\<rparr>"

text \<open>The question of a ticket's current round, opened when the round has none.\<close>

definition new_question :: "config \<Rightarrow> caller \<Rightarrow> int \<Rightarrow> ticket \<Rightarrow> rule \<Rightarrow> session_state \<Rightarrow> question" where
  "new_question cf ca now t r s =
     \<lparr>q_request = request_id s (t_hash t), q_hash = t_hash t, q_candidate = t_candidate t, q_component = t_component t, q_kind = t_kind t,
      q_round = dict_get (s_rounds s) (t_hash t) 1, q_caps = t_caps t, q_require = r_require r, q_approvers = r_approvers r,
      q_proposer = caller_token ca, q_opened = now, q_expires = map_option (\<lambda>d. now + d) (ticket_ttl cf t), q_expired = None,
      q_votes = [], q_principals = [], q_outcome = None, q_satisfied_by = None, q_resolved = None, q_override = None\<rparr>"

definition open_question :: "config \<Rightarrow> caller \<Rightarrow> int \<Rightarrow> ticket \<Rightarrow> rule \<Rightarrow> session_state \<Rightarrow> (quorum_error + question) \<times> session_state" where
  "open_question cf ca now t r s = (case map_of (s_questions s) (request_id s (t_hash t)) of
     Some q \<Rightarrow> (Inr q, s)
   | None \<Rightarrow> if shortfall (caller_token ca) r then (Inl Count_Unreachable, s)
       else let q = new_question cf ca now t r s in (Inr q, log_row (Opened_Row (q_request q)) (put_question q s)))"


subsection \<open>Closing a question\<close>

text \<open>Whether the deadline has passed, latched the first time it has; a decided question is not re-answered.\<close>

definition deadline_passed :: "int \<Rightarrow> question \<Rightarrow> bool" where
  "deadline_passed now q \<longleftrightarrow> (case q_expires q of None \<Rightarrow> False | Some e \<Rightarrow> now > e)"

definition lapse_question :: "int \<Rightarrow> question \<Rightarrow> session_state \<Rightarrow> bool \<times> question \<times> session_state" where
  "lapse_question now q s =
     (if q_outcome q = Some Expired \<or> q_expired q \<noteq> None then (True, q, s)
      else if deadline_passed now q then
        (let q' = q\<lparr>q_expired := Some now\<rparr> in
         if q_outcome q \<noteq> None then (True, q', put_question q' s)
         else let q'' = q'\<lparr>q_outcome := Some Expired, q_resolved := Some now\<rparr> in
           (True, q'', log_row (Expired_Row (q_request q) (counted q)) (put_question q'' s)))
      else (False, q, s))"

fun decision_name :: "question_outcome \<Rightarrow> string" where
  "decision_name Satisfied = ''closed-decision''"
| "decision_name Denied = ''closed-decision''"
| "decision_name Expired = ''expired''"
| "decision_name Escalated = ''escalated''"
| "decision_name Revoked = ''revoked''"

definition mint_entry :: "config \<Rightarrow> int \<Rightarrow> ticket \<Rightarrow> string \<Rightarrow> session_state \<Rightarrow> session_state" where
  "mint_entry cf now t actor s =
     (let e = \<lparr>le_request = request_id s (t_hash t), le_round = dict_get (s_rounds s) (t_hash t) 1, le_hash = t_hash t, le_candidate = t_candidate t,
               le_component = t_component t, le_args = t_args t, le_granted = now, le_expires = map_option (\<lambda>d. now + d) (ticket_ttl cf t),
               le_expired = None, le_consumed = False\<rparr>
      in log_row (Granted_Row (le_request e) actor) (s\<lparr>s_ledger := s_ledger s @ [e]\<rparr>))"

text \<open>The voter of the latest vote, the first one among equals.\<close>

fun latest :: "vote \<Rightarrow> vote list \<Rightarrow> vote" where
  "latest v [] = v"
| "latest v (w # ws) = latest (if v_at w > v_at v then w else v) ws"

definition closing_actor :: "question \<Rightarrow> caller \<Rightarrow> string" where
  "closing_actor q ca = (case q_override q of
     Some ov \<Rightarrow> if ov_by ov \<noteq> [] then ov_by ov else (case map snd (q_votes q) of [] \<Rightarrow> caller_token ca | v # vs \<Rightarrow> v_voter (latest v vs))
   | None \<Rightarrow> (case map snd (q_votes q) of [] \<Rightarrow> caller_token ca | v # vs \<Rightarrow> v_voter (latest v vs)))"

definition approving :: "question \<Rightarrow> string list" where
  "approving q = sort (map (\<lambda>(n, v). v_voter v) (filter (\<lambda>(n, v). v_ballot v = ''approve'') (q_votes q)))"

definition decide_satisfied :: "config \<Rightarrow> caller \<Rightarrow> int \<Rightarrow> closed_by \<Rightarrow> ticket \<Rightarrow> question \<Rightarrow> session_state \<Rightarrow> session_state" where
  "decide_satisfied cf ca now how t q s =
     (let q' = q\<lparr>q_outcome := Some Satisfied, q_satisfied_by := Some how, q_resolved := Some now\<rparr>; actor = closing_actor q ca in
      mint_entry cf now t actor (log_row (Satisfied_Row (q_request q) how (counted q) (approving q) actor) (put_question q' s)))"

text \<open>The eligible approvers that have not voted.\<close>

definition unvoted :: "question \<Rightarrow> string list" where
  "unvoted q = filter (\<lambda>n. n \<noteq> q_proposer q) (filter (\<lambda>n. n \<notin> fst ` set (q_votes q)) (q_approvers q))"

definition decide_denied :: "int \<Rightarrow> question \<Rightarrow> session_state \<Rightarrow> session_state" where
  "decide_denied now q s =
     (if counted q + int (length (unvoted q)) \<ge> q_require q then s
      else let denied = sort (map fst (filter (\<lambda>(n, v). v_ballot v = ''deny'') (q_votes q))) in
        log_row (Denied_Row (q_request q) (if denied \<noteq> [] then ''denied'' else ''unreachable'') (counted q) denied)
          (put_question (q\<lparr>q_outcome := Some Denied, q_resolved := Some now\<rparr>) s))"



subsection \<open>The acts\<close>

text \<open>The operations run one after the other on the session; a refusal keeps the session it left behind.\<close>

fun act_bind :: "(quorum_error + 'a) \<times> session_state \<Rightarrow> ('a \<Rightarrow> session_state \<Rightarrow> (quorum_error + 'b) \<times> session_state) \<Rightarrow> (quorum_error + 'b) \<times> session_state" where
  "act_bind (Inl e, s) f = (Inl e, s)"
| "act_bind (Inr x, s) f = f x s"

definition refuse_act :: "quorum_error \<Rightarrow> question \<Rightarrow> string \<Rightarrow> string \<Rightarrow> string \<Rightarrow> session_state \<Rightarrow> (quorum_error + 'a) \<times> session_state" where
  "refuse_act e q action reason voter s = (Inl e, log_row (Refused_Row (q_request q) action reason voter (counted q)) s)"

definition cast_binding_of :: "question \<Rightarrow> string \<Rightarrow> string option \<Rightarrow> credentials \<Rightarrow> cast_binding" where
  "cast_binding_of q action ballot cred = \<lparr>cb_request = q_request q, cb_hash = q_hash q, cb_candidate = q_candidate q, cb_component = q_component q,
     cb_kind = q_kind q, cb_round = q_round q, cb_action = action, cb_vote = ballot, cb_as = as_token cred\<rparr>"

definition bind_cast :: "config \<Rightarrow> caller \<Rightarrow> int \<Rightarrow> question \<Rightarrow> string \<Rightarrow> string option \<Rightarrow> credentials \<Rightarrow> session_state \<Rightarrow> (quorum_error + cast) \<times> session_state" where
  "bind_cast cf ca now q action ballot cred s =
     (case resolve_cast (cf_crypto cf) cred (Some (cast_binding_of q action ballot cred)) (ca_bound ca) (ca_how ca) (cf_registry cf) (Some now) of
        Inl u \<Rightarrow> refuse_act (Not_Bound u) q action (fst u) (snd u) s
      | Inr c \<Rightarrow> (Inr c, s))"

text \<open>Why a bound voter may not be counted on an open question.\<close>

definition standing_refusal :: "question \<Rightarrow> ticket \<Rightarrow> cast \<Rightarrow> string option" where
  "standing_refusal q t c =
     (if q_candidate q \<noteq> t_candidate t \<or> q_component q \<noteq> t_component t then Some ''stale-candidate''
      else if q_approvers q \<noteq> [] \<and> cast_voter c \<notin> set (q_approvers q) then Some ''unknown-approver''
      else if cast_voter c = q_proposer q then Some ''proposer''
      else if cast_voter c \<in> fst ` set (q_votes q) then Some ''duplicate-voter''
      else case map_of (q_principals q) (cast_principal c) of
        Some prior \<Rightarrow> if prior \<noteq> cast_voter c then Some ''same-principal'' else None
      | None \<Rightarrow> None)"

definition count_vote :: "config \<Rightarrow> caller \<Rightarrow> int \<Rightarrow> ticket \<Rightarrow> string \<Rightarrow> cast \<Rightarrow> question \<Rightarrow> session_state \<Rightarrow> session_state" where
  "count_vote cf ca now t ballot c q s =
     (let v = \<lparr>v_id = q_request q @ ''#v'' @ dec_int (int (length (q_votes q)) + 1), v_voter = cast_voter c, v_ballot = ballot, v_at = now, v_round = q_round q\<rparr>;
          q' = q\<lparr>q_votes := AList.update (cast_voter c) v (q_votes q), q_principals := AList.update (cast_principal c) (cast_voter c) (q_principals q)\<rparr>;
          s' = log_row (Vote_Row (q_request q) v (cast_principal c) (cast_how c) (counted q')) (put_question q' s)
      in if ballot = ''approve'' \<and> counted q' \<ge> q_require q' then decide_satisfied cf ca now By_Votes t q' s'
         else decide_denied now q' s')"

definition cast_vote :: "config \<Rightarrow> caller \<Rightarrow> int \<Rightarrow> ticket \<Rightarrow> rule \<Rightarrow> string \<Rightarrow> credentials \<Rightarrow> session_state \<Rightarrow> (quorum_error + unit) \<times> session_state" where
  "cast_vote cf ca now t r ballot cred s =
     act_bind (open_question cf ca now t r s) (\<lambda>q s.
     act_bind (bind_cast cf ca now q ''vote'' (Some ballot) cred s) (\<lambda>c s.
       if ballot \<noteq> ''approve'' \<and> ballot \<noteq> ''deny'' then refuse_act (Refused ''malformed-vote'') q ''vote'' ''malformed-vote'' (cast_voter c) s
       else case q_outcome q of
         Some d \<Rightarrow>
           (if d \<noteq> Expired then refuse_act (Refused (decision_name d)) q ''vote'' (decision_name d) (cast_voter c) s
            else refuse_act (Refused ''expired'') q ''vote'' ''expired'' (cast_voter c) s)
       | None \<Rightarrow> (case lapse_question now q s of (lapsed, q, s) \<Rightarrow>
           if lapsed then refuse_act (Refused ''expired'') q ''vote'' ''expired'' (cast_voter c) s
           else case standing_refusal q t c of
             Some reason \<Rightarrow> refuse_act (Refused reason) q ''vote'' reason (cast_voter c) s
           | None \<Rightarrow> (Inr (), count_vote cf ca now t ballot c q s))))"

definition vote_ticket :: "config \<Rightarrow> caller \<Rightarrow> int \<Rightarrow> string \<Rightarrow> string \<Rightarrow> credentials \<Rightarrow> session_state \<Rightarrow> (quorum_error + unit) \<times> session_state" where
  "vote_ticket cf ca now h ballot cred s = (case map_of (s_tickets s) h of
     None \<Rightarrow> (Inl Unknown_Ticket, s)
   | Some t \<Rightarrow> (case approval_shape cf t of
       Inl e \<Rightarrow> (Inl e, s)
     | Inr None \<Rightarrow> (Inl Single_Party, s)
     | Inr (Some r) \<Rightarrow> cast_vote cf ca now t r ballot cred s))"

text \<open>The ticket of a hash and the question it is asked under, for the acts that only a quorum has.\<close>

definition quorum_question :: "config \<Rightarrow> caller \<Rightarrow> int \<Rightarrow> string \<Rightarrow> session_state \<Rightarrow> (quorum_error + ticket \<times> question) \<times> session_state" where
  "quorum_question cf ca now h s = (case map_of (s_tickets s) h of
     None \<Rightarrow> (Inl Unknown_Ticket, s)
   | Some t \<Rightarrow> (case approval_shape cf t of
       Inl e \<Rightarrow> (Inl e, s)
     | Inr None \<Rightarrow> (Inl Single_Party, s)
     | Inr (Some r) \<Rightarrow> if \<not> is_quorum r then (Inl Not_A_Quorum, s)
         else act_bind (open_question cf ca now t r s) (\<lambda>q s. (Inr (t, q), s))))"

definition override_ticket :: "config \<Rightarrow> caller \<Rightarrow> int \<Rightarrow> string \<Rightarrow> string \<Rightarrow> credentials \<Rightarrow> session_state \<Rightarrow> (quorum_error + unit) \<times> session_state" where
  "override_ticket cf ca now h reason cred s =
     act_bind (quorum_question cf ca now h s) (\<lambda>(t, q) s.
     act_bind (bind_cast cf ca now q ''override'' None cred s) (\<lambda>c s.
       if py_strip reason = [] then refuse_act No_Reason q ''override'' ''no-reason'' (cast_voter c) s
       else if q_outcome q \<notin> {None, Some Expired, Some Escalated} then (Inl (Already_Closed (the (q_outcome q))), s)
       else case lapse_question now q s of (lapsed, q, s) \<Rightarrow>
         if lapsed then (Inl Lapsed, s)
         else let ov = \<lparr>ov_by = cast_voter c, ov_reason = py_strip reason, ov_at = now, ov_self = (cast_voter c = q_proposer q)\<rparr>;
                  q' = q\<lparr>q_override := Some ov, q_outcome := None\<rparr>
              in (Inr (), decide_satisfied cf ca now By_Override t q'
                    (log_row (Override_Row (q_request q) ov (counted q)) (put_question q' s)))))"

definition may_close :: "question \<Rightarrow> string \<Rightarrow> bool" where
  "may_close q actor \<longleftrightarrow> \<not> (q_approvers q \<noteq> [] \<and> actor \<noteq> q_proposer q \<and> actor \<notin> set (q_approvers q))"

definition escalate_ticket :: "config \<Rightarrow> caller \<Rightarrow> int \<Rightarrow> string \<Rightarrow> string \<Rightarrow> credentials \<Rightarrow> session_state \<Rightarrow> (quorum_error + unit) \<times> session_state" where
  "escalate_ticket cf ca now h reason cred s =
     act_bind (quorum_question cf ca now h s) (\<lambda>(t, q) s.
     act_bind (bind_cast cf ca now q ''escalate'' None cred s) (\<lambda>c s.
       if \<not> may_close q (cast_voter c) then refuse_act Not_A_Member q ''escalate'' ''unknown-approver'' (cast_voter c) s
       else if q_outcome q \<notin> {None, Some Expired} then (Inl (Already_Closed (the (q_outcome q))), s)
       else case lapse_question now q s of (lapsed, q, s) \<Rightarrow>
         if lapsed then (Inl Lapsed, s)
         else (Inr (), log_row (Escalated_Row (q_request q) (cast_voter c) (py_strip reason))
                 (put_question (q\<lparr>q_outcome := Some Escalated, q_resolved := Some now\<rparr>) s))))"

definition revoke_ticket :: "config \<Rightarrow> caller \<Rightarrow> int \<Rightarrow> string \<Rightarrow> string \<Rightarrow> credentials \<Rightarrow> session_state \<Rightarrow> (quorum_error + unit) \<times> session_state" where
  "revoke_ticket cf ca now h reason cred s =
     act_bind (quorum_question cf ca now h s) (\<lambda>(t, q) s.
     act_bind (bind_cast cf ca now q ''revoke'' None cred s) (\<lambda>c s.
       if \<not> may_close q (cast_voter c) then refuse_act Not_A_Member q ''revoke'' ''unknown-approver'' (cast_voter c) s
       else case q_outcome q of Some d \<Rightarrow> (Inl (Already_Closed d), s)
       | None \<Rightarrow> (Inr (), log_row (Revoked_Row (q_request q) (cast_voter c) (py_strip reason)
                     (sort (map fst (filter (\<lambda>(n, v). v_voter v = cast_voter c) (q_votes q)))))
                 (put_question (q\<lparr>q_outcome := Some Revoked, q_resolved := Some now\<rparr>) s))))"

text \<open>Asking: the round advances only when nothing spendable stands and no question is open.\<close>

definition spendable :: "int \<Rightarrow> string \<Rightarrow> ledger_entry \<Rightarrow> bool" where
  "spendable now h e \<longleftrightarrow> le_hash e = h \<and> \<not> le_consumed e \<and> le_expired e = None \<and> \<not> (case le_expires e of None \<Rightarrow> False | Some x \<Rightarrow> now > x)"

definition latch_entry :: "int \<Rightarrow> string \<Rightarrow> ledger_entry \<Rightarrow> ledger_entry" where
  "latch_entry now h e = (if le_hash e = h \<and> \<not> le_consumed e \<and> le_expired e = None \<and> (case le_expires e of None \<Rightarrow> False | Some x \<Rightarrow> now > x)
     then e\<lparr>le_expired := Some now\<rparr> else e)"

text \<open>The scan stops at the first spendable entry, so only the entries before it are latched.\<close>

definition latch_entries :: "int \<Rightarrow> string \<Rightarrow> ledger_entry list \<Rightarrow> ledger_entry list" where
  "latch_entries now h es = map (latch_entry now h) (takeWhile (\<lambda>e. \<not> spendable now h e) es) @ dropWhile (\<lambda>e. \<not> spendable now h e) es"

definition issue_ticket :: "config \<Rightarrow> caller \<Rightarrow> int \<Rightarrow> ticket \<Rightarrow> session_state \<Rightarrow> (quorum_error + unit) \<times> session_state" where
  "issue_ticket cf ca now t s = (case approval_shape cf t of
     Inl e \<Rightarrow> (Inl e, s)
   | Inr shape \<Rightarrow>
      if (case shape of None \<Rightarrow> False | Some r \<Rightarrow> shortfall (caller_token ca) r) then (Inl Count_Unreachable, s)
      else let h = t_hash t; s = s\<lparr>s_tickets := AList.update h t (s_tickets s)\<rparr>;
               stands = list_ex (spendable now h) (s_ledger s);
               s = s\<lparr>s_ledger := latch_entries now h (s_ledger s)\<rparr>;
               s = (if \<not> stands \<and> \<not> quorum_pending s h then s\<lparr>s_rounds := AList.update h (dict_get (s_rounds s) h 0 + 1) (s_rounds s)\<rparr> else s)
           in case shape of None \<Rightarrow> (Inr (), s)
              | Some r \<Rightarrow> act_bind (open_question cf ca now t r s) (\<lambda>q s. (Inr (), s)))"


subsection \<open>The admission receipt\<close>

definition receipt_kind :: string where "receipt_kind = ''revl.quorum.receipt''"

definition receipt_version :: int where "receipt_version = 1"

definition binding_axis :: "question \<Rightarrow> ledger_entry \<Rightarrow> receipt_binding" where
  "binding_axis q e = \<lparr>rb_request = q_request q, rb_hash = q_hash q, rb_candidate = q_candidate q, rb_component = q_component q, rb_kind = q_kind q,
     rb_round = q_round q, rb_caps = q_caps q, rb_expires = q_expires q, rb_granted = le_granted e, rb_args = le_args e\<rparr>"

definition vote_rows :: "question \<Rightarrow> vote list" where
  "vote_rows q = sort_key v_id (map snd (q_votes q))"

fun is_grant_of :: "string \<Rightarrow> graph_row \<Rightarrow> bool" where
  "is_grant_of rid (Granted_Row g actor) \<longleftrightarrow> g = rid"
| "is_grant_of rid row \<longleftrightarrow> False"

fun refusal_of :: "string \<Rightarrow> graph_row \<Rightarrow> (string \<times> string \<times> string \<times> int) list" where
  "refusal_of rid (Refused_Row g action reason voter n) = (if g = rid then [(action, reason, voter, n)] else [])"
| "refusal_of rid row = []"

text \<open>The position of the row that minted the authority, and the refusals up to it.\<close>

fun spend_bound :: "graph_row list \<Rightarrow> string \<Rightarrow> nat option" where
  "spend_bound [] rid = None"
| "spend_bound (r # rs) rid = (if is_grant_of rid r then Some 0 else map_option Suc (spend_bound rs rid))"

definition refusal_rows :: "graph_row list \<Rightarrow> string \<Rightarrow> nat option \<Rightarrow> (string \<times> string \<times> string \<times> int) list" where
  "refusal_rows rows rid bound = concat (map (refusal_of rid) (case bound of None \<Rightarrow> rows | Some n \<Rightarrow> take (Suc n) rows))"

definition decision_axis :: "question \<Rightarrow> ledger_entry \<Rightarrow> graph_row list \<Rightarrow> receipt_decision" where
  "decision_axis q e rows = \<lparr>rd_outcome = q_outcome q, rd_satisfied_by = q_satisfied_by q, rd_counted = counted q, rd_opened = q_opened q,
     rd_resolved = q_resolved q, rd_votes = vote_rows q, rd_refusals = refusal_rows rows (q_request q) (spend_bound rows (le_request e)),
     rd_override = q_override q\<rparr>"

definition receipt_body_of :: "question \<Rightarrow> ledger_entry \<Rightarrow> graph_row list \<Rightarrow> receipt_body" where
  "receipt_body_of q e rows = \<lparr>rc_kind = receipt_kind, rc_version = receipt_version, rc_binding = binding_axis q e,
     rc_rule = \<lparr>rr_require = q_require q, rr_approvers = q_approvers q, rr_proposer = q_proposer q\<rparr>,
     rc_decision = decision_axis q e rows, rc_spend = None\<rparr>"

definition build_receipt :: "config \<Rightarrow> question \<Rightarrow> ledger_entry \<Rightarrow> graph_row list \<Rightarrow> int \<Rightarrow> receipt" where
  "build_receipt cf q e rows consumed_at =
     (let body = (receipt_body_of q e rows)\<lparr>rc_spend := Some (le_request e, consumed_at)\<rparr>
      in receipt_body.extend body \<lparr>rc_digest = cf_digest cf body\<rparr>)"

definition verify_receipt :: "config \<Rightarrow> receipt \<Rightarrow> question option \<Rightarrow> ledger_entry option \<Rightarrow> graph_row list \<Rightarrow> string list" where
  "verify_receipt cf r decision entry rows =
     (let shape = (if rc_kind r \<noteq> receipt_kind then [''unknown-kind''] else []) @ (if rc_version r \<noteq> receipt_version then [''unknown-version''] else [])
            @ (case rc_spend r of None \<Rightarrow> [''no-spend''] | Some (rid, t) \<Rightarrow> if rid = [] then [''no-spend''] else [])
      in if shape \<noteq> [] then shape
      else let digest = (if rc_digest r \<noteq> cf_digest cf (receipt_body.truncate r) then [''digest''] else [])
      in case (decision, entry) of
        (Some q, Some e) \<Rightarrow>
          (let b = receipt_body_of q e rows in digest
             @ (if rc_binding b \<noteq> rc_binding r then [''binding''] else []) @ (if rc_rule b \<noteq> rc_rule r then [''rule''] else [])
             @ (if rc_decision b \<noteq> rc_decision r then [''decision''] else [])
             @ (if map_option fst (rc_spend r) \<noteq> Some (le_request e) then [''binding''] else []))
      | _ \<Rightarrow> digest @ [''no-decision''])"

definition verify_session_receipt :: "config \<Rightarrow> receipt \<Rightarrow> session_state \<Rightarrow> string list" where
  "verify_session_receipt cf r s = (let rid = rb_request (rc_binding r) in
     verify_receipt cf r (map_of (s_questions s) rid) (List.find (\<lambda>e. le_request e = rid) (s_ledger s)) (s_rows s))"

text \<open>The crossing spends the entry of a ticket that still matches the live candidate, once, and mints the receipt.\<close>

definition standing_entry :: "int \<Rightarrow> ticket \<Rightarrow> ledger_entry \<Rightarrow> bool" where
  "standing_entry now t e \<longleftrightarrow> spendable now (t_hash t) e \<and> le_candidate e = t_candidate t \<and> le_component e = t_component t"

definition mint_receipt :: "config \<Rightarrow> int \<Rightarrow> ledger_entry \<Rightarrow> session_state \<Rightarrow> session_state" where
  "mint_receipt cf now e s = (case map_of (s_questions s) (le_request e) of
     None \<Rightarrow> s
   | Some q \<Rightarrow> if q_outcome q \<noteq> Some Satisfied \<or> map_of (s_receipts s) (le_request e) \<noteq> None then s
       else s\<lparr>s_receipts := AList.update (le_request e) (build_receipt cf q e (s_rows s) now) (s_receipts s)\<rparr>)"

fun consume_first :: "(ledger_entry \<Rightarrow> bool) \<Rightarrow> ledger_entry list \<Rightarrow> (ledger_entry \<times> ledger_entry list) option" where
  "consume_first P [] = None"
| "consume_first P (e # es) = (if P e then Some (e\<lparr>le_consumed := True\<rparr>, e\<lparr>le_consumed := True\<rparr> # es)
     else map_option (\<lambda>(x, xs). (x, e # xs)) (consume_first P es))"

definition spend_approval :: "config \<Rightarrow> int \<Rightarrow> ticket \<Rightarrow> session_state \<Rightarrow> bool \<times> session_state" where
  "spend_approval cf now t s = (case consume_first (standing_entry now t) (s_ledger s) of
     None \<Rightarrow> (False, s)
   | Some (e, es) \<Rightarrow> (True, mint_receipt cf now e (s\<lparr>s_ledger := es\<rparr>)))"


subsection \<open>A session's life\<close>

datatype act = Ask ticket | Vote_Act string string credentials | Override_Act string string credentials
  | Escalate_Act string string credentials | Revoke_Act string string credentials | Spend_Act ticket

fun perform :: "config \<Rightarrow> caller \<Rightarrow> int \<Rightarrow> act \<Rightarrow> session_state \<Rightarrow> session_state" where
  "perform cf ca now (Ask t) s = snd (issue_ticket cf ca now t s)"
| "perform cf ca now (Vote_Act h ballot cred) s = snd (vote_ticket cf ca now h ballot cred s)"
| "perform cf ca now (Override_Act h reason cred) s = snd (override_ticket cf ca now h reason cred s)"
| "perform cf ca now (Escalate_Act h reason cred) s = snd (escalate_ticket cf ca now h reason cred s)"
| "perform cf ca now (Revoke_Act h reason cred) s = snd (revoke_ticket cf ca now h reason cred s)"
| "perform cf ca now (Spend_Act t) s = snd (spend_approval cf now t s)"

definition quorum_step :: "config \<Rightarrow> caller \<times> int \<times> act \<Rightarrow> session_state \<Rightarrow> session_state" where
  "quorum_step cf x s = (case x of (ca, reading, a) \<Rightarrow> (case read_clock reading s of (now, s) \<Rightarrow> perform cf ca now a s))"

end
