(* ===== verification/Quorum_Properties.thy ===== *)
theory Quorum_Properties
  imports Quorum Guarded_System "HOL-Library.Multiset"
begin

section \<open>Properties of multi-party approval\<close>

text \<open>
  Every act is a sequence of a few moves on the session, each of which keeps one invariant; the
  properties of a session's life are read off the invariant.
\<close>

subsection \<open>The invariant of a question\<close>

definition reachable_count :: "question \<Rightarrow> bool" where
  "reachable_count q \<longleftrightarrow> counted q + int (length (unvoted q)) \<ge> q_require q"

definition named :: "question \<Rightarrow> string \<Rightarrow> bool" where
  "named q n \<longleftrightarrow> n \<noteq> q_proposer q \<and> (q_approvers q \<noteq> [] \<longrightarrow> n \<in> set (q_approvers q))"

text \<open>\<open>E\<close> says which name, principal and ballot some act of the session proved for the question.\<close>

type_synonym evidence = "string \<Rightarrow> string \<Rightarrow> string \<Rightarrow> string \<Rightarrow> bool"

definition question_ok :: "evidence \<Rightarrow> question \<Rightarrow> bool" where
  "question_ok E q \<longleftrightarrow> q_request q \<noteq> [] \<and> dict_ok (q_votes q) \<and> dict_ok (q_principals q)
     \<and> map snd (q_principals q) = map fst (q_votes q)
     \<and> (\<forall>(n, v) \<in> set (q_votes q). v_voter v = n \<and> named q n)
     \<and> (\<forall>((p, m), (n, v)) \<in> set (zip (q_principals q) (q_votes q)). E (q_request q) n p (v_ballot v))
     \<and> (q_outcome q \<in> {None, Some Escalated} \<longrightarrow> reachable_count q)
     \<and> (q_outcome q = Some Denied \<longrightarrow> \<not> reachable_count q)
     \<and> (q_satisfied_by q = Some By_Votes \<longrightarrow> counted q \<ge> q_require q)
     \<and> (q_satisfied_by q \<noteq> None \<longleftrightarrow> q_outcome q = Some Satisfied)"

definition still_open :: "question \<Rightarrow> bool" where
  "still_open q \<longleftrightarrow> q_outcome q \<in> {None, Some Escalated}"

text \<open>What a spend or a latch may change of a ledger entry.\<close>

definition frozen :: "ledger_entry \<Rightarrow> ledger_entry" where
  "frozen e = e\<lparr>le_consumed := False, le_expired := None\<rparr>"

fun granting :: "graph_row \<Rightarrow> bool" where
  "granting (Granted_Row g actor) = True"
| "granting row = False"

definition spent :: "session_state \<Rightarrow> string list" where
  "spent s = map le_request (filter le_consumed (s_ledger s))"

inductive move :: "config \<Rightarrow> evidence \<Rightarrow> session_state \<Rightarrow> session_state \<Rightarrow> bool" for cf E where
  books: "s_questions s' = s_questions s \<Longrightarrow> map frozen (s_ledger s') = map frozen (s_ledger s) \<Longrightarrow> s_rows s' = s_rows s \<Longrightarrow> s_receipts s' = s_receipts s
    \<Longrightarrow> spent s' = spent s \<Longrightarrow> move cf E s s'"
| note_row: "\<not> granting r \<Longrightarrow> move cf E s (log_row r s)"
| change: "question_ok E q \<Longrightarrow> q_outcome q \<noteq> Some Satisfied \<Longrightarrow> (\<And>p. map_of (s_questions s) (q_request q) = Some p \<Longrightarrow> still_open p)
    \<Longrightarrow> move cf E s (put_question q s)"
| satisfy: "question_ok E q \<Longrightarrow> q_outcome q = Some Satisfied \<Longrightarrow> (\<And>p. map_of (s_questions s) (q_request q) = Some p \<Longrightarrow> still_open p)
    \<Longrightarrow> list_all (\<lambda>r. \<not> granting r) rs \<Longrightarrow> le_request e = q_request q \<Longrightarrow> \<not> le_consumed e
    \<Longrightarrow> move cf E s (log_row (Granted_Row (q_request q) actor) ((put_question q s)\<lparr>s_rows := s_rows s @ rs, s_ledger := s_ledger s @ [e]\<rparr>))"

lemma move_spent: "move cf E s s' \<Longrightarrow> spent s' = spent s"
  by (induction rule: move.induct) (simp_all add: spent_def log_row_def put_question_def)


subsection \<open>The invariant of a session\<close>

definition session_ok :: "config \<Rightarrow> evidence \<Rightarrow> session_state \<Rightarrow> bool" where
  "session_ok cf E s \<longleftrightarrow> dict_ok (s_questions s)
     \<and> (\<forall>rid q. map_of (s_questions s) rid = Some q \<longrightarrow> q_request q = rid \<and> question_ok E q)
     \<and> distinct (map le_request (s_ledger s))
     \<and> le_request ` set (s_ledger s) = {rid. \<exists>q. map_of (s_questions s) rid = Some q \<and> q_outcome q = Some Satisfied}
     \<and> (\<forall>rid \<in> le_request ` set (s_ledger s). spend_bound (s_rows s) rid \<noteq> None)
     \<and> (\<forall>rid r. map_of (s_receipts s) rid = Some r \<longrightarrow> rid \<in> le_request ` set (s_ledger s) \<and> rb_request (rc_binding r) = rid \<and> verify_session_receipt cf r s = [])"

lemma session_okD:
  assumes "session_ok cf E s"
  shows "dict_ok (s_questions s)" "map_of (s_questions s) rid = Some q \<Longrightarrow> q_request q = rid \<and> question_ok E q"
    "distinct (map le_request (s_ledger s))"
    "rid \<in> le_request ` set (s_ledger s) \<longleftrightarrow> (\<exists>q. map_of (s_questions s) rid = Some q \<and> q_outcome q = Some Satisfied)"
    "rid \<in> le_request ` set (s_ledger s) \<Longrightarrow> spend_bound (s_rows s) rid \<noteq> None"
    "map_of (s_receipts s) rid = Some r \<Longrightarrow> rid \<in> le_request ` set (s_ledger s) \<and> rb_request (rc_binding r) = rid \<and> verify_session_receipt cf r s = []"
proof -
  have i: "dict_ok (s_questions s)" "\<forall>rid q. map_of (s_questions s) rid = Some q \<longrightarrow> q_request q = rid \<and> question_ok E q"
      "distinct (map le_request (s_ledger s))"
      "le_request ` set (s_ledger s) = {rid. \<exists>q. map_of (s_questions s) rid = Some q \<and> q_outcome q = Some Satisfied}"
      "\<forall>rid \<in> le_request ` set (s_ledger s). spend_bound (s_rows s) rid \<noteq> None"
      "\<forall>rid r. map_of (s_receipts s) rid = Some r \<longrightarrow> rid \<in> le_request ` set (s_ledger s) \<and> rb_request (rc_binding r) = rid \<and> verify_session_receipt cf r s = []"
    using assms unfolding session_ok_def by - (elim conjE, assumption)+
  show "dict_ok (s_questions s)" "distinct (map le_request (s_ledger s))" by (rule i)+
  show "map_of (s_questions s) rid = Some q \<Longrightarrow> q_request q = rid \<and> question_ok E q" using i(2) by blast
  show "rid \<in> le_request ` set (s_ledger s) \<longleftrightarrow> (\<exists>q. map_of (s_questions s) rid = Some q \<and> q_outcome q = Some Satisfied)"
    unfolding i(4) by blast
  show "rid \<in> le_request ` set (s_ledger s) \<Longrightarrow> spend_bound (s_rows s) rid \<noteq> None" using i(5) by blast
  show "map_of (s_receipts s) rid = Some r \<Longrightarrow> rid \<in> le_request ` set (s_ledger s) \<and> rb_request (rc_binding r) = rid \<and> verify_session_receipt cf r s = []" using i(6) by blast
qed

text \<open>What later states keep: decided questions, minted entries up to their flags, rows and receipts.\<close>

definition extends :: "session_state \<Rightarrow> session_state \<Rightarrow> bool" where
  "extends s s' \<longleftrightarrow> (\<forall>rid q. map_of (s_questions s) rid = Some q \<longrightarrow> \<not> still_open q \<longrightarrow> map_of (s_questions s') rid = Some q)
     \<and> (\<exists>new. s_rows s' = s_rows s @ new) \<and> (\<exists>new. map frozen (s_ledger s') = map frozen (s_ledger s) @ new)
     \<and> (\<forall>rid r. map_of (s_receipts s) rid = Some r \<longrightarrow> map_of (s_receipts s') rid = Some r)"

lemma extends_refl [simp]: "extends s s"
  by (simp add: extends_def)

lemma extends_trans: "extends s t \<Longrightarrow> extends t u \<Longrightarrow> extends s u"
  unfolding extends_def by (elim conjE exE, intro conjI) (blast, simp_all)

lemma move_extends: "move cf E s s' \<Longrightarrow> extends s s'"
  by (induction rule: move.induct) (auto simp: extends_def log_row_def put_question_def update_conv')

lemma spend_extends: "map frozen es = map frozen (s_ledger s) \<Longrightarrow> extends s (mint_receipt cf now e (s\<lparr>s_ledger := es\<rparr>))"
  by (auto simp: extends_def mint_receipt_def update_conv' split: option.splits)

lemma frozen_request [simp]: "le_request (frozen e) = le_request e" "le_granted (frozen e) = le_granted e" "le_args (frozen e) = le_args e"
  by (simp_all add: frozen_def)

text \<open>What a receipt says of an entry does not depend on its flags.\<close>

lemma receipt_body_frozen: "frozen e = frozen e' \<Longrightarrow> receipt_body_of q e rows = receipt_body_of q e' rows \<and> le_request e = le_request e'"
proof -
  assume f: "frozen e = frozen e'"
  have "le_request e = le_request e'" "le_granted e = le_granted e'" "le_args e = le_args e'" using f frozen_request by metis+
  then show ?thesis by (simp add: receipt_body_of_def binding_axis_def decision_axis_def)
qed

lemma spend_bound_append: "spend_bound rows rid = Some n \<Longrightarrow> spend_bound (rows @ new) rid = Some n \<and> n < length rows"
  by (induction rows arbitrary: n) (auto split: if_splits)

lemma decision_axis_append:
  assumes "spend_bound rows (le_request e) \<noteq> None"
  shows "receipt_body_of q e (rows @ new) = receipt_body_of q e rows"
proof -
  obtain n where n: "spend_bound rows (le_request e) = Some n" using assms by blast
  have "refusal_rows (rows @ new) rid (Some n) = refusal_rows rows rid (Some n)" for rid
    using spend_bound_append [OF n, of new] by (simp add: refusal_rows_def)
  then show ?thesis using spend_bound_append [OF n, of new] n by (simp add: receipt_body_of_def decision_axis_def)
qed

lemma verify_receipt_frozen:
  assumes "frozen e = frozen e'" "spend_bound rows (le_request e) \<noteq> None"
  shows "verify_receipt cf r (Some q) (Some e') (rows @ new) = verify_receipt cf r (Some q) (Some e) rows"
  using receipt_body_frozen [OF assms(1), of q "rows @ new"] decision_axis_append [OF assms(2), of q new]
  by (simp add: verify_receipt_def)

lemma find_frozen:
  "map frozen es' = map frozen es @ new \<Longrightarrow> List.find (\<lambda>e. le_request e = rid) es = Some e
     \<Longrightarrow> \<exists>e'. List.find (\<lambda>e. le_request e = rid) es' = Some e' \<and> frozen e' = frozen e"
proof (induction es arbitrary: es')
  case (Cons x es)
  obtain y ys where y: "es' = y # ys" "frozen y = frozen x" "map frozen ys = map frozen es @ new" using Cons.prems(1) by (cases es') auto
  moreover have "le_request y = le_request x" using y(2) by (metis frozen_request(1))
  ultimately show ?case using Cons by (auto split: if_splits)
qed simp


lemma find_by_key: "distinct (map f xs) \<Longrightarrow> x \<in> set xs \<Longrightarrow> List.find (\<lambda>y. f y = f x) xs = Some x"
  by (induction xs) (auto simp: image_iff)

lemma find_key: "rid \<in> f ` set xs \<Longrightarrow> \<exists>x. List.find (\<lambda>y. f y = rid) xs = Some x \<and> f x = rid"
  by (induction xs) auto

text \<open>A receipt that a state verifies is verified by every state that extends it.\<close>

lemma verified_receipts_stay:
  assumes ok: "session_ok cf E s" and ext: "extends s s'" and ledger: "rid \<in> le_request ` set (s_ledger s)"
    and r: "rb_request (rc_binding r) = rid"
  shows "verify_session_receipt cf r s' = verify_session_receipt cf r s"
proof -
  obtain q where q: "map_of (s_questions s) rid = Some q" "q_outcome q = Some Satisfied" using session_okD(4) [OF ok] ledger by blast
  have q': "map_of (s_questions s') rid = Some q" using ext q unfolding extends_def still_open_def by auto
  obtain e where e: "List.find (\<lambda>e. le_request e = rid) (s_ledger s) = Some e" "le_request e = rid" using find_key [OF ledger] by blast
  obtain new rows where "map frozen (s_ledger s') = map frozen (s_ledger s) @ new" and rows: "s_rows s' = s_rows s @ rows"
    using ext unfolding extends_def by blast
  then obtain e' where e': "List.find (\<lambda>e. le_request e = rid) (s_ledger s') = Some e'" "frozen e' = frozen e" using find_frozen e(1) by blast
  have "spend_bound (s_rows s) (le_request e) \<noteq> None" using session_okD(5) [OF ok ledger] e(2) by simp
  then show ?thesis
    unfolding verify_session_receipt_def Let_def r q q' e(1) e'(1) rows by (rule verify_receipt_frozen [OF e'(2) [symmetric]])
qed

lemma built_receipt_verifies:
  assumes "q_request q = le_request e" "le_request e \<noteq> []"
  shows "verify_receipt cf (build_receipt cf q e rows now) (Some q) (Some e) rows = []"
proof -
  let ?r = "build_receipt cf q e rows now" and ?b = "receipt_body_of q e rows"
  have "receipt_body.truncate ?r = ?b\<lparr>rc_spend := Some (le_request e, now)\<rparr>" "rc_digest ?r = cf_digest cf (?b\<lparr>rc_spend := Some (le_request e, now)\<rparr>)"
      "rc_kind ?r = receipt_kind" "rc_version ?r = receipt_version" "rc_spend ?r = Some (le_request e, now)"
      "rc_binding ?r = rc_binding ?b" "rc_rule ?r = rc_rule ?b" "rc_decision ?r = rc_decision ?b"
    by (simp_all add: build_receipt_def Let_def receipt_body_of_def receipt_body.defs)
  then show ?thesis using assms(2) unfolding verify_receipt_def Let_def by simp
qed

lemma spend_bound_None: "list_all (\<lambda>r. \<not> granting r) rs \<Longrightarrow> spend_bound (rs @ [Granted_Row rid actor]) rid \<noteq> None"
proof -
  have "\<not> granting r \<Longrightarrow> \<not> is_grant_of rid r" for r by (cases r) auto
  then show "list_all (\<lambda>r. \<not> granting r) rs \<Longrightarrow> spend_bound (rs @ [Granted_Row rid actor]) rid \<noteq> None"
    by (induction rs) auto
qed

lemma spend_bound_later: "spend_bound rows' rid \<noteq> None \<Longrightarrow> spend_bound (rows @ rows') rid \<noteq> None"
  by (induction rows) (auto split: if_splits)


lemma frozen_requests: "map frozen es' = map frozen es @ new \<Longrightarrow> map le_request es' = map le_request es @ map le_request new"
proof -
  have "map le_request xs = map le_request (map frozen xs)" for xs by (simp add: comp_def)
  then show "map frozen es' = map frozen es @ new \<Longrightarrow> map le_request es' = map le_request es @ map le_request new"
    by (metis map_append map_map)
qed

text \<open>Each move keeps the invariant.\<close>

lemma old_receipts:
  assumes "session_ok cf E s" "extends s s'" "map_of (s_receipts s) rid = Some r"
  shows "rid \<in> le_request ` set (s_ledger s') \<and> rb_request (rc_binding r) = rid \<and> verify_session_receipt cf r s' = []"
proof -
  note r = session_okD(6) [OF assms(1,3)]
  obtain new where "map frozen (s_ledger s') = map frozen (s_ledger s) @ new" using assms(2) unfolding extends_def by blast
  from frozen_requests [OF this] have "map le_request (s_ledger s') = map le_request (s_ledger s) @ map le_request new" .
  then have "set (map le_request (s_ledger s)) \<subseteq> set (map le_request (s_ledger s'))" by simp
  then have "rid \<in> le_request ` set (s_ledger s')" using r by auto
  then show ?thesis using r verified_receipts_stay [OF assms(1,2) _ conjunct1 [OF conjunct2 [OF r]]] by simp
qed

lemma move_books_ok:
  assumes "session_ok cf E s" "s_questions s' = s_questions s" "map frozen (s_ledger s') = map frozen (s_ledger s)" "s_rows s' = s_rows s @ new" "s_receipts s' = s_receipts s"
  shows "session_ok cf E s'"
proof -
  note d = session_okD [OF assms(1)]
  have ext: "extends s s'" using assms(2-5) by (simp add: extends_def)
  have l: "map le_request (s_ledger s') = map le_request (s_ledger s)" using frozen_requests [of "s_ledger s'" "s_ledger s" "[]"] assms(3) by simp
  then have ls: "le_request ` set (s_ledger s') = le_request ` set (s_ledger s)" by (metis set_map)
  have "spend_bound (s_rows s') rid \<noteq> None" if "rid \<in> le_request ` set (s_ledger s)" for rid
    using d(5) [OF that] spend_bound_append unfolding assms(4) by fastforce
  then show ?thesis
    unfolding session_ok_def assms(2) ls l assms(5)
  proof (intro conjI allI impI ballI)
    show "dict_ok (s_questions s)" "distinct (map le_request (s_ledger s))" by (rule d)+
    show "le_request ` set (s_ledger s) = {rid. \<exists>q. map_of (s_questions s) rid = Some q \<and> q_outcome q = Some Satisfied}" using d(4) by blast
  qed (use d(2) old_receipts [OF assms(1) ext] ls in auto)
qed

lemma put_question_map: "map_of (s_questions (put_question q s)) rid = (if rid = q_request q then Some q else map_of (s_questions s) rid)"
  by (simp add: put_question_def update_conv')

lemma move_change_ok:
  assumes "session_ok cf E s" "question_ok E q" "q_outcome q \<noteq> Some Satisfied" "\<And>p. map_of (s_questions s) (q_request q) = Some p \<Longrightarrow> still_open p"
  shows "session_ok cf E (put_question q s)"
proof -
  note d = session_okD [OF assms(1)]
  have ext: "extends s (put_question q s)" by (rule move_extends [OF move.change [OF assms(2,3,4)]])
  have same: "s_ledger (put_question q s) = s_ledger s" "s_rows (put_question q s) = s_rows s" "s_receipts (put_question q s) = s_receipts s"
    by (simp_all add: put_question_def)
  have "rid \<in> le_request ` set (s_ledger s) \<longleftrightarrow> (\<exists>p. map_of (s_questions (put_question q s)) rid = Some p \<and> q_outcome p = Some Satisfied)" for rid
    using d(4) [of rid] assms(3,4) unfolding put_question_map still_open_def by auto
  moreover have "map_of (s_questions (put_question q s)) rid = Some p \<Longrightarrow> q_request p = rid \<and> question_ok E p" for rid p
    using d(2) assms(2) unfolding put_question_map by (auto split: if_splits)
  moreover have "dict_ok (s_questions (put_question q s))" using d(1) by (simp add: put_question_def)
  ultimately show ?thesis
    unfolding session_ok_def same using d(3,5) old_receipts [OF assms(1) ext] same by auto
qed

lemma move_satisfy_ok:
  assumes ok: "session_ok cf E s" and q: "question_ok E q" "q_outcome q = Some Satisfied" "\<And>p. map_of (s_questions s) (q_request q) = Some p \<Longrightarrow> still_open p"
    and rs: "list_all (\<lambda>r. \<not> granting r) rs" and e: "le_request e = q_request q" "\<not> le_consumed e"
  shows "session_ok cf E (log_row (Granted_Row (q_request q) actor) ((put_question q s)\<lparr>s_rows := s_rows s @ rs, s_ledger := s_ledger s @ [e]\<rparr>))"
    (is "session_ok cf E ?s'")
proof -
  note d = session_okD [OF ok]
  have ext: "extends s ?s'" by (rule move_extends [OF move.satisfy [OF q rs e]])
  have f: "s_questions ?s' = s_questions (put_question q s)" "s_ledger ?s' = s_ledger s @ [e]" "s_rows ?s' = s_rows s @ rs @ [Granted_Row (q_request q) actor]"
      "s_receipts ?s' = s_receipts s"
    by (simp_all add: log_row_def put_question_def)
  have new: "q_request q \<notin> le_request ` set (s_ledger s)" using d(4) [of "q_request q"] q(3) unfolding still_open_def by auto
  have "rid \<in> le_request ` set (s_ledger ?s') \<longleftrightarrow> (\<exists>p. map_of (s_questions ?s') rid = Some p \<and> q_outcome p = Some Satisfied)" for rid
    using d(4) [of rid] q(2) e unfolding f put_question_map by auto
  moreover have "map_of (s_questions ?s') rid = Some p \<Longrightarrow> q_request p = rid \<and> question_ok E p" for rid p
    using d(2) q(1) unfolding f put_question_map by (auto split: if_splits)
  moreover have "dict_ok (s_questions ?s')" using d(1) unfolding f by (simp add: put_question_def)
  moreover have "distinct (map le_request (s_ledger ?s'))" using d(3) new e unfolding f by simp
  moreover have "spend_bound (s_rows ?s') rid \<noteq> None" if "rid \<in> le_request ` set (s_ledger ?s')" for rid
  proof (cases "rid = q_request q")
    case True
    then show ?thesis using spend_bound_later [OF spend_bound_None [OF rs]] unfolding f by simp
  next
    case False
    then have "rid \<in> le_request ` set (s_ledger s)" using that e unfolding f by auto
    then show ?thesis using d(5) spend_bound_append unfolding f by fastforce
  qed
  ultimately show ?thesis unfolding session_ok_def f(4) using old_receipts [OF ok ext] by blast
qed


lemma add_receipt_ok:
  assumes ok: "session_ok cf E t" and r: "rid \<in> le_request ` set (s_ledger t)" "rb_request (rc_binding r) = rid" "verify_session_receipt cf r t = []"
  shows "session_ok cf E (t\<lparr>s_receipts := AList.update rid r (s_receipts t)\<rparr>)" (is "session_ok cf E ?t'")
proof -
  note d = session_okD [OF ok]
  have v: "verify_session_receipt cf x ?t' = verify_session_receipt cf x t" for x by (simp add: verify_session_receipt_def)
  have "map_of (s_receipts ?t') i = Some x \<Longrightarrow> i \<in> le_request ` set (s_ledger t) \<and> rb_request (rc_binding x) = i \<and> verify_session_receipt cf x t = []" for i x
    using d(6) [of i x] r by (simp add: update_conv' split: if_splits)
  moreover have "le_request ` set (s_ledger t) = {rid. \<exists>q. map_of (s_questions t) rid = Some q \<and> q_outcome q = Some Satisfied}" using d(4) by blast
  ultimately show ?thesis
    unfolding session_ok_def v using d(1,2,3,5) by simp
qed

lemma move_spend_ok:
  assumes ok: "session_ok cf E s" and es: "map frozen es = map frozen (s_ledger s)" "e \<in> set es"
  shows "session_ok cf E (mint_receipt cf now e (s\<lparr>s_ledger := es\<rparr>))"
proof -
  let ?t = "s\<lparr>s_ledger := es\<rparr>" and ?rid = "le_request e"
  have t: "session_ok cf E ?t" by (rule move_books_ok [OF ok, of _ "[]"]) (simp_all add: es)
  show ?thesis
  proof (cases "\<exists>q. map_of (s_questions s) ?rid = Some q \<and> q_outcome q = Some Satisfied \<and> map_of (s_receipts s) ?rid = None")
    case False
    then have "mint_receipt cf now e ?t = ?t" by (auto simp: mint_receipt_def split: option.splits)
    then show ?thesis using t by simp
  next
    case True
    then obtain q where q: "map_of (s_questions s) ?rid = Some q" "q_outcome q = Some Satisfied" "map_of (s_receipts s) ?rid = None" by blast
    let ?r = "build_receipt cf q e (s_rows s) now"
    have m: "mint_receipt cf now e ?t = ?t\<lparr>s_receipts := AList.update ?rid ?r (s_receipts s)\<rparr>" using q by (simp add: mint_receipt_def)
    have qr: "q_request q = ?rid" "?rid \<noteq> []" using session_okD(2) [OF ok q(1)] by (auto simp: question_ok_def)
    have "List.find (\<lambda>x. le_request x = ?rid) es = Some e"
      by (rule find_by_key) (use session_okD(3) [OF t] es(2) in simp_all)
    moreover have "rb_request (rc_binding ?r) = ?rid" using qr by (simp add: build_receipt_def Let_def receipt_body_of_def receipt_body.defs binding_axis_def)
    ultimately have "verify_session_receipt cf ?r (mint_receipt cf now e ?t) = []" "rb_request (rc_binding ?r) = ?rid"
      using built_receipt_verifies [OF qr] q unfolding m verify_session_receipt_def Let_def by simp_all
    moreover have "verify_session_receipt cf ?r (mint_receipt cf now e ?t) = verify_session_receipt cf ?r ?t"
      unfolding m verify_session_receipt_def by simp
    ultimately have "session_ok cf E (?t\<lparr>s_receipts := AList.update ?rid ?r (s_receipts ?t)\<rparr>)"
      using es(2) by (intro add_receipt_ok [OF t]) auto
    then show ?thesis unfolding m by simp
  qed
qed

lemma move_ok: "move cf E s s' \<Longrightarrow> session_ok cf E s \<Longrightarrow> session_ok cf E s'"
proof (induction rule: move.induct)
  case (books s' s)
  then show ?case by (intro move_books_ok [OF books(6), of _ "[]"]) simp_all
next
  case (note_row r s)
  then show ?case by (intro move_books_ok [OF note_row(2), of _ "[r]"]) (simp_all add: log_row_def)
next
  case (change q s)
  then show ?case by (intro move_change_ok)
next
  case (satisfy q s rs e actor)
  then show ?case by (intro move_satisfy_ok)
qed

lemma moves_ok: "(move cf E)\<^sup>*\<^sup>* s s' \<Longrightarrow> session_ok cf E s \<Longrightarrow> session_ok cf E s' \<and> extends s s'"
  by (induction rule: rtranclp_induct) (auto intro: move_ok extends_trans move_extends)



subsection \<open>Every act is a sequence of moves\<close>

definition tickets_ok :: "session_state \<Rightarrow> bool" where
  "tickets_ok s \<longleftrightarrow> (\<forall>h t. map_of (s_tickets s) h = Some t \<longrightarrow> t_hash t \<noteq> [])"

text \<open>The question a computation hands on is the one the session holds under the request id of the ticket.\<close>

definition holds_question :: "session_state \<Rightarrow> ticket \<Rightarrow> question \<Rightarrow> bool" where
  "holds_question s t q \<longleftrightarrow> map_of (s_questions s) (q_request q) = Some q \<and> q_request q = request_id s (t_hash t)"

lemma request_id_not_Nil: "h \<noteq> [] \<Longrightarrow> request_id s h \<noteq> []"
  by (simp add: request_id_def Let_def)

lemma request_id_cong: "s_rounds s' = s_rounds s \<Longrightarrow> request_id s' h = request_id s h"
  by (simp add: request_id_def)

lemma question_ok_new:
  assumes "t_hash t \<noteq> []" "\<not> shortfall (caller_token ca) r"
  shows "question_ok E (new_question cf ca now t r s)"
  using assms request_id_not_Nil [of "t_hash t" s]
  by (simp add: question_ok_def new_question_def reachable_count_def counted_def unvoted_def shortfall_def)

lemma moves_note: "\<not> granting r \<Longrightarrow> (move cf E)\<^sup>*\<^sup>* s t \<Longrightarrow> (move cf E)\<^sup>*\<^sup>* s (log_row r t)"
  by (meson move.note_row rtranclp.rtrancl_into_rtrancl)

lemma open_question_moves:
  assumes ok: "session_ok cf E s" and t: "t_hash t \<noteq> []" and o': "open_question cf ca now t r s = (res, s')"
  shows "(move cf E)\<^sup>*\<^sup>* s s' \<and> s_tickets s' = s_tickets s \<and> s_rounds s' = s_rounds s \<and> (\<forall>q. res = Inr q \<longrightarrow> holds_question s' t q)"
proof (cases "map_of (s_questions s) (request_id s (t_hash t))")
  case (Some q)
  then show ?thesis using o' session_okD(2) [OF ok Some] by (auto simp: open_question_def holds_question_def)
next
  case None
  show ?thesis
  proof (cases "shortfall (caller_token ca) r")
    case True
    then show ?thesis using o' None by (auto simp: open_question_def)
  next
    case False
    let ?q = "new_question cf ca now t r s"
    have rid: "q_request ?q = request_id s (t_hash t)" by (simp add: new_question_def)
    have "move cf E s (put_question ?q s)"
      by (rule move.change) (use question_ok_new [OF t False] None rid in \<open>auto simp: new_question_def\<close>)
    then have "(move cf E)\<^sup>*\<^sup>* s (log_row (Opened_Row (q_request ?q)) (put_question ?q s))" by (intro moves_note) auto
    moreover have "s' = log_row (Opened_Row (q_request ?q)) (put_question ?q s)" "res = Inr ?q"
      using o' None False by (auto simp: open_question_def Let_def)
    ultimately show ?thesis using rid
      by (auto simp: holds_question_def log_row_def put_question_def request_id_def update_conv')
  qed
qed

lemma bind_cast_moves:
  assumes "bind_cast cf ca now q action ballot cred s = (res, s')"
  shows "(move cf E)\<^sup>*\<^sup>* s s' \<and> s_tickets s' = s_tickets s \<and> (\<forall>c. res = Inr c \<longrightarrow> s' = s
    \<and> resolve_cast (cf_crypto cf) cred (Some (cast_binding_of q action ballot cred)) (ca_bound ca) (ca_how ca) (cf_registry cf) (Some now) = Inr c)"
  using assms by (auto simp: bind_cast_def refuse_act_def log_row_def split: sum.splits intro!: moves_note [of "Refused_Row _ _ _ _ _", unfolded log_row_def])

lemma refuse_moves: "(move cf E)\<^sup>*\<^sup>* s (snd (refuse_act e q action reason voter s))" "s_tickets (snd (refuse_act e q action reason voter s)) = s_tickets s"
  by (auto simp: refuse_act_def log_row_def intro!: moves_note [of "Refused_Row _ _ _ _ _", unfolded log_row_def])

lemma question_ok_outcome:
  assumes "question_ok E q" "still_open q" "d \<in> {Expired, Escalated, Revoked}" "q' = q\<lparr>q_expired := x, q_outcome := Some d, q_resolved := y\<rparr>"
  shows "question_ok E q'"
  using assms by (auto simp: question_ok_def still_open_def reachable_count_def counted_def unvoted_def named_def)

lemma question_ok_expired: "question_ok E q \<Longrightarrow> question_ok E (q\<lparr>q_expired := x\<rparr>)"
  by (simp add: question_ok_def reachable_count_def counted_def unvoted_def named_def)

lemma lapse_moves:
  assumes q: "question_ok E q" "map_of (s_questions s) (q_request q) = Some q" "q_outcome q \<in> {None, Some Expired, Some Escalated}"
    and l: "lapse_question now q s = (lapsed, q', s')"
  shows "(move cf E)\<^sup>*\<^sup>* s s' \<and> s_tickets s' = s_tickets s \<and> (\<not> lapsed \<longrightarrow> q' = q \<and> s' = s \<and> still_open q)"
proof (cases "q_outcome q = Some Expired \<or> q_expired q \<noteq> None \<or> \<not> deadline_passed now q")
  case True
  then show ?thesis using l q(3) by (auto simp: lapse_question_def still_open_def split: if_splits)
next
  case False
  then have lapsed: lapsed using l by (auto simp: lapse_question_def Let_def split: if_splits)
  have o': "still_open q" using q(3) False by (auto simp: still_open_def)
  show ?thesis
  proof (cases "q_outcome q")
    case None
    let ?q = "q\<lparr>q_expired := Some now, q_outcome := Some Expired, q_resolved := Some now\<rparr>"
    have "question_ok E ?q" by (rule question_ok_outcome [OF q(1) o', of Expired _ "Some now" "Some now"]) simp_all
    then have "move cf E s (put_question ?q s)" by (rule move.change) (use q(2) o' in simp_all)
    then have "(move cf E)\<^sup>*\<^sup>* s (log_row (Expired_Row (q_request q) (counted q)) (put_question ?q s))" by (intro moves_note) auto
    then show ?thesis using l False None lapsed by (auto simp: lapse_question_def Let_def log_row_def put_question_def)
  next
    case (Some d)
    let ?q = "q\<lparr>q_expired := Some now\<rparr>"
    have "move cf E s (put_question ?q s)"
      by (rule move.change [OF question_ok_expired [OF q(1)]]) (use q(2) o' Some q(3) False in auto)
    then show ?thesis using l False Some lapsed by (auto simp: lapse_question_def Let_def put_question_def)
  qed
qed


text \<open>A counted vote: what it adds, and how it closes or leaves the question.\<close>

lemma dict_append: "dict_ok d \<Longrightarrow> k \<notin> fst ` set d \<Longrightarrow> AList.update k v d = d @ [(k, v)] \<and> dict_ok (d @ [(k, v)])"
  using dict_ok_update [of d k v] by (simp add: update_fresh)

lemma standing_refusal_None:
  assumes "standing_refusal q t c = None" "question_ok E q"
  shows "named q (cast_voter c) \<and> cast_voter c \<notin> fst ` set (q_votes q) \<and> cast_principal c \<notin> fst ` set (q_principals q)"
proof -
  have n: "named q (cast_voter c)" "cast_voter c \<notin> fst ` set (q_votes q)"
    using assms(1) by (auto simp: standing_refusal_def named_def split: if_splits)
  have "map_of (q_principals q) (cast_principal c) = None"
  proof (rule ccontr)
    assume "map_of (q_principals q) (cast_principal c) \<noteq> None"
    then obtain m where m: "map_of (q_principals q) (cast_principal c) = Some m" by blast
    then have "m = cast_voter c" using assms(1) by (auto simp: standing_refusal_def split: if_splits)
    moreover have "m \<in> snd ` set (q_principals q)" using map_of_SomeD [OF m] by force
    moreover have "snd ` set (q_principals q) = fst ` set (q_votes q)" using assms(2) unfolding question_ok_def by (metis set_map)
    ultimately show False using n by simp
  qed
  then show ?thesis using n by (simp add: map_of_eq_None_iff)
qed

definition with_vote :: "string \<Rightarrow> int \<Rightarrow> cast \<Rightarrow> question \<Rightarrow> question" where
  "with_vote ballot now c q = q\<lparr>q_votes := AList.update (cast_voter c) \<lparr>v_id = q_request q @ ''#v'' @ dec_int (int (length (q_votes q)) + 1),
      v_voter = cast_voter c, v_ballot = ballot, v_at = now, v_round = q_round q\<rparr> (q_votes q),
    q_principals := AList.update (cast_principal c) (cast_voter c) (q_principals q)\<rparr>"

lemma with_vote_ok:
  assumes q: "question_ok E q" "q_outcome q = None" and c: "standing_refusal q t c = None" "E (q_request q) (cast_voter c) (cast_principal c) ballot"
    and d: "q' = (with_vote ballot now c q)\<lparr>q_outcome := d, q_satisfied_by := by_whom, q_resolved := x\<rparr>"
    and shape: "d \<in> {None, Some Escalated} \<Longrightarrow> reachable_count q'" "d = Some Denied \<Longrightarrow> \<not> reachable_count q'"
      "by_whom = Some By_Votes \<Longrightarrow> counted q' \<ge> q_require q'" "by_whom \<noteq> None \<longleftrightarrow> d = Some Satisfied"
  shows "question_ok E q'"
proof -
  note n = standing_refusal_None [OF c(1) q(1)]
  have qs: "dict_ok (q_votes q)" "dict_ok (q_principals q)" "map snd (q_principals q) = map fst (q_votes q)" "q_request q \<noteq> []"
      "\<forall>(n, v) \<in> set (q_votes q). v_voter v = n \<and> named q n" "\<forall>((p, m), (n, v)) \<in> set (zip (q_principals q) (q_votes q)). E (q_request q) n p (v_ballot v)"
    using q(1) unfolding question_ok_def by - (elim conjE, assumption)+
  obtain v where v: "q_votes q' = q_votes q @ [(cast_voter c, v)]" "v_voter v = cast_voter c" "v_ballot v = ballot"
    using dict_append [OF qs(1)] n unfolding d with_vote_def by simp
  have p: "q_principals q' = q_principals q @ [(cast_principal c, cast_voter c)]"
    using dict_append [OF qs(2)] n unfolding d with_vote_def by simp
  have same: "q_request q' = q_request q" "q_outcome q' = d" "q_satisfied_by q' = by_whom" "named q' m = named q m" for m
    by (simp_all add: d with_vote_def named_def)
  have len: "length (q_principals q) = length (q_votes q)" using qs(3) by (metis length_map)
  show ?thesis
    unfolding question_ok_def same
  proof (intro conjI)
    show "dict_ok (q_votes q')" "dict_ok (q_principals q')" using dict_append [OF qs(1)] dict_append [OF qs(2)] n v p by simp_all
    show "map snd (q_principals q') = map fst (q_votes q')" using qs(3) v p by simp
    show "\<forall>(n, v) \<in> set (q_votes q'). v_voter v = n \<and> named q n" using qs(5) v n by simp
    show "\<forall>((p, m), (n, v)) \<in> set (zip (q_principals q') (q_votes q')). E (q_request q) n p (v_ballot v)"
      using qs(6) c(2) v p by (simp add: zip_append [OF len])
  qed (use qs(4) shape in auto)
qed


text \<open>The normal form of a closing: the question as it is put last, then the rows.\<close>

definition granted :: "question \<Rightarrow> graph_row list \<Rightarrow> ledger_entry \<Rightarrow> string \<Rightarrow> session_state \<Rightarrow> session_state" where
  "granted q rs e actor s = log_row (Granted_Row (q_request q) actor) ((put_question q s)\<lparr>s_rows := s_rows s @ rs, s_ledger := s_ledger s @ [e]\<rparr>)"

lemma decide_satisfied_granted:
  assumes "request_id s (t_hash t) = q_request q" "s' = s\<lparr>s_questions := AList.update (q_request q) p (s_questions s), s_rows := s_rows s @ rs\<rparr>"
  shows "\<exists>e actor r. \<not> granting r \<and> (le_request e = q_request q \<and> \<not> le_consumed e) \<and>
     decide_satisfied cf ca now how t q s' = granted (q\<lparr>q_outcome := Some Satisfied, q_satisfied_by := Some how, q_resolved := Some now\<rparr>) (rs @ [r]) e actor s"
proof -
  let ?q = "q\<lparr>q_outcome := Some Satisfied, q_satisfied_by := Some how, q_resolved := Some now\<rparr>"
  let ?e = "\<lparr>le_request = q_request q, le_round = dict_get (s_rounds s) (t_hash t) 1, le_hash = t_hash t, le_candidate = t_candidate t,
               le_component = t_component t, le_args = t_args t, le_granted = now, le_expires = map_option (\<lambda>d. now + d) (ticket_ttl cf t),
               le_expired = None, le_consumed = False\<rparr>"
  let ?r = "Satisfied_Row (q_request q) how (counted q) (approving q) (closing_actor q ca)"
  have id: "request_id (s\<lparr>s_questions := x, s_rows := y\<rparr>) h = request_id s h" for x y h by (simp add: request_id_def)
  have "decide_satisfied cf ca now how t q s' = granted ?q (rs @ [?r]) ?e (closing_actor q ca) s"
    using assms(1) unfolding assms(2)
    by (simp add: decide_satisfied_def granted_def mint_entry_def Let_def put_question_def log_row_def id)
  then show ?thesis by (intro exI [of _ ?e] exI [of _ "closing_actor q ca"] exI [of _ ?r]) simp
qed

lemma granted_moves:
  assumes "question_ok E q" "q_outcome q = Some Satisfied" "map_of (s_questions s) (q_request q) = Some p" "still_open p"
    "list_all (\<lambda>r. \<not> granting r) rs" "le_request e = q_request q \<and> \<not> le_consumed e"
  shows "(move cf E)\<^sup>*\<^sup>* s (granted q rs e actor s)"
  unfolding granted_def by (rule r_into_rtranclp, rule move.satisfy) (use assms in auto)

lemma granted_tickets [simp]: "s_tickets (granted q rs e actor s) = s_tickets s"
  by (simp add: granted_def log_row_def put_question_def)

lemma count_vote_moves:
  assumes ok: "question_ok E q" "q_outcome q = None" and q: "holds_question s t q"
    and c: "standing_refusal q t c = None" "E (q_request q) (cast_voter c) (cast_principal c) ballot"
  shows "(move cf E)\<^sup>*\<^sup>* s (count_vote cf ca now t ballot c q s) \<and> s_tickets (count_vote cf ca now t ballot c q s) = s_tickets s"
proof -
  let ?q = "with_vote ballot now c q"
  have sat: "q_satisfied_by q = None" using ok by (simp add: question_ok_def)
  obtain v where cv: "count_vote cf ca now t ballot c q s =
      (let s' = log_row (Vote_Row (q_request q) v (cast_principal c) (cast_how c) (counted ?q)) (put_question ?q s)
       in if ballot = ''approve'' \<and> counted ?q \<ge> q_require ?q then decide_satisfied cf ca now By_Votes t ?q s' else decide_denied now ?q s')"
    unfolding count_vote_def with_vote_def Let_def by blast
  let ?row = "Vote_Row (q_request q) v (cast_principal c) (cast_how c) (counted ?q)"
  have rid: "q_request ?q = q_request q" "q_outcome ?q = None" "q_satisfied_by ?q = None" using ok sat by (simp_all add: with_vote_def)
  have held: "map_of (s_questions s) (q_request q) = Some q" "request_id s (t_hash t) = q_request q" using q by (auto simp: holds_question_def)
  have o': "still_open q" using ok by (simp add: still_open_def)
  have s': "log_row ?row (put_question ?q s) = s\<lparr>s_questions := AList.update (q_request q) ?q (s_questions s), s_rows := s_rows s @ [?row]\<rparr>"
    by (simp add: log_row_def put_question_def rid)
  show ?thesis
  proof (cases "ballot = ''approve'' \<and> counted ?q \<ge> q_require ?q")
    case True
    obtain e actor r where g: "\<not> granting r" "le_request e = q_request ?q \<and> \<not> le_consumed e"
        "decide_satisfied cf ca now By_Votes t ?q (log_row ?row (put_question ?q s)) = granted (?q\<lparr>q_outcome := Some Satisfied, q_satisfied_by := Some By_Votes, q_resolved := Some now\<rparr>) ([?row] @ [r]) e actor s"
      using decide_satisfied_granted [where s = s and t = t and q = ?q and s' = "log_row ?row (put_question ?q s)" and p = ?q and rs = "[?row]"
          and cf = cf and ca = ca and now = now and how = By_Votes] held s' rid by auto
    have "question_ok E (?q\<lparr>q_outcome := Some Satisfied, q_satisfied_by := Some By_Votes, q_resolved := Some now\<rparr>)"
      by (rule with_vote_ok [OF ok c refl]) (use True in \<open>auto simp: counted_def\<close>)
    then have "(move cf E)\<^sup>*\<^sup>* s (granted (?q\<lparr>q_outcome := Some Satisfied, q_satisfied_by := Some By_Votes, q_resolved := Some now\<rparr>) ([?row] @ [r]) e actor s)"
      by (rule granted_moves [where p = q]) (use held o' g rid in auto)
    then show ?thesis unfolding cv Let_def if_P [OF True] g(3) by simp
  next
    case False
    then have cv: "count_vote cf ca now t ballot c q s = decide_denied now ?q (log_row ?row (put_question ?q s))" unfolding cv Let_def by (rule if_not_P)
    show ?thesis
    proof (cases "reachable_count ?q")
      case True
      have "?q = ?q\<lparr>q_outcome := None, q_satisfied_by := None, q_resolved := q_resolved ?q\<rparr>" using rid by simp
      then have "question_ok E ?q" by (rule with_vote_ok [OF ok c]) (use True in auto)
      then have "move cf E s (put_question ?q s)" by (rule move.change) (use held o' rid in auto)
      then have "(move cf E)\<^sup>*\<^sup>* s (log_row ?row (put_question ?q s))" by (intro moves_note) auto
      then show ?thesis using True unfolding cv by (simp add: decide_denied_def reachable_count_def log_row_def put_question_def)
    next
      case False
      let ?d = "?q\<lparr>q_outcome := Some Denied, q_satisfied_by := None, q_resolved := Some now\<rparr>"
      have d: "?q\<lparr>q_outcome := Some Denied, q_resolved := Some now\<rparr> = ?d" using rid by simp
      have "question_ok E ?d" by (rule with_vote_ok [OF ok c refl]) (use False in \<open>auto simp: reachable_count_def counted_def unvoted_def\<close>)
      then have "move cf E s (put_question ?d s)" by (rule move.change) (use held o' rid in auto)
      then have "(move cf E)\<^sup>*\<^sup>* s (log_row x (log_row ?row (put_question ?d s)))" if "\<not> granting x" for x using that by (intro moves_note) auto
      moreover have "put_question ?d (log_row ?row (put_question ?q s)) = log_row ?row (put_question ?d s)"
        using rid by (simp add: log_row_def put_question_def)
      moreover have "decide_denied now ?q (log_row ?row (put_question ?q s)) =
          log_row (Denied_Row (q_request ?q) (if sort (map fst (filter (\<lambda>(n, v). v_ballot v = ''deny'') (q_votes ?q))) \<noteq> [] then ''denied'' else ''unreachable'')
            (counted ?q) (sort (map fst (filter (\<lambda>(n, v). v_ballot v = ''deny'') (q_votes ?q))))) (put_question ?d (log_row ?row (put_question ?q s)))"
        using False unfolding decide_denied_def reachable_count_def d Let_def by auto
      ultimately show ?thesis unfolding cv by (simp add: log_row_def put_question_def)
    qed
  qed
qed


text \<open>One act of the session, up to the book of tickets.\<close>

definition acts :: "config \<Rightarrow> evidence \<Rightarrow> session_state \<Rightarrow> session_state \<Rightarrow> bool" where
  "acts cf E s s' \<longleftrightarrow> (move cf E)\<^sup>*\<^sup>* s s' \<and> s_tickets s' = s_tickets s"

lemma acts_refl [simp]: "acts cf E s s"
  by (simp add: acts_def)

lemma acts_trans: "acts cf E s t \<Longrightarrow> acts cf E t u \<Longrightarrow> acts cf E s u"
  by (auto simp: acts_def)

lemma acts_refuse [simp]: "acts cf E s (snd (refuse_act e q action reason voter s))"
  using refuse_moves by (auto simp: acts_def)

lemma acts_move: "move cf E s t \<Longrightarrow> s_tickets t = s_tickets s \<Longrightarrow> acts cf E s t"
  by (simp add: acts_def r_into_rtranclp)

lemma acts_log: "\<not> granting r \<Longrightarrow> acts cf E s t \<Longrightarrow> acts cf E s (log_row r t)"
  using moves_note by (auto simp: acts_def log_row_def)

lemma acts_ok: "acts cf E s t \<Longrightarrow> session_ok cf E s \<Longrightarrow> session_ok cf E t"
  using moves_ok by (auto simp: acts_def)

lemma act_bind_acts:
  assumes "acts cf E s (snd m)" "\<And>x. fst m = Inr x \<Longrightarrow> acts cf E (snd m) (snd (f x (snd m)))"
  shows "acts cf E s (snd (act_bind m f))"
proof (cases m)
  case (Pair res s')
  then show ?thesis using assms by (cases res) (auto intro: acts_trans)
qed

text \<open>What a bound cast hands on, over the question of the ticket.\<close>

definition bound_cast :: "config \<Rightarrow> caller \<Rightarrow> int \<Rightarrow> question \<Rightarrow> string \<Rightarrow> string option \<Rightarrow> credentials \<Rightarrow> cast \<Rightarrow> bool" where
  "bound_cast cf ca now q action ballot cred c \<longleftrightarrow>
     resolve_cast (cf_crypto cf) cred (Some (cast_binding_of q action ballot cred)) (ca_bound ca) (ca_how ca) (cf_registry cf) (Some now) = Inr c"

lemma bind_cast_acts:
  assumes "\<And>c. bound_cast cf ca now q action ballot cred c \<Longrightarrow> acts cf E s (snd (f c s))"
  shows "acts cf E s (snd (act_bind (bind_cast cf ca now q action ballot cred s) f))"
proof -
  obtain res s' where b: "bind_cast cf ca now q action ballot cred s = (res, s')" by fastforce
  note m = bind_cast_moves [OF b, of E]
  show ?thesis unfolding b by (rule act_bind_acts) (use m assms in \<open>auto simp: acts_def bound_cast_def\<close>)
qed

lemma open_question_acts:
  assumes ok: "session_ok cf E s" and t: "t_hash t \<noteq> []"
    and f: "\<And>q s'. session_ok cf E s' \<Longrightarrow> holds_question s' t q \<Longrightarrow> question_ok E q \<Longrightarrow> acts cf E s' (snd (f q s'))"
  shows "acts cf E s (snd (act_bind (open_question cf ca now t r s) f))"
proof -
  obtain res s' where b: "open_question cf ca now t r s = (res, s')" by fastforce
  note m = open_question_moves [OF ok t b]
  have ok': "session_ok cf E s'" using moves_ok [of cf E s s'] m ok by blast
  have "acts cf E s' (snd (f q s'))" if "res = Inr q" for q
  proof (rule f [OF ok'])
    show h: "holds_question s' t q" using m that by blast
    show "question_ok E q" using session_okD(2) [OF ok'] h unfolding holds_question_def by blast
  qed
  then show ?thesis unfolding b by (intro act_bind_acts) (use m in \<open>auto simp: acts_def\<close>)
qed

lemma cast_vote_acts:
  assumes ok: "session_ok cf E s" and t: "t_hash t \<noteq> []"
    and E: "\<And>q c. bound_cast cf ca now q ''vote'' (Some ballot) cred c \<Longrightarrow> E (q_request q) (cast_voter c) (cast_principal c) ballot"
  shows "acts cf E s (snd (cast_vote cf ca now t r ballot cred s))"
  unfolding cast_vote_def
proof (rule open_question_acts [OF ok t], rule bind_cast_acts)
  fix q s' c
  assume ok': "session_ok cf E s'" and h: "holds_question s' t q" and q: "question_ok E q" and c: "bound_cast cf ca now q ''vote'' (Some ballot) cred c"
  show "acts cf E s' (snd (if ballot \<noteq> ''approve'' \<and> ballot \<noteq> ''deny'' then refuse_act (Refused ''malformed-vote'') q ''vote'' ''malformed-vote'' (cast_voter c) s'
       else case q_outcome q of
         Some d \<Rightarrow>
           (if d \<noteq> Expired then refuse_act (Refused (decision_name d)) q ''vote'' (decision_name d) (cast_voter c) s'
            else refuse_act (Refused ''expired'') q ''vote'' ''expired'' (cast_voter c) s')
       | None \<Rightarrow> (case lapse_question now q s' of (lapsed, q, s) \<Rightarrow>
           if lapsed then refuse_act (Refused ''expired'') q ''vote'' ''expired'' (cast_voter c) s
           else case standing_refusal q t c of
             Some reason \<Rightarrow> refuse_act (Refused reason) q ''vote'' reason (cast_voter c) s
           | None \<Rightarrow> (Inr (), count_vote cf ca now t ballot c q s))))" (is "acts cf E s' (snd (if ?bad then ?refused else ?rest))")
  proof (cases "?bad \<or> q_outcome q \<noteq> None")
    case True
    then show ?thesis by (cases "?bad"; cases "q_outcome q") simp_all
  next
    case False
    obtain lapsed q' s'' where l: "lapse_question now q s' = (lapsed, q', s'')" by (metis prod.exhaust)
    have held: "map_of (s_questions s') (q_request q) = Some q" using h unfolding holds_question_def by (rule conjunct1)
    note m = lapse_moves [OF q held _ l]
    have "acts cf E s' (snd (refuse_act e p action reason voter s''))" for e :: quorum_error and p action reason voter
      by (rule acts_trans [OF _ acts_refuse]) (use m False in \<open>auto simp: acts_def\<close>)
    moreover have "acts cf E s' (count_vote cf ca now t ballot c q s')" if "standing_refusal q t c = None"
      using count_vote_moves [OF q _ h that E [OF c]] False by (auto simp: acts_def)
    ultimately show ?thesis using False l m by (cases "standing_refusal q' t c") auto
  qed
qed


text \<open>The acts only a quorum has, after the question is found and the cast bound.\<close>

lemma quorum_question_acts:
  assumes ok: "session_ok cf E s" and t: "tickets_ok s"
    and f: "\<And>t q s'. session_ok cf E s' \<Longrightarrow> holds_question s' t q \<Longrightarrow> question_ok E q \<Longrightarrow> acts cf E s' (snd (f (t, q) s'))"
  shows "acts cf E s (snd (act_bind (quorum_question cf ca now h s) f))"
proof (cases "\<exists>t r. map_of (s_tickets s) h = Some t \<and> approval_shape cf t = Inr (Some r) \<and> is_quorum r")
  case False
  then have "\<exists>e. quorum_question cf ca now h s = (Inl e, s)" by (auto simp: quorum_question_def split: option.splits sum.splits)
  then show ?thesis by auto
next
  case True
  then obtain t r where t': "map_of (s_tickets s) h = Some t" "approval_shape cf t = Inr (Some r)" "is_quorum r" by blast
  have "act_bind (quorum_question cf ca now h s) f = act_bind (open_question cf ca now t r s) (\<lambda>q s. f (t, q) s)"
    using t' by (cases "open_question cf ca now t r s"; cases "fst (open_question cf ca now t r s)") (auto simp: quorum_question_def)
  then show ?thesis using open_question_acts [OF ok, of t "\<lambda>q s. f (t, q) s" ca now r] t t'(1) f unfolding tickets_ok_def by auto
qed

lemma put_outcome_move:
  assumes "question_ok E q" "holds_question s t q" "still_open q" "d \<in> {Escalated, Revoked}"
  shows "acts cf E s (put_question (q\<lparr>q_outcome := Some d, q_resolved := Some now\<rparr>) s)"
proof (rule acts_move, rule move.change)
  show "question_ok E (q\<lparr>q_outcome := Some d, q_resolved := Some now\<rparr>)"
    by (rule question_ok_outcome [OF assms(1,3), of d _ "Some now" "q_expired q"]) (use assms(4) in auto)
qed (use assms in \<open>auto simp: holds_question_def put_question_def\<close>)

lemma escalate_acts:
  assumes ok: "session_ok cf E s" and t: "tickets_ok s"
  shows "acts cf E s (snd (escalate_ticket cf ca now h reason cred s))"
  unfolding escalate_ticket_def
proof (rule quorum_question_acts [OF ok t], unfold prod.case, rule bind_cast_acts)
  fix t q s' c
  assume ok': "session_ok cf E s'" and h: "holds_question s' t q" and q: "question_ok E q"
  let ?go = "case lapse_question now q s' of (lapsed, q, s) \<Rightarrow>
         if lapsed then (Inl Lapsed, s)
         else (Inr (), log_row (Escalated_Row (q_request q) (cast_voter c) (py_strip reason))
                 (put_question (q\<lparr>q_outcome := Some Escalated, q_resolved := Some now\<rparr>) s))"
  have "acts cf E s' (snd ?go)" if o': "q_outcome q \<in> {None, Some Expired}"
  proof -
    obtain lapsed q' s'' where l: "lapse_question now q s' = (lapsed, q', s'')" by (metis prod.exhaust)
    have held: "map_of (s_questions s') (q_request q) = Some q" using h unfolding holds_question_def by (rule conjunct1)
    note m = lapse_moves [OF q held _ l]
    show ?thesis
    proof (cases lapsed)
      case True
      then show ?thesis using m o' l by (auto simp: acts_def)
    next
      case False
      then have "q' = q" "s'' = s'" "still_open q" using m o' by auto
      then show ?thesis using False l put_outcome_move [OF q h] by (auto intro!: acts_log)
    qed
  qed
  then show "acts cf E s' (snd (if \<not> may_close q (cast_voter c) then refuse_act Not_A_Member q ''escalate'' ''unknown-approver'' (cast_voter c) s'
       else if q_outcome q \<notin> {None, Some Expired} then (Inl (Already_Closed (the (q_outcome q))), s') else ?go))"
    by (cases "may_close q (cast_voter c)"; cases "q_outcome q \<in> {None, Some Expired}") simp_all
qed

lemma revoke_acts:
  assumes ok: "session_ok cf E s" and t: "tickets_ok s"
  shows "acts cf E s (snd (revoke_ticket cf ca now h reason cred s))"
  unfolding revoke_ticket_def
proof (rule quorum_question_acts [OF ok t], unfold prod.case, rule bind_cast_acts)
  fix t q s' c
  assume ok': "session_ok cf E s'" and h: "holds_question s' t q" and q: "question_ok E q"
  let ?done = "log_row (Revoked_Row (q_request q) (cast_voter c) (py_strip reason) (sort (map fst (filter (\<lambda>(n, v). v_voter v = cast_voter c) (q_votes q)))))
                 (put_question (q\<lparr>q_outcome := Some Revoked, q_resolved := Some now\<rparr>) s')"
  have "acts cf E s' ?done" if "q_outcome q = None"
    by (rule acts_log, simp) (rule put_outcome_move [OF q h], use that in \<open>simp_all add: still_open_def\<close>)
  then show "acts cf E s' (snd (if \<not> may_close q (cast_voter c) then refuse_act Not_A_Member q ''revoke'' ''unknown-approver'' (cast_voter c) s'
       else case q_outcome q of Some d \<Rightarrow> (Inl (Already_Closed d), s') | None \<Rightarrow> (Inr (), ?done)))"
    by (cases "may_close q (cast_voter c)"; cases "q_outcome q") simp_all
qed

lemma override_acts:
  assumes ok: "session_ok cf E s" and t: "tickets_ok s"
  shows "acts cf E s (snd (override_ticket cf ca now h reason cred s))"
  unfolding override_ticket_def
proof (rule quorum_question_acts [OF ok t], unfold prod.case, rule bind_cast_acts)
  fix t q s' c
  assume ok': "session_ok cf E s'" and h: "holds_question s' t q" and q: "question_ok E q"
  let ?over = "\<lambda>q. \<lparr>ov_by = cast_voter c, ov_reason = py_strip reason, ov_at = now, ov_self = (cast_voter c = q_proposer q)\<rparr>"
  let ?go = "case lapse_question now q s' of (lapsed, q, s) \<Rightarrow>
         if lapsed then (Inl Lapsed, s)
         else let ov = ?over q; q' = q\<lparr>q_override := Some ov, q_outcome := None\<rparr>
              in (Inr (), decide_satisfied cf ca now By_Override t q' (log_row (Override_Row (q_request q) ov (counted q)) (put_question q' s)))"
  have held: "map_of (s_questions s') (q_request q) = Some q" "request_id s' (t_hash t) = q_request q" using h by (auto simp: holds_question_def)
  have "acts cf E s' (snd ?go)" if o': "q_outcome q \<in> {None, Some Expired, Some Escalated}"
  proof -
    obtain lapsed q' s'' where l: "lapse_question now q s' = (lapsed, q', s'')" by (metis prod.exhaust)
    note m = lapse_moves [OF q held(1) o' l]
    show ?thesis
    proof (cases lapsed)
      case True
      then show ?thesis using m l by (auto simp: acts_def)
    next
      case False
      then have m: "q' = q" "s'' = s'" "still_open q" using m by auto
      let ?q = "q\<lparr>q_override := Some (?over q), q_outcome := None\<rparr>" and ?row = "Override_Row (q_request q) (?over q) (counted q)"
      let ?d = "?q\<lparr>q_outcome := Some Satisfied, q_satisfied_by := Some By_Override, q_resolved := Some now\<rparr>"
      obtain e actor r where g: "\<not> granting r" "le_request e = q_request ?q \<and> \<not> le_consumed e"
          "decide_satisfied cf ca now By_Override t ?q (log_row ?row (put_question ?q s')) = granted ?d ([?row] @ [r]) e actor s'"
        using decide_satisfied_granted [where s = s' and t = t and q = ?q and s' = "log_row ?row (put_question ?q s')" and p = ?q and rs = "[?row]"
            and cf = cf and ca = ca and now = now and how = By_Override] held by (auto simp: log_row_def put_question_def)
      have "question_ok E ?d" using q m(3) by (simp add: question_ok_def still_open_def counted_def named_def)
      then have "(move cf E)\<^sup>*\<^sup>* s' (granted ?d ([?row] @ [r]) e actor s')" by (rule granted_moves [where p = q]) (use held m g in auto)
      then show ?thesis using False g(3) unfolding l prod.case m Let_def by (simp add: acts_def)
    qed
  qed
  then show "acts cf E s' (snd (if py_strip reason = [] then refuse_act No_Reason q ''override'' ''no-reason'' (cast_voter c) s'
       else if q_outcome q \<notin> {None, Some Expired, Some Escalated} then (Inl (Already_Closed (the (q_outcome q))), s') else ?go))"
    by (cases "py_strip reason = []"; cases "q_outcome q \<in> {None, Some Expired, Some Escalated}") simp_all
qed



subsection \<open>The life of a session\<close>

lemma frozen_latch [simp]: "frozen (latch_entry now h e) = frozen e"
  by (simp add: latch_entry_def frozen_def)

lemma frozen_latches: "map frozen (latch_entries now h es) = map frozen es"
proof -
  have "map frozen (latch_entries now h es) = map frozen (takeWhile (\<lambda>e. \<not> spendable now h e) es @ dropWhile (\<lambda>e. \<not> spendable now h e) es)"
    by (simp only: latch_entries_def map_append map_map comp_def frozen_latch)
  then show ?thesis by (simp only: takeWhile_dropWhile_id)
qed

lemma latches_consumed: "map le_request (filter le_consumed (latch_entries now h es)) = map le_request (filter le_consumed es)"
proof -
  have flag: "le_consumed (latch_entry now h e) = le_consumed e" "le_request (latch_entry now h e) = le_request e" for e by (simp_all add: latch_entry_def)
  have "map le_request (filter le_consumed (map (latch_entry now h) xs)) = map le_request (filter le_consumed xs)" for xs
    by (induction xs) (simp_all add: flag)
  then have "map le_request (filter le_consumed (latch_entries now h es))
      = map le_request (filter le_consumed (takeWhile (\<lambda>e. \<not> spendable now h e) es @ dropWhile (\<lambda>e. \<not> spendable now h e) es))"
    by (simp only: latch_entries_def filter_append map_append)
  then show ?thesis by (simp only: takeWhile_dropWhile_id)
qed

lemma consume_frozen: "consume_first P es = Some (e, es') \<Longrightarrow> map frozen es' = map frozen es \<and> e \<in> set es'"
  by (induction es arbitrary: es') (auto simp: frozen_def split: if_splits)

definition steady :: "config \<Rightarrow> evidence \<Rightarrow> session_state \<Rightarrow> session_state \<Rightarrow> bool" where
  "steady cf E s0 s \<longleftrightarrow> session_ok cf E s \<and> tickets_ok s \<and> extends s0 s"

lemma acts_spent: "acts cf E s s' \<Longrightarrow> spent s' = spent s"
proof -
  have "(move cf E)\<^sup>*\<^sup>* s s' \<Longrightarrow> spent s' = spent s" by (induction rule: rtranclp_induct) (auto dest: move_spent)
  then show "acts cf E s s' \<Longrightarrow> spent s' = spent s" by (simp add: acts_def)
qed

lemma acts_steady: "steady cf E s0 s \<Longrightarrow> acts cf E s s' \<Longrightarrow> steady cf E s0 s'"
  using moves_ok [of cf E s s'] extends_trans [of s0 s s'] by (auto simp: steady_def acts_def tickets_ok_def)

text \<open>Steps that touch only the books: the clock, the tickets, the rounds and the flags of the ledger.\<close>

lemma books_steady:
  assumes "steady cf E s0 s" "tickets_ok s'" "s_questions s' = s_questions s" "map frozen (s_ledger s') = map frozen (s_ledger s)" "s_rows s' = s_rows s" "s_receipts s' = s_receipts s"
    "spent s' = spent s"
  shows "steady cf E s0 s'"
proof -
  have "move cf E s s'" by (rule move.books) (use assms in simp_all)
  then show ?thesis using assms(1,2) move_ok [of cf E s s'] move_extends [of cf E s s'] extends_trans [of s0 s s'] by (auto simp: steady_def)
qed

lemma issue_steady:
  assumes s: "steady cf E s0 s" and t: "t_hash t \<noteq> []"
  shows "steady cf E s0 (snd (issue_ticket cf ca now t s)) \<and> spent (snd (issue_ticket cf ca now t s)) = spent s"
proof (cases "\<exists>shape. approval_shape cf t = Inr shape \<and> \<not> (case shape of None \<Rightarrow> False | Some r \<Rightarrow> shortfall (caller_token ca) r)")
  case False
  then have "\<exists>e. issue_ticket cf ca now t s = (Inl e, s)" by (auto simp: issue_ticket_def split: option.splits sum.splits)
  then show ?thesis using s by auto
next
  case True
  then obtain shape where shape: "approval_shape cf t = Inr shape" "\<not> (case shape of None \<Rightarrow> False | Some r \<Rightarrow> shortfall (caller_token ca) r)" by blast
  define s1 where "s1 = s\<lparr>s_tickets := AList.update (t_hash t) t (s_tickets s)\<rparr>"
  define s2 where "s2 = s1\<lparr>s_ledger := latch_entries now (t_hash t) (s_ledger s1)\<rparr>"
  define s3 where "s3 = (if \<not> list_ex (spendable now (t_hash t)) (s_ledger s1) \<and> \<not> quorum_pending s2 (t_hash t)
      then s2\<lparr>s_rounds := AList.update (t_hash t) (dict_get (s_rounds s2) (t_hash t) 0 + 1) (s_rounds s2)\<rparr> else s2)"
  have out: "snd (issue_ticket cf ca now t s) = (case shape of None \<Rightarrow> s3
      | Some r \<Rightarrow> snd (act_bind (open_question cf ca now t r s3) (\<lambda>q s. (Inr (), s))))"
    using shape unfolding issue_ticket_def Let_def shape(1) sum.case if_not_P [OF shape(2)] s3_def s2_def s1_def by (cases shape) simp_all
  have sp: "spent s3 = spent s" unfolding spent_def s3_def s2_def s1_def by (simp add: latches_consumed)
  have s3: "steady cf E s0 s3"
  proof (rule books_steady [OF s])
    show "tickets_ok s3" using s t by (auto simp: steady_def tickets_ok_def s3_def s2_def s1_def update_conv')
    show "map frozen (s_ledger s3) = map frozen (s_ledger s)" unfolding s3_def s2_def s1_def by (simp add: frozen_latches)
    show "spent s3 = spent s" by (rule sp)
  qed (simp_all add: s3_def s2_def s1_def)
  show ?thesis
  proof (cases shape)
    case None
    then show ?thesis using s3 sp out by simp
  next
    case (Some r)
    have "acts cf E s3 (snd (act_bind (open_question cf ca now t r s3) (\<lambda>q s. (Inr (), s))))"
      by (rule open_question_acts) (use s3 t in \<open>simp_all add: steady_def\<close>)
    then show ?thesis using Some out acts_steady [OF s3] acts_spent sp by simp
  qed
qed

lemma spend_steady:
  assumes "steady cf E s0 s"
  shows "steady cf E s0 (snd (spend_approval cf now t s))"
proof (cases "consume_first (standing_entry now t) (s_ledger s)")
  case None
  then show ?thesis using assms by (simp add: spend_approval_def)
next
  case (Some p)
  then obtain e es where e: "consume_first (standing_entry now t) (s_ledger s) = Some (e, es)" by (cases p) auto
  note f = consume_frozen [OF e]
  let ?s = "mint_receipt cf now e (s\<lparr>s_ledger := es\<rparr>)"
  have "session_ok cf E ?s" "extends s0 ?s" "s_tickets ?s = s_tickets s"
    using move_spend_ok [of cf E s es e now] extends_trans [OF _ spend_extends, of s0 s es cf now e] f assms
    by (auto simp: steady_def mint_receipt_def split: option.splits)
  then show ?thesis using assms e by (simp add: steady_def tickets_ok_def spend_approval_def)
qed

text \<open>What an act of a session says about a vote: a voting act for the question, with credentials that prove the
  name and the principal at a clock not before the reading.\<close>

definition speaks :: "config \<Rightarrow> caller \<times> int \<times> act \<Rightarrow> evidence" where
  "speaks cf x rid n p ballot \<longleftrightarrow> (\<exists>h cred b now. snd (snd x) = Vote_Act h ballot cred \<and> cb_request b = rid \<and> cb_action b = ''vote'' \<and> cb_vote b = Some ballot
     \<and> fst (snd x) \<le> now \<and> proves (cf_crypto cf) cred (Some b) (ca_bound (fst x)) (cf_registry cf) (Some now) n p)"

definition hashed :: "caller \<times> int \<times> act \<Rightarrow> bool" where
  "hashed x = (case snd (snd x) of Ask t \<Rightarrow> t_hash t \<noteq> [] | _ \<Rightarrow> True)"

definition spoken :: "config \<Rightarrow> (caller \<times> int \<times> act) list \<Rightarrow> evidence" where
  "spoken cf xs rid n p ballot \<longleftrightarrow> list_ex (\<lambda>x. speaks cf x rid n p ballot) xs"

definition permitted :: "config \<Rightarrow> evidence \<Rightarrow> caller \<times> int \<times> act \<Rightarrow> bool" where
  "permitted cf E x \<longleftrightarrow> hashed x \<and> speaks cf x \<le> E"

lemma bound_cast_speaks:
  assumes "bound_cast cf ca now q ''vote'' (Some ballot) cred c" "reading \<le> now"
  shows "speaks cf (ca, reading, Vote_Act h ballot cred) (q_request q) (cast_voter c) (cast_principal c) ballot"
proof -
  have "\<exists>how. resolve_cast (cf_crypto cf) cred (Some (cast_binding_of q ''vote'' (Some ballot) cred)) (ca_bound ca) (ca_how ca) (cf_registry cf) (Some now)
      = Inr (Cast (cast_voter c) (cast_principal c) how)"
    using assms(1) by (cases c) (auto simp: bound_cast_def)
  then have "proves (cf_crypto cf) cred (Some (cast_binding_of q ''vote'' (Some ballot) cred)) (ca_bound ca) (cf_registry cf) (Some now) (cast_voter c) (cast_principal c)"
    by (rule resolve_cast_proves)
  then show ?thesis using assms(2) unfolding speaks_def
    by (intro exI [of _ h] exI [of _ cred] exI [of _ "cast_binding_of q ''vote'' (Some ballot) cred"] exI [of _ now]) (simp add: cast_binding_of_def)
qed

lemma perform_steady:
  assumes x: "permitted cf E (ca, reading, a)" "reading \<le> now" and s: "steady cf E s0 s"
  shows "steady cf E s0 (perform cf ca now a s) \<and> ((\<forall>t. a \<noteq> Spend_Act t) \<longrightarrow> spent (perform cf ca now a s) = spent s)"
proof (cases a)
  case (Ask t)
  then show ?thesis using x issue_steady [OF s] by (simp add: permitted_def hashed_def)
next
  case (Vote_Act h ballot cred)
  have E: "E (q_request q) (cast_voter c) (cast_principal c) ballot" if "bound_cast cf ca now q ''vote'' (Some ballot) cred c" for q c
    using bound_cast_speaks [OF that x(2), of h] x(1) Vote_Act by (auto simp: permitted_def le_fun_def)
  have "acts cf E s (snd (vote_ticket cf ca now h ballot cred s))"
  proof (cases "\<exists>t r. map_of (s_tickets s) h = Some t \<and> approval_shape cf t = Inr (Some r)")
    case False
    then have "\<exists>e. vote_ticket cf ca now h ballot cred s = (Inl e, s)" by (auto simp: vote_ticket_def split: option.splits sum.splits)
    then show ?thesis by auto
  next
    case True
    then obtain t r where t: "map_of (s_tickets s) h = Some t" "approval_shape cf t = Inr (Some r)" by blast
    have "acts cf E s (snd (cast_vote cf ca now t r ballot cred s))"
      by (rule cast_vote_acts) (use s t E in \<open>auto simp: steady_def tickets_ok_def\<close>)
    then show ?thesis using t by (simp add: vote_ticket_def)
  qed
  then show ?thesis using acts_steady [OF s] acts_spent Vote_Act by simp
next
  case (Spend_Act t)
  then show ?thesis using spend_steady [OF s] by simp
next
  case (Override_Act h reason cred)
  then show ?thesis using acts_steady [OF s override_acts] acts_spent [OF override_acts, of cf E s] s by (simp add: steady_def)
next
  case (Escalate_Act h reason cred)
  then show ?thesis using acts_steady [OF s escalate_acts] acts_spent [OF escalate_acts, of cf E s] s by (simp add: steady_def)
next
  case (Revoke_Act h reason cred)
  then show ?thesis using acts_steady [OF s revoke_acts] acts_spent [OF revoke_acts, of cf E s] s by (simp add: steady_def)
qed

lemma quorum_step_steady:
  assumes "permitted cf E x" "steady cf E s0 s"
  shows "steady cf E s0 (quorum_step cf x s)"
proof -
  obtain ca reading a where x: "x = (ca, reading, a)" by (cases x) auto
  obtain now s' where c: "read_clock reading s = (now, s')" by fastforce
  have "reading \<le> now" "steady cf E s0 s'"
    using c books_steady [OF assms(2), of s'] assms(2) by (auto simp: read_clock_def steady_def tickets_ok_def spent_def split: if_splits)
  then show ?thesis using perform_steady [of cf E ca reading a now s0 s'] assms(1) x c by (simp add: quorum_step_def)
qed

interpretation life: guarded_system "quorum_step cf" "permitted cf E" "steady cf E s0" for cf E s0
  by unfold_locales (rule quorum_step_steady)

lemma fresh_ok: "session_ok cf E fresh_session" "tickets_ok fresh_session"
  by (simp_all add: session_ok_def fresh_session_def tickets_ok_def)

definition live :: "config \<Rightarrow> (caller \<times> int \<times> act) list \<Rightarrow> session_state" where
  "live cf xs = fold (quorum_step cf) xs fresh_session"

lemma hashed_permitted: "list_all hashed xs \<Longrightarrow> list_all (permitted cf (spoken cf xs)) xs"
  by (auto simp: list_all_iff permitted_def spoken_def list_ex_iff le_fun_def)

lemma permitted_mono: "permitted cf E x \<Longrightarrow> E \<le> E' \<Longrightarrow> permitted cf E' x"
  by (auto simp: permitted_def)

lemma live_steady: "list_all hashed (xs @ ys) \<Longrightarrow> steady cf (spoken cf (xs @ ys)) (live cf xs) (live cf (xs @ ys))"
proof -
  let ?E = "spoken cf (xs @ ys)"
  assume h: "list_all hashed (xs @ ys)"
  then have p: "list_all (permitted cf ?E) (xs @ ys)" by (rule hashed_permitted)
  have "steady cf ?E fresh_session (live cf xs)"
    unfolding live_def by (rule life.run_inv) (use p fresh_ok in \<open>simp_all add: steady_def\<close>)
  then have "steady cf ?E (live cf xs) (live cf xs)" by (simp add: steady_def)
  then have "steady cf ?E (live cf xs) (fold (quorum_step cf) ys (live cf xs))" by (intro life.run_inv) (use p in simp_all)
  then show ?thesis by (simp add: live_def)
qed

lemma live_ok: "list_all hashed xs \<Longrightarrow> session_ok cf (spoken cf xs) (live cf xs)"
  using live_steady [of xs "[]" cf] by (simp add: steady_def)


text \<open>The crossings of a run: the request of each entry an act consumes.\<close>

definition spent_by :: "caller \<times> int \<times> act \<Rightarrow> session_state \<Rightarrow> string list" where
  "spent_by x s = (case x of (ca, reading, a) \<Rightarrow> (case a of
     Spend_Act t \<Rightarrow> (case consume_first (standing_entry (fst (read_clock reading s)) t) (s_ledger s) of None \<Rightarrow> [] | Some (e, es) \<Rightarrow> [le_request e])
   | _ \<Rightarrow> []))"

fun crossings :: "config \<Rightarrow> (caller \<times> int \<times> act) list \<Rightarrow> session_state \<Rightarrow> string list" where
  "crossings cf [] s = []"
| "crossings cf (x # xs) s = spent_by x s @ crossings cf xs (quorum_step cf x s)"

lemma consume_first_spent:
  "consume_first P es = Some (e, es') \<Longrightarrow> (\<And>e. P e \<Longrightarrow> \<not> le_consumed e)
     \<Longrightarrow> mset (map le_request (filter le_consumed es')) = add_mset (le_request e) (mset (map le_request (filter le_consumed es)))"
  by (induction es arbitrary: es') (auto split: if_splits)

lemma spent_mint [simp]: "spent (mint_receipt cf now e s) = spent s"
  by (simp add: mint_receipt_def spent_def split: option.splits)

lemma read_clock_same: "s_ledger (snd (read_clock reading s)) = s_ledger s" "spent (snd (read_clock reading s)) = spent s"
  by (simp_all add: read_clock_def spent_def)

lemma step_spent:
  assumes x: "permitted cf E x" and s: "steady cf E s0 s"
  shows "mset (spent (quorum_step cf x s)) = mset (spent_by x s) + mset (spent s)"
proof -
  obtain ca reading a where a: "x = (ca, reading, a)" by (cases x) auto
  obtain now s' where c: "read_clock reading s = (now, s')" by fastforce
  have s': "reading \<le> now" "steady cf E s0 s'" "s_ledger s' = s_ledger s" "spent s' = spent s"
    using c books_steady [OF s, of s'] s by (auto simp: read_clock_def steady_def tickets_ok_def spent_def split: if_splits)
  have step: "quorum_step cf x s = perform cf ca now a s'" using a c by (simp add: quorum_step_def)
  show ?thesis
  proof (cases "\<exists>t. a = Spend_Act t")
    case False
    then have "spent_by x s = []" using a by (cases a) (simp_all add: spent_by_def)
    then show ?thesis using perform_steady [of cf E ca reading a now s0 s'] x a s' False unfolding step by simp
  next
    case True
    then obtain t where t: "a = Spend_Act t" by blast
    have P: "standing_entry now t e \<Longrightarrow> \<not> le_consumed e" for e by (simp add: standing_entry_def spendable_def)
    show ?thesis
    proof (cases "consume_first (standing_entry now t) (s_ledger s)")
      case None
      then show ?thesis using a c t s' unfolding step by (simp add: spent_by_def spend_approval_def)
    next
      case (Some p)
      then obtain e es where e: "consume_first (standing_entry now t) (s_ledger s) = Some (e, es)" by (cases p) auto
      have "spent (quorum_step cf x s) = map le_request (filter le_consumed es)"
        using t e s' unfolding step by (simp add: spend_approval_def) (simp add: spent_def)
      then show ?thesis using consume_first_spent [OF e P] a c t e by (simp add: spent_by_def spent_def)
    qed
  qed
qed

lemma crossings_spent:
  assumes "list_all (permitted cf E) xs" "steady cf E s0 s"
  shows "mset (spent (fold (quorum_step cf) xs s)) = mset (crossings cf xs s) + mset (spent s)"
  using assms
proof (induction xs arbitrary: s)
  case (Cons x xs)
  then have "steady cf E s0 (quorum_step cf x s)" by (intro life.step_inv) simp_all
  then show ?case using Cons step_spent [of cf E x s0 s] by simp
qed simp

lemma live_crossings: "list_all hashed xs \<Longrightarrow> mset (crossings cf xs fresh_session) = mset (spent (live cf xs))"
proof -
  assume h: "list_all hashed xs"
  have "steady cf (spoken cf xs) fresh_session fresh_session" using fresh_ok by (simp add: steady_def)
  then have "mset (spent (live cf xs)) = mset (crossings cf xs fresh_session) + mset (spent fresh_session)"
    unfolding live_def by (rule crossings_spent [OF hashed_permitted [OF h]])
  then show ?thesis by (simp add: spent_def fresh_session_def)
qed

end
