(* ===== verification/Quorum_Guarantees.thy ===== *)
theory Quorum_Guarantees
  imports Quorum_Properties
begin

section \<open>What a multi-party approval guarantees\<close>

text \<open>The guarantees over a whole session, and a session on which they are exercised.\<close>

subsection \<open>Lemmas\<close>

definition backers :: "question \<Rightarrow> (string \<times> string) list" where
  "backers q = map fst (filter (\<lambda>(pn, nv). v_ballot (snd nv) = ''approve'') (zip (q_principals q) (q_votes q)))"

lemma backers_count:
  assumes "length ps = length (vs :: (string \<times> vote) list)"
  shows "length (filter (\<lambda>(pn, nv). v_ballot (snd nv) = b) (zip ps vs)) = length (filter (\<lambda>(n, v). v_ballot v = b) vs)"
  using assms by (induction ps vs rule: list_induct2) auto

lemma distinct_map_filter_zip:
  "length ps = length vs \<Longrightarrow> distinct (map f ps) \<Longrightarrow> distinct (map f (map fst (filter P (zip ps vs))))"
proof (induction ps vs rule: list_induct2)
  case (Cons p ps v vs)
  have "f p \<notin> f ` fst ` {x \<in> set (zip ps vs). P x}" using Cons.prems by (auto dest: set_zip_leftD)
  then show ?case using Cons by auto
qed simp

lemma zip_matching: "map snd ps = map fst vs \<Longrightarrow> ((p, m), (n, v)) \<in> set (zip ps vs) \<Longrightarrow> m = n"
  by (metis (no_types, lifting) fst_conv in_set_zip nth_map snd_conv)

lemma backers_ok:
  assumes q: "question_ok E q"
  shows "int (length (backers q)) = counted q" "distinct (map fst (backers q))" "distinct (map snd (backers q))"
    "(p, n) \<in> set (backers q) \<Longrightarrow> named q n \<and> E (q_request q) n p ''approve''"
proof -
  have d: "dict_ok (q_votes q)" "dict_ok (q_principals q)" "map snd (q_principals q) = map fst (q_votes q)"
      "\<forall>(n, v) \<in> set (q_votes q). v_voter v = n \<and> named q n" "\<forall>((p, m), (n, v)) \<in> set (zip (q_principals q) (q_votes q)). E (q_request q) n p (v_ballot v)"
    using q unfolding question_ok_def by - (elim conjE, assumption)+
  have len: "length (q_principals q) = length (q_votes q)" using d(3) by (metis length_map)
  show "int (length (backers q)) = counted q" using backers_count [OF len] by (simp add: backers_def counted_def)
  show "distinct (map fst (backers q))" using distinct_map_filter_zip [OF len, of fst] d(2) by (simp add: backers_def dict_ok_def)
  have "distinct (map snd (q_principals q))" using d(1) by (simp add: d(3) dict_ok_def)
  then show "distinct (map snd (backers q))" using distinct_map_filter_zip [OF len, of snd] by (simp add: backers_def)
  show "named q n \<and> E (q_request q) n p ''approve''" if "(p, n) \<in> set (backers q)"
  proof -
    have "(p, n) \<in> fst ` {x \<in> set (zip (q_principals q) (q_votes q)). v_ballot (snd (snd x)) = ''approve''}"
      using that by (simp add: backers_def case_prod_beta)
    then obtain x where x: "x \<in> set (zip (q_principals q) (q_votes q))" "v_ballot (snd (snd x)) = ''approve''" "(p, n) = fst x" by blast
    obtain m v where eq: "x = ((p, n), (m, v))" using x(3) by (metis prod.collapse)
    have z: "((p, n), (m, v)) \<in> set (zip (q_principals q) (q_votes q))" "v_ballot v = ''approve''" using x(1,2) unfolding eq by simp_all
    have "m = n" using zip_matching [OF d(3) z(1)] by simp
    moreover have "(m, v) \<in> set (q_votes q)" using z(1) by (rule set_zip_rightD)
    ultimately show ?thesis using d(4,5) z by fastforce
  qed
qed

lemma one_entry: "distinct (map f xs) \<Longrightarrow> length (filter (\<lambda>x. f x = a) xs) = (if a \<in> f ` set xs then 1 else 0)"
proof (induction xs)
  case (Cons x xs)
  have none: "a \<notin> f ` set xs \<Longrightarrow> filter (\<lambda>x. f x = a) xs = []" by (auto simp: filter_empty_conv)
  show ?case using Cons none by (cases "f x = a") auto
qed simp

lemma live_question: "list_all hashed xs \<Longrightarrow> map_of (s_questions (live cf xs)) rid = Some q \<Longrightarrow> q_request q = rid \<and> question_ok (spoken cf xs) q"
  by (rule session_okD(2) [OF live_ok])

lemma live_extends: "list_all hashed (xs @ ys) \<Longrightarrow> extends (live cf xs) (live cf (xs @ ys))"
  using live_steady by (auto simp: steady_def)


subsection \<open>A session\<close>

text \<open>A payment that two of three operators approve, each with a secret of their own.\<close>

definition demo_oper :: "string \<Rightarrow> string \<Rightarrow> oper" where
  "demo_oper n key = \<lparr>opr_token = n, opr_vote_key = Some (rev key), opr_sign_key = None, opr_not_after = None, opr_revoked = False\<rparr>"

definition demo_config :: config where
  "demo_config = \<lparr>cf_crypto = \<lparr>cr_sha = rev, cr_verify = (\<lambda>k b p. False)\<rparr>,
     cf_policy = (\<lambda>c. if c = ''pay'' then Some \<lparr>r_require = 2, r_approvers = [''alice'', ''bob'', ''carol''], r_ttl = Some 100\<rparr> else None),
     cf_registry = Some [(''alice'', demo_oper ''alice'' ''a''), (''bob'', demo_oper ''bob'' ''b''), (''carol'', demo_oper ''carol'' ''c''), (''eve'', demo_oper ''eve'' ''b'')],
     cf_digest = (\<lambda>b. rb_request (rc_binding b))\<rparr>"

definition demo_ticket :: ticket where
  "demo_ticket = \<lparr>t_hash = ''h1'', t_candidate = ''cand'', t_component = ''till'', t_kind = ''effect'', t_caps = [''pay''], t_args = ''args''\<rparr>"

definition agent :: caller where
  "agent = \<lparr>ca_bound = Some (demo_oper ''agent'' ''x''), ca_how = ''token''\<rparr>"

definition by_secret_of :: "string \<Rightarrow> string \<Rightarrow> credentials" where
  "by_secret_of n k = \<lparr>as_token = Some n, as_secret = Some k, as_proof = None\<rparr>"

definition demo_votes :: "(caller \<times> int \<times> act) list" where
  "demo_votes = [(agent, 10, Ask demo_ticket), (agent, 12, Vote_Act ''h1'' ''approve'' (by_secret_of ''alice'' ''a'')),
     (agent, 13, Vote_Act ''h1'' ''approve'' (by_secret_of ''alice'' ''a'')), (agent, 14, Vote_Act ''h1'' ''approve'' (by_secret_of ''carol'' ''c''))]"

definition demo_spends :: "(caller \<times> int \<times> act) list" where
  "demo_spends = [(agent, 15, Spend_Act demo_ticket), (agent, 16, Spend_Act demo_ticket), (agent, 17, Revoke_Act ''h1'' ''late'' (by_secret_of ''bob'' ''b'')),
     (agent, 18, Ask demo_ticket)]"


text \<open>What the session comes to.\<close>

lemma demo_hashed: "list_all hashed (demo_votes @ demo_spends)"
  by code_simp

lemma demo_outcomes: "map (\<lambda>(n, q). (n, q_outcome q, q_satisfied_by q)) (s_questions (live demo_config demo_votes)) = [(''h1'', Some Satisfied, Some By_Votes)]"
  by code_simp

lemma demo_receipts: "map fst (s_receipts (live demo_config (demo_votes @ [(agent, 15, Spend_Act demo_ticket)]))) = [''h1'']"
  by code_simp


lemma demo_question:
  obtains q where "map_of (s_questions (live demo_config demo_votes)) ''h1'' = Some q" "q_outcome q = Some Satisfied" "q_satisfied_by q = Some By_Votes"
    "q_require q = 2"
proof -
  have "map_option (\<lambda>q. (q_outcome q, q_satisfied_by q, q_require q)) (map_of (s_questions (live demo_config demo_votes)) ''h1'') = Some (Some Satisfied, Some By_Votes, 2)"
    by code_simp
  then show ?thesis using that by auto
qed


subsection \<open>The guarantees\<close>

text \<open>C28: A quorum is distinct proven people.  Whenever votes have satisfied a question, at least the required number
  of pairs of a principal and a name stand behind it, with no name and no principal twice; none of
  the names is the proposer, each is an approver the rule names, and each pair voted to approve this
  very request in an act of the session whose credentials prove it.  This holds for every sequence of
  asks, votes, overrides, escalations, revocations and crossings, and for any digest and signature.\<close>

theorem votes_count_principals:
  assumes "list_all hashed xs" "map_of (s_questions (live cf xs)) rid = Some q" "q_satisfied_by q = Some By_Votes"
  shows "\<exists>C. int (length C) \<ge> q_require q \<and> distinct (map fst C) \<and> distinct (map snd C) \<and> (\<forall>(p, n) \<in> set C. named q n \<and> spoken cf xs rid n p ''approve'')"
proof -
  have q: "q_request q = rid" "question_ok (spoken cf xs) q" using live_question [OF assms(1,2)] by simp_all
  then have "counted q \<ge> q_require q" using assms(3) by (simp add: question_ok_def)
  then show ?thesis using backers_ok [OF q(2)] q(1) by (intro exI [of _ "backers q"]) auto
qed

lemma votes_count_principals_witness:
  "\<exists>(C :: (string \<times> string) list) q. map_of (s_questions (live demo_config demo_votes)) ''h1'' = Some q \<and> int (length C) \<ge> 2 \<and> distinct (map fst C) \<and> distinct (map snd C)"
proof -
  obtain q where q: "map_of (s_questions (live demo_config demo_votes)) ''h1'' = Some q" "q_satisfied_by q = Some By_Votes" "q_require q = 2"
    by (rule demo_question)
  have h: "list_all hashed demo_votes" using demo_hashed by simp
  show ?thesis
    using votes_count_principals [OF h q(1,2)]
  proof (elim exE conjE)
    fix C :: "(string \<times> string) list"
    assume C: "q_require q \<le> int (length C)" "distinct (map fst C)" "distinct (map snd C)"
    have two: "2 \<le> int (length C)" using C(1) q(3) by simp
    show ?thesis by (rule exI [of _ C], rule exI [of _ q]) (intro conjI q(1) two C(2,3))
  qed
qed

text \<open>C29: A decision is final and mints one authority.  Once a question is satisfied, denied, expired or revoked, no
  later act changes any part of it, its votes included; and the ledger holds exactly one
  entry for it if it was satisfied and none otherwise, however often anyone votes, overrides, revokes
  or asks again.\<close>

theorem decisions_final:
  assumes "list_all hashed (xs @ ys)" "map_of (s_questions (live cf xs)) rid = Some q" "q_outcome q \<in> {Some Satisfied, Some Denied, Some Expired, Some Revoked}"
  shows "map_of (s_questions (live cf (xs @ ys))) rid = Some q
    \<and> length (filter (\<lambda>e. le_request e = rid) (s_ledger (live cf (xs @ ys)))) = (if q_outcome q = Some Satisfied then 1 else 0)"
proof -
  have q: "map_of (s_questions (live cf (xs @ ys))) rid = Some q"
    using live_extends [OF assms(1), of cf] assms(2,3) unfolding extends_def still_open_def by auto
  have ok: "session_ok cf (spoken cf (xs @ ys)) (live cf (xs @ ys))" by (rule live_ok [OF assms(1)])
  show ?thesis using q one_entry [OF session_okD(3) [OF ok], of rid] session_okD(4) [OF ok, of rid] by simp
qed

lemma decisions_final_witness:
  "\<exists>q. map_of (s_questions (live demo_config demo_votes)) ''h1'' = Some q \<and> map_of (s_questions (live demo_config (demo_votes @ demo_spends))) ''h1'' = Some q
     \<and> length (filter (\<lambda>e. le_request e = ''h1'') (s_ledger (live demo_config (demo_votes @ demo_spends)))) = 1"
proof -
  obtain q where q: "map_of (s_questions (live demo_config demo_votes)) ''h1'' = Some q" "q_outcome q = Some Satisfied" by (rule demo_question)
  then show ?thesis using decisions_final [OF demo_hashed q(1)] by simp
qed

text \<open>A question is denied exactly when it cannot be won.  A question that is open or handed up can still reach its
  count with the eligible approvers that have not voted, and a denied one cannot; so no refusal
  closes a question that someone could still carry, and none is left open to wait for votes that cannot
  come.\<close>

theorem open_question_reachable:
  assumes "list_all hashed xs" "map_of (s_questions (live cf xs)) rid = Some q"
  shows "(q_outcome q \<in> {None, Some Escalated} \<longrightarrow> counted q + int (length (unvoted q)) \<ge> q_require q)
    \<and> (q_outcome q = Some Denied \<longrightarrow> counted q + int (length (unvoted q)) < q_require q)"
  using live_question [OF assms] by (auto simp: question_ok_def reachable_count_def)

lemma open_question_reachable_witness:
  "\<exists>q. map_of (s_questions (live demo_config [(agent, 10, Ask demo_ticket)])) ''h1'' = Some q \<and> counted q + int (length (unvoted q)) \<ge> q_require q"
proof -
  have "map_option q_outcome (map_of (s_questions (live demo_config [(agent, 10, Ask demo_ticket)])) ''h1'') = Some None" by code_simp
  then obtain q where q: "map_of (s_questions (live demo_config [(agent, 10, Ask demo_ticket)])) ''h1'' = Some q" "q_outcome q = None" by auto
  have "list_all hashed [(agent, 10, Ask demo_ticket)]" by code_simp
  then show ?thesis using open_question_reachable [OF _ q(1)] q by auto
qed

text \<open>C30: A minted receipt verifies for ever.  The receipt of a crossing re-derives exactly, refusals included,
  from the graph and the ledger of every later state of the session, whatever is voted, refused,
  asked or spent afterwards, and for any digest function.\<close>

theorem receipts_verify_forever:
  assumes "list_all hashed (xs @ ys)" "map_of (s_receipts (live cf xs)) rid = Some r"
  shows "verify_session_receipt cf r (live cf (xs @ ys)) = []"
proof -
  have s: "steady cf (spoken cf (xs @ ys)) (live cf xs) (live cf (xs @ ys))" by (rule live_steady [OF assms(1)])
  then have "map_of (s_receipts (live cf (xs @ ys))) rid = Some r" using assms(2) by (auto simp: steady_def extends_def)
  then show ?thesis using session_okD(6) [of cf "spoken cf (xs @ ys)" "live cf (xs @ ys)" rid r] s by (simp add: steady_def)
qed

lemma receipts_verify_forever_witness:
  "\<exists>r. map_of (s_receipts (live demo_config (demo_votes @ take 1 demo_spends))) ''h1'' = Some r
     \<and> verify_session_receipt demo_config r (live demo_config ((demo_votes @ take 1 demo_spends) @ drop 1 demo_spends)) = []"
proof -
  have "map fst (s_receipts (live demo_config (demo_votes @ take 1 demo_spends))) = [''h1'']" using demo_receipts by (simp add: demo_spends_def)
  then obtain r where r: "map_of (s_receipts (live demo_config (demo_votes @ take 1 demo_spends))) ''h1'' = Some r" by (auto simp: map_eq_Cons_conv)
  have "list_all hashed ((demo_votes @ take 1 demo_spends) @ drop 1 demo_spends)" using demo_hashed by simp
  then show ?thesis using receipts_verify_forever [OF _ r] r by blast
qed




subsection \<open>What the count does not see\<close>

text \<open>Two profile entries that share one secret are one principal, and supply one vote between them.  The proposer is
  told apart by name only: where the proposer holds the secret of an approver's entry, the same secret
  that proposes under one name approves under the other.\<close>

definition twin_config :: config where
  "twin_config = demo_config\<lparr>cf_registry := Some [(''alice'', demo_oper ''alice'' ''a''), (''bob'', demo_oper ''bob'' ''a''), (''carol'', demo_oper ''carol'' ''c'')]\<rparr>"

definition alice :: caller where
  "alice = \<lparr>ca_bound = Some (demo_oper ''alice'' ''a''), ca_how = ''token''\<rparr>"

lemma proposers_twin_counts:
  "map (\<lambda>(n, q). (q_proposer q, q_outcome q, map fst (q_votes q))) (s_questions (live twin_config
     [(alice, 10, Ask demo_ticket), (alice, 11, Vote_Act ''h1'' ''approve'' (by_secret_of ''bob'' ''a'')), (alice, 12, Vote_Act ''h1'' ''approve'' (by_secret_of ''carol'' ''c''))]))
   = [(''alice'', Some Satisfied, [''bob'', ''carol''])]"
  by code_simp

text \<open>An override closes a question whose quorum could still be reached.\<close>

lemma reachable_quorum_overridden:
  "map (\<lambda>(n, q). (q_outcome q, q_satisfied_by q, counted q + int (length (unvoted q)) \<ge> q_require q)) (s_questions (live demo_config
     [(agent, 10, Ask demo_ticket), (agent, 11, Override_Act ''h1'' ''now'' \<lparr>as_token = None, as_secret = None, as_proof = None\<rparr>)]))
   = [(Some Satisfied, Some By_Override, True)]"
  by code_simp

text \<open>A closed question refuses an escalation without a row in the graph.\<close>

lemma closed_refusal_unrecorded:
  "s_rows (live demo_config (demo_votes @ [(agent, 15, Escalate_Act ''h1'' ''up'' (by_secret_of ''bob'' ''b''))])) = s_rows (live demo_config demo_votes)"
  by code_simp

end
