(* ===== verification/Recovery.thy ===== *)
theory Recovery
  imports Revl_Prelude
begin

section \<open>Crash recovery (\<open>src/revl/recovery.py\<close>)\<close>

text \<open>
  What a fresh process does with the write-ahead log of a dead one: the verdict, the calls it makes
  against the world, the fences it writes before them, and what it reports as residue.  A run is the
  sequence of its records and calls, so that a crash between two of them is a prefix.  The world is a
  parameter: any adapter, real or a model, whose calls may fail.
\<close>

subsection \<open>The log\<close>

record call =
  call_receiver :: string
  call_method :: string
  call_args :: "string list"

text \<open>An inverse is a named call with captured arguments, with its declared idempotency and register, or a closure.\<close>

datatype inverse = Named call bool "string option" | Closure

record effect =
  ef_seq :: int
  ef_component :: string
  ef_label :: string
  ef_kind :: string
  ef_step :: "int option"
  ef_class :: string
  ef_life :: string
  ef_for :: "int option"
  ef_within :: "(string option \<times> int) option"
  ef_inverse :: inverse

datatype entry_kind = Transactional | Compensation

record descriptor =
  ds_seq :: int
  ds_entry :: entry_kind
  ds_call :: call
  ds_idempotent :: bool
  ds_register :: "string option"
  ds_offsets :: "int option"

record deferred =
  df_seq :: int
  df_call :: call
  df_register :: "string option"

record shared_grant =
  sg_handle :: string
  sg_holders :: "string list"
  sg_inverse :: call

datatype wal_record =
    Effect effect | Descriptor descriptor | Discharge "int list" | Aborted "int list" | Replay_Fence int
  | Deferred deferred | Flushed int | Flush_Failed int | Reissue_Fence int | Settled int
  | Commit_Approved | Activation_Complete | Run_Complete | Fork_Frozen
  | Shared_Grant shared_grant | Shared_Complete string | Shared_Fence string

definition effects_of :: "wal_record list \<Rightarrow> effect list" where
  "effects_of rs = concat (map (\<lambda>r. case r of Effect e \<Rightarrow> [e] | _ \<Rightarrow> []) rs)"

definition descriptors_of :: "wal_record list \<Rightarrow> descriptor list" where
  "descriptors_of rs = concat (map (\<lambda>r. case r of Descriptor d \<Rightarrow> [d] | _ \<Rightarrow> []) rs)"

definition deferred_of :: "wal_record list \<Rightarrow> deferred list" where
  "deferred_of rs = concat (map (\<lambda>r. case r of Deferred d \<Rightarrow> [d] | _ \<Rightarrow> []) rs)"

definition discharged_of :: "wal_record list \<Rightarrow> int list" where
  "discharged_of rs = concat (map (\<lambda>r. case r of Discharge ns \<Rightarrow> ns | _ \<Rightarrow> []) rs)"

definition aborted_of :: "wal_record list \<Rightarrow> int list" where
  "aborted_of rs = concat (map (\<lambda>r. case r of Aborted ns \<Rightarrow> ns | _ \<Rightarrow> []) rs)"

fun is_aborted :: "wal_record \<Rightarrow> bool" where
  "is_aborted (Aborted ns) = True"
| "is_aborted r = False"


subsection \<open>What is safe to issue again\<close>

datatype replay_tier = Read_Tier | Free_Tier | Fenced_Tier

definition replay_tier_of :: "string option \<Rightarrow> bool \<Rightarrow> replay_tier" where
  "replay_tier_of register idempotent = (if register = Some ''read'' then Read_Tier else if idempotent then Free_Tier else Fenced_Tier)"

fun tier_name :: "replay_tier \<Rightarrow> string" where
  "tier_name Read_Tier = ''read''"
| "tier_name Free_Tier = ''free''"
| "tier_name Fenced_Tier = ''fenced''"

definition redispatch_free :: "string option \<Rightarrow> bool" where
  "redispatch_free register \<longleftrightarrow> register \<in> {Some ''read'', Some ''keyed''}"

definition reissue_permitted :: "string option \<Rightarrow> string option \<Rightarrow> bool" where
  "reissue_permitted register strength = (if strength = None then False else if redispatch_free register then True
     else register = Some ''declared'' \<and> strength = Some ''declared'')"

definition redacted_secret :: string where "redacted_secret = ''<redacted:secret>''"

definition has_redacted_arg :: "call \<Rightarrow> bool" where
  "has_redacted_arg c \<longleftrightarrow> list_ex (\<lambda>a. a = redacted_secret) (call_args c)"


subsection \<open>The world and a run against it\<close>

text \<open>A call returns the message of what it raised, if it did, and the world it left.\<close>

record 'w adapter =
  ad_real :: bool
  ad_calls :: bool
  ad_key :: "call \<Rightarrow> string"
  ad_own :: "effect \<Rightarrow> string"
  ad_seed :: "string \<Rightarrow> 'w \<Rightarrow> 'w"
  ad_inverse :: "call \<Rightarrow> 'w \<Rightarrow> string option \<times> 'w"
  ad_compensate :: "call \<Rightarrow> 'w \<Rightarrow> string option \<times> 'w"
  ad_reissue :: "call \<Rightarrow> 'w \<Rightarrow> string option \<times> 'w"

text \<open>What a call is made for: an effect or descriptor by its number, an owed emission, or a shared handle.\<close>

datatype obligation = Inverse_Of int | Compensation_Of int | Emission_Of int | Grant_Of string

datatype event = Logged wal_record | Called obligation call

record residue =
  rs_kind :: string
  rs_for :: obligation
  rs_attempted :: bool
  rs_outcome :: string

record 'w run =
  rv_world :: 'w
  rv_events :: "event list"
  rv_raised :: "string option"
  rv_out :: "residue list"

definition owe :: "string \<Rightarrow> obligation \<Rightarrow> bool \<Rightarrow> string \<Rightarrow> ('w, 'z) run_scheme \<Rightarrow> ('w, 'z) run_scheme" where
  "owe kind ob attempted outcome s = s\<lparr>rv_out := rv_out s @ [\<lparr>rs_kind = kind, rs_for = ob, rs_attempted = attempted, rs_outcome = outcome\<rparr>]\<rparr>"

definition log_record :: "wal_record \<Rightarrow> ('w, 'z) run_scheme \<Rightarrow> ('w, 'z) run_scheme" where
  "log_record r s = s\<lparr>rv_events := rv_events s @ [Logged r]\<rparr>"

definition make_call :: "(call \<Rightarrow> 'w \<Rightarrow> string option \<times> 'w) \<Rightarrow> obligation \<Rightarrow> call \<Rightarrow> ('w, 'z) run_scheme \<Rightarrow> string option \<times> ('w, 'z) run_scheme" where
  "make_call f ob c s = (case f c (rv_world s) of (err, w) \<Rightarrow> (err, s\<lparr>rv_world := w, rv_events := rv_events s @ [Called ob c]\<rparr>))"

definition seed_world :: "'w adapter \<Rightarrow> string \<Rightarrow> ('w, 'z) run_scheme \<Rightarrow> ('w, 'z) run_scheme" where
  "seed_world ad ref s = s\<lparr>rv_world := ad_seed ad ref (rv_world s)\<rparr>"

record 'w recovery = "'w run" +
  rv_fenced :: "int set"
  rv_ran :: "(int \<times> replay_tier) list"
  rv_moot :: "int list"
  rv_offset :: "(int \<times> int) list"
  rv_described :: "(int \<times> int) list"
  rv_closures :: "int list"
  rv_back :: "(int \<times> string) list"
  rv_skipped :: "(int \<times> bool) list"
  rv_failed :: "int list"
  rv_deferred :: "int list"
  rv_compensated :: "int list"
  rv_settled :: "int list"

definition recovery_start :: "int set \<Rightarrow> 'w \<Rightarrow> 'w recovery" where
  "recovery_start fenced w = \<lparr>rv_world = w, rv_events = [], rv_raised = None, rv_out = [], rv_fenced = fenced, rv_ran = [], rv_moot = [], rv_offset = [],
     rv_described = [], rv_closures = [], rv_back = [], rv_skipped = [], rv_failed = [], rv_deferred = [], rv_compensated = [], rv_settled = []\<rparr>"

text \<open>The durable fence of an attempt, written before it and only for a real world.\<close>

definition spend_fence :: "'w adapter \<Rightarrow> int \<Rightarrow> 'w recovery \<Rightarrow> 'w recovery" where
  "spend_fence ad n s = (if ad_real ad then (log_record (Replay_Fence n) s)\<lparr>rv_fenced := insert n (rv_fenced s)\<rparr> else s)"

subsection \<open>Which crossing an effect record stands for\<close>

text \<open>An emission recorded inside another crossing is counted there, if that crossing is on the record.\<close>

definition enclosed :: "(string option \<times> int) option \<Rightarrow> int list \<Rightarrow> (string, int list) pydict \<Rightarrow> bool" where
  "enclosed within seqs callers = (case within of None \<Rightarrow> False
     | Some (None, n) \<Rightarrow> n \<in> set seqs
     | Some (Some p, n) \<Rightarrow> n \<in> set (dict_get callers p []))"

definition is_nested :: "wal_record list \<Rightarrow> (string, int list) pydict \<Rightarrow> effect \<Rightarrow> bool" where
  "is_nested rs callers e \<longleftrightarrow> ef_class e = ''emission'' \<and> enclosed (ef_within e) (map ef_seq (effects_of rs)) callers"

definition split_nested :: "effect list \<Rightarrow> wal_record list \<Rightarrow> (string, int list) pydict \<Rightarrow> effect list \<times> effect list" where
  "split_nested es rs callers = (filter (\<lambda>e. \<not> is_nested rs callers e) es, filter (is_nested rs callers) es)"

definition outlives :: "string \<Rightarrow> bool" where
  "outlives life \<longleftrightarrow> life \<in> {''process-crossing'', ''outlives-process'', ''unknown''}"

definition referent_key :: "'w adapter \<Rightarrow> effect \<Rightarrow> string option" where
  "referent_key ad e = (if \<not> outlives (ef_life e) then None
     else case ef_inverse e of Named c idem reg \<Rightarrow> Some (ad_key ad c) | Closure \<Rightarrow> Some (ad_own ad e))"

text \<open>Which emission a compensation offsets.  A later entry of either table replaces an earlier one.\<close>

record pairing =
  pr_settled :: "int set"
  pr_ran_by_abort :: "int set"
  pr_by_emission :: "(int \<times> int) list"
  pr_emission_seq :: "((string \<times> int option) \<times> int) list"

definition pairing_of :: "wal_record list \<Rightarrow> effect list \<Rightarrow> descriptor list \<Rightarrow> pairing" where
  "pairing_of rs es ds = \<lparr>pr_settled = set (discharged_of rs) \<union> set (aborted_of rs), pr_ran_by_abort = set (aborted_of rs),
     pr_by_emission = dict_of (concat (map (\<lambda>d. case ds_offsets d of Some n \<Rightarrow> if ds_entry d = Compensation then [(n, ds_seq d)] else [] | None \<Rightarrow> []) ds)),
     pr_emission_seq = dict_of (concat (map (\<lambda>e. if ef_kind e = ''emission'' then [((ef_component e, ef_step e), ef_seq e)] else []) es))\<rparr>"

definition offset_by_seq :: "pairing \<Rightarrow> int \<Rightarrow> int option" where
  "offset_by_seq p n = (case map_of (pr_by_emission p) n of Some d \<Rightarrow> if d \<in> pr_settled p then Some d else None | None \<Rightarrow> None)"

definition offset_by :: "pairing \<Rightarrow> effect \<Rightarrow> int option" where
  "offset_by p e = (if ef_kind e \<noteq> ''emission'' then None else offset_by_seq p (ef_seq e))"

definition described :: "pairing \<Rightarrow> effect \<Rightarrow> int option" where
  "described p e = (if ef_kind e \<noteq> ''compensation'' then None
     else case map_of (pr_emission_seq p) (ef_component e, ef_for e) of None \<Rightarrow> None | Some n \<Rightarrow> map_of (pr_by_emission p) n)"


subsection \<open>Rolling back\<close>

text \<open>One effect record: described or offset elsewhere, moot, closure-only, or an inverse to run.  A raise here is
  not caught and ends the recovery.\<close>

definition run_boundary_inverse :: "'w adapter \<Rightarrow> effect \<Rightarrow> call \<Rightarrow> replay_tier \<Rightarrow> 'w recovery \<Rightarrow> 'w recovery" where
  "run_boundary_inverse ad e c tier s =
     (case make_call (ad_inverse ad) (Inverse_Of (ef_seq e)) c (if tier = Fenced_Tier then spend_fence ad (ef_seq e) s else s) of
        (Some m, s) \<Rightarrow> s\<lparr>rv_raised := Some m\<rparr>
      | (None, s) \<Rightarrow> s\<lparr>rv_ran := rv_ran s @ [(ef_seq e, tier)]\<rparr>)"

definition visit_effect :: "'w adapter \<Rightarrow> pairing \<Rightarrow> effect \<Rightarrow> 'w recovery \<Rightarrow> 'w recovery" where
  "visit_effect ad p e s =
     (if rv_raised s \<noteq> None then s
      else case described p e of Some d \<Rightarrow> s\<lparr>rv_described := rv_described s @ [(ef_seq e, d)]\<rparr>
      | None \<Rightarrow> (case offset_by p e of Some d \<Rightarrow> s\<lparr>rv_offset := rv_offset s @ [(ef_seq e, d)]\<rparr>
      | None \<Rightarrow> if referent_key ad e = None then s\<lparr>rv_moot := rv_moot s @ [ef_seq e]\<rparr>
        else (case ef_inverse e of
          Closure \<Rightarrow> owe ''unreconstructible'' (Inverse_Of (ef_seq e)) False ''not-attempted'' (s\<lparr>rv_closures := rv_closures s @ [ef_seq e]\<rparr>)
        | Named c idempotent register \<Rightarrow>
            if \<not> ad_calls ad then owe ''unbound-residue'' (Inverse_Of (ef_seq e)) False ''not-attempted'' s
            else let tier = replay_tier_of register idempotent in
              if tier = Fenced_Tier \<and> ef_seq e \<in> rv_fenced s
              then owe ''fenced-residue'' (Inverse_Of (ef_seq e)) False ''unknown'' (s\<lparr>rv_deferred := rv_deferred s @ [ef_seq e]\<rparr>)
              else run_boundary_inverse ad e c tier s)))"

text \<open>One transactional descriptor.\<close>

definition run_transactional :: "'w adapter \<Rightarrow> descriptor \<Rightarrow> replay_tier \<Rightarrow> 'w recovery \<Rightarrow> 'w recovery" where
  "run_transactional ad d tier s =
     (case make_call (ad_inverse ad) (Inverse_Of (ds_seq d)) (ds_call d) (if tier = Fenced_Tier then spend_fence ad (ds_seq d) s else s) of
        (Some m, s) \<Rightarrow> owe ''restore-residue'' (Inverse_Of (ds_seq d)) True ''failed'' (s\<lparr>rv_failed := rv_failed s @ [ds_seq d]\<rparr>)
      | (None, s) \<Rightarrow> s\<lparr>rv_back := rv_back s @ [(ds_seq d, tier_name tier)]\<rparr>)"

definition visit_transactional :: "'w adapter \<Rightarrow> int list \<Rightarrow> bool \<Rightarrow> descriptor \<Rightarrow> 'w recovery \<Rightarrow> 'w recovery" where
  "visit_transactional ad discharged abort_completed d s =
     (let tier = replay_tier_of (ds_register d) (ds_idempotent d) in
      if ds_seq d \<in> set discharged then s\<lparr>rv_skipped := rv_skipped s @ [(ds_seq d, True)]\<rparr>
      else if tier = Fenced_Tier \<and> ds_seq d \<in> rv_fenced s \<and> abort_completed then s\<lparr>rv_back := rv_back s @ [(ds_seq d, ''abort-phase1'')]\<rparr>
      else if tier = Fenced_Tier \<and> ds_seq d \<in> rv_fenced s
      then owe ''fenced-residue'' (Inverse_Of (ds_seq d)) False ''unknown'' (s\<lparr>rv_deferred := rv_deferred s @ [ds_seq d]\<rparr>)
      else if has_redacted_arg (ds_call d)
      then owe ''redacted-residue'' (Inverse_Of (ds_seq d)) False ''unknown'' (s\<lparr>rv_failed := rv_failed s @ [ds_seq d]\<rparr>)
      else run_transactional ad d tier s)"

text \<open>One compensation descriptor: a further crossing, so it is re-issued and stays residue.  A raise ends the recovery.\<close>

definition visit_compensation :: "'w adapter \<Rightarrow> int list \<Rightarrow> pairing \<Rightarrow> descriptor \<Rightarrow> 'w recovery \<Rightarrow> 'w recovery" where
  "visit_compensation ad discharged p d s =
     (if rv_raised s \<noteq> None then s
      else if ds_seq d \<in> pr_ran_by_abort p then s\<lparr>rv_settled := rv_settled s @ [ds_seq d]\<rparr>
      else if ds_seq d \<in> set discharged then s\<lparr>rv_skipped := rv_skipped s @ [(ds_seq d, False)]\<rparr>
      else if has_redacted_arg (ds_call d) then owe ''redacted-residue'' (Compensation_Of (ds_seq d)) False ''unknown'' s
      else case make_call (ad_compensate ad) (Compensation_Of (ds_seq d)) (ds_call d) s of
        (Some m, s) \<Rightarrow> s\<lparr>rv_raised := Some m\<rparr>
      | (None, s) \<Rightarrow> owe ''compensation-residue'' (Compensation_Of (ds_seq d)) True ''unknown'' (s\<lparr>rv_compensated := rv_compensated s @ [ds_seq d]\<rparr>))"

text \<open>Newest first, equals in the order of the log.\<close>

definition newest_first :: "descriptor list \<Rightarrow> descriptor list" where
  "newest_first ds = sort_key (\<lambda>d. - ds_seq d) ds"

definition of_entry :: "entry_kind \<Rightarrow> descriptor list \<Rightarrow> descriptor list" where
  "of_entry k ds = filter (\<lambda>d. ds_entry d = k) ds"

definition seed_effects :: "'w adapter \<Rightarrow> pairing \<Rightarrow> effect list \<Rightarrow> 'w recovery \<Rightarrow> 'w recovery" where
  "seed_effects ad p es = fold (\<lambda>e s. if described p e \<noteq> None \<or> offset_by p e \<noteq> None then s
     else case referent_key ad e of None \<Rightarrow> s | Some ref \<Rightarrow> seed_world ad ref s) es"

definition seed_descriptors :: "'w adapter \<Rightarrow> pairing \<Rightarrow> descriptor list \<Rightarrow> 'w recovery \<Rightarrow> 'w recovery" where
  "seed_descriptors ad p ds = fold (\<lambda>d s. if ds_entry d = Compensation \<and> ds_seq d \<in> pr_ran_by_abort p then s else seed_world ad (ad_key ad (ds_call d)) s) ds"

definition replay_fences :: "wal_record list \<Rightarrow> int set" where
  "replay_fences rs = set (concat (map (\<lambda>r. case r of Replay_Fence n \<Rightarrow> [n] | _ \<Rightarrow> []) rs))"

definition roll_back :: "'w adapter \<Rightarrow> wal_record list \<Rightarrow> (string, int list) pydict \<Rightarrow> 'w \<Rightarrow> 'w recovery" where
  "roll_back ad rs callers w =
     (let es = fst (split_nested (effects_of rs) rs callers); ds = descriptors_of rs; p = pairing_of rs es ds;
          s = fold (visit_effect ad p) (rev es) (seed_effects ad p es (recovery_start (replay_fences rs) w))
      in if rv_raised s \<noteq> None then s
      else let s = seed_descriptors ad p ds s;
               s = fold (visit_transactional ad (discharged_of rs) (list_ex is_aborted rs)) (newest_first (of_entry Transactional ds)) s
           in fold (visit_compensation ad (discharged_of rs) p) (newest_first (of_entry Compensation ds)) s)"

definition rolled_back_clean :: "'w recovery \<Rightarrow> bool" where
  "rolled_back_clean s \<longleftrightarrow> rv_out s = []"


subsection \<open>A committed session: the approved window\<close>

text \<open>No inverse runs and nothing is compensated: the missing discharge is rolled forward, and each deferred emission
  is reported flushed, owed, or fired again under the operator's rule.\<close>

definition flushed_of :: "wal_record list \<Rightarrow> int list" where
  "flushed_of rs = concat (map (\<lambda>r. case r of Flushed n \<Rightarrow> [n] | _ \<Rightarrow> []) rs)"

definition flush_failed_of :: "wal_record list \<Rightarrow> int list" where
  "flush_failed_of rs = concat (map (\<lambda>r. case r of Flush_Failed n \<Rightarrow> [n] | _ \<Rightarrow> []) rs)"

definition reissue_fences :: "wal_record list \<Rightarrow> int list" where
  "reissue_fences rs = concat (map (\<lambda>r. case r of Reissue_Fence n \<Rightarrow> [n] | _ \<Rightarrow> []) rs)"

record 'w window = "'w run" +
  wn_fired :: "int list"
  wn_owed :: "(int \<times> string) list"
  wn_reissued :: "int list"

definition reissue_owed :: "'w adapter \<Rightarrow> deferred \<Rightarrow> 'w window \<Rightarrow> 'w window" where
  "reissue_owed ad d s =
     (if has_redacted_arg (df_call d)
      then owe ''redacted-residue'' (Emission_Of (df_seq d)) False ''unknown'' (s\<lparr>wn_owed := wn_owed s @ [(df_seq d, ''failed'')]\<rparr>)
      else if \<not> ad_calls ad
      then owe ''unbound-residue'' (Emission_Of (df_seq d)) False ''not-attempted'' (s\<lparr>wn_owed := wn_owed s @ [(df_seq d, ''failed'')]\<rparr>)
      else case make_call (ad_reissue ad) (Emission_Of (df_seq d)) (df_call d) (if ad_real ad then log_record (Reissue_Fence (df_seq d)) s else s) of
        (Some m, s) \<Rightarrow> owe ''flush-residue'' (Emission_Of (df_seq d)) True ''failed'' (s\<lparr>wn_owed := wn_owed s @ [(df_seq d, ''failed'')]\<rparr>)
      | (None, s) \<Rightarrow> s\<lparr>wn_reissued := wn_reissued s @ [df_seq d]\<rparr>)"

definition visit_deferred :: "'w adapter \<Rightarrow> string option \<Rightarrow> wal_record list \<Rightarrow> deferred \<Rightarrow> 'w window \<Rightarrow> 'w window" where
  "visit_deferred ad strength rs d s =
     (if df_seq d \<in> set (flushed_of rs) then s\<lparr>wn_fired := wn_fired s @ [df_seq d]\<rparr>
      else if df_seq d \<in> set (flush_failed_of rs)
      then owe ''flush-residue'' (Emission_Of (df_seq d)) True ''failed'' (s\<lparr>wn_owed := wn_owed s @ [(df_seq d, ''failed'')]\<rparr>)
      else if reissue_permitted (df_register d) strength \<and> (df_seq d \<notin> set (reissue_fences rs) \<or> redispatch_free (df_register d))
      then reissue_owed ad d s
      else let outcome = (if df_seq d \<in> set (reissue_fences rs) \<and> reissue_permitted (df_register d) strength then ''unknown'' else ''not-attempted'')
        in owe ''flush-residue'' (Emission_Of (df_seq d)) False outcome (s\<lparr>wn_owed := wn_owed s @ [(df_seq d, outcome)]\<rparr>))"

definition owed_discharge :: "wal_record list \<Rightarrow> int list" where
  "owed_discharge rs = sort (filter (\<lambda>n. n \<notin> set (discharged_of rs)) (map ds_seq (descriptors_of rs)))"

definition window_start :: "'w \<Rightarrow> 'w window" where
  "window_start w = \<lparr>rv_world = w, rv_events = [], rv_raised = None, rv_out = [], wn_fired = [], wn_owed = [], wn_reissued = []\<rparr>"

definition roll_forward_window :: "'w adapter \<Rightarrow> string option \<Rightarrow> wal_record list \<Rightarrow> 'w \<Rightarrow> 'w window" where
  "roll_forward_window ad strength rs w =
     (let s = window_start w; s = (if owed_discharge rs = [] then s else log_record (Discharge (owed_discharge rs)) s)
      in fold (visit_deferred ad strength rs) (deferred_of rs) s)"


subsection \<open>A completed activation\<close>

text \<open>The records after the last one of a kind.\<close>

definition records_after :: "('a \<Rightarrow> bool) \<Rightarrow> 'a list \<Rightarrow> 'a list" where
  "records_after P rs = rev (takeWhile (\<lambda>r. \<not> P r) (rev rs))"

definition settled_seqs_of :: "wal_record list \<Rightarrow> int list" where
  "settled_seqs_of rs = concat (map (\<lambda>r. case r of Settled n \<Rightarrow> [n] | _ \<Rightarrow> []) rs)"

definition steady_effects :: "wal_record list \<Rightarrow> effect list" where
  "steady_effects rs =
     (let tail = (if Activation_Complete \<in> set rs then records_after (\<lambda>r. r = Activation_Complete) rs else []);
          steady = records_after (\<lambda>r. r = Run_Complete) tail
      in filter (\<lambda>e. \<not> (ef_kind e = ''emission'' \<and> ef_seq e \<in> set (settled_seqs_of rs))) (effects_of steady))"

definition steady_residue :: "'w adapter \<Rightarrow> wal_record list \<Rightarrow> (string, int list) pydict \<Rightarrow> effect list" where
  "steady_residue ad rs callers = filter (\<lambda>e. referent_key ad e \<noteq> None) (fst (split_nested (steady_effects rs) rs callers))"

text \<open>The deferral queue: an approved emission with no flush is owed, one never approved was dropped.\<close>

datatype deferral = Fired | Owed_Failed | Owed_Unattempted | Dropped

definition last_approved_at :: "wal_record list \<Rightarrow> nat option" where
  "last_approved_at rs = (if Commit_Approved \<in> set rs then Some (length rs - 1 - length (records_after (\<lambda>r. r = Commit_Approved) rs)) else None)"

definition deferral_of :: "wal_record list \<Rightarrow> nat \<Rightarrow> deferred \<Rightarrow> deferral" where
  "deferral_of rs i d = (if (case last_approved_at rs of None \<Rightarrow> True | Some a \<Rightarrow> i > a) then Dropped
     else if df_seq d \<in> set (flushed_of rs) then Fired
     else if df_seq d \<in> set (flush_failed_of rs) then Owed_Failed
     else Owed_Unattempted)"

definition deferral_crosscheck :: "wal_record list \<Rightarrow> (int \<times> deferral) list" where
  "deferral_crosscheck rs = concat (map (\<lambda>(i, r). case r of Deferred d \<Rightarrow> [(df_seq d, deferral_of rs i d)] | _ \<Rightarrow> []) (enumerate 0 rs))"

definition owed_deferrals :: "wal_record list \<Rightarrow> int list" where
  "owed_deferrals rs = map fst (filter (\<lambda>(n, k). k \<in> {Owed_Failed, Owed_Unattempted}) (deferral_crosscheck rs))"

definition rolled_forward_clean :: "'w adapter \<Rightarrow> wal_record list \<Rightarrow> (string, int list) pydict \<Rightarrow> bool" where
  "rolled_forward_clean ad rs callers \<longleftrightarrow> steady_residue ad rs callers = [] \<and> owed_deferrals rs = []"


subsection \<open>Shared grants\<close>

text \<open>The inverse of a handle that still has holders is run once, fenced by the handle.\<close>

datatype reclaim_outcome = Reclaimed | Reclaim_Failed | Reclaim_Unknown

record 'w reclaims = "'w run" +
  rc_rows :: "(string \<times> nat \<times> reclaim_outcome) list"

definition completed_handles :: "wal_record list \<Rightarrow> string list" where
  "completed_handles rs = concat (map (\<lambda>r. case r of Shared_Complete h \<Rightarrow> [h] | _ \<Rightarrow> []) rs)"

definition fenced_handles :: "wal_record list \<Rightarrow> string list" where
  "fenced_handles rs = concat (map (\<lambda>r. case r of Shared_Fence h \<Rightarrow> [h] | _ \<Rightarrow> []) rs)"

definition latest_grants :: "wal_record list \<Rightarrow> (string, shared_grant) pydict" where
  "latest_grants rs = dict_of (concat (map (\<lambda>r. case r of Shared_Grant g \<Rightarrow> [(sg_handle g, g)] | _ \<Rightarrow> []) rs))"

definition visit_grant :: "'w adapter \<Rightarrow> wal_record list \<Rightarrow> string \<times> shared_grant \<Rightarrow> 'w reclaims \<Rightarrow> 'w reclaims" where
  "visit_grant ad rs hg s = (case hg of (h, g) \<Rightarrow> let n = length (sg_holders g) in
      if h \<in> set (completed_handles rs) then s
      else if h \<in> set (fenced_handles rs) then s\<lparr>rc_rows := rc_rows s @ [(h, n, Reclaim_Unknown)]\<rparr>
      else if sg_holders g = [] then s
      else if \<not> ad_calls ad then s\<lparr>rc_rows := rc_rows s @ [(h, n, Reclaim_Failed)]\<rparr>
      else case make_call (ad_inverse ad) (Grant_Of h) (sg_inverse g) (if ad_real ad then log_record (Shared_Fence h) s else s) of
        (Some m, s) \<Rightarrow> s\<lparr>rc_rows := rc_rows s @ [(h, n, Reclaim_Failed)]\<rparr>
      | (None, s) \<Rightarrow> s\<lparr>rc_rows := rc_rows s @ [(h, n, Reclaimed)]\<rparr>)"

definition recover_shared_grants :: "'w adapter \<Rightarrow> wal_record list \<Rightarrow> 'w \<Rightarrow> 'w reclaims" where
  "recover_shared_grants ad rs w = fold (visit_grant ad rs) (sort_key fst (latest_grants rs))
     \<lparr>rv_world = w, rv_events = [], rv_raised = None, rv_out = [], rc_rows = []\<rparr>"


subsection \<open>The decision\<close>

datatype verdict = Fork_Retired | Rolled_Forward | Window | Rolled_Back

definition recovery_verdict :: "wal_record list \<Rightarrow> verdict" where
  "recovery_verdict rs = (if Fork_Frozen \<in> set rs then Fork_Retired else if Activation_Complete \<in> set rs then Rolled_Forward
     else if Commit_Approved \<in> set rs then Window else Rolled_Back)"

text \<open>What one run writes and calls, in order.  A raise that the rollback does not catch ends the run.\<close>

definition main_run :: "'w adapter \<Rightarrow> string option \<Rightarrow> wal_record list \<Rightarrow> (string, int list) pydict \<Rightarrow> 'w \<Rightarrow> event list \<times> string option \<times> 'w" where
  "main_run ad strength rs callers w = (case recovery_verdict rs of
     Window \<Rightarrow> let s = roll_forward_window ad strength rs w in (rv_events s, None, rv_world s)
   | Rolled_Back \<Rightarrow> let s = roll_back ad rs callers w in (rv_events s, rv_raised s, rv_world s)
   | _ \<Rightarrow> ([], None, w))"

definition recover_events :: "'w adapter \<Rightarrow> string option \<Rightarrow> wal_record list \<Rightarrow> (string, int list) pydict \<Rightarrow> 'w \<Rightarrow> event list" where
  "recover_events ad strength rs callers w =
     (if recovery_verdict rs = Fork_Retired then []
      else case main_run ad strength rs callers w of
        (es, Some m, w) \<Rightarrow> es
      | (es, None, w) \<Rightarrow> es @ rv_events (recover_shared_grants ad rs w))"


subsection \<open>The model world\<close>

text \<open>A set of durable referents: the inverse of a removing verb takes its referent out, every other call leaves a record.\<close>

definition removing_verbs :: "string list" where
  "removing_verbs = [''remove'', ''delete'', ''unlink'', ''drop'', ''close'', ''release'', ''undo'', ''revoke'', ''rollback'', ''compensate'', ''pop'']"

fun infix_of :: "string \<Rightarrow> string \<Rightarrow> bool" where
  "infix_of v [] \<longleftrightarrow> v = []"
| "infix_of v (c # cs) \<longleftrightarrow> take (length v) (c # cs) = v \<or> infix_of v cs"

definition world_key :: "call \<Rightarrow> string" where
  "world_key c = call_receiver c @ '':'' @ (case call_args c of [] \<Rightarrow> [] | a # as \<Rightarrow> a)"

definition put_key :: "string \<Rightarrow> string list \<Rightarrow> string list" where
  "put_key k w = (if k \<in> set w then w else w @ [k])"

definition dict_inverse :: "call \<Rightarrow> string list \<Rightarrow> string list" where
  "dict_inverse c w = (if list_ex (\<lambda>v. infix_of v (py_lower (call_method c))) removing_verbs then removeAll (world_key c) w
     else put_key (''compensation:'' @ world_key c) w)"

definition dict_world :: "(effect \<Rightarrow> string) \<Rightarrow> string list adapter" where
  "dict_world own = \<lparr>ad_real = False, ad_calls = True, ad_key = world_key, ad_own = own, ad_seed = put_key,
     ad_inverse = (\<lambda>c w. (None, dict_inverse c w)), ad_compensate = (\<lambda>c w. (None, put_key (''compensation:'' @ world_key c) w)),
     ad_reissue = (\<lambda>c w. (None, put_key (''reissued:'' @ world_key c) w))\<rparr>"

definition world_remaining :: "string list \<Rightarrow> string list" where
  "world_remaining w = sort (filter (\<lambda>k. take 13 k \<noteq> ''compensation:'' \<and> take 9 k \<noteq> ''reissued:'') w)"

end
