(* ===== verification/Recovery_Properties.thy ===== *)
theory Recovery_Properties
  imports Recovery "HOL-Library.Multiset" "HOL-Library.Sublist"
begin

section \<open>Properties of crash recovery\<close>

text \<open>
  At most one attempt of a fenced call over any number of recoveries that crash anywhere, only owed calls
  at all, newest first, and nothing of the log unaccounted for.
\<close>

subsection \<open>The events of one visit\<close>

definition called :: "obligation \<Rightarrow> event list \<Rightarrow> nat" where
  "called ob es = length (filter (\<lambda>e. case e of Called b c \<Rightarrow> b = ob | Logged r \<Rightarrow> False) es)"

lemma called_simps [simp]: "called ob [] = 0" "called ob (es @ fs) = called ob es + called ob fs"
  "called ob (Logged r # es) = called ob es" "called ob (Called b c # es) = (if b = ob then Suc (called ob es) else called ob es)"
  by (simp_all add: called_def)

lemma called_0: "called ob es = 0 \<longleftrightarrow> (\<forall>c. Called ob c \<notin> set es)"
  by (auto simp: called_def filter_empty_conv split: event.splits)

definition logs_of :: "event list \<Rightarrow> wal_record list" where
  "logs_of es = concat (map (\<lambda>e. case e of Logged r \<Rightarrow> [r] | Called b c \<Rightarrow> []) es)"

lemma logged_simps [simp]: "logs_of [] = []" "logs_of (es @ fs) = logs_of es @ logs_of fs" "logs_of (Logged r # es) = r # logs_of es"
  "logs_of (Called b c # es) = logs_of es"
  by (simp_all add: logs_of_def)

lemma run_simps [simp]:
  "rv_events (owe k ob a out s) = rv_events s" "rv_raised (owe k ob a out s) = rv_raised s"
  "rv_events (seed_world ad ref s) = rv_events s" "rv_raised (seed_world ad ref s) = rv_raised s" "rv_out (seed_world ad ref s) = rv_out s"
  "rv_events (log_record r s) = rv_events s @ [Logged r]" "rv_raised (log_record r s) = rv_raised s" "rv_out (log_record r s) = rv_out s"
  "rv_events (snd (make_call f ob c s)) = rv_events s @ [Called ob c]" "rv_raised (snd (make_call f ob c s)) = rv_raised s"
  "rv_out (snd (make_call f ob c s)) = rv_out s"
  by (simp_all add: owe_def seed_world_def log_record_def make_call_def split: prod.splits)

lemma fenced_simps [simp]:
  "rv_fenced (owe k ob a out s) = rv_fenced s" "rv_fenced (seed_world ad ref s) = rv_fenced s" "rv_fenced (log_record r s) = rv_fenced s"
  "rv_fenced (snd (make_call f ob c s)) = rv_fenced s"
  by (simp_all add: owe_def seed_world_def log_record_def make_call_def split: prod.splits)

definition fence_events :: "'w adapter \<Rightarrow> bool \<Rightarrow> int \<Rightarrow> event list" where
  "fence_events ad fenced n = (if fenced \<and> ad_real ad then [Logged (Replay_Fence n)] else [])"

lemma spend_fence_simps [simp]:
  "rv_events (spend_fence ad n s) = rv_events s @ fence_events ad True n" "rv_raised (spend_fence ad n s) = rv_raised s"
  "rv_fenced (spend_fence ad n s) = (if ad_real ad then insert n (rv_fenced s) else rv_fenced s)" "rv_out (spend_fence ad n s) = rv_out s"
  by (simp_all add: spend_fence_def fence_events_def)

text \<open>What one visit appends: nothing, or a call, after its fence where the tier demands one.\<close>

inductive visited :: "'w adapter \<Rightarrow> int \<Rightarrow> replay_tier \<Rightarrow> call \<Rightarrow> 'w recovery \<Rightarrow> 'w recovery \<Rightarrow> bool" for ad n tier c s s' where
  silent: "rv_events s' = rv_events s \<Longrightarrow> rv_fenced s' = rv_fenced s \<Longrightarrow> visited ad n tier c s s'"
| made: "\<not> (tier = Fenced_Tier \<and> n \<in> rv_fenced s) \<Longrightarrow> rv_events s' = rv_events s @ fence_events ad (tier = Fenced_Tier) n @ [Called (Inverse_Of n) c]
    \<Longrightarrow> rv_fenced s' = (if tier = Fenced_Tier \<and> ad_real ad then insert n (rv_fenced s) else rv_fenced s) \<Longrightarrow> visited ad n tier c s s'"

lemma make_callD:
  assumes "make_call f ob c s = (err, s')"
  shows "rv_events s' = rv_events s @ [Called ob c]" "rv_raised s' = rv_raised s" "rv_out s' = rv_out s"
  using assms by (auto simp: make_call_def split: prod.splits)

lemma make_call_fenced: "make_call f ob c s = (err, s') \<Longrightarrow> rv_fenced s' = rv_fenced s"
  by (auto simp: make_call_def split: prod.splits)

lemma fence_then_call:
  assumes "make_call f (Inverse_Of n) c (if tier = Fenced_Tier then spend_fence ad n s else s) = (err, s')"
  shows "rv_events s' = rv_events s @ fence_events ad (tier = Fenced_Tier) n @ [Called (Inverse_Of n) c]"
    "rv_fenced s' = (if tier = Fenced_Tier \<and> ad_real ad then insert n (rv_fenced s) else rv_fenced s)"
    "rv_raised s' = rv_raised s" "rv_out s' = rv_out s"
  using make_callD [OF assms] make_call_fenced [OF assms] by (auto simp: fence_events_def)

lemma run_boundary_inverse_made:
  assumes "\<not> (tier = Fenced_Tier \<and> ef_seq e \<in> rv_fenced s)"
  shows "visited ad (ef_seq e) tier c s (run_boundary_inverse ad e c tier s)"
proof -
  obtain err s' where m: "make_call (ad_inverse ad) (Inverse_Of (ef_seq e)) c (if tier = Fenced_Tier then spend_fence ad (ef_seq e) s else s) = (err, s')"
    by fastforce
  show ?thesis by (rule visited.made [OF assms]) (use fence_then_call [OF m] m in \<open>auto simp: run_boundary_inverse_def split: option.splits\<close>)
qed

lemma run_transactional_made:
  assumes "\<not> (tier = Fenced_Tier \<and> ds_seq d \<in> rv_fenced s)"
  shows "visited ad (ds_seq d) tier (ds_call d) s (run_transactional ad d tier s)"
proof -
  obtain err s' where m: "make_call (ad_inverse ad) (Inverse_Of (ds_seq d)) (ds_call d) (if tier = Fenced_Tier then spend_fence ad (ds_seq d) s else s) = (err, s')"
    by fastforce
  show ?thesis
    by (rule visited.made [OF assms]) (use fence_then_call [OF m] m in \<open>auto simp: run_transactional_def owe_def split: option.splits\<close>)
qed

lemma visit_effect_visited:
  "visit_effect ad p e s = s' \<Longrightarrow> (rv_events s' = rv_events s \<and> rv_fenced s' = rv_fenced s)
     \<or> (\<exists>c idem reg. ef_inverse e = Named c idem reg \<and> referent_key ad e \<noteq> None \<and> visited ad (ef_seq e) (replay_tier_of reg idem) c s s')"
proof -
  assume s': "visit_effect ad p e s = s'"
  show ?thesis
  proof (cases "rv_raised s = None \<and> described p e = None \<and> offset_by p e = None \<and> referent_key ad e \<noteq> None \<and> ad_calls ad \<and> ef_inverse e \<noteq> Closure")
    case False
    then show ?thesis unfolding s' [symmetric] visit_effect_def by (auto split: option.splits inverse.splits)
  next
    case True
    then obtain c idem reg where n: "ef_inverse e = Named c idem reg" by (cases "ef_inverse e") auto
    let ?tier = "replay_tier_of reg idem"
    show ?thesis
    proof (cases "?tier = Fenced_Tier \<and> ef_seq e \<in> rv_fenced s")
      case t: True
      then show ?thesis using True n unfolding s' [symmetric] visit_effect_def by (simp add: Let_def)
    next
      case f: False
      then have "s' = run_boundary_inverse ad e c ?tier s"
        using True n unfolding s' [symmetric] visit_effect_def Let_def by (simp only: if_not_P if_P option.case inverse.case simp_thms)
      then show ?thesis using run_boundary_inverse_made [OF f, of ad c] True n by auto
    qed
  qed
qed

lemma visit_transactional_visited:
  "visit_transactional ad discharged ab d s = s' \<Longrightarrow> (rv_events s' = rv_events s \<and> rv_fenced s' = rv_fenced s)
     \<or> (ds_seq d \<notin> set discharged \<and> \<not> has_redacted_arg (ds_call d) \<and> visited ad (ds_seq d) (replay_tier_of (ds_register d) (ds_idempotent d)) (ds_call d) s s')"
proof -
  assume s': "visit_transactional ad discharged ab d s = s'"
  let ?tier = "replay_tier_of (ds_register d) (ds_idempotent d)"
  show ?thesis
  proof (cases "ds_seq d \<notin> set discharged \<and> \<not> (?tier = Fenced_Tier \<and> ds_seq d \<in> rv_fenced s) \<and> \<not> has_redacted_arg (ds_call d)")
    case False
    then show ?thesis unfolding s' [symmetric] visit_transactional_def Let_def by auto
  next
    case True
    then have "s' = run_transactional ad d ?tier s" unfolding s' [symmetric] visit_transactional_def Let_def by auto
    then show ?thesis using run_transactional_made [of ?tier d s ad] True by auto
  qed
qed

lemma visit_compensation_events:
  "visit_compensation ad discharged p d s = s' \<Longrightarrow> rv_events s' = rv_events s
     \<or> (ds_seq d \<notin> set discharged \<and> ds_seq d \<notin> pr_ran_by_abort p \<and> \<not> has_redacted_arg (ds_call d) \<and> rv_events s' = rv_events s @ [Called (Compensation_Of (ds_seq d)) (ds_call d)])"
proof -
  assume s': "visit_compensation ad discharged p d s = s'"
  obtain err t where m: "make_call (ad_compensate ad) (Compensation_Of (ds_seq d)) (ds_call d) s = (err, t)" by fastforce
  have "rv_events t = rv_events s @ [Called (Compensation_Of (ds_seq d)) (ds_call d)]" by (rule make_callD [OF m])
  then show ?thesis using m unfolding s' [symmetric] visit_compensation_def by (auto simp: owe_def split: option.splits)
qed



subsection \<open>A fence before every fenced call\<close>

definition single :: "obligation \<Rightarrow> wal_record \<Rightarrow> event list \<Rightarrow> bool" where
  "single ob f es \<longleftrightarrow> called ob es = 0 \<or> (\<exists>xs c ys. es = xs @ [Logged f, Called ob c] @ ys \<and> called ob xs = 0 \<and> called ob ys = 0)"

lemma single_none [simp]: "called ob es = 0 \<Longrightarrow> single ob f es"
  by (simp add: single_def)

lemma single_made: "called ob es = 0 \<Longrightarrow> single ob f (es @ [Logged f, Called ob c])"
  unfolding single_def by (intro disjI2 exI [of _ es] exI [of _ c] exI [of _ "[]"]) simp

lemma singleD: "single ob f es \<Longrightarrow> called ob es \<noteq> 0 \<Longrightarrow> \<exists>xs c ys. es = xs @ [Logged f, Called ob c] @ ys \<and> called ob xs = 0 \<and> called ob ys = 0"
  unfolding single_def by (elim disjE) simp_all

lemma single_append:
  assumes "single ob f es" "single ob f fs" "called ob es = 0 \<or> called ob fs = 0"
  shows "single ob f (es @ fs)"
proof (cases "called ob es = 0")
  case True
  show ?thesis
  proof (cases "called ob fs = 0")
    case False
    then obtain xs c ys where "fs = xs @ [Logged f, Called ob c] @ ys" "called ob xs = 0" "called ob ys = 0" using singleD [OF assms(2) False] by blast
    then show ?thesis using True unfolding single_def by (intro disjI2 exI [of _ "es @ xs"] exI [of _ c] exI [of _ ys]) simp
  qed (use True in simp)
next
  case False
  then obtain xs c ys where "es = xs @ [Logged f, Called ob c] @ ys" "called ob xs = 0" "called ob ys = 0" using singleD [OF assms(1) False] by blast
  then show ?thesis using False assms(3) unfolding single_def by (intro disjI2 exI [of _ xs] exI [of _ c] exI [of _ "ys @ fs"]) simp
qed

lemma single_prefix: "single ob f es \<Longrightarrow> called ob (take k es) \<le> 1 \<and> (called ob (take k es) \<noteq> 0 \<longrightarrow> f \<in> set (logs_of (take k es)))"
proof -
  assume s: "single ob f es"
  have le: "called ob (take k xs) \<le> called ob xs" for xs k
    using called_simps(2) [of ob "take k xs" "drop k xs"] by simp
  show ?thesis
  proof (cases "called ob es = 0")
    case True
    then show ?thesis using le [of k es] by simp
  next
    case False
    then obtain xs c ys where e: "es = xs @ [Logged f, Called ob c] @ ys" "called ob xs = 0" "called ob ys = 0" using singleD [OF s False] by blast
    have "called ob (take k es) \<le> 1" using le [of k es] e by simp
    moreover have "f \<in> set (logs_of (take k es))" if "called ob (take k es) \<noteq> 0"
    proof -
      have "length xs < k" using that le [of k xs] e by (cases "k - length xs") auto
      then obtain j where "k = Suc (length xs + j)" using less_imp_Suc_add by blast
      then show ?thesis using e(1) by simp
    qed
    ultimately show ?thesis by blast
  qed
qed

text \<open>The invariant of a rollback over one number, given the fences the log started with.\<close>

definition fence_held :: "int \<Rightarrow> int set \<Rightarrow> 'w recovery \<Rightarrow> bool" where
  "fence_held n F s \<longleftrightarrow> single (Inverse_Of n) (Replay_Fence n) (rv_events s) \<and> (n \<notin> rv_fenced s \<longrightarrow> called (Inverse_Of n) (rv_events s) = 0)
     \<and> (n \<in> F \<longrightarrow> n \<in> rv_fenced s \<and> called (Inverse_Of n) (rv_events s) = 0)"

lemma visited_held:
  assumes "ad_real ad" "m = n \<Longrightarrow> tier = Fenced_Tier" "visited ad m tier c s s'" "fence_held n F s"
  shows "fence_held n F s'"
  using assms(3)
proof cases
  case silent
  then show ?thesis using assms(4) by (simp add: fence_held_def)
next
  case made
  show ?thesis
  proof (cases "m = n")
    case True
    then have "n \<notin> rv_fenced s" using made(1) assms(2) by simp
    then show ?thesis using made assms True single_made [of "Inverse_Of n" "rv_events s" "Replay_Fence n" c] by (simp add: fence_held_def fence_events_def)
  next
    case False
    have "called (Inverse_Of n) (fence_events ad (tier = Fenced_Tier) m @ [Called (Inverse_Of m) c]) = 0" using False by (simp add: fence_events_def)
    then show ?thesis using made(2,3) assms(4) False single_append [of "Inverse_Of n" "Replay_Fence n" "rv_events s"] by (auto simp: fence_held_def)
  qed
qed

definition fenced_inverse :: "wal_record list \<Rightarrow> int \<Rightarrow> bool" where
  "fenced_inverse rs n \<longleftrightarrow>
     list_all (\<lambda>e. ef_seq e = n \<longrightarrow> (case ef_inverse e of Named c idem reg \<Rightarrow> replay_tier_of reg idem = Fenced_Tier | Closure \<Rightarrow> True)) (effects_of rs)
     \<and> list_all (\<lambda>d. ds_seq d = n \<longrightarrow> replay_tier_of (ds_register d) (ds_idempotent d) = Fenced_Tier) (of_entry Transactional (descriptors_of rs))"

lemma seed_effects_same:
  "rv_events (seed_effects ad p es s) = rv_events s \<and> rv_fenced (seed_effects ad p es s) = rv_fenced s \<and> rv_raised (seed_effects ad p es s) = rv_raised s"
  unfolding seed_effects_def by (induction es arbitrary: s) (auto split: option.splits)

lemma seed_descriptors_same:
  "rv_events (seed_descriptors ad p ds s) = rv_events s \<and> rv_fenced (seed_descriptors ad p ds s) = rv_fenced s \<and> rv_raised (seed_descriptors ad p ds s) = rv_raised s"
  unfolding seed_descriptors_def by (induction ds arbitrary: s) auto

lemmas seeds_same = seed_effects_same [THEN conjunct1] seed_effects_same [THEN conjunct2, THEN conjunct1] seed_effects_same [THEN conjunct2, THEN conjunct2]
  seed_descriptors_same [THEN conjunct1] seed_descriptors_same [THEN conjunct2, THEN conjunct1] seed_descriptors_same [THEN conjunct2, THEN conjunct2]

lemma visit_compensation_fenced: "rv_fenced (visit_compensation ad discharged p d s) = rv_fenced s"
proof -
  obtain err t where m: "make_call (ad_compensate ad) (Compensation_Of (ds_seq d)) (ds_call d) s = (err, t)" by fastforce
  show ?thesis using make_call_fenced [OF m] m unfolding visit_compensation_def by (auto simp: owe_def split: option.splits)
qed

lemma fold_held: "(\<And>x s. x \<in> set xs \<Longrightarrow> P s \<Longrightarrow> P (f x s)) \<Longrightarrow> P s \<Longrightarrow> P (fold f xs s)"
  by (induction xs arbitrary: s) auto

lemma unchanged_held: "rv_events s' = rv_events s \<Longrightarrow> rv_fenced s' = rv_fenced s \<Longrightarrow> fence_held n F s \<Longrightarrow> fence_held n F s'"
  by (simp add: fence_held_def)

lemma roll_back_held:
  fixes ad :: "'w adapter"
  assumes real: "ad_real ad" and n: "fenced_inverse rs n"
  shows "fence_held n (replay_fences rs) (roll_back ad rs callers w)"
proof -
  let ?es = "fst (split_nested (effects_of rs) rs callers)" and ?ds = "descriptors_of rs" and ?P = "fence_held n (replay_fences rs) :: 'w recovery \<Rightarrow> bool"
  define p where "p = pairing_of rs ?es ?ds"
  define s1 where "s1 = fold (visit_effect ad p) (rev ?es) (seed_effects ad p ?es (recovery_start (replay_fences rs) w))"
  have start: "?P (seed_effects ad p ?es (recovery_start (replay_fences rs) w))" by (simp add: fence_held_def seeds_same recovery_start_def)
  have 1: "?P s1"
    unfolding s1_def
  proof (rule fold_held [where P = ?P])
    fix e :: effect and s :: "'w recovery"
    assume e: "e \<in> set (rev ?es)" "?P s"
    then have tier: "ef_seq e = n \<Longrightarrow> ef_inverse e = Named c idem reg \<Longrightarrow> replay_tier_of reg idem = Fenced_Tier" for c idem reg
      using n unfolding fenced_inverse_def split_nested_def list_all_iff by fastforce
    show "?P (visit_effect ad p e s)"
      using visit_effect_visited [OF refl, of ad p e s]
    proof (elim disjE exE conjE)
      fix c idem reg
      assume v: "ef_inverse e = Named c idem reg" "visited ad (ef_seq e) (replay_tier_of reg idem) c s (visit_effect ad p e s)"
      show ?thesis by (rule visited_held [OF real tier v(2) e(2)]) (use v(1) in simp_all)
    qed (rule unchanged_held [OF _ _ e(2)])
  qed (rule start)
  define s2 where "s2 = fold (visit_transactional ad (discharged_of rs) (list_ex is_aborted rs)) (newest_first (of_entry Transactional ?ds)) (seed_descriptors ad p ?ds s1)"
  have 2: "?P s2"
    unfolding s2_def
  proof (rule fold_held [where P = ?P])
    fix d :: descriptor and s :: "'w recovery"
    assume d: "d \<in> set (newest_first (of_entry Transactional ?ds))" "?P s"
    then have tier: "ds_seq d = n \<Longrightarrow> replay_tier_of (ds_register d) (ds_idempotent d) = Fenced_Tier"
      using n unfolding fenced_inverse_def newest_first_def list_all_iff by auto
    show "?P (visit_transactional ad (discharged_of rs) (list_ex is_aborted rs) d s)"
      using visit_transactional_visited [OF refl, of ad "discharged_of rs" "list_ex is_aborted rs" d s]
    proof (elim disjE conjE)
      assume v: "visited ad (ds_seq d) (replay_tier_of (ds_register d) (ds_idempotent d)) (ds_call d) s (visit_transactional ad (discharged_of rs) (list_ex is_aborted rs) d s)"
      show ?thesis by (rule visited_held [OF real tier v d(2)])
    qed (rule unchanged_held [OF _ _ d(2)])
  qed (use 1 in \<open>simp add: fence_held_def seeds_same\<close>)
  have 3: "?P (fold (visit_compensation ad (discharged_of rs) p) (newest_first (of_entry Compensation ?ds)) s2)"
  proof (rule fold_held [where P = ?P])
    fix d :: descriptor and s :: "'w recovery"
    assume d: "?P s"
    have "rv_fenced (visit_compensation ad (discharged_of rs) p d s) = rv_fenced s" by (rule visit_compensation_fenced)
    then show "?P (visit_compensation ad (discharged_of rs) p d s)"
      using visit_compensation_events [OF refl, of ad "discharged_of rs" p d s] d single_append [of "Inverse_Of n" "Replay_Fence n" "rv_events s"] by (auto simp: fence_held_def)
  qed (rule 2)
  have "roll_back ad rs callers w = (if rv_raised s1 \<noteq> None then s1 else fold (visit_compensation ad (discharged_of rs) p) (newest_first (of_entry Compensation ?ds)) s2)"
    unfolding roll_back_def Let_def s2_def s1_def p_def by (rule refl)
  then show ?thesis using 1 3 by simp
qed


text \<open>Visits that call once per element, for the emissions of a window and the shared handles.\<close>

lemma fold_once:
  fixes f :: "'x \<Rightarrow> ('w, 'z) run_scheme \<Rightarrow> ('w, 'z) run_scheme"
  assumes step: "\<And>x s. x \<in> set xs \<Longrightarrow> rv_events (f x s) = rv_events s \<or> (ok x \<and> (\<exists>c. rv_events (f x s) = rv_events s @ [Logged (fe x), Called (k x) c]))"
    and fe: "\<And>x. x \<in> set xs \<Longrightarrow> k x = ob \<Longrightarrow> fe x = F" and one: "length (filter (\<lambda>x. k x = ob) xs) \<le> 1"
  shows "\<exists>es. rv_events (fold f xs s) = rv_events s @ es \<and> single ob F es \<and> ((\<forall>x \<in> set xs. k x = ob \<longrightarrow> \<not> ok x) \<longrightarrow> called ob es = 0)"
  using assms
proof (induction xs arbitrary: s)
  case (Cons x xs)
  have "length (filter (\<lambda>x. k x = ob) xs) \<le> 1" using Cons.prems(3) by (auto split: if_splits)
  then obtain es where es: "rv_events (fold f xs (f x s)) = rv_events (f x s) @ es" "single ob F es" "(\<forall>x \<in> set xs. k x = ob \<longrightarrow> \<not> ok x) \<longrightarrow> called ob es = 0"
    using Cons.IH [of "f x s"] Cons.prems(1,2) by auto
  consider "rv_events (f x s) = rv_events s" | c where "ok x" "rv_events (f x s) = rv_events s @ [Logged (fe x), Called (k x) c]"
    using Cons.prems(1) [of x s] by auto
  then show ?case
  proof cases
    case 1
    then show ?thesis using es by (intro exI [of _ es]) auto
  next
    case (2 c)
    have rest: "called ob es = 0" if "k x = ob"
    proof -
      have "filter (\<lambda>x. k x = ob) xs = []" using Cons.prems(3) that by simp
      then show ?thesis using es(3) by (auto simp: filter_empty_conv)
    qed
    have "single ob F ([Logged (fe x), Called (k x) c] @ es)"
    proof (cases "k x = ob")
      case True
      then show ?thesis using single_append [OF single_made [of ob "[]" F c] es(2)] rest Cons.prems(2) [of x] by simp
    next
      case False
      then show ?thesis using single_append [OF _ es(2), of "[Logged (fe x), Called (k x) c]"] by simp
    qed
    then show ?thesis using es(1,3) 2 by (intro exI [of _ "[Logged (fe x), Called (k x) c] @ es"]) auto
  qed
qed simp

lemma reissue_owed_events:
  assumes "ad_real ad"
  shows "rv_events (reissue_owed ad d s) = rv_events s
    \<or> (\<exists>c. rv_events (reissue_owed ad d s) = rv_events s @ [Logged (Reissue_Fence (df_seq d)), Called (Emission_Of (df_seq d)) c])"
proof -
  obtain err t where m: "make_call (ad_reissue ad) (Emission_Of (df_seq d)) (df_call d) (log_record (Reissue_Fence (df_seq d)) s) = (err, t)" by fastforce
  have "rv_events t = rv_events s @ [Logged (Reissue_Fence (df_seq d)), Called (Emission_Of (df_seq d)) (df_call d)]" using make_callD(1) [OF m] by simp
  then show ?thesis using m assms unfolding reissue_owed_def by (auto simp: owe_def split: option.splits)
qed

lemma visit_deferred_events:
  assumes "ad_real ad"
  shows "rv_events (visit_deferred ad st rs d s) = rv_events s
    \<or> ((redispatch_free (df_register d) \<or> df_seq d \<notin> set (reissue_fences rs))
       \<and> (\<exists>c. rv_events (visit_deferred ad st rs d s) = rv_events s @ [Logged (Reissue_Fence (df_seq d)), Called (Emission_Of (df_seq d)) c]))"
  using reissue_owed_events [OF assms, of d s] unfolding visit_deferred_def Let_def by (auto simp: owe_def)

definition fenced_emission :: "wal_record list \<Rightarrow> int \<Rightarrow> bool" where
  "fenced_emission rs n \<longleftrightarrow> list_all (\<lambda>d. df_seq d = n \<longrightarrow> \<not> redispatch_free (df_register d)) (deferred_of rs)
     \<and> length (filter (\<lambda>d. df_seq d = n) (deferred_of rs)) \<le> 1"

lemma window_single:
  assumes real: "ad_real ad" and n: "fenced_emission rs n"
  shows "single (Emission_Of n) (Reissue_Fence n) (rv_events (roll_forward_window ad st rs w))
    \<and> (n \<in> set (reissue_fences rs) \<longrightarrow> called (Emission_Of n) (rv_events (roll_forward_window ad st rs w)) = 0)"
proof -
  define s where "s = (if owed_discharge rs = [] then window_start w else log_record (Discharge (owed_discharge rs)) (window_start w))"
  have s: "called (Emission_Of n) (rv_events s) = 0" by (simp add: s_def window_start_def)
  have "\<exists>es. rv_events (fold (visit_deferred ad st rs) (deferred_of rs) s) = rv_events s @ es \<and> single (Emission_Of n) (Reissue_Fence n) es
      \<and> ((\<forall>d \<in> set (deferred_of rs). Emission_Of (df_seq d) = Emission_Of n \<longrightarrow> \<not> (redispatch_free (df_register d) \<or> df_seq d \<notin> set (reissue_fences rs))) \<longrightarrow> called (Emission_Of n) es = 0)"
    by (rule fold_once [where fe = "\<lambda>d. Reissue_Fence (df_seq d)"]) (use visit_deferred_events [OF real] n in \<open>auto simp: fenced_emission_def\<close>)
  then obtain es where es: "rv_events (fold (visit_deferred ad st rs) (deferred_of rs) s) = rv_events s @ es" "single (Emission_Of n) (Reissue_Fence n) es"
      "(\<forall>d \<in> set (deferred_of rs). df_seq d = n \<longrightarrow> \<not> (redispatch_free (df_register d) \<or> df_seq d \<notin> set (reissue_fences rs))) \<longrightarrow> called (Emission_Of n) es = 0"
    by auto
  have "called (Emission_Of n) es = 0" if "n \<in> set (reissue_fences rs)"
    using es(3) that n unfolding fenced_emission_def list_all_iff by blast
  moreover have "roll_forward_window ad st rs w = fold (visit_deferred ad st rs) (deferred_of rs) s"
    unfolding roll_forward_window_def Let_def s_def by simp
  ultimately show ?thesis using es single_append [of "Emission_Of n" "Reissue_Fence n" "rv_events s" es] s by simp
qed


lemma visit_grant_events:
  assumes "ad_real ad"
  shows "rv_events (visit_grant ad rs hg s) = rv_events s
    \<or> (fst hg \<notin> set (fenced_handles rs) \<and> (\<exists>c. rv_events (visit_grant ad rs hg s) = rv_events s @ [Logged (Shared_Fence (fst hg)), Called (Grant_Of (fst hg)) c]))"
proof -
  obtain h g where hg: "hg = (h, g)" by fastforce
  obtain err t where m: "make_call (ad_inverse ad) (Grant_Of h) (sg_inverse g) (log_record (Shared_Fence h) s) = (err, t)" by fastforce
  have "rv_events t = rv_events s @ [Logged (Shared_Fence h), Called (Grant_Of h) (sg_inverse g)]" using make_callD(1) [OF m] by simp
  then show ?thesis using m assms unfolding visit_grant_def hg Let_def by (auto split: option.splits)
qed

lemma one_key: "distinct (map fst xs) \<Longrightarrow> length (filter (\<lambda>x. fst x = k) xs) \<le> 1"
proof (induction xs)
  case (Cons x xs)
  have "fst y \<noteq> fst x" if "y \<in> set xs" for y
  proof
    assume eq: "fst y = fst x"
    have "fst y \<in> fst ` set xs" using that by (rule imageI)
    then show False using Cons.prems unfolding eq by simp
  qed
  then have "fst x = k \<Longrightarrow> filter (\<lambda>y. fst y = k) xs = []" by (auto simp: filter_empty_conv)
  then show ?case using Cons by auto
qed simp

lemma grants_distinct: "distinct (map fst (sort_key fst (latest_grants rs)))"
proof -
  have "distinct (map fst (latest_grants rs))" using dict_of_ok unfolding latest_grants_def dict_ok_def by blast
  moreover have "mset (map fst (sort_key fst (latest_grants rs))) = mset (map fst (latest_grants rs))" by simp
  ultimately show ?thesis using mset_eq_imp_distinct_iff by blast
qed

lemma grants_single:
  assumes real: "ad_real ad"
  shows "single (Grant_Of h) (Shared_Fence h) (rv_events (recover_shared_grants ad rs w))
    \<and> (h \<in> set (fenced_handles rs) \<longrightarrow> called (Grant_Of h) (rv_events (recover_shared_grants ad rs w)) = 0)"
proof -
  let ?s = "\<lparr>rv_world = w, rv_events = [], rv_raised = None, rv_out = [], rc_rows = []\<rparr> :: 'a reclaims" and ?gs = "sort_key fst (latest_grants rs)"
  have "\<exists>es. rv_events (fold (visit_grant ad rs) ?gs ?s) = rv_events ?s @ es \<and> single (Grant_Of h) (Shared_Fence h) es
      \<and> ((\<forall>hg \<in> set ?gs. Grant_Of (fst hg) = Grant_Of h \<longrightarrow> fst hg \<in> set (fenced_handles rs)) \<longrightarrow> called (Grant_Of h) es = 0)"
    using fold_once [where f = "visit_grant ad rs" and xs = ?gs and s = ?s and k = "\<lambda>hg. Grant_Of (fst hg)" and fe = "\<lambda>hg. Shared_Fence (fst hg)" and F = "Shared_Fence h"
        and ob = "Grant_Of h" and ok = "\<lambda>hg. fst hg \<notin> set (fenced_handles rs)"] visit_grant_events [OF real, of rs] one_key [OF grants_distinct, of h rs] by auto
  then show ?thesis unfolding recover_shared_grants_def by auto
qed


subsection \<open>Only owed calls\<close>

inductive owed :: "string option \<Rightarrow> wal_record list \<Rightarrow> obligation \<Rightarrow> call \<Rightarrow> bool" for strength rs where
  boundary: "recovery_verdict rs = Rolled_Back \<Longrightarrow> Effect e \<in> set rs \<Longrightarrow> ef_inverse e = Named c idem reg \<Longrightarrow> outlives (ef_life e) \<Longrightarrow> owed strength rs (Inverse_Of (ef_seq e)) c"
| transaction: "recovery_verdict rs = Rolled_Back \<Longrightarrow> Descriptor d \<in> set rs \<Longrightarrow> ds_entry d = Transactional \<Longrightarrow> ds_seq d \<notin> set (discharged_of rs)
    \<Longrightarrow> \<not> has_redacted_arg (ds_call d) \<Longrightarrow> owed strength rs (Inverse_Of (ds_seq d)) (ds_call d)"
| compensation: "recovery_verdict rs = Rolled_Back \<Longrightarrow> Descriptor d \<in> set rs \<Longrightarrow> ds_entry d = Compensation \<Longrightarrow> ds_seq d \<notin> set (discharged_of rs)
    \<Longrightarrow> ds_seq d \<notin> set (aborted_of rs) \<Longrightarrow> \<not> has_redacted_arg (ds_call d) \<Longrightarrow> owed strength rs (Compensation_Of (ds_seq d)) (ds_call d)"
| emission: "recovery_verdict rs = Window \<Longrightarrow> Deferred d \<in> set rs \<Longrightarrow> df_seq d \<notin> set (flushed_of rs) \<Longrightarrow> df_seq d \<notin> set (flush_failed_of rs)
    \<Longrightarrow> reissue_permitted (df_register d) strength \<Longrightarrow> \<not> has_redacted_arg (df_call d) \<Longrightarrow> owed strength rs (Emission_Of (df_seq d)) (df_call d)"

inductive call_owed :: "string option \<Rightarrow> wal_record list \<Rightarrow> obligation \<Rightarrow> call \<Rightarrow> bool" for strength rs where
  main: "owed strength rs ob c \<Longrightarrow> call_owed strength rs ob c"
| grant: "Fork_Frozen \<notin> set rs \<Longrightarrow> Shared_Grant g \<in> set rs \<Longrightarrow> sg_holders g \<noteq> [] \<Longrightarrow> sg_handle g \<notin> set (completed_handles rs)
    \<Longrightarrow> sg_handle g \<notin> set (fenced_handles rs) \<Longrightarrow> call_owed strength rs (Grant_Of (sg_handle g)) (sg_inverse g)"

lemma owed_verdict: "owed strength rs (Inverse_Of n) c \<Longrightarrow> recovery_verdict rs = Rolled_Back" "owed strength rs (Emission_Of n) c \<Longrightarrow> recovery_verdict rs = Window"
  by (auto elim: owed.cases)

inductive_cases owed_grantE: "owed strength rs (Grant_Of h) c"
lemma in_effects: "e \<in> set (effects_of rs) \<longleftrightarrow> Effect e \<in> set rs"
  by (induction rs) (auto simp: effects_of_def split: wal_record.splits)

lemma in_descriptors: "d \<in> set (descriptors_of rs) \<longleftrightarrow> Descriptor d \<in> set rs"
  by (induction rs) (auto simp: descriptors_of_def split: wal_record.splits)

lemma in_deferred: "d \<in> set (deferred_of rs) \<longleftrightarrow> Deferred d \<in> set rs"
  by (induction rs) (auto simp: deferred_of_def split: wal_record.splits)

text \<open>The records a recovery appends change nothing of what is owed but what they fence or discharge.\<close>

fun quiet :: "wal_record \<Rightarrow> bool" where
  "quiet (Replay_Fence n) = True"
| "quiet (Reissue_Fence n) = True"
| "quiet (Shared_Fence h) = True"
| "quiet (Discharge ns) = True"
| "quiet r = False"

fun fine :: "string option \<Rightarrow> wal_record list \<Rightarrow> event \<Rightarrow> bool" where
  "fine strength rs (Called ob c) \<longleftrightarrow> owed strength rs ob c"
| "fine strength rs (Logged r) \<longleftrightarrow> quiet r"

definition all_owed :: "string option \<Rightarrow> wal_record list \<Rightarrow> ('w, 'z) run_scheme \<Rightarrow> bool" where
  "all_owed strength rs s \<longleftrightarrow> (\<forall>e \<in> set (rv_events s). fine strength rs e)"

lemma all_owedD: "all_owed strength rs s \<Longrightarrow> Called ob c \<in> set (rv_events s) \<Longrightarrow> owed strength rs ob c"
  by (auto simp: all_owed_def dest: bspec)

lemma all_owed_same: "rv_events s' = rv_events s \<Longrightarrow> all_owed strength rs s \<Longrightarrow> all_owed strength rs s'"
  by (simp add: all_owed_def)

lemma visited_owed: "visited ad n tier c s s' \<Longrightarrow> owed strength rs (Inverse_Of n) c \<Longrightarrow> all_owed strength rs s \<Longrightarrow> all_owed strength rs s'"
  by (erule visited.cases) (auto simp: all_owed_def fence_events_def)

lemma outlives_referent: "referent_key ad e \<noteq> None \<Longrightarrow> outlives (ef_life e)"
  by (auto simp: referent_key_def split: if_splits)

lemma roll_back_owed:
  fixes ad :: "'w adapter"
  assumes v: "recovery_verdict rs = Rolled_Back"
  shows "all_owed strength rs (roll_back ad rs callers w)"
proof -
  let ?es = "fst (split_nested (effects_of rs) rs callers)" and ?ds = "descriptors_of rs" and ?P = "all_owed strength rs :: 'w recovery \<Rightarrow> bool"
  define p where "p = pairing_of rs ?es ?ds"
  have ab: "pr_ran_by_abort p = set (aborted_of rs)" by (simp add: p_def pairing_of_def)
  define s1 where "s1 = fold (visit_effect ad p) (rev ?es) (seed_effects ad p ?es (recovery_start (replay_fences rs) w))"
  have start: "?P (seed_effects ad p ?es (recovery_start (replay_fences rs) w))" by (simp add: all_owed_def seeds_same recovery_start_def)
  have 1: "?P s1"
    unfolding s1_def
  proof (rule fold_held [where P = ?P])
    fix e :: effect and s :: "'w recovery"
    assume e: "e \<in> set (rev ?es)" "?P s"
    then have e': "Effect e \<in> set rs" by (auto simp: split_nested_def in_effects)
    show "?P (visit_effect ad p e s)"
      using visit_effect_visited [OF refl, of ad p e s]
    proof (elim disjE exE conjE)
      fix c idem reg
      assume n: "ef_inverse e = Named c idem reg" "referent_key ad e \<noteq> None" "visited ad (ef_seq e) (replay_tier_of reg idem) c s (visit_effect ad p e s)"
      show ?thesis by (rule visited_owed [OF n(3) owed.boundary [OF v e' n(1) outlives_referent [OF n(2)]] e(2)])
    qed (rule all_owed_same [OF _ e(2)])
  qed (rule start)
  define s2 where "s2 = fold (visit_transactional ad (discharged_of rs) (list_ex is_aborted rs)) (newest_first (of_entry Transactional ?ds)) (seed_descriptors ad p ?ds s1)"
  have 2: "?P s2"
    unfolding s2_def
  proof (rule fold_held [where P = ?P])
    fix d :: descriptor and s :: "'w recovery"
    assume d: "d \<in> set (newest_first (of_entry Transactional ?ds))" "?P s"
    then have d': "Descriptor d \<in> set rs" "ds_entry d = Transactional" by (auto simp: newest_first_def of_entry_def in_descriptors)
    show "?P (visit_transactional ad (discharged_of rs) (list_ex is_aborted rs) d s)"
      using visit_transactional_visited [OF refl, of ad "discharged_of rs" "list_ex is_aborted rs" d s]
    proof (elim disjE conjE)
      assume n: "ds_seq d \<notin> set (discharged_of rs)" "\<not> has_redacted_arg (ds_call d)"
          "visited ad (ds_seq d) (replay_tier_of (ds_register d) (ds_idempotent d)) (ds_call d) s (visit_transactional ad (discharged_of rs) (list_ex is_aborted rs) d s)"
      show ?thesis by (rule visited_owed [OF n(3) owed.transaction [OF v d' n(1,2)] d(2)])
    qed (rule all_owed_same [OF _ d(2)])
  qed (use 1 in \<open>simp add: all_owed_def seeds_same\<close>)
  have 3: "?P (fold (visit_compensation ad (discharged_of rs) p) (newest_first (of_entry Compensation ?ds)) s2)"
  proof (rule fold_held [where P = ?P])
    fix d :: descriptor and s :: "'w recovery"
    assume d: "d \<in> set (newest_first (of_entry Compensation ?ds))" "?P s"
    then have d': "Descriptor d \<in> set rs" "ds_entry d = Compensation" by (auto simp: newest_first_def of_entry_def in_descriptors)
    show "?P (visit_compensation ad (discharged_of rs) p d s)"
      using visit_compensation_events [OF refl, of ad "discharged_of rs" p d s] d(2) owed.compensation [OF v d'] by (auto simp: all_owed_def ab)
  qed (rule 2)
  have "roll_back ad rs callers w = (if rv_raised s1 \<noteq> None then s1 else fold (visit_compensation ad (discharged_of rs) p) (newest_first (of_entry Compensation ?ds)) s2)"
    unfolding roll_back_def Let_def s2_def s1_def p_def by (rule refl)
  then show ?thesis using 1 3 by simp
qed


lemma reissue_owed_calls:
  "e \<in> set (rv_events (reissue_owed ad d s)) \<Longrightarrow> e \<in> set (rv_events s) \<or> e = Logged (Reissue_Fence (df_seq d))
     \<or> (e = Called (Emission_Of (df_seq d)) (df_call d) \<and> \<not> has_redacted_arg (df_call d))"
proof -
  assume a: "e \<in> set (rv_events (reissue_owed ad d s))"
  let ?s = "if ad_real ad then log_record (Reissue_Fence (df_seq d)) s else s"
  obtain err t where m: "make_call (ad_reissue ad) (Emission_Of (df_seq d)) (df_call d) ?s = (err, t)" by fastforce
  have "rv_events t = rv_events ?s @ [Called (Emission_Of (df_seq d)) (df_call d)]" by (rule make_callD(1) [OF m])
  then show ?thesis using a m unfolding reissue_owed_def by (auto simp: owe_def log_record_def split: option.splits if_splits)
qed

lemma window_owed:
  fixes ad :: "'w adapter"
  assumes v: "recovery_verdict rs = Window"
  shows "all_owed strength rs (roll_forward_window ad strength rs w)"
proof -
  let ?P = "all_owed strength rs :: 'w window \<Rightarrow> bool"
  have "?P (fold (visit_deferred ad strength rs) (deferred_of rs) (if owed_discharge rs = [] then window_start w else log_record (Discharge (owed_discharge rs)) (window_start w)))"
  proof (rule fold_held [where P = ?P])
    fix d :: deferred and s :: "'w window"
    assume d: "d \<in> set (deferred_of rs)" "?P s"
    then have d': "Deferred d \<in> set rs" by (simp add: in_deferred)
    show "?P (visit_deferred ad strength rs d s)"
    proof (cases "df_seq d \<notin> set (flushed_of rs) \<and> df_seq d \<notin> set (flush_failed_of rs) \<and> reissue_permitted (df_register d) strength
        \<and> (df_seq d \<notin> set (reissue_fences rs) \<or> redispatch_free (df_register d))")
      case True
      then have e: "visit_deferred ad strength rs d s = reissue_owed ad d s" by (simp add: visit_deferred_def)
      show ?thesis
        unfolding all_owed_def
      proof
        fix x
        assume "x \<in> set (rv_events (visit_deferred ad strength rs d s))"
        then have "x \<in> set (rv_events s) \<or> x = Logged (Reissue_Fence (df_seq d)) \<or> (x = Called (Emission_Of (df_seq d)) (df_call d) \<and> \<not> has_redacted_arg (df_call d))"
          unfolding e by (rule reissue_owed_calls)
        then show "fine strength rs x" using owed.emission [OF v d'] True d(2) unfolding all_owed_def by auto
      qed
    next
      case False
      then have "rv_events (visit_deferred ad strength rs d s) = rv_events s" unfolding visit_deferred_def Let_def by (auto simp: owe_def)
      then show ?thesis by (rule all_owed_same [OF _ d(2)])
    qed
  qed (simp add: all_owed_def window_start_def)
  then show ?thesis unfolding roll_forward_window_def Let_def .
qed

lemma visit_grant_calls:
  "e \<in> set (rv_events (visit_grant ad rs (h, g) s)) \<Longrightarrow> e \<in> set (rv_events s) \<or> e = Logged (Shared_Fence h)
     \<or> (e = Called (Grant_Of h) (sg_inverse g) \<and> h \<notin> set (completed_handles rs) \<and> h \<notin> set (fenced_handles rs) \<and> sg_holders g \<noteq> [])"
proof -
  assume a: "e \<in> set (rv_events (visit_grant ad rs (h, g) s))"
  let ?s = "if ad_real ad then log_record (Shared_Fence h) s else s"
  obtain err t where m: "make_call (ad_inverse ad) (Grant_Of h) (sg_inverse g) ?s = (err, t)" by fastforce
  have "rv_events t = rv_events ?s @ [Called (Grant_Of h) (sg_inverse g)]" by (rule make_callD(1) [OF m])
  then show ?thesis using a m unfolding visit_grant_def prod.case Let_def by (auto simp: log_record_def split: option.splits if_splits)
qed

lemma latest_grant_recorded: "(h, g) \<in> set (latest_grants rs) \<Longrightarrow> Shared_Grant g \<in> set rs \<and> h = sg_handle g"
proof -
  assume hg: "(h, g) \<in> set (latest_grants rs)"
  let ?ps = "concat (map (\<lambda>r. case r of Shared_Grant g \<Rightarrow> [(sg_handle g, g)] | _ \<Rightarrow> []) rs)"
  have "map_of (latest_grants rs) h = Some g"
    using hg dict_of_ok [of ?ps] unfolding latest_grants_def dict_ok_def by (simp add: map_of_is_SomeI)
  then have "map_of (rev ?ps) h = Some g" unfolding latest_grants_def map_of_dict_of .
  then have "(h, g) \<in> set ?ps" using map_of_SomeD by fastforce
  then show ?thesis by (auto split: wal_record.splits)
qed

fun fine_grant :: "wal_record list \<Rightarrow> event \<Rightarrow> bool" where
  "fine_grant rs (Called ob c) \<longleftrightarrow> (\<exists>g. Shared_Grant g \<in> set rs \<and> sg_holders g \<noteq> [] \<and> sg_handle g \<notin> set (completed_handles rs) \<and> sg_handle g \<notin> set (fenced_handles rs)
     \<and> ob = Grant_Of (sg_handle g) \<and> c = sg_inverse g)"
| "fine_grant rs (Logged r) \<longleftrightarrow> quiet r"

lemma grants_fine: "\<forall>e \<in> set (rv_events (recover_shared_grants ad rs w)). fine_grant rs e"
proof -
  let ?P = "\<lambda>s :: 'a reclaims. \<forall>e \<in> set (rv_events s). fine_grant rs e"
  have "?P (recover_shared_grants ad rs w)"
    unfolding recover_shared_grants_def
  proof (rule fold_held [where P = ?P])
    fix hg and s :: "'a reclaims"
    assume hg: "hg \<in> set (sort_key fst (latest_grants rs))" "?P s"
    obtain h g where e: "hg = (h, g)" by fastforce
    then have g: "Shared_Grant g \<in> set rs" "h = sg_handle g" using hg(1) latest_grant_recorded by auto
    show "?P (visit_grant ad rs hg s)"
    proof
      fix x
      assume "x \<in> set (rv_events (visit_grant ad rs hg s))"
      then have "x \<in> set (rv_events s) \<or> x = Logged (Shared_Fence h)
          \<or> (x = Called (Grant_Of h) (sg_inverse g) \<and> h \<notin> set (completed_handles rs) \<and> h \<notin> set (fenced_handles rs) \<and> sg_holders g \<noteq> [])"
        unfolding e by (rule visit_grant_calls)
      then show "fine_grant rs x" using g hg(2) by auto
    qed
  qed simp
  then show ?thesis .
qed

lemma grants_owed: "Called ob c \<in> set (rv_events (recover_shared_grants ad rs w)) \<Longrightarrow> Fork_Frozen \<notin> set rs \<Longrightarrow> call_owed strength rs ob c \<and> (\<exists>h. ob = Grant_Of h)"
proof -
  assume c: "Called ob c \<in> set (rv_events (recover_shared_grants ad rs w))" and f: "Fork_Frozen \<notin> set rs"
  then obtain g where g: "Shared_Grant g \<in> set rs" "sg_holders g \<noteq> []" "sg_handle g \<notin> set (completed_handles rs)" "sg_handle g \<notin> set (fenced_handles rs)"
      "ob = Grant_Of (sg_handle g)" "c = sg_inverse g"
    using bspec [OF grants_fine c] by auto
  show ?thesis using call_owed.grant [OF f g(1-4)] g(5,6) by simp
qed

lemma main_fine: "e \<in> set (fst (main_run ad strength rs callers w)) \<Longrightarrow> fine strength rs e"
  using roll_back_owed [of rs strength ad callers w] window_owed [of rs strength ad w]
  unfolding main_run_def all_owed_def by (auto simp: Let_def split: verdict.splits)

lemma main_owed: "Called ob c \<in> set (fst (main_run ad strength rs callers w)) \<Longrightarrow> owed strength rs ob c"
  by (drule main_fine) simp

lemma recover_events_cases:
  obtains "recover_events ad strength rs callers w = []"
  | w' where "Fork_Frozen \<notin> set rs" "recover_events ad strength rs callers w = fst (main_run ad strength rs callers w) @ rv_events (recover_shared_grants ad rs w')"
  | "recover_events ad strength rs callers w = fst (main_run ad strength rs callers w)"
proof (cases "recovery_verdict rs = Fork_Retired")
  case True
  then show ?thesis using that(1) by (simp add: recover_events_def)
next
  case False
  then have f: "Fork_Frozen \<notin> set rs" by (auto simp: recovery_verdict_def)
  obtain es m w' where m: "main_run ad strength rs callers w = (es, m, w')" by (metis prod.exhaust)
  show ?thesis
  proof (cases m)
    case None
    then show ?thesis using that(2) [of w'] f m False by (simp add: recover_events_def)
  next
    case (Some e)
    then show ?thesis using that(3) m False by (simp add: recover_events_def)
  qed
qed

lemma recover_call_owed: "Called ob c \<in> set (recover_events ad strength rs callers w) \<Longrightarrow> call_owed strength rs ob c"
proof (rule recover_events_cases [of ad strength rs callers w])
  assume c: "Called ob c \<in> set (recover_events ad strength rs callers w)"
  show "call_owed strength rs ob c" if "recover_events ad strength rs callers w = []" using c unfolding that by simp
  show "call_owed strength rs ob c" if "recover_events ad strength rs callers w = fst (main_run ad strength rs callers w)"
    using c unfolding that by (rule call_owed.main [OF main_owed])
  fix w'
  assume f: "Fork_Frozen \<notin> set rs" and e: "recover_events ad strength rs callers w = fst (main_run ad strength rs callers w) @ rv_events (recover_shared_grants ad rs w')"
  have "Called ob c \<in> set (fst (main_run ad strength rs callers w)) \<or> Called ob c \<in> set (rv_events (recover_shared_grants ad rs w'))"
    using c unfolding e by simp
  then show "call_owed strength rs ob c"
  proof
    assume "Called ob c \<in> set (fst (main_run ad strength rs callers w))"
    then show ?thesis by (rule call_owed.main [OF main_owed])
  next
    assume "Called ob c \<in> set (rv_events (recover_shared_grants ad rs w'))"
    from grants_owed [OF this f] show ?thesis by (rule conjunct1)
  qed
qed


subsection \<open>At most one attempt\<close>

fun fence_of :: "obligation \<Rightarrow> wal_record" where
  "fence_of (Inverse_Of n) = Replay_Fence n"
| "fence_of (Emission_Of n) = Reissue_Fence n"
| "fence_of (Grant_Of h) = Shared_Fence h"
| "fence_of (Compensation_Of n) = Commit_Approved"

fun fenced_tier :: "wal_record list \<Rightarrow> obligation \<Rightarrow> bool" where
  "fenced_tier rs (Inverse_Of n) = fenced_inverse rs n"
| "fenced_tier rs (Emission_Of n) = fenced_emission rs n"
| "fenced_tier rs (Grant_Of h) = True"
| "fenced_tier rs (Compensation_Of n) = False"

lemma fences_recorded: "n \<in> replay_fences rs \<longleftrightarrow> Replay_Fence n \<in> set rs" "n \<in> set (reissue_fences rs) \<longleftrightarrow> Reissue_Fence n \<in> set rs"
  "h \<in> set (fenced_handles rs) \<longleftrightarrow> Shared_Fence h \<in> set rs"
  by (induction rs) (auto simp: replay_fences_def reissue_fences_def fenced_handles_def split: wal_record.splits)

lemma main_single:
  assumes real: "ad_real ad" and t: "fenced_tier rs ob"
  shows "single ob (fence_of ob) (fst (main_run ad strength rs callers w)) \<and> (fence_of ob \<in> set rs \<longrightarrow> called ob (fst (main_run ad strength rs callers w)) = 0)"
proof (cases ob)
  case (Inverse_Of n)
  have "single ob (fence_of ob) (rv_events (roll_back ad rs callers w)) \<and> (fence_of ob \<in> set rs \<longrightarrow> called ob (rv_events (roll_back ad rs callers w)) = 0)"
    using roll_back_held [OF real, of rs n callers w] t Inverse_Of by (simp add: fence_held_def fences_recorded)
  moreover have "called ob (rv_events (roll_forward_window ad strength rs w)) = 0" if "recovery_verdict rs = Window"
    using window_owed [OF that, of strength ad w] that owed_verdict(1) all_owedD unfolding called_0 Inverse_Of by (metis verdict.distinct)
  ultimately show ?thesis unfolding main_run_def by (auto simp: Let_def split: verdict.splits)
next
  case (Emission_Of n)
  have "single ob (fence_of ob) (rv_events (roll_forward_window ad strength rs w)) \<and> (fence_of ob \<in> set rs \<longrightarrow> called ob (rv_events (roll_forward_window ad strength rs w)) = 0)"
    using window_single [OF real, of rs n strength w] t Emission_Of by (simp add: fences_recorded)
  moreover have "called ob (rv_events (roll_back ad rs callers w)) = 0" if "recovery_verdict rs = Rolled_Back"
    using roll_back_owed [OF that, of strength ad callers w] that owed_verdict(2) all_owedD unfolding called_0 Emission_Of by (metis verdict.distinct)
  ultimately show ?thesis unfolding main_run_def by (auto simp: Let_def split: verdict.splits)
next
  case (Grant_Of h)
  have "called ob (fst (main_run ad strength rs callers w)) = 0" using main_owed [of ob _ ad strength rs callers w] unfolding called_0 Grant_Of by (auto elim: owed_grantE)
  then show ?thesis by simp
next
  case (Compensation_Of n)
  then show ?thesis using t by simp
qed

lemma grant_events_single:
  assumes real: "ad_real ad" and f: "Fork_Frozen \<notin> set rs"
  shows "single ob (fence_of ob) (rv_events (recover_shared_grants ad rs w')) \<and> (fence_of ob \<in> set rs \<longrightarrow> called ob (rv_events (recover_shared_grants ad rs w')) = 0)
    \<and> (called ob (rv_events (recover_shared_grants ad rs w')) = 0 \<or> called ob (fst (main_run ad strength rs callers w)) = 0)"
proof (cases "\<exists>h. ob = Grant_Of h")
  case True
  then obtain h where h: "ob = Grant_Of h" by blast
  have "called ob (fst (main_run ad strength rs callers w)) = 0" using main_owed [of ob _ ad strength rs callers w] unfolding called_0 h by (auto elim: owed_grantE)
  then show ?thesis using grants_single [OF real, of h rs w'] h by (simp add: fences_recorded)
next
  case False
  have "called ob (rv_events (recover_shared_grants ad rs w')) = 0"
    unfolding called_0
  proof (intro allI notI)
    fix c
    assume "Called ob c \<in> set (rv_events (recover_shared_grants ad rs w'))"
    from grants_owed [OF this f, of None] False show False by blast
  qed
  then show ?thesis by simp
qed

lemma recover_single:
  assumes real: "ad_real ad" and t: "fenced_tier rs ob"
  shows "single ob (fence_of ob) (recover_events ad strength rs callers w) \<and> (fence_of ob \<in> set rs \<longrightarrow> called ob (recover_events ad strength rs callers w) = 0)"
proof (rule recover_events_cases [of ad strength rs callers w])
  note m = main_single [OF real t, of strength callers w]
  show ?thesis if "recover_events ad strength rs callers w = []" unfolding that by simp
  show ?thesis if "recover_events ad strength rs callers w = fst (main_run ad strength rs callers w)" unfolding that by (rule m)
  fix w'
  assume f: "Fork_Frozen \<notin> set rs" and e: "recover_events ad strength rs callers w = fst (main_run ad strength rs callers w) @ rv_events (recover_shared_grants ad rs w')"
  note g = grant_events_single [OF real f, of ob w' strength callers w]
  have "single ob (fence_of ob) (fst (main_run ad strength rs callers w) @ rv_events (recover_shared_grants ad rs w'))"
    by (rule single_append [OF conjunct1 [OF m] conjunct1 [OF g] disj_commute [THEN iffD1, OF conjunct2 [OF conjunct2 [OF g]]]])
  then show ?thesis using m g unfolding e called_simps(2) by (intro conjI impI) (assumption, metis add_0)
qed


lemma recover_logs_quiet: "Logged r \<in> set (recover_events ad strength rs callers w) \<Longrightarrow> quiet r"
proof (rule recover_events_cases [of ad strength rs callers w])
  assume c: "Logged r \<in> set (recover_events ad strength rs callers w)"
  show "quiet r" if "recover_events ad strength rs callers w = []" using c unfolding that by simp
  show "quiet r" if "recover_events ad strength rs callers w = fst (main_run ad strength rs callers w)"
    using main_fine [of "Logged r" ad strength rs callers w] c unfolding that by simp
  fix w'
  assume "recover_events ad strength rs callers w = fst (main_run ad strength rs callers w) @ rv_events (recover_shared_grants ad rs w')"
  then show "quiet r" using c main_fine [of "Logged r" ad strength rs callers w] bspec [OF grants_fine, of "Logged r" ad rs w'] by auto
qed


subsection \<open>Recoveries that crash\<close>

text \<open>A series of recoveries of one log, each against a world and cut after some of its writes and calls; the log of the
  next one has what the cut one wrote.  What is kept are the calls on a real world.\<close>

type_synonym 'w crash_run = "'w adapter \<times> string option \<times> (string, int list) pydict \<times> 'w \<times> nat"

fun recoveries :: "'w crash_run list \<Rightarrow> wal_record list \<Rightarrow> event list" where
  "recoveries [] rs = []"
| "recoveries ((ad, strength, callers, w, k) # runs) rs =
     (let es = take k (recover_events ad strength rs callers w) in (if ad_real ad then es else []) @ recoveries runs (rs @ logs_of es))"

lemma quiet_none: "list_all quiet ls \<Longrightarrow> effects_of (rs @ ls) = effects_of rs \<and> descriptors_of (rs @ ls) = descriptors_of rs \<and> deferred_of (rs @ ls) = deferred_of rs"
proof (induction ls rule: rev_induct)
  case (snoc r ls)
  then show ?case by (cases r) (auto simp: effects_of_def descriptors_of_def deferred_of_def)
qed simp

lemma fenced_tier_quiet: "list_all quiet ls \<Longrightarrow> fenced_tier (rs @ ls) ob = fenced_tier rs ob"
  using quiet_none [of ls rs] by (cases ob) (simp_all add: fenced_inverse_def fenced_emission_def)

lemma logged_in: "r \<in> set (logs_of es) \<longleftrightarrow> Logged r \<in> set es"
  by (induction es) (auto simp: logs_of_def split: event.splits)

lemma recoveries_once: "fenced_tier rs ob \<Longrightarrow> called ob (recoveries runs rs) \<le> (if fence_of ob \<in> set rs then 0 else 1)"
proof (induction runs arbitrary: rs)
  case (Cons x runs)
  obtain ad strength callers w k where x: "x = (ad, strength, callers, w, k)" by (metis prod.exhaust)
  let ?es = "take k (recover_events ad strength rs callers w)"
  have "list_all quiet (logs_of ?es)" unfolding list_all_iff logged_in
    by (intro ballI, unfold logged_in) (rule recover_logs_quiet [OF in_set_takeD])
  then have "fenced_tier (rs @ logs_of ?es) ob" using fenced_tier_quiet Cons.prems by blast
  then have rest: "called ob (recoveries runs (rs @ logs_of ?es)) \<le> (if fence_of ob \<in> set (rs @ logs_of ?es) then 0 else 1)" by (rule Cons.IH)
  have own: "called ob ?es \<le> 1" "called ob ?es \<noteq> 0 \<Longrightarrow> fence_of ob \<in> set (logs_of ?es)" "fence_of ob \<in> set rs \<Longrightarrow> called ob ?es = 0" if "ad_real ad"
  proof -
    note r = recover_single [OF that Cons.prems, of strength callers w]
    show "called ob ?es \<le> 1" "called ob ?es \<noteq> 0 \<Longrightarrow> fence_of ob \<in> set (logs_of ?es)" using single_prefix [OF conjunct1 [OF r]] by blast+
    show "fence_of ob \<in> set rs \<Longrightarrow> called ob ?es = 0"
      using r called_simps(2) [of ob ?es "drop k (recover_events ad strength rs callers w)"] by simp
  qed
  show ?case
  proof (cases "ad_real ad \<and> called ob ?es \<noteq> 0")
    case True
    then show ?thesis using own rest unfolding x by (auto simp: Let_def)
  next
    case False
    then have "called ob (recoveries (x # runs) rs) = called ob (recoveries runs (rs @ logs_of ?es))" unfolding x by (auto simp: Let_def)
    then show ?thesis using rest by (auto split: if_splits)
  qed
qed simp

end
