(* ===== verification/Recovery_Guarantees.thy ===== *)
theory Recovery_Guarantees
  imports Recovery_Properties
begin

section \<open>What a recovery guarantees\<close>

text \<open>The order of the calls, the account of the log, the exact meaning of a clean roll-forward, and the properties.\<close>

subsection \<open>Newest first\<close>

definition call_order :: "event list \<Rightarrow> obligation list" where
  "call_order es = concat (map (\<lambda>e. case e of Called ob c \<Rightarrow> [ob] | Logged r \<Rightarrow> []) es)"

lemma call_order_simps [simp]: "call_order [] = []" "call_order (es @ fs) = call_order es @ call_order fs"
  "call_order (Logged r # es) = call_order es" "call_order (Called b c # es) = b # call_order es"
  by (simp_all add: call_order_def)

lemma fold_order:
  assumes "\<And>x s. call_order (rv_events (f x s)) \<in> {call_order (rv_events s), call_order (rv_events s) @ [k x]}"
  shows "\<exists>ys. subseq ys xs \<and> call_order (rv_events (fold f xs s)) = call_order (rv_events s) @ map k ys"
proof (induction xs arbitrary: s)
  case (Cons x xs)
  obtain ys where ys: "subseq ys xs" "call_order (rv_events (fold f xs (f x s))) = call_order (rv_events (f x s)) @ map k ys" using Cons by blast
  consider "call_order (rv_events (f x s)) = call_order (rv_events s)" | "call_order (rv_events (f x s)) = call_order (rv_events s) @ [k x]"
    using assms [of x s] by blast
  then show ?case
  proof cases
    case 1
    then show ?thesis using ys by (intro exI [of _ ys]) (simp add: list_emb_Cons)
  next
    case 2
    then show ?thesis using ys by (intro exI [of _ "x # ys"]) simp
  qed
qed simp

lemma visited_order: "visited ad n tier c s s' \<Longrightarrow> call_order (rv_events s') \<in> {call_order (rv_events s), call_order (rv_events s) @ [Inverse_Of n]}"
  by (erule visited.cases) (auto simp: fence_events_def)

lemma sorted_subseq: "subseq ys xs \<Longrightarrow> sorted (map f xs) \<Longrightarrow> sorted (map f ys)"
proof (induction rule: list_emb.induct)
  case (list_emb_Cons2 x y xs ys)
  have "set xs \<subseteq> set ys" using list_emb_Cons2(2) by (auto dest: list_emb_set)
  then show ?case using list_emb_Cons2 by auto
qed simp_all

lemma newest_sorted: "sorted (map (\<lambda>d. - ds_seq d) (newest_first ds))"
  by (simp add: newest_first_def)

lemma sorted_negated: "sorted (map (\<lambda>x. - f x) xs) \<Longrightarrow> sorted (rev (map f xs))" for f :: "'x \<Rightarrow> int"
  by (induction xs) (auto simp: sorted_append)

lemma sorted_reversed: "sorted (map f xs) \<Longrightarrow> sorted (map (\<lambda>x. - f x) (rev xs))" for f :: "'x \<Rightarrow> int"
  by (induction xs) (auto simp: sorted_append)

lemma roll_back_order:
  assumes "sorted (map ef_seq (effects_of rs))"
  shows "\<exists>A B C. call_order (rv_events (roll_back ad rs callers w)) = map Inverse_Of A @ map Inverse_Of B @ map Compensation_Of C
    \<and> sorted (rev A) \<and> sorted (rev B) \<and> sorted (rev C)
    \<and> set A \<subseteq> ef_seq ` set (effects_of rs) \<and> set B \<subseteq> ds_seq ` set (of_entry Transactional (descriptors_of rs)) \<and> set C \<subseteq> ds_seq ` set (of_entry Compensation (descriptors_of rs))"
proof -
  let ?es = "fst (split_nested (effects_of rs) rs callers)" and ?ds = "descriptors_of rs"
  define p where "p = pairing_of rs ?es ?ds"
  define s1 where "s1 = fold (visit_effect ad p) (rev ?es) (seed_effects ad p ?es (recovery_start (replay_fences rs) w))"
  define s2 where "s2 = fold (visit_transactional ad (discharged_of rs) (list_ex is_aborted rs)) (newest_first (of_entry Transactional ?ds)) (seed_descriptors ad p ?ds s1)"
  have "\<exists>ys. subseq ys (rev ?es) \<and> call_order (rv_events s1) = call_order (rv_events (seed_effects ad p ?es (recovery_start (replay_fences rs) w))) @ map (\<lambda>e. Inverse_Of (ef_seq e)) ys"
    unfolding s1_def
  proof (rule fold_order)
    fix e and s :: "'a recovery"
    show "call_order (rv_events (visit_effect ad p e s)) \<in> {call_order (rv_events s), call_order (rv_events s) @ [Inverse_Of (ef_seq e)]}"
      using visit_effect_visited [OF refl, of ad p e s] visited_order by (elim disjE exE conjE) (simp, blast)
  qed
  then obtain as where as: "subseq as (rev ?es)" "call_order (rv_events s1) = map (\<lambda>e. Inverse_Of (ef_seq e)) as" by (auto simp: seeds_same recovery_start_def)
  have "\<exists>ys. subseq ys (newest_first (of_entry Transactional ?ds)) \<and> call_order (rv_events s2) = call_order (rv_events (seed_descriptors ad p ?ds s1)) @ map (\<lambda>d. Inverse_Of (ds_seq d)) ys"
    unfolding s2_def
  proof (rule fold_order)
    fix d and s :: "'a recovery"
    show "call_order (rv_events (visit_transactional ad (discharged_of rs) (list_ex is_aborted rs) d s)) \<in> {call_order (rv_events s), call_order (rv_events s) @ [Inverse_Of (ds_seq d)]}"
      using visit_transactional_visited [OF refl, of ad "discharged_of rs" "list_ex is_aborted rs" d s] visited_order by (elim disjE conjE) (simp, blast)
  qed
  then obtain bs where bs: "subseq bs (newest_first (of_entry Transactional ?ds))" "call_order (rv_events s2) = call_order (rv_events s1) @ map (\<lambda>d. Inverse_Of (ds_seq d)) bs"
    by (auto simp: seeds_same)
  have "\<exists>ys. subseq ys (newest_first (of_entry Compensation ?ds)) \<and> call_order (rv_events (fold (visit_compensation ad (discharged_of rs) p) (newest_first (of_entry Compensation ?ds)) s2))
      = call_order (rv_events s2) @ map (\<lambda>d. Compensation_Of (ds_seq d)) ys"
  proof (rule fold_order)
    fix d and s :: "'a recovery"
    show "call_order (rv_events (visit_compensation ad (discharged_of rs) p d s)) \<in> {call_order (rv_events s), call_order (rv_events s) @ [Compensation_Of (ds_seq d)]}"
      using visit_compensation_events [OF refl, of ad "discharged_of rs" p d s] by auto
  qed
  then obtain cs where cs: "subseq cs (newest_first (of_entry Compensation ?ds))" "call_order (rv_events (fold (visit_compensation ad (discharged_of rs) p) (newest_first (of_entry Compensation ?ds)) s2))
      = call_order (rv_events s2) @ map (\<lambda>d. Compensation_Of (ds_seq d)) cs" by blast
  have rb: "roll_back ad rs callers w = (if rv_raised s1 \<noteq> None then s1 else fold (visit_compensation ad (discharged_of rs) p) (newest_first (of_entry Compensation ?ds)) s2)"
    unfolding roll_back_def Let_def s2_def s1_def p_def by (rule refl)
  have "sorted (map (\<lambda>e. - ef_seq e) (rev ?es))"
    using sorted_reversed [OF sorted_subseq [OF _ assms, of ?es]] by (simp add: split_nested_def)
  then have A: "sorted (rev (map ef_seq as))" "set (map ef_seq as) \<subseteq> ef_seq ` set (effects_of rs)"
    using sorted_negated [OF sorted_subseq [OF as(1)]] list_emb_set [OF as(1)] by (auto simp: split_nested_def)
  have B: "sorted (rev (map ds_seq bs))" "set (map ds_seq bs) \<subseteq> ds_seq ` set (of_entry Transactional ?ds)"
    using sorted_negated [OF sorted_subseq [OF bs(1) newest_sorted]] list_emb_set [OF bs(1)] by (auto simp: newest_first_def)
  have C: "sorted (rev (map ds_seq cs))" "set (map ds_seq cs) \<subseteq> ds_seq ` set (of_entry Compensation ?ds)"
    using sorted_negated [OF sorted_subseq [OF cs(1) newest_sorted]] list_emb_set [OF cs(1)] by (auto simp: newest_first_def)
  show ?thesis
  proof (cases "rv_raised s1 = None")
    case True
    then have "call_order (rv_events (roll_back ad rs callers w)) = map Inverse_Of (map ef_seq as) @ map Inverse_Of (map ds_seq bs) @ map Compensation_Of (map ds_seq cs)"
      using rb as(2) bs(2) cs(2) by (simp add: comp_def)
    then show ?thesis using A B C by blast
  next
    case False
    then have "call_order (rv_events (roll_back ad rs callers w)) = map Inverse_Of (map ef_seq as) @ map Inverse_Of [] @ map Compensation_Of []"
      using rb as(2) by (simp add: comp_def)
    moreover have "sorted (rev ([] :: int list))" "set ([] :: int list) \<subseteq> S" for S by simp_all
    ultimately show ?thesis using A by blast
  qed
qed


subsection \<open>Nothing unaccounted for\<close>

fun obligation_seq :: "obligation \<Rightarrow> int" where
  "obligation_seq (Inverse_Of n) = n"
| "obligation_seq (Compensation_Of n) = n"
| "obligation_seq (Emission_Of n) = n"
| "obligation_seq (Grant_Of h) = 0"

text \<open>The numbers a report speaks of, each as often as it does: resolved, moot, offset, kept, or in the residue.\<close>

definition resolved :: "'w recovery \<Rightarrow> int multiset" where
  "resolved s = mset (map fst (rv_described s)) + mset (map fst (rv_offset s)) + mset (rv_moot s) + mset (map fst (rv_ran s))
     + mset (map fst (rv_back s)) + mset (map fst (rv_skipped s)) + mset (rv_settled s)"

definition outstanding :: "'w recovery \<Rightarrow> int multiset" where
  "outstanding s = mset (map (\<lambda>r. obligation_seq (rs_for r)) (rv_out s))"

definition accounts :: "'w recovery \<Rightarrow> int multiset" where
  "accounts s = resolved s + outstanding s"

lemma make_call_accounts: "make_call f ob c s = (err, s') \<Longrightarrow> accounts s' = accounts s"
  by (auto simp: make_call_def accounts_def resolved_def outstanding_def split: prod.splits)

lemma spend_fence_accounts [simp]: "accounts (spend_fence ad n s) = accounts s"
  by (simp add: spend_fence_def log_record_def accounts_def resolved_def outstanding_def)

lemma owe_accounts [simp]: "accounts (owe k ob a out s) = add_mset (obligation_seq ob) (accounts s)"
  by (simp add: owe_def accounts_def resolved_def outstanding_def)

lemma accounts_simps [simp]:
  "accounts (s\<lparr>rv_described := rv_described s @ [(n, d)]\<rparr>) = add_mset n (accounts s)" "accounts (s\<lparr>rv_offset := rv_offset s @ [(n, d)]\<rparr>) = add_mset n (accounts s)"
  "accounts (s\<lparr>rv_moot := rv_moot s @ [n]\<rparr>) = add_mset n (accounts s)" "accounts (s\<lparr>rv_ran := rv_ran s @ [(n, t)]\<rparr>) = add_mset n (accounts s)"
  "accounts (s\<lparr>rv_back := rv_back s @ [(n, r)]\<rparr>) = add_mset n (accounts s)" "accounts (s\<lparr>rv_skipped := rv_skipped s @ [(n, b)]\<rparr>) = add_mset n (accounts s)"
  "accounts (s\<lparr>rv_settled := rv_settled s @ [n]\<rparr>) = add_mset n (accounts s)" "accounts (s\<lparr>rv_closures := x\<rparr>) = accounts s" "accounts (s\<lparr>rv_deferred := x\<rparr>) = accounts s"
  "accounts (s\<lparr>rv_failed := x\<rparr>) = accounts s" "accounts (s\<lparr>rv_compensated := x\<rparr>) = accounts s"
  by (simp_all add: accounts_def resolved_def outstanding_def)

lemma visit_effect_accounts: "rv_raised (visit_effect ad p e s) = None \<Longrightarrow> rv_raised s = None \<and> accounts (visit_effect ad p e s) = add_mset (ef_seq e) (accounts s)"
proof -
  assume r: "rv_raised (visit_effect ad p e s) = None"
  then have s: "rv_raised s = None" by (auto simp: visit_effect_def split: if_splits)
  have run: "accounts (run_boundary_inverse ad e c tier s) = add_mset (ef_seq e) (accounts s)" if "rv_raised (run_boundary_inverse ad e c tier s) = None" for c tier
  proof -
    obtain err t where m: "make_call (ad_inverse ad) (Inverse_Of (ef_seq e)) c (if tier = Fenced_Tier then spend_fence ad (ef_seq e) s else s) = (err, t)" by fastforce
    then have "accounts t = accounts s" using make_call_accounts [OF m] by simp
    then show ?thesis using that m by (auto simp: run_boundary_inverse_def split: option.splits)
  qed
  show ?thesis
    using r s unfolding visit_effect_def Let_def by (auto simp: run split: option.splits inverse.splits if_splits)
qed

lemma visit_transactional_accounts: "accounts (visit_transactional ad discharged ab d s) = add_mset (ds_seq d) (accounts s)"
proof -
  have "accounts (run_transactional ad d tier s) = add_mset (ds_seq d) (accounts s)" for tier
  proof -
    obtain err t where m: "make_call (ad_inverse ad) (Inverse_Of (ds_seq d)) (ds_call d) (if tier = Fenced_Tier then spend_fence ad (ds_seq d) s else s) = (err, t)" by fastforce
    then have "accounts t = accounts s" using make_call_accounts [OF m] by simp
    then show ?thesis using m by (auto simp: run_transactional_def split: option.splits)
  qed
  then show ?thesis by (simp add: visit_transactional_def Let_def)
qed

lemma visit_compensation_accounts:
  "rv_raised (visit_compensation ad discharged p d s) = None \<Longrightarrow> rv_raised s = None \<and> accounts (visit_compensation ad discharged p d s) = add_mset (ds_seq d) (accounts s)"
proof -
  assume r: "rv_raised (visit_compensation ad discharged p d s) = None"
  obtain err t where m: "make_call (ad_compensate ad) (Compensation_Of (ds_seq d)) (ds_call d) s = (err, t)" by fastforce
  have "rv_raised s = None" using r by (auto simp: visit_compensation_def split: if_splits)
  then show ?thesis using r m make_call_accounts [OF m] unfolding visit_compensation_def by (auto split: option.splits if_splits)
qed

lemma fold_accounts:
  assumes "\<And>x s. rv_raised (f x s) = None \<Longrightarrow> rv_raised s = None \<and> accounts (f x s) = add_mset (k x) (accounts s)" "rv_raised (fold f xs s) = None"
  shows "accounts (fold f xs s) = accounts s + mset (map k xs) \<and> rv_raised s = None"
  using assms(2)
proof (induction xs arbitrary: s)
  case (Cons x xs)
  then show ?case using assms(1) [of x s] by (auto simp: ac_simps)
qed simp

lemma transactional_raised: "rv_raised (visit_transactional ad discharged ab d s) = rv_raised s"
proof -
  have "rv_raised (run_transactional ad d tier s) = rv_raised s" for tier
  proof -
    obtain err t where m: "make_call (ad_inverse ad) (Inverse_Of (ds_seq d)) (ds_call d) (if tier = Fenced_Tier then spend_fence ad (ds_seq d) s else s) = (err, t)" by fastforce
    show ?thesis using m make_callD(2) [OF m] by (auto simp: run_transactional_def split: option.splits)
  qed
  then show ?thesis by (simp add: visit_transactional_def Let_def)
qed

lemma seeds_accounts: "accounts (seed_effects ad p es s) = accounts s" "accounts (seed_descriptors ad p ds s) = accounts s"
proof -
  have seed_world: "accounts (seed_world ad ref s) = accounts s" for ref s by (simp add: seed_world_def accounts_def resolved_def outstanding_def)
  show "accounts (seed_effects ad p es s) = accounts s" unfolding seed_effects_def by (induction es arbitrary: s) (auto simp: seed_world split: option.splits)
  show "accounts (seed_descriptors ad p ds s) = accounts s" unfolding seed_descriptors_def by (induction ds arbitrary: s) (auto simp: seed_world)
qed

lemma entries_all: "mset (map ds_seq (of_entry Transactional ds)) + mset (map ds_seq (of_entry Compensation ds)) = mset (map ds_seq ds)"
proof (induction ds)
  case (Cons d ds)
  then show ?case by (cases "ds_entry d") (auto simp: of_entry_def)
qed (simp add: of_entry_def)

lemma roll_back_accounts:
  assumes "rv_raised (roll_back ad rs callers w) = None"
  shows "accounts (roll_back ad rs callers w) = mset (map ef_seq (fst (split_nested (effects_of rs) rs callers))) + mset (map ds_seq (descriptors_of rs))"
proof -
  let ?es = "fst (split_nested (effects_of rs) rs callers)" and ?ds = "descriptors_of rs"
  define p where "p = pairing_of rs ?es ?ds"
  define s0 where "s0 = seed_effects ad p ?es (recovery_start (replay_fences rs) w)"
  define s1 where "s1 = fold (visit_effect ad p) (rev ?es) s0"
  define s2 where "s2 = fold (visit_transactional ad (discharged_of rs) (list_ex is_aborted rs)) (newest_first (of_entry Transactional ?ds)) (seed_descriptors ad p ?ds s1)"
  define s3 where "s3 = fold (visit_compensation ad (discharged_of rs) p) (newest_first (of_entry Compensation ?ds)) s2"
  have rb: "roll_back ad rs callers w = (if rv_raised s1 \<noteq> None then s1 else s3)"
    unfolding roll_back_def Let_def s3_def s2_def s1_def s0_def p_def by (rule refl)
  then have r: "rv_raised s1 = None" "rv_raised s3 = None" "roll_back ad rs callers w = s3" using assms by (auto split: if_splits)
  have "accounts s0 = {#}" unfolding s0_def seeds_accounts by (simp add: recovery_start_def accounts_def resolved_def outstanding_def)
  then have 1: "accounts s1 = mset (map ef_seq ?es)"
    using fold_accounts [where f = "visit_effect ad p" and k = ef_seq and xs = "rev ?es" and s = s0, OF visit_effect_accounts] r(1) unfolding s1_def [symmetric] by simp
  have "rv_raised (seed_descriptors ad p ?ds s1) = None" using r(1) by (simp add: seeds_same)
  then have "rv_raised (fold (visit_transactional ad (discharged_of rs) (list_ex is_aborted rs)) ds (seed_descriptors ad p ?ds s1)) = None" for ds
    by (induction ds rule: rev_induct) (simp_all add: transactional_raised)
  then have 2: "accounts s2 = accounts s1 + mset (map ds_seq (of_entry Transactional ?ds))"
    using fold_accounts [of "visit_transactional ad (discharged_of rs) (list_ex is_aborted rs)" ds_seq "newest_first (of_entry Transactional ?ds)" "seed_descriptors ad p ?ds s1"]
    unfolding s2_def by (simp add: visit_transactional_accounts transactional_raised seeds_accounts newest_first_def)
  have 3: "accounts s3 = accounts s2 + mset (map ds_seq (of_entry Compensation ?ds))"
    using fold_accounts [where f = "visit_compensation ad (discharged_of rs) p" and k = ds_seq and xs = "newest_first (of_entry Compensation ?ds)" and s = s2, OF visit_compensation_accounts] r(2)
    unfolding s3_def [symmetric] by (simp add: newest_first_def)
  show ?thesis unfolding r(3) 3 2 1 using entries_all [of ?ds] by (simp add: ac_simps)
qed


subsection \<open>A clean roll-forward\<close>

lemma in_takeWhile: "x \<in> set (takeWhile Q zs) \<longleftrightarrow> (\<exists>as bs. zs = as @ x # bs \<and> (\<forall>y \<in> set (as @ [x]). Q y))"
proof (induction zs)
  case (Cons z zs)
  show ?case
  proof
    assume "x \<in> set (takeWhile Q (z # zs))"
    then consider "Q z" "x = z" | "Q z" "x \<in> set (takeWhile Q zs)" by (auto split: if_splits)
    then show "\<exists>as bs. z # zs = as @ x # bs \<and> (\<forall>y \<in> set (as @ [x]). Q y)"
    proof cases
      case 1
      then show ?thesis by (intro exI [of _ "[]"] exI [of _ zs]) simp
    next
      case 2
      then obtain as bs where "zs = as @ x # bs" "\<forall>y \<in> set (as @ [x]). Q y" using Cons by blast
      then show ?thesis using 2 by (intro exI [of _ "z # as"] exI [of _ bs]) simp
    qed
  next
    assume "\<exists>as bs. z # zs = as @ x # bs \<and> (\<forall>y \<in> set (as @ [x]). Q y)"
    then obtain as bs where a: "z # zs = as @ x # bs" "\<forall>y \<in> set (as @ [x]). Q y" by blast
    show "x \<in> set (takeWhile Q (z # zs))"
    proof (cases as)
      case Nil
      then show ?thesis using a by simp
    next
      case (Cons a' as')
      then have "x \<in> set (takeWhile Q zs)" using a \<open>(x \<in> set (takeWhile Q zs)) = _\<close> by auto
      then show ?thesis using a Cons by simp
    qed
  qed
qed simp

lemma in_after_last: "x \<in> set (records_after P rs) \<longleftrightarrow> (\<exists>xs ys. rs = xs @ x # ys \<and> (\<forall>y \<in> set (x # ys). \<not> P y))"
proof
  assume "x \<in> set (records_after P rs)"
  then obtain as bs where "rev rs = as @ x # bs" "\<forall>y \<in> set (as @ [x]). \<not> P y" unfolding records_after_def set_rev in_takeWhile by blast
  then show "\<exists>xs ys. rs = xs @ x # ys \<and> (\<forall>y \<in> set (x # ys). \<not> P y)"
    by (intro exI [of _ "rev bs"] exI [of _ "rev as"]) (auto simp: rev_swap)
next
  assume "\<exists>xs ys. rs = xs @ x # ys \<and> (\<forall>y \<in> set (x # ys). \<not> P y)"
  then obtain xs ys where "rs = xs @ x # ys" "\<forall>y \<in> set (x # ys). \<not> P y" by blast
  then show "x \<in> set (records_after P rs)" unfolding records_after_def set_rev in_takeWhile by (intro exI [of _ "rev ys"] exI [of _ "rev xs"]) auto
qed

lemma after_last_twice: "records_after Q (records_after P rs) = records_after (\<lambda>r. P r \<or> Q r) rs"
proof -
  have "takeWhile A (takeWhile B zs) = takeWhile (\<lambda>z. B z \<and> A z) zs" for A B and zs :: "'a list" by (induction zs) auto
  then show ?thesis by (simp add: records_after_def)
qed


lemma in_steady:
  "e \<in> set (steady_effects rs) \<longleftrightarrow> (\<exists>xs ys. rs = xs @ Effect e # ys \<and> Activation_Complete \<in> set xs \<and> Activation_Complete \<notin> set ys \<and> Run_Complete \<notin> set ys)
     \<and> \<not> (ef_kind e = ''emission'' \<and> ef_seq e \<in> set (settled_seqs_of rs))"
proof (cases "Activation_Complete \<in> set rs")
  case True
  have "Effect e \<in> set (records_after (\<lambda>r. r = Run_Complete) (records_after (\<lambda>r. r = Activation_Complete) rs))
      \<longleftrightarrow> (\<exists>xs ys. rs = xs @ Effect e # ys \<and> (\<forall>y \<in> set (Effect e # ys). \<not> (y = Activation_Complete \<or> y = Run_Complete)))"
    unfolding after_last_twice in_after_last by (rule refl)
  also have "\<dots> \<longleftrightarrow> (\<exists>xs ys. rs = xs @ Effect e # ys \<and> Activation_Complete \<in> set xs \<and> Activation_Complete \<notin> set ys \<and> Run_Complete \<notin> set ys)"
    using True by (intro ex_cong1) auto
  finally show ?thesis using True by (simp add: steady_effects_def Let_def in_effects conj_commute)
next
  case False
  then show ?thesis by (auto simp: steady_effects_def records_after_def effects_of_def)
qed

lemma after_last_split:
  assumes "\<exists>r \<in> set rs. P r"
  shows "\<exists>pre z. rs = pre @ z # records_after P rs \<and> P z"
proof -
  have "rev rs = takeWhile (\<lambda>r. \<not> P r) (rev rs) @ dropWhile (\<lambda>r. \<not> P r) (rev rs)" by simp
  moreover obtain z zs where d: "dropWhile (\<lambda>r. \<not> P r) (rev rs) = z # zs"
    using assms dropWhile_eq_Nil_conv [of "\<lambda>r. \<not> P r" "rev rs"] by (cases "dropWhile (\<lambda>r. \<not> P r) (rev rs)") auto
  moreover have "P z" using hd_dropWhile [of "\<lambda>r. \<not> P r" "rev rs"] d by auto
  ultimately have "rs = rev zs @ z # records_after P rs" unfolding records_after_def by (metis append.assoc append_Cons append_Nil rev_append rev_rev_ident rev.simps(2))
  then show ?thesis using \<open>P z\<close> by blast
qed

lemma approved_after:
  assumes rs: "rs = xs @ r # ys" and r: "r \<noteq> Commit_Approved"
  shows "(case last_approved_at rs of None \<Rightarrow> True | Some a \<Rightarrow> length xs > a) \<longleftrightarrow> Commit_Approved \<notin> set ys"
proof (cases "Commit_Approved \<in> set rs")
  case False
  then show ?thesis using rs by (simp add: last_approved_at_def)
next
  case True
  let ?L = "records_after (\<lambda>r. r = Commit_Approved) rs"
  obtain pre where p: "rs = pre @ Commit_Approved # ?L" using after_last_split [of rs "\<lambda>r. r = Commit_Approved"] True by auto
  have "length rs = length pre + Suc (length ?L)" using arg_cong [OF p, of length] by simp
  then have a: "last_approved_at rs = Some (length pre)" using True by (simp add: last_approved_at_def)
  have none: "Commit_Approved \<notin> set ?L" unfolding records_after_def set_rev by (auto dest: set_takeWhileD)
  have ys: "ys = drop (Suc (length xs)) rs" unfolding rs by simp
  have L: "?L = drop (Suc (length pre)) rs" using arg_cong [OF p, of "drop (Suc (length pre))"] by simp
  have at: "rs ! length pre = Commit_Approved" "length pre < length rs" using arg_cong [OF p, of "\<lambda>l. l ! length pre"] arg_cong [OF p, of length] by simp_all
  have "rs ! length xs = r" unfolding rs by simp
  then consider "length pre < length xs" | "length xs < length pre" using r at by (metis linorder_neqE_nat)
  then show ?thesis
  proof cases
    case 1
    then have "set ys \<subseteq> set ?L" unfolding ys L by (intro set_drop_subset_set_drop) simp
    then show ?thesis using 1 a none by auto
  next
    case 2
    then obtain k where k: "length pre = Suc (length xs) + k" using less_imp_Suc_add by auto
    then have "ys ! k = Commit_Approved" using at(1) unfolding rs by (simp add: nth_append)
    moreover have "k < length ys" using at(2) k unfolding rs by simp
    ultimately have "Commit_Approved \<in> set ys" by (metis nth_mem)
    then show ?thesis using 2 a by simp
  qed
qed

lemma in_crosscheck: "(n, k) \<in> set (deferral_crosscheck rs) \<longleftrightarrow> (\<exists>xs d ys. rs = xs @ Deferred d # ys \<and> n = df_seq d \<and> k = deferral_of rs (length xs) d)"
proof
  assume "(n, k) \<in> set (deferral_crosscheck rs)"
  then obtain i r where i: "(i, r) \<in> set (enumerate 0 rs)" "(n, k) \<in> set (case r of Deferred d \<Rightarrow> [(df_seq d, deferral_of rs i d)] | _ \<Rightarrow> [])"
    unfolding deferral_crosscheck_def by auto
  then obtain d where d: "r = Deferred d" "n = df_seq d" "k = deferral_of rs i d" by (cases r) auto
  have l: "i < length rs" "rs ! i = Deferred d" using i(1) d(1) by (simp_all add: in_set_enumerate_eq)
  then have "rs = take i rs @ Deferred d # drop (Suc i) rs" "length (take i rs) = i" using id_take_nth_drop [of i rs] by simp_all
  then show "\<exists>xs d ys. rs = xs @ Deferred d # ys \<and> n = df_seq d \<and> k = deferral_of rs (length xs) d" using d by metis
next
  assume "\<exists>xs d ys. rs = xs @ Deferred d # ys \<and> n = df_seq d \<and> k = deferral_of rs (length xs) d"
  then obtain xs d ys where d: "rs = xs @ Deferred d # ys" "n = df_seq d" "k = deferral_of rs (length xs) d" by blast
  have "(length xs, Deferred d) \<in> set (enumerate 0 rs)" unfolding d(1) by (simp add: in_set_enumerate_eq)
  then show "(n, k) \<in> set (deferral_crosscheck rs)" unfolding deferral_crosscheck_def set_concat set_map
    by (intro UN_I [of "(\<lambda>(i, r). case r of Deferred d \<Rightarrow> [(df_seq d, deferral_of rs i d)] | _ \<Rightarrow> []) (length xs, Deferred d)"] imageI) (simp_all add: d(2,3))
qed

lemma in_owed: "n \<in> set (owed_deferrals rs) \<longleftrightarrow> (\<exists>xs d ys. rs = xs @ Deferred d # ys \<and> n = df_seq d \<and> Commit_Approved \<in> set ys \<and> n \<notin> set (flushed_of rs))"
proof -
  have d: "deferral_of rs (length xs) d \<in> {Owed_Failed, Owed_Unattempted} \<longleftrightarrow> Commit_Approved \<in> set ys \<and> df_seq d \<notin> set (flushed_of rs)"
    if "rs = xs @ Deferred d # ys" for xs d ys
    using approved_after [OF that] unfolding deferral_of_def by (auto split: if_splits)
  have "(\<exists>k \<in> S. \<exists>xs d ys. P xs d ys \<and> n = df_seq d \<and> k = deferral_of rs (length xs) d) \<longleftrightarrow> (\<exists>xs d ys. P xs d ys \<and> n = df_seq d \<and> deferral_of rs (length xs) d \<in> S)"
    for S P by blast
  also have "(\<exists>xs d ys. rs = xs @ Deferred d # ys \<and> n = df_seq d \<and> deferral_of rs (length xs) d \<in> {Owed_Failed, Owed_Unattempted})
      \<longleftrightarrow> (\<exists>xs d ys. rs = xs @ Deferred d # ys \<and> n = df_seq d \<and> Commit_Approved \<in> set ys \<and> n \<notin> set (flushed_of rs))"
    by (intro ex_cong1 conj_cong refl, erule d [THEN trans]) simp
  finally have o: "(\<exists>k \<in> {Owed_Failed, Owed_Unattempted}. (n, k) \<in> set (deferral_crosscheck rs))
      \<longleftrightarrow> (\<exists>xs d ys. rs = xs @ Deferred d # ys \<and> n = df_seq d \<and> Commit_Approved \<in> set ys \<and> n \<notin> set (flushed_of rs))"
    unfolding in_crosscheck .
  have "n \<in> set (owed_deferrals rs) \<longleftrightarrow> (\<exists>k \<in> {Owed_Failed, Owed_Unattempted}. (n, k) \<in> set (deferral_crosscheck rs))"
    unfolding owed_deferrals_def set_map set_filter
  proof
    assume "n \<in> fst ` {x \<in> set (deferral_crosscheck rs). case x of (n, k) \<Rightarrow> k \<in> {Owed_Failed, Owed_Unattempted}}"
    then obtain x where x: "n = fst x" "x \<in> set (deferral_crosscheck rs)" "case x of (n, k) \<Rightarrow> k \<in> {Owed_Failed, Owed_Unattempted}" by blast
    then show "\<exists>k \<in> {Owed_Failed, Owed_Unattempted}. (n, k) \<in> set (deferral_crosscheck rs)" by (intro bexI [of _ "snd x"]) (simp_all split: prod.splits)
  next
    assume "\<exists>k \<in> {Owed_Failed, Owed_Unattempted}. (n, k) \<in> set (deferral_crosscheck rs)"
    then obtain k where k: "k \<in> {Owed_Failed, Owed_Unattempted}" "(n, k) \<in> set (deferral_crosscheck rs)" by blast
    then show "n \<in> fst ` {x \<in> set (deferral_crosscheck rs). case x of (n, k) \<Rightarrow> k \<in> {Owed_Failed, Owed_Unattempted}}"
      by (intro image_eqI [of _ _ "(n, k)"]) simp_all
  qed
  then show ?thesis using o by (rule trans)
qed

lemma forward_clean:
  "rolled_forward_clean ad rs callers \<longleftrightarrow>
     (\<forall>xs e ys. rs = xs @ Effect e # ys \<and> Activation_Complete \<in> set xs \<and> Activation_Complete \<notin> set ys \<and> Run_Complete \<notin> set ys
        \<longrightarrow> \<not> outlives (ef_life e) \<or> is_nested rs callers e \<or> (ef_kind e = ''emission'' \<and> ef_seq e \<in> set (settled_seqs_of rs)))
   \<and> (\<forall>xs d ys. rs = xs @ Deferred d # ys \<and> Commit_Approved \<in> set ys \<longrightarrow> df_seq d \<in> set (flushed_of rs))"
proof -
  have "referent_key ad e = None \<longleftrightarrow> \<not> outlives (ef_life e)" for e by (auto simp: referent_key_def split: inverse.splits)
  then have "steady_residue ad rs callers = [] \<longleftrightarrow> (\<forall>e \<in> set (steady_effects rs). \<not> outlives (ef_life e) \<or> is_nested rs callers e)"
    unfolding steady_residue_def split_nested_def by (auto simp: filter_empty_conv)
  moreover have "owed_deferrals rs = [] \<longleftrightarrow> (\<forall>n. n \<notin> set (owed_deferrals rs))" by auto
  ultimately show ?thesis unfolding rolled_forward_clean_def in_steady in_owed Ball_def by blast
qed


subsection \<open>A log to recover\<close>

definition demo_call :: "string \<Rightarrow> string \<Rightarrow> call" where
  "demo_call m a = \<lparr>call_receiver = ''store'', call_method = m, call_args = [a]\<rparr>"

definition demo_world :: "string list adapter" where
  "demo_world = (dict_world ef_label)\<lparr>ad_real := True\<rparr>"

definition demo_effect :: "int \<Rightarrow> string \<Rightarrow> inverse \<Rightarrow> effect" where
  "demo_effect n kind how = \<lparr>ef_seq = n, ef_component = ''ledger'', ef_label = ''row'', ef_kind = kind, ef_step = Some n, ef_class = kind,
     ef_life = ''outlives-process'', ef_for = None, ef_within = None, ef_inverse = how\<rparr>"

definition demo_descriptor :: "int \<Rightarrow> entry_kind \<Rightarrow> int option \<Rightarrow> descriptor" where
  "demo_descriptor n k off = \<lparr>ds_seq = n, ds_entry = k, ds_call = demo_call ''delete'' ''r'', ds_idempotent = False, ds_register = None, ds_offsets = off\<rparr>"

definition demo_log :: "wal_record list" where
  "demo_log = [Effect (demo_effect 1 ''acquire'' (Named (demo_call ''release'' ''a'') False None)), Descriptor (demo_descriptor 2 Transactional None),
     Effect (demo_effect 3 ''emission'' Closure), Descriptor (demo_descriptor 4 Compensation (Some 3)),
     Effect (demo_effect 5 ''acquire'' (Named (demo_call ''release'' ''b'') False None)),
     Shared_Grant \<lparr>sg_handle = ''h'', sg_holders = [''c''], sg_inverse = demo_call ''revoke'' ''h''\<rparr>]"

lemma demo_order: "call_order (recover_events demo_world None demo_log [] []) = [Inverse_Of 5, Inverse_Of 1, Inverse_Of 2, Compensation_Of 4, Grant_Of ''h'']"
  by code_simp

text \<open>A crash after the fence of the second inverse and before its call: the next run leaves it to a human.\<close>

lemma demo_crash: "call_order (recoveries [(demo_world, None, [], [], 3), (demo_world, None, [], [], 99)] demo_log) = [Inverse_Of 5, Inverse_Of 2, Compensation_Of 4, Grant_Of ''h'']"
  by code_simp

text \<open>An inverse that raised in the abort, so that the abort's record leaves it out, reads as undone.\<close>

lemma failed_inverse_reads_clean:
  "let s = roll_back demo_world [Descriptor (demo_descriptor 1 Transactional None), Replay_Fence 1, Aborted []] [] []
   in rolled_back_clean s \<and> rv_back s = [(1, ''abort-phase1'')] \<and> rv_events s = []"
  by code_simp


subsection \<open>The properties\<close>

text \<open>C32. Across any series of recoveries of one log, each crashing where it may and leaving its records, an inverse of the
  fenced tier, an owed emission that is not free to dispatch again and the inverse of a shared handle is called at most
  once in all, and never when its fence was on the log before the first of them.\<close>

theorem fenced_attempted_once: "fenced_tier rs ob \<Longrightarrow> called ob (recoveries runs rs) \<le> (if fence_of ob \<in> set rs then 0 else 1)"
  by (rule recoveries_once)

theorem fenced_attempted_once_witness:
  "called (Inverse_Of 1) (recoveries [(demo_world, None, [], [], 3), (demo_world, None, [], [], 99)] demo_log) \<le> 1 \<and> Replay_Fence 1 \<notin> set demo_log"
proof -
  have f: "Replay_Fence 1 \<notin> set demo_log" by (simp add: demo_log_def)
  have "fenced_tier demo_log (Inverse_Of 1)" by code_simp
  then show ?thesis using fenced_attempted_once [of demo_log "Inverse_Of 1" "[(demo_world, None, [], [], 3), (demo_world, None, [], [], 99)]"] f by simp
qed

text \<open>C33. A recovery calls the world only for what the log says is owed: on a roll-back the named inverse of an effect
  that outlives the process, an undischarged transactional inverse, or a compensation that is neither discharged nor
  run by the abort; on an approved commit an emission that was neither flushed nor failed and that the operator's rule
  admits; and the inverse of a shared handle that still has holders.  So nothing of a committed transaction is undone.\<close>

theorem calls_are_owed: "Called ob c \<in> set (recover_events ad strength rs callers w) \<Longrightarrow> call_owed strength rs ob c"
  by (rule recover_call_owed)

theorem calls_are_owed_witness: "call_owed None demo_log (Compensation_Of 4) (demo_call ''delete'' ''r'')"
proof -
  have "Called (Compensation_Of 4) (demo_call ''delete'' ''r'') \<in> set (recover_events demo_world None demo_log [] [])" by code_simp
  then show ?thesis by (rule calls_are_owed)
qed

text \<open>C34. A roll-back runs the boundary inverses of the effects newest first, then the transactional inverses newest
  first, and only then the compensations, newest first.\<close>

theorem rollback_newest_first:
  assumes "sorted (map ef_seq (effects_of rs))"
  shows "\<exists>A B C. call_order (rv_events (roll_back ad rs callers w)) = map Inverse_Of A @ map Inverse_Of B @ map Compensation_Of C
    \<and> sorted (rev A) \<and> sorted (rev B) \<and> sorted (rev C)
    \<and> set A \<subseteq> ef_seq ` set (effects_of rs) \<and> set B \<subseteq> ds_seq ` set (of_entry Transactional (descriptors_of rs)) \<and> set C \<subseteq> ds_seq ` set (of_entry Compensation (descriptors_of rs))"
  by (rule roll_back_order [OF assms])

theorem rollback_newest_first_witness:
  "\<exists>A B C. call_order (rv_events (roll_back demo_world demo_log [] [])) = map Inverse_Of A @ map Inverse_Of B @ map Compensation_Of C
    \<and> sorted (rev A) \<and> sorted (rev B) \<and> sorted (rev C)"
proof -
  have "sorted (map ef_seq (effects_of demo_log))" by code_simp
  from rollback_newest_first [OF this, of demo_world "[]" "[]"] show ?thesis by blast
qed

text \<open>C35. A roll-back that returns accounts for every record of its log exactly once: the numbers it reports as
  described, offset, moot, run, rolled back, kept or settled, with those of its residue, are those of the effects that
  are the run's own and of all the descriptors, each as often as the log has it.\<close>

theorem rollback_accounts_for_all:
  assumes "rv_raised (roll_back ad rs callers w) = None"
  shows "resolved (roll_back ad rs callers w) + outstanding (roll_back ad rs callers w)
    = mset (map ef_seq (fst (split_nested (effects_of rs) rs callers))) + mset (map ds_seq (descriptors_of rs))"
  using roll_back_accounts [OF assms] unfolding accounts_def .

theorem rollback_accounts_for_all_witness:
  "resolved (roll_back demo_world demo_log [] []) + outstanding (roll_back demo_world demo_log [] []) = {#1, 2, 3, 4, 5#}
   \<and> outstanding (roll_back demo_world demo_log [] []) = {#3, 4#}"
proof -
  have r: "rv_raised (roll_back demo_world demo_log [] []) = None" by code_simp
  have "map ef_seq (fst (split_nested (effects_of demo_log) demo_log [])) = [1, 3, 5]" "map ds_seq (descriptors_of demo_log) = [2, 4]" by code_simp+
  moreover have "map (\<lambda>r. obligation_seq (rs_for r)) (rv_out (roll_back demo_world demo_log [] [])) = [3, 4]" by code_simp
  ultimately show ?thesis using rollback_accounts_for_all [OF r] by (simp add: outstanding_def add_mset_commute)
qed

text \<open>C38. A roll-forward is not clean exactly when an effect recorded after the last completed activation and after any
  orderly shutdown of it outlives the process, is not counted in another crossing and is not a settled emission, or
  when an emission deferred before the last approval has no flush.\<close>

theorem forward_unclean_exact:
  "\<not> rolled_forward_clean ad rs callers \<longleftrightarrow>
     (\<exists>xs e ys. rs = xs @ Effect e # ys \<and> Activation_Complete \<in> set xs \<and> Activation_Complete \<notin> set ys \<and> Run_Complete \<notin> set ys
        \<and> outlives (ef_life e) \<and> \<not> is_nested rs callers e \<and> \<not> (ef_kind e = ''emission'' \<and> ef_seq e \<in> set (settled_seqs_of rs)))
   \<or> (\<exists>xs d ys. rs = xs @ Deferred d # ys \<and> Commit_Approved \<in> set ys \<and> df_seq d \<notin> set (flushed_of rs))"
  unfolding forward_clean by blast

end
