(* ===== verification/Cardinality.thy ===== *)
theory Cardinality
  imports Parallel
begin

section \<open>Bounds on emission counts (\<open>src/revl/cardinality.py\<close>)\<close>

text \<open>
  How often one activation can cross a capability: the most calls on one path of a lowered body, the
  recognizer that certifies a self-recursion as a bounded iteration, its ceiling, and the resolution of
  a call that enters such a loop.  Bodies are the documents the compiler lowers to.
\<close>

subsection \<open>Reading a node\<close>

definition int_lit :: "json \<Rightarrow> int option" where
  "int_lit j = (case j of JObj node \<Rightarrow> if kind_is node ''lit'' then (case member node ''value'' of JInt n \<Rightarrow> Some n | _ \<Rightarrow> None) else None | _ \<Rightarrow> None)"

definition string_of_member :: "(string \<times> json) list \<Rightarrow> string \<Rightarrow> string option" where
  "string_of_member node k = (case member node k of JStr s \<Rightarrow> Some s | _ \<Rightarrow> None)"

definition bare_name :: "json \<Rightarrow> string option" where
  "bare_name j = (case j of JObj node \<Rightarrow>
      if kind_is node ''var'' \<and> string_of_member node ''name'' \<noteq> None then string_of_member node ''name''
      else if kind_is node ''name'' then string_of_member node ''id'' else None
    | _ \<Rightarrow> None)"

definition is_self_call :: "string \<Rightarrow> (string \<times> json) list \<Rightarrow> bool" where
  "is_self_call f node \<longleftrightarrow> f \<in> set (called_here node)"

definition is_param_call :: "string \<Rightarrow> (string \<times> json) list \<Rightarrow> bool" where
  "is_param_call p node \<longleftrightarrow> p \<in> set (direct_callee node)"

definition call_args_of :: "(string \<times> json) list \<Rightarrow> json list" where
  "call_args_of node = list_of_json (member node ''args'')"

definition is_if :: "(string \<times> json) list \<Rightarrow> bool" where
  "is_if node \<longleftrightarrow> step_is node ''if'' \<or> kind_is node ''if''"

definition else_of :: "(string \<times> json) list \<Rightarrow> json" where
  "else_of node = (if member node ''else'' = JNull then member node ''otherwise'' else member node ''else'')"

definition arm_bodies :: "(string \<times> json) list \<Rightarrow> json list" where
  "arm_bodies node = map (\<lambda>a. member (dict_of_json a) ''body'') (list_of_json (member node ''arms''))"

lemma else_size: "size (else_of node) < size (JObj node)"
  using member_size by (simp add: else_of_def)

lemma dict_member_le: "size (member (dict_of_json a) k) \<le> size a"
proof (cases a)
  case (JObj kvs)
  then show ?thesis using member_size [of kvs k] by (simp add: dict_of_json_def)
qed (simp_all add: dict_of_json_def member_def dict_get_def)

lemma arm_size: "b \<in> set (arm_bodies node) \<Longrightarrow> size b < size (JObj node)"
  using list_member_size [of _ node "''arms''"] dict_member_le by (fastforce simp: arm_bodies_def intro: le_less_trans)

lemmas node_sizes = json_sizes member_size else_size arm_size


subsection \<open>The most calls on one path\<close>

text \<open>A list sums, a branch takes its worst arm.\<close>

definition max_of :: "nat list \<Rightarrow> nat" where
  "max_of ns = fold max ns 0"

function path_max_calls :: "((string \<times> json) list \<Rightarrow> bool) \<Rightarrow> json \<Rightarrow> nat" where
  "path_max_calls P (JArr xs) = sum_list (map (path_max_calls P) xs)"
| "path_max_calls P (JObj node) =
     (if is_if node then path_max_calls P (member node ''cond'') + max (path_max_calls P (member node ''then'')) (path_max_calls P (else_of node))
      else if kind_is node ''match'' then path_max_calls P (member node ''scrutinee'') + max_of (map (path_max_calls P) (arm_bodies node))
      else (if P node then 1 else 0) + sum_list (map (\<lambda>kv. path_max_calls P (snd kv)) node))"
| "path_max_calls P JNull = 0"
| "path_max_calls P (JBool b) = 0"
| "path_max_calls P (JInt n) = 0"
| "path_max_calls P (JFloat f) = 0"
| "path_max_calls P (JStr s) = 0"
  by pat_completeness auto
termination
  by (relation "measure (\<lambda>(P, j). size j)") (simp_all only: in_measure case_prod_conv node_sizes wf_measure)

function self_calls :: "string \<Rightarrow> json \<Rightarrow> (string \<times> json) list list" where
  "self_calls f (JArr xs) = concat (map (self_calls f) xs)"
| "self_calls f (JObj node) = (if is_self_call f node then [node] else []) @ concat (map (\<lambda>kv. self_calls f (snd kv)) node)"
| "self_calls f JNull = []"
| "self_calls f (JBool b) = []"
| "self_calls f (JInt n) = []"
| "self_calls f (JFloat x) = []"
| "self_calls f (JStr s) = []"
  by pat_completeness auto
termination
  by (relation "measure (\<lambda>(f, j). size j)") (simp_all only: in_measure case_prod_conv node_sizes wf_measure)

function self_call_in_arrow :: "string \<Rightarrow> bool \<Rightarrow> json \<Rightarrow> bool" where
  "self_call_in_arrow f inside (JArr xs) \<longleftrightarrow> list_ex (self_call_in_arrow f inside) xs"
| "self_call_in_arrow f inside (JObj node) \<longleftrightarrow> (let ins = (inside \<or> kind_is node ''arrow'') in
     (ins \<and> is_self_call f node) \<or> list_ex (\<lambda>kv. self_call_in_arrow f ins (snd kv)) node)"
| "self_call_in_arrow f inside JNull \<longleftrightarrow> False"
| "self_call_in_arrow f inside (JBool b) \<longleftrightarrow> False"
| "self_call_in_arrow f inside (JInt n) \<longleftrightarrow> False"
| "self_call_in_arrow f inside (JFloat x) \<longleftrightarrow> False"
| "self_call_in_arrow f inside (JStr s) \<longleftrightarrow> False"
  by pat_completeness auto
termination
  by (relation "measure (\<lambda>(f, i, j). size j)") (simp_all only: in_measure case_prod_conv node_sizes wf_measure)

text \<open>A self-call inside a local arrow or a loop, which the count on a path does not cover.\<close>

function self_call_uncounted :: "string \<Rightarrow> json \<Rightarrow> bool" where
  "self_call_uncounted f (JArr xs) \<longleftrightarrow> list_ex (self_call_uncounted f) xs"
| "self_call_uncounted f (JObj node) \<longleftrightarrow>
     ((kind_is node ''arrow'' \<or> step_is node ''while'' \<or> step_is node ''for'') \<and> path_max_calls (is_self_call f) (JObj node) > 0)
     \<or> list_ex (\<lambda>kv. self_call_uncounted f (snd kv)) node"
| "self_call_uncounted f JNull \<longleftrightarrow> False"
| "self_call_uncounted f (JBool b) \<longleftrightarrow> False"
| "self_call_uncounted f (JInt n) \<longleftrightarrow> False"
| "self_call_uncounted f (JFloat x) \<longleftrightarrow> False"
| "self_call_uncounted f (JStr s) \<longleftrightarrow> False"
  by pat_completeness auto
termination
  by (relation "measure (\<lambda>(f, j). size j)") (simp_all only: in_measure case_prod_conv node_sizes wf_measure)

text \<open>A list of steps that exits: a return at its own level, or a branch whose two arms exit.\<close>

function has_top_return :: "json \<Rightarrow> bool" where
  "has_top_return j \<longleftrightarrow> list_ex (\<lambda>s. case s of JObj node \<Rightarrow> step_is node ''return''
       \<or> (step_is node ''if'' \<and> has_top_return (member node ''then'') \<and> has_top_return (else_of node)) | _ \<Rightarrow> False) (list_of_json j)"
  by pat_completeness auto
termination
proof (relation "measure size", goal_cases)
  case (2 j s node)
  then show ?case using list_size [of s j] member_size [of node "''then''"] by simp
next
  case (3 j s node)
  then show ?case using list_size [of s j] else_size [of node] by simp
qed simp

declare has_top_return.simps [simp del]


subsection \<open>The guard and the fuel\<close>

text \<open>A comparison of a parameter with a literal, turned so that the guarded region is the parameter below it.\<close>

datatype fuel_op = At_Most | Below

definition fuel_cmp :: "json \<Rightarrow> (string \<times> int \<times> fuel_op) option" where
  "fuel_cmp j = (case j of JObj cond \<Rightarrow> if \<not> kind_is cond ''bin'' then None
     else let op = member cond ''op''; l = member cond ''left''; r = member cond ''right'' in
       (case (bare_name l, int_lit r) of (Some n, Some c) \<Rightarrow>
            if op = JStr ''<='' then Some (n, c, At_Most) else if op = JStr ''<'' then Some (n, c, Below)
            else (case (bare_name r, int_lit l) of (Some n, Some c) \<Rightarrow>
              if op = JStr ''>='' then Some (n, c, At_Most) else if op = JStr ''>'' then Some (n, c, Below) else None | _ \<Rightarrow> None)
        | _ \<Rightarrow> (case (bare_name r, int_lit l) of (Some n, Some c) \<Rightarrow>
              if op = JStr ''>='' then Some (n, c, At_Most) else if op = JStr ''>'' then Some (n, c, Below) else None | _ \<Rightarrow> None))
   | _ \<Rightarrow> None)"

text \<open>
  The ceiling of a true quotient.  Python divides two integers to the nearest double, ties to even, and
  raises when the result is too large for one: the quotient is scaled by a power of two to an integer of 53
  bits (fewer when it is subnormal), rounded and scaled back.
\<close>

fun bit_length :: "int \<Rightarrow> nat" where
  "bit_length a = (if a \<le> 0 then 0 else Suc (bit_length (a div 2)))"

declare bit_length.simps [simp del]

text \<open>The exponent \<open>e\<close> with \<open>2 ^ e \<le> a / k < 2 ^ (e + 1)\<close>\<close>

definition quotient_exponent :: "int \<Rightarrow> int \<Rightarrow> int" where
  "quotient_exponent a k = (let d = int (bit_length a) - int (bit_length k) in
     if d \<ge> 0 then (if k * 2 ^ nat d \<le> a then d else d - 1) else (if k \<le> a * 2 ^ nat (- d) then d else d - 1))"

definition round_half_even :: "int \<Rightarrow> int \<Rightarrow> int" where
  "round_half_even n d = (let q = n div d; r = n mod d in if d < 2 * r \<or> (2 * r = d \<and> q mod 2 = 1) then q + 1 else q)"

definition ceil_quotient :: "int \<Rightarrow> int \<Rightarrow> int" where
  "ceil_quotient a k = - ((- a) div k)"

definition float_ceil :: "int \<Rightarrow> int \<Rightarrow> int option" where
  "float_ceil a k = (let s = min (52 - quotient_exponent a k) 1074 in
     if s \<ge> 0 then Some (ceil_quotient (round_half_even (a * 2 ^ nat s) k) (2 ^ nat s))
     else let v = round_half_even a (k * 2 ^ nat (- s)) * 2 ^ nat (- s) in if v \<ge> 2 ^ 1024 then None else Some v)"

text \<open>How often the recursive arm runs before the guard fires.\<close>

definition max_iters :: "int \<Rightarrow> int \<Rightarrow> int \<Rightarrow> fuel_op \<Rightarrow> int option" where
  "max_iters n0 c k op = (if k \<le> 0 then Some 0 else case op of
      At_Most \<Rightarrow> if n0 > c then map_option (max 0) (float_ceil (n0 - c) k) else Some 0
    | Below \<Rightarrow> if n0 \<ge> c then Some (max 0 ((n0 - c) div k + 1)) else Some 0)"

text \<open>The activations of a branching recursion, summed until they pass the ceiling.\<close>

definition branching_call_ceiling :: int where "branching_call_ceiling = 31"

fun branching_from :: "int \<Rightarrow> int \<Rightarrow> int \<Rightarrow> nat \<Rightarrow> int" where
  "branching_from branch tot term 0 = tot"
| "branching_from branch tot term (Suc n) = (if tot + term > branching_call_ceiling then tot + term
     else branching_from branch (tot + term) (term * branch) n)"

definition branching_calls :: "int \<Rightarrow> int \<Rightarrow> int" where
  "branching_calls branch iters = branching_from branch 0 1 (nat (iters + 1))"


subsection \<open>Function-typed parameters and escaping ones\<close>

record type_def =
  td_fields :: "string option list"
  td_payloads :: "string option list"

definition name_start :: "char \<Rightarrow> bool" where
  "name_start c \<longleftrightarrow> CHR ''A'' \<le> c \<and> c \<le> CHR ''Z'' \<or> CHR ''a'' \<le> c \<and> c \<le> CHR ''z'' \<or> c = CHR ''_''"

definition name_part :: "char \<Rightarrow> bool" where
  "name_part c \<longleftrightarrow> name_start c \<or> CHR ''0'' \<le> c \<and> c \<le> CHR ''9''"

function type_names :: "string \<Rightarrow> string list" where
  "type_names [] = []"
| "type_names (c # cs) = (if name_start c then (c # takeWhile name_part cs) # type_names (dropWhile name_part cs) else type_names cs)"
  by pat_completeness auto
termination
  by (relation "measure length") (auto simp: le_imp_less_Suc length_dropWhile_le)

definition primitive_type_names :: "string list" where
  "primitive_type_names = [''Int'', ''Int32'', ''Float'', ''F64'', ''Num'', ''Str'', ''Bool'', ''Bytes'', ''Unit'', ''Any'', ''Never'', ''Value'']"

definition structural_heads :: "string list" where
  "structural_heads = [''Opt'', ''List'', ''Map'', ''Result'']"

definition mentions_arrow :: "string \<Rightarrow> bool" where
  "mentions_arrow s \<longleftrightarrow> list_ex (\<lambda>i. take 2 (drop i s) = ''->'') [0..<length s]"

function type_mentions_fn :: "(string, type_def) pydict \<Rightarrow> string list \<Rightarrow> string option \<Rightarrow> bool" where
  "type_mentions_fn types seen written = (case written of None \<Rightarrow> True | Some w \<Rightarrow> mentions_arrow w
     \<or> list_ex (\<lambda>n. if n \<in> set primitive_type_names \<or> n \<in> set structural_heads then False
         else (case map_of types n of None \<Rightarrow> True
           | Some d \<Rightarrow> if n \<in> set seen then False
             else list_ex (type_mentions_fn types (n # seen)) (td_fields d @ td_payloads d))) (type_names w))"
  by pat_completeness auto
termination
proof (relation "measure (\<lambda>(types, seen, w). card (fst ` set types - set seen))", goal_cases)
  case (2 types seen written w n d x)
  then have "n \<in> fst ` set types - set seen" by (force dest: map_of_SomeD)
  then have "fst ` set types - set (n # seen) \<subset> fst ` set types - set seen" by auto
  then show ?case by (simp only: in_measure case_prod_conv) (rule psubset_card_mono, simp_all)
qed simp

declare type_mentions_fn.simps [simp del]

text \<open>A parameter used other than by invoking it, or by passing it on at its own position of the self-call.\<close>

function param_escapes :: "string \<Rightarrow> string \<Rightarrow> nat \<Rightarrow> json \<Rightarrow> bool" where
  "param_escapes p f i (JArr xs) \<longleftrightarrow> list_ex (param_escapes p f i) xs"
| "param_escapes p f i (JObj node) \<longleftrightarrow>
     (if is_param_call p node then list_ex (param_escapes p f i) (call_args_of node)
      else if is_self_call f node then
        list_ex (\<lambda>(j, a). \<not> (j = i \<and> bare_name a = Some p) \<and> param_escapes p f i a) (enumerate 0 (call_args_of node))
      else if kind_is node ''var'' \<and> member node ''name'' = JStr p then True
      else list_ex (\<lambda>kv. param_escapes p f i (snd kv)) node)"
| "param_escapes p f i JNull \<longleftrightarrow> False"
| "param_escapes p f i (JBool b) \<longleftrightarrow> False"
| "param_escapes p f i (JInt n) \<longleftrightarrow> False"
| "param_escapes p f i (JFloat x) \<longleftrightarrow> False"
| "param_escapes p f i (JStr s) \<longleftrightarrow> False"
  by pat_completeness auto
termination
proof (relation "measure (\<lambda>(p, f, i, j). size j)", goal_cases)
  case (3 p f i node x)
  then show ?case using list_member_size [of x node "''args''"] by (simp add: call_args_of_def)
next
  case (4 p f i node x j a)
  then have "a \<in> set (call_args_of node)" by (auto dest: in_set_enumerate_eq [THEN iffD1] simp: in_set_enumerate_eq)
  then show ?case using list_member_size [of a node "''args''"] by (simp add: call_args_of_def)
qed (simp_all only: in_measure case_prod_conv node_sizes wf_measure)

text \<open>The same question for a function that is not recursive; an invocation inside an arrow counts as an escape.\<close>

function fn_param_escapes :: "string \<Rightarrow> bool \<Rightarrow> json \<Rightarrow> bool" where
  "fn_param_escapes p inside (JArr xs) \<longleftrightarrow> list_ex (fn_param_escapes p inside) xs"
| "fn_param_escapes p inside (JObj node) \<longleftrightarrow>
     (if kind_is node ''arrow'' then fn_param_escapes p True (member node ''body'')
      else if is_param_call p node then inside \<or> list_ex (fn_param_escapes p inside) (call_args_of node)
      else if kind_is node ''var'' \<and> member node ''name'' = JStr p then True
      else list_ex (\<lambda>kv. fn_param_escapes p inside (snd kv)) node)"
| "fn_param_escapes p inside JNull \<longleftrightarrow> False"
| "fn_param_escapes p inside (JBool b) \<longleftrightarrow> False"
| "fn_param_escapes p inside (JInt n) \<longleftrightarrow> False"
| "fn_param_escapes p inside (JFloat x) \<longleftrightarrow> False"
| "fn_param_escapes p inside (JStr s) \<longleftrightarrow> False"
  by pat_completeness auto
termination
proof (relation "measure (\<lambda>(p, i, j). size j)", goal_cases)
  case (4 p i node x)
  then show ?case using list_member_size [of x node "''args''"] by (simp add: call_args_of_def)
qed (simp_all only: in_measure case_prod_conv node_sizes wf_measure)


subsection \<open>The recognizer\<close>

datatype recursion_refusal = Mutual | Host | No_Guard | Arrow_Recursion | Fan_Out | Non_Fuel | Rebinds_Fn

text \<open>What the call graph says of the function: whom each function calls, which are recursive, what this one reaches.\<close>

record call_facts =
  cf_direct :: "(string, string list) pydict"
  cf_recursive :: "string list"
  cf_closure :: "string list"
  cf_reach :: "string list"
  cf_caps :: "string list"
  cf_loops :: "string list"
  cf_dispatch :: string

record iteration =
  it_params :: "string list"
  it_fuel :: nat
  it_op :: fuel_op
  it_floor :: int
  it_step :: int
  it_base :: json
  it_cont :: json
  it_body :: json
  it_branch :: int

definition is_guard :: "json \<Rightarrow> bool" where
  "is_guard s \<longleftrightarrow> (case s of JObj node \<Rightarrow> step_is node ''if'' \<and> fuel_cmp (member node ''cond'') \<noteq> None | _ \<Rightarrow> False)"

definition local_call_names :: "json \<Rightarrow> string list" where
  "local_call_names body = fst (calls_in False False body)"

definition out_of_scope :: "call_facts \<Rightarrow> string \<Rightarrow> json list \<Rightarrow> recursion_refusal option" where
  "out_of_scope cf f body =
     (if f \<notin> set (dict_get (cf_direct cf) f []) then Some Mutual
      else if list_ex (\<lambda>g. g \<noteq> f \<and> g \<in> set (cf_recursive cf)) (cf_closure cf) then Some Mutual
      else if cf_reach cf \<noteq> [] then Some Host
      else if list_ex (\<lambda>c. c \<noteq> cf_dispatch cf) (cf_caps cf) then Some Host
      else if f \<in> set (cf_loops cf) then Some Host
      else if list_ex (\<lambda>g. g \<in> fst ` set (cf_direct cf) \<and> g \<noteq> f) (local_call_names (JArr body)) then Some Host
      else None)"

text \<open>The branch without a self-call is the base; when both qualify, the one that exits.\<close>

definition base_and_other :: "string \<Rightarrow> json \<Rightarrow> json \<Rightarrow> (json \<times> json) option" where
  "base_and_other f th el = (let st = path_max_calls (is_self_call f) th; se = path_max_calls (is_self_call f) el in
     if st = 0 \<and> (se \<noteq> 0 \<or> has_top_return th \<or> \<not> has_top_return el) then Some (th, el)
     else if se = 0 then Some (el, th) else None)"

text \<open>One call on a back-edge: the literal its fuel decreases by.\<close>

definition back_edge :: "string list \<Rightarrow> bool list \<Rightarrow> nat \<Rightarrow> string \<Rightarrow> (string \<times> json) list \<Rightarrow> recursion_refusal + int" where
  "back_edge params fn_typed i n node = (let args = call_args_of node in
     if length args \<noteq> length params then Inl Non_Fuel
     else case args ! i of
       JObj a \<Rightarrow> if \<not> (kind_is a ''bin'' \<and> member a ''op'' = JStr ''-'' \<and> bare_name (member a ''left'') = Some n) then Inl Non_Fuel
         else (case int_lit (member a ''right'') of
             None \<Rightarrow> Inl Non_Fuel
           | Some k \<Rightarrow> if k < 1 then Inl Non_Fuel
               else if list_ex (\<lambda>j. \<not> (j = i \<or> bare_name (args ! j) = Some (params ! j)) \<and> fn_typed ! j) [0..<length args] then Inl Rebinds_Fn
               else Inr k)
     | _ \<Rightarrow> Inl Non_Fuel)"

fun back_edges :: "string list \<Rightarrow> bool list \<Rightarrow> nat \<Rightarrow> string \<Rightarrow> (string \<times> json) list list \<Rightarrow> recursion_refusal + int list" where
  "back_edges params fn_typed i n [] = Inr []"
| "back_edges params fn_typed i n (c # cs) = (case back_edge params fn_typed i n c of Inl r \<Rightarrow> Inl r
     | Inr k \<Rightarrow> (case back_edges params fn_typed i n cs of Inl r \<Rightarrow> Inl r | Inr ks \<Rightarrow> Inr (k # ks)))"

definition index_of :: "string \<Rightarrow> string list \<Rightarrow> nat" where
  "index_of x xs = length (takeWhile (\<lambda>y. y \<noteq> x) xs)"

definition certify_guarded :: "(string, type_def) pydict \<Rightarrow> fn_ir \<Rightarrow> json list \<Rightarrow> (string \<times> json) list \<Rightarrow> json list \<Rightarrow> recursion_refusal + iteration" where
  "certify_guarded types decl pre guard post =
     (let f = fi_name decl; is_self = is_self_call f; params = map fst (fi_params decl); body = JArr (pre @ JObj guard # post) in
      if path_max_calls is_self (JArr pre) \<noteq> 0 then Inl No_Guard
      else case fuel_cmp (member guard ''cond'') of None \<Rightarrow> Inl No_Guard
      | Some (n, c, op) \<Rightarrow>
        if n \<notin> set params then Inl No_Guard
        else case base_and_other f (member guard ''then'') (else_of guard) of None \<Rightarrow> Inl No_Guard
        | Some (base, other) \<Rightarrow>
          let cont = JArr (list_of_json other @ post); calls = self_calls f body;
              branch = max 1 (path_max_calls is_self cont); i = index_of n params;
              late = (\<lambda>r. if branch > 1 then Fan_Out else r) in
          if calls = [] then Inl Mutual
          else if self_call_in_arrow f False body then Inl Arrow_Recursion
          else if branch > 1 \<and> self_call_uncounted f body then Inl Fan_Out
          else if path_max_calls is_self base \<noteq> 0 then Inl (late No_Guard)
          else case back_edges params (map (type_mentions_fn types [] \<circ> snd) (fi_params decl)) i n calls of
            Inl r \<Rightarrow> Inl (late r)
          | Inr ks \<Rightarrow> Inr \<lparr>it_params = params, it_fuel = i, it_op = op, it_floor = c, it_step = fold min (tl ks) (hd ks),
              it_base = base, it_cont = cont, it_body = body, it_branch = int branch\<rparr>)"

definition certify_recursion :: "(string, type_def) pydict \<Rightarrow> call_facts \<Rightarrow> fn_ir \<Rightarrow> recursion_refusal + iteration" where
  "certify_recursion types cf decl = (let body = list_of_json (fi_body decl) in
     case out_of_scope cf (fi_name decl) body of Some r \<Rightarrow> Inl r
     | None \<Rightarrow> (case dropWhile (\<lambda>s. \<not> is_guard s) body of
         JObj guard # post \<Rightarrow> certify_guarded types decl (takeWhile (\<lambda>s. \<not> is_guard s) body) guard post
       | _ \<Rightarrow> Inl No_Guard))"


subsection \<open>The crossings of a call that enters a loop\<close>

type_synonym cap_counts = "(string, int) pydict"

definition add_count :: "string \<Rightarrow> int \<Rightarrow> cap_counts \<Rightarrow> cap_counts" where
  "add_count cap n v = AList.update cap (dict_get v cap 0 + n) v"

definition merge_sum :: "cap_counts \<Rightarrow> cap_counts \<Rightarrow> cap_counts" where
  "merge_sum v w = fold (\<lambda>(cap, n) v. add_count cap n v) w v"

text \<open>The elementwise maximum of the branches, added to what is there.\<close>

definition keep_larger :: "string \<times> int \<Rightarrow> cap_counts \<Rightarrow> cap_counts" where
  "keep_larger cn v = (if snd cn > dict_get v (fst cn) 0 then AList.update (fst cn) (snd cn) v else v)"

definition merge_max :: "cap_counts \<Rightarrow> cap_counts list \<Rightarrow> cap_counts" where
  "merge_max v ws = merge_sum v (fold (\<lambda>w b. fold keep_larger w b) ws [])"

definition scale_into :: "int \<Rightarrow> cap_counts \<Rightarrow> cap_counts \<Rightarrow> cap_counts" where
  "scale_into m w v = fold (\<lambda>(cap, n) v. add_count cap (m * n) v) w v"

datatype loop_refusal = Refused_Recursion recursion_refusal | Escaping | Non_Resolvable

datatype resolution =
    Unbounded loop_refusal "string list"
  | Bounded cap_counts
  | Symbolic string cap_counts "(string \<times> int) list"
  | Overflow_Raised

definition carried_caps :: "cap_counts list \<Rightarrow> string list" where
  "carried_caps vecs = concat (map (map fst) vecs)"

definition param_calls :: "json \<Rightarrow> string \<Rightarrow> int" where
  "param_calls j p = int (path_max_calls (is_param_call p) j)"

text \<open>How often the loop invokes a parameter, per activation of the caller, given the iterations.\<close>

definition loop_multiplicity :: "iteration \<Rightarrow> int \<Rightarrow> string \<Rightarrow> int" where
  "loop_multiplicity it iters p = (if it_branch it > 1
     then branching_calls (it_branch it) iters * max (param_calls (it_base it) p) (param_calls (it_cont it) p)
     else param_calls (it_base it) p + iters * param_calls (it_cont it) p)"

definition fold_params :: "(string \<Rightarrow> int) \<Rightarrow> iteration \<Rightarrow> cap_counts list \<Rightarrow> cap_counts" where
  "fold_params mult it vecs = fold (\<lambda>(p, v) acc. if mult p = 0 then acc else scale_into (mult p) v acc) (zip (it_params it) vecs) []"

definition config_field :: "json \<Rightarrow> string option" where
  "config_field j = (case j of JObj node \<Rightarrow> if kind_is node ''config'' then string_of_member node ''field'' else None | _ \<Rightarrow> None)"

definition branches_past :: "iteration \<Rightarrow> int option \<Rightarrow> bool option" where
  "branches_past it n0 = (if it_branch it \<le> 1 then Some False
     else case n0 of None \<Rightarrow> Some True
     | Some n \<Rightarrow> map_option (\<lambda>iters. branching_calls (it_branch it) iters > branching_call_ceiling) (max_iters n (it_floor it) (it_step it) (it_op it)))"

definition resolve_loop_call :: "string \<Rightarrow> recursion_refusal + iteration \<Rightarrow> json list \<Rightarrow> cap_counts list \<Rightarrow> resolution" where
  "resolve_loop_call f rec args vecs = (case rec of
     Inl r \<Rightarrow> Unbounded (Refused_Recursion r) (carried_caps vecs)
   | Inr it \<Rightarrow> let fuel = (if it_fuel it < length args then args ! it_fuel it else JNull) in
      (case branches_past it (int_lit fuel) of
         None \<Rightarrow> Overflow_Raised
       | Some True \<Rightarrow> Unbounded (Refused_Recursion Fan_Out) (carried_caps vecs)
       | Some False \<Rightarrow>
         if list_ex (\<lambda>(i, p, v). v \<noteq> [] \<and> param_escapes p f i (it_body it)) (enumerate 0 (zip (it_params it) vecs))
         then Unbounded (if it_branch it > 1 then Refused_Recursion Fan_Out else Escaping) (carried_caps vecs)
         else case int_lit fuel of
           Some n0 \<Rightarrow> (case max_iters n0 (it_floor it) (it_step it) (it_op it) of
               None \<Rightarrow> Overflow_Raised
             | Some iters \<Rightarrow> Bounded (fold_params (loop_multiplicity it iters) it vecs))
         | None \<Rightarrow> (case config_field fuel of
             Some field \<Rightarrow> Symbolic (''config.'' @ field) (fold_params (param_calls (it_base it)) it vecs)
               (concat (map (\<lambda>(p, v). if param_calls (it_cont it) p = 0 then [] else map (\<lambda>(cap, n). (cap, param_calls (it_cont it) p * n)) v)
                 (zip (it_params it) vecs)))
           | None \<Rightarrow> Unbounded Non_Resolvable (carried_caps vecs))))"


subsection \<open>Other calls\<close>

text \<open>A validated crossing may fire once more for each retry.\<close>

definition retry_mult :: "(string \<times> json) list \<Rightarrow> int" where
  "retry_mult spec = (case member spec ''retry'' of JInt n \<Rightarrow> n | _ \<Rightarrow> 0) + 1"

definition spec_tokens :: "(string \<times> json) list \<Rightarrow> string list" where
  "spec_tokens spec = (if truthy (member spec ''emission'') then (case member spec ''capabilities'' of JNull \<Rightarrow> [star] | j \<Rightarrow> strings_in j) else [])"

text \<open>The crossings of one node of an arrow body: a method call on a parameter bound to a provision.\<close>

definition bound_call_tokens :: "(string, string) pydict \<Rightarrow> (string \<times> json) list \<Rightarrow> (string \<times> json) list \<Rightarrow> cap_counts" where
  "bound_call_tokens bind services node = (case member node ''target'' of
     JObj tgt \<Rightarrow> (case (kind_is node ''call'' \<and> kind_is tgt ''name'', string_of_member tgt ''id'') of
        (True, Some x) \<Rightarrow> (case map_of bind x of None \<Rightarrow> []
          | Some svc \<Rightarrow> let spec = method_spec (dict_of_json (member services svc)) (member node ''method'')
              in map (\<lambda>cap. (cap, retry_mult spec)) (spec_tokens spec))
      | _ \<Rightarrow> [])
   | _ \<Rightarrow> [])"

function count_arrow_body :: "(string, string) pydict \<Rightarrow> (string \<times> json) list \<Rightarrow> json \<Rightarrow> cap_counts" where
  "count_arrow_body bind services (JArr xs) = fold (\<lambda>x v. merge_sum v (count_arrow_body bind services x)) xs []"
| "count_arrow_body bind services (JObj node) = (let own = merge_sum [] (bound_call_tokens bind services node) in
     if kind_is node ''match'' then merge_max (merge_sum own (count_arrow_body bind services (member node ''scrutinee'')))
        (map (count_arrow_body bind services) (arm_bodies node))
     else if kind_is node ''if'' then merge_max (merge_sum own (count_arrow_body bind services (member node ''cond'')))
        [count_arrow_body bind services (member node ''then''), count_arrow_body bind services (member node ''otherwise'')]
     else fold (\<lambda>kv v. merge_sum v (count_arrow_body bind services (snd kv))) node own)"
| "count_arrow_body bind services JNull = []"
| "count_arrow_body bind services (JBool b) = []"
| "count_arrow_body bind services (JInt n) = []"
| "count_arrow_body bind services (JFloat x) = []"
| "count_arrow_body bind services (JStr s) = []"
  by pat_completeness auto
termination
  by (relation "measure (\<lambda>(b, s, j). size j)") (simp_all only: in_measure case_prod_conv node_sizes wf_measure)

text \<open>What an arrow handed to a function that is not recursive costs: its crossings, as often as the parameter is invoked.\<close>

datatype helper_count = Times nat | Invoked_In_Loop | Not_Countable

definition helper_multiplicity :: "fn_ir option \<Rightarrow> bool \<Rightarrow> bool \<Rightarrow> nat \<Rightarrow> helper_count" where
  "helper_multiplicity decl recursive loops i = (case decl of None \<Rightarrow> Not_Countable
     | Some d \<Rightarrow> if i \<ge> length (fi_params d) \<or> recursive then Not_Countable
       else if loops then Invoked_In_Loop
       else let p = fst (fi_params d ! i); body = JArr (list_of_json (fi_body d)) in
         if fn_param_escapes p False body then Not_Countable else Times (path_max_calls (is_param_call p) body))"

end
