(* ===== verification/Cardinality_Paths.thy ===== *)
theory Cardinality_Paths
  imports Cardinality
begin

section \<open>Runs of a lowered body\<close>

text \<open>
  What a body does when it runs, as the list of nodes it evaluates: the reference the counts are compared
  with.  A comparison of the fuel parameter with a literal is decided, every other branch may go either way;
  a local arrow may run any number of times; a run may stop anywhere, so the runs of a body that never
  returns are covered by their prefixes.
\<close>

type_synonym ir_node = "(string \<times> json) list"

definition below_floor :: "fuel_op \<Rightarrow> int \<Rightarrow> int \<Rightarrow> bool" where
  "below_floor op n c = (case op of At_Most \<Rightarrow> n \<le> c | Below \<Rightarrow> n < c)"

definition arms_taken :: "string \<Rightarrow> int \<Rightarrow> ir_node \<Rightarrow> json list" where
  "arms_taken p n node = (case fuel_cmp (member node ''cond'') of
      Some (q, c, op) \<Rightarrow> if q = p then [if below_floor op n c then member node ''then'' else else_of node] else [member node ''then'', else_of node]
    | None \<Rightarrow> [member node ''then'', else_of node])"

fun is_tree :: "json \<Rightarrow> bool" where
  "is_tree (JArr xs) = True"
| "is_tree (JObj node) = True"
| "is_tree j = False"

text \<open>\<open>runs p n j es r\<close>: with \<open>n\<close> in the parameter \<open>p\<close>, running \<open>j\<close> evaluates \<open>es\<close> and has left the body if \<open>r\<close>.\<close>

inductive runs :: "string \<Rightarrow> int \<Rightarrow> json \<Rightarrow> ir_node list \<Rightarrow> bool \<Rightarrow> bool" for p n where
  cut: "runs p n j [] True"
| scalar: "\<not> is_tree j \<Longrightarrow> runs p n j [] False"
| done_list: "runs p n (JArr []) [] False"
| leave: "runs p n x es True \<Longrightarrow> runs p n (JArr (x # xs)) es True"
| go_on: "runs p n x es False \<Longrightarrow> runs p n (JArr xs) fs r \<Longrightarrow> runs p n (JArr (x # xs)) (es @ fs) r"
| branch: "is_if node \<Longrightarrow> runs p n (member node ''cond'') cs s \<Longrightarrow> arm \<in> set (arms_taken p n node) \<Longrightarrow> runs p n arm es r
    \<Longrightarrow> runs p n (JObj node) (cs @ es) (r \<or> step_is node ''return'')"
| match_arm: "\<not> is_if node \<Longrightarrow> kind_is node ''match'' \<Longrightarrow> runs p n (member node ''scrutinee'') cs s \<Longrightarrow> arm \<in> set (arm_bodies node)
    \<Longrightarrow> runs p n arm es r \<Longrightarrow> runs p n (JObj node) (cs @ es) (r \<or> step_is node ''return'')"
| match_none: "\<not> is_if node \<Longrightarrow> kind_is node ''match'' \<Longrightarrow> runs p n (member node ''scrutinee'') cs s \<Longrightarrow> runs p n (JObj node) cs (step_is node ''return'')"
| arrow_made: "\<not> is_if node \<Longrightarrow> kind_is node ''arrow'' \<Longrightarrow> runs p n (JObj node) [] (step_is node ''return'')"
| arrow_run: "\<not> is_if node \<Longrightarrow> kind_is node ''arrow'' \<Longrightarrow> runs p n (member node ''body'') es s \<Longrightarrow> runs p n (JObj node) fs r
    \<Longrightarrow> runs p n (JObj node) (es @ fs) r"
| evaluate: "\<not> is_if node \<Longrightarrow> \<not> kind_is node ''match'' \<Longrightarrow> \<not> kind_is node ''arrow'' \<Longrightarrow> runs p n (JArr (map snd node)) es r
    \<Longrightarrow> runs p n (JObj node) (node # es) (r \<or> step_is node ''return'')"


subsection \<open>Calls inside local arrows\<close>

function call_in_arrow :: "(ir_node \<Rightarrow> bool) \<Rightarrow> bool \<Rightarrow> json \<Rightarrow> bool" where
  "call_in_arrow P inside (JArr xs) \<longleftrightarrow> list_ex (call_in_arrow P inside) xs"
| "call_in_arrow P inside (JObj node) \<longleftrightarrow> (let ins = (inside \<or> kind_is node ''arrow'') in
     (ins \<and> P node) \<or> list_ex (\<lambda>kv. call_in_arrow P ins (snd kv)) node)"
| "call_in_arrow P inside JNull \<longleftrightarrow> False"
| "call_in_arrow P inside (JBool b) \<longleftrightarrow> False"
| "call_in_arrow P inside (JInt n) \<longleftrightarrow> False"
| "call_in_arrow P inside (JFloat x) \<longleftrightarrow> False"
| "call_in_arrow P inside (JStr s) \<longleftrightarrow> False"
  by pat_completeness auto
termination
  by (relation "measure (\<lambda>(P, i, j). size j)") (simp_all only: in_measure case_prod_conv node_sizes wf_measure)

lemma self_call_in_arrow_is: "self_call_in_arrow f inside j = call_in_arrow (is_self_call f) inside j"
  by (induction f inside j rule: self_call_in_arrow.induct) (auto simp: Let_def list_ex_iff)

lemma call_in_arrow_mono: "call_in_arrow P inside j \<Longrightarrow> call_in_arrow P True j"
  by (induction P inside j rule: call_in_arrow.induct) (auto simp: Let_def list_ex_iff)

lemma member_cases: "member kvs k = JNull \<or> (k, member kvs k) \<in> set kvs"
  by (cases "map_of kvs k") (auto simp: member_def dict_get_def dest: map_of_SomeD)

lemma in_arrow_member: "call_in_arrow P inside (member node k) \<Longrightarrow> call_in_arrow P inside (JObj node)"
  using member_cases [of node k] call_in_arrow_mono [of P inside "member node k"]
  by (cases "inside \<or> kind_is node ''arrow''") (force simp: Let_def list_ex_iff)+

lemma in_arrow_else: "call_in_arrow P inside (else_of node) \<Longrightarrow> call_in_arrow P inside (JObj node)"
  unfolding else_of_def by (auto dest: in_arrow_member split: if_splits simp del: call_in_arrow.simps)

lemma in_arrow_dict: "call_in_arrow P inside (member (dict_of_json a) k) \<Longrightarrow> call_in_arrow P inside a"
  by (cases a) (auto simp: dict_of_json_def member_def [of "[]"] dict_get_def [of "[]"] dest: in_arrow_member simp del: call_in_arrow.simps(2))

lemma in_arrow_arm: "b \<in> set (arm_bodies node) \<Longrightarrow> call_in_arrow P inside b \<Longrightarrow> call_in_arrow P inside (JObj node)"
proof -
  assume b: "b \<in> set (arm_bodies node)" "call_in_arrow P inside b"
  then obtain a where a: "a \<in> set (list_of_json (member node ''arms''))" "call_in_arrow P inside a"
    by (auto simp: arm_bodies_def dest: in_arrow_dict)
  then have "call_in_arrow P inside (member node ''arms'')" by (cases "member node ''arms''") (auto simp: list_of_json_def list_ex_iff)
  then show ?thesis by (rule in_arrow_member)
qed

lemma in_arrow_taken: "arm \<in> set (arms_taken p n node) \<Longrightarrow> call_in_arrow P inside arm \<Longrightarrow> call_in_arrow P inside (JObj node)"
  unfolding arms_taken_def by (auto dest: in_arrow_member in_arrow_else split: option.splits if_splits simp del: call_in_arrow.simps)

lemma in_arrow_value: "call_in_arrow P inside (JArr (map snd node)) \<Longrightarrow> call_in_arrow P inside (JObj node)"
  by (cases "inside \<or> kind_is node ''arrow''") (auto simp: Let_def list_ex_iff dest: call_in_arrow_mono)

text \<open>Where no call is inside an arrow, no run of an arrow's body makes one.\<close>

lemma runs_inside: "runs p n j es r \<Longrightarrow> \<not> call_in_arrow P True j \<Longrightarrow> \<forall>e \<in> set es. \<not> P e"
proof (induction rule: runs.induct)
  case (branch node cs s arm es r)
  have "\<not> call_in_arrow P True (member node ''cond'')" "\<not> call_in_arrow P True arm"
    using branch.prems in_arrow_member [of P True node "''cond''"] in_arrow_taken [OF branch.hyps(3), of P True] by blast+
  then show ?case using branch.IH by (simp add: ball_Un)
next
  case (match_arm node cs s arm es r)
  have "\<not> call_in_arrow P True (member node ''scrutinee'')" "\<not> call_in_arrow P True arm"
    using match_arm.prems in_arrow_member [of P True node "''scrutinee''"] in_arrow_arm [OF match_arm.hyps(4), of P True] by blast+
  then show ?case using match_arm.IH by (simp add: ball_Un)
next
  case (match_none node cs s)
  then show ?case using in_arrow_member [of P True node "''scrutinee''"] by blast
next
  case (arrow_run node es s fs r)
  have "\<not> call_in_arrow P True (member node ''body'')" using arrow_run.prems in_arrow_member [of P True node "''body''"] by blast
  then show ?case using arrow_run.IH arrow_run.prems by (simp add: ball_Un del: call_in_arrow.simps)
next
  case (evaluate node es r)
  then show ?case using in_arrow_value [of P True node] by (auto simp: Let_def)
qed auto

lemma arrow_body_free: "kind_is node ''arrow'' \<Longrightarrow> \<not> call_in_arrow P inside (JObj node) \<Longrightarrow> \<not> call_in_arrow P True (member node ''body'')"
  using member_cases [of node "''body''"] by (auto simp: Let_def list_ex_iff)


subsection \<open>The count on a path is a bound\<close>

definition count_calls :: "(ir_node \<Rightarrow> bool) \<Rightarrow> ir_node list \<Rightarrow> nat" where
  "count_calls P es = length (filter P es)"

lemma count_calls_simps [simp]: "count_calls P [] = 0" "count_calls P (e # es) = (if P e then Suc (count_calls P es) else count_calls P es)"
  "count_calls P (es @ fs) = count_calls P es + count_calls P fs"
  by (simp_all add: count_calls_def)

lemma count_calls_none: "count_calls P es = 0 \<longleftrightarrow> (\<forall>e \<in> set es. \<not> P e)"
  by (auto simp: count_calls_def filter_empty_conv)

lemma fold_max: "fold max ns m = max m (fold max ns (0::nat))"
proof (induction ns arbitrary: m)
  case (Cons n ns)
  show ?case using Cons [of "max n m"] Cons [of n] by (simp add: ac_simps)
qed simp

lemma max_of_ge: "n \<in> set ns \<Longrightarrow> n \<le> max_of ns"
proof (induction ns)
  case (Cons m ns)
  then show ?case using fold_max [of ns m] by (auto simp: max_of_def)
qed (simp add: max_of_def)

lemma path_max_values: "path_max_calls P (JArr (map snd node)) = sum_list (map (\<lambda>kv. path_max_calls P (snd kv)) node)"
  by (simp add: comp_def)

lemma path_max_append: "path_max_calls P (JArr (xs @ ys)) = path_max_calls P (JArr xs) + path_max_calls P (JArr ys)"
  by simp

theorem runs_within_path_max:
  "runs p n j es r \<Longrightarrow> \<not> call_in_arrow P False j \<Longrightarrow> count_calls P es \<le> path_max_calls P j"
proof (induction rule: runs.induct)
  case (leave x es xs)
  then show ?case by (simp add: trans_le_add1)
next
  case (go_on x es xs fs r)
  then show ?case by (simp add: add_mono)
next
  case (branch node cs s arm es r)
  then have "count_calls P cs \<le> path_max_calls P (member node ''cond'')" "count_calls P es \<le> path_max_calls P arm"
    using in_arrow_member [of P False node "''cond''"] in_arrow_taken [of arm p n node P False] by blast+
  moreover have "path_max_calls P arm \<le> max (path_max_calls P (member node ''then'')) (path_max_calls P (else_of node))"
    using branch.hyps(3) by (auto simp: arms_taken_def split: option.splits if_splits)
  ultimately show ?case using branch.hyps(1) by simp
next
  case (match_arm node cs s arm es r)
  then have "count_calls P cs \<le> path_max_calls P (member node ''scrutinee'')" "count_calls P es \<le> path_max_calls P arm"
    using in_arrow_member [of P False node "''scrutinee''"] in_arrow_arm [of arm node P False] by blast+
  moreover have "path_max_calls P arm \<le> max_of (map (path_max_calls P) (arm_bodies node))"
    using match_arm.hyps(4) by (intro max_of_ge) simp
  ultimately show ?case using match_arm.hyps(1,2) by simp
next
  case (match_none node cs s)
  then have "count_calls P cs \<le> path_max_calls P (member node ''scrutinee'')" using in_arrow_member [of P False node "''scrutinee''"] by blast
  then show ?case using match_none.hyps(1,2) by simp
next
  case (arrow_run node es s fs r)
  have "count_calls P es = 0"
    using runs_inside [OF arrow_run.hyps(3)] arrow_body_free [OF arrow_run.hyps(2) arrow_run.prems] by (simp add: count_calls_none)
  then show ?case using arrow_run by simp
next
  case (evaluate node es r)
  then have "count_calls P es \<le> path_max_calls P (JArr (map snd node))" using in_arrow_value [of P False node] by blast
  then show ?case using evaluate.hyps(1,2) unfolding path_max_values by simp
qed simp_all

text \<open>A body that has a top-level return never falls through.\<close>

definition exit_step :: "json \<Rightarrow> bool" where
  "exit_step s \<longleftrightarrow> (case s of JObj node \<Rightarrow> step_is node ''return''
     \<or> (step_is node ''if'' \<and> has_top_return (member node ''then'') \<and> has_top_return (else_of node)) | _ \<Rightarrow> False)"

lemma has_top_return_cases: "has_top_return (JArr xs) \<longleftrightarrow> list_ex exit_step xs" "\<not> is_tree j \<Longrightarrow> \<not> has_top_return j" "\<not> has_top_return (JObj node)"
  by (simp_all add: has_top_return.simps [of "JArr xs"] has_top_return.simps [of j] has_top_return.simps [of "JObj node"] list_of_json_def exit_step_def [abs_def])
    (cases j, simp_all)

lemma exit_node: "\<not> is_if node \<Longrightarrow> exit_step (JObj node) \<longleftrightarrow> step_is node ''return''"
  by (auto simp: exit_step_def is_if_def)

lemma runs_exit: "runs p n j es r \<Longrightarrow> (has_top_return j \<longrightarrow> r) \<and> (exit_step j \<longrightarrow> r)"
proof (induction rule: runs.induct)
  case (scalar j)
  then show ?case using has_top_return_cases(2) by (cases j) (auto simp: exit_step_def)
next
  case (branch node cs s arm es r)
  show ?case
  proof (intro conjI impI)
    assume "exit_step (JObj node)"
    then consider "step_is node ''return''" | "has_top_return (member node ''then'')" "has_top_return (else_of node)" by (auto simp: exit_step_def)
    then show "r \<or> step_is node ''return''"
    proof cases
      case 2
      then have "has_top_return arm" using branch.hyps(3) by (auto simp: arms_taken_def split: option.splits if_splits)
      then show ?thesis using branch.IH(2) by blast
    qed simp
  qed (simp add: has_top_return_cases)
qed (auto simp: has_top_return_cases exit_node, auto simp: exit_step_def)

lemma exits: "runs p n j es r \<Longrightarrow> has_top_return j \<Longrightarrow> r"
  using runs_exit by blast

text \<open>The multiplier of an arrow handed to a helper bounds how often a run of the helper invokes it.\<close>

lemma helper_bounds:
  assumes "helper_multiplicity (Some d) recursive loops i = Times m" "\<not> call_in_arrow (is_param_call (fst (fi_params d ! i))) False (JArr (list_of_json (fi_body d)))"
    and "runs p n (JArr (list_of_json (fi_body d))) es r"
  shows "count_calls (is_param_call (fst (fi_params d ! i))) es \<le> m"
  using runs_within_path_max [OF assms(3,2)] assms(1) by (simp add: helper_multiplicity_def Let_def split: if_splits)

end
