(* ===== verification/Cardinality_Bounds.thy ===== *)
theory Cardinality_Bounds
  imports Cardinality_Paths
begin

section \<open>The certified ceiling\<close>

text \<open>The activations of a recursion, what each invokes, and the bound the recognizer's record gives on them.\<close>

subsection \<open>The activations of a recursion\<close>

definition arg_at :: "nat \<Rightarrow> ir_node \<Rightarrow> json" where
  "arg_at i node = (if i < length (call_args_of node) then call_args_of node ! i else JNull)"

definition fuel_drop :: "string \<Rightarrow> json \<Rightarrow> int option" where
  "fuel_drop p j = (case j of JObj a \<Rightarrow> if kind_is a ''bin'' \<and> member a ''op'' = JStr ''-'' \<and> bare_name (member a ''left'') = Some p
     then int_lit (member a ''right'') else None | _ \<Rightarrow> None)"

text \<open>The fuel a callee starts with: known where the argument subtracts a literal, arbitrary elsewhere.\<close>

definition fuel_after :: "string \<Rightarrow> int \<Rightarrow> json \<Rightarrow> int \<Rightarrow> bool" where
  "fuel_after p n j m \<longleftrightarrow> (case fuel_drop p j of Some k \<Rightarrow> m = n - k | None \<Rightarrow> True)"

abbreviation fuel_name :: "fn_ir \<Rightarrow> nat \<Rightarrow> string" where "fuel_name decl i \<equiv> fst (fi_params decl ! i)"

abbreviation body_of :: "fn_ir \<Rightarrow> json" where "body_of decl \<equiv> JArr (list_of_json (fi_body decl))"

text \<open>The names invoked by an activation with the given fuel and by all it starts; a run may be watched up to any point.\<close>

inductive costs :: "fn_ir \<Rightarrow> nat \<Rightarrow> int \<Rightarrow> string list \<Rightarrow> bool"
  and charged :: "fn_ir \<Rightarrow> nat \<Rightarrow> int \<Rightarrow> ir_node list \<Rightarrow> string list \<Rightarrow> bool" for decl i where
  activation: "runs (fuel_name decl i) n (body_of decl) es r \<Longrightarrow> charged decl i n es t \<Longrightarrow> costs decl i n t"
| stopped: "charged decl i n es []"
| plain: "\<not> is_self_call (fi_name decl) e \<Longrightarrow> charged decl i n es t \<Longrightarrow> charged decl i n (e # es) (direct_callee e @ t)"
| recursive: "is_self_call (fi_name decl) e \<Longrightarrow> fuel_after (fuel_name decl i) n (arg_at i e) m \<Longrightarrow> costs decl i m u \<Longrightarrow> charged decl i n es t
    \<Longrightarrow> charged decl i n (e # es) (direct_callee e @ u @ t)"

lemma callee_count: "count_list (direct_callee e) q = (if is_param_call q e then 1 else 0)"
proof -
  have "name_in c = [] \<or> (\<exists>n. name_in c = [n])" for c by (cases "member c ''name''") (simp_all add: name_in_def)
  then have "direct_callee e = [] \<or> (\<exists>n. direct_callee e = [n])" by (cases "member e ''callee''") (simp_all add: direct_callee_def)
  then show ?thesis by (auto simp: is_param_call_def)
qed

text \<open>A bound on every activation that its own run respects is a bound on all of them.\<close>

definition step_within :: "fn_ir \<Rightarrow> nat \<Rightarrow> string \<Rightarrow> (int \<Rightarrow> nat) \<Rightarrow> int \<Rightarrow> ir_node list \<Rightarrow> nat \<Rightarrow> bool" where
  "step_within decl i q W n es w \<longleftrightarrow> (\<forall>e \<in> set es. is_self_call (fi_name decl) e \<longrightarrow> (\<forall>m. fuel_after (fuel_name decl i) n (arg_at i e) m \<longrightarrow> W m \<le> w))"

lemma costs_bound:
  assumes step: "\<And>n es r. runs (fuel_name decl i) n (body_of decl) es r \<Longrightarrow>
    \<exists>w. step_within decl i q W n es w \<and> count_calls (is_param_call q) es + count_calls (is_self_call (fi_name decl)) es * w \<le> W n"
  shows "costs decl i n t \<Longrightarrow> count_list t q \<le> W n"
    and "charged decl i n es t \<Longrightarrow> \<forall>w. step_within decl i q W n es w \<longrightarrow> count_list t q \<le> count_calls (is_param_call q) es + count_calls (is_self_call (fi_name decl)) es * w"
proof (induction rule: costs_charged.inducts)
  case (activation n es r t)
  then show ?case using step [OF activation(1)] activation(3) le_trans by blast
next
  case (plain e n es t)
  then show ?case by (auto simp: callee_count step_within_def)
next
  case (recursive e n m u es t)
  show ?case
  proof (intro allI impI)
    fix w assume w: "step_within decl i q W n (e # es) w"
    then have "W m \<le> w" "step_within decl i q W n es w" using recursive(1,2) by (auto simp: step_within_def)
    then show "count_list (direct_callee e @ u @ t) q \<le> count_calls (is_param_call q) (e # es) + count_calls (is_self_call (fi_name decl)) (e # es) * w"
      using recursive by (auto simp: callee_count)
  qed
qed simp


subsection \<open>What a certificate says\<close>

definition guard_of :: "fn_ir \<Rightarrow> json list \<times> json list" where
  "guard_of decl = (takeWhile (\<lambda>s. \<not> is_guard s) (list_of_json (fi_body decl)), dropWhile (\<lambda>s. \<not> is_guard s) (list_of_json (fi_body decl)))"

definition is_steps :: "json \<Rightarrow> bool" where
  "is_steps j \<longleftrightarrow> (case j of JArr xs \<Rightarrow> True | JNull \<Rightarrow> True | _ \<Rightarrow> False)"

text \<open>
  What the recognizer leaves open: that the guarded branch is the base and exits, and that no parameter is
  invoked before the guard, in its condition or inside a local arrow.
\<close>

definition loop_shape :: "fn_ir \<Rightarrow> bool" where
  "loop_shape decl \<longleftrightarrow> (case guard_of decl of
     (pre, JObj guard # post) \<Rightarrow> has_top_return (member guard ''then'') \<and> path_max_calls (is_self_call (fi_name decl)) (member guard ''then'') = 0
       \<and> is_steps (else_of guard) \<and> path_max_calls (is_self_call (fi_name decl)) (member guard ''cond'') = 0
       \<and> list_all (\<lambda>q. path_max_calls (is_param_call q) (JArr (pre @ [member guard ''cond''])) = 0
            \<and> \<not> call_in_arrow (is_param_call q) False (body_of decl)) (map fst (fi_params decl))
   | _ \<Rightarrow> False)"

lemma back_edge_drop:
  assumes "back_edge params typed i p node = Inr k" "i < length params"
  shows "fuel_drop p (arg_at i node) = Some k \<and> 1 \<le> k"
proof -
  have l: "length (call_args_of node) = length params" using assms(1) by (auto simp: back_edge_def Let_def split: if_splits)
  then obtain a where a: "call_args_of node ! i = JObj a" using assms(1) by (auto simp: back_edge_def Let_def split: json.splits)
  then have "kind_is a ''bin''" "member a ''op'' = JStr ''-''" "bare_name (member a ''left'') = Some p"
    using assms(1) l by (auto simp: back_edge_def Let_def split: if_splits)
  moreover have "int_lit (member a ''right'') = Some k \<and> 1 \<le> k"
    using assms(1) l a by (auto simp: back_edge_def Let_def split: if_splits option.splits)
  ultimately show ?thesis using a l assms(2) by (simp add: arg_at_def fuel_drop_def)
qed

lemma back_edges_all: "back_edges params typed i p cs = Inr ks \<Longrightarrow> length ks = length cs \<and> (\<forall>j < length cs. back_edge params typed i p (cs ! j) = Inr (ks ! j))"
proof (induction cs arbitrary: ks)
  case (Cons c cs)
  then obtain k ks' where "back_edge params typed i p c = Inr k" "back_edges params typed i p cs = Inr ks'" "ks = k # ks'"
    by (auto split: sum.splits)
  then show ?case using Cons.IH [of ks'] by (auto simp: nth_Cons split: nat.splits)
qed simp

lemma fold_min_le: "fold min ks k \<le> (k::int) \<and> (\<forall>x \<in> set ks. fold min ks k \<le> x)"
proof (induction ks arbitrary: k)
  case (Cons x ks)
  have "fold min ks (min x k) \<le> min x k" "\<forall>y \<in> set ks. fold min ks (min x k) \<le> y" using Cons [of "min x k"] by blast+
  then show ?case by auto
qed simp

lemma fold_min_in: "fold min ks (k::int) \<in> set (k # ks)"
proof (induction ks arbitrary: k)
  case (Cons x ks)
  then show ?case using Cons [of "min x k"] by (auto simp: min_def split: if_splits)
qed simp

lemma fold_min_hd: "ks \<noteq> [] \<Longrightarrow> fold min (tl ks) (hd ks) \<in> set ks \<and> (\<forall>x \<in> set ks. fold min (tl ks) (hd ks) \<le> x)" for ks :: "int list"
  using fold_min_le [of "tl ks" "hd ks"] fold_min_in [of "tl ks" "hd ks"] by (cases ks) auto

definition certified :: "fn_ir \<Rightarrow> iteration \<Rightarrow> bool" where
  "certified decl it \<longleftrightarrow> (\<exists>pre guard post.
     guard_of decl = (pre, JObj guard # post) \<and> it_fuel it < length (fi_params decl) \<and> it_params it = map fst (fi_params decl)
     \<and> fuel_cmp (member guard ''cond'') = Some (fuel_name decl (it_fuel it), it_floor it, it_op it)
     \<and> path_max_calls (is_self_call (fi_name decl)) (JArr pre) = 0
     \<and> base_and_other (fi_name decl) (member guard ''then'') (else_of guard) \<in>
         (\<lambda>other. Some (it_base it, other)) ` {other. it_cont it = JArr (list_of_json other @ post)}
     \<and> int (path_max_calls (is_self_call (fi_name decl)) (it_cont it)) \<le> it_branch it \<and> 1 \<le> it_branch it
     \<and> \<not> call_in_arrow (is_self_call (fi_name decl)) False (body_of decl) \<and> it_body it = body_of decl \<and> 1 \<le> it_step it
     \<and> (\<forall>e \<in> set (self_calls (fi_name decl) (body_of decl)). \<exists>k. fuel_drop (fuel_name decl (it_fuel it)) (arg_at (it_fuel it) e) = Some k \<and> it_step it \<le> k))"

lemma index_of_nth: "x \<in> set xs \<Longrightarrow> index_of x xs < length xs \<and> xs ! index_of x xs = x"
  by (induction xs) (auto simp: index_of_def)

lemma certify_certified:
  assumes "certify_recursion types cf decl = Inr it"
  shows "certified decl it"
proof -
  let ?body = "list_of_json (fi_body decl)" and ?f = "fi_name decl" and ?typed = "map (type_mentions_fn types [] \<circ> snd) (fi_params decl)"
  obtain pre rest where g: "guard_of decl = (pre, rest)" by (metis surj_pair)
  then have body: "?body = pre @ rest" using takeWhile_dropWhile_id [of "\<lambda>s. \<not> is_guard s" ?body] by (simp add: guard_of_def)
  obtain guard post where rest: "rest = JObj guard # post" and cg: "certify_guarded types decl pre guard post = Inr it"
    using assms g by (auto simp: certify_recursion_def Let_def guard_of_def split: option.splits list.splits json.splits)
  obtain n c op where cmp: "fuel_cmp (member guard ''cond'') = Some (n, c, op)" and pre: "path_max_calls (is_self_call ?f) (JArr pre) = 0"
    and n: "n \<in> set (map fst (fi_params decl))"
    using cg by (auto simp: certify_guarded_def Let_def split: if_splits option.splits)
  obtain base other where bo: "base_and_other ?f (member guard ''then'') (else_of guard) = Some (base, other)"
    using cg cmp pre n by (auto simp: certify_guarded_def Let_def split: if_splits option.splits)
  define cont where "cont = JArr (list_of_json other @ post)"
  define i where "i = index_of n (map fst (fi_params decl))"
  have i: "i < length (fi_params decl)" "fuel_name decl i = n" using index_of_nth [OF n] unfolding i_def by (auto simp: nth_map)
  have all: "body_of decl = JArr (pre @ JObj guard # post)" using body rest by simp
  obtain ks where ks: "back_edges (map fst (fi_params decl)) ?typed i n (self_calls ?f (body_of decl)) = Inr ks"
    and calls: "self_calls ?f (body_of decl) \<noteq> []" and arrow: "\<not> self_call_in_arrow ?f False (body_of decl)"
    and it: "it = \<lparr>it_params = map fst (fi_params decl), it_fuel = i, it_op = op, it_floor = c, it_step = fold min (tl ks) (hd ks),
        it_base = base, it_cont = cont, it_body = body_of decl, it_branch = int (max 1 (path_max_calls (is_self_call ?f) cont))\<rparr>"
    using cg cmp pre n bo unfolding certify_guarded_def Let_def all [symmetric]
    by (auto simp: cont_def i_def max_def simp del: self_calls.simps self_call_in_arrow.simps self_call_uncounted.simps path_max_calls.simps split: if_splits sum.splits)
  note be = back_edges_all [OF ks]
  then have "ks \<noteq> []" using calls by auto
  note m = fold_min_hd [OF this]
  have drop: "fuel_drop n (arg_at i e) = Some k \<and> 1 \<le> k" if "back_edge (map fst (fi_params decl)) ?typed i n e = Inr k" for e k
    using back_edge_drop [OF that] i by simp
  have "1 \<le> x" if x: "x \<in> set ks" for x using x be drop by (metis in_set_conv_nth)
  then have pos: "1 \<le> it_step it" using m it by simp
  have "\<exists>k. fuel_drop n (arg_at i e) = Some k \<and> it_step it \<le> k" if e: "e \<in> set (self_calls ?f (body_of decl))" for e
    using e be drop m it by (metis in_set_conv_nth iteration.select_convs(5))
  then show ?thesis unfolding certified_def using g rest i cmp pre bo arrow pos it
    by (intro exI [of _ pre] exI [of _ guard] exI [of _ post]) (auto simp: cont_def self_call_in_arrow_is simp del: call_in_arrow.simps path_max_calls.simps self_calls.simps)
qed


subsection \<open>One activation\<close>

lemma runs_ConsE:
  assumes "runs p n (JArr (x # xs)) es r"
  obtains "es = []" "r" | "r" "runs p n x es True" | as fs where "es = as @ fs" "runs p n x as False" "runs p n (JArr xs) fs r"
  using assms by (cases rule: runs.cases) (auto intro: that)

lemma runs_append:
  "runs p n (JArr (xs @ ys)) es r \<Longrightarrow> (r \<and> runs p n (JArr xs) es True) \<or> (\<exists>as bs. es = as @ bs \<and> runs p n (JArr xs) as False \<and> runs p n (JArr ys) bs r)"
proof (induction xs arbitrary: es)
  case Nil
  then show ?case using runs.done_list [of p n] by (metis append_Nil)
next
  case (Cons x xs)
  have "runs p n (JArr (x # (xs @ ys))) es r" using Cons.prems by simp
  then show ?case
  proof (cases rule: runs_ConsE)
    case 1
    then show ?thesis by (simp add: runs.cut)
  next
    case 2
    then show ?thesis by (simp add: runs.leave)
  next
    case (3 as fs)
    show ?thesis
    proof (rule disjE [OF Cons.IH [OF 3(3)]])
      assume "r \<and> runs p n (JArr xs) fs True"
      then show ?thesis using runs.go_on [OF 3(2), of xs fs True] 3(1) by blast
    next
      assume "\<exists>bs cs. fs = bs @ cs \<and> runs p n (JArr xs) bs False \<and> runs p n (JArr ys) cs r"
      then obtain bs cs where c: "fs = bs @ cs" "runs p n (JArr xs) bs False" "runs p n (JArr ys) cs r" by blast
      then show ?thesis using runs.go_on [OF 3(2) c(2)] 3(1) by (intro disjI2 exI [of _ "as @ bs"] exI [of _ cs]) simp
    qed
  qed
qed

lemma self_calls_member: "e \<in> set (self_calls f (member node k)) \<Longrightarrow> e \<in> set (self_calls f (JObj node))"
  using member_cases [of node k] by (force simp: member_def)

lemma self_calls_else: "e \<in> set (self_calls f (else_of node)) \<Longrightarrow> e \<in> set (self_calls f (JObj node))"
  unfolding else_of_def by (auto dest: self_calls_member split: if_splits simp del: self_calls.simps)

lemma self_calls_arm: "b \<in> set (arm_bodies node) \<Longrightarrow> e \<in> set (self_calls f b) \<Longrightarrow> e \<in> set (self_calls f (JObj node))"
proof -
  assume b: "b \<in> set (arm_bodies node)" "e \<in> set (self_calls f b)"
  then obtain a where a: "a \<in> set (list_of_json (member node ''arms''))" "b = member (dict_of_json a) ''body''" by (auto simp: arm_bodies_def)
  have "e \<in> set (self_calls f a)" using b(2) unfolding a(2)
    by (cases a) (auto simp: dict_of_json_def member_def [of "[]"] dict_get_def [of "[]"] dest: self_calls_member simp del: self_calls.simps(2))
  then have "e \<in> set (self_calls f (member node ''arms''))" using a(1) by (cases "member node ''arms''") (auto simp: list_of_json_def)
  then show ?thesis by (rule self_calls_member)
qed

lemma self_calls_taken: "arm \<in> set (arms_taken p n node) \<Longrightarrow> e \<in> set (self_calls f arm) \<Longrightarrow> e \<in> set (self_calls f (JObj node))"
  unfolding arms_taken_def by (auto dest: self_calls_member self_calls_else split: option.splits if_splits simp del: self_calls.simps)

lemma in_self_calls: "runs p n j es r \<Longrightarrow> e \<in> set es \<Longrightarrow> is_self_call f e \<Longrightarrow> e \<in> set (self_calls f j)"
proof (induction rule: runs.induct)
  case (branch node cs s arm es r)
  then show ?case using self_calls_member [of e f node] self_calls_taken [OF branch.hyps(3), of e f] by (metis Un_iff set_append)
next
  case (match_arm node cs s arm es r)
  then show ?case using self_calls_member [of e f node] self_calls_arm [OF match_arm.hyps(4), of e f] by (metis Un_iff set_append)
next
  case (match_none node cs s)
  then show ?case using self_calls_member [of e f node] by blast
next
  case (arrow_run node es s fs r)
  then show ?case using self_calls_member [of e f node] by (metis Un_iff set_append)
next
  case (evaluate node es r)
  then show ?case by auto
qed auto

lemma if_run:
  assumes "runs p n (JObj node) es r" "is_if node"
  obtains "es = []" "r" | cs as s arm r0 where "es = cs @ as" "runs p n (member node ''cond'') cs s" "arm \<in> set (arms_taken p n node)" "runs p n arm as r0"
    "r = (r0 \<or> step_is node ''return'')"
  using assms by (cases rule: runs.cases) (auto intro: that)

lemma guard_run:
  assumes run: "runs p n (JArr (pre @ JObj guard # post)) es r" and g: "is_if guard" "fuel_cmp (member guard ''cond'') = Some (p, c, op)"
    and ex: "has_top_return (member guard ''then'')" and free: "\<not> call_in_arrow P False (JArr (pre @ JObj guard # post))"
  shows "count_calls P es \<le> path_max_calls P (JArr pre) + path_max_calls P (member guard ''cond'')
     + (if below_floor op n c then path_max_calls P (member guard ''then'') else path_max_calls P (else_of guard) + path_max_calls P (JArr post))"
proof -
  let ?arm = "if below_floor op n c then member guard ''then'' else else_of guard"
  have fr: "\<not> call_in_arrow P False (JArr pre)" "\<not> call_in_arrow P False (JArr post)" "\<not> call_in_arrow P False (JObj guard)" using free by auto
  have fr': "\<not> call_in_arrow P False (member guard ''cond'')" "\<not> call_in_arrow P False ?arm"
    using fr(3) in_arrow_member [of P False guard] in_arrow_else [of P False guard] by auto
  have one: "count_calls P gs \<le> path_max_calls P (member guard ''cond'') + path_max_calls P ?arm \<and> (below_floor op n c \<longrightarrow> r')"
    if "runs p n (JObj guard) gs r'" for gs r'
    using that g(1)
  proof (cases rule: if_run)
    case (2 cs as s arm r0)
    have arm: "arm = ?arm" using 2(3) g(2) by (simp add: arms_taken_def split: if_splits)
    have "below_floor op n c \<longrightarrow> r0" using exits [OF 2(4)] ex arm by simp
    moreover have "count_calls P cs \<le> path_max_calls P (member guard ''cond'')" "count_calls P as \<le> path_max_calls P ?arm"
      using runs_within_path_max [OF 2(2) fr'(1)] runs_within_path_max [OF 2(4)] fr'(2) arm by simp_all
    ultimately show ?thesis using 2(1,5) by auto
  qed simp
  show ?thesis
  proof (rule disjE [OF runs_append [OF run]])
    assume "r \<and> runs p n (JArr pre) es True"
    then show ?thesis using runs_within_path_max [OF _ fr(1)] by (meson trans_le_add1)
  next
    assume "\<exists>as bs. es = as @ bs \<and> runs p n (JArr pre) as False \<and> runs p n (JArr (JObj guard # post)) bs r"
    then obtain as bs where e: "es = as @ bs" "runs p n (JArr pre) as False" "runs p n (JArr (JObj guard # post)) bs r" by blast
    have a: "count_calls P as \<le> path_max_calls P (JArr pre)" by (rule runs_within_path_max [OF e(2) fr(1)])
    show ?thesis using e(3)
    proof (cases rule: runs_ConsE)
      case 1
      then show ?thesis using a e(1) by simp
    next
      case 2
      then show ?thesis using a one [OF 2(2)] e(1) by (auto split: if_splits)
    next
      case (3 gs fs)
      then have "\<not> below_floor op n c" using one [OF 3(2)] by blast
      then show ?thesis using a one [OF 3(2)] runs_within_path_max [OF 3(3) fr(2)] 3(1) e(1) by simp
    qed
  qed
qed

text \<open>An activation below the floor runs the base and starts nothing; any other stays within one path of the continuation.\<close>

lemma activation_counts:
  assumes c: "certified decl it" and s: "loop_shape decl" and q: "q \<in> set (map fst (fi_params decl))"
    and run: "runs (fuel_name decl (it_fuel it)) n (body_of decl) es r"
  defines "own \<equiv> count_calls (is_param_call q) es" and "selfs \<equiv> count_calls (is_self_call (fi_name decl)) es"
  shows "if below_floor (it_op it) n (it_floor it) then own \<le> path_max_calls (is_param_call q) (it_base it) \<and> selfs = 0
    else own \<le> path_max_calls (is_param_call q) (it_cont it) \<and> int selfs \<le> it_branch it"
proof -
  let ?p = "fuel_name decl (it_fuel it)" and ?f = "fi_name decl"
  obtain pre guard post other where g: "guard_of decl = (pre, JObj guard # post)"
      and cmp: "fuel_cmp (member guard ''cond'') = Some (?p, it_floor it, it_op it)"
      and pre: "path_max_calls (is_self_call ?f) (JArr pre) = 0"
      and bo: "base_and_other ?f (member guard ''then'') (else_of guard) = Some (it_base it, other)"
      and cont: "it_cont it = JArr (list_of_json other @ post)"
      and br: "int (path_max_calls (is_self_call ?f) (it_cont it)) \<le> it_branch it"
      and self: "\<not> call_in_arrow (is_self_call ?f) False (body_of decl)"
    using c unfolding certified_def by blast
  have sh: "has_top_return (member guard ''then'')" "path_max_calls (is_self_call ?f) (member guard ''then'') = 0" "is_steps (else_of guard)"
      "path_max_calls (is_self_call ?f) (member guard ''cond'') = 0"
      "path_max_calls (is_param_call q) (JArr (pre @ [member guard ''cond''])) = 0" "\<not> call_in_arrow (is_param_call q) False (body_of decl)"
    using s q unfolding loop_shape_def g list_all_iff by (auto simp del: path_max_calls.simps call_in_arrow.simps)
  have base: "it_base it = member guard ''then''" "other = else_of guard" using bo sh(1,2) by (auto simp: base_and_other_def Let_def)
  have body: "body_of decl = JArr (pre @ JObj guard # post)"
    using g takeWhile_dropWhile_id [of "\<lambda>s. \<not> is_guard s" "list_of_json (fi_body decl)"] by (simp add: guard_of_def)
  have ifg: "is_if guard" using g dropWhile_eq_Cons_conv [of "\<lambda>s. \<not> is_guard s" "list_of_json (fi_body decl)" "JObj guard" post]
    by (auto simp: guard_of_def is_guard_def is_if_def)
  have "path_max_calls P (else_of guard) = path_max_calls P (JArr (list_of_json (else_of guard)))" for P
    using sh(3) by (cases "else_of guard") (simp_all add: is_steps_def list_of_json_def)
  then have rest: "path_max_calls P (else_of guard) + path_max_calls P (JArr post) = path_max_calls P (it_cont it)" for P
    unfolding cont base(2) path_max_append by simp
  note run' = run [unfolded body]
  have quiet: "path_max_calls (is_param_call q) (JArr pre) = 0" "path_max_calls (is_param_call q) (member guard ''cond'') = 0"
    using sh(5) unfolding path_max_append by simp_all
  have "count_calls (is_param_call q) es \<le> (if below_floor (it_op it) n (it_floor it) then path_max_calls (is_param_call q) (it_base it) else path_max_calls (is_param_call q) (it_cont it))"
    using guard_run [OF run' ifg cmp sh(1) sh(6) [unfolded body]] unfolding rest base(1) quiet by (simp split: if_splits)
  moreover have "count_calls (is_self_call ?f) es \<le> (if below_floor (it_op it) n (it_floor it) then 0 else path_max_calls (is_self_call ?f) (it_cont it))"
    using guard_run [OF run' ifg cmp sh(1) self [unfolded body]] unfolding rest pre sh(2,4) by (simp split: if_splits)
  ultimately show ?thesis using br unfolding own_def selfs_def by (auto split: if_splits)
qed


subsection \<open>How many iterations\<close>

definition steps_left :: "fuel_op \<Rightarrow> int \<Rightarrow> int \<Rightarrow> int \<Rightarrow> nat" where
  "steps_left op k c n = (case op of At_Most \<Rightarrow> if n > c then nat (ceil_quotient (n - c) k) else 0
    | Below \<Rightarrow> if n \<ge> c then nat ((n - c) div k + 1) else 0)"

lemma ceil_quotient_pos: "0 < a \<Longrightarrow> 0 < k \<Longrightarrow> 1 \<le> ceil_quotient a k"
  unfolding ceil_quotient_def using div_neg_pos_less0 [of "- a" k] by linarith

lemma ceil_quotient_drop: "0 < k \<Longrightarrow> k \<le> d \<Longrightarrow> ceil_quotient (a - d) k + 1 \<le> ceil_quotient a k"
proof -
  assume k: "0 < k" "k \<le> d"
  have "(- a + 1 * k) div k \<le> (- (a - d)) div k" using k by (intro zdiv_mono1) simp_all
  moreover have "(- a + 1 * k) div k = (- a) div k + 1" using k by (simp only: div_mult_self1)
  ultimately show ?thesis by (simp add: ceil_quotient_def)
qed

lemma steps_left_drop:
  assumes "1 \<le> k" "k \<le> d" "\<not> below_floor op n c"
  shows "Suc (steps_left op k c (n - d)) \<le> steps_left op k c n"
proof (cases op)
  case At_Most
  then have n: "n > c" using assms(3) by (simp add: below_floor_def)
  show ?thesis
  proof (cases "n - d > c")
    case True
    then show ?thesis using n At_Most ceil_quotient_drop [of k d "n - c"] ceil_quotient_pos [of "n - d - c" k] assms(1,2)
      by (simp add: steps_left_def algebra_simps)
  next
    case False
    then show ?thesis using n At_Most ceil_quotient_pos [of "n - c" k] assms(1) by (simp add: steps_left_def)
  qed
next
  case Below
  then have n: "n \<ge> c" using assms(3) by (simp add: below_floor_def)
  show ?thesis
  proof (cases "n - d \<ge> c")
    case True
    have "(n - d - c) div k \<le> ((n - c) + (- 1) * k) div k" using assms(1,2) by (intro zdiv_mono1) simp_all
    also have "\<dots> = (n - c) div k - 1" using assms(1) by (simp only: div_mult_self1)
    finally show ?thesis using True Below n pos_imp_zdiv_nonneg_iff [of k "n - d - c"] assms(1) by (simp add: steps_left_def)
  next
    case False
    then show ?thesis using n Below pos_imp_zdiv_nonneg_iff [of k "n - c"] assms(1) by (simp add: steps_left_def)
  qed
qed

lemma steps_left_mono: "1 \<le> k \<Longrightarrow> m \<le> n \<Longrightarrow> steps_left op k c m \<le> steps_left op k c n"
proof (cases op)
  case At_Most
  assume "1 \<le> k" "m \<le> n"
  then have "(- (n - c)) div k \<le> (- (m - c)) div k" by (intro zdiv_mono1) simp_all
  then have "nat (ceil_quotient (m - c) k) \<le> nat (ceil_quotient (n - c) k)" unfolding ceil_quotient_def by linarith
  then show ?thesis using At_Most \<open>m \<le> n\<close> by (simp add: steps_left_def)
next
  case Below
  assume "1 \<le> k" "m \<le> n"
  then have "(m - c) div k \<le> (n - c) div k" by (intro zdiv_mono1) simp_all
  then have "nat ((m - c) div k + 1) \<le> nat ((n - c) div k + 1)" by linarith
  then show ?thesis using Below \<open>m \<le> n\<close> by (simp add: steps_left_def)
qed

text \<open>The quotient of integers below two to the fifty-third is rounded exactly enough for its ceiling.\<close>

lemma bit_length_bounds: "0 < a \<Longrightarrow> 2 ^ (bit_length a - 1) \<le> a \<and> a < 2 ^ bit_length a \<and> 1 \<le> bit_length a"
proof (induction a rule: bit_length.induct)
  case (1 a)
  show ?case
  proof (cases "a div 2 > 0")
    case True
    have l: "bit_length a = Suc (bit_length (a div 2))" using 1(2) by (simp add: bit_length.simps [of a])
    have b: "2 ^ (bit_length (a div 2) - 1) \<le> a div 2" "a div 2 < 2 ^ bit_length (a div 2)" "1 \<le> bit_length (a div 2)" using 1 True by auto
    obtain m where m: "bit_length (a div 2) = Suc m" using b(3) by (cases "bit_length (a div 2)") auto
    show ?thesis using b(1,2) unfolding l m by simp linarith
  next
    case False
    then have "a = 1" using 1(2) by linarith
    then show ?thesis by (simp add: bit_length.simps [of 1] bit_length.simps [of 0])
  qed
qed

lemma bit_length_le: "0 < a \<Longrightarrow> a < 2 ^ w \<Longrightarrow> bit_length a \<le> w"
proof (rule ccontr)
  assume a: "0 < a" "a < 2 ^ w" "\<not> bit_length a \<le> w"
  then have "(2::int) ^ w \<le> 2 ^ (bit_length a - 1)" by (intro power_increasing) auto
  then have "(2::int) ^ w \<le> a" using bit_length_bounds [OF a(1)] by linarith
  then show False using a(2) by simp
qed


lemma round_half_even_bounds:
  assumes "0 < d"
  shows "n \<le> z * d \<Longrightarrow> round_half_even n d \<le> z" and "2 * (z * d) + d < 2 * n \<Longrightarrow> z < round_half_even n d"
proof -
  define q where "q = n div d"
  define m where "m = n mod d"
  have e: "n = q * d + m" "0 \<le> m" "m < d" using assms by (simp_all add: q_def m_def)
  have r: "round_half_even n d = (if d < 2 * m \<or> 2 * m = d \<and> q mod 2 = 1 then q + 1 else q)" by (simp add: round_half_even_def Let_def q_def m_def)
  show "round_half_even n d \<le> z" if n: "n \<le> z * d"
  proof -
    have "q * d \<le> z * d" using n e by linarith
    then have "q \<le> z" using assms by simp
    moreover have "m = 0" if "q = z" using n e that by simp
    ultimately show ?thesis using assms unfolding r by (cases "q = z") auto
  qed
  show "z < round_half_even n d" if n: "2 * (z * d) + d < 2 * n"
  proof (cases "z \<le> q - 1")
    case False
    have "\<not> q + 1 \<le> z"
    proof
      assume "q + 1 \<le> z"
      then have "(q + 1) * d \<le> z * d" using assms by (intro mult_right_mono) auto
      then have "q * d + d \<le> z * d" by (simp add: distrib_right)
      then show False using n e by linarith
    qed
    then have "q = z" using False by simp
    then have "d < 2 * m" using n e(1) by simp
    then show ?thesis using \<open>q = z\<close> unfolding r by simp
  qed (auto simp: r)
qed

lemma quotient_exponent_bounds:
  assumes "0 < a" "0 < k"
  defines "e \<equiv> quotient_exponent a k"
  shows "if 0 \<le> e then k * 2 ^ nat e \<le> a else True" and "int (bit_length a) - int (bit_length k) - 1 \<le> e"
proof -
  let ?d = "int (bit_length a) - int (bit_length k)"
  show "?d - 1 \<le> e" by (auto simp: e_def quotient_exponent_def Let_def)
  show "if 0 \<le> e then k * 2 ^ nat e \<le> a else True"
  proof (cases "0 \<le> e \<and> \<not> k * 2 ^ nat ?d \<le> a")
    case True
    then have ed: "e = ?d - 1" "1 \<le> ?d" by (auto simp: e_def quotient_exponent_def Let_def split: if_splits)
    have "k * 2 ^ nat e \<le> 2 ^ bit_length k * 2 ^ nat e" using bit_length_bounds [OF assms(2)] by (intro mult_right_mono) auto
    also have "\<dots> = 2 ^ (bit_length k + nat e)" by (simp add: power_add)
    also have "bit_length k + nat e = bit_length a - 1" using ed by simp
    also have "(2::int) ^ (bit_length a - 1) \<le> a" using bit_length_bounds [OF assms(1)] by simp
    finally show ?thesis by simp
  next
    case False
    then show ?thesis by (auto simp: e_def quotient_exponent_def Let_def split: if_splits)
  qed
qed

lemma ceil_quotient_bounds: "0 < k \<Longrightarrow> a \<le> ceil_quotient a k * k \<and> (ceil_quotient a k - 1) * k < a"
proof -
  assume k: "0 < k"
  define q where "q = (- a) div k"
  have "- a = q * k + (- a) mod k" by (simp add: q_def)
  moreover have "0 \<le> (- a) mod k" "(- a) mod k < k" using k by simp_all
  ultimately have "q * k \<le> - a" "- a < q * k + k" by linarith+
  then show ?thesis by (simp add: ceil_quotient_def q_def [symmetric] algebra_simps)
qed

lemma ceil_quotient_unique:
  assumes "0 < k" "a \<le> q * k" "(q - 1) * k < a"
  shows "ceil_quotient a k = q"
proof -
  have b: "a \<le> ceil_quotient a k * k" "(ceil_quotient a k - 1) * k < a" using ceil_quotient_bounds [OF assms(1)] by auto
  have "(q - 1) * k < ceil_quotient a k * k" "(ceil_quotient a k - 1) * k < q * k" using assms(2,3) b by linarith+
  then have "q - 1 < ceil_quotient a k" "ceil_quotient a k - 1 < q" using assms(1) by (simp_all add: mult_less_cancel_right)
  then show ?thesis by simp
qed

lemma float_ceil_exact:
  assumes a: "0 < a" "a < 2 ^ 53" and k: "0 < k" "k < 2 ^ 53"
  shows "float_ceil a k = Some (ceil_quotient a k)"
proof -
  define e where "e = quotient_exponent a k"
  note b = quotient_exponent_bounds [OF a(1) k(1), folded e_def]
  have bl: "bit_length a \<ge> 1" "bit_length k \<le> 53" using bit_length_bounds [OF a(1)] bit_length_le [OF k] by auto
  then have lo: "- 53 \<le> e" using b(2) by linarith
  have hi: "e \<le> 52"
  proof (rule ccontr)
    assume "\<not> e \<le> 52"
    then have "(2::int) ^ 53 \<le> 2 ^ nat e" by (intro power_increasing) auto
    also have "\<dots> \<le> k * 2 ^ nat e" using k(1) by simp
    finally show False using b(1) \<open>\<not> e \<le> 52\<close> a(2) by simp
  qed
  define s where "s = nat (52 - e)"
  have s: "min (52 - e) 1074 = int s" "0 \<le> int s" using lo hi by (simp_all add: s_def)
  have ks: "k < 2 * 2 ^ s"
  proof (cases "0 \<le> e")
    case True
    have "k * 2 ^ nat e < 2 ^ 53" using b(1) True a(2) by simp
    also have "53 = Suc s + nat e" using True hi by (simp add: s_def)
    also have "(2::int) ^ (Suc s + nat e) = 2 * 2 ^ s * 2 ^ nat e" unfolding power_add power_Suc ..
    finally show ?thesis by simp
  next
    case False
    then have "(2::int) ^ 53 \<le> 2 ^ s" by (intro power_increasing) (simp_all add: s_def)
    moreover have "(0::int) < 2 ^ s" by simp
    ultimately show ?thesis using k(2) by linarith
  qed
  let ?Q = "ceil_quotient a k" and ?m = "round_half_even (a * 2 ^ s) k"
  have Q: "a \<le> ?Q * k" "(?Q - 1) * k + 1 \<le> a" using ceil_quotient_bounds [OF k(1), of a] by simp_all
  have "?m \<le> ?Q * 2 ^ s"
  proof (rule round_half_even_bounds(1) [OF k(1)])
    show "a * 2 ^ s \<le> ?Q * 2 ^ s * k" using mult_right_mono [OF Q(1), of "2 ^ s"] by (simp add: ac_simps)
  qed
  moreover have "(?Q - 1) * 2 ^ s < ?m"
  proof (rule round_half_even_bounds(2) [OF k(1)])
    have "((?Q - 1) * k + 1) * 2 ^ s \<le> a * 2 ^ s" using Q(2) by (intro mult_right_mono) auto
    then have "2 * ((?Q - 1) * 2 ^ s * k) + 2 * 2 ^ s \<le> 2 * (a * 2 ^ s)" by (simp add: algebra_simps)
    then show "2 * ((?Q - 1) * 2 ^ s * k) + k < 2 * (a * 2 ^ s)" using ks by linarith
  qed
  ultimately have "ceil_quotient ?m (2 ^ s) = ?Q" by (intro ceil_quotient_unique) simp_all
  then show ?thesis unfolding float_ceil_def Let_def e_def [symmetric] s by simp
qed


text \<open>The iterations the code computes are those that remain, where its quotient is exact.\<close>

definition exact_fuel :: "iteration \<Rightarrow> int \<Rightarrow> bool" where
  "exact_fuel it n \<longleftrightarrow> (case it_op it of At_Most \<Rightarrow> n - it_floor it < 2 ^ 53 \<and> it_step it < 2 ^ 53 | Below \<Rightarrow> True)"

lemma max_iters_exact:
  assumes "exact_fuel it n" "1 \<le> it_step it"
  shows "max_iters n (it_floor it) (it_step it) (it_op it) = Some (int (steps_left (it_op it) (it_step it) (it_floor it) n))"
proof (cases "it_op it")
  case At_Most
  show ?thesis
  proof (cases "n > it_floor it")
    case True
    have "float_ceil (n - it_floor it) (it_step it) = Some (ceil_quotient (n - it_floor it) (it_step it))"
      using assms True At_Most by (intro float_ceil_exact) (simp_all add: exact_fuel_def)
    then show ?thesis using True At_Most assms(2) ceil_quotient_pos [of "n - it_floor it" "it_step it"] by (simp add: max_iters_def steps_left_def)
  qed (use At_Most assms(2) in \<open>simp add: max_iters_def steps_left_def\<close>)
next
  case Below
  then show ?thesis using assms(2) pos_imp_zdiv_nonneg_iff [of "it_step it" "n - it_floor it"] by (simp add: max_iters_def steps_left_def)
qed

definition geometric :: "nat \<Rightarrow> nat \<Rightarrow> nat" where
  "geometric b n = (\<Sum>d<n. b ^ d)"

lemma geometric_Suc: "geometric b (Suc n) = 1 + b * geometric b n"
  unfolding geometric_def by (simp add: sum.lessThan_Suc_shift sum_distrib_left del: sum.lessThan_Suc)

lemma geometric_mono: "m \<le> n \<Longrightarrow> geometric b m \<le> geometric b n"
  unfolding geometric_def by (intro sum_mono2) auto

lemma branching_from_exact: "branching_from (int b) tot term n \<le> branching_call_ceiling \<Longrightarrow> branching_from (int b) tot term n = tot + term * int (geometric b n)"
proof (induction n arbitrary: tot "term")
  case (Suc n)
  then have "\<not> tot + term > branching_call_ceiling" by (auto split: if_splits)
  then show ?case using Suc.prems Suc.IH [of "tot + term" "term * int b"] by (simp add: geometric_Suc algebra_simps)
qed (simp add: geometric_def)


subsection \<open>The bound\<close>

text \<open>The bound of one activation, as a function of its fuel.\<close>

definition loop_bound :: "iteration \<Rightarrow> string \<Rightarrow> int \<Rightarrow> nat" where
  "loop_bound it q n = (let s = steps_left (it_op it) (it_step it) (it_floor it) n;
       b = path_max_calls (is_param_call q) (it_base it); c = path_max_calls (is_param_call q) (it_cont it)
     in if it_branch it > 1 then geometric (nat (it_branch it)) (Suc s) * max b c else b + s * c)"

lemma loop_bound_mono: "1 \<le> it_step it \<Longrightarrow> m \<le> n \<Longrightarrow> loop_bound it q m \<le> loop_bound it q n"
  using steps_left_mono [of "it_step it" m n "it_op it" "it_floor it"] geometric_mono
  by (auto simp: loop_bound_def Let_def intro!: add_mono mult_le_mono)

lemma loop_bound_step:
  assumes "1 \<le> it_step it" "1 \<le> it_branch it" "\<not> below_floor (it_op it) n (it_floor it)" "int x \<le> it_branch it"
  shows "path_max_calls (is_param_call q) (it_cont it) + x * loop_bound it q (n - it_step it) \<le> loop_bound it q n"
proof -
  let ?s = "steps_left (it_op it) (it_step it) (it_floor it)"
  let ?b = "path_max_calls (is_param_call q) (it_base it)" and ?c = "path_max_calls (is_param_call q) (it_cont it)"
  have s: "Suc (?s (n - it_step it)) \<le> ?s n" using steps_left_drop [OF assms(1) order.refl assms(3)] .
  show ?thesis
  proof (cases "it_branch it > 1")
    case True
    let ?B = "nat (it_branch it)" and ?g = "geometric (nat (it_branch it)) (Suc (?s (n - it_step it)))"
    have "x * (?g * max ?b ?c) \<le> ?B * (?g * max ?b ?c)" using assms(4) by (intro mult_right_mono) auto
    then have "?c + x * (?g * max ?b ?c) \<le> max ?b ?c + (?B * ?g) * max ?b ?c"
      unfolding mult.assoc by (intro add_mono) simp_all
    also have "\<dots> = geometric ?B (Suc (Suc (?s (n - it_step it)))) * max ?b ?c" by (simp add: geometric_Suc algebra_simps)
    also have "\<dots> \<le> geometric ?B (Suc (?s n)) * max ?b ?c" using geometric_mono [of "Suc (Suc (?s (n - it_step it)))" "Suc (?s n)" ?B] s by (intro mult_right_mono) auto
    finally show ?thesis using True by (simp add: loop_bound_def Let_def)
  next
    case False
    then have "x \<le> 1" using assms(2,4) by simp
    then have "?c + x * (?b + ?s (n - it_step it) * ?c) \<le> ?c + 1 * (?b + ?s (n - it_step it) * ?c)" by (intro add_left_mono mult_right_mono) auto
    also have "\<dots> = ?b + Suc (?s (n - it_step it)) * ?c" by simp
    also have "\<dots> \<le> ?b + ?s n * ?c" using s by (intro add_left_mono mult_right_mono) auto
    finally show ?thesis using False by (simp add: loop_bound_def Let_def)
  qed
qed

lemma base_within: "path_max_calls (is_param_call q) (it_base it) \<le> loop_bound it q n"
  by (auto simp: loop_bound_def Let_def geometric_Suc intro: trans_le_add1)

lemma certified_calls_bounded:
  assumes "certified decl it" "loop_shape decl" "q \<in> set (map fst (fi_params decl))" "costs decl (it_fuel it) n t"
  shows "count_list t q \<le> loop_bound it q n"
proof (rule costs_bound(1) [OF _ assms(4)])
  fix n es r
  assume run: "runs (fuel_name decl (it_fuel it)) n (body_of decl) es r"
  note ac = activation_counts [OF assms(1-3) run]
  have st: "1 \<le> it_step it" "1 \<le> it_branch it"
    and drop: "\<forall>e \<in> set (self_calls (fi_name decl) (body_of decl)). \<exists>k. fuel_drop (fuel_name decl (it_fuel it)) (arg_at (it_fuel it) e) = Some k \<and> it_step it \<le> k"
    using assms(1) unfolding certified_def by blast+
  show "\<exists>w. step_within decl (it_fuel it) q (loop_bound it q) n es w
    \<and> count_calls (is_param_call q) es + count_calls (is_self_call (fi_name decl)) es * w \<le> loop_bound it q n"
  proof (cases "below_floor (it_op it) n (it_floor it)")
    case True
    then have "count_calls (is_self_call (fi_name decl)) es = 0" "count_calls (is_param_call q) es \<le> loop_bound it q n"
      using ac base_within [of q it n] by auto
    then show ?thesis by (intro exI [of _ 0]) (auto simp: step_within_def count_calls_none)
  next
    case False
    have "loop_bound it q m \<le> loop_bound it q (n - it_step it)"
      if e: "e \<in> set es" "is_self_call (fi_name decl) e" "fuel_after (fuel_name decl (it_fuel it)) n (arg_at (it_fuel it) e) m" for e m
    proof -
      obtain k where "fuel_drop (fuel_name decl (it_fuel it)) (arg_at (it_fuel it) e) = Some k" "it_step it \<le> k"
        using drop in_self_calls [OF run e(1,2)] by blast
      then show ?thesis using e(3) by (intro loop_bound_mono st) (simp add: fuel_after_def)
    qed
    moreover have "count_calls (is_param_call q) es + count_calls (is_self_call (fi_name decl)) es * loop_bound it q (n - it_step it) \<le> loop_bound it q n"
      using loop_bound_step [OF st False, of "count_calls (is_self_call (fi_name decl)) es" q] ac False by simp
    ultimately show ?thesis unfolding step_within_def by blast
  qed
qed

lemma multiplicity_is_bound:
  assumes "1 \<le> it_step it" "exact_fuel it n" "max_iters n (it_floor it) (it_step it) (it_op it) = Some iters"
    "it_branch it > 1 \<Longrightarrow> branching_calls (it_branch it) iters \<le> branching_call_ceiling"
  shows "loop_multiplicity it iters q = int (loop_bound it q n)"
proof -
  let ?s = "steps_left (it_op it) (it_step it) (it_floor it) n"
  have i: "iters = int ?s" using max_iters_exact [OF assms(2,1)] assms(3) by simp
  show ?thesis
  proof (cases "it_branch it > 1")
    case True
    then obtain b where b: "it_branch it = int b" using zero_le_imp_eq_int [of "it_branch it"] by auto
    have "branching_calls (it_branch it) iters = int (geometric b (Suc ?s))"
      using branching_from_exact [of b 0 1 "Suc ?s"] assms(4) [OF True] unfolding branching_calls_def i b by (simp add: nat_add_distrib)
    then show ?thesis using True by (simp add: loop_multiplicity_def loop_bound_def Let_def param_calls_def b flip: of_nat_max)
  next
    case False
    then show ?thesis by (simp add: loop_multiplicity_def loop_bound_def Let_def param_calls_def i)
  qed
qed

end
