(* ===== verification/Cardinality_Properties.thy ===== *)
theory Cardinality_Properties
  imports Cardinality_Bounds
begin

section \<open>What the cardinality bounds guarantee\<close>

text \<open>The vectors of a resolved call, an executable run, the shapes on which the ceiling is too low, and the properties.\<close>

subsection \<open>Vectors\<close>

abbreviation cross_of :: "cap_counts \<Rightarrow> string \<Rightarrow> int" where "cross_of v cap \<equiv> dict_get v cap 0"

lemma add_count_get: "cross_of (add_count cap n v) c = cross_of v c + (if c = cap then n else 0)"
  by (simp add: add_count_def dict_get_def update_conv')

lemma fold_add_get: "cross_of (fold (\<lambda>(cap, n) v. add_count cap (g n) v) w v) c = cross_of v c + sum_list (map (\<lambda>(cap, n). if cap = c then g n else 0) w)"
  by (induction w arbitrary: v) (auto simp: add_count_get)

lemma sum_at_key: "distinct (map fst w) \<Longrightarrow> sum_list (map (\<lambda>(cap, n). if cap = c then g n else (0::int)) w) = (case map_of w c of None \<Rightarrow> 0 | Some n \<Rightarrow> g n)"
proof (induction w)
  case (Cons x w)
  obtain cap n where x: "x = (cap, n)" by fastforce
  then have "map_of w c = None" if "cap = c" using Cons.prems that by (simp add: map_of_eq_None_iff)
  then show ?case using Cons x by (cases "cap = c") simp_all
qed simp

lemma merge_sum_get: "distinct (map fst w) \<Longrightarrow> cross_of (merge_sum v w) c = cross_of v c + cross_of w c"
  using fold_add_get [of id w v c] sum_at_key [of w c id] by (auto simp: merge_sum_def dict_get_def split: option.splits)









subsection \<open>An executable run\<close>

text \<open>One run: the first arm where a branch is open, no arm of a match, each local arrow a given number of times.\<close>

fun seq_runs :: "(ir_node list \<times> bool) list \<Rightarrow> ir_node list \<times> bool" where
  "seq_runs [] = ([], False)"
| "seq_runs ((es, r) # rs) = (if r then (es, True) else (es @ fst (seq_runs rs), snd (seq_runs rs)))"

lemma taken_size: "arm \<in> set (arms_taken p n node) \<Longrightarrow> size arm < size (JObj node)"
  using member_size [of node "''then''"] else_size [of node] by (auto simp: arms_taken_def split: option.splits if_splits)

lemma taken_hd: "hd (arms_taken p n node) \<in> set (arms_taken p n node)"
  by (auto simp: arms_taken_def split: option.splits)

lemma trace_sizes: "size (hd (arms_taken p n node)) < size (JObj node)"
  by (rule taken_size [OF taken_hd])

function trace :: "nat \<Rightarrow> string \<Rightarrow> int \<Rightarrow> json \<Rightarrow> ir_node list \<times> bool" where
  "trace k p n (JArr xs) = seq_runs (map (trace k p n) xs)"
| "trace k p n (JObj node) =
     (let back = step_is node ''return'' in
      if is_if node then let a = trace k p n (hd (arms_taken p n node)) in (fst (trace k p n (member node ''cond'')) @ fst a, snd a \<or> back)
      else if kind_is node ''match'' then (fst (trace k p n (member node ''scrutinee'')), back)
      else if kind_is node ''arrow'' then (concat (replicate k (fst (trace k p n (member node ''body'')))), back)
      else let vs = seq_runs (map (\<lambda>kv. trace k p n (snd kv)) node) in (node # fst vs, snd vs \<or> back))"
| "trace k p n JNull = ([], False)"
| "trace k p n (JBool b) = ([], False)"
| "trace k p n (JInt m) = ([], False)"
| "trace k p n (JFloat x) = ([], False)"
| "trace k p n (JStr s) = ([], False)"
  by pat_completeness auto
termination
  by (relation "measure (\<lambda>(k, p, n, j). size j)") (simp_all only: in_measure case_prod_conv node_sizes trace_sizes wf_measure)




text \<open>The invocations of an activation and of those it starts, to a given depth.\<close>

fun unrolled :: "nat \<Rightarrow> fn_ir \<Rightarrow> nat \<Rightarrow> nat \<Rightarrow> int \<Rightarrow> string list" where
  "unrolled k decl i 0 n = []"
| "unrolled k decl i (Suc d) n = concat (map (\<lambda>e. direct_callee e @
     (if is_self_call (fi_name decl) e then unrolled k decl i d (n - (case fuel_drop (fuel_name decl i) (arg_at i e) of Some m \<Rightarrow> m | None \<Rightarrow> 0)) else []))
     (fst (trace k (fuel_name decl i) n (body_of decl))))"



subsection \<open>Loops\<close>

definition j_var :: "string \<Rightarrow> json" where "j_var x = JObj [(''kind'', JStr ''var''), (''name'', JStr x)]"
definition j_int :: "int \<Rightarrow> json" where "j_int n = JObj [(''kind'', JStr ''lit''), (''value'', JInt n)]"
definition j_call :: "string \<Rightarrow> json list \<Rightarrow> json" where "j_call f xs = JObj [(''kind'', JStr ''call''), (''callee'', j_var f), (''args'', JArr xs)]"
definition j_bin :: "string \<Rightarrow> json \<Rightarrow> json \<Rightarrow> json" where "j_bin op l r = JObj [(''kind'', JStr ''bin''), (''op'', JStr op), (''left'', l), (''right'', r)]"
definition j_let :: "string \<Rightarrow> json \<Rightarrow> json" where "j_let x e = JObj [(''step'', JStr ''let''), (''name'', JStr x), (''value'', e)]"
definition j_return :: "json \<Rightarrow> json" where "j_return e = JObj [(''step'', JStr ''return''), (''value'', e)]"
definition j_if :: "json \<Rightarrow> json list \<Rightarrow> json \<Rightarrow> json" where "j_if c th el = JObj [(''step'', JStr ''if''), (''cond'', c), (''then'', JArr th), (''else'', el)]"
definition j_arrow :: "json \<Rightarrow> json" where "j_arrow b = JObj [(''kind'', JStr ''arrow''), (''params'', JArr []), (''body'', b)]"

definition loop_fn :: "json list \<Rightarrow> fn_ir" where
  "loop_fn body = \<lparr>fi_name = ''loop'', fi_params = [(''msgs'', Some ''List[Str]''), (''step'', Some ''(List[Str]) -> Str''), (''n'', Some ''Int'')], fi_body = JArr body\<rparr>"

definition loop_facts :: call_facts where
  "loop_facts = \<lparr>cf_direct = [(''loop'', [''loop''])], cf_recursive = [''loop''], cf_closure = [''loop''], cf_reach = [], cf_caps = [], cf_loops = [], cf_dispatch = ''?''\<rparr>"

abbreviation stop_at_zero :: json where "stop_at_zero \<equiv> j_if (j_bin ''<='' (j_var ''n'') (j_int 0)) [j_return (j_int 0)] JNull"
abbreviation call_step :: json where "call_step \<equiv> j_call ''step'' [j_var ''msgs'']"
abbreviation call_again :: json where "call_again \<equiv> j_call ''loop'' [j_var ''msgs'', j_var ''step'', j_bin ''-'' (j_var ''n'') (j_int 1)]"

definition enter_loop :: "json list \<Rightarrow> int \<Rightarrow> resolution" where
  "enter_loop body n0 = resolve_loop_call ''loop'' (certify_recursion [] loop_facts (loop_fn body)) [j_var ''msgs'', j_arrow (j_int 0), j_int n0] [[], [(''model'', 1)], []]"



text \<open>
  The shapes the recognizer certifies and the ceiling does not cover: an invocation before the guard, a base
  that falls through to the self-call, a guard whose guarded branch is the one that recurs, and an invocation
  inside a local arrow that runs twice.
\<close>

definition eager_loop :: "json list" where
  "eager_loop = [j_let ''r'' call_step, stop_at_zero, j_return call_again]"

lemma eager_loop_missed: "enter_loop eager_loop 5 = Bounded []" "count_list (unrolled 1 (loop_fn eager_loop) 2 9 5) ''step'' = 6"
  by code_simp+

definition falling_loop :: "json list" where
  "falling_loop = [j_if (j_bin ''<='' (j_var ''n'') (j_int 0)) [j_let ''z'' (j_int 0)] JNull, j_let ''r'' call_step, j_return call_again]"

lemma falling_loop_missed: "enter_loop falling_loop 5 = Bounded [(''model'', 5)]" "count_list (unrolled 1 (loop_fn falling_loop) 2 20 5) ''step'' = 20"
  by code_simp+

definition inverted_loop :: "json list" where
  "inverted_loop = [j_if (j_bin ''<='' (j_var ''n'') (j_int 0)) [j_let ''r'' call_step, j_return call_again] (JArr [j_return (j_int 0)])]"

lemma inverted_loop_missed: "enter_loop inverted_loop 0 = Bounded []" "count_list (unrolled 1 (loop_fn inverted_loop) 2 20 0) ''step'' = 20"
  by code_simp+

definition arrow_loop :: "json list" where
  "arrow_loop = [stop_at_zero, j_let ''g'' (j_arrow call_step), j_let ''a'' (j_call ''g'' []), j_let ''b'' (j_call ''g'' []), j_return call_again]"

lemma arrow_loop_missed: "enter_loop arrow_loop 5 = Bounded [(''model'', 5)]" "count_list (unrolled 2 (loop_fn arrow_loop) 2 9 5) ''step'' = 10"
  by code_simp+

text \<open>The double nearest to two to the fifty-third plus one is the lower power.\<close>

lemma rounded_iterations: "max_iters 9007199254740993 0 1 At_Most = Some 9007199254740992" "steps_left At_Most 1 0 9007199254740993 = 9007199254740993"
  by (simp_all add: max_iters_def float_ceil_def quotient_exponent_def bit_length.simps round_half_even_def ceil_quotient_def steps_left_def Let_def)

subsection \<open>The properties\<close>





end
