(* ===== verification/Boundary_Policy.thy ===== *)
theory Boundary_Policy
  imports Cap_Order
begin

section \<open>The boundary policy over the audit graph (\<open>src/revl/policy.py\<close>)\<close>

text \<open>
  The rules an operator writes about what a component may reach, and the gate that evaluates them over
  the boundaries an audit enumerates: allow and deny lists, the agent sandbox, capability pairs, taint
  downgrades and flows, tenants, and the register floors.  A violation is its kind, its component and
  its token; the prose, the trace and the navigation record are not built.  Evidence rules, which grade
  registry dossiers, are another leg.
\<close>

subsection \<open>Glob patterns\<close>

text \<open>
  \<^verbatim>\<open>fnmatch.fnmatchcase\<close>: a star, one character, a character, or a set.  A set is a list of ranges, and
  whether it is complemented; a bracket with no closing one is a character.
\<close>

datatype glob_item = G_Star | G_One | G_Chr char | G_Set bool "(char \<times> char) list"

text \<open>\<^verbatim>\<open>!\<close> and \<^verbatim>\<open>]\<close> right after the opening bracket do not close the set.\<close>

definition set_close :: "string \<Rightarrow> nat option" where
  "set_close rest =
     (let p = (if take 1 rest = ''!'' then 1 else 0); q = (if take 1 (drop p rest) = '']'' then p + 1 else p)
      in map_option ((+) q) (py_find (CHR '']'') (drop q rest)))"

fun set_ranges :: "string \<Rightarrow> (char \<times> char) list" where
  "set_ranges (a # d # b # xs) = (if d = CHR ''-'' then (a, b) # set_ranges xs else (a, a) # set_ranges (d # b # xs))"
| "set_ranges [a, b] = [(a, a), (b, b)]"
| "set_ranges [a] = [(a, a)]"
| "set_ranges [] = []"

text \<open>
  The translator drops a range that runs backwards; a set that then begins with \<^verbatim>\<open>!\<close> reads as a
  complement, whether or not the pattern wrote it there.
\<close>

definition glob_set :: "string \<Rightarrow> glob_item" where
  "glob_set stuff =
     (let live = filter (\<lambda>(a, b). a \<le> b) in
      if take 1 stuff = ''!'' then G_Set True (live (set_ranges (tl stuff)))
      else (case live (set_ranges stuff) of
          (a, b) # rs \<Rightarrow> if a = CHR ''!'' then G_Set True (if b = a then rs else (CHR ''-'', CHR ''-'') # (b, b) # rs)
            else G_Set False ((a, b) # rs)
        | [] \<Rightarrow> G_Set False []))"

lemma set_close_bound: "set_close rest = Some j \<Longrightarrow> drop (Suc j) rest = [] \<or> length (drop (Suc j) rest) < length rest"
  by (cases rest) auto

function parse_glob :: "string \<Rightarrow> glob_item list" where
  "parse_glob [] = []"
| "parse_glob (c # rest) =
     (if c = CHR ''*'' then G_Star # parse_glob rest
      else if c = CHR ''?'' then G_One # parse_glob rest
      else if c = CHR ''['' then
        (case set_close rest of None \<Rightarrow> G_Chr c # parse_glob rest
         | Some j \<Rightarrow> glob_set (take j rest) # parse_glob (drop (Suc j) rest))
      else G_Chr c # parse_glob rest)"
  by pat_completeness auto
termination
  by (relation "measure length") (auto simp: less_Suc_eq_le)

fun item_accepts :: "glob_item \<Rightarrow> char \<Rightarrow> bool" where
  "item_accepts G_Star c = True"
| "item_accepts G_One c = True"
| "item_accepts (G_Chr d) c = (c = d)"
| "item_accepts (G_Set negated rs) c = (list_ex (\<lambda>(a, b). a \<le> c \<and> c \<le> b) rs \<noteq> negated)"

fun glob_match :: "glob_item list \<Rightarrow> string \<Rightarrow> bool" where
  "glob_match [] s = (s = [])"
| "glob_match (G_Star # g) [] = glob_match g []"
| "glob_match (G_Star # g) (c # s) = (glob_match g (c # s) \<or> glob_match (G_Star # g) s)"
| "glob_match (i # g) [] = False"
| "glob_match (i # g) (c # s) = (item_accepts i c \<and> glob_match g s)"

definition fnmatchcase :: "string \<Rightarrow> string \<Rightarrow> bool" where
  "fnmatchcase name pat = glob_match (parse_glob pat) name"

definition matches_any :: "string \<Rightarrow> string list \<Rightarrow> bool" where
  "matches_any token pats = list_ex (fnmatchcase token) pats"

text \<open>The unnameable boundary.\<close>

definition unbounded :: string where "unbounded = ''*''"

definition cap_allowed :: "string \<Rightarrow> string list \<Rightarrow> bool" where
  "cap_allowed token allow = (if token = unbounded then unbounded \<in> set allow else matches_any token allow)"

definition deny_matches :: "string \<Rightarrow> string list \<Rightarrow> bool" where
  "deny_matches token pats \<longleftrightarrow> matches_any token pats \<or> token = unbounded \<and> unbounded \<in> set pats"

text \<open>The shape a pattern must have to be parsed at all: dotted segments over a closed alphabet.\<close>

definition cap_segment :: "string \<Rightarrow> bool" where
  "cap_segment seg \<longleftrightarrow> seg \<noteq> [] \<and> list_all (\<lambda>c. ident_char c \<or> c \<in> set ''*?[]!-'') seg"

definition is_cap_glob :: "string \<Rightarrow> bool" where
  "is_cap_glob token \<longleftrightarrow> token \<noteq> [] \<and> token = py_strip token \<and> list_all cap_segment (py_split (CHR ''.'') token)"

definition glob_free :: "string \<Rightarrow> bool" where
  "glob_free pat \<longleftrightarrow> list_all (\<lambda>c. c \<notin> set ''*?['') pat"


subsection \<open>Rules\<close>

record boundary_rule =
  br_component :: bool
  br_selector :: string
  br_allow :: bool
  br_patterns :: "string list"

definition rule_selects :: "boundary_rule \<Rightarrow> string \<Rightarrow> string list \<Rightarrow> bool" where
  "rule_selects r name realms = (if br_component r then fnmatchcase name (br_selector r) else br_selector r \<in> set realms)"

record pair_rule =
  pr_selector :: string
  pr_first :: string
  pr_second :: string

definition pair_selects :: "pair_rule \<Rightarrow> string \<Rightarrow> bool" where
  "pair_selects r name = fnmatchcase name (pr_selector r)"

record approval_rule =
  ar_pattern :: string
  ar_ttl :: "int option"

record taint_flow_rule =
  tf_origin :: string
  tf_patterns :: "string list"
  tf_without_approval :: bool

record register_rule =
  gr_capability :: string
  gr_at_least :: string

record policy =
  po_rules :: "boundary_rule list"
  po_tenants :: bool
  po_mcp_allow :: "string list option"
  po_approvals :: "approval_rule list"
  po_declassify :: "boundary_rule list"
  po_taint_flow :: "taint_flow_rule list"
  po_registers :: "register_rule list"
  po_teardown :: "string list"
  po_reissue :: "string list"
  po_never_standing :: "string list"
  po_pairs :: "pair_rule list"

definition approval_covers :: "approval_rule \<Rightarrow> string \<Rightarrow> bool" where
  "approval_covers r token = fnmatchcase token (ar_pattern r)"

definition approval_rule_for :: "policy \<Rightarrow> string \<Rightarrow> approval_rule option" where
  "approval_rule_for p token = find (\<lambda>r. approval_covers r token) (po_approvals p)"

definition requires_approval :: "policy \<Rightarrow> bool" where
  "requires_approval p \<longleftrightarrow> po_approvals p \<noteq> []"

text \<open>The token of a stored spelling, or the spelling itself where it does not parse.\<close>

definition cap_token_of :: "string \<Rightarrow> string" where
  "cap_token_of spelling = (case parse_stored_cap spelling of Inr c \<Rightarrow> cap_token c | Inl e \<Rightarrow> spelling)"

text \<open>A rule against standing grants reads a parametrized spelling as its bare token as well.\<close>

definition never_standing_covers :: "string \<Rightarrow> string \<Rightarrow> bool" where
  "never_standing_covers pat token =
     (if fnmatchcase token pat then True
      else let bare = cap_token_of token in bare \<noteq> token \<and> fnmatchcase bare pat)"

definition never_standing_for :: "policy \<Rightarrow> string \<Rightarrow> string option" where
  "never_standing_for p token = find (\<lambda>pat. never_standing_covers pat token) (po_never_standing p)"

text \<open>Registers: a weaker claim ranks lower, and no claim satisfies no floor.\<close>

definition register_rank :: "(string, int) pydict" where
  "register_rank = [(''declared'', 0), (''keyed'', 1), (''strong'', 1), (''read'', 2)]"

definition register_satisfies :: "string option \<Rightarrow> string \<Rightarrow> bool" where
  "register_satisfies actual floor = (case actual of None \<Rightarrow> False
     | Some a \<Rightarrow> dict_get register_rank floor 0 \<le> dict_get register_rank a (-1))"

definition reissue_strength :: "policy \<Rightarrow> string option" where
  "reissue_strength p = (case po_reissue p of [] \<Rightarrow> None
     | s # ss \<Rightarrow> Some (min_by (\<lambda>l. dict_get register_rank l 0) s ss))"

definition teardown_floor :: "string \<Rightarrow> string list \<Rightarrow> string" where
  "teardown_floor s ss = min_by (\<lambda>l. - dict_get register_rank l 0) s ss"


subsection \<open>The audit graph\<close>

text \<open>
  What the audit says of one component: the capabilities of each emission, the host code it reaches with
  the scope each declares, its realms, and its taint.
\<close>

record component_audit =
  ca_name :: string
  ca_realms :: "string list"
  ca_capabilities :: "(string, string list) pydict"
  ca_externs :: "(string \<times> string list) list"
  ca_declassify :: "string list"
  ca_records :: "(string \<times> string option) list"
  ca_reaches :: "string list"
  ca_reach_approvals :: "string list"

record recovery_entry =
  re_kind :: string
  re_name :: string
  re_register :: "string option"

record audit_graph =
  ag_components :: "component_audit list"
  ag_registers :: "(string, string) pydict"
  ag_recovery :: "recovery_entry list"

datatype reach_kind = Reach_Emission | Reach_Host

record boundary_reach =
  rc_token :: string
  rc_via :: string
  rc_kind :: reach_kind

definition add_reach :: "boundary_reach \<Rightarrow> boundary_reach list \<Rightarrow> boundary_reach list" where
  "add_reach r out = (if list_ex (\<lambda>x. rc_token x = rc_token r \<and> rc_kind x = rc_kind r) out then out else out @ [r])"

definition reach_candidates :: "component_audit \<Rightarrow> boundary_reach list" where
  "reach_candidates c =
     concat (map (\<lambda>(label, caps). map (\<lambda>cap. \<lparr>rc_token = cap, rc_via = label, rc_kind = Reach_Emission\<rparr>) caps) (ca_capabilities c))
     @ concat (map (\<lambda>(ext, caps). map (\<lambda>t. \<lparr>rc_token = t, rc_via = ext, rc_kind = Reach_Host\<rparr>) (if caps = [] then [ext] else caps)) (ca_externs c))"

definition component_reach :: "component_audit \<Rightarrow> boundary_reach list" where
  "component_reach c = fold add_reach (reach_candidates c) []"

definition reach_tokens :: "component_audit \<Rightarrow> string list" where
  "reach_tokens c = map rc_token (component_reach c)"


subsection \<open>The gate\<close>

datatype violation_kind = V_Deny | V_Capability | V_Sandbox | V_Pair | V_Declassify | V_Declassify_Approval
  | V_Taint_Flow | V_Tenant | V_Teardown | V_Register | V_Approval

record violation =
  vi_kind :: violation_kind
  vi_component :: string
  vi_token :: string

definition allow_for :: "policy \<Rightarrow> string \<Rightarrow> string list \<Rightarrow> string list option" where
  "allow_for p name realms = (let rs = filter (\<lambda>r. br_allow r \<and> rule_selects r name realms) (po_rules p) in
     if rs = [] then None else Some (rev (remdups (rev (concat (map br_patterns rs))))))"

definition deny_for :: "policy \<Rightarrow> string \<Rightarrow> string list \<Rightarrow> boundary_rule list" where
  "deny_for p name realms = filter (\<lambda>r. \<not> br_allow r \<and> rule_selects r name realms) (po_rules p)"

text \<open>The dry run of one token: every deny rule first, then the closed allow-list.\<close>

definition capability_verdict :: "policy \<Rightarrow> string \<Rightarrow> string list \<Rightarrow> string \<Rightarrow> bool" where
  "capability_verdict p name realms token =
     (if list_ex (\<lambda>r. deny_matches token (br_patterns r)) (deny_for p name realms) then False
      else case allow_for p name realms of None \<Rightarrow> True | Some allow \<Rightarrow> cap_allowed token allow)"

definition reach_violations :: "policy \<Rightarrow> bool \<Rightarrow> component_audit \<Rightarrow> boundary_reach \<Rightarrow> violation list" where
  "reach_violations p mcp c r =
     (let v = (\<lambda>k. \<lparr>vi_kind = k, vi_component = ca_name c, vi_token = rc_token r\<rparr>) in
      map (\<lambda>rule. v V_Deny) (filter (\<lambda>rule. deny_matches (rc_token r) (br_patterns rule)) (deny_for p (ca_name c) (ca_realms c)))
      @ (case allow_for p (ca_name c) (ca_realms c) of None \<Rightarrow> [] | Some allow \<Rightarrow> if cap_allowed (rc_token r) allow then [] else [v V_Capability])
      @ (if mcp then (case po_mcp_allow p of None \<Rightarrow> [] | Some allow \<Rightarrow> if cap_allowed (rc_token r) allow then [] else [v V_Sandbox]) else []))"

text \<open>The first two distinct reaches that hold the two sides of a pair.\<close>

definition pair_reach :: "pair_rule \<Rightarrow> boundary_reach list \<Rightarrow> (boundary_reach \<times> boundary_reach) option" where
  "pair_reach rule reach =
     find (\<lambda>(a, b). rc_token a \<noteq> rc_token b)
       (List.product (filter (\<lambda>r. matches_any (rc_token r) [pr_first rule]) reach)
                     (filter (\<lambda>r. matches_any (rc_token r) [pr_second rule]) reach))"

definition pair_violations :: "policy \<Rightarrow> component_audit \<Rightarrow> violation list" where
  "pair_violations p c = List.map_filter (\<lambda>rule. if pair_selects rule (ca_name c) then
       map_option (\<lambda>(a, b). \<lparr>vi_kind = V_Pair, vi_component = ca_name c, vi_token = rc_token a @ '' + '' @ rc_token b\<rparr>)
         (pair_reach rule (component_reach c))
     else None) (po_pairs p)"

definition declassify_violations :: "policy \<Rightarrow> component_audit \<Rightarrow> violation list" where
  "declassify_violations p c = concat (map (\<lambda>origin.
     map (\<lambda>rule. \<lparr>vi_kind = V_Declassify, vi_component = ca_name c, vi_token = origin\<rparr>)
       (filter (\<lambda>rule. rule_selects rule (ca_name c) (ca_realms c) \<and> matches_any origin (br_patterns rule)) (po_declassify p)))
     (ca_declassify c))"

definition edge_covers :: "string \<Rightarrow> string \<Rightarrow> bool" where
  "edge_covers scope token \<longleftrightarrow> fnmatchcase token scope \<or> scope = token"

definition declassify_approval_violations :: "policy \<Rightarrow> component_audit \<Rightarrow> violation list" where
  "declassify_approval_violations p c = List.map_filter (\<lambda>(origin, approved).
     let token = ''declassify.'' @ origin in
     if approval_rule_for p token = None then None
     else (case approved of
         Some scope \<Rightarrow> if edge_covers scope token then None else Some \<lparr>vi_kind = V_Declassify_Approval, vi_component = ca_name c, vi_token = token\<rparr>
       | None \<Rightarrow> Some \<lparr>vi_kind = V_Declassify_Approval, vi_component = ca_name c, vi_token = token\<rparr>))
     (ca_records c)"

definition taint_flow_violations :: "policy \<Rightarrow> component_audit \<Rightarrow> violation list" where
  "taint_flow_violations p c = concat (map (\<lambda>rule.
     if tf_origin rule \<notin> set (ca_reaches c) then []
     else map (\<lambda>r. \<lparr>vi_kind = V_Taint_Flow, vi_component = ca_name c, vi_token = rc_token r\<rparr>)
       (filter (\<lambda>r. matches_any (rc_token r) (tf_patterns rule)
          \<and> \<not> (tf_without_approval rule \<and> list_ex (\<lambda>a. edge_covers a (rc_token r)) (ca_reach_approvals c))) (component_reach c)))
     (po_taint_flow p))"

definition component_violations :: "policy \<Rightarrow> string list \<Rightarrow> component_audit \<Rightarrow> violation list" where
  "component_violations p mcp c =
     concat (map (reach_violations p (ca_name c \<in> set mcp) c) (component_reach c))
     @ pair_violations p c @ declassify_violations p c @ declassify_approval_violations p c @ taint_flow_violations p c"

text \<open>Two tenants in disjoint realms share no named boundary.\<close>

definition tenant_tokens :: "component_audit \<Rightarrow> string list" where
  "tenant_tokens c = remdups (filter (\<lambda>t. t \<noteq> unbounded) (reach_tokens c))"

definition realms_meet :: "component_audit \<Rightarrow> component_audit \<Rightarrow> bool" where
  "realms_meet a b \<longleftrightarrow> list_ex (\<lambda>r. r \<in> set (ca_realms b)) (ca_realms a)"

fun pairs_in_order :: "'a list \<Rightarrow> ('a \<times> 'a) list" where
  "pairs_in_order [] = []"
| "pairs_in_order (x # xs) = map (Pair x) xs @ pairs_in_order xs"

definition shared_keys :: "component_audit \<times> component_audit \<Rightarrow> (string list \<times> string) list" where
  "shared_keys = (\<lambda>(a, b). if realms_meet a b then []
     else map (\<lambda>t. ([ca_name a, ca_name b], t)) (sort (filter (\<lambda>t. t \<in> set (tenant_tokens b)) (tenant_tokens a))))"

fun fresh_keys :: "(string list \<times> string) list \<Rightarrow> (string list \<times> string) list \<Rightarrow> violation list" where
  "fresh_keys seen [] = []"
| "fresh_keys seen ((names, t) # ks) = (if (sort names, t) \<in> set seen then fresh_keys seen ks
     else \<lparr>vi_kind = V_Tenant, vi_component = hd names, vi_token = t\<rparr> # fresh_keys ((sort names, t) # seen) ks)"

definition tenants :: "audit_graph \<Rightarrow> component_audit list" where
  "tenants g = filter (\<lambda>c. ca_realms c \<noteq> []) (ag_components g)"

definition tenant_violations :: "audit_graph \<Rightarrow> violation list" where
  "tenant_violations g = fresh_keys [] (concat (map shared_keys (pairs_in_order (tenants g))))"

definition teardown_violations :: "policy \<Rightarrow> audit_graph \<Rightarrow> violation list" where
  "teardown_violations p g = (case po_teardown p of [] \<Rightarrow> []
     | s # ss \<Rightarrow> map (\<lambda>e. \<lparr>vi_kind = V_Teardown, vi_component = re_name e, vi_token = re_name e\<rparr>)
         (filter (\<lambda>e. \<not> register_satisfies (re_register e) (teardown_floor s ss)) (ag_recovery g)))"

definition register_violations :: "policy \<Rightarrow> audit_graph \<Rightarrow> violation list" where
  "register_violations p g = concat (map (\<lambda>c. concat (map (\<lambda>rule.
     map (\<lambda>t. \<lparr>vi_kind = V_Register, vi_component = ca_name c, vi_token = t\<rparr>)
       (filter (\<lambda>t. \<not> register_satisfies (map_of (ag_registers g) t) (gr_at_least rule))
         (sort (remdups (filter (\<lambda>t. t \<noteq> unbounded \<and> fnmatchcase t (gr_capability rule)) (reach_tokens c))))))
     (po_registers p))) (ag_components g))"

definition evaluate :: "policy \<Rightarrow> string list \<Rightarrow> audit_graph \<Rightarrow> violation list" where
  "evaluate p mcp g =
     concat (map (component_violations p mcp) (ag_components g))
     @ (if po_tenants p then tenant_violations g else [])
     @ teardown_violations p g @ register_violations p g"

text \<open>Admission refuses on the first violation.\<close>

definition enforce :: "policy \<Rightarrow> string list \<Rightarrow> audit_graph \<Rightarrow> violation + unit" where
  "enforce p mcp g = (case evaluate p mcp g of [] \<Rightarrow> Inr () | v # vs \<Rightarrow> Inl v)"

text \<open>Deny and pair rules that select a component here and still refuse nothing.\<close>

definition inert_denies :: "policy \<Rightarrow> audit_graph \<Rightarrow> boundary_rule list" where
  "inert_denies p g = filter (\<lambda>rule.
     let selected = filter (\<lambda>c. rule_selects rule (ca_name c) (ca_realms c)) (ag_components g) in
     selected \<noteq> [] \<and> \<not> list_ex (\<lambda>c. list_ex (\<lambda>r. deny_matches (rc_token r) (br_patterns rule)) (component_reach c)) selected)
     (filter (\<lambda>r. \<not> br_allow r) (po_rules p))"

definition inert_pairs :: "policy \<Rightarrow> audit_graph \<Rightarrow> pair_rule list" where
  "inert_pairs p g = filter (\<lambda>rule.
     let selected = filter (\<lambda>c. pair_selects rule (ca_name c)) (ag_components g) in
     selected \<noteq> [] \<and> \<not> list_ex (\<lambda>c. pair_reach rule (component_reach c) \<noteq> None) selected) (po_pairs p)"

end
