(* ===== verification/Audit_Boundary.thy ===== *)
theory Audit_Boundary
  imports Parallel Boundary_Policy
begin

section \<open>The audit of a compiled composition (\<open>src/revl/boundary.py\<close>, \<open>src/revl/audit_diff.py\<close>)\<close>

text \<open>
  The boundary surface of each component, read off the lowered document: the emissions it can make with
  the scope each declares, the compensations, the host code it reaches through the functions it calls and
  the callables it passes, and the register of every capability.  A member of the wrong shape reads as an
  absent one; the provenance, the backends and the inverse class of an extern are not built.
\<close>

subsection \<open>Reading names\<close>

definition str_or :: "json \<Rightarrow> string" where
  "str_or j = (case j of JStr s \<Rightarrow> s | _ \<Rightarrow> [])"

definition members :: "(string \<times> json) list \<Rightarrow> string \<Rightarrow> json list" where
  "members node k = list_of_json (member node k)"

text \<open>Every name a tree calls.\<close>

function fn_call_names :: "json \<Rightarrow> string list" where
  "fn_call_names j = (case j of
     JObj node \<Rightarrow> called_here node @ concat (map (\<lambda>kv. fn_call_names (snd kv)) node)
   | JArr xs \<Rightarrow> concat (map fn_call_names xs)
   | _ \<Rightarrow> [])"
  by pat_completeness auto
termination
  by (relation "measure size") (simp_all only: in_measure json_sizes wf_measure)

declare fn_call_names.simps [simp del]


subsection \<open>Host code through functions\<close>

text \<open>The functions of a document with the names each calls.\<close>

definition direct_calls :: "(string \<times> json) list \<Rightarrow> (string, string list) pydict" where
  "direct_calls ir = dict_of (case member ir ''functions'' of
     JObj kvs \<Rightarrow> map (\<lambda>(n, decl). (n, remdups (fn_call_names decl))) kvs
   | j \<Rightarrow> map (\<lambda>decl. (str_or (member (dict_of_json decl) ''name''), remdups (fn_call_names decl))) (list_of_json j))"

text \<open>
  The resolution of one function walks the names it calls, with the functions being resolved on the
  trail and the results so far in a memo: a function on the trail contributes nothing, and what a
  function was found to reach is stored when its own walk ends.
\<close>

lemma untrailed_less: "c \<in> fst ` set d \<Longrightarrow> c \<notin> set trail
    \<Longrightarrow> length (filter (\<lambda>n. n \<notin> set (c # trail)) (map fst d)) < length (filter (\<lambda>n. n \<notin> set trail) (map fst d))"
proof -
  assume c: "c \<in> fst ` set d" "c \<notin> set trail"
  have eq: "filter (\<lambda>n. n \<notin> set (c # trail)) (map fst d) = filter (\<lambda>n. n \<noteq> c) (filter (\<lambda>n. n \<notin> set trail) (map fst d))" by (simp add: conj_commute)
  have "c \<in> set (filter (\<lambda>n. n \<notin> set trail) (map fst d))" using c by simp
  then show ?thesis unfolding eq by (rule length_filter_less) simp
qed

function walk_calls :: "string list \<Rightarrow> (string, string list) pydict \<Rightarrow> string list \<Rightarrow> string list
    \<Rightarrow> (string, string list) pydict \<times> string list \<Rightarrow> (string, string list) pydict \<times> string list" where
  "walk_calls externs direct trail [] (memo, found) = (memo, found)"
| "walk_calls externs direct trail (c # cs) (memo, found) =
     (if c \<in> set externs then walk_calls externs direct trail cs (memo, List.insert c found)
      else if c \<notin> fst ` set direct then walk_calls externs direct trail cs (memo, found)
      else case map_of memo c of
          Some r \<Rightarrow> walk_calls externs direct trail cs (memo, List.union r found)
        | None \<Rightarrow> if c \<in> set trail then walk_calls externs direct trail cs (memo, found)
            else let (memo', r) = walk_calls externs direct (c # trail) (dict_get direct c []) (memo, [])
                 in walk_calls externs direct trail cs (AList.update c r memo', List.union r found))"
  by pat_completeness auto
termination
proof (relation "(\<lambda>(externs, direct, trail, cs, st). length (filter (\<lambda>n. n \<notin> set trail) (map fst direct))) <*mlex*> measure (\<lambda>(externs, direct, trail, cs, st). length cs)", goal_cases)
  case 1 show ?case by (simp add: wf_mlex)
next
  case (5 externs direct trail c cs memo found)
  then have "c \<in> fst ` set direct" "c \<notin> set trail" by simp_all
  then show ?case by (intro mlex_less) (simp only: case_prod_conv, rule untrailed_less)
qed (simp_all add: mlex_prod_def)

definition resolve_fn :: "string list \<Rightarrow> (string, string list) pydict \<Rightarrow> string \<Rightarrow> (string, string list) pydict \<Rightarrow> (string, string list) pydict" where
  "resolve_fn externs direct n memo = (case map_of memo n of Some r \<Rightarrow> memo
     | None \<Rightarrow> let (memo', r) = walk_calls externs direct [n] (dict_get direct n []) (memo, []) in AList.update n r memo')"

definition extern_reachability :: "string list \<Rightarrow> (string, string list) pydict \<Rightarrow> (string, string list) pydict" where
  "extern_reachability externs direct = fold (resolve_fn externs direct) (map fst direct) []"


subsection \<open>Emissions of a component\<close>

text \<open>The local arrows, the last binding of a name counting.\<close>

function collect_arrows :: "json \<Rightarrow> (string \<times> (string \<times> json) list) list" where
  "collect_arrows j = (case j of
     JObj node \<Rightarrow> (case member node ''value'' of
         JObj v \<Rightarrow> if step_is node ''let'' \<and> kind_is v ''arrow'' then [(str_or (member node ''name''), v)] else [] | _ \<Rightarrow> [])
       @ concat (map (\<lambda>kv. collect_arrows (snd kv)) node)
   | JArr xs \<Rightarrow> concat (map collect_arrows xs)
   | _ \<Rightarrow> [])"
  by pat_completeness auto
termination
  by (relation "measure size") (simp_all only: in_measure json_sizes wf_measure)

declare collect_arrows.simps [simp del]

text \<open>The methods an arrow calls on one of its parameters.\<close>

function param_methods :: "string \<Rightarrow> json \<Rightarrow> json list" where
  "param_methods param j = (case j of
     JObj node \<Rightarrow> (case member node ''target'' of
         JObj t \<Rightarrow> if kind_is node ''call'' \<and> kind_is t ''name'' \<and> member t ''id'' = JStr param then [member node ''method''] else [] | _ \<Rightarrow> [])
       @ concat (map (\<lambda>kv. param_methods param (snd kv)) node)
   | JArr xs \<Rightarrow> concat (map (param_methods param) xs)
   | _ \<Rightarrow> [])"
  by pat_completeness auto
termination
  by (relation "measure (size \<circ> snd)") (simp_all only: in_measure comp_apply snd_conv json_sizes wf_measure)

declare param_methods.simps [simp del]

text \<open>A write into the table of emissions: a label and the scope declared for it, a star for none.\<close>

definition scope_of :: "(string \<times> json) list \<Rightarrow> string list" where
  "scope_of spec = (case member spec ''capabilities'' of JNull \<Rightarrow> [unbounded] | j \<Rightarrow> sort (strings_in j))"

definition label_of :: "json \<Rightarrow> json \<Rightarrow> string" where
  "label_of k m = str_or k @ ''.'' @ str_or m"

definition service_of :: "(string \<times> json) list \<Rightarrow> json \<Rightarrow> (string \<times> json) list" where
  "service_of ir s = dict_of_json (member_at (dict_of_json (member ir ''services'')) s)"

definition spec_write :: "(string \<times> json) list \<Rightarrow> json \<Rightarrow> json \<Rightarrow> json \<Rightarrow> (string \<times> string list) list" where
  "spec_write ir service k m = (let spec = method_spec (service_of ir service) m in
     if truthy (member spec ''emission'') then [(label_of k m, scope_of spec)] else [])"

definition call_labels :: "(string \<times> json) list \<Rightarrow> (string \<times> json) list \<Rightarrow> (string \<times> json) list \<Rightarrow> (string \<times> string list) list" where
  "call_labels ir cmp node =
     (if \<not> kind_is node ''call'' then []
      else (case member node ''target'' of
          JObj t \<Rightarrow> if kind_is t ''req'' then spec_write ir (member_at (dict_of_json (member cmp ''requires'')) (member t ''name'')) (member t ''name'') (member node ''method'') else []
        | _ \<Rightarrow> [])
      @ (case member node ''callee'' of
          JObj callee \<Rightarrow> (case member callee ''target'' of
              JObj recv \<Rightarrow> if kind_is callee ''field'' \<and> kind_is recv ''instance-get'' then spec_write ir (member recv ''service'') (member recv ''key'') (member callee ''name'') else []
            | _ \<Rightarrow> [])
        | _ \<Rightarrow> []))"

text \<open>A provision handed to a local arrow whose parameter is a service.\<close>

definition arrow_arg_writes :: "(string \<times> json) list \<Rightarrow> (string \<times> json) list \<Rightarrow> json \<times> json \<Rightarrow> (string \<times> string list) list" where
  "arrow_arg_writes ir arrow = (\<lambda>(param, arg).
     case member_at (dict_of_json (member arrow ''service_params'')) param of JNull \<Rightarrow> []
     | service \<Rightarrow> (case arg of JObj a \<Rightarrow>
         if kind_is a ''instance-get''
         then concat (map (spec_write ir (if truthy (member a ''service'') then member a ''service'' else service) (member a ''key''))
                (param_methods (str_or param) (member arrow ''body'')))
         else []
       | _ \<Rightarrow> []))"

definition arrow_writes :: "(string \<times> json) list \<Rightarrow> (string, (string \<times> json) list) pydict \<Rightarrow> (string \<times> json) list \<Rightarrow> (string \<times> string list) list" where
  "arrow_writes ir arrows node = (case member node ''callee'' of
     JObj callee \<Rightarrow> if kind_is node ''call'' \<and> kind_is callee ''name'' then
         (case map_of arrows (str_or (member callee ''id'')) of
            Some arrow \<Rightarrow> concat (map (arrow_arg_writes ir arrow) (zip (members arrow ''params'') (members node ''args'')))
          | None \<Rightarrow> [])
       else []
   | _ \<Rightarrow> [])"

function walk_expr :: "(string \<times> json) list \<Rightarrow> (string \<times> json) list \<Rightarrow> (string, (string \<times> json) list) pydict \<Rightarrow> json \<Rightarrow> (string \<times> string list) list" where
  "walk_expr ir cmp arrows j = (case j of
     JObj node \<Rightarrow> call_labels ir cmp node @ arrow_writes ir arrows node @ concat (map (\<lambda>kv. walk_expr ir cmp arrows (snd kv)) node)
   | JArr xs \<Rightarrow> concat (map (walk_expr ir cmp arrows) xs)
   | _ \<Rightarrow> [])"
  by pat_completeness auto
termination
  by (relation "measure (\<lambda>(ir, cmp, arrows, j). size j)") (simp_all only: in_measure case_prod_conv json_sizes wf_measure)

declare walk_expr.simps [simp del]

record boundary_stats =
  bs_writes :: "(string \<times> string list) list"
  bs_compensated :: "string list"
  bs_host_compensated :: "string list"
  bs_awaits :: nat

definition compensated_here :: "(string \<times> json) list \<Rightarrow> (string \<times> json) list \<Rightarrow> (string \<times> json) list \<Rightarrow> string list \<times> string list" where
  "compensated_here ir cmp step =
     (if step_is step ''emit'' \<and> member step ''compensate'' \<noteq> JNull then
        (case member step ''expr'' of
           JObj e \<Rightarrow> if call_labels ir cmp e \<noteq> [] then (map fst (call_labels ir cmp e), []) else ([], name_in e)
         | _ \<Rightarrow> ([], []))
      else ([], []))"

definition step_stats :: "(string \<times> json) list \<Rightarrow> (string \<times> json) list \<Rightarrow> (string, (string \<times> json) list) pydict \<Rightarrow> json \<Rightarrow> boundary_stats \<Rightarrow> boundary_stats" where
  "step_stats ir cmp arrows j st = (let step = dict_of_json j; (labels, hosts) = compensated_here ir cmp step in
     \<lparr>bs_writes = bs_writes st @ walk_expr ir cmp arrows j,
      bs_compensated = bs_compensated st @ labels,
      bs_host_compensated = bs_host_compensated st @ hosts,
      bs_awaits = bs_awaits st + (if step_is step ''await'' then 1 else 0)\<rparr>)"

text \<open>The steps of a body, those of the methods it provides after the step that provides them.\<close>

definition method_bodies :: "json \<Rightarrow> json list" where
  "method_bodies j = (if step_is (dict_of_json j) ''provide'' then map (\<lambda>m. member (dict_of_json m) ''body'') (members (dict_of_json j) ''methods'') else [])"

lemma method_body_size: "b \<in> set (method_bodies j) \<Longrightarrow> size b < size j"
proof (cases j)
  case (JObj node)
  assume "b \<in> set (method_bodies j)"
  then obtain m where m: "m \<in> set (list_of_json (member node ''methods''))" "b = member (dict_of_json m) ''body''"
    using JObj by (auto simp: method_bodies_def dict_of_json_def members_def split: if_splits)
  have "size b \<le> size m"
  proof (cases m)
    case (JObj kvs)
    then show ?thesis using m(2) member_size [of kvs "''body''"] by (simp add: dict_of_json_def)
  qed (simp_all add: m(2) dict_of_json_def member_def dict_get_def)
  then show ?thesis using list_member_size [OF m(1)] JObj by simp
qed (simp_all add: method_bodies_def dict_of_json_def step_is_def member_def dict_get_def)

function body_stats :: "(string \<times> json) list \<Rightarrow> (string \<times> json) list \<Rightarrow> (string, (string \<times> json) list) pydict \<Rightarrow> json \<Rightarrow> boundary_stats \<Rightarrow> boundary_stats" where
  "body_stats ir cmp arrows steps st =
     fold (\<lambda>j st. fold (body_stats ir cmp arrows) (method_bodies j) (step_stats ir cmp arrows j st)) (list_of_json steps) st"
  by pat_completeness auto
termination
  by (relation "measure (\<lambda>(ir, cmp, arrows, steps, st). size steps)")
    (auto dest!: method_body_size list_size)

declare body_stats.simps [simp del]

definition no_stats :: boundary_stats where
  "no_stats = \<lparr>bs_writes = [], bs_compensated = [], bs_host_compensated = [], bs_awaits = 0\<rparr>"

definition component_stats :: "(string \<times> json) list \<Rightarrow> (string \<times> json) list \<Rightarrow> boundary_stats" where
  "component_stats ir cmp = body_stats ir cmp (dict_of (collect_arrows (member cmp ''body''))) (member cmp ''body'') no_stats"


subsection \<open>The report of a component\<close>

definition extern_names :: "(string \<times> json) list \<Rightarrow> string list" where
  "extern_names ir = map ex_name (externs_of_ir ir)"

text \<open>The host code of a body: called, reached through functions, or carried by a callable passed as a value.\<close>

definition carried :: "(string \<times> json) list \<Rightarrow> string \<Rightarrow> string list" where
  "carried ir n = dict_get (emitting_extern_names (fns_of_ir ir) (externs_of_ir ir)) n []"

definition called_host :: "(string \<times> json) list \<Rightarrow> string \<Rightarrow> string list" where
  "called_host ir n = (if n \<in> set (extern_names ir) then [n]
     else dict_get (extern_reachability (extern_names ir) (direct_calls ir)) n [] @ filter (\<lambda>c. c \<noteq> unbounded) (carried ir n))"

definition unknown_dispatch :: "(string \<times> json) list \<Rightarrow> json \<Rightarrow> bool" where
  "unknown_dispatch ir body \<longleftrightarrow> list_ex (\<lambda>n. n \<notin> set (extern_names ir) \<and> unbounded \<in> set (carried ir n)) (fn_call_names body)
     \<or> list_ex (\<lambda>n. unbounded \<in> set (carried ir n)) (snd (calls_in False False body))"

definition host_reach :: "(string \<times> json) list \<Rightarrow> json \<Rightarrow> string list" where
  "host_reach ir body = sort (remdups (concat (map (called_host ir) (fn_call_names body))
     @ concat (map (\<lambda>n. filter (\<lambda>c. c \<noteq> unbounded) (carried ir n)) (snd (calls_in False False body)))
     @ (if unknown_dispatch ir body then [unbounded] else [])))"

definition extern_scope :: "(string \<times> json) list \<Rightarrow> string \<Rightarrow> string list" where
  "extern_scope ir n = (if n = unbounded then [] else sort (strings_in (member (dict_get (extern_index ir) n []) ''capabilities'')))"

record boundary_report =
  rp_emissions :: "string list"
  rp_capabilities :: "(string, string list) pydict"
  rp_compensated :: nat
  rp_host_compensated :: "string list"
  rp_awaits :: nat
  rp_externs :: "(string \<times> string list) list"
  rp_taint :: "(string \<times> json) list"

definition component_report :: "(string \<times> json) list \<Rightarrow> (string \<times> json) list \<Rightarrow> boundary_report" where
  "component_report ir cmp = (let st = component_stats ir cmp in
     \<lparr>rp_emissions = sort (remdups (map fst (bs_writes st))),
      rp_capabilities = sort_key fst (dict_of (bs_writes st)),
      rp_compensated = length (remdups (bs_compensated st)),
      rp_host_compensated = sort (remdups (bs_host_compensated st)),
      rp_awaits = bs_awaits st,
      rp_externs = map (\<lambda>n. (n, extern_scope ir n)) (host_reach ir (member cmp ''body'')),
      rp_taint = dict_of_json (member cmp ''taint'')\<rparr>)"

definition boundary_of :: "(string \<times> json) list \<Rightarrow> (string, boundary_report) pydict" where
  "boundary_of ir = dict_of (map (\<lambda>c. (str_or (member (dict_of_json c) ''name''), component_report ir (dict_of_json c))) (members ir ''components''))"


subsection \<open>Registers and the recovery surface\<close>

definition service_methods :: "(string \<times> json) list \<Rightarrow> (string \<times> json) list list" where
  "service_methods ir = concat (map (\<lambda>(n, svc). map (\<lambda>(m, spec). dict_of_json spec) (dict_of_json (member (dict_of_json svc) ''methods''))) (dict_of_json (member ir ''services'')))"

definition record_register :: "string \<Rightarrow> string \<Rightarrow> (string, string) pydict \<Rightarrow> (string, string) pydict" where
  "record_register register token out = (case map_of out token of
     Some prior \<Rightarrow> if dict_get register_rank register (-1) < dict_get register_rank prior (-1) then AList.update token register out else out
   | None \<Rightarrow> AList.update token register out)"

definition extern_registers :: "(string \<times> json) list \<Rightarrow> (string \<times> string) list" where
  "extern_registers ext = (if truthy (member ext ''register'') then
     map (\<lambda>t. (str_or (member ext ''register''), t))
       (if strings_in (member ext ''capabilities'') = [] then [str_or (member ext ''name'')] else strings_in (member ext ''capabilities'')) else [])"

definition method_registers :: "(string \<times> json) list \<Rightarrow> (string \<times> string) list" where
  "method_registers spec = (if truthy (member spec ''idempotent'') then
     map (Pair (if truthy (member spec ''idempotency_key'') then ''keyed'' else ''declared'')) (strings_in (member spec ''capabilities'')) else [])"

definition capability_registers :: "(string \<times> json) list \<Rightarrow> (string, string) pydict" where
  "capability_registers ir = fold (\<lambda>(r, t). record_register r t)
     (concat (map (\<lambda>e. extern_registers (dict_of_json e)) (members ir ''externs'')) @ concat (map method_registers (service_methods ir))) []"

definition register_of :: "(string \<times> json) list \<Rightarrow> string option" where
  "register_of ext = (case member ext ''register'' of JStr r \<Rightarrow> Some r | _ \<Rightarrow> None)"

definition recovery_entries :: "(string \<times> json) list \<Rightarrow> recovery_entry list" where
  "recovery_entries ext = (let entry = (\<lambda>k. \<lparr>re_kind = k, re_name = str_or (member ext ''name''), re_register = register_of ext\<rparr>) in
     (if member ext ''undo'' \<noteq> JNull \<or> member ext ''class'' = JStr ''witnessed'' then [entry ''inverse''] else [])
     @ (if truthy (member ext ''deferred'') then [entry ''owed-emission''] else [])
     @ (if member ext ''compensate'' \<noteq> JNull then [entry ''compensation''] else []))"

definition recovery_surface :: "(string \<times> json) list \<Rightarrow> recovery_entry list" where
  "recovery_surface ir = concat (map (\<lambda>e. recovery_entries (dict_of_json e)) (members ir ''externs''))"


subsection \<open>The audit graph of a composition\<close>

definition component_realms :: "(string \<times> json) list \<Rightarrow> string \<Rightarrow> string list" where
  "component_realms manifest name = (case find (\<lambda>e. member (dict_of_json e) ''name'' = JStr name) (members manifest ''components'') of
     Some e \<Rightarrow> map (\<lambda>(k, v). str_or v) (dict_of_json (member (dict_of_json e) ''isolate'')) | None \<Rightarrow> [])"

definition endorse_record :: "json \<Rightarrow> string \<times> string option" where
  "endorse_record j = (let r = dict_of_json j in
     (str_or (member r ''origin''), case member r ''approved'' of JStr s \<Rightarrow> Some s | _ \<Rightarrow> None))"

definition audit_component :: "(string \<times> json) list \<Rightarrow> string \<times> boundary_report \<Rightarrow> component_audit" where
  "audit_component ir = (\<lambda>(name, rp).
     \<lparr>ca_name = name, ca_realms = component_realms (dict_of_json (member ir ''manifest'')) name,
      ca_capabilities = rp_capabilities rp, ca_externs = rp_externs rp,
      ca_declassify = strings_in (member (rp_taint rp) ''declassify''),
      ca_records = map endorse_record (members (rp_taint rp) ''declassify_records''),
      ca_reaches = strings_in (member (rp_taint rp) ''reaches''),
      ca_reach_approvals = strings_in (member (rp_taint rp) ''reach_approvals'')\<rparr>)"

definition audit_report :: "(string \<times> json) list \<Rightarrow> audit_graph" where
  "audit_report ir = \<lparr>ag_components = map (audit_component ir) (boundary_of ir),
     ag_registers = capability_registers ir, ag_recovery = recovery_surface ir\<rparr>"


subsection \<open>Approval at admission\<close>

text \<open>The scopes of the approvals a component threads through its emit steps.\<close>

function approval_edges :: "json \<Rightarrow> string list" where
  "approval_edges j = (case j of
     JObj node \<Rightarrow> (case member node ''approval'' of
         JObj a \<Rightarrow> if step_is node ''emit'' then (case member a ''capability'' of JStr s \<Rightarrow> if s = [] then [] else [s] | _ \<Rightarrow> []) else [] | _ \<Rightarrow> [])
       @ concat (map (\<lambda>kv. approval_edges (snd kv)) node)
   | JArr xs \<Rightarrow> concat (map approval_edges xs)
   | _ \<Rightarrow> [])"
  by pat_completeness auto
termination
  by (relation "measure size") (simp_all only: in_measure json_sizes wf_measure)

declare approval_edges.simps [simp del]

definition component_bodies :: "(string \<times> json) list \<Rightarrow> (string, json) pydict" where
  "component_bodies ir = dict_of (map (\<lambda>c. (str_or (member (dict_of_json c) ''name''), member (dict_of_json c) ''body'')) (members ir ''components''))"

definition approval_violations :: "policy \<Rightarrow> string list \<Rightarrow> component_audit \<Rightarrow> violation list" where
  "approval_violations p edges c = List.map_filter (\<lambda>r.
     if rc_token r = unbounded \<or> approval_rule_for p (rc_token r) = None \<or> list_ex (\<lambda>scope. edge_covers scope (rc_token r)) edges then None
     else Some \<lparr>vi_kind = V_Approval, vi_component = ca_name c, vi_token = rc_token r\<rparr>) (component_reach c)"

definition approval_admission :: "policy \<Rightarrow> (string \<times> json) list \<Rightarrow> violation list" where
  "approval_admission p ir = (if po_approvals p = [] then [] else
     concat (map (\<lambda>c. case map_of (component_bodies ir) (ca_name c) of
         Some body \<Rightarrow> approval_violations p (approval_edges body) c | None \<Rightarrow> []) (ag_components (audit_report ir))))"

end
