(* ===== verification/Boundary_Policy_Properties.thy ===== *)
theory Boundary_Policy_Properties
  imports Boundary_Policy
begin

section \<open>What the boundary policy refuses\<close>

text \<open>
  Patterns against the words they match, the gate read as one condition on the audit graph, the dry run
  against the gate, the isolation of tenants, and rules that only ever refuse more.
\<close>

subsection \<open>Patterns\<close>

lemma glob_match_star: "glob_match (G_Star # g) s \<longleftrightarrow> (\<exists>u v. s = u @ v \<and> glob_match g v)"
proof (induction s)
  case (Cons c s)
  have "(\<exists>u v. c # s = u @ v \<and> glob_match g v) \<longleftrightarrow> glob_match g (c # s) \<or> (\<exists>u v. s = u @ v \<and> glob_match g v)"
    by (metis append_Cons append_Nil neq_Nil_conv list.inject)
  then show ?case using Cons by simp
qed simp

lemma glob_match_chars: "glob_match (map G_Chr w) s \<longleftrightarrow> s = w"
proof (induction w arbitrary: s)
  case (Cons c w)
  show ?case using Cons by (cases s) auto
qed simp

lemma parse_glob_free: "glob_free pat \<Longrightarrow> parse_glob pat = map G_Chr pat"
  by (induction pat) (simp_all add: glob_free_def)

lemma glob_free_exact: "glob_free pat \<Longrightarrow> fnmatchcase name pat \<longleftrightarrow> name = pat"
  by (simp add: fnmatchcase_def parse_glob_free glob_match_chars)

lemma star_matches [simp]: "fnmatchcase name ''*''"
  by (simp add: fnmatchcase_def glob_match_star)

lemma prefix_star: "glob_free pre \<Longrightarrow> fnmatchcase name (pre @ ''*'') \<longleftrightarrow> prefix pre name"
proof -
  assume "glob_free pre"
  then have "parse_glob (pre @ ''*'') = map G_Chr pre @ [G_Star]" by (induction pre) (simp_all add: glob_free_def)
  moreover have "glob_match (map G_Chr pre @ [G_Star]) name \<longleftrightarrow> prefix pre name" for name
  proof (induction pre arbitrary: name)
    case (Cons c pre)
    show ?case using Cons by (cases name) auto
  qed (simp add: glob_match_star)
  ultimately show ?thesis by (simp add: fnmatchcase_def)
qed

lemma matches_any_iff: "matches_any t pats \<longleftrightarrow> (\<exists>q \<in> set pats. fnmatchcase t q)"
  by (auto simp: matches_any_def list_ex_iff)

lemma star_allows: "unbounded \<in> set allow \<Longrightarrow> cap_allowed t allow"
  by (auto simp: cap_allowed_def matches_any_iff unbounded_def intro: bexI [of _ "''*''"])


subsection \<open>Reach\<close>

abbreviation reach_key :: "boundary_reach \<Rightarrow> string \<times> reach_kind" where
  "reach_key r \<equiv> (rc_token r, rc_kind r)"

lemma add_reach_keys: "reach_key ` set (add_reach r out) = insert (reach_key r) (reach_key ` set out)"
proof (cases "reach_key r \<in> reach_key ` set out")
  case True
  then have "list_ex (\<lambda>x. rc_token x = rc_token r \<and> rc_kind x = rc_kind r) out" by (auto simp: list_ex_iff)
  then show ?thesis using True by (simp add: add_reach_def insert_absorb)
next
  case False
  have "reach_key x \<noteq> reach_key r" if "x \<in> set out" for x
  proof
    assume same: "reach_key x = reach_key r"
    have "reach_key x \<in> reach_key ` set out" using that by (rule imageI)
    then show False using False by (simp only: same)
  qed
  then have "\<not> list_ex (\<lambda>x. rc_token x = rc_token r \<and> rc_kind x = rc_kind r) out" by (auto simp: list_ex_iff)
  then show ?thesis by (simp add: add_reach_def)
qed

lemma fold_reach_keys: "reach_key ` set (fold add_reach rs out) = reach_key ` set rs \<union> reach_key ` set out"
proof (induction rs arbitrary: out)
  case (Cons r rs)
  show ?case using Cons [of "add_reach r out"] by (simp add: add_reach_keys)
qed simp

lemma fold_reach_subset: "set (fold add_reach rs out) \<subseteq> set rs \<union> set out"
proof (induction rs arbitrary: out)
  case (Cons r rs)
  have "set (add_reach r out) \<subseteq> insert r (set out)" by (auto simp: add_reach_def)
  then show ?case using Cons [of "add_reach r out"] by auto
qed simp

lemma fold_reach_distinct: "distinct (map reach_key out)
    \<Longrightarrow> distinct (map reach_key (fold add_reach rs out))"
proof (induction rs arbitrary: out)
  case (Cons r rs)
  have "distinct (map reach_key (add_reach r out))"
    using Cons.prems by (auto simp: add_reach_def list_ex_iff)
  then show ?case using Cons.IH by simp
qed simp

definition audit_tokens :: "component_audit \<Rightarrow> string set" where
  "audit_tokens c = (\<Union>(label, caps) \<in> set (ca_capabilities c). set caps)
     \<union> (\<Union>(ext, caps) \<in> set (ca_externs c). if caps = [] then {ext} else set caps)"

lemma candidate_tokens: "rc_token ` set (reach_candidates c) = audit_tokens c"
proof -
  have "rc_token ` set (concat (map (\<lambda>(label, caps). map (\<lambda>cap. \<lparr>rc_token = cap, rc_via = label, rc_kind = Reach_Emission\<rparr>) caps) xs))
      = (\<Union>(label, caps) \<in> set xs. set caps)" for xs
  proof (induction xs)
    case (Cons x xs)
    then show ?case by (cases x) (simp add: image_Un image_image del: set_concat)
  qed simp
  moreover have "rc_token ` set (concat (map (\<lambda>(ext, caps). map (\<lambda>t. \<lparr>rc_token = t, rc_via = ext, rc_kind = Reach_Host\<rparr>) (if caps = [] then [ext] else caps)) xs))
      = (\<Union>(ext, caps) \<in> set xs. if caps = [] then {ext} else set caps)" for xs
  proof (induction xs)
    case (Cons x xs)
    then show ?case by (cases x) (simp add: image_Un image_image del: set_concat)
  qed simp
  ultimately show ?thesis by (simp only: reach_candidates_def audit_tokens_def set_append image_Un)
qed

lemma reach_tokens_set: "set (reach_tokens c) = audit_tokens c"
proof -
  have "rc_token ` set (component_reach c) = fst ` reach_key ` set (component_reach c)" by (simp add: image_image)
  also have "\<dots> = rc_token ` set (reach_candidates c)" by (simp add: component_reach_def fold_reach_keys image_image)
  finally show ?thesis by (simp add: reach_tokens_def candidate_tokens)
qed

lemma reach_of_token: "(\<exists>r \<in> set (component_reach c). P (rc_token r)) \<longleftrightarrow> (\<exists>t \<in> audit_tokens c. P t)"
  by (simp add: reach_tokens_set [of c, symmetric] reach_tokens_def)

lemma reach_all_tokens: "(\<forall>r \<in> set (component_reach c). P (rc_token r)) \<longleftrightarrow> (\<forall>t \<in> audit_tokens c. P t)"
  by (simp add: reach_tokens_set [of c, symmetric] reach_tokens_def)


subsection \<open>One component\<close>

definition sandboxed :: "policy \<Rightarrow> bool \<Rightarrow> string \<Rightarrow> bool" where
  "sandboxed p mcp t \<longleftrightarrow> (mcp \<longrightarrow> (case po_mcp_allow p of None \<Rightarrow> True | Some allow \<Rightarrow> cap_allowed t allow))"

text \<open>The gate refuses a reach exactly where the dry run says so, or the sandbox does.\<close>

lemma reach_clean: "reach_violations p mcp c r = []
    \<longleftrightarrow> capability_verdict p (ca_name c) (ca_realms c) (rc_token r) \<and> sandboxed p mcp (rc_token r)"
  by (auto simp: reach_violations_def capability_verdict_def sandboxed_def Let_def filter_empty_conv list_ex_iff split: option.splits)

definition holds_pair :: "component_audit \<Rightarrow> pair_rule \<Rightarrow> bool" where
  "holds_pair c rule \<longleftrightarrow> (\<exists>s \<in> audit_tokens c. \<exists>t \<in> audit_tokens c.
     s \<noteq> t \<and> fnmatchcase s (pr_first rule) \<and> fnmatchcase t (pr_second rule))"

lemma pair_reach_iff: "pair_reach rule (component_reach c) \<noteq> None \<longleftrightarrow> holds_pair c rule"
proof -
  have "pair_reach rule (component_reach c) \<noteq> None \<longleftrightarrow> (\<exists>a \<in> set (component_reach c). \<exists>b \<in> set (component_reach c).
      rc_token a \<noteq> rc_token b \<and> fnmatchcase (rc_token a) (pr_first rule) \<and> fnmatchcase (rc_token b) (pr_second rule))"
    by (auto simp: pair_reach_def find_None_iff matches_any_iff)
  also have "\<dots> \<longleftrightarrow> holds_pair c rule"
    unfolding holds_pair_def
    by (subst reach_of_token [of c "\<lambda>s. \<exists>b \<in> set (component_reach c). s \<noteq> rc_token b \<and> fnmatchcase s (pr_first rule) \<and> fnmatchcase (rc_token b) (pr_second rule)"])
       (rule bex_cong [OF refl], rule reach_of_token)
  finally show ?thesis .
qed

lemma pair_reach_None: "pair_reach rule (component_reach c) = None \<longleftrightarrow> \<not> holds_pair c rule"
  by (simp only: pair_reach_iff [symmetric] not_not)

lemma concat_map_Nil: "concat (map f xs) = [] \<longleftrightarrow> (\<forall>x \<in> set xs. f x = [])"
  by simp

lemma pair_clean: "pair_violations p c = [] \<longleftrightarrow> (\<forall>rule \<in> set (po_pairs p). pair_selects rule (ca_name c) \<longrightarrow> \<not> holds_pair c rule)"
  by (simp add: pair_violations_def map_filter_Nil pair_reach_None)

definition may_declassify :: "policy \<Rightarrow> component_audit \<Rightarrow> string \<Rightarrow> bool" where
  "may_declassify p c origin \<longleftrightarrow> (\<forall>rule \<in> set (po_declassify p).
     rule_selects rule (ca_name c) (ca_realms c) \<longrightarrow> \<not> matches_any origin (br_patterns rule))"

lemma declassify_clean: "declassify_violations p c = [] \<longleftrightarrow> (\<forall>origin \<in> set (ca_declassify c). may_declassify p c origin)"
  by (auto simp: declassify_violations_def may_declassify_def filter_empty_conv)

definition endorse_covered :: "policy \<Rightarrow> string \<Rightarrow> string option \<Rightarrow> bool" where
  "endorse_covered p origin approved \<longleftrightarrow> approval_rule_for p (''declassify.'' @ origin) = None
     \<or> (\<exists>scope. approved = Some scope \<and> edge_covers scope (''declassify.'' @ origin))"

lemma declassify_approval_clean: "declassify_approval_violations p c = []
    \<longleftrightarrow> (\<forall>(origin, approved) \<in> set (ca_records c). endorse_covered p origin approved)"
  by (auto simp: declassify_approval_violations_def map_filter_Nil endorse_covered_def Let_def split: if_splits option.splits)

definition flow_permitted :: "component_audit \<Rightarrow> taint_flow_rule \<Rightarrow> bool" where
  "flow_permitted c rule \<longleftrightarrow> (tf_origin rule \<in> set (ca_reaches c) \<longrightarrow> (\<forall>t \<in> audit_tokens c. matches_any t (tf_patterns rule) \<longrightarrow>
     tf_without_approval rule \<and> (\<exists>a \<in> set (ca_reach_approvals c). edge_covers a t)))"

lemma taint_flow_clean: "taint_flow_violations p c = [] \<longleftrightarrow> (\<forall>rule \<in> set (po_taint_flow p). flow_permitted c rule)"
proof -
  have flows: "filter (\<lambda>r. matches_any (rc_token r) (tf_patterns rule) \<and> \<not> (tf_without_approval rule \<and> list_ex (\<lambda>a. edge_covers a (rc_token r)) (ca_reach_approvals c)))
      (component_reach c) = [] \<longleftrightarrow> (\<forall>t \<in> audit_tokens c. matches_any t (tf_patterns rule) \<longrightarrow>
        tf_without_approval rule \<and> (\<exists>a \<in> set (ca_reach_approvals c). edge_covers a t))" for rule
    unfolding filter_empty_conv list_ex_iff reach_all_tokens [symmetric] by blast
  show ?thesis
    unfolding taint_flow_violations_def concat_map_Nil
  proof (rule ball_cong [OF refl])
    fix rule
    show "((if tf_origin rule \<notin> set (ca_reaches c) then []
        else map (\<lambda>r. \<lparr>vi_kind = V_Taint_Flow, vi_component = ca_name c, vi_token = rc_token r\<rparr>)
          (filter (\<lambda>r. matches_any (rc_token r) (tf_patterns rule)
             \<and> \<not> (tf_without_approval rule \<and> list_ex (\<lambda>a. edge_covers a (rc_token r)) (ca_reach_approvals c))) (component_reach c))) = [])
        = flow_permitted c rule"
      unfolding flow_permitted_def flows [symmetric] by (cases "tf_origin rule \<in> set (ca_reaches c)") (simp_all only: simp_thms if_True if_False map_is_Nil_conv not_not)
  qed
qed

definition component_lawful :: "policy \<Rightarrow> string list \<Rightarrow> component_audit \<Rightarrow> bool" where
  "component_lawful p mcp c \<longleftrightarrow>
     (\<forall>t \<in> audit_tokens c. capability_verdict p (ca_name c) (ca_realms c) t \<and> sandboxed p (ca_name c \<in> set mcp) t)
     \<and> (\<forall>rule \<in> set (po_pairs p). pair_selects rule (ca_name c) \<longrightarrow> \<not> holds_pair c rule)
     \<and> (\<forall>origin \<in> set (ca_declassify c). may_declassify p c origin)
     \<and> (\<forall>(origin, approved) \<in> set (ca_records c). endorse_covered p origin approved)
     \<and> (\<forall>rule \<in> set (po_taint_flow p). flow_permitted c rule)"

lemma component_clean: "component_violations p mcp c = [] \<longleftrightarrow> component_lawful p mcp c"
  by (simp add: component_violations_def component_lawful_def reach_clean pair_clean declassify_clean declassify_approval_clean
    taint_flow_clean reach_all_tokens [of c "\<lambda>t. capability_verdict p (ca_name c) (ca_realms c) t \<and> sandboxed p (ca_name c \<in> set mcp) t"])


subsection \<open>Tenants and floors\<close>

definition tenants_apart :: "component_audit \<Rightarrow> component_audit \<Rightarrow> bool" where
  "tenants_apart a b \<longleftrightarrow> (set (ca_realms a) \<inter> set (ca_realms b) = {} \<longrightarrow> audit_tokens a \<inter> audit_tokens b \<subseteq> {unbounded})"

lemma fresh_keys_Nil: "fresh_keys [] ks = [] \<longleftrightarrow> ks = []"
  by (cases ks) auto

lemma shared_keys_Nil: "shared_keys (a, b) = [] \<longleftrightarrow> tenants_apart a b"
proof -
  have "realms_meet a b \<longleftrightarrow> set (ca_realms a) \<inter> set (ca_realms b) \<noteq> {}" by (auto simp: realms_meet_def list_ex_iff)
  moreover have "sort (filter (\<lambda>t. t \<in> set (tenant_tokens b)) (tenant_tokens a)) = []
      \<longleftrightarrow> set (filter (\<lambda>t. t \<in> set (tenant_tokens b)) (tenant_tokens a)) = {}"
    by (metis set_empty set_sort)
  moreover have "set (filter (\<lambda>t. t \<in> set (tenant_tokens b)) (tenant_tokens a)) = {} \<longleftrightarrow> audit_tokens a \<inter> audit_tokens b \<subseteq> {unbounded}"
    by (auto simp: tenant_tokens_def reach_tokens_set)
  ultimately show ?thesis by (simp add: shared_keys_def tenants_apart_def)
qed

lemma tenants_apart_sym: "tenants_apart a b \<longleftrightarrow> tenants_apart b a"
  by (simp only: tenants_apart_def Int_commute)

lemma pairs_in_order_iff:
  assumes "\<And>x y. P x y \<longleftrightarrow> P y x" "distinct xs"
  shows "(\<forall>(x, y) \<in> set (pairs_in_order xs). P x y) \<longleftrightarrow> (\<forall>x \<in> set xs. \<forall>y \<in> set xs. x \<noteq> y \<longrightarrow> P x y)"
  using assms(2)
proof (induction xs)
  case (Cons z xs)
  have "(\<forall>(x, y) \<in> set (pairs_in_order (z # xs)). P x y) \<longleftrightarrow> (\<forall>y \<in> set xs. P z y) \<and> (\<forall>(x, y) \<in> set (pairs_in_order xs). P x y)"
    by auto
  then show ?case using Cons assms(1) by auto
qed simp

lemma tenant_clean:
  assumes "distinct (map ca_name (ag_components g))"
  shows "tenant_violations g = [] \<longleftrightarrow> (\<forall>a \<in> set (tenants g). \<forall>b \<in> set (tenants g). a \<noteq> b \<longrightarrow> tenants_apart a b)"
proof -
  have d: "distinct (tenants g)" using assms by (auto simp: tenants_def distinct_map)
  have "tenant_violations g = [] \<longleftrightarrow> (\<forall>(a, b) \<in> set (pairs_in_order (tenants g)). tenants_apart a b)"
    by (auto simp: tenant_violations_def fresh_keys_Nil shared_keys_Nil [symmetric])
  then show ?thesis by (simp add: pairs_in_order_iff [where P = tenants_apart, OF tenants_apart_sym d])
qed

definition floors_met :: "policy \<Rightarrow> audit_graph \<Rightarrow> bool" where
  "floors_met p g \<longleftrightarrow>
     (\<forall>e \<in> set (ag_recovery g). \<forall>floor \<in> set (po_teardown p). register_satisfies (re_register e) floor)
     \<and> (\<forall>c \<in> set (ag_components g). \<forall>rule \<in> set (po_registers p). \<forall>t \<in> audit_tokens c.
          t \<noteq> unbounded \<longrightarrow> fnmatchcase t (gr_capability rule) \<longrightarrow> register_satisfies (map_of (ag_registers g) t) (gr_at_least rule))"

lemma teardown_floor_max: "teardown_floor s ss \<in> set (s # ss)
    \<and> (\<forall>floor \<in> set (s # ss). dict_get register_rank floor 0 \<le> dict_get register_rank (teardown_floor s ss) 0)"
  using min_by_least [of "\<lambda>l. - dict_get register_rank l 0" s ss] by (auto simp: teardown_floor_def)

lemma register_satisfies_mono: "dict_get register_rank floor 0 \<le> dict_get register_rank high 0
    \<Longrightarrow> register_satisfies actual high \<Longrightarrow> register_satisfies actual floor"
  by (auto simp: register_satisfies_def split: option.splits)

lemma teardown_clean: "teardown_violations p g = []
    \<longleftrightarrow> (\<forall>e \<in> set (ag_recovery g). \<forall>floor \<in> set (po_teardown p). register_satisfies (re_register e) floor)"
proof (cases "po_teardown p")
  case (Cons s ss)
  have "register_satisfies x (teardown_floor s ss) \<longleftrightarrow> (\<forall>floor \<in> set (s # ss). register_satisfies x floor)" for x
    using teardown_floor_max [of s ss] register_satisfies_mono by blast
  then show ?thesis using Cons by (simp add: teardown_violations_def filter_empty_conv)
qed (simp add: teardown_violations_def)

lemma register_clean: "register_violations p g = []
    \<longleftrightarrow> (\<forall>c \<in> set (ag_components g). \<forall>rule \<in> set (po_registers p). \<forall>t \<in> audit_tokens c.
          t \<noteq> unbounded \<longrightarrow> fnmatchcase t (gr_capability rule) \<longrightarrow> register_satisfies (map_of (ag_registers g) t) (gr_at_least rule))"
  unfolding register_violations_def concat_map_Nil map_is_Nil_conv filter_empty_conv set_sort set_remdups set_filter reach_tokens_set mem_Collect_eq not_not
  by (rule ball_cong [OF refl], rule ball_cong [OF refl], blast)

lemma floors_clean: "teardown_violations p g = [] \<and> register_violations p g = [] \<longleftrightarrow> floors_met p g"
  by (simp only: teardown_clean register_clean floors_met_def)

lemma evaluate_clean: "distinct (map ca_name (ag_components g)) \<Longrightarrow> evaluate p mcp g = []
    \<longleftrightarrow> (\<forall>c \<in> set (ag_components g). component_lawful p mcp c)
      \<and> (po_tenants p \<longrightarrow> (\<forall>a \<in> set (tenants g). \<forall>b \<in> set (tenants g). a \<noteq> b \<longrightarrow> tenants_apart a b))
      \<and> floors_met p g"
  by (simp add: evaluate_def component_clean tenant_clean floors_clean [symmetric])


subsection \<open>Rules that only refuse\<close>

text \<open>The same allow-lists and sandbox, and every other rule kept.\<close>

definition tightens :: "policy \<Rightarrow> policy \<Rightarrow> bool" where
  "tightens p q \<longleftrightarrow> filter br_allow (po_rules p) = filter br_allow (po_rules q)
     \<and> {r \<in> set (po_rules p). \<not> br_allow r} \<subseteq> set (po_rules q)
     \<and> po_mcp_allow p = po_mcp_allow q \<and> (po_tenants p \<longrightarrow> po_tenants q)
     \<and> set (po_approvals p) \<subseteq> set (po_approvals q) \<and> set (po_declassify p) \<subseteq> set (po_declassify q)
     \<and> set (po_taint_flow p) \<subseteq> set (po_taint_flow q) \<and> set (po_registers p) \<subseteq> set (po_registers q)
     \<and> set (po_teardown p) \<subseteq> set (po_teardown q) \<and> set (po_pairs p) \<subseteq> set (po_pairs q)"

lemma verdict_iff: "capability_verdict p name realms t \<longleftrightarrow>
    (\<forall>r \<in> set (po_rules p). \<not> br_allow r \<longrightarrow> rule_selects r name realms \<longrightarrow> \<not> deny_matches t (br_patterns r))
    \<and> (case allow_for p name realms of None \<Rightarrow> True | Some allow \<Rightarrow> cap_allowed t allow)"
  by (auto simp: capability_verdict_def deny_for_def list_ex_iff)

lemma allow_for_cong: "filter br_allow (po_rules p) = filter br_allow (po_rules q) \<Longrightarrow> allow_for p = allow_for q"
proof -
  assume eq: "filter br_allow (po_rules p) = filter br_allow (po_rules q)"
  have "filter (\<lambda>r. br_allow r \<and> rule_selects r name realms) (po_rules p) = filter (\<lambda>r. br_allow r \<and> rule_selects r name realms) (po_rules q)" for name realms
    using arg_cong [OF eq, of "filter (\<lambda>r. rule_selects r name realms)"] by simp
  then show ?thesis by (intro ext) (simp only: allow_for_def)
qed

lemma verdict_antimono: "tightens p q \<Longrightarrow> capability_verdict q name realms t \<Longrightarrow> capability_verdict p name realms t"
  using allow_for_cong [of p q] by (auto simp: verdict_iff tightens_def)

lemma approval_antimono: "set (po_approvals p) \<subseteq> set (po_approvals q) \<Longrightarrow> endorse_covered q origin a \<Longrightarrow> endorse_covered p origin a"
  by (auto simp: endorse_covered_def approval_rule_for_def find_None_iff)

lemma lawful_antimono:
  assumes "tightens p q" "component_lawful q mcp c"
  shows "component_lawful p mcp c"
proof -
  have "endorse_covered q origin a \<Longrightarrow> endorse_covered p origin a" for origin a
    using approval_antimono [of p q origin a] assms(1) unfolding tightens_def by blast
  moreover have "sandboxed p m = sandboxed q m" for m
    using assms(1) by (simp add: sandboxed_def tightens_def fun_eq_iff)
  moreover have sub: "set (po_declassify p) \<subseteq> set (po_declassify q)" "set (po_taint_flow p) \<subseteq> set (po_taint_flow q)" "set (po_pairs p) \<subseteq> set (po_pairs q)"
    using assms(1) by (simp_all add: tightens_def)
  have "may_declassify q c origin \<Longrightarrow> may_declassify p c origin" for origin
    using sub(1) unfolding may_declassify_def by blast
  ultimately show ?thesis
    using assms(2) sub(2,3) verdict_antimono [OF assms(1)] unfolding component_lawful_def by (intro conjI) (blast | fastforce)+
qed

lemma evaluate_antimono:
  assumes "tightens p q" "distinct (map ca_name (ag_components g))" "evaluate q mcp g = []"
  shows "evaluate p mcp g = []"
proof -
  have "floors_met q g \<Longrightarrow> floors_met p g" using assms(1) by (auto simp: floors_met_def tightens_def)
  moreover have "po_tenants p \<longrightarrow> po_tenants q" using assms(1) by (simp add: tightens_def)
  ultimately show ?thesis
    using assms(3) lawful_antimono [OF assms(1)] unfolding evaluate_clean [OF assms(2)] by blast
qed


subsection \<open>Parametrized spellings\<close>

lemma py_split_member: "x \<in> set s \<Longrightarrow> x \<noteq> c \<Longrightarrow> \<exists>seg \<in> set (py_split c s). x \<in> set seg"
proof (induction s)
  case (Cons y s)
  then show ?case by (cases "py_split c s") auto
qed simp

lemma cap_glob_no_paren: "is_cap_glob pat \<Longrightarrow> CHR ''('' \<notin> set pat"
proof
  assume g: "is_cap_glob pat" and "CHR ''('' \<in> set pat"
  then obtain seg where "seg \<in> set (py_split (CHR ''.'') pat)" "CHR ''('' \<in> set seg" using py_split_member by force
  then have "cap_segment seg" "CHR ''('' \<in> set seg" using g by (auto simp: is_cap_glob_def list_all_iff)
  moreover have "\<not> (ident_char (CHR ''('') \<or> CHR ''('' \<in> set ''*?[]!-'')" by code_simp
  ultimately show False by (auto simp: cap_segment_def list_all_iff)
qed

text \<open>No pattern without a metacharacter matches the spelling of a capability that carries a parameter.\<close>

lemma plain_pattern_misses: "is_cap_glob pat \<Longrightarrow> glob_free pat \<Longrightarrow> CHR ''('' \<in> set t \<Longrightarrow> \<not> fnmatchcase t pat"
  using cap_glob_no_paren by (auto simp: glob_free_exact)

definition blank_policy :: policy where
  "blank_policy = \<lparr>po_rules = [], po_tenants = False, po_mcp_allow = None, po_approvals = [], po_declassify = [], po_taint_flow = [],
     po_registers = [], po_teardown = [], po_reissue = [], po_never_standing = [], po_pairs = []\<rparr>"

definition no_net :: boundary_rule where
  "no_net = \<lparr>br_component = True, br_selector = ''*'', br_allow = False, br_patterns = [''net'']\<rparr>"

definition audit_of :: "string \<Rightarrow> string list \<Rightarrow> component_audit" where
  "audit_of name caps = \<lparr>ca_name = name, ca_realms = [], ca_capabilities = [(''net.call'', caps)], ca_externs = [], ca_declassify = [],
     ca_records = [], ca_reaches = [], ca_reach_approvals = []\<rparr>"

definition lone :: "component_audit \<Rightarrow> audit_graph" where
  "lone c = \<lparr>ag_components = [c], ag_registers = [], ag_recovery = []\<rparr>"

text \<open>
  A deny rule for a capability admits a component that reaches the same capability under a budget, which
  the capability order places below the denied one and which the rule against standing grants does read.
\<close>

lemma deny_misses_budgeted:
  "evaluate (blank_policy\<lparr>po_rules := [no_net]\<rparr>) [] (lone (audit_of ''C'' [''net(calls=5)''])) = []
    \<and> evaluate (blank_policy\<lparr>po_rules := [no_net]\<rparr>) [] (lone (audit_of ''C'' [''net''])) \<noteq> []
    \<and> never_standing_covers ''net'' ''net(calls=5)''
    \<and> (case (parse_stored_cap ''net'', parse_stored_cap ''net(calls=5)'') of (Inr wide, Inr narrow) \<Rightarrow> covers wide narrow | _ \<Rightarrow> False)"
  by code_simp

text \<open>A pair rule whose side is a star, or one character, does match the unnameable boundary.\<close>

definition star_pair :: pair_rule where
  "star_pair = \<lparr>pr_selector = ''*'', pr_first = ''fs'', pr_second = ''?''\<rparr>"

lemma pair_matches_unbounded:
  "evaluate (blank_policy\<lparr>po_pairs := [star_pair]\<rparr>) [] (lone (audit_of ''C'' [''fs'', unbounded])) \<noteq> []"
  by code_simp

end
