(* ===== verification/Audit_Properties.thy ===== *)
theory Audit_Properties
  imports Audit_Boundary Boundary_Policy_Properties
begin

section \<open>What the audit enumerates\<close>

text \<open>
  Every crossing a body contains is in the report, with the scope it declares where no other crossing has
  its label; the host code behind a function, exactly where no function calls itself; and the boundaries
  that fall out where those conditions fail.
\<close>

subsection \<open>Parts of a document\<close>

inductive part_of :: "json \<Rightarrow> json \<Rightarrow> bool" where
  part_refl: "part_of j j"
| part_elem: "y \<in> set xs \<Longrightarrow> part_of z y \<Longrightarrow> part_of z (JArr xs)"
| part_member: "kv \<in> set kvs \<Longrightarrow> part_of z (snd kv) \<Longrightarrow> part_of z (JObj kvs)"

inductive_cases part_of_arrE: "part_of z (JArr xs)"
inductive_cases part_of_objE: "part_of z (JObj kvs)"

lemma part_of_arr: "part_of z (JArr xs) \<longleftrightarrow> z = JArr xs \<or> (\<exists>y \<in> set xs. part_of z y)"
  by (blast elim: part_of_arrE intro: part_of.intros)

lemma part_of_obj: "part_of z (JObj kvs) \<longleftrightarrow> z = JObj kvs \<or> (\<exists>kv \<in> set kvs. part_of z (snd kv))"
  by (blast elim: part_of_objE intro: part_of.intros)

lemma part_trans: "part_of y z \<Longrightarrow> part_of x y \<Longrightarrow> part_of x z"
  by (induction rule: part_of.induct) (auto intro: part_of.intros)

lemma member_part: "member kvs k = JNull \<or> part_of (member kvs k) (JObj kvs)"
proof (cases "map_of kvs k")
  case (Some v)
  then have "part_of (snd (k, v)) (JObj kvs)" by (intro part_member [of "(k, v)"] part_refl map_of_SomeD)
  then show ?thesis using Some by (simp add: member_def dict_get_def)
qed (simp add: member_def dict_get_def)

lemma list_member_part: "x \<in> set (list_of_json (member kvs k)) \<Longrightarrow> part_of x (JObj kvs)"
proof -
  assume x: "x \<in> set (list_of_json (member kvs k))"
  then obtain xs where xs: "member kvs k = JArr xs" "x \<in> set xs" by (cases "member kvs k") (simp_all add: list_of_json_def)
  then have "part_of (JArr xs) (JObj kvs)" using member_part [of kvs k] by simp
  then show ?thesis using part_elem [OF xs(2) part_refl] part_trans by blast
qed

lemma method_body_part: "b \<in> set (method_bodies j) \<Longrightarrow> b = JNull \<or> part_of b j"
proof (cases j)
  case (JObj node)
  assume "b \<in> set (method_bodies j)"
  then obtain m where m: "m \<in> set (list_of_json (member node ''methods''))" "b = member (dict_of_json m) ''body''"
    using JObj by (auto simp: method_bodies_def dict_of_json_def members_def split: if_splits)
  have "b = JNull \<or> part_of b m"
  proof (cases m)
    case (JObj kvs)
    then show ?thesis using m(2) member_part [of kvs "''body''"] by (simp add: dict_of_json_def)
  qed (simp_all add: m(2) dict_of_json_def member_def dict_get_def)
  then show ?thesis using list_member_part [OF m(1)] part_trans JObj by blast
qed (simp_all add: method_bodies_def dict_of_json_def step_is_def member_def dict_get_def)


subsection \<open>Crossings\<close>

definition node_writes :: "(string \<times> json) list \<Rightarrow> (string \<times> json) list \<Rightarrow> (string, (string \<times> json) list) pydict \<Rightarrow> (string \<times> json) list \<Rightarrow> (string \<times> string list) list" where
  "node_writes ir cmp arrows node = call_labels ir cmp node @ arrow_writes ir arrows node"

lemma walk_atoms:
  "walk_expr ir cmp arrows JNull = []" "walk_expr ir cmp arrows (JBool b) = []" "walk_expr ir cmp arrows (JInt n) = []"
  "walk_expr ir cmp arrows (JFloat f) = []" "walk_expr ir cmp arrows (JStr s) = []"
  by (subst walk_expr.simps, simp only: json.case)+

lemma part_of_atoms: "\<not> part_of (JObj node) JNull" "\<not> part_of (JObj node) (JBool b)" "\<not> part_of (JObj node) (JInt n)"
  "\<not> part_of (JObj node) (JFloat f)" "\<not> part_of (JObj node) (JStr s)"
  by (auto elim: part_of.cases)

lemma walk_expr_set: "set (walk_expr ir cmp arrows j) = {w. \<exists>node. part_of (JObj node) j \<and> w \<in> set (node_writes ir cmp arrows node)}"
proof (induction ir cmp arrows j rule: walk_expr.induct)
  case (1 ir cmp arrows j)
  show ?case
  proof (cases j)
    case (JObj node)
    have "set (walk_expr ir cmp arrows (snd kv)) = {w. \<exists>n. part_of (JObj n) (snd kv) \<and> w \<in> set (node_writes ir cmp arrows n)}" if "kv \<in> set node" for kv
      using 1(2) [OF JObj that] .
    then have "set (walk_expr ir cmp arrows j) = set (node_writes ir cmp arrows node)
        \<union> (\<Union>kv \<in> set node. {w. \<exists>n. part_of (JObj n) (snd kv) \<and> w \<in> set (node_writes ir cmp arrows n)})"
      by (subst walk_expr.simps) (simp add: JObj node_writes_def Un_assoc)
    then show ?thesis unfolding JObj part_of_obj json.inject by blast
  next
    case (JArr xs)
    have "set (walk_expr ir cmp arrows x) = {w. \<exists>n. part_of (JObj n) x \<and> w \<in> set (node_writes ir cmp arrows n)}" if "x \<in> set xs" for x
      using 1(1) [OF JArr that] .
    then have "set (walk_expr ir cmp arrows j) = (\<Union>x \<in> set xs. {w. \<exists>n. part_of (JObj n) x \<and> w \<in> set (node_writes ir cmp arrows n)})"
      by (subst walk_expr.simps) (simp add: JArr)
    then show ?thesis by (auto simp: JArr part_of_arr)
  qed (simp_all add: walk_atoms part_of_atoms)
qed

lemma walk_expr_part: "part_of x j \<Longrightarrow> set (walk_expr ir cmp arrows x) \<subseteq> set (walk_expr ir cmp arrows j)"
  using part_trans by (fastforce simp: walk_expr_set)

lemma step_stats_writes: "bs_writes (step_stats ir cmp arrows j st) = bs_writes st @ walk_expr ir cmp arrows j"
  by (simp add: step_stats_def Let_def split: prod.splits)

lemma fold_writes:
  assumes "\<And>x st. x \<in> set xs \<Longrightarrow> set (bs_writes (f x st)) = set (bs_writes st) \<union> W x"
  shows "set (bs_writes (fold f xs st)) = set (bs_writes st) \<union> (\<Union>x \<in> set xs. W x)"
  using assms
proof (induction xs arbitrary: st)
  case (Cons x xs)
  then show ?case by (simp add: Un_assoc)
qed simp

lemma list_part: "x \<in> set (list_of_json steps) \<Longrightarrow> part_of x steps"
  by (cases steps) (auto simp: list_of_json_def intro: part_elem part_refl)

lemma body_writes: "set (bs_writes (body_stats ir cmp arrows steps st)) = set (bs_writes st) \<union> (\<Union>j \<in> set (list_of_json steps). set (walk_expr ir cmp arrows j))"
proof (induction ir cmp arrows steps st rule: body_stats.induct)
  case (1 ir cmp arrows steps st)
  have "set (bs_writes (fold (body_stats ir cmp arrows) (method_bodies j) (step_stats ir cmp arrows j s)))
      = set (bs_writes s) \<union> set (walk_expr ir cmp arrows j)" if j: "j \<in> set (list_of_json steps)" for j s
  proof -
    have "set (bs_writes (fold (body_stats ir cmp arrows) (method_bodies j) (step_stats ir cmp arrows j s)))
        = set (bs_writes (step_stats ir cmp arrows j s)) \<union> (\<Union>b \<in> set (method_bodies j). \<Union>x \<in> set (list_of_json b). set (walk_expr ir cmp arrows x))"
      by (rule fold_writes) (use 1 j in blast)
    moreover have "set (walk_expr ir cmp arrows x) \<subseteq> set (walk_expr ir cmp arrows j)" if b: "b \<in> set (method_bodies j)" and x: "x \<in> set (list_of_json b)" for b x
    proof -
      have "part_of b j" using method_body_part [OF b] x by (auto simp: list_of_json_def)
      then show ?thesis using walk_expr_part part_trans list_part [OF x] by blast
    qed
    ultimately show ?thesis by (auto simp: step_stats_writes)
  qed
  then show ?case by (subst body_stats.simps) (rule fold_writes)
qed

text \<open>What a component's body may cross, under the label of the report.\<close>

definition body_crosses :: "(string \<times> json) list \<Rightarrow> (string \<times> json) list \<Rightarrow> string \<times> string list \<Rightarrow> bool" where
  "body_crosses ir cmp w \<longleftrightarrow> (\<exists>step node. step \<in> set (members cmp ''body'') \<and> part_of (JObj node) step
     \<and> w \<in> set (node_writes ir cmp (dict_of (collect_arrows (member cmp ''body''))) node))"

lemma stats_writes: "set (bs_writes (component_stats ir cmp)) = {w. body_crosses ir cmp w}"
  by (auto simp: component_stats_def body_writes no_stats_def body_crosses_def members_def walk_expr_set)

lemma emissions_exact: "set (rp_emissions (component_report ir cmp)) = fst ` {w. body_crosses ir cmp w}"
  by (simp add: component_report_def Let_def stats_writes)

lemma map_of_sort_key: "distinct (map fst d) \<Longrightarrow> map_of (sort_key fst d) = map_of d"
  by (subst map_of_inject_set) (simp_all add: distinct_map)


definition unambiguous :: "(string \<times> json) list \<Rightarrow> (string \<times> json) list \<Rightarrow> string \<Rightarrow> bool" where
  "unambiguous ir cmp label \<longleftrightarrow> (\<forall>caps caps'. body_crosses ir cmp (label, caps) \<longrightarrow> body_crosses ir cmp (label, caps') \<longrightarrow> caps = caps')"

lemma capabilities_map: "map_of (rp_capabilities (component_report ir cmp)) = map_of (dict_of (bs_writes (component_stats ir cmp)))"
proof -
  have "distinct (map fst (dict_of ps))" for ps :: "(string \<times> string list) list" using dict_of_ok [of ps] by (simp only: dict_ok_def)
  then show ?thesis by (simp add: component_report_def Let_def map_of_sort_key)
qed

lemma stats_lookup: "map_of (dict_of (bs_writes (component_stats ir cmp))) label = Some caps \<Longrightarrow> body_crosses ir cmp (label, caps)"
proof -
  assume "map_of (dict_of (bs_writes (component_stats ir cmp))) label = Some caps"
  then have "(label, caps) \<in> set (bs_writes (component_stats ir cmp))" by (rule map_of_dict_of_in)
  then show ?thesis by (simp only: stats_writes mem_Collect_eq)
qed

text \<open>The table holds a scope of every label, and the scope where the label has one.\<close>

lemma capabilities_exact:
  assumes "body_crosses ir cmp (label, caps)" "unambiguous ir cmp label"
  shows "map_of (rp_capabilities (component_report ir cmp)) label = Some caps"
proof -
  have "label \<in> fst ` set (dict_of (bs_writes (component_stats ir cmp)))"
    using assms(1) unfolding dict_of_keys stats_writes by (intro image_eqI [of _ _ "(label, caps)"]) simp_all
  then obtain caps' where found: "map_of (dict_of (bs_writes (component_stats ir cmp))) label = Some caps'"
    by (cases "map_of (dict_of (bs_writes (component_stats ir cmp))) label") (auto simp: map_of_eq_None_iff)
  then have "body_crosses ir cmp (label, caps')" by (rule stats_lookup)
  then show ?thesis using assms found by (auto simp: capabilities_map unambiguous_def)
qed

lemma capabilities_cross: "(label, caps) \<in> set (rp_capabilities (component_report ir cmp)) \<Longrightarrow> body_crosses ir cmp (label, caps)"
proof -
  assume w: "(label, caps) \<in> set (rp_capabilities (component_report ir cmp))"
  have "distinct (map fst (rp_capabilities (component_report ir cmp)))"
    using dict_of_ok [of "bs_writes (component_stats ir cmp)"] by (simp add: component_report_def Let_def dict_ok_def distinct_map)
  then have "map_of (rp_capabilities (component_report ir cmp)) label = Some caps" using w by (rule map_of_is_SomeI)
  then have "map_of (dict_of (bs_writes (component_stats ir cmp))) label = Some caps" by (simp only: capabilities_map)
  then show ?thesis by (rule stats_lookup)
qed


subsection \<open>Host code\<close>

lemma fn_call_names_calls: "fn_call_names j = fst (calls_in False cp j)"
proof (induction j arbitrary: cp rule: fn_call_names.induct)
  case (1 j)
  show ?case
  proof (cases j)
    case (JObj node)
    have "map (\<lambda>kv. fn_call_names (snd kv)) node = map (\<lambda>kv. fst (calls_in False (fst kv = ''callee'' \<and> kind_is node ''call'') (snd kv))) node"
      using 1(2) [OF JObj] by (intro map_cong refl) blast
    then show ?thesis by (subst fn_call_names.simps) (simp only: JObj calls_in.simps Let_def json.case simp_thms if_False fst_conv map_map comp_def)
  next
    case (JArr xs)
    have "map fn_call_names xs = map (\<lambda>x. fst (calls_in False False x)) xs"
      using 1(1) [OF JArr] by (intro map_cong refl) blast
    then show ?thesis by (subst fn_call_names.simps) (simp only: JArr calls_in.simps Let_def json.case fst_conv map_map comp_def)
  qed (simp_all add: fn_call_names.simps)
qed

text \<open>The host code a function reaches through the functions it calls.\<close>

inductive reaches_extern :: "string list \<Rightarrow> (string, string list) pydict \<Rightarrow> string \<Rightarrow> string \<Rightarrow> bool"
  for externs direct where
  reaches_direct: "e \<in> set (dict_get direct n []) \<Longrightarrow> e \<in> set externs \<Longrightarrow> reaches_extern externs direct n e"
| reaches_through: "c \<in> set (dict_get direct n []) \<Longrightarrow> c \<notin> set externs \<Longrightarrow> reaches_extern externs direct c e \<Longrightarrow> reaches_extern externs direct n e"

definition reach_of :: "string list \<Rightarrow> (string, string list) pydict \<Rightarrow> string \<Rightarrow> string set" where
  "reach_of externs direct c = (if c \<in> set externs then {c} else {e. reaches_extern externs direct c e})"

lemma reaches_unfold: "{e. reaches_extern externs direct n e} = (\<Union>c \<in> set (dict_get direct n []). reach_of externs direct c)"
  by (auto simp: reach_of_def intro: reaches_extern.intros split: if_splits elim: reaches_extern.cases)

lemma reaches_nothing: "c \<notin> fst ` set direct \<Longrightarrow> {e. reaches_extern externs direct c e} = {}"
  by (simp add: reaches_unfold dict_get_def map_of_eq_None_iff [symmetric])

text \<open>
  The walk finds no more than is reached; where the functions are ranked, so that none calls itself, it
  finds exactly that.
\<close>

definition call_ranked :: "string list \<Rightarrow> (string, string list) pydict \<Rightarrow> (string \<Rightarrow> nat) \<Rightarrow> bool" where
  "call_ranked externs direct rk \<longleftrightarrow> (\<forall>n c. c \<in> set (dict_get direct n []) \<longrightarrow> c \<notin> set externs \<longrightarrow> rk c < rk n)"

definition agrees :: "bool \<Rightarrow> 'a set \<Rightarrow> 'a set \<Rightarrow> bool" where
  "agrees exact A B \<longleftrightarrow> A \<subseteq> B \<and> (exact \<longrightarrow> B \<subseteq> A)"

lemma agrees_step: "agrees exact F (S \<union> R) \<Longrightarrow> agrees exact G (F \<union> T) \<Longrightarrow> agrees exact G (S \<union> (R \<union> T))"
  by (auto simp: agrees_def)

definition memo_good :: "bool \<Rightarrow> string list \<Rightarrow> (string, string list) pydict \<Rightarrow> (string, string list) pydict \<Rightarrow> bool" where
  "memo_good exact externs direct memo \<longleftrightarrow> (\<forall>n r. map_of memo n = Some r \<longrightarrow> agrees exact (set r) {e. reaches_extern externs direct n e})"

definition trail_above :: "bool \<Rightarrow> string list \<Rightarrow> (string \<Rightarrow> nat) \<Rightarrow> string list \<Rightarrow> string list \<Rightarrow> bool" where
  "trail_above exact externs rk trail cs \<longleftrightarrow> (exact \<longrightarrow> (\<forall>c \<in> set cs. c \<notin> set externs \<longrightarrow> (\<forall>t \<in> set trail. rk c < rk t)))"

lemma trail_above_tl: "trail_above exact externs rk trail (c # cs) \<Longrightarrow> trail_above exact externs rk trail cs"
  by (simp add: trail_above_def)

lemma trail_above_callees:
  assumes "exact \<longrightarrow> call_ranked externs direct rk" "c \<notin> set externs" "trail_above exact externs rk trail (c # cs)"
  shows "trail_above exact externs rk (c # trail) (dict_get direct c [])"
proof -
  have "rk d < rk t" if "exact" "d \<in> set (dict_get direct c [])" "d \<notin> set externs" "t \<in> set (c # trail)" for d t
  proof -
    have "rk d < rk c" using assms(1) that by (simp add: call_ranked_def)
    moreover have "t = c \<or> rk c < rk t" using assms(2,3) that by (auto simp: trail_above_def)
    ultimately show ?thesis by auto
  qed
  then show ?thesis by (simp add: trail_above_def)
qed

lemma walk_calls_good:
  assumes "exact \<longrightarrow> call_ranked externs direct rk"
  shows "memo_good exact externs direct (fst st) \<Longrightarrow> trail_above exact externs rk trail cs
    \<Longrightarrow> memo_good exact externs direct (fst (walk_calls externs direct trail cs st))
      \<and> agrees exact (set (snd (walk_calls externs direct trail cs st))) (set (snd st) \<union> (\<Union>c \<in> set cs. reach_of externs direct c))"
  using assms
proof (induction externs direct trail cs st rule: walk_calls.induct)
  case (1 externs direct trail memo found)
  then show ?case by (simp add: agrees_def)
next
  case (2 externs direct trail c cs memo found)
  note above = trail_above_tl [OF 2(8)]
  have step: ?case if "walk_calls externs direct trail (c # cs) (memo, found) = walk_calls externs direct trail cs (m, f)"
      "memo_good exact externs direct m" "agrees exact (set f) (set found \<union> reach_of externs direct c)"
      "memo_good exact externs direct (fst (walk_calls externs direct trail cs (m, f)))
        \<and> agrees exact (set (snd (walk_calls externs direct trail cs (m, f)))) (set f \<union> (\<Union>c \<in> set cs. reach_of externs direct c))" for m f
    unfolding that(1) using agrees_step [OF that(3) conjunct2 [OF that(4)]] that(4) by simp
  consider "c \<in> set externs" | "c \<notin> set externs" "c \<notin> fst ` set direct"
    | r where "c \<notin> set externs" "c \<in> fst ` set direct" "map_of memo c = Some r"
    | "c \<notin> set externs" "c \<in> fst ` set direct" "map_of memo c = None" "c \<in> set trail"
    | "c \<notin> set externs" "c \<in> fst ` set direct" "map_of memo c = None" "c \<notin> set trail"
    by fastforce
  then show ?case
  proof cases
    case c: 1
    show ?thesis by (rule step [of memo "List.insert c found"]) (use 2(1) [OF c] 2(7,9) above c in \<open>simp_all add: agrees_def reach_of_def\<close>)
  next
    case c: 2
    then have "reach_of externs direct c = {}" by (simp add: reach_of_def reaches_nothing del: empty_Collect_eq Collect_empty_eq)
    then show ?thesis by (intro step [of memo found]) (use 2(2) [OF c] 2(7,9) above c in \<open>simp_all add: agrees_def\<close>)
  next
    case c: 3
    have "agrees exact (set r) (reach_of externs direct c)" using 2(7) c by (simp add: memo_good_def reach_of_def)
    then show ?thesis by (intro step [of memo "List.union r found"]) (use 2(6) [of r] 2(7,9) above c in \<open>auto simp: agrees_def\<close>)
  next
    case c: 4
    then have "\<not> exact" using 2(8) by (auto simp: trail_above_def)
    then show ?thesis by (intro step [of memo found]) (use 2(3) 2(7,9) above c in \<open>simp_all add: agrees_def\<close>)
  next
    case c: 5
    obtain memo1 r where w: "walk_calls externs direct (c # trail) (dict_get direct c []) (memo, []) = (memo1, r)" by fastforce
    have inner: "memo_good exact externs direct memo1" "agrees exact (set r) {e. reaches_extern externs direct c e}"
      using 2(4) c w 2(7) trail_above_callees [OF 2(9) c(1) 2(8)] 2(9) by (simp_all add: reaches_unfold)
    have good: "memo_good exact externs direct (AList.update c r memo1)" using inner by (simp add: memo_good_def update_conv')
    have "agrees exact (set r) (reach_of externs direct c)" using inner(2) c(1) by (simp add: reach_of_def)
    then show ?thesis by (intro step [of "AList.update c r memo1" "List.union r found"])
      (use 2(5) [OF c(1) _ c(3) c(4) refl w [symmetric]] good 2(9) above c w in \<open>auto simp: agrees_def\<close>)
  qed
qed


lemma walk_calls_keeps: "fst ` set (fst st) \<subseteq> fst ` set (fst (walk_calls externs direct trail cs st))"
proof (induction externs direct trail cs st rule: walk_calls.induct)
  case (2 externs direct trail c cs memo found)
  show ?case
  proof (cases "c \<in> set externs \<or> c \<notin> fst ` set direct \<or> map_of memo c \<noteq> None \<or> c \<in> set trail")
    case True
    then show ?thesis using 2(1,2,3,6) by (auto simp del: image_subset_iff split: option.splits)
  next
    case False
    then have c: "c \<notin> set externs" "\<not> c \<notin> fst ` set direct" "map_of memo c = None" "c \<notin> set trail" by simp_all
    obtain memo1 r where w: "walk_calls externs direct (c # trail) (dict_get direct c []) (memo, []) = (memo1, r)" by fastforce
    have "fst ` set memo \<subseteq> fst ` set memo1" using 2(4) [OF c] w by simp
    also have "\<dots> \<subseteq> fst ` set (AList.update c r memo1)" by (simp add: dom_update) blast
    also have "\<dots> \<subseteq> fst ` set (fst (walk_calls externs direct trail cs (AList.update c r memo1, List.union r found)))"
      using 2(5) [OF c refl w [symmetric]] by (simp only: fst_conv)
    finally show ?thesis using c w by simp
  qed
qed simp

lemma resolve_fn_good:
  assumes "exact \<longrightarrow> call_ranked externs direct rk" "memo_good exact externs direct memo"
  shows "memo_good exact externs direct (resolve_fn externs direct n memo)
    \<and> insert n (fst ` set memo) \<subseteq> fst ` set (resolve_fn externs direct n memo)"
proof (cases "map_of memo n")
  case None
  obtain memo1 r where w: "walk_calls externs direct [n] (dict_get direct n []) (memo, []) = (memo1, r)" by fastforce
  have "trail_above exact externs rk [n] (dict_get direct n [])" using assms(1) by (auto simp: trail_above_def call_ranked_def)
  then have "memo_good exact externs direct memo1" "agrees exact (set r) {e. reaches_extern externs direct n e}"
    using walk_calls_good [OF assms(1), of "(memo, [])" "[n]" "dict_get direct n []"] assms(2) w by (simp_all add: reaches_unfold)
  moreover have "fst ` set memo \<subseteq> fst ` set memo1"
    using walk_calls_keeps [of "(memo, [])" externs direct "[n]" "dict_get direct n []"] w by simp
  ultimately show ?thesis using None w by (auto simp: resolve_fn_def memo_good_def update_conv' dom_update)
next
  case (Some r)
  then have "n \<in> fst ` set memo" by (auto dest: map_of_SomeD intro: rev_image_eqI)
  then show ?thesis using Some assms(2) by (simp add: resolve_fn_def insert_absorb)
qed

lemma reachability_good:
  assumes "exact \<longrightarrow> call_ranked externs direct rk"
  shows "memo_good exact externs direct (extern_reachability externs direct)
    \<and> fst ` set direct \<subseteq> fst ` set (extern_reachability externs direct)"
proof -
  have "memo_good exact externs direct (fold (resolve_fn externs direct) ns memo)
      \<and> set ns \<union> fst ` set memo \<subseteq> fst ` set (fold (resolve_fn externs direct) ns memo)" if "memo_good exact externs direct memo" for ns memo
    using that
  proof (induction ns arbitrary: memo)
    case (Cons n ns)
    have "memo_good exact externs direct (resolve_fn externs direct n memo)"
      "insert n (fst ` set memo) \<subseteq> fst ` set (resolve_fn externs direct n memo)"
      using resolve_fn_good [OF assms Cons.prems, of n] by blast+
    then show ?case using Cons.IH [of "resolve_fn externs direct n memo"] unfolding fold_simps list.set by blast
  qed simp
  from this [of "[]" "map fst direct"] show ?thesis by (simp add: extern_reachability_def memo_good_def)
qed

text \<open>What the table says of a function is reached by it; ranked, it is all of it.\<close>

lemma reachability_sound: "set (dict_get (extern_reachability externs direct) n []) \<subseteq> {e. reaches_extern externs direct n e}"
proof (cases "map_of (extern_reachability externs direct) n")
  case (Some r)
  then show ?thesis using reachability_good [of False externs direct] by (simp add: memo_good_def agrees_def dict_get_def)
qed (simp add: dict_get_def)

lemma reachability_exact:
  assumes "call_ranked externs direct rk"
  shows "set (dict_get (extern_reachability externs direct) n []) = {e. reaches_extern externs direct n e}"
proof (cases "map_of (extern_reachability externs direct) n")
  case None
  then have "n \<notin> fst ` set (extern_reachability externs direct)" by (simp add: map_of_eq_None_iff)
  then have "n \<notin> fst ` set direct" using reachability_good [of False externs direct] by blast
  then show ?thesis using None reaches_nothing by (simp add: dict_get_def)
next
  case (Some r)
  then show ?thesis using reachability_good [of True externs direct] assms by (simp add: memo_good_def agrees_def dict_get_def set_eq_subset)
qed

lemma host_reach_called:
  assumes "call_ranked (extern_names ir) (direct_calls ir) rk" "n \<in> set (fn_call_names body)" "e \<in> reach_of (extern_names ir) (direct_calls ir) n"
  shows "e \<in> set (host_reach ir body)"
proof -
  have "e \<in> set (called_host ir n)"
    using assms(3) reachability_exact [OF assms(1), of n] by (auto simp: called_host_def reach_of_def split: if_splits)
  then show ?thesis using assms(2) by (auto simp: host_reach_def)
qed


subsection \<open>From a body to its tokens\<close>

definition component_name :: "json \<Rightarrow> string" where
  "component_name c = str_or (member (dict_of_json c) ''name'')"

definition audited :: "(string \<times> json) list \<Rightarrow> json \<Rightarrow> component_audit" where
  "audited ir c = audit_component ir (component_name c, component_report ir (dict_of_json c))"

lemma audited_in:
  assumes "distinct (map component_name (members ir ''components''))" "c \<in> set (members ir ''components'')"
  shows "audited ir c \<in> set (ag_components (audit_report ir))"
proof -
  let ?entry = "\<lambda>c. (component_name c, component_report ir (dict_of_json c))"
  have "boundary_of ir = map ?entry (members ir ''components'')"
    using assms(1) by (simp add: boundary_of_def component_name_def [symmetric] dict_of_distinct comp_def)
  then show ?thesis using assms(2) by (simp add: audit_report_def audited_def)
qed

lemma audit_names_distinct: "distinct (map ca_name (ag_components (audit_report ir)))"
proof -
  have "ca_name (audit_component ir nr) = fst nr" for nr by (cases nr) (simp add: audit_component_def)
  then have "map ca_name (ag_components (audit_report ir)) = map fst (boundary_of ir)" by (simp add: audit_report_def comp_def)
  then show ?thesis using dict_of_ok by (simp add: boundary_of_def dict_ok_def)
qed

lemma audited_fields:
  "ca_name (audited ir c) = component_name c" "ca_realms (audited ir c) = component_realms (dict_of_json (member ir ''manifest'')) (component_name c)"
  "ca_capabilities (audited ir c) = rp_capabilities (component_report ir (dict_of_json c))"
  "ca_externs (audited ir c) = map (\<lambda>n. (n, extern_scope ir n)) (host_reach ir (member (dict_of_json c) ''body''))"
  by (simp_all add: audited_def audit_component_def component_report_def Let_def)

lemma crossing_token:
  assumes "body_crosses ir (dict_of_json c) (label, caps)" "unambiguous ir (dict_of_json c) label" "t \<in> set caps"
  shows "t \<in> audit_tokens (audited ir c)"
proof -
  have "(label, caps) \<in> set (ca_capabilities (audited ir c))"
    using capabilities_exact [OF assms(1,2)] by (simp only: audited_fields map_of_SomeD)
  then show ?thesis using assms(3) by (auto simp: audit_tokens_def)
qed

definition host_tokens :: "(string \<times> json) list \<Rightarrow> string \<Rightarrow> string set" where
  "host_tokens ir e = (if extern_scope ir e = [] then {e} else set (extern_scope ir e))"

lemma host_token:
  assumes "e \<in> set (host_reach ir (member (dict_of_json c) ''body''))" "t \<in> host_tokens ir e"
  shows "t \<in> audit_tokens (audited ir c)"
proof -
  have "(e, extern_scope ir e) \<in> set (ca_externs (audited ir c))" using assms(1) by (simp add: audited_fields)
  then show ?thesis using assms(2) by (force simp: audit_tokens_def host_tokens_def)
qed

text \<open>Nothing else is in the report of its emissions.\<close>

lemma emission_token_crosses: "(label, caps) \<in> set (ca_capabilities (audited ir c)) \<Longrightarrow> body_crosses ir (dict_of_json c) (label, caps)"
  by (rule capabilities_cross) (simp only: audited_fields)

lemma admitted_lawful:
  assumes "evaluate p mcp (audit_report ir) = []" "distinct (map component_name (members ir ''components''))" "c \<in> set (members ir ''components'')"
  shows "component_lawful p mcp (audited ir c)"
  using assms(1) audited_in [OF assms(2,3)] unfolding evaluate_clean [OF audit_names_distinct] by blast

text \<open>
  What a component's body may do: cross an emission whose label has one scope, or run host code it calls
  or reaches through functions.
\<close>

definition may_cross :: "(string \<times> json) list \<Rightarrow> json \<Rightarrow> string \<Rightarrow> bool" where
  "may_cross ir c t \<longleftrightarrow>
     (\<exists>label caps. body_crosses ir (dict_of_json c) (label, caps) \<and> unambiguous ir (dict_of_json c) label \<and> t \<in> set caps)
     \<or> (\<exists>n e. n \<in> set (fn_call_names (member (dict_of_json c) ''body'')) \<and> e \<in> reach_of (extern_names ir) (direct_calls ir) n \<and> t \<in> host_tokens ir e)"

lemma may_cross_token: "call_ranked (extern_names ir) (direct_calls ir) rk \<Longrightarrow> may_cross ir c t \<Longrightarrow> t \<in> audit_tokens (audited ir c)"
  unfolding may_cross_def using crossing_token host_token host_reach_called by blast

end
