(* ===== verification/Least_Authority.thy ===== *)
theory Least_Authority
  imports Admission Audit_Properties
begin

section \<open>Least authority of generated components (\<open>src/revl/least_authority.py\<close>)\<close>

text \<open>
  The host imports of an emitted module are inside what its component declares, and that is inside what
  the policy allows.  The modules are the text the emitter produced; a breach names its leg, its component
  and the capabilities outside, and its prose and trace are not built.
\<close>

subsection \<open>The import section\<close>

definition quote_char :: char where "quote_char = CHR 0x22"

definition import_open :: string where "import_open = ''(import '' @ [quote_char]"

function import_modules :: "string \<Rightarrow> string list" where
  "import_modules [] = []"
| "import_modules (c # cs) =
     (let name = takeWhile (\<lambda>x. x \<noteq> quote_char) (drop (length import_open) (c # cs));
          after = dropWhile (\<lambda>x. x \<noteq> quote_char) (drop (length import_open) (c # cs)) in
      if prefix import_open (c # cs) \<and> name \<noteq> [] \<and> after \<noteq> [] then name # import_modules (tl after)
      else import_modules cs)"
  by pat_completeness auto
termination
proof (relation "measure length", goal_cases)
  case (2 c cs name after)
  have "length after \<le> length (drop (length import_open) (c # cs))" unfolding 2(2) by (rule length_dropWhile_le)
  then show ?case by (simp add: import_open_def)
qed simp_all

definition structural_coeffects :: "string list" where "structural_coeffects = [''revl:wal'']"

definition import_capability :: "string \<Rightarrow> string option" where
  "import_capability m =
     (if prefix ''coeffect:'' m then
        (let rest = drop 9 m in if rest \<in> set structural_coeffects then None else Some (last (py_split (CHR ''/'') rest)))
      else if prefix ''route:'' m then Some (last (py_split (CHR ''/'') (drop 6 m)))
      else None)"

definition wasm_import_capabilities :: "string \<Rightarrow> string list" where
  "wasm_import_capabilities wat = remdups (List.map_filter import_capability (import_modules wat))"


subsection \<open>Breaches\<close>

datatype authority_leg = Leg_Import | Leg_Policy

record authority_breach =
  ab_leg :: authority_leg
  ab_component :: string
  ab_capabilities :: "string list"

text \<open>An unbounded declaration is the top of the order, which the widening relation spells as no scope at all.\<close>

definition component_breaches :: "string \<Rightarrow> string list \<Rightarrow> string list \<Rightarrow> string list option \<Rightarrow> authority_breach list" where
  "component_breaches name import_caps declared_caps allow =
     (let declared = sort (remdups declared_caps); imports = sort (remdups import_caps);
          declared_leg = (if unbounded \<in> set declared_caps then None else Some declared) in
      (if caps_widen declared_leg (Some imports)
       then [\<lparr>ab_leg = Leg_Import, ab_component = name, ab_capabilities = sort (filter (\<lambda>c. c \<notin> set declared) imports)\<rparr>] else [])
      @ (case allow of None \<Rightarrow> [] | Some patterns \<Rightarrow>
           let beyond = filter (\<lambda>c. \<not> cap_allowed c patterns) declared in
           if beyond \<noteq> [] then [\<lparr>ab_leg = Leg_Policy, ab_component = name, ab_capabilities = beyond\<rparr>] else []))"

definition module_breaches :: "policy option \<Rightarrow> (string, string) pydict \<Rightarrow> component_audit \<Rightarrow> authority_breach list" where
  "module_breaches p modules c = (case map_of modules (ca_name c) of None \<Rightarrow> []
     | Some wat \<Rightarrow> component_breaches (ca_name c) (wasm_import_capabilities wat) (reach_tokens c)
         (case p of None \<Rightarrow> None | Some q \<Rightarrow> allow_for q (ca_name c) (ca_realms c)))"

definition least_authority_breaches :: "(string \<times> json) list \<Rightarrow> policy option \<Rightarrow> (string, string) pydict \<Rightarrow> authority_breach list" where
  "least_authority_breaches ir p modules =
     concat (map (module_breaches p modules) (sort_key ca_name (ag_components (audit_report ir))))"

definition enforce_wasm_least_authority :: "(string \<times> json) list \<Rightarrow> policy option \<Rightarrow> (string, string) pydict \<Rightarrow> authority_breach + unit" where
  "enforce_wasm_least_authority ir p modules = (case least_authority_breaches ir p modules of [] \<Rightarrow> Inr () | b # bs \<Rightarrow> Inl b)"

end
