(* ===== verification/Authority_Properties.thy ===== *)
theory Authority_Properties
  imports Least_Authority
begin

section \<open>Authority from the body to the host\<close>

text \<open>
  The gate as one condition, what it means for the bodies behind the audit, and the chain from the imports
  of a module to the policy; then compositions in which the chain breaks.
\<close>

lemma body_crosses_iff: "body_crosses ir cmp w \<longleftrightarrow> w \<in> set (bs_writes (component_stats ir cmp))"
  by (simp only: stats_writes mem_Collect_eq)

lemma unambiguous_iff: "unambiguous ir cmp label \<longleftrightarrow> (\<forall>w \<in> set (bs_writes (component_stats ir cmp)). \<forall>w' \<in> set (bs_writes (component_stats ir cmp)).
    fst w = label \<longrightarrow> fst w' = label \<longrightarrow> snd w = snd w')"
  by (auto simp: unambiguous_def body_crosses_iff)


subsection \<open>The least-authority chain\<close>

definition caps_within :: "string list \<Rightarrow> string list \<Rightarrow> bool" where
  "caps_within imports declared \<longleftrightarrow> unbounded \<in> set declared \<or> set imports \<subseteq> set declared"

lemma widens_sets: "caps_widen (if unbounded \<in> set declared then None else Some (sort (remdups declared))) (Some (sort (remdups imports)))
    \<longleftrightarrow> \<not> caps_within imports declared"
  by (auto simp: caps_widen_def caps_within_def list_all_iff)

text \<open>No breach exactly where both inclusions hold, and a breach always names a capability.\<close>

lemma component_breaches_Nil: "component_breaches name imports declared allow = []
    \<longleftrightarrow> caps_within imports declared \<and> (\<forall>patterns. allow = Some patterns \<longrightarrow> (\<forall>t \<in> set declared. cap_allowed t patterns))"
  unfolding component_breaches_def Let_def widens_sets by (auto simp: filter_empty_conv split: option.splits)

lemma breach_names_capability: "b \<in> set (component_breaches name imports declared allow) \<Longrightarrow> ab_capabilities b \<noteq> []"
proof -
  assume b: "b \<in> set (component_breaches name imports declared allow)"
  have "sort (filter (\<lambda>c. c \<notin> set (sort (remdups declared))) (sort (remdups imports))) \<noteq> []" if "\<not> caps_within imports declared"
  proof -
    obtain t where "t \<in> set imports" "t \<notin> set declared" using \<open>\<not> caps_within imports declared\<close> by (auto simp: caps_within_def)
    then have "t \<in> set (sort (filter (\<lambda>c. c \<notin> set (sort (remdups declared))) (sort (remdups imports))))" by simp
    then show ?thesis by (metis empty_iff list.set(1))
  qed
  then show ?thesis using b unfolding component_breaches_def Let_def widens_sets by (auto split: if_splits option.splits)
qed

lemma chain_allowed:
  assumes "component_breaches name imports declared (Some allow) = []" "t \<in> set imports"
  shows "cap_allowed t allow"
proof (cases "unbounded \<in> set declared")
  case True
  then have "unbounded \<in> set allow" using assms(1) by (auto simp: component_breaches_Nil cap_allowed_def)
  then show ?thesis by (rule star_allows)
qed (use assms in \<open>auto simp: component_breaches_Nil caps_within_def\<close>)

lemma enforced_components: "enforce_wasm_least_authority ir p modules = Inr ()
    \<longleftrightarrow> (\<forall>c \<in> set (ag_components (audit_report ir)). module_breaches p modules c = [])"
proof -
  have "enforce_wasm_least_authority ir p modules = Inr () \<longleftrightarrow> least_authority_breaches ir p modules = []"
    by (simp add: enforce_wasm_least_authority_def split: list.splits)
  then show ?thesis by (simp add: least_authority_breaches_def)
qed


subsection \<open>Where the chain breaks\<close>

abbreviation node :: "(string \<times> json) list \<Rightarrow> json" where "node \<equiv> JObj"

definition emit_req :: "string \<Rightarrow> string \<Rightarrow> json" where
  "emit_req key m = node [(''step'', JStr ''emit''), (''expr'', node [(''kind'', JStr ''call''),
     (''target'', node [(''kind'', JStr ''req''), (''name'', JStr key)]), (''method'', JStr m)])]"

definition emit_instance :: "string \<Rightarrow> string \<Rightarrow> string \<Rightarrow> json" where
  "emit_instance key service m = node [(''step'', JStr ''emit''), (''expr'', node [(''kind'', JStr ''call''),
     (''callee'', node [(''kind'', JStr ''field''), (''name'', JStr m),
        (''target'', node [(''kind'', JStr ''instance-get''), (''key'', JStr key), (''service'', JStr service)])])])]"

definition call_fn :: "string \<Rightarrow> json" where
  "call_fn f = node [(''step'', JStr ''emit''), (''expr'', node [(''kind'', JStr ''fn''), (''name'', JStr f)])]"

definition svc_ir :: "string list \<Rightarrow> string \<Rightarrow> json" where
  "svc_ir caps m = node [(''methods'', node [(m, node [(''emission'', JBool True), (''capabilities'', JArr (map JStr caps))])])]"

definition extern_decl :: "string \<Rightarrow> string \<Rightarrow> string list \<Rightarrow> string option \<Rightarrow> json" where
  "extern_decl n cls caps register = node ([(''name'', JStr n), (''class'', JStr cls)]
     @ (if caps = [] then [] else [(''capabilities'', JArr (map JStr caps))])
     @ (case register of None \<Rightarrow> [] | Some r \<Rightarrow> [(''register'', JStr r)]))"

definition fn_decl :: "string \<Rightarrow> string list \<Rightarrow> json" where
  "fn_decl n callees = node [(''name'', JStr n), (''params'', JArr []), (''body'', JArr (map (\<lambda>c. node [(''kind'', JStr ''call''),
     (''callee'', node [(''kind'', JStr ''var''), (''name'', JStr c)])]) callees))]"

definition comp_decl :: "string \<Rightarrow> (string \<times> string) list \<Rightarrow> json list \<Rightarrow> json" where
  "comp_decl n requires body = node [(''name'', JStr n), (''requires'', node (map (\<lambda>(k, s). (k, JStr s)) requires)), (''body'', JArr body)]"

definition ir_of :: "(string \<times> json) list \<Rightarrow> json list \<Rightarrow> json list \<Rightarrow> json list \<Rightarrow> (string \<times> json) list" where
  "ir_of services externs fns comps = [(''services'', node services), (''externs'', JArr externs), (''functions'', JArr fns), (''components'', JArr comps)]"

definition deny_policy :: "string list \<Rightarrow> policy" where
  "deny_policy pats = blank_policy\<lparr>po_rules := [\<lparr>br_component = True, br_selector = ''*'', br_allow = False, br_patterns = pats\<rparr>]\<rparr>"

text \<open>
  Two instances of different components may provide one key through different services: their emissions
  share a label, and the table keeps the scope of the last.
\<close>

definition two_instances :: "(string \<times> json) list" where
  "two_instances = ir_of [(''A'', svc_ir [''db''] ''put''), (''B'', svc_ir [''log''] ''put'')] [] []
     [comp_decl ''C'' [] [emit_instance ''k'' ''A'' ''put'', emit_instance ''k'' ''B'' ''put'']]"

lemma shared_label_loses_scope:
  "evaluate (deny_policy [''db'']) [] (audit_report two_instances) = []
    \<and> (\<exists>c \<in> set (members two_instances ''components''). body_crosses two_instances (dict_of_json c) (''k.put'', [''db'']))"
  unfolding body_crosses_iff by code_simp

text \<open>
  Two functions that call each other: resolving the first stores the second as reaching nothing, because
  the first is on the trail, and host code behind it is not in the report of a component that calls it.
\<close>

definition mutual :: "(string \<times> json) list" where
  "mutual = ir_of [] [extern_decl ''digest'' ''pure'' [] None] [fn_decl ''f'' [''g'', ''digest''], fn_decl ''g'' [''f'']]
     [comp_decl ''C'' [] [call_fn ''g'']]"

lemma mutual_recursion_hides_host:
  "evaluate (deny_policy [''digest'']) [] (audit_report mutual) = []
    \<and> evaluate (deny_policy [''digest'']) [] (audit_report (ir_of [] [extern_decl ''digest'' ''pure'' [] None]
        [fn_decl ''f'' [''g'', ''digest''], fn_decl ''g'' [''f'']] [comp_decl ''C'' [] [call_fn ''f'']])) \<noteq> []"
  by code_simp

lemma mutual_reaches: "reaches_extern (extern_names mutual) (direct_calls mutual) ''g'' ''digest''"
proof -
  have d: "direct_calls mutual = [(''f'', [''g'', ''digest'']), (''g'', [''f''])]" "extern_names mutual = [''digest'']" by code_simp+
  have f: "reaches_extern [''digest''] [(''f'', [''g'', ''digest'']), (''g'', [''f''])] ''f'' ''digest''"
    by (rule reaches_direct) (simp_all add: dict_get_def)
  show ?thesis unfolding d by (rule reaches_through [of "''f''", OF _ _ f]) (simp_all add: dict_get_def)
qed

text \<open>
  A register floor is read off a table that only declarations with a register enter: an emission that
  declares none passes beside a keyed one on the same token.
\<close>

definition mixed_registers :: "(string \<times> json) list" where
  "mixed_registers = ir_of [] [extern_decl ''write'' ''emission'' [''db''] None, extern_decl ''put'' ''emission'' [''db''] (Some ''keyed'')] []
     [comp_decl ''C'' [] [call_fn ''write'']]"

definition keyed_floor :: policy where
  "keyed_floor = blank_policy\<lparr>po_registers := [\<lparr>gr_capability = ''db'', gr_at_least = ''keyed''\<rparr>]\<rparr>"

lemma unregistered_passes_floor:
  "evaluate keyed_floor [] (audit_report mixed_registers) = []
    \<and> evaluate keyed_floor [] (audit_report (ir_of [] [extern_decl ''write'' ''emission'' [''db''] None] [] [comp_decl ''C'' [] [call_fn ''write'']])) \<noteq> []"
  by code_simp

text \<open>
  A module imports the key its component requires, and the report holds the scope the service declares:
  where they differ, a conformant component is refused, with no policy at all.
\<close>

definition renamed_key :: "(string \<times> json) list" where
  "renamed_key = ir_of [(''KV'', svc_ir [''db''] ''put'')] [] [] [comp_decl ''Store'' [(''cache'', ''KV'')] [emit_req ''cache'' ''put'']]"

definition module_text :: "string \<Rightarrow> string" where
  "module_text key = ''(module '' @ import_open @ ''coeffect:'' @ key @ [quote_char] @ '' put))''"

lemma conformant_component_refused:
  "enforce_wasm_least_authority renamed_key None [(''Store'', module_text ''cache'')]
    = Inl \<lparr>ab_leg = Leg_Import, ab_component = ''Store'', ab_capabilities = [''cache'']\<rparr>"
  by code_simp


subsection \<open>The gate and the bodies behind it\<close>

definition allow_policy :: "string list \<Rightarrow> policy" where
  "allow_policy pats = blank_policy\<lparr>po_rules := [\<lparr>br_component = True, br_selector = ''*'', br_allow = True, br_patterns = pats\<rparr>]\<rparr>"


definition shop_ir :: "(string \<times> json) list" where
  "shop_ir = ir_of [(''KV'', svc_ir [''kv''] ''put'')] [extern_decl ''send'' ''emission'' [''mail''] None] [fn_decl ''notify'' [''send'']]
     [comp_decl ''Shop'' [(''kv'', ''KV'')] [emit_req ''kv'' ''put'', call_fn ''notify'']]"

definition shop_policy :: policy where "shop_policy = allow_policy [''kv*'', ''mail'']"


lemma admitted_verdict:
  assumes "evaluate p mcp (audit_report ir) = []" "distinct (map component_name (members ir ''components''))" "c \<in> set (members ir ''components'')"
    "call_ranked (extern_names ir) (direct_calls ir) rk" "may_cross ir c t"
  shows "capability_verdict p (component_name c) (component_realms (dict_of_json (member ir ''manifest'')) (component_name c)) t
    \<and> sandboxed p (component_name c \<in> set mcp) t"
  using admitted_lawful [OF assms(1-3)] may_cross_token [OF assms(4,5)] by (simp add: component_lawful_def audited_fields)

text \<open>C39: An admitted composition does nothing its policy denies.  When the gate finds no violation and no
  function calls itself, directly or not, every capability a component's body may cross, through an
  emission whose label has one scope or through host code it calls or reaches by functions, is allowed to
  that component by the policy and by the agent sandbox where it applies.
\<close>

theorem admitted_crossings_allowed:
  assumes "evaluate p mcp (audit_report ir) = []"
    and "distinct (map component_name (members ir ''components''))"
    and "c \<in> set (members ir ''components'')"
    and "call_ranked (extern_names ir) (direct_calls ir) rk"
    and "may_cross ir c t"
  shows "capability_verdict p (component_name c) (component_realms (dict_of_json (member ir ''manifest'')) (component_name c)) t
    \<and> sandboxed p (component_name c \<in> set mcp) t"
  using assms by (rule admitted_verdict)

definition shop_component :: json where "shop_component = hd (members shop_ir ''components'')"

lemma shop_crosses_kv: "may_cross shop_ir shop_component ''kv''"
proof -
  have "(''kv.put'', [''kv'']) \<in> set (bs_writes (component_stats shop_ir (dict_of_json shop_component)))" by code_simp
  moreover have "unambiguous shop_ir (dict_of_json shop_component) ''kv.put''" unfolding unambiguous_iff by code_simp
  ultimately show ?thesis unfolding may_cross_def body_crosses_iff by (meson list.set_intros(1))
qed

lemma shop_ranked: "call_ranked (extern_names shop_ir) (direct_calls shop_ir) (\<lambda>n. 0)"
proof -
  have "extern_names shop_ir = [''send'']" "direct_calls shop_ir = [(''notify'', [''send''])]" by code_simp+
  then show ?thesis by (simp add: call_ranked_def dict_get_def)
qed

lemma admitted_crossings_allowed_witness: "capability_verdict shop_policy ''Shop'' [] ''kv''"
proof -
  have clean: "evaluate shop_policy [] (audit_report shop_ir) = []" by code_simp
  have names: "distinct (map component_name (members shop_ir ''components''))" by code_simp
  have c: "shop_component \<in> set (members shop_ir ''components'')" by code_simp
  have "component_name shop_component = ''Shop''" "component_realms (dict_of_json (member shop_ir ''manifest'')) ''Shop'' = []" by code_simp+
  then show ?thesis using admitted_crossings_allowed [OF clean names c shop_ranked shop_crosses_kv] by simp
qed

lemma enforced_imports_allowed:
  assumes "enforce_wasm_least_authority ir (Some p) modules = Inr ()" "c \<in> set (ag_components (audit_report ir))"
    "map_of modules (ca_name c) = Some wat" "allow_for p (ca_name c) (ca_realms c) = Some allow" "t \<in> set (wasm_import_capabilities wat)"
  shows "cap_allowed t allow"
proof -
  have "module_breaches (Some p) modules c = []" using assms(1,2) by (simp add: enforced_components)
  then have "component_breaches (ca_name c) (wasm_import_capabilities wat) (reach_tokens c) (Some allow) = []"
    using assms(3,4) by (simp add: module_breaches_def)
  then show ?thesis using chain_allowed assms(5) by blast
qed

text \<open>C40: The least-authority chain holds end to end.  When the enforcement passes, every capability in the
  import section of the module emitted for a component is inside the closed allow-list the policy gives
  that component, an unbounded declaration included.
\<close>

theorem least_authority_chain:
  assumes "enforce_wasm_least_authority ir (Some p) modules = Inr ()"
    and "c \<in> set (ag_components (audit_report ir))"
    and "map_of modules (ca_name c) = Some wat"
    and "allow_for p (ca_name c) (ca_realms c) = Some allow"
    and "t \<in> set (wasm_import_capabilities wat)"
  shows "cap_allowed t allow"
  using assms by (rule enforced_imports_allowed)

lemma least_authority_chain_witness: "cap_allowed ''kv'' [''kv*'', ''mail'']"
proof -
  let ?c = "hd (ag_components (audit_report shop_ir))"
  have "enforce_wasm_least_authority shop_ir (Some shop_policy) [(''Shop'', module_text ''kv'')] = Inr ()" by code_simp
  moreover have "?c \<in> set (ag_components (audit_report shop_ir))" by code_simp
  moreover have "map_of [(''Shop'', module_text ''kv'')] (ca_name ?c) = Some (module_text ''kv'')" by code_simp
  moreover have "allow_for shop_policy (ca_name ?c) (ca_realms ?c) = Some [''kv*'', ''mail'']" by code_simp
  moreover have "''kv'' \<in> set (wasm_import_capabilities (module_text ''kv''))" by code_simp
  ultimately show ?thesis by (rule least_authority_chain)
qed

end
