(* ===== verification/Spec2Isabelle.thy ===== *)
theory Spec2Isabelle
  imports Cap_Properties Lawful_Retry Petri_Bounds Lease_Check Layer_Properties Wal_Settlement
    Activation_Properties Semver Promotion_Barrier Version_Derive Service_Documents Liveness_Properties
    Schedule_Properties Emission_Properties Parallel_Properties Lexer_Roundtrip
    Quorum_Guarantees Recovery_Guarantees Cardinality_Properties Authority_Properties
begin

text \<open>
  A verification library for revl: a compiler, a gate and a runtime for programs whose effects
  declare how they are reverted.  The library models the decision procedures of \<^verbatim>\<open>src/src/revl\<close>,
  the parts where an answer is computed: who may hold which authority, what may be replayed, what
  a composition's net can do, who may change a component, what a rollback restored, what a log
  says after a crash, in which order components come up, which release is newer, and whether a
  promotion reads its authority diff before its measurements.

  How the parts fit together.  The capability order is the bottom: spawn attenuation, delegation
  between peers and the choice of a peer all reduce to \<open>covers\<close>.  \<open>Peer_Authority\<close> applies it
  hop by hop to a chain of grants; \<open>Peer_Offer\<close> decides whether a peer's signed offer can host a
  placement; \<open>Lawful_Retry\<close> uses both to decide what happens to the work of a lost peer.  The type
  algebra is the other order: admission asks it whether a redeclared service still takes the calls of
  a running consumer, and a derived version bump is that verdict.  The emission analysis says which
  functions reach an irreversible effect and through which capabilities; the parallel partition
  asks it which steps stand between two emissions, and asks the capability order which emissions may
  run side by side; the cardinality bounds say how often each can happen.  The audit enumerates from the
  same bodies what a component may cross, the boundary policy decides over that audit what is admitted,
  and least authority holds the imports of an emitted module inside both.  The Petri engine carries the
  liveness verdict of a composition.  Activation consumes the dependency graph that the linker has proved acyclic, and the schedules drive the same graph through
  chosen interleavings.  The lease book is the mutual exclusion of
  the sessions that edit one composition, the layer report and the write-ahead log are what the
  runtime can account for after a rollback or a crash, and versions and the promotion barrier
  govern what replaces what.  Recovery reads the log of a dead process and decides what is undone, what
  is finished and what is left to a human.  The questions of a session decide which crossing several
  people must approve, and the lexer is the first pass over every source.

  Theories, in the order of the code they model (the files are under \<^verbatim>\<open>src/src/revl\<close>).

  \<^item> \<open>Revl_Prelude\<close>: Python strings, dictionaries (association lists in insertion order), results
    as sums, and the facts about splitting, stripping, joining and printing that every component
    uses.  \<open>Json_Value\<close>: documents as Python's \<^verbatim>\<open>json\<close> returns them.
  \<^item> \<open>Cap_Order\<close> (\<^verbatim>\<open>cap_order.py\<close>): registry, canonical values, constructor, spellings,
    substitution, ceilings and the relation \<open>covers\<close>.  \<open>Cap_Spelling\<close> shows what canonicalization
    establishes and what a printed spelling preserves, \<open>Cap_Laws\<close> that \<open>covers\<close> is an order,
    \<open>Cap_Properties\<close> states the properties.  The interface \<open>attenuation\<close> (theory \<open>Attenuation\<close>)
    has the two laws of a covering relation and the facts about chains of coverings; it is
    interpreted on the model's \<open>covers\<close>.
  \<^item> \<open>Peer_Authority\<close> (\<^verbatim>\<open>peer_authority.py\<close>), \<open>Peer_Offer\<close> (\<^verbatim>\<open>peer_offer.py\<close>) and
    \<open>Lawful_Retry\<close> (\<^verbatim>\<open>lawful_retry.py\<close>): a checked chain never exceeds its root, and a replay is
    lawful and bounded.
  \<^item> \<open>Petri\<close> (\<^verbatim>\<open>petri.py\<close>): firing, the breadth-first walk, the signed elimination.  \<open>Petri_Walk\<close>
    proves the walk sound, and exact when it is conclusive; \<open>Petri_Semiflow\<close> and \<open>Petri_Bounds\<close>
    prove that semiflows are conserved and that a structurally bounded net has a conclusive walk.
  \<^item> \<open>Leases\<close> (\<^verbatim>\<open>mcp/leases.py\<close>): the lease book as explicit state.  \<open>Lease_Properties\<close> and
    \<open>Lease_Check\<close> lift invariants of one operation to any run, through the interface
    \<open>guarded_system\<close> (theory \<open>Guarded_System\<close>), interpreted on the model's step for each invariant.
  \<^item> \<open>Layer_State\<close> and \<open>Layer_Properties\<close> (\<^verbatim>\<open>layer_state.py\<close>): the gate on a rollback plan is
    equivalent to one statement of an admissible plan, and the report classifies every layer.
  \<^item> \<open>Wal\<close> (\<^verbatim>\<open>wal.py\<close>): reader, sealer and settlement over files as byte lists.  \<open>Wal_File\<close> relates the chunked backward
    scan to its reference and shows what a read keeps; \<open>Wal_Properties\<close> and \<open>Wal_Settlement\<close> treat
    appends, acknowledgements and the settlement report.
  \<^item> \<open>Activation\<close> and \<open>Activation_Properties\<close> (\<^verbatim>\<open>activation.py\<close>): the concurrent boot as a step
    relation over tasks; ordering, progress and the sequential fallback.
  \<^item> \<open>Schedule\<close> and \<open>Schedule_Properties\<close> (\<^verbatim>\<open>schedule.py\<close>): the atoms a state enables, the chooser, the
    drive loop and the minimizer.  The drive is an instance of \<open>ready_system\<close> (theory \<open>Ready_System\<close>),
    the interface of a system that offers a list of enabled steps and performs a chosen one.
  \<^item> \<open>Type_Algebra\<close> (the parts of \<^verbatim>\<open>typecheck.py\<close> and \<^verbatim>\<open>parser.py\<close> that read, compare and join types) and
    \<open>Type_Order\<close>, which shows that compatibility is a preorder on static types.
  \<^item> \<open>Service_Documents\<close>, \<open>Admission\<close> and \<open>Admission_Properties\<close> (\<^verbatim>\<open>admission.py\<close>): the gates on a redeclared
    service and on a withdrawn provision; \<open>Version_Derive\<close> (\<^verbatim>\<open>version.py\<close>): the bump derived from two
    compiled service tables.
  \<^item> \<open>Liveness\<close>, \<open>Liveness_Net\<close> and \<open>Liveness_Properties\<close> (\<^verbatim>\<open>liveness.py\<close>): the net a composition denotes, its
    walk and the report, with the activation of components as the reference the verdict is compared to.
  \<^item> \<open>Emission_Analysis\<close> and \<open>Emission_Properties\<close> (\<^verbatim>\<open>emission_analysis.py\<close>): the fixed points over the call
    graph, equal to inductive reachability relations; \<open>Parallel\<close> and \<open>Parallel_Properties\<close>
    (\<^verbatim>\<open>parallel.py\<close>): the partition of a body's emissions.
  \<^item> \<open>Cardinality\<close> (\<^verbatim>\<open>cardinality.py\<close>): path counts, the recognizer of bounded iteration and the ceiling of a call that
    enters a loop.  \<open>Cardinality_Paths\<close> is the reference, the runs of a lowered body as a big-step relation;
    \<open>Cardinality_Bounds\<close> counts the activations of a recursion and the rounding of its iteration count;
    \<open>Cardinality_Properties\<close> has the ceiling, and the certified shapes for which it is too low.
  \<^item> \<open>Boundary_Policy\<close> (\<^verbatim>\<open>policy.py\<close>): patterns, rules, the gate and the dry run, with
    \<open>Boundary_Policy_Properties\<close> reading the gate as one condition; \<open>Audit_Boundary\<close> (\<^verbatim>\<open>boundary.py\<close>,
    \<^verbatim>\<open>audit_diff.py\<close>): the audit graph of a document, with \<open>Audit_Properties\<close> relating it to the parts
    of a body and to reachability between functions; \<open>Least_Authority\<close> (\<^verbatim>\<open>least_authority.py\<close>).
    \<open>Authority_Properties\<close> has the properties that span them, and the compositions that slip past the gate.
  \<^item> \<open>Brace_Match\<close>, \<open>Lexer\<close>, \<open>Lexer_Properties\<close> and \<open>Lexer_Roundtrip\<close> (\<^verbatim>\<open>lexer.py\<close>): the whole lexer with its
    raw-brace scanner; the lines and names of its tokens, and the round trip with printed spellings.
  \<^item> \<open>Quorum_Cast\<close> and \<open>Quorum\<close> (\<^verbatim>\<open>mcp/quorum.py\<close> and the multi-party part of \<^verbatim>\<open>mcp/session.py\<close>): whose vote
    a cast is, the questions of a session, their acts, the minted approval and its receipt.
    \<open>Quorum_Properties\<close> writes every act as a sequence of a few moves that keep one invariant, and
    lifts it to a session's life by \<open>guarded_system\<close>; \<open>Quorum_Guarantees\<close> reads the properties off it.
  \<^item> \<open>Recovery\<close> (\<^verbatim>\<open>recovery.py\<close>): the verdict on a dead process's log, the roll-back, the approved window, the
    completed activation and the shared handles, against a world given as an adapter.  \<open>Recovery_Properties\<close> shows
    that only owed calls are made and each fenced one once over any series of crashing recoveries,
    \<open>Recovery_Guarantees\<close> the order of a roll-back, its account of the log and when a roll-forward is clean.
  \<^item> \<open>Semver\<close> (\<^verbatim>\<open>update/semver.py\<close>) and \<open>Promotion_Barrier\<close> (\<^verbatim>\<open>promotion_barrier.py\<close>).

  Conventions.  A raise is a value of an error datatype in the left of a sum, an optional result an
  \<^verbatim>\<open>option\<close>.  Python integers are \<^verbatim>\<open>int\<close>.  Clock readings and finite floats are exact rationals:
  rounding is not modelled (but in the iteration count of \<open>Cardinality\<close>, which divides to a double),
  infinities and NaN are, where a document can carry them.  A string holds code points below 256.
  The prose of an error message is not built; the error carries the data the message is built from.
  Set-valued results are lists without duplicates or HOL sets, and are compared as sets.

  Bounds.  The backward scan of the sealer reads chunks of 4096 bytes as the code does; its recursion
  is structural in the end offset.  The walk of the marking graph has no fuel of its own: it ends by
  a measure on the state cap and the queue, and \<open>structurally_bounded_conclusive\<close> shows that large
  enough caps exist.  The elimination recurses over the transitions.

  Parameters, for code outside the repository: the keyed digest and the canonical bytes of a signed
  record (\<open>mac\<close>), the decoder of a log line (\<open>parse\<close>), the printer of a record (\<open>dumps\<close>),
  the digests and the signature check of a vote (\<open>cr_sha\<close>, \<open>cr_verify\<close>, \<open>cf_digest\<close>), and the
  world a recovery acts on (\<open>adapter\<close>).  A property that relies on them names what it relies on,
  and its witness has a concrete instance.

  Not modelled: file durability, the event loop beyond the awaits of a task, attestation reports and
  asymmetric signatures, the evidence rules of the policy and the readers of its files, and everything
  \<^verbatim>\<open>PROJECT.json\<close> lists as such: the parser, the lowering, the inference of expressions, the taint
  analysis, deployment and placement, the rest of the session server, the backends and the tools.  They
  are either drivers of processes, files and networks, whose decisions are the parts modelled here, or
  passes over syntax trees whose size is out of proportion to one development.
\<close>

end
